(* ===== verification/Titan_Prelude.thy ===== *)
theory Titan_Prelude
  imports Main "HOL-Library.Word"
begin

text \<open>
  The shared base of the development: the names of the machine types the sources use
  (\<open>uint8_t\<close>, \<open>uint32_t\<close>, \<open>uint64_t\<close>, byte strings and slices), the
  \<open>rocksdb::Status\<close> values every fallible operation returns, and the generic lemmas on
  words, lists and association lists that the component theories use.

  A \<open>Slice\<close> or \<open>std::string\<close> is a list of bytes.  A decoder \<open>bool Get(Slice*, T*)\<close>
  becomes a function from the slice to \<open>None\<close> (the code returns \<open>false\<close>) or to the value
  together with the rest of the slice.
\<close>

unbundle bit_operations_syntax

named_theorems word_bits \<open>bits of the numerals the encodings mask with\<close>
named_theorems codec_rt \<open>round-trip equations of the encoders and decoders\<close>
named_theorems codec_len \<open>lengths of encodings\<close>

type_synonym byte = "8 word"
type_synonym u32 = "32 word"
type_synonym u64 = "64 word"
type_synonym bytes = "byte list"
type_synonym 'a parser = "bytes \<Rightarrow> ('a \<times> bytes) option"

section \<open>Status\<close>

datatype status =
    OK
  | NotFound string
  | Corruption string
  | NotSupported string
  | InvalidArgument string
  | IOError string
  | Incomplete string
  | ShutdownInProgress
  | Aborted string
  | Busy string

abbreviation ok :: "status \<Rightarrow> bool" where
  "ok s \<equiv> s = OK"

fun IsNotFound :: "status \<Rightarrow> bool" where
  "IsNotFound (NotFound _) = True"
| "IsNotFound _ = False"

fun IsCorruption :: "status \<Rightarrow> bool" where
  "IsCorruption (Corruption _) = True"
| "IsCorruption _ = False"

fun IsBusy :: "status \<Rightarrow> bool" where
  "IsBusy (Busy _) = True"
| "IsBusy _ = False"

fun IsNotSupported :: "status \<Rightarrow> bool" where
  "IsNotSupported (NotSupported _) = True"
| "IsNotSupported _ = False"

section \<open>Bits of numerals\<close>

lemma bit_127 [word_bits]: "bit (127 :: int) n \<longleftrightarrow> n < 7"
proof -
  have "(127 :: int) = mask 7" by (simp add: mask_eq_exp_minus_1)
  then have "bit (127 :: int) n \<longleftrightarrow> bit (mask 7 :: int) n" by (simp only:)
  then show ?thesis by (simp only: bit_mask_iff) auto
qed

lemma bit_255 [word_bits]: "bit (255 :: int) n \<longleftrightarrow> n < 8"
proof -
  have "(255 :: int) = mask 8" by (simp add: mask_eq_exp_minus_1)
  then have "bit (255 :: int) n \<longleftrightarrow> bit (mask 8 :: int) n" by (simp only:)
  then show ?thesis by (simp only: bit_mask_iff) auto
qed

lemma bit_128 [word_bits]: "bit (128 :: int) n \<longleftrightarrow> n = 7"
proof -
  have "(128 :: int) = 2 ^ 7" by simp
  then have "bit (128 :: int) n \<longleftrightarrow> bit (2 ^ 7 :: int) n" by (simp only:)
  then show ?thesis by (simp only: bit_exp_iff) auto
qed

lemma bit_256 [word_bits]: "bit (256 :: int) n \<longleftrightarrow> n = 8"
proof -
  have "(256 :: int) = 2 ^ 8" by simp
  then have "bit (256 :: int) n \<longleftrightarrow> bit (2 ^ 8 :: int) n" by (simp only:)
  then show ?thesis by (simp only: bit_exp_iff) auto
qed

text \<open>A word below a power of two has no bit at or above the exponent.\<close>

lemma unat_less_exp_bit:
  fixes v :: "'a::len word"
  assumes "unat v < 2 ^ k" and "bit v n"
  shows "n < k"
proof (rule ccontr)
  assume "\<not> n < k"
  then have "unat v < 2 ^ n"
    using assms(1) by (meson leI le_less_trans less_le_trans one_le_numeral power_increasing)
  then have "unat v div 2 ^ n = 0" by simp
  moreover from assms(2) have "bit (unat v) n" by (simp add: bit_unsigned_iff)
  ultimately show False by (simp add: bit_iff_odd)
qed

lemma and_128_eq_0:
  fixes v :: "'a::len word"
  assumes "unat v < 128"
  shows "v AND 128 = 0"
proof (rule bit_word_eqI)
  fix n assume "n < LENGTH('a)"
  have "\<not> bit v 7" using unat_less_exp_bit [of v 7 7] assms by auto
  then show "bit (v AND 128) n \<longleftrightarrow> bit (0 :: 'a word) n"
    by (auto simp: bit_simps word_bits)
qed

lemma and_128_neq_0:
  fixes v :: "'a::len word"
  assumes "bit v 7"
  shows "v AND 128 \<noteq> 0"
proof -
  from assms have "7 < LENGTH('a)" by (rule bit_imp_le_length)
  with assms have "bit (v AND 128) 7" by (simp add: bit_simps word_bits)
  then show ?thesis by (metis bit_0_eq bot_apply bot_bool_def)
qed

lemma unat_drop_bit_7: "unat (drop_bit 7 (v :: 'a::len word)) = unat v div 128"
proof -
  have "unat (drop_bit 7 v) = drop_bit 7 (unat v)" by (rule unat_drop_bit_eq)
  then show ?thesis by (simp only: drop_bit_eq_div) simp
qed

lemma unat_drop_bit_div: "unat (drop_bit k (v :: 'a::len word)) = unat v div 2 ^ k"
  using unat_drop_bit_eq [of k v] by (simp only: drop_bit_eq_div)

lemma unat_lt_u32: "unat (v :: u32) < 2 ^ 32"
  using unsigned_less [of v, where ?'a = nat] by simp

lemma unat_lt_u64: "unat (v :: u64) < 2 ^ 64"
  using unsigned_less [of v, where ?'a = nat] by simp

lemma unat_ucast_u32_u64: "unat (ucast (x :: u32) :: u64) = unat x"
proof -
  have "unat x < 2 ^ 64" using unat_lt_u32 [of x] by simp
  then show ?thesis by (simp add: unsigned_ucast_eq take_bit_nat_eq_self)
qed

text \<open>Narrowing to a byte and widening again keeps the low bits.\<close>

lemma ucast_byte_id:
  fixes v :: "'a::len word"
  assumes "unat v < 256"
  shows "ucast (ucast v :: byte) = v"
proof (rule bit_word_eqI)
  fix n assume "n < LENGTH('a)"
  show "bit (ucast (ucast v :: byte) :: 'a word) n \<longleftrightarrow> bit v n"
    using unat_less_exp_bit [of v 8 n] assms by (auto simp: bit_simps dest: bit_imp_le_length)
qed

section \<open>Hash maps as association lists\<close>

text \<open>
  A \<open>std::unordered_map\<close> is an association list with distinct keys; its order stands for the
  unspecified iteration order.  \<open>emplace\<close> does not overwrite.
\<close>

definition emplace :: "'k \<Rightarrow> 'v \<Rightarrow> ('k \<times> 'v) list \<Rightarrow> ('k \<times> 'v) list" where
  "emplace k v xs = (if k \<in> fst ` set xs then xs else xs @ [(k, v)])"

definition al_modify :: "'k \<Rightarrow> ('v \<Rightarrow> 'v) \<Rightarrow> ('k \<times> 'v) list \<Rightarrow> ('k \<times> 'v) list" where
  "al_modify k f xs = map (\<lambda>p. if fst p = k then (fst p, f (snd p)) else p) xs"

definition al_erase :: "'k \<Rightarrow> ('k \<times> 'v) list \<Rightarrow> ('k \<times> 'v) list" where
  "al_erase k xs = filter (\<lambda>p. fst p \<noteq> k) xs"

lemma map_fst_al_modify [simp]: "map fst (al_modify k f xs) = map fst xs"
  by (simp add: al_modify_def comp_def if_distrib cong: if_cong)

lemma set_fst_al_modify [simp]: "fst ` set (al_modify k f xs) = fst ` set xs"
  by (induction xs) (auto simp: al_modify_def)

lemma map_of_al_modify:
  "map_of (al_modify k f xs) = (\<lambda>j. if j = k then map_option f (map_of xs k) else map_of xs j)"
  by (induction xs) (auto simp: al_modify_def fun_eq_iff)

lemma map_of_al_erase: "map_of (al_erase k xs) = (map_of xs)(k := None)"
  by (induction xs) (auto simp: al_erase_def fun_eq_iff)

lemma map_of_snoc: "k \<notin> fst ` set xs \<Longrightarrow> map_of (xs @ [(k, v)]) = (map_of xs)(k \<mapsto> v)"
  by (induction xs) (auto simp: fun_eq_iff)

lemma map_of_emplace:
  "map_of (emplace k v xs) = (if k \<in> fst ` set xs then map_of xs else (map_of xs)(k \<mapsto> v))"
  by (simp add: emplace_def map_of_snoc del: map_of_append)

lemma distinct_emplace: "distinct (map fst xs) \<Longrightarrow> distinct (map fst (emplace k v xs))"
  by (auto simp: emplace_def)

lemma distinct_al_erase: "distinct (map fst xs) \<Longrightarrow> distinct (map fst (al_erase k xs))"
  by (induction xs) (auto simp: al_erase_def)

lemma al_erase_remove1:
  "distinct (map fst xs) \<Longrightarrow> map_of xs k = Some v \<Longrightarrow> al_erase k xs = remove1 (k, v) xs"
proof (induction xs)
  case (Cons p xs)
  have "k \<notin> fst ` set xs \<Longrightarrow> al_erase k xs = xs"
    by (auto simp: al_erase_def filter_id_conv)
  with Cons show ?case by (cases p) (auto simp: al_erase_def split: if_splits)
qed simp

end
