(* ===== verification/Titan_Coding.thy ===== *)
theory Titan_Coding
  imports Titan_Prelude
begin

text \<open>
  The integer and slice encodings of \<open>util/coding.h\<close>, \<open>util/coding_lean.h\<close> and
  \<open>util/coding.cc\<close> that every Titan format is built from: little-endian fixed-width
  integers, base-128 varints and length-prefixed slices.  The locale \<open>codec\<close> is the contract
  a \<open>Put\<close>/\<open>Get\<close> pair gives to the formats that use it; each pair interprets it.
\<close>

section \<open>The contract of an encoder and its decoder\<close>

text \<open>
  \<open>put\<close> appends the encoding of a value, \<open>get\<close> reads one value off the front of a slice;
  \<open>wf\<close> are the values the encoding can carry.
\<close>

locale codec =
  fixes put :: "'a \<Rightarrow> bytes"
    and get :: "'a parser"
    and wf :: "'a \<Rightarrow> bool"
  assumes get_put: "wf x \<Longrightarrow> get (put x @ rest) = Some (x, rest)"
    and get_shrinks: "get bs = Some (x, rest) \<Longrightarrow> length rest < length bs"
begin

lemma get_put_nil: "wf x \<Longrightarrow> get (put x) = Some (x, [])"
  using get_put [of x "[]"] by simp

lemma put_nonempty: "wf x \<Longrightarrow> put x \<noteq> []"
  using get_put_nil [of x] get_shrinks [of "put x" x "[]"] by auto

lemma put_prefix_free:
  assumes "wf x" and "wf y" and "put x @ r = put y @ s"
  shows "x = y \<and> r = s"
proof -
  have "Some (x, r) = Some (y, s)"
    using get_put [OF assms(1), of r] get_put [OF assms(2), of s] assms(3) by metis
  then show ?thesis by simp
qed

lemma put_inj: "wf x \<Longrightarrow> wf y \<Longrightarrow> put x = put y \<Longrightarrow> x = y"
  using put_prefix_free [of x y "[]" "[]"] by simp

end

section \<open>Fixed-width integers\<close>

text \<open>
  On a little-endian machine \<open>memcpy\<close> stores the least significant byte first, which is
  also what the big-endian branch of the code writes out.
\<close>

definition EncodeFixed32 :: "u32 \<Rightarrow> bytes" where
  "EncodeFixed32 value =
     [ucast (value AND 0xff), ucast (drop_bit 8 value AND 0xff),
      ucast (drop_bit 16 value AND 0xff), ucast (drop_bit 24 value AND 0xff)]"

definition EncodeFixed64 :: "u64 \<Rightarrow> bytes" where
  "EncodeFixed64 value =
     [ucast (value AND 0xff), ucast (drop_bit 8 value AND 0xff),
      ucast (drop_bit 16 value AND 0xff), ucast (drop_bit 24 value AND 0xff),
      ucast (drop_bit 32 value AND 0xff), ucast (drop_bit 40 value AND 0xff),
      ucast (drop_bit 48 value AND 0xff), ucast (drop_bit 56 value AND 0xff)]"

text \<open>
  The decoders read without a bounds check; \<open>byte_at\<close> gives 0 past the end, and every
  caller checks the length first.
\<close>

definition byte_at :: "bytes \<Rightarrow> nat \<Rightarrow> byte" where
  "byte_at bs i = (if i < length bs then bs ! i else 0)"

definition DecodeFixed32 :: "bytes \<Rightarrow> u32" where
  "DecodeFixed32 ptr =
     ucast (byte_at ptr 0) OR push_bit 8 (ucast (byte_at ptr 1)) OR
     push_bit 16 (ucast (byte_at ptr 2)) OR push_bit 24 (ucast (byte_at ptr 3))"

definition DecodeFixed64 :: "bytes \<Rightarrow> u64" where
  "DecodeFixed64 ptr =
     (let lo = ucast (DecodeFixed32 ptr); hi = ucast (DecodeFixed32 (drop 4 ptr))
      in push_bit 32 hi OR lo)"

definition PutFixed32 :: "bytes \<Rightarrow> u32 \<Rightarrow> bytes" where
  "PutFixed32 dst value = dst @ EncodeFixed32 value"

definition PutFixed64 :: "bytes \<Rightarrow> u64 \<Rightarrow> bytes" where
  "PutFixed64 dst value = dst @ EncodeFixed64 value"

definition GetFixed32 :: "u32 parser" where
  "GetFixed32 input =
     (if length input < 4 then None else Some (DecodeFixed32 input, drop 4 input))"

definition GetFixed64 :: "u64 parser" where
  "GetFixed64 input =
     (if length input < 8 then None else Some (DecodeFixed64 input, drop 8 input))"

lemma length_EncodeFixed32 [simp, codec_len]: "length (EncodeFixed32 v) = 4"
  by (simp add: EncodeFixed32_def)

lemma length_EncodeFixed64 [simp, codec_len]: "length (EncodeFixed64 v) = 8"
  by (simp add: EncodeFixed64_def)

lemma byte_at_Cons_0 [simp]: "byte_at (b # bs) 0 = b"
  by (simp add: byte_at_def)

lemma byte_at_Cons_Suc [simp]: "byte_at (b # bs) (Suc i) = byte_at bs i"
  by (simp add: byte_at_def)

lemma byte_at_Cons_numeral [simp]:
  "byte_at (b # bs) (numeral k) = byte_at bs (pred_numeral k)"
  by (simp add: numeral_eq_Suc)

lemma byte_at_nth [simp]: "i < length bs \<Longrightarrow> byte_at bs i = bs ! i"
  by (simp add: byte_at_def)

lemma DecodeFixed32_Encode:
  "DecodeFixed32 (EncodeFixed32 v @ rest) = v"
proof (rule bit_word_eqI)
  fix n assume "n < LENGTH(32)"
  then consider "n < 8" | "8 \<le> n" "n < 16" | "16 \<le> n" "n < 24" | "24 \<le> n" "n < 32"
    by fastforce
  then show "bit (DecodeFixed32 (EncodeFixed32 v @ rest)) n \<longleftrightarrow> bit v n"
    by cases (simp_all add: DecodeFixed32_def EncodeFixed32_def bit_simps word_bits less_diff_conv2 le_diff_conv2)
qed

lemma DecodeFixed64_Encode:
  "DecodeFixed64 (EncodeFixed64 v @ rest) = v"
proof (rule bit_word_eqI)
  fix n assume "n < LENGTH(64)"
  then consider "n < 8" | "8 \<le> n" "n < 16" | "16 \<le> n" "n < 24" | "24 \<le> n" "n < 32"
    | "32 \<le> n" "n < 40" | "40 \<le> n" "n < 48" | "48 \<le> n" "n < 56" | "56 \<le> n" "n < 64"
    by fastforce
  then show "bit (DecodeFixed64 (EncodeFixed64 v @ rest)) n \<longleftrightarrow> bit v n"
    by cases (simp_all add: DecodeFixed64_def DecodeFixed32_def EncodeFixed64_def Let_def
        bit_simps word_bits less_diff_conv2 le_diff_conv2)
qed

lemma GetFixed32_Encode [codec_rt]: "GetFixed32 (EncodeFixed32 v @ rest) = Some (v, rest)"
  by (simp add: GetFixed32_def DecodeFixed32_Encode)

lemma GetFixed64_Encode [codec_rt]: "GetFixed64 (EncodeFixed64 v @ rest) = Some (v, rest)"
  by (simp add: GetFixed64_def DecodeFixed64_Encode)

interpretation fixed32: codec EncodeFixed32 GetFixed32 "\<lambda>_. True"
  by unfold_locales (simp_all add: GetFixed32_Encode, auto simp: GetFixed32_def split: if_splits)

interpretation fixed64: codec EncodeFixed64 GetFixed64 "\<lambda>_. True"
  by unfold_locales (simp_all add: GetFixed64_Encode, auto simp: GetFixed64_def split: if_splits)

section \<open>Varints\<close>

function EncodeVarint64 :: "u64 \<Rightarrow> bytes" where
  "EncodeVarint64 v =
     (if v \<ge> 128 then ucast ((v AND 127) OR 128) # EncodeVarint64 (drop_bit 7 v)
      else [ucast v])"
  by pat_completeness auto
termination
proof (relation "measure unat")
  fix v :: u64 assume "128 \<le> v"
  then have "128 \<le> unat v" by (simp add: word_le_nat_alt)
  then show "(drop_bit 7 v, v) \<in> measure unat"
    unfolding in_measure unat_drop_bit_7 by simp
qed simp

declare EncodeVarint64.simps [simp del]

text \<open>
  \<open>EncodeVarint32\<close> is unrolled in the source: one branch per length.  Storing a wider
  integer into an \<open>unsigned char\<close> keeps its low eight bits.
\<close>

definition EncodeVarint32 :: "u32 \<Rightarrow> bytes" where
  "EncodeVarint32 v =
     (if v < 2 ^ 7 then [ucast v]
      else if v < 2 ^ 14 then [ucast (v OR 128), ucast (drop_bit 7 v)]
      else if v < 2 ^ 21 then
        [ucast (v OR 128), ucast (drop_bit 7 v OR 128), ucast (drop_bit 14 v)]
      else if v < 2 ^ 28 then
        [ucast (v OR 128), ucast (drop_bit 7 v OR 128), ucast (drop_bit 14 v OR 128),
         ucast (drop_bit 21 v)]
      else
        [ucast (v OR 128), ucast (drop_bit 7 v OR 128), ucast (drop_bit 14 v OR 128),
         ucast (drop_bit 21 v OR 128), ucast (drop_bit 28 v)])"

fun GetVarint64Ptr_loop :: "nat \<Rightarrow> u64 \<Rightarrow> u64 parser" where
  "GetVarint64Ptr_loop shift result [] = None"
| "GetVarint64Ptr_loop shift result (p # ps) =
     (if shift \<le> 63 then
        (let byt = (ucast p :: u64) in
         if byt AND 128 \<noteq> 0
         then GetVarint64Ptr_loop (shift + 7) (result OR push_bit shift (byt AND 127)) ps
         else Some (result OR push_bit shift byt, ps))
      else None)"

definition GetVarint64 :: "u64 parser" where
  "GetVarint64 input = GetVarint64Ptr_loop 0 0 input"

fun GetVarint32PtrFallback_loop :: "nat \<Rightarrow> u32 \<Rightarrow> u32 parser" where
  "GetVarint32PtrFallback_loop shift result [] = None"
| "GetVarint32PtrFallback_loop shift result (p # ps) =
     (if shift \<le> 28 then
        (let byt = (ucast p :: u32) in
         if byt AND 128 \<noteq> 0
         then GetVarint32PtrFallback_loop (shift + 7)
                (result OR push_bit shift (byt AND 127)) ps
         else Some (result OR push_bit shift byt, ps))
      else None)"

definition GetVarint32Ptr :: "u32 parser" where
  "GetVarint32Ptr input =
     (case input of
        p # ps \<Rightarrow>
          (let result = (ucast p :: u32) in
           if result AND 128 = 0 then Some (result, ps)
           else GetVarint32PtrFallback_loop 0 0 input)
      | [] \<Rightarrow> GetVarint32PtrFallback_loop 0 0 input)"

definition GetVarint32 :: "u32 parser" where
  "GetVarint32 input = GetVarint32Ptr input"

text \<open>\<open>VarintLength\<close>: the number of bytes of the encoding.\<close>

function VarintLength :: "u64 \<Rightarrow> nat" where
  "VarintLength v = (if v \<ge> 128 then Suc (VarintLength (drop_bit 7 v)) else 1)"
  by pat_completeness auto
termination
proof (relation "measure unat")
  fix v :: u64 assume "128 \<le> v"
  then have "128 \<le> unat v" by (simp add: word_le_nat_alt)
  then show "(drop_bit 7 v, v) \<in> measure unat"
    unfolding in_measure unat_drop_bit_7 by simp
qed simp

declare VarintLength.simps [simp del]

definition PutVarint32 :: "bytes \<Rightarrow> u32 \<Rightarrow> bytes" where
  "PutVarint32 dst v = dst @ EncodeVarint32 v"

definition PutVarint64 :: "bytes \<Rightarrow> u64 \<Rightarrow> bytes" where
  "PutVarint64 dst v = dst @ EncodeVarint64 v"

definition PutVarint32Varint32 :: "bytes \<Rightarrow> u32 \<Rightarrow> u32 \<Rightarrow> bytes" where
  "PutVarint32Varint32 dst v1 v2 = dst @ EncodeVarint32 v1 @ EncodeVarint32 v2"

definition PutVarint32Varint64 :: "bytes \<Rightarrow> u32 \<Rightarrow> u64 \<Rightarrow> bytes" where
  "PutVarint32Varint64 dst v1 v2 = dst @ EncodeVarint32 v1 @ EncodeVarint64 v2"

definition PutVarint64Varint64 :: "bytes \<Rightarrow> u64 \<Rightarrow> u64 \<Rightarrow> bytes" where
  "PutVarint64Varint64 dst v1 v2 = dst @ EncodeVarint64 v1 @ EncodeVarint64 v2"

subsection \<open>Round trip of the 64-bit varint\<close>

lemma varint_low_bits:
  fixes v :: u64
  shows "(ucast (ucast ((v AND 127) OR 128) :: byte) :: u64) AND 127 = v AND 127"
  by (rule bit_word_eqI) (auto simp: bit_simps word_bits)

lemma varint_more_flag:
  fixes v :: u64
  shows "(ucast (ucast ((v AND 127) OR 128) :: byte) :: u64) AND 128 \<noteq> 0"
  by (rule and_128_neq_0) (simp add: bit_simps word_bits)

lemma varint_recombine:
  fixes v :: "'a::len word"
  shows "(r OR push_bit s (v AND 127)) OR push_bit (s + 7) (drop_bit 7 v) = r OR push_bit s v"
proof (rule bit_word_eqI)
  fix n assume "n < LENGTH('a)"
  moreover have "s + 7 \<le> n \<Longrightarrow> 7 + (n - (s + 7)) = n - s" by simp
  moreover have "s \<le> n \<Longrightarrow> n - s < 7 \<longleftrightarrow> \<not> s + 7 \<le> n" by linarith
  ultimately show "bit ((r OR push_bit s (v AND 127)) OR push_bit (s + 7) (drop_bit 7 v)) n \<longleftrightarrow>
      bit (r OR push_bit s v) n"
    by (cases "s + 7 \<le> n") (auto simp: bit_simps word_bits dest: bit_imp_le_length)
qed

lemma GetVarint64Ptr_loop_Encode:
  "s \<le> 63 \<Longrightarrow> unat v < 2 ^ (64 - s) \<Longrightarrow>
   GetVarint64Ptr_loop s r (EncodeVarint64 v @ rest) = Some (r OR push_bit s v, rest)"
proof (induction v arbitrary: s r rule: EncodeVarint64.induct)
  case (1 v)
  show ?case
  proof (cases "128 \<le> v")
    case True
    then have "128 \<le> unat v" by (simp add: word_le_nat_alt)
    with "1.prems"(2) have "(2::nat) ^ 7 < 2 ^ (64 - s)" by simp
    then have s: "7 < 64 - s" by (rule power_less_imp_less_exp [rotated]) simp
    have "unat v < 128 * 2 ^ (64 - (s + 7))"
    proof -
      have "64 - s = 7 + (64 - (s + 7))" using s by simp
      then have "(2::nat) ^ (64 - s) = 2 ^ 7 * 2 ^ (64 - (s + 7))" by (metis power_add)
      with "1.prems"(2) show ?thesis by simp
    qed
    then have "unat (drop_bit 7 v) < 2 ^ (64 - (s + 7))"
      unfolding unat_drop_bit_7 by (simp add: div_less_iff_less_mult mult.commute)
    with "1.IH" [OF True, of "s + 7"] s True "1.prems" show ?thesis
      by (subst EncodeVarint64.simps)
        (simp add: varint_low_bits varint_more_flag varint_recombine del: push_bit_and)
  next
    case False
    then have "unat v < 128" by (simp add: word_le_nat_alt)
    with False "1.prems" show ?thesis
      by (subst EncodeVarint64.simps) (simp add: and_128_eq_0 ucast_byte_id)
  qed
qed

lemma GetVarint64_Encode [codec_rt]: "GetVarint64 (EncodeVarint64 v @ rest) = Some (v, rest)"
proof -
  have "unat v < 2 ^ 64" using unsigned_less [of v] by simp
  then show ?thesis using GetVarint64Ptr_loop_Encode [of 0 v 0 rest] by (simp add: GetVarint64_def)
qed

lemma GetVarint64Ptr_loop_shrinks:
  "GetVarint64Ptr_loop s r bs = Some (v, rest) \<Longrightarrow> length rest < length bs"
  by (induction s r bs rule: GetVarint64Ptr_loop.induct)
    (auto simp: Let_def split: if_splits)

interpretation varint64: codec EncodeVarint64 GetVarint64 "\<lambda>_. True"
  by unfold_locales
    (simp_all add: GetVarint64_Encode, simp add: GetVarint64_def GetVarint64Ptr_loop_shrinks)

subsection \<open>Round trip of the 32-bit varint\<close>

lemma GetVarint32_step_more:
  "s \<le> 28 \<Longrightarrow>
   GetVarint32PtrFallback_loop s r (ucast ((x :: u32) OR 128) # ps) =
     GetVarint32PtrFallback_loop (s + 7) (r OR push_bit s (x AND 127)) ps"
proof -
  have low: "(ucast (ucast (x OR 128) :: byte) :: u32) AND 127 = x AND 127"
    by (rule bit_word_eqI) (auto simp: bit_simps word_bits)
  have flag: "(ucast (ucast (x OR 128) :: byte) :: u32) AND 128 \<noteq> 0"
    by (rule and_128_neq_0) (simp add: bit_simps word_bits)
  assume "s \<le> 28"
  with low flag show ?thesis by (simp del: push_bit_and)
qed

lemma GetVarint32_step_last:
  "s \<le> 28 \<Longrightarrow> unat (x :: u32) < 128 \<Longrightarrow>
   GetVarint32PtrFallback_loop s r (ucast x # ps) = Some (r OR push_bit s x, ps)"
  by (simp add: and_128_eq_0 ucast_byte_id)

lemmas varint_recombine_at =
  varint_recombine [of _ 0, simplified add_0 push_bit_0_id id_apply]
  varint_recombine [of _ 7 "drop_bit 7 v" for v, simplified drop_bit_drop_bit arith_simps]
  varint_recombine [of _ 14 "drop_bit 14 v" for v, simplified drop_bit_drop_bit arith_simps]
  varint_recombine [of _ 21 "drop_bit 21 v" for v, simplified drop_bit_drop_bit arith_simps]

lemma unat_drop_bit_less:
  "unat (v :: u32) < 2 ^ (k + 7) \<Longrightarrow> unat (drop_bit k v) < 128"
  by (simp add: unat_drop_bit_div power_add less_mult_imp_div_less mult.commute)

lemma GetVarint32PtrFallback_Encode:
  "GetVarint32PtrFallback_loop 0 0 (EncodeVarint32 v @ rest) = Some (v, rest)"
proof -
  have lt: "unat v < 2 ^ 35" using unat_lt_u32 [of v] by simp
  consider (1) "v < 2 ^ 7" | (2) "\<not> v < 2 ^ 7" "v < 2 ^ 14"
    | (3) "\<not> v < 2 ^ 7" "\<not> v < 2 ^ 14" "v < 2 ^ 21"
    | (4) "\<not> v < 2 ^ 7" "\<not> v < 2 ^ 14" "\<not> v < 2 ^ 21" "v < 2 ^ 28"
    | (5) "\<not> v < 2 ^ 7" "\<not> v < 2 ^ 14" "\<not> v < 2 ^ 21" "\<not> v < 2 ^ 28"
    by blast
  then show ?thesis
  proof cases
    case 1
    then have "unat v < 128" by (simp add: word_less_nat_alt)
    with 1 show ?thesis
      using GetVarint32_step_last [of 0 v 0 rest] by (simp add: EncodeVarint32_def)
  next
    case 2
    then have "unat (drop_bit 7 v) < 128"
      by (intro unat_drop_bit_less) (simp add: word_less_nat_alt)
    with 2 show ?thesis
      using varint_recombine_at(1) [of 0 v]
      by (simp add: EncodeVarint32_def GetVarint32_step_more GetVarint32_step_last
          del: push_bit_and GetVarint32PtrFallback_loop.simps)
  next
    case 3
    then have "unat (drop_bit 14 v) < 128"
      by (intro unat_drop_bit_less) (simp add: word_less_nat_alt)
    with 3 show ?thesis
      using varint_recombine_at(1) [of 0 v]
      by (simp add: EncodeVarint32_def GetVarint32_step_more GetVarint32_step_last
          varint_recombine_at(2) del: push_bit_and GetVarint32PtrFallback_loop.simps)
  next
    case 4
    then have "unat (drop_bit 21 v) < 128"
      by (intro unat_drop_bit_less) (simp add: word_less_nat_alt)
    with 4 show ?thesis
      using varint_recombine_at(1) [of 0 v]
      by (simp add: EncodeVarint32_def GetVarint32_step_more GetVarint32_step_last
          varint_recombine_at(2,3) del: push_bit_and GetVarint32PtrFallback_loop.simps)
  next
    case 5
    have "unat (drop_bit 28 v) < 128"
      by (intro unat_drop_bit_less) (use lt in simp)
    with 5 show ?thesis
      using varint_recombine_at(1) [of 0 v]
      by (simp add: EncodeVarint32_def GetVarint32_step_more GetVarint32_step_last
          varint_recombine_at(2,3,4) del: push_bit_and GetVarint32PtrFallback_loop.simps)
  qed
qed

lemma GetVarint32Ptr_fallback: "GetVarint32Ptr bs = GetVarint32PtrFallback_loop 0 0 bs"
  by (cases bs) (simp_all add: GetVarint32Ptr_def Let_def)

lemma GetVarint32_Encode [codec_rt]: "GetVarint32 (EncodeVarint32 v @ rest) = Some (v, rest)"
  by (simp add: GetVarint32_def GetVarint32Ptr_fallback GetVarint32PtrFallback_Encode)

lemma GetVarint32PtrFallback_loop_shrinks:
  "GetVarint32PtrFallback_loop s r bs = Some (v, rest) \<Longrightarrow> length rest < length bs"
  by (induction s r bs rule: GetVarint32PtrFallback_loop.induct)
    (auto simp: Let_def split: if_splits)

interpretation varint32: codec EncodeVarint32 GetVarint32 "\<lambda>_. True"
  by unfold_locales
    (simp_all add: GetVarint32_Encode,
     simp add: GetVarint32_def GetVarint32Ptr_fallback GetVarint32PtrFallback_loop_shrinks)

section \<open>Length-prefixed slices\<close>

definition PutLengthPrefixedSlice :: "bytes \<Rightarrow> bytes \<Rightarrow> bytes" where
  "PutLengthPrefixedSlice dst value = PutVarint32 dst (of_nat (length value)) @ value"

definition GetLengthPrefixedSlice :: "bytes parser" where
  "GetLengthPrefixedSlice input =
     (case GetVarint32 input of
        Some (len, rest) \<Rightarrow>
          (if unat len \<le> length rest
           then Some (take (unat len) rest, drop (unat len) rest) else None)
      | None \<Rightarrow> None)"

lemma PutLengthPrefixedSlice_append:
  "PutLengthPrefixedSlice dst v = dst @ PutLengthPrefixedSlice [] v"
  by (simp add: PutLengthPrefixedSlice_def PutVarint32_def)

lemma GetLengthPrefixedSlice_Put [codec_rt]:
  assumes "length v < 2 ^ 32"
  shows "GetLengthPrefixedSlice (PutLengthPrefixedSlice [] v @ rest) = Some (v, rest)"
proof -
  have "unat (of_nat (length v) :: u32) = length v"
    using assms by (simp add: unat_of_nat take_bit_eq_mod)
  then show ?thesis
    by (simp add: GetLengthPrefixedSlice_def PutLengthPrefixedSlice_def PutVarint32_def
        GetVarint32_Encode)
qed

interpretation lpslice: codec "PutLengthPrefixedSlice []" GetLengthPrefixedSlice
    "\<lambda>v. length v < 2 ^ 32"
  by unfold_locales
    (simp add: GetLengthPrefixedSlice_Put,
     auto simp: GetLengthPrefixedSlice_def split: option.splits if_splits
       dest!: varint32.get_shrinks)

section \<open>Lengths of varints\<close>

text \<open>\<open>VarintLength\<close> is the length \<open>EncodeVarint64\<close> writes, and never more than ten bytes.\<close>

lemma length_EncodeVarint64 [codec_len]: "length (EncodeVarint64 v) = VarintLength v"
proof (induction v rule: EncodeVarint64.induct)
  case (1 v)
  then show ?case by (subst EncodeVarint64.simps, subst VarintLength.simps) simp
qed

lemma VarintLength_bound: "unat v < 2 ^ (7 * k) \<Longrightarrow> 0 < k \<Longrightarrow> VarintLength v \<le> k"
proof (induction v arbitrary: k rule: VarintLength.induct)
  case (1 v)
  show ?case
  proof (cases "128 \<le> v")
    case True
    then have "128 \<le> unat v" by (simp add: word_le_nat_alt)
    then obtain j where k: "k = Suc j" "0 < j"
      using "1.prems" by (cases k; cases "k - 1") auto
    then have "unat (drop_bit 7 v) < 2 ^ (7 * j)"
      using "1.prems"(1) unfolding unat_drop_bit_7
      by (simp add: power_add div_less_iff_less_mult mult.commute)
    with "1.IH" [OF True] k True show ?thesis by (subst VarintLength.simps) simp
  next
    case False
    with "1.prems" show ?thesis by (subst VarintLength.simps) simp
  qed
qed

lemma VarintLength_max: "VarintLength v \<le> 10"
proof -
  have "unat v < 2 ^ (7 * 10)" using unat_lt_u64 [of v] by simp
  then show ?thesis by (rule VarintLength_bound) simp
qed

lemma VarintLength_pos: "1 \<le> VarintLength v"
  by (subst VarintLength.simps) simp

lemma length_EncodeVarint32_max [codec_len]: "length (EncodeVarint32 v) \<le> 5"
  by (simp add: EncodeVarint32_def)

end
