(* ===== verification/Titan_BitMap.thy ===== *)
theory Titan_BitMap
  imports Titan_Coding
begin

text \<open>
  The validity bitmap of a blob file (\<open>blob_validation_check.h\<close>, \<open>blob_validation_check.cc\<close>):
  bit \<open>i\<close> is set when the record with index \<open>i\<close> is known to be dead.  Every access through
  \<open>bits_\<close> is checked: an operation that would read or write outside the allocated buffer, or
  through a null pointer, has the value \<open>None\<close>.
\<close>

section \<open>Model\<close>

text \<open>\<open>bits = None\<close> is the null pointer, \<open>bits = Some bs\<close> an allocation of \<open>length bs\<close> bytes.\<close>

record BitMap =
  valid_bits :: u64
  byte_size :: u64
  bits :: "bytes option"

definition BitMap_new :: "u64 \<Rightarrow> BitMap" where
  "BitMap_new validBits =
     (let byt = drop_bit 3 validBits + 1
      in \<lparr>valid_bits = validBits, byte_size = byt, bits = Some (replicate (unat byt) 0)\<rparr>)"

definition BitMap_default :: BitMap where
  "BitMap_default = \<lparr>valid_bits = 0, byte_size = 0, bits = None\<rparr>"

text \<open>The move constructor: the new object and the object moved from.\<close>

definition BitMap_move :: "BitMap \<Rightarrow> BitMap \<times> BitMap" where
  "BitMap_move bm = (\<lparr>valid_bits = 0, byte_size = 0, bits = bits bm\<rparr>, bm\<lparr>bits := None\<rparr>)"

definition load8 :: "bytes option \<Rightarrow> nat \<Rightarrow> byte option" where
  "load8 p i = (case p of None \<Rightarrow> None | Some bs \<Rightarrow> if i < length bs then Some (bs ! i) else None)"

definition SetBit :: "BitMap \<Rightarrow> u64 \<Rightarrow> u32 \<Rightarrow> (status \<times> BitMap) option" where
  "SetBit bm bitoffset on =
     (if on AND NOT 1 \<noteq> 0 \<or> bitoffset > valid_bits bm
      then Some (InvalidArgument ''bit is not an integer or out of range'', bm)
      else
        (let byt = unat (drop_bit 3 bitoffset); bt = 7 - unat (bitoffset AND 7) in
         case (bits bm, load8 (bits bm) byt) of
           (Some bs, Some b) \<Rightarrow>
             (let byteval = (ucast b :: u32); bitval = byteval AND push_bit bt 1 in
              if (if bitval \<noteq> 0 then 1 else 0) \<noteq> on
              then
                (let byteval = byteval AND NOT (push_bit bt 1);
                     byteval = byteval OR push_bit bt (on AND 1)
                 in Some (OK, bm\<lparr>bits := Some (bs[byt := ucast byteval])\<rparr>))
              else Some (OK, bm))
         | _ \<Rightarrow> None))"

text \<open>\<open>GetBit\<close> returns the status and, when it is \<open>OK\<close>, the value stored through \<open>result\<close>.\<close>

definition GetBit :: "BitMap \<Rightarrow> u64 \<Rightarrow> (status \<times> u32 option) option" where
  "GetBit bm bitoffset =
     (if bitoffset > valid_bits bm
      then Some (InvalidArgument ''bit is not an integer or out of range'', None)
      else
        (let byt = unat (drop_bit 3 bitoffset); bt = 7 - unat (bitoffset AND 7) in
         case load8 (bits bm) byt of
           Some b \<Rightarrow>
             (let bitval = (ucast b :: u64) AND push_bit bt 1
              in Some (OK, Some (if bitval \<noteq> 0 then 1 else 0)))
         | None \<Rightarrow> None))"

datatype BitOpsType = kBitAnd | kBitOr | kBitXor

fun bitop :: "BitOpsType \<Rightarrow> 'a::semiring_bit_operations \<Rightarrow> 'a \<Rightarrow> 'a" where
  "bitop kBitAnd x y = x AND y"
| "bitop kBitOr x y = x OR y"
| "bitop kBitXor x y = x XOR y"

text \<open>Loads and stores of an \<open>unsigned long\<close> at a byte offset.\<close>

definition load64 :: "bytes \<Rightarrow> nat \<Rightarrow> u64" where
  "load64 bs i = DecodeFixed64 (take 8 (drop i bs))"

definition store64 :: "bytes \<Rightarrow> nat \<Rightarrow> u64 \<Rightarrow> bytes" where
  "store64 bs i w = take i bs @ EncodeFixed64 w @ drop (i + 8) bs"

definition BitOps_word :: "BitOpsType \<Rightarrow> bytes \<Rightarrow> nat \<Rightarrow> bytes \<Rightarrow> bytes" where
  "BitOps_word type oth i res = store64 res i (bitop type (load64 res i) (load64 oth i))"

text \<open>The fast path: four words per round while at least 32 bytes remain.\<close>

function BitOps_fast :: "BitOpsType \<Rightarrow> bytes \<Rightarrow> bytes \<Rightarrow> nat \<Rightarrow> nat \<Rightarrow> bytes \<times> nat" where
  "BitOps_fast type res oth j remain =
     (if remain \<ge> 32 then
        (let res = BitOps_word type oth j res;
             res = BitOps_word type oth (j + 8) res;
             res = BitOps_word type oth (j + 16) res;
             res = BitOps_word type oth (j + 24) res
         in BitOps_fast type res oth (j + 32) (remain - 32))
      else (res, j))"
  by pat_completeness auto
termination
  by (relation "measure (\<lambda>(type, res, oth, j, remain). remain)") auto

declare BitOps_fast.simps [simp del]

text \<open>The slow path: byte by byte from \<open>j\<close> to \<open>ops_size\<close>.\<close>

function BitOps_slow :: "BitOpsType \<Rightarrow> bytes \<Rightarrow> bytes \<Rightarrow> nat \<Rightarrow> nat \<Rightarrow> bytes" where
  "BitOps_slow type res oth j ops_size =
     (if j < ops_size
      then BitOps_slow type (res[j := bitop type (res ! j) (oth ! j)]) oth (Suc j) ops_size
      else res)"
  by pat_completeness auto
termination
  by (relation "measure (\<lambda>(type, res, oth, j, ops_size). ops_size - j)") auto

declare BitOps_slow.simps [simp del]

definition BitOps :: "BitMap \<Rightarrow> BitOpsType \<Rightarrow> BitMap option \<Rightarrow> (status \<times> BitMap) option" where
  "BitOps bm type other =
     (case other of
        None \<Rightarrow> Some (InvalidArgument ''bit operate with nullptr'', bm)
      | Some ot \<Rightarrow>
          if valid_bits bm \<noteq> valid_bits ot then Some (InvalidArgument ''valid bits not match'', bm)
          else
            (let n = unat (if byte_size ot < byte_size bm then byte_size ot else byte_size bm) in
             if n \<noteq> 0 then
               (case (bits bm, bits ot) of
                  (Some res, Some oth) \<Rightarrow>
                    if n \<le> length res \<and> n \<le> length oth then
                      (let (res, j) = BitOps_fast type res oth 0 n
                       in Some (OK, bm\<lparr>bits := Some (BitOps_slow type res oth j n)\<rparr>))
                    else None
                | _ \<Rightarrow> None)
             else Some (OK, bm)))"

text \<open>\<open>CopyTo\<close> returns the status and the destination.\<close>

definition CopyTo :: "BitMap \<Rightarrow> BitMap \<Rightarrow> (status \<times> BitMap) option" where
  "CopyTo bm dest =
     (if bits dest \<noteq> None then Some (Corruption ''other bimap already been inited.'', dest)
      else
        (let n = unat (byte_size bm) in
         case bits bm of
           None \<Rightarrow> (if n = 0 then Some (OK, \<lparr>valid_bits = valid_bits bm, byte_size = byte_size bm,
                                        bits = Some []\<rparr>) else None)
         | Some bs \<Rightarrow>
             (if n \<le> length bs
              then Some (OK, \<lparr>valid_bits = valid_bits bm, byte_size = byte_size bm,
                              bits = Some (take n bs)\<rparr>)
              else None)))"

section \<open>Well-formed bitmaps and their abstraction\<close>

text \<open>What every bitmap built by the first constructor satisfies.\<close>

definition BitMap_wf :: "BitMap \<Rightarrow> bool" where
  "BitMap_wf bm \<longleftrightarrow> byte_size bm = drop_bit 3 (valid_bits bm) + 1 \<and>
     (case bits bm of Some bs \<Rightarrow> length bs = unat (byte_size bm) | None \<Rightarrow> False)"

text \<open>The value of bit \<open>i\<close>, most significant bit of each byte first.\<close>

definition bm_test :: "BitMap \<Rightarrow> u64 \<Rightarrow> bool" where
  "bm_test bm i =
     (case bits bm of Some bs \<Rightarrow> bit (bs ! (unat i div 8)) (7 - unat i mod 8) | None \<Rightarrow> False)"

lemma unat_drop_3: "unat (drop_bit 3 (i :: u64)) = unat i div 8"
  by (simp add: unat_drop_bit_div)

lemma unat_and_7: "unat ((i :: u64) AND 7) = unat i mod 8"
proof -
  have "i AND 7 = take_bit 3 i" by (simp add: take_bit_eq_mask mask_eq_exp_minus_1)
  then have "unat (i AND 7) = unat (take_bit 3 i)" by (simp only:)
  also have "\<dots> = unat i mod 2 ^ 3" by (simp only: unsigned_take_bit_eq) (simp only: take_bit_eq_mod)
  finally show ?thesis by simp
qed

lemma unat_byte_count: "unat (drop_bit 3 (v :: u64) + 1) = Suc (unat v div 8)"
proof -
  have "Suc (unat v div 8) < 2 ^ 64" using unat_lt_u64 [of v] by simp
  then show ?thesis by (simp add: unat_word_ariths unat_drop_3)
qed

lemma BitMap_wf_length:
  "BitMap_wf bm \<Longrightarrow> \<exists>bs. bits bm = Some bs \<and> length bs = Suc (unat (valid_bits bm) div 8)"
  by (auto simp: BitMap_wf_def unat_byte_count split: option.splits)

lemma BitMap_new_wf: "BitMap_wf (BitMap_new n)"
  by (simp add: BitMap_wf_def BitMap_new_def Let_def)

lemma index_in_range:
  "i \<le> valid_bits bm \<Longrightarrow> unat i div 8 < Suc (unat (valid_bits bm) div 8)"
  by (simp add: word_le_nat_alt div_le_mono less_Suc_eq_le)

lemma on_flag: "((on :: u32) AND NOT 1 = 0) \<longleftrightarrow> on = 0 \<or> on = 1"
proof
  assume on: "on AND NOT 1 = 0"
  have "bit on n \<longleftrightarrow> bit (if bit on 0 then 1 else 0 :: u32) n" if "n < 32" for n
  proof (cases n)
    case (Suc m)
    then have "bit (on AND NOT 1) n = bit on n" using that by (simp add: bit_simps)
    with on Suc show ?thesis by (simp add: bit_1_iff)
  qed (simp add: bit_1_iff)
  then have "on = (if bit on 0 then 1 else 0)" by (intro bit_word_eqI) simp
  then show "on = 0 \<or> on = 1" by presburger
next
  assume "on = 0 \<or> on = 1"
  then show "on AND NOT 1 = 0" by auto
qed

section \<open>\<open>SetBit\<close> and \<open>GetBit\<close>\<close>

text \<open>On a well-formed bitmap every index up to and including \<open>valid_bits\<close> is in bounds.\<close>

lemma GetBit_test:
  assumes "BitMap_wf bm" and "i \<le> valid_bits bm"
  shows "GetBit bm i = Some (OK, Some (if bm_test bm i then 1 else 0))"
proof -
  obtain bs where bs: "bits bm = Some bs" "length bs = Suc (unat (valid_bits bm) div 8)"
    using BitMap_wf_length [OF assms(1)] by auto
  have "7 - unat i mod 8 < 8" by simp
  then show ?thesis
    using index_in_range [OF assms(2)] assms(2) bs
    by (simp add: GetBit_def Let_def load8_def bm_test_def unat_drop_3 unat_and_7
        and_exp_eq_0_iff_not_bit bit_ucast_iff not_less)
qed

lemma bit_update_byte:
  assumes "k < 8" and "on = 0 \<or> on = 1"
  shows "bit (ucast (((ucast (b :: byte) :: u32) AND NOT (push_bit k 1)) OR push_bit k (on AND 1)) :: byte) n
    \<longleftrightarrow> (if n = k then on = 1 else bit b n)"
proof (cases "n < 8")
  case True
  with assms show ?thesis by (auto simp: bit_simps)
next
  case False
  then have "\<not> bit x n" for x :: byte using bit_imp_le_length [of x n] by auto
  with False assms(1) show ?thesis by auto
qed

lemma SetBit_wf_step:
  assumes "BitMap_wf bm" and "i \<le> valid_bits bm" and "on = 0 \<or> on = 1"
  obtains bm' where "SetBit bm i on = Some (OK, bm')" and "BitMap_wf bm'"
    and "valid_bits bm' = valid_bits bm"
    and "\<And>j. j \<le> valid_bits bm \<Longrightarrow> bm_test bm' j = (if j = i then on = 1 else bm_test bm j)"
proof -
  obtain bs where bs: "bits bm = Some bs" "length bs = Suc (unat (valid_bits bm) div 8)"
    using BitMap_wf_length [OF assms(1)] by auto
  let ?k = "7 - unat i mod 8" and ?n = "unat i div 8"
  define b where "b = (ucast (((ucast (bs ! ?n) :: u32) AND NOT (push_bit ?k 1)) OR
    push_bit ?k (on AND 1)) :: byte)"
  have b: "bit b m \<longleftrightarrow> (if m = ?k then on = 1 else bit (bs ! ?n) m)" for m
    unfolding b_def by (rule bit_update_byte) (simp_all add: assms(3))
  have n: "?n < length bs" using index_in_range [OF assms(2)] bs(2) by simp
  define bm' where "bm' = bm\<lparr>bits := Some (bs[?n := b])\<rparr>"
  have same: "bm' = bm" if "bit (bs ! ?n) ?k = (on = 1)"
  proof -
    have "b = bs ! ?n" using that by (intro bit_word_eqI) (auto simp: b)
    then show ?thesis using bs by (simp add: bm'_def)
  qed
  have k: "(ucast (bs ! ?n) :: u32) AND push_bit ?k 1 \<noteq> 0 \<longleftrightarrow> bit (bs ! ?n) ?k"
    by (auto simp: and_exp_eq_0_iff_not_bit bit_ucast_iff)
  have "SetBit bm i on =
      Some (OK, if (if bit (bs ! ?n) ?k then 1 else 0) \<noteq> on then bm' else bm)"
    using assms bs n
    by (simp only: SetBit_def Let_def load8_def unat_drop_3 unat_and_7 on_flag k)
      (simp add: bm'_def b_def not_less and_exp_eq_0_iff_not_bit bit_ucast_iff)
  then have "SetBit bm i on = Some (OK, bm')" using same assms(3) by (auto split: if_splits)
  moreover have "BitMap_wf bm'" using assms(1) bs by (simp add: bm'_def BitMap_wf_def)
  moreover have "bm_test bm' j = (if j = i then on = 1 else bm_test bm j)"
    if "j \<le> valid_bits bm" for j
  proof (cases "unat j div 8 = ?n")
    case True
    have "7 - unat j mod 8 = ?k \<longleftrightarrow> unat j mod 8 = unat i mod 8"
      using mod_less_divisor [of 8 "unat j"] mod_less_divisor [of 8 "unat i"] by linarith
    also have "\<dots> \<longleftrightarrow> j = i"
      using True by (metis div_mult_mod_eq word_unat_eq_iff)
    finally show ?thesis
      using True n bs by (simp add: bm_test_def bm'_def b)
  next
    case False
    then show ?thesis using bs by (auto simp: bm_test_def bm'_def)
  qed
  ultimately show ?thesis using that by (simp add: bm'_def)
qed

section \<open>\<open>BitOps\<close>: the word-wise fast path agrees with the byte-wise loop\<close>

lemma bit_bitop:
  "bit (bitop type x y) n \<longleftrightarrow>
     (case type of kBitAnd \<Rightarrow> bit x n \<and> bit y n | kBitOr \<Rightarrow> bit x n \<or> bit y n
      | kBitXor \<Rightarrow> bit x n \<noteq> bit y n)"
  by (cases type) (simp_all add: bit_simps)

lemma bit_byte_out: "8 \<le> n \<Longrightarrow> \<not> bit (b :: byte) n"
  using bit_imp_le_length [of b n] by auto

lemma bit_four_bytes:
  fixes b0 b1 b2 b3 :: byte
  assumes "m < 8"
  defines "w \<equiv> (ucast b0 OR push_bit 8 (ucast b1) OR push_bit 16 (ucast b2) OR
     push_bit 24 (ucast b3) :: u32)"
  shows "bit w (8 * 0 + m) = bit b0 m" "bit w (8 * 1 + m) = bit b1 m"
    "bit w (8 * 2 + m) = bit b2 m" "bit w (8 * 3 + m) = bit b3 m"
  using assms(1) unfolding w_def by (simp_all add: bit_simps bit_byte_out)

lemma bit_DecodeFixed32:
  assumes "4 \<le> length a" and "n < 32"
  shows "bit (DecodeFixed32 a) n \<longleftrightarrow> bit (a ! (n div 8)) (n mod 8)"
proof -
  have b: "byte_at a 0 = a ! 0" "byte_at a 1 = a ! 1" "byte_at a 2 = a ! 2" "byte_at a 3 = a ! 3"
    using assms(1) by (auto intro: byte_at_nth)
  define q m where qm: "q = n div 8" "m = n mod 8"
  have m: "m < 8" by (simp add: qm)
  from assms(2) have "q < 4" by (simp add: qm)
  then consider "q = 0" | "q = 1" | "q = 2" | "q = 3" by fastforce
  then have "bit (DecodeFixed32 a) (8 * q + m) \<longleftrightarrow> bit (a ! q) m"
    unfolding DecodeFixed32_def b by cases (simp_all only: bit_four_bytes [OF m])
  then show ?thesis by (simp add: qm)
qed

lemma bit_DecodeFixed64:
  assumes "length a = 8" and "n < 64"
  shows "bit (DecodeFixed64 a) n \<longleftrightarrow> bit (a ! (n div 8)) (n mod 8)"
proof (cases "n < 32")
  case True
  then show ?thesis
    using assms bit_DecodeFixed32 [of a n] by (simp add: DecodeFixed64_def Let_def bit_simps)
next
  case False
  then obtain k where k: "n = 32 + k" using le_Suc_ex not_less by blast
  moreover have "(32 + k) mod 8 = k mod 8" by presburger
  ultimately have "k < 32" "n div 8 = 4 + k div 8" "n mod 8 = k mod 8" using assms(2) by simp_all
  then show ?thesis
    using k assms bit_DecodeFixed32 [of "drop 4 a" k] bit_imp_le_length [of "DecodeFixed32 a" n]
    by (auto simp: DecodeFixed64_def Let_def bit_simps)
qed

lemma nth_EncodeFixed64:
  "i < 8 \<Longrightarrow> EncodeFixed64 w ! i = ucast (drop_bit (8 * i) w)"
proof -
  assume "i < 8"
  then consider "i = 0" | "i = 1" | "i = 2" | "i = 3" | "i = 4" | "i = 5" | "i = 6" | "i = 7"
    by fastforce
  then show ?thesis
    by cases (auto intro!: bit_word_eqI simp: EncodeFixed64_def bit_simps word_bits)
qed

lemma EncodeFixed64_bitop:
  assumes "length a = 8" and "length b = 8"
  shows "EncodeFixed64 (bitop type (DecodeFixed64 a) (DecodeFixed64 b)) = map2 (bitop type) a b"
proof (rule nth_equalityI)
  fix i assume "i < length (EncodeFixed64 (bitop type (DecodeFixed64 a) (DecodeFixed64 b)))"
  then have i: "i < 8" by simp
  have "EncodeFixed64 (bitop type (DecodeFixed64 a) (DecodeFixed64 b)) ! i =
      bitop type (a ! i) (b ! i)"
  proof (rule bit_word_eqI)
    fix m assume "m < LENGTH(8)"
    then have m: "m < 8" by simp
    then have "8 * i + m < 64" "(8 * i + m) div 8 = i" "(8 * i + m) mod 8 = m" using i by simp_all
    then have "bit (DecodeFixed64 a) (8 * i + m) = bit (a ! i) m"
      "bit (DecodeFixed64 b) (8 * i + m) = bit (b ! i) m"
      using bit_DecodeFixed64 assms by metis+
    then show "bit (EncodeFixed64 (bitop type (DecodeFixed64 a) (DecodeFixed64 b)) ! i) m \<longleftrightarrow>
        bit (bitop type (a ! i) (b ! i)) m"
      using i m by (simp add: nth_EncodeFixed64 bit_ucast_iff bit_drop_bit_eq bit_bitop
          split: BitOpsType.split)
  qed
  then show "EncodeFixed64 (bitop type (DecodeFixed64 a) (DecodeFixed64 b)) ! i =
      map2 (bitop type) a b ! i" using i assms by simp
qed (simp add: assms)

text \<open>The buffer when the first \<open>j\<close> bytes are combined.\<close>

definition bop_upto :: "BitOpsType \<Rightarrow> bytes \<Rightarrow> bytes \<Rightarrow> nat \<Rightarrow> bytes" where
  "bop_upto type res oth j = map2 (bitop type) (take j res) (take j oth) @ drop j res"

lemma length_bop_upto [simp]:
  "j \<le> length res \<Longrightarrow> j \<le> length oth \<Longrightarrow> length (bop_upto type res oth j) = length res"
  by (simp add: bop_upto_def)

lemma BitOps_word_upto:
  assumes "j + 8 \<le> length res" and "j + 8 \<le> length oth"
  shows "BitOps_word type oth j (bop_upto type res oth j) = bop_upto type res oth (j + 8)"
proof -
  have "take 8 (drop j (bop_upto type res oth j)) = take 8 (drop j res)"
    "take j (bop_upto type res oth j) = map2 (bitop type) (take j res) (take j oth)"
    "drop (j + 8) (bop_upto type res oth j) = drop (j + 8) res"
    using assms by (simp_all add: bop_upto_def add.commute)
  then show ?thesis
    using assms
    by (simp add: BitOps_word_def store64_def load64_def EncodeFixed64_bitop bop_upto_def take_add)
qed

lemma BitOps_fast_upto:
  "j + remain \<le> length res \<Longrightarrow> j + remain \<le> length oth \<Longrightarrow>
   \<exists>j'. BitOps_fast type (bop_upto type res oth j) oth j remain = (bop_upto type res oth j', j') \<and>
     j' \<le> j + remain"
proof (induction remain arbitrary: j rule: less_induct)
  case (less remain)
  show ?case
  proof (cases "remain \<ge> 32")
    case True
    have step: "BitOps_word type oth (j + k) (bop_upto type res oth (j + k)) =
        bop_upto type res oth (j + (k + 8))" if "k \<le> 24" for k
      using BitOps_word_upto [of "j + k" res oth type] True less.prems that by (simp add: add.assoc)
    have "BitOps_fast type (bop_upto type res oth j) oth j remain =
        BitOps_fast type (bop_upto type res oth (j + 32)) oth (j + 32) (remain - 32)"
      using True step [of 0] step [of 8] step [of 16] step [of 24]
      by (subst BitOps_fast.simps) (simp add: Let_def)
    moreover have "\<exists>j'. BitOps_fast type (bop_upto type res oth (j + 32)) oth (j + 32) (remain - 32) =
        (bop_upto type res oth j', j') \<and> j' \<le> (j + 32) + (remain - 32)"
      using True less.prems by (intro less.IH) auto
    ultimately show ?thesis using True by auto
  next
    case False
    then show ?thesis by (subst BitOps_fast.simps) simp
  qed
qed

lemma BitOps_slow_upto:
  "j \<le> n \<Longrightarrow> n \<le> length res \<Longrightarrow> n \<le> length oth \<Longrightarrow>
   BitOps_slow type (bop_upto type res oth j) oth j n = bop_upto type res oth n"
proof (induction "n - j" arbitrary: j)
  case 0
  then show ?case by (subst BitOps_slow.simps) simp
next
  case (Suc k)
  have "(bop_upto type res oth j)[j := bitop type (bop_upto type res oth j ! j) (oth ! j)] =
      bop_upto type res oth (Suc j)"
    using Suc.hyps(2) Suc.prems
    by (auto simp: bop_upto_def nth_append list_update_append take_Suc_conv_app_nth
        Cons_nth_drop_Suc [symmetric])
  with Suc show ?case by (subst BitOps_slow.simps) auto
qed

lemma BitOps_bytewise:
  assumes "BitMap_wf bm" "BitMap_wf ot" "valid_bits bm = valid_bits ot"
    and "bits bm = Some res" "bits ot = Some oth"
  shows "BitOps bm type (Some ot) = Some (OK, bm\<lparr>bits := Some (map2 (bitop type) res oth)\<rparr>)"
proof -
  let ?n = "length res"
  have n: "?n = unat (byte_size bm)" "length oth = ?n" "byte_size ot = byte_size bm" "?n \<noteq> 0"
    using assms by (auto simp: BitMap_wf_def unat_byte_count)
  obtain j where j: "BitOps_fast type res oth 0 ?n = (bop_upto type res oth j, j)" "j \<le> ?n"
    using BitOps_fast_upto [of 0 ?n res oth type] n by (auto simp: bop_upto_def)
  have "BitOps_slow type (bop_upto type res oth j) oth j ?n = map2 (bitop type) res oth"
    using BitOps_slow_upto [of j ?n res oth type] j n by (simp add: bop_upto_def)
  with j n assms show ?thesis by (simp add: BitOps_def Let_def)
qed

section \<open>The bitmap as a set of dead records\<close>

text \<open>
  What the collector of invalid entries and the blob file metadata rely on: marking records one
  by one and merging two bitmaps of the same file, seen as operations on sets of indexes.
\<close>

locale dead_set =
  fixes fresh :: "'n \<Rightarrow> 'b"
    and mark :: "'b \<Rightarrow> 'i \<Rightarrow> 'b"
    and merge :: "'b \<Rightarrow> 'b \<Rightarrow> 'b"
    and dead :: "'b \<Rightarrow> 'i \<Rightarrow> bool"
    and valid :: "'n \<Rightarrow> 'b \<Rightarrow> bool"
    and idx :: "'n \<Rightarrow> 'i \<Rightarrow> bool"
  assumes fresh_valid: "valid n (fresh n)"
    and fresh_dead: "idx n i \<Longrightarrow> \<not> dead (fresh n) i"
    and mark_valid: "valid n b \<Longrightarrow> idx n i \<Longrightarrow> valid n (mark b i)"
    and mark_dead: "valid n b \<Longrightarrow> idx n i \<Longrightarrow> idx n j \<Longrightarrow> dead (mark b i) j \<longleftrightarrow> j = i \<or> dead b j"
    and merge_valid: "valid n b \<Longrightarrow> valid n c \<Longrightarrow> valid n (merge b c)"
    and merge_dead: "valid n b \<Longrightarrow> valid n c \<Longrightarrow> idx n i \<Longrightarrow> dead (merge b c) i \<longleftrightarrow> dead b i \<or> dead c i"
begin

lemma foldl_mark_valid: "valid n b \<Longrightarrow> (\<And>i. i \<in> set is \<Longrightarrow> idx n i) \<Longrightarrow> valid n (foldl mark b is)"
  by (induction "is" arbitrary: b) (simp_all add: mark_valid)

lemma foldl_mark_dead:
  "valid n b \<Longrightarrow> (\<And>i. i \<in> set is \<Longrightarrow> idx n i) \<Longrightarrow> idx n j \<Longrightarrow>
   dead (foldl mark b is) j \<longleftrightarrow> j \<in> set is \<or> dead b j"
  by (induction "is" arbitrary: b) (auto simp: mark_valid mark_dead)

text \<open>Merging the marks of one batch into a bitmap is marking them there.\<close>

lemma merge_marks:
  assumes "valid n b" "\<And>i. i \<in> set is \<Longrightarrow> idx n i" "idx n j"
  shows "dead (merge b (foldl mark (fresh n) is)) j \<longleftrightarrow> dead (foldl mark b is) j"
  using assms
  by (simp add: merge_dead [of n] foldl_mark_valid fresh_valid foldl_mark_dead [of n] fresh_dead disj_commute)

end

definition bm_mark :: "BitMap \<Rightarrow> u64 \<Rightarrow> BitMap" where
  "bm_mark bm i = (case SetBit bm i 1 of Some (_, bm') \<Rightarrow> bm' | None \<Rightarrow> bm)"

definition bm_merge :: "BitMap \<Rightarrow> BitMap \<Rightarrow> BitMap" where
  "bm_merge bm ot = (case BitOps bm kBitOr (Some ot) of Some (_, bm') \<Rightarrow> bm' | None \<Rightarrow> bm)"

lemma BitOps_Or_test:
  assumes "BitMap_wf bm" "BitMap_wf ot" "valid_bits bm = valid_bits ot"
  shows "\<exists>bm'. BitOps bm kBitOr (Some ot) = Some (OK, bm') \<and> BitMap_wf bm' \<and>
    valid_bits bm' = valid_bits bm \<and>
    (\<forall>i. i \<le> valid_bits bm \<longrightarrow> bm_test bm' i = (bm_test bm i \<or> bm_test ot i))"
proof -
  obtain res oth where b: "bits bm = Some res" "bits ot = Some oth"
    "length res = Suc (unat (valid_bits bm) div 8)" "length oth = length res"
    using BitMap_wf_length assms by (metis (no_types, lifting))
  define bm' where "bm' = bm\<lparr>bits := Some (map2 (bitop kBitOr) res oth)\<rparr>"
  have "BitOps bm kBitOr (Some ot) = Some (OK, bm')"
    unfolding bm'_def by (rule BitOps_bytewise [OF assms b(1,2)])
  moreover have "BitMap_wf bm'" using assms(1) b by (simp add: bm'_def BitMap_wf_def)
  moreover have "bm_test bm' i = (bm_test bm i \<or> bm_test ot i)" if "i \<le> valid_bits bm" for i
    using index_in_range [OF that] b by (simp add: bm_test_def bm'_def bit_or_iff)
  ultimately show ?thesis by (auto simp: bm'_def)
qed

lemma bm_test_new: "i \<le> n \<Longrightarrow> \<not> bm_test (BitMap_new n) i"
  using index_in_range [of i "BitMap_new n"]
  by (simp add: bm_test_def BitMap_new_def Let_def unat_byte_count nth_replicate
      del: replicate.simps)

interpretation invalid_entries: dead_set BitMap_new bm_mark bm_merge bm_test
  "\<lambda>n b. BitMap_wf b \<and> valid_bits b = n" "\<lambda>n i. i \<le> n"
proof (unfold_locales, goal_cases)
  case (1 n)
  then show ?case by (simp add: BitMap_new_wf) (simp add: BitMap_new_def Let_def)
next
  case (2 n i)
  then show ?case by (rule bm_test_new)
next
  case (3 n b i)
  then obtain b' where "SetBit b i 1 = Some (OK, b')" "BitMap_wf b'" "valid_bits b' = valid_bits b"
    using SetBit_wf_step [of b i 1] by auto
  then show ?case using 3 by (simp add: bm_mark_def)
next
  case (4 n b i j)
  then obtain b' where "SetBit b i 1 = Some (OK, b')"
    "\<And>j. j \<le> valid_bits b \<Longrightarrow> bm_test b' j = (if j = i then 1 = (1 :: u32) else bm_test b j)"
    using SetBit_wf_step [of b i 1] by metis
  then show ?case using 4 by (simp add: bm_mark_def)
next
  case (5 n b c)
  then show ?case using BitOps_Or_test [of b c] by (auto simp: bm_merge_def)
next
  case (6 n b c i)
  then show ?case using BitOps_Or_test [of b c] by (auto simp: bm_merge_def)
qed

section \<open>Properties\<close>

text \<open>On a bitmap of the allocating constructor, setting any index up to and including
  \<open>valid_bits\<close> to 0 or 1 stays inside the allocation, succeeds, and changes that bit only, as
  \<open>GetBit\<close> sees it; an index above \<open>valid_bits\<close> or another value is rejected unchanged.\<close>

theorem bitmap_set_get:
  assumes "BitMap_wf bm" and "j \<le> valid_bits bm"
  shows "(i \<le> valid_bits bm \<and> (on = 0 \<or> on = 1) \<longrightarrow>
      (\<exists>bm'. SetBit bm i on = Some (OK, bm') \<and> BitMap_wf bm' \<and>
        GetBit bm' j = (if j = i then Some (OK, Some on) else GetBit bm j)))
    \<and> (\<not> (i \<le> valid_bits bm \<and> (on = 0 \<or> on = 1)) \<longrightarrow>
      SetBit bm i on = Some (InvalidArgument ''bit is not an integer or out of range'', bm))"
proof (intro conjI impI)
  assume i: "i \<le> valid_bits bm \<and> (on = 0 \<or> on = 1)"
  then obtain bm' where bm': "SetBit bm i on = Some (OK, bm')" "BitMap_wf bm'"
    "valid_bits bm' = valid_bits bm" "bm_test bm' j = (if j = i then on = 1 else bm_test bm j)"
    using SetBit_wf_step [OF assms(1)] assms(2) by metis
  then have "GetBit bm' j = (if j = i then Some (OK, Some on) else GetBit bm j)"
    using assms i by (auto simp: GetBit_test)
  with bm' show "\<exists>bm'. SetBit bm i on = Some (OK, bm') \<and> BitMap_wf bm' \<and>
      GetBit bm' j = (if j = i then Some (OK, Some on) else GetBit bm j)" by blast
next
  assume "\<not> (i \<le> valid_bits bm \<and> (on = 0 \<or> on = 1))"
  then have "\<not> (on = 0 \<or> on = 1) \<or> valid_bits bm < i" by auto
  then show "SetBit bm i on = Some (InvalidArgument ''bit is not an integer or out of range'', bm)"
    unfolding SetBit_def on_flag by (simp only: if_True)
qed

theorem bitmap_set_get_witness:
  "\<exists>bm'. SetBit (BitMap_new 8) 8 1 = Some (OK, bm') \<and> BitMap_wf bm' \<and> GetBit bm' 8 = Some (OK, Some 1)"
proof -
  have "valid_bits (BitMap_new 8) = 8" by (simp add: BitMap_new_def Let_def)
  then show ?thesis using bitmap_set_get [OF BitMap_new_wf, of 8 8 8 1] by simp
qed

text \<open>\<open>BitOps\<close> on two bitmaps of one file combines them byte by byte, although it works on
  32 bytes at a time: for every index the result is the AND, OR or XOR of the two bits.\<close>

theorem bitops_bitwise:
  assumes "BitMap_wf bm" "BitMap_wf ot" "valid_bits bm = valid_bits ot" "i \<le> valid_bits bm"
  shows "\<exists>bm'. BitOps bm type (Some ot) = Some (OK, bm') \<and> BitMap_wf bm' \<and>
    (bm_test bm' i \<longleftrightarrow> (case type of kBitAnd \<Rightarrow> bm_test bm i \<and> bm_test ot i
       | kBitOr \<Rightarrow> bm_test bm i \<or> bm_test ot i | kBitXor \<Rightarrow> bm_test bm i \<noteq> bm_test ot i))"
proof -
  obtain res oth where b: "bits bm = Some res" "bits ot = Some oth"
    "length res = Suc (unat (valid_bits bm) div 8)" "length oth = length res"
    using BitMap_wf_length assms by (metis (no_types, lifting))
  define bm' where "bm' = bm\<lparr>bits := Some (map2 (bitop type) res oth)\<rparr>"
  have "BitOps bm type (Some ot) = Some (OK, bm')"
    unfolding bm'_def by (rule BitOps_bytewise [OF assms(1-3) b(1,2)])
  moreover have "BitMap_wf bm'" using assms(1) b by (simp add: bm'_def BitMap_wf_def)
  ultimately show ?thesis
    using index_in_range [OF assms(4)] b 
    by (auto simp: bm_test_def bm'_def bit_bitop split: BitOpsType.splits)
qed

theorem bitops_bitwise_witness:
  "\<exists>bm'. BitOps (BitMap_new 300) kBitXor (Some (BitMap_new 300)) = Some (OK, bm') \<and>
     BitMap_wf bm' \<and> \<not> bm_test bm' 299"
proof -
  have "valid_bits (BitMap_new 300) = 300" by (simp add: BitMap_new_def Let_def)
  then show ?thesis
    using bitops_bitwise [OF BitMap_new_wf BitMap_new_wf, of 300 300 299 kBitXor] by auto
qed

end
