(* ===== verification/Titan_BlobFormat.thy ===== *)
theory Titan_BlobFormat
  imports Complex_Main Titan_Crc Titan_BitMap
begin

text \<open>
  The on-disk formats of Titan (\<open>blob_format.h\<close>, \<open>blob_format.cc\<close>, \<open>util.cc\<close> and
  \<open>BlockHandle\<close> of \<open>table/format.cc\<close>): blob records with their checksummed header, blob
  handles and indexes, the metadata of a blob file with its state machine, and the header and
  footer of a blob file.

  A decoder \<open>Status DecodeFrom(Slice*)\<close> is a function to \<open>Inl s\<close> (the error status) or
  \<open>Inr (x, rest)\<close>.  Decoding into an object that keeps the fields the bytes do not carry takes
  that object as its first argument.  An operation that the code would let read outside its
  buffer has the value \<open>None\<close>.  The compression libraries are parameters.
\<close>

type_synonym 'a decoder = "bytes \<Rightarrow> status + 'a \<times> bytes"
type_synonym ctype = byte

abbreviation kNoCompression :: ctype where
  "kNoCompression \<equiv> 0"

definition parser_of :: "'a decoder \<Rightarrow> 'a parser" where
  "parser_of d bs = (case d bs of Inr p \<Rightarrow> Some p | Inl _ \<Rightarrow> None)"

text \<open>The template \<open>DecodeInto\<close>.\<close>

definition DecodeInto :: "'a decoder \<Rightarrow> bytes \<Rightarrow> bool \<Rightarrow> status + 'a" where
  "DecodeInto DecodeFrom src ignore_extra_bytes =
     (case DecodeFrom src of
        Inl s \<Rightarrow> Inl s
      | Inr (x, tmp) \<Rightarrow>
          if \<not> ignore_extra_bytes \<and> tmp \<noteq> []
          then Inl (Corruption ''redundant bytes when decoding blob file'')
          else Inr x)"

definition GetChar :: "byte parser" where
  "GetChar src = (case src of [] \<Rightarrow> None | c # rest \<Rightarrow> Some (c, rest))"

section \<open>Blob records\<close>

record BlobRecord =
  rec_key :: bytes
  rec_value :: bytes

definition BlobRecord_EncodeTo :: "bytes \<Rightarrow> BlobRecord \<Rightarrow> bytes" where
  "BlobRecord_EncodeTo dst r =
     PutLengthPrefixedSlice (PutLengthPrefixedSlice dst (rec_key r)) (rec_value r)"

definition BlobRecord_DecodeFrom :: "BlobRecord decoder" where
  "BlobRecord_DecodeFrom src =
     (case GetLengthPrefixedSlice src of
        None \<Rightarrow> Inl (Corruption ''BlobRecord'')
      | Some (k, src) \<Rightarrow>
          (case GetLengthPrefixedSlice src of
             None \<Rightarrow> Inl (Corruption ''BlobRecord'')
           | Some (v, src) \<Rightarrow> Inr (\<lparr>rec_key = k, rec_value = v\<rparr>, src)))"

definition BlobRecord_size :: "BlobRecord \<Rightarrow> nat" where
  "BlobRecord_size r = length (rec_key r) + length (rec_value r)"

section \<open>Compression\<close>

text \<open>
  \<open>CompressData\<close> and \<open>UncompressData\<close> of \<open>util/compression.h\<close> dispatch to the compression
  libraries; \<open>None\<close> is their failure.  The type, the options and the dictionary of the
  \<open>CompressionInfo\<close> are fixed by whoever supplies the functions, except for the type, which
  is written into the record.
\<close>

record Compression =
  CompressData :: "ctype \<Rightarrow> bytes \<Rightarrow> bytes option"
  UncompressData :: "ctype \<Rightarrow> bytes \<Rightarrow> bytes option"

definition GoodCompressionRatio :: "nat \<Rightarrow> nat \<Rightarrow> bool" where
  "GoodCompressionRatio compressed_size raw_size \<longleftrightarrow> compressed_size < raw_size - raw_size div 8"

definition Compress :: "Compression \<Rightarrow> ctype \<Rightarrow> bytes \<Rightarrow> bytes \<times> ctype" where
  "Compress cl type input =
     (if type = kNoCompression then (input, type)
      else case CompressData cl type input of
             None \<Rightarrow> (input, kNoCompression)
           | Some output \<Rightarrow> (output, type))"

definition Uncompress :: "Compression \<Rightarrow> ctype \<Rightarrow> bytes \<Rightarrow> status + bytes" where
  "Uncompress cl type input =
     (case UncompressData cl type input of
        None \<Rightarrow> Inl (Corruption ''Corrupted compressed blob'')
      | Some ubuf \<Rightarrow> Inr ubuf)"

text \<open>What Titan relies on: whatever was compressed is decompressed to the same bytes.\<close>

definition compression_sound :: "Compression \<Rightarrow> bool" where
  "compression_sound cl \<longleftrightarrow>
     (\<forall>t x y. CompressData cl t x = Some y \<longrightarrow> UncompressData cl t y = Some x)"

section \<open>Record encoder and decoder\<close>

definition kRecordHeaderSize :: nat where
  "kRecordHeaderSize = 9"

text \<open>The encoder keeps the nine header bytes and the (possibly compressed) record.\<close>

record BlobEncoder =
  enc_header :: bytes
  enc_record :: bytes

definition EncodeSlice :: "Compression \<Rightarrow> ctype \<Rightarrow> bytes \<Rightarrow> BlobEncoder" where
  "EncodeSlice cl type rec =
     (let (record, compression) = Compress cl type rec;
          tail = EncodeFixed32 (of_nat (length record)) @ [compression];
          crc = Extend (Value tail) record
      in \<lparr>enc_header = EncodeFixed32 crc @ tail, enc_record = record\<rparr>)"

definition EncodeRecord :: "Compression \<Rightarrow> ctype \<Rightarrow> BlobRecord \<Rightarrow> BlobEncoder" where
  "EncodeRecord cl type r = EncodeSlice cl type (BlobRecord_EncodeTo [] r)"

definition GetEncodedSize :: "BlobEncoder \<Rightarrow> nat" where
  "GetEncodedSize e = kRecordHeaderSize + length (enc_record e)"

record BlobDecoder =
  dec_crc :: u32
  dec_header_crc :: u32
  dec_record_size :: u32
  dec_compression :: ctype

definition DecodeHeader :: "BlobDecoder decoder" where
  "DecodeHeader src =
     (case GetFixed32 src of
        None \<Rightarrow> Inl (Corruption ''BlobHeader'')
      | Some (crc, src) \<Rightarrow>
          (let header_crc = Value (take (kRecordHeaderSize - 4) src) in
           case GetFixed32 src of
             None \<Rightarrow> Inl (Corruption ''BlobHeader'')
           | Some (record_size, src) \<Rightarrow>
               (case GetChar src of
                  None \<Rightarrow> Inl (Corruption ''BlobHeader'')
                | Some (compression, src) \<Rightarrow>
                    Inr (\<lparr>dec_crc = crc, dec_header_crc = header_crc,
                          dec_record_size = record_size, dec_compression = compression\<rparr>, src))))"

definition DecodeRecord ::
    "Compression \<Rightarrow> BlobDecoder \<Rightarrow> bytes \<Rightarrow> (status + BlobRecord \<times> bytes) option" where
  "DecodeRecord cl d src =
     (let n = unat (dec_record_size d) in
      if length src < n then None
      else
        (let input = take n src; rest = drop n src;
             crc = Extend (dec_header_crc d) input in
         Some (if crc \<noteq> dec_crc d then Inl (Corruption ''BlobRecord: checksum mismatch'')
               else if dec_compression d = kNoCompression then
                 (case DecodeInto BlobRecord_DecodeFrom input False of
                    Inl s \<Rightarrow> Inl s | Inr r \<Rightarrow> Inr (r, rest))
               else
                 (case Uncompress cl (dec_compression d) input of
                    Inl s \<Rightarrow> Inl s
                  | Inr buffer \<Rightarrow>
                      (case DecodeInto BlobRecord_DecodeFrom buffer False of
                         Inl s \<Rightarrow> Inl s | Inr r \<Rightarrow> Inr (r, rest))))))"

section \<open>Blob handles and blob indexes\<close>

record BlobHandle =
  bh_offset :: u64
  bh_size :: u64
  bh_index :: u64

definition BlobHandle_zero :: BlobHandle where
  "BlobHandle_zero = \<lparr>bh_offset = 0, bh_size = 0, bh_index = 0\<rparr>"

definition BlobHandle_EncodeTo :: "bytes \<Rightarrow> BlobHandle \<Rightarrow> bytes" where
  "BlobHandle_EncodeTo dst h =
     PutVarint64 (PutVarint64 (PutVarint64 dst (bh_offset h)) (bh_size h)) (bh_index h)"

definition BlobHandle_DecodeFrom :: "BlobHandle decoder" where
  "BlobHandle_DecodeFrom src =
     (case GetVarint64 src of
        None \<Rightarrow> Inl (Corruption ''BlobHandle'')
      | Some (off, src) \<Rightarrow>
          (case GetVarint64 src of
             None \<Rightarrow> Inl (Corruption ''BlobHandle'')
           | Some (sz, src) \<Rightarrow>
               (case GetVarint64 src of
                  None \<Rightarrow> Inl (Corruption ''BlobHandle'')
                | Some (ix, src) \<Rightarrow>
                    Inr (\<lparr>bh_offset = off, bh_size = sz, bh_index = ix\<rparr>, src))))"

definition BlobHandle_eq :: "BlobHandle \<Rightarrow> BlobHandle \<Rightarrow> bool" where
  "BlobHandle_eq l r \<longleftrightarrow> bh_offset l = bh_offset r \<and> bh_size l = bh_size r"

record BlobIndex =
  bi_file_number :: u64
  bi_handle :: BlobHandle
  bi_old_file_number :: u64
  bi_old_handle :: BlobHandle

definition BlobIndex_zero :: BlobIndex where
  "BlobIndex_zero = \<lparr>bi_file_number = 0, bi_handle = BlobHandle_zero,
     bi_old_file_number = 0, bi_old_handle = BlobHandle_zero\<rparr>"

definition kBlobRecord :: byte where
  "kBlobRecord = 1"

text \<open>
  The index a garbage collection writes back carries the place the value was moved from, as a
  second file number and handle; an index a user write produces does not.
\<close>

definition BlobIndex_EncodeTo :: "bytes \<Rightarrow> BlobIndex \<Rightarrow> bytes" where
  "BlobIndex_EncodeTo dst bi =
     (let dst = dst @ [kBlobRecord];
          dst = PutVarint64 dst (bi_file_number bi);
          dst = BlobHandle_EncodeTo dst (bi_handle bi)
      in if bi_old_file_number bi > 0
         then BlobHandle_EncodeTo (PutVarint64 dst (bi_old_file_number bi)) (bi_old_handle bi)
         else dst)"

definition BlobIndex_DecodeFrom :: "BlobIndex \<Rightarrow> BlobIndex decoder" where
  "BlobIndex_DecodeFrom obj src =
     (case GetChar src of
        None \<Rightarrow> Inl (Corruption ''BlobIndex1'')
      | Some (type, src) \<Rightarrow>
          if type \<noteq> kBlobRecord then Inl (Corruption ''BlobIndex1'')
          else (case GetVarint64 src of
            None \<Rightarrow> Inl (Corruption ''BlobIndex1'')
          | Some (fno, src) \<Rightarrow>
              (case BlobHandle_DecodeFrom src of
                 Inl _ \<Rightarrow> Inl (Corruption ''BlobIndex2: Corruption: BlobHandle'')
               | Inr (h, src) \<Rightarrow>
                   (let obj = obj\<lparr>bi_file_number := fno, bi_handle := h\<rparr> in
                    if src \<noteq> [] then
                      (case GetVarint64 src of
                         None \<Rightarrow> Inl (Corruption ''BlobIndex3'')
                       | Some (ofno, src) \<Rightarrow>
                           (case BlobHandle_DecodeFrom src of
                              Inl _ \<Rightarrow> Inl (Corruption ''BlobIndex4: Corruption: BlobHandle'')
                            | Inr (oh, src) \<Rightarrow>
                                Inr (obj\<lparr>bi_old_file_number := ofno, bi_old_handle := oh\<rparr>, src)))
                    else Inr (obj, src)))))"

definition BlobIndex_eq :: "BlobIndex \<Rightarrow> BlobIndex \<Rightarrow> bool" where
  "BlobIndex_eq l r \<longleftrightarrow>
     bi_file_number l = bi_file_number r \<and> BlobHandle_eq (bi_handle l) (bi_handle r)"

section \<open>Blob file metadata\<close>

datatype FileEvent =
    EvInit | FlushCompleted | CompactionCompleted | GCCompleted | GCBegin | GCOutput
  | FlushOrCompactionOutput | DbRestart | Delete | NeedMerge | Reset

datatype FileState =
    StInit | Normal | PendingLSM | BeingGC | PendingGC | Obsolete | ToMerge

record BlobFileMeta =
  fm_number :: u64
  fm_size :: u64
  fm_entries :: u64
  fm_level :: u32
  fm_smallest :: bytes
  fm_largest :: bytes
  fm_live :: u64
  fm_state :: FileState
  fm_invalid :: "BitMap option"

definition BlobFileMeta_default :: BlobFileMeta where
  "BlobFileMeta_default = \<lparr>fm_number = 0, fm_size = 0, fm_entries = 0, fm_level = 0,
     fm_smallest = [], fm_largest = [], fm_live = 0, fm_state = StInit, fm_invalid = None\<rparr>"

definition BlobFileMeta_new ::
    "u64 \<Rightarrow> u64 \<Rightarrow> u64 \<Rightarrow> u32 \<Rightarrow> bytes \<Rightarrow> bytes \<Rightarrow> BlobFileMeta" where
  "BlobFileMeta_new number sz entries level smallest largest =
     \<lparr>fm_number = number, fm_size = sz, fm_entries = entries, fm_level = level,
      fm_smallest = smallest, fm_largest = largest, fm_live = 0, fm_state = StInit,
      fm_invalid = Some (BitMap_new entries)\<rparr>"

definition BlobFileMeta_EncodeTo :: "bytes \<Rightarrow> BlobFileMeta \<Rightarrow> bytes" where
  "BlobFileMeta_EncodeTo dst m =
     (let dst = PutVarint64 dst (fm_number m);
          dst = PutVarint64 dst (fm_size m);
          dst = PutVarint64 dst (fm_entries m);
          dst = PutVarint32 dst (fm_level m);
          dst = PutLengthPrefixedSlice dst (fm_smallest m)
      in PutLengthPrefixedSlice dst (fm_largest m))"

definition BlobFileMeta_DecodeFromLegacy :: "BlobFileMeta \<Rightarrow> BlobFileMeta decoder" where
  "BlobFileMeta_DecodeFromLegacy obj src =
     (case GetVarint64 src of
        None \<Rightarrow> Inl (Corruption ''BlobFileMeta decode legacy failed'')
      | Some (number, src) \<Rightarrow>
          (case GetVarint64 src of
             None \<Rightarrow> Inl (Corruption ''BlobFileMeta decode legacy failed'')
           | Some (sz, src) \<Rightarrow> Inr (obj\<lparr>fm_number := number, fm_size := sz\<rparr>, src)))"

text \<open>The four integers, then the two keys, each with its own error.\<close>

definition BlobFileMeta_ints :: "(u64 \<times> u64 \<times> u64 \<times> u32) parser" where
  "BlobFileMeta_ints src =
     (case GetVarint64 src of None \<Rightarrow> None | Some (number, src) \<Rightarrow>
      (case GetVarint64 src of None \<Rightarrow> None | Some (sz, src) \<Rightarrow>
       (case GetVarint64 src of None \<Rightarrow> None | Some (entries, src) \<Rightarrow>
        (case GetVarint32 src of None \<Rightarrow> None | Some (level, src) \<Rightarrow>
          Some ((number, sz, entries, level), src)))))"

definition BlobFileMeta_DecodeFrom :: "BlobFileMeta \<Rightarrow> BlobFileMeta decoder" where
  "BlobFileMeta_DecodeFrom obj src =
     (case BlobFileMeta_ints src of
        None \<Rightarrow> Inl (Corruption ''BlobFileMeta decode failed'')
      | Some ((number, sz, entries, level), src) \<Rightarrow>
          (case GetLengthPrefixedSlice src of
             None \<Rightarrow> Inl (Corruption ''BlobSmallestKey Decode failed'')
           | Some (smallest, src) \<Rightarrow>
               (case GetLengthPrefixedSlice src of
                  None \<Rightarrow> Inl (Corruption ''BlobLargestKey decode failed'')
                | Some (largest, src) \<Rightarrow>
                    Inr (obj\<lparr>fm_number := number, fm_size := sz, fm_entries := entries,
                             fm_level := level, fm_smallest := smallest, fm_largest := largest,
                             fm_invalid := Some (BitMap_new entries)\<rparr>, src))))"

definition BlobFileMeta_eq :: "BlobFileMeta \<Rightarrow> BlobFileMeta \<Rightarrow> bool" where
  "BlobFileMeta_eq l r \<longleftrightarrow> fm_number l = fm_number r \<and> fm_size l = fm_size r \<and>
     fm_entries l = fm_entries r \<and> fm_level l = fm_level r"

text \<open>
  \<open>FileStateTransit\<close>: \<open>None\<close> is a failed assertion.  The function on states first, then on
  the object.
\<close>

definition transit :: "FileEvent \<Rightarrow> FileState \<Rightarrow> FileState option" where
  "transit event state =
     (case event of
        FlushCompleted \<Rightarrow>
          (if state \<in> {PendingLSM, PendingGC, Normal, BeingGC, Obsolete}
           then Some (if state = PendingLSM then Normal else state) else None)
      | GCCompleted \<Rightarrow>
          (if state = Obsolete then Some state
           else if state \<in> {PendingGC, BeingGC} then Some Normal else None)
      | CompactionCompleted \<Rightarrow> (if state = PendingLSM then Some Normal else None)
      | GCBegin \<Rightarrow> (if state = Normal then Some BeingGC else None)
      | GCOutput \<Rightarrow> (if state = StInit then Some PendingGC else None)
      | FlushOrCompactionOutput \<Rightarrow> (if state = StInit then Some PendingLSM else None)
      | DbRestart \<Rightarrow> (if state = StInit then Some Normal else None)
      | Delete \<Rightarrow> (if state \<noteq> Obsolete then Some Obsolete else None)
      | NeedMerge \<Rightarrow>
          (if state = ToMerge then Some state
           else if state = Normal then Some ToMerge else None)
      | Reset \<Rightarrow> Some Normal
      | EvInit \<Rightarrow> None)"

definition FileStateTransit :: "FileEvent \<Rightarrow> BlobFileMeta \<Rightarrow> BlobFileMeta option" where
  "FileStateTransit event m =
     (case transit event (fm_state m) of None \<Rightarrow> None | Some s \<Rightarrow> Some (m\<lparr>fm_state := s\<rparr>))"

definition is_obsolete :: "BlobFileMeta \<Rightarrow> bool" where
  "is_obsolete m \<longleftrightarrow> fm_state m = Obsolete"

text \<open>\<open>delta\<close> is an \<open>int64_t\<close>; the sum is computed in 64 bits.\<close>

definition UpdateLiveDataSize :: "u64 \<Rightarrow> BlobFileMeta \<Rightarrow> bool \<times> BlobFileMeta" where
  "UpdateLiveDataSize delta m =
     (let result = fm_live m + delta in
      if sint result < 0 then (False, m\<lparr>fm_live := 0\<rparr>)
      else (True, m\<lparr>fm_live := result\<rparr>))"

definition NoLiveData :: "BlobFileMeta \<Rightarrow> bool" where
  "NoLiveData m \<longleftrightarrow> fm_live m = 0"

section \<open>Discardable ratio\<close>

text \<open>
  A \<open>double\<close> is an exact rational or one of the values division by zero gives; rounding is
  not modelled.  Comparisons with \<open>NaN\<close> are false.
\<close>

datatype dbl = NaN | NegInf | Fin rat | PosInf

fun dbl_less :: "dbl \<Rightarrow> dbl \<Rightarrow> bool" where
  "dbl_less NaN _ = False"
| "dbl_less _ NaN = False"
| "dbl_less (Fin x) (Fin y) = (x < y)"
| "dbl_less NegInf y = (y \<noteq> NegInf)"
| "dbl_less _ NegInf = False"
| "dbl_less PosInf _ = False"
| "dbl_less _ PosInf = True"

definition dbl_le :: "dbl \<Rightarrow> dbl \<Rightarrow> bool" where
  "dbl_le x y \<longleftrightarrow> dbl_less x y \<or> (x = y \<and> x \<noteq> NaN)"

definition kBlobMaxHeaderSize :: u64 where
  "kBlobMaxHeaderSize = 12"

definition kBlobFooterSize :: u64 where
  "kBlobFooterSize = 32"

definition GetDiscardableRatio :: "BlobFileMeta \<Rightarrow> dbl" where
  "GetDiscardableRatio m =
     (if fm_size m = 0 then Fin 0
      else
        (let d = fm_size m - kBlobMaxHeaderSize - kBlobFooterSize in
         if d = 0 then (if fm_live m = 0 then NaN else NegInf)
         else Fin (1 - of_nat (unat (fm_live m)) / of_nat (unat d))))"

datatype DiscardableRatioLevel = LE0 | LE20 | LE50 | LE80 | LE100

definition GetDiscardableRatioLevel :: "BlobFileMeta \<Rightarrow> DiscardableRatioLevel" where
  "GetDiscardableRatioLevel m =
     (let ratio = GetDiscardableRatio m in
      if dbl_less ratio (Fin (1 / 2 ^ 52)) then LE0
      else if dbl_le ratio (Fin (1 / 5)) then LE20
      else if dbl_le ratio (Fin (1 / 2)) then LE50
      else if dbl_le ratio (Fin (4 / 5)) then LE80
      else LE100)"

text \<open>Both operations go through the unique pointer; \<open>None\<close> is a null pointer or a bad access.\<close>

definition UpdateInvalidEntryIndexes ::
    "BlobFileMeta \<Rightarrow> BitMap option \<Rightarrow> (status \<times> BlobFileMeta) option" where
  "UpdateInvalidEntryIndexes m invalid_bits =
     (case fm_invalid m of
        None \<Rightarrow> None
      | Some bm \<Rightarrow>
          (case BitOps bm kBitOr invalid_bits of
             None \<Rightarrow> None
           | Some (s, bm') \<Rightarrow> Some (s, m\<lparr>fm_invalid := Some bm'\<rparr>)))"

definition CopyInvalidEntryIndexesTo :: "BlobFileMeta \<Rightarrow> BitMap \<Rightarrow> (status \<times> BitMap) option" where
  "CopyInvalidEntryIndexesTo m dest =
     (case fm_invalid m of None \<Rightarrow> None | Some bm \<Rightarrow> CopyTo bm dest)"

section \<open>Blob file header and footer\<close>

definition kHeaderMagicNumber :: u32 where
  "kHeaderMagicNumber = 0x2be0a614"

abbreviation kVersion1 :: u32 where "kVersion1 \<equiv> 1"
abbreviation kVersion2 :: u32 where "kVersion2 \<equiv> 2"
abbreviation kHasUncompressionDictionary :: u32 where "kHasUncompressionDictionary \<equiv> 1"

record BlobFileHeader =
  hd_version :: u32
  hd_flags :: u32

definition BlobFileHeader_default :: BlobFileHeader where
  "BlobFileHeader_default = \<lparr>hd_version = kVersion2, hd_flags = 0\<rparr>"

text \<open>Decimal digits, as \<open>ToString\<close> prints a number.\<close>

fun nat_digits :: "nat \<Rightarrow> string" where
  "nat_digits n =
     (if n < 10 then [char_of (48 + n)] else nat_digits (n div 10) @ [char_of (48 + n mod 10)])"

definition ValidateVersion :: "u32 \<Rightarrow> status" where
  "ValidateVersion ver =
     (if ver \<noteq> kVersion1 \<and> ver \<noteq> kVersion2
      then InvalidArgument (''unrecognized blob file version '' @ nat_digits (unat ver))
      else OK)"

definition BlobFileHeader_size :: "BlobFileHeader \<Rightarrow> nat" where
  "BlobFileHeader_size h = (if hd_version h = kVersion1 then 8 else 12)"

definition BlobFileHeader_EncodeTo :: "bytes \<Rightarrow> BlobFileHeader \<Rightarrow> bytes" where
  "BlobFileHeader_EncodeTo dst h =
     (let dst = PutFixed32 dst kHeaderMagicNumber;
          dst = PutFixed32 dst (hd_version h)
      in if hd_version h = kVersion2 then PutFixed32 dst (hd_flags h) else dst)"

definition BlobFileHeader_DecodeFrom :: "BlobFileHeader \<Rightarrow> BlobFileHeader decoder" where
  "BlobFileHeader_DecodeFrom obj src =
     (case GetFixed32 src of
        None \<Rightarrow> Inl (Corruption ''Blob file header magic number missing or mismatched.'')
      | Some (magic_number, src) \<Rightarrow>
          if magic_number \<noteq> kHeaderMagicNumber
          then Inl (Corruption ''Blob file header magic number missing or mismatched.'')
          else (case GetFixed32 src of
            None \<Rightarrow> Inl (Corruption ''Blob file header version missing or invalid.'')
          | Some (version, src) \<Rightarrow>
              if version \<noteq> kVersion1 \<and> version \<noteq> kVersion2
              then Inl (Corruption ''Blob file header version missing or invalid.'')
              else if version = kVersion2 then
                (case GetFixed32 src of
                   None \<Rightarrow> Inl (Corruption ''Blob file header flags missing or invalid.'')
                 | Some (flags, src) \<Rightarrow>
                     if flags AND NOT kHasUncompressionDictionary \<noteq> 0
                     then Inl (Corruption ''Blob file header flags missing or invalid.'')
                     else Inr (obj\<lparr>hd_version := version, hd_flags := flags\<rparr>, src))
              else Inr (obj\<lparr>hd_version := version\<rparr>, src)))"

record BlockHandle =
  blk_offset :: u64
  blk_size :: u64

definition NullBlockHandle :: BlockHandle where
  "NullBlockHandle = \<lparr>blk_offset = 0, blk_size = 0\<rparr>"

definition BlockHandle_EncodeTo :: "bytes \<Rightarrow> BlockHandle \<Rightarrow> bytes" where
  "BlockHandle_EncodeTo dst h = PutVarint64Varint64 dst (blk_offset h) (blk_size h)"

definition BlockHandle_DecodeFrom :: "BlockHandle decoder" where
  "BlockHandle_DecodeFrom input =
     (case GetVarint64 input of
        None \<Rightarrow> Inl (Corruption ''bad block handle'')
      | Some (off, input) \<Rightarrow>
          (case GetVarint64 input of
             None \<Rightarrow> Inl (Corruption ''bad block handle'')
           | Some (sz, input) \<Rightarrow> Inr (\<lparr>blk_offset = off, blk_size = sz\<rparr>, input)))"

definition kFooterMagicNumber :: u64 where
  "kFooterMagicNumber = 0x2be0a6148e39edc6"

abbreviation kEncodedLength :: nat where "kEncodedLength \<equiv> 32"

text \<open>\<open>std::string::resize\<close> truncates or pads with zero bytes.\<close>

definition resize :: "nat \<Rightarrow> bytes \<Rightarrow> bytes" where
  "resize n bs = take n bs @ replicate (n - length bs) 0"

definition BlobFileFooter_EncodeTo :: "bytes \<Rightarrow> BlockHandle \<Rightarrow> bytes" where
  "BlobFileFooter_EncodeTo dst meta_index_handle =
     (let sz = length dst;
          dst = BlockHandle_EncodeTo dst meta_index_handle;
          dst = resize (sz + kEncodedLength - 12) dst;
          dst = PutFixed64 dst kFooterMagicNumber;
          encoded = drop sz dst
      in PutFixed32 dst (Value encoded))"

text \<open>\<open>None\<close>: the slice is shorter than the padded handle and \<open>remove_prefix\<close> runs past it.\<close>

definition BlobFileFooter_DecodeFrom :: "bytes \<Rightarrow> (status + BlockHandle \<times> bytes) option" where
  "BlobFileFooter_DecodeFrom src =
     (case BlockHandle_DecodeFrom src of
        Inl _ \<Rightarrow> Some (Inl (Corruption ''BlobFileFooter: Corruption: bad block handle''))
      | Inr (h, _) \<Rightarrow>
          if length src < kEncodedLength - 12 then None
          else
            (let rest = drop (kEncodedLength - 12) src in
             Some (case GetFixed64 rest of
                None \<Rightarrow> Inl (Corruption ''BlobFileFooter: magic number'')
              | Some (magic_number, rest) \<Rightarrow>
                  if magic_number \<noteq> kFooterMagicNumber
                  then Inl (Corruption ''BlobFileFooter: magic number'')
                  else
                    (let decoded = take (length src - length rest) src in
                     case GetFixed32 rest of
                       None \<Rightarrow> Inl (Corruption ''BlobFileFooter: checksum'')
                     | Some (checksum, rest) \<Rightarrow>
                         if Value decoded \<noteq> checksum
                         then Inl (Corruption ''BlobFileFooter: checksum'')
                         else Inr (h, rest)))))"

section \<open>Round trips\<close>

lemma parser_of_Some: "parser_of d bs = Some p \<longleftrightarrow> d bs = Inr p"
  by (auto simp: parser_of_def split: sum.splits)

definition BlobRecord_fits :: "BlobRecord \<Rightarrow> bool" where
  "BlobRecord_fits r \<longleftrightarrow> length (rec_key r) < 2 ^ 32 \<and> length (rec_value r) < 2 ^ 32"

lemma BlobRecord_Decode_Encode:
  "BlobRecord_fits r \<Longrightarrow> BlobRecord_DecodeFrom (BlobRecord_EncodeTo [] r @ rest) = Inr (r, rest)"
  by (cases r)
    (simp add: BlobRecord_fits_def BlobRecord_EncodeTo_def BlobRecord_DecodeFrom_def
      PutLengthPrefixedSlice_append [of "PutLengthPrefixedSlice [] k" for k] GetLengthPrefixedSlice_Put)

interpretation blob_record: codec "BlobRecord_EncodeTo []" "parser_of BlobRecord_DecodeFrom"
    BlobRecord_fits
  by unfold_locales
    (simp add: parser_of_Some BlobRecord_Decode_Encode,
     auto simp: parser_of_Some BlobRecord_DecodeFrom_def split: option.splits prod.splits
       dest!: lpslice.get_shrinks)

lemma BlobHandle_EncodeTo_append: "BlobHandle_EncodeTo dst h = dst @ BlobHandle_EncodeTo [] h"
  by (simp add: BlobHandle_EncodeTo_def PutVarint64_def)

lemma BlobHandle_Decode_Encode:
  "BlobHandle_DecodeFrom (BlobHandle_EncodeTo [] h @ rest) = Inr (h, rest)"
  by (simp add: BlobHandle_EncodeTo_def BlobHandle_DecodeFrom_def PutVarint64_def GetVarint64_Encode)

interpretation blob_handle: codec "BlobHandle_EncodeTo []" "parser_of BlobHandle_DecodeFrom"
    "\<lambda>_. True"
  by unfold_locales
    (simp add: parser_of_Some BlobHandle_Decode_Encode,
     auto simp: parser_of_Some BlobHandle_DecodeFrom_def split: option.splits prod.splits
       dest!: varint64.get_shrinks)

lemma BlobIndex_Decode_Encode:
  "BlobIndex_DecodeFrom BlobIndex_zero (BlobIndex_EncodeTo [] bi) =
     Inr (if bi_old_file_number bi = 0 then bi\<lparr>bi_old_handle := BlobHandle_zero\<rparr> else bi, [])"
proof (cases "bi_old_file_number bi = 0")
  case True
  then have "BlobIndex_EncodeTo [] bi =
      kBlobRecord # EncodeVarint64 (bi_file_number bi) @ BlobHandle_EncodeTo [] (bi_handle bi) @ []"
    by (simp add: BlobIndex_EncodeTo_def BlobHandle_EncodeTo_append [of "_ # _"] PutVarint64_def)
  with True show ?thesis
    by (simp only: BlobIndex_DecodeFrom_def GetChar_def list.case option.case prod.case
        GetVarint64_Encode BlobHandle_Decode_Encode sum.case Let_def)
      (simp add: BlobIndex_zero_def)
next
  case False
  then have "BlobIndex_EncodeTo [] bi =
      kBlobRecord # EncodeVarint64 (bi_file_number bi) @ BlobHandle_EncodeTo [] (bi_handle bi) @
        EncodeVarint64 (bi_old_file_number bi) @ BlobHandle_EncodeTo [] (bi_old_handle bi) @ []"
    by (simp add: BlobIndex_EncodeTo_def BlobHandle_EncodeTo_append [of "_ # _"] PutVarint64_def
        word_gt_0)
  moreover have "EncodeVarint64 v @ r \<noteq> []" for v r using varint64.put_nonempty [of v] by simp
  ultimately show ?thesis using False
    by (simp only: BlobIndex_DecodeFrom_def GetChar_def list.case option.case prod.case
        GetVarint64_Encode BlobHandle_Decode_Encode sum.case Let_def)
      (simp add: BlobIndex_zero_def)
qed

definition BlobFileMeta_fits :: "BlobFileMeta \<Rightarrow> bool" where
  "BlobFileMeta_fits m \<longleftrightarrow> length (fm_smallest m) < 2 ^ 32 \<and> length (fm_largest m) < 2 ^ 32"

lemma BlobFileMeta_EncodeTo_append:
  "BlobFileMeta_EncodeTo dst m = dst @ BlobFileMeta_EncodeTo [] m"
  by (simp add: BlobFileMeta_EncodeTo_def Let_def PutVarint64_def PutVarint32_def
      PutLengthPrefixedSlice_def)

lemma BlobFileMeta_EncodeTo_nil:
  "BlobFileMeta_EncodeTo [] m =
     EncodeVarint64 (fm_number m) @ EncodeVarint64 (fm_size m) @ EncodeVarint64 (fm_entries m) @
     EncodeVarint32 (fm_level m) @ PutLengthPrefixedSlice [] (fm_smallest m) @
     PutLengthPrefixedSlice [] (fm_largest m)"
  by (simp add: BlobFileMeta_EncodeTo_def Let_def PutVarint64_def PutVarint32_def
      PutLengthPrefixedSlice_def)

text \<open>What decoding restores: the persistent fields, with a fresh bitmap.\<close>

definition BlobFileMeta_persistent :: "BlobFileMeta \<Rightarrow> BlobFileMeta \<Rightarrow> BlobFileMeta" where
  "BlobFileMeta_persistent obj m =
     obj\<lparr>fm_number := fm_number m, fm_size := fm_size m, fm_entries := fm_entries m,
         fm_level := fm_level m, fm_smallest := fm_smallest m, fm_largest := fm_largest m,
         fm_invalid := Some (BitMap_new (fm_entries m))\<rparr>"

lemma BlobFileMeta_Decode_Encode:
  "BlobFileMeta_fits m \<Longrightarrow>
   BlobFileMeta_DecodeFrom obj (BlobFileMeta_EncodeTo [] m @ rest) =
     Inr (BlobFileMeta_persistent obj m, rest)"
  by (simp add: BlobFileMeta_EncodeTo_nil BlobFileMeta_DecodeFrom_def BlobFileMeta_ints_def
      BlobFileMeta_fits_def BlobFileMeta_persistent_def codec_rt)

definition BlobFileHeader_wf :: "BlobFileHeader \<Rightarrow> bool" where
  "BlobFileHeader_wf h \<longleftrightarrow> (hd_version h = kVersion1 \<and> hd_flags h = 0) \<or>
     (hd_version h = kVersion2 \<and> hd_flags h AND NOT kHasUncompressionDictionary = 0)"

lemma BlobFileHeader_Decode_Encode:
  "BlobFileHeader_wf h \<Longrightarrow>
   BlobFileHeader_DecodeFrom BlobFileHeader_default (BlobFileHeader_EncodeTo [] h @ rest) = Inr (h, rest)"
  by (cases h)
    (auto simp: BlobFileHeader_wf_def BlobFileHeader_EncodeTo_def BlobFileHeader_DecodeFrom_def
      BlobFileHeader_default_def PutFixed32_def Let_def GetFixed32_Encode)

lemma length_BlobFileHeader:
  "BlobFileHeader_wf h \<Longrightarrow> length (BlobFileHeader_EncodeTo [] h) = BlobFileHeader_size h"
  by (auto simp: BlobFileHeader_wf_def BlobFileHeader_EncodeTo_def BlobFileHeader_size_def
      PutFixed32_def Let_def)

lemma BlockHandle_Decode_Encode:
  "BlockHandle_DecodeFrom (BlockHandle_EncodeTo [] h @ rest) = Inr (h, rest)"
  by (simp add: BlockHandle_EncodeTo_def BlockHandle_DecodeFrom_def PutVarint64Varint64_def
      GetVarint64_Encode)

lemma length_BlockHandle: "length (BlockHandle_EncodeTo [] h) \<le> 20"
  using VarintLength_max [of "blk_offset h"] VarintLength_max [of "blk_size h"]
  by (simp add: BlockHandle_EncodeTo_def PutVarint64Varint64_def length_EncodeVarint64)

lemma BlobFileFooter_EncodeTo_nil:
  "BlobFileFooter_EncodeTo [] h =
     resize 20 (BlockHandle_EncodeTo [] h) @ EncodeFixed64 kFooterMagicNumber @
     EncodeFixed32 (Value (resize 20 (BlockHandle_EncodeTo [] h) @ EncodeFixed64 kFooterMagicNumber))"
  by (simp add: BlobFileFooter_EncodeTo_def Let_def PutFixed64_def PutFixed32_def)

lemma length_resize [simp]: "length (resize n bs) = n"
  by (simp add: resize_def)

lemma length_BlobFileFooter: "length (BlobFileFooter_EncodeTo [] h) = kEncodedLength"
  by (simp add: BlobFileFooter_EncodeTo_nil)

lemma BlobFileFooter_Decode_Encode:
  "BlobFileFooter_DecodeFrom (BlobFileFooter_EncodeTo [] h @ rest) = Some (Inr (h, rest))"
proof -
  let ?h = "BlockHandle_EncodeTo [] h"
  let ?p = "resize 20 ?h"
  have p: "?p = ?h @ replicate (20 - length ?h) 0" using length_BlockHandle [of h] by (simp add: resize_def)
  have "BlockHandle_DecodeFrom (BlobFileFooter_EncodeTo [] h @ rest) =
      Inr (h, replicate (20 - length ?h) 0 @ drop 20 (BlobFileFooter_EncodeTo [] h) @ rest)"
    by (simp only: BlobFileFooter_EncodeTo_nil append_assoc p) 
      (use length_BlockHandle [of h] in \<open>simp add: BlockHandle_Decode_Encode\<close>)
  then show ?thesis
    using length_BlockHandle [of h]
    by (simp add: BlobFileFooter_DecodeFrom_def BlobFileFooter_EncodeTo_nil GetFixed64_Encode
        GetFixed32_Encode)
qed

section \<open>Encoder against decoder\<close>

lemma Compress_cases:
  "Compress cl type x = (r, c) \<Longrightarrow>
   (c = kNoCompression \<and> r = x) \<or> (c \<noteq> kNoCompression \<and> CompressData cl c x = Some r)"
  by (auto simp: Compress_def split: if_splits option.splits)

lemma EncodeSlice_parts:
  assumes "Compress cl type x = (r, c)"
  defines "tail \<equiv> EncodeFixed32 (of_nat (length r)) @ [c]"
  shows "enc_header (EncodeSlice cl type x) = EncodeFixed32 (Extend (Value tail) r) @ tail"
    and "enc_record (EncodeSlice cl type x) = r"
  using assms by (simp_all add: EncodeSlice_def Let_def)

lemma DecodeHeader_EncodeSlice:
  assumes "Compress cl type x = (r, c)"
  defines "tail \<equiv> EncodeFixed32 (of_nat (length r)) @ [c]"
  shows "DecodeHeader (enc_header (EncodeSlice cl type x) @ rest) =
    Inr (\<lparr>dec_crc = Extend (Value tail) r, dec_header_crc = Value tail,
          dec_record_size = of_nat (length r), dec_compression = c\<rparr>, rest)"
  using EncodeSlice_parts [OF assms(1)]
  by (simp add: DecodeHeader_def GetFixed32_Encode kRecordHeaderSize_def tail_def GetChar_def)

lemma length_enc_header: "length (enc_header (EncodeSlice cl type x)) = kRecordHeaderSize"
  by (simp add: EncodeSlice_def Let_def kRecordHeaderSize_def split: prod.splits)

lemma DecodeRecord_EncodeRecord:
  assumes "compression_sound cl" and "BlobRecord_fits r"
    and "length (enc_record (EncodeRecord cl type r)) < 2 ^ 32"
  shows "\<exists>d. DecodeHeader (enc_header (EncodeRecord cl type r) @ enc_record (EncodeRecord cl type r) @ rest) =
      Inr (d, enc_record (EncodeRecord cl type r) @ rest) \<and>
    unat (dec_record_size d) = length (enc_record (EncodeRecord cl type r)) \<and>
    DecodeRecord cl d (enc_record (EncodeRecord cl type r) @ rest) = Some (Inr (r, rest))"
proof -
  let ?x = "BlobRecord_EncodeTo [] r"
  obtain b c where bc: "Compress cl type ?x = (b, c)" by (cases "Compress cl type ?x")
  have rec: "enc_record (EncodeRecord cl type r) = b"
    using EncodeSlice_parts(2) [OF bc] by (simp add: EncodeRecord_def)
  have sz: "unat (of_nat (length b) :: u32) = length b"
    using assms(3) by (simp add: rec unat_of_nat take_bit_eq_mod)
  have "DecodeInto BlobRecord_DecodeFrom ?x False = Inr r"
    using BlobRecord_Decode_Encode [OF assms(2), of "[]"] by (simp add: DecodeInto_def)
  moreover have "c \<noteq> kNoCompression \<Longrightarrow> Uncompress cl c b = Inr ?x"
    using Compress_cases [OF bc] assms(1) by (simp add: Uncompress_def compression_sound_def)
  ultimately show ?thesis
    using DecodeHeader_EncodeSlice [OF bc, of "b @ rest"] Compress_cases [OF bc] sz
    unfolding EncodeRecord_def [symmetric] rec
    by (auto simp: DecodeRecord_def)
qed

text \<open>A record whose bytes do not carry the stored checksum is never returned.\<close>

lemma DecodeRecord_checked:
  assumes "DecodeRecord cl d src = Some (Inr (r, rest))"
  shows "Extend (dec_header_crc d) (take (unat (dec_record_size d)) src) = dec_crc d"
    and "rest = drop (unat (dec_record_size d)) src"
  using assms by (auto simp: DecodeRecord_def Let_def split: if_splits sum.splits)

section \<open>The state machine of a blob file\<close>

text \<open>
  The lifetime of a file in the running database: it is created in \<open>StInit\<close> and moves by the
  events the code delivers (\<open>Reset\<close> is for tests only).
\<close>

inductive file_reach :: "FileState \<Rightarrow> FileState \<Rightarrow> bool" where
  here: "file_reach s s"
| step: "file_reach s t \<Longrightarrow> ev \<noteq> Reset \<Longrightarrow> transit ev t = Some u \<Longrightarrow> file_reach s u"

lemma transit_not_StInit: "transit ev s = Some t \<Longrightarrow> t \<noteq> StInit"
  by (cases ev) (auto simp: transit_def split: if_splits)

lemma transit_Obsolete: "ev \<noteq> Reset \<Longrightarrow> transit ev Obsolete = Some t \<Longrightarrow> t = Obsolete"
  by (cases ev) (auto simp: transit_def split: if_splits)

lemma file_reach_Obsolete: "file_reach s t \<Longrightarrow> s = Obsolete \<Longrightarrow> t = Obsolete"
  by (induction rule: file_reach.induct) (auto dest: transit_Obsolete)

lemma transit_BeingGC: "ev \<noteq> Reset \<Longrightarrow> transit ev s = Some BeingGC \<Longrightarrow> s = Normal \<or> s = BeingGC"
  by (cases ev; cases s) (auto simp: transit_def)

lemma transit_pending:
  "transit ev s = Some t \<Longrightarrow> t \<in> {PendingLSM, PendingGC} \<Longrightarrow> s = StInit \<or> s = t"
  by (cases ev; cases s) (auto simp: transit_def split: if_splits)

section \<open>Properties\<close>

text \<open>A run-length code of constant strings serves as a compression library.\<close>

definition rle_demo :: Compression where
  "rle_demo = \<lparr>CompressData = (\<lambda>t x. if t = 1 \<and> x = replicate (length x) 7 \<and> length x < 256
                 then Some [of_nat (length x)] else None),
     UncompressData = (\<lambda>t x. if t = 1 then (case x of [n] \<Rightarrow> Some (replicate (unat n) 7) | _ \<Rightarrow> None)
                 else None)\<rparr>"

lemma rle_demo_sound: "compression_sound rle_demo"
  by (auto simp: compression_sound_def rle_demo_def unat_of_nat take_bit_eq_mod split: if_splits)

text \<open>The life of a blob file.  A file that is obsolete stays obsolete whatever events the
  database delivers (the test-only reset apart); a file enters garbage collection only from the
  normal state and only by the event that begins one; and only a file that was never installed
  becomes a pending output.\<close>

theorem file_lifecycle:
  assumes "file_reach Obsolete t"
    and "transit ev s = Some BeingGC" "s \<noteq> BeingGC"
    and "transit ev' s' = Some u" "u = PendingGC \<or> u = PendingLSM" "s' \<noteq> u"
  shows "t = Obsolete \<and> ev = GCBegin \<and> s = Normal \<and> s' = StInit"
proof (intro conjI)
  show "t = Obsolete" using file_reach_Obsolete [OF assms(1)] by simp
  show "ev = GCBegin" "s = Normal"
    using assms(2,3) by (cases ev; cases s; simp add: transit_def)+
  show "s' = StInit" using transit_pending [OF assms(4)] assms(5,6) by auto
qed

theorem file_lifecycle_witness:
  "file_reach Obsolete Obsolete \<and> transit GCBegin Normal = Some BeingGC \<and>
   transit GCOutput StInit = Some PendingGC \<and> (GCBegin = GCBegin \<and> Normal = Normal \<and> StInit = StInit)"
proof -
  have r: "file_reach Obsolete Obsolete"
    by (rule file_reach.step [where ev = GCCompleted and t = Obsolete])
      (simp_all add: file_reach.here transit_def)
  have t: "transit GCBegin Normal = Some BeingGC" "transit GCOutput StInit = Some PendingGC"
    by (simp_all add: transit_def)
  show ?thesis
    using file_lifecycle [OF r t(1) _ t(2)] r t by simp
qed

end
