(* ===== verification/Titan_VersionEdit.thy ===== *)
theory Titan_VersionEdit
  imports Titan_BlobFormat
begin

text \<open>
  The edits of Titan's manifest (\<open>version_edit.h\<close>, \<open>version_edit.cc\<close>).  An edit carries the
  next file number, a column family, blob files that were added and blob files that were deleted.
  Decoding is a loop over tagged items; every item consumes at least its tag, so the loop ends.
\<close>

section \<open>Model\<close>

abbreviation kNextFileNumber :: u32 where "kNextFileNumber \<equiv> 1"
abbreviation kColumnFamilyID :: u32 where "kColumnFamilyID \<equiv> 10"
abbreviation kAddedBlobFile :: u32 where "kAddedBlobFile \<equiv> 11"
abbreviation kDeletedBlobFile :: u32 where "kDeletedBlobFile \<equiv> 12"
abbreviation kAddedBlobFileV2 :: u32 where "kAddedBlobFileV2 \<equiv> 13"

record VersionEdit =
  ve_has_next :: bool
  ve_next :: u64
  ve_cf :: u32
  ve_added :: "BlobFileMeta list"
  ve_deleted :: "(u64 \<times> u64) list"

definition VersionEdit_new :: VersionEdit where
  "VersionEdit_new =
     \<lparr>ve_has_next = False, ve_next = 0, ve_cf = 0, ve_added = [], ve_deleted = []\<rparr>"

definition SetNextFileNumber :: "u64 \<Rightarrow> VersionEdit \<Rightarrow> VersionEdit" where
  "SetNextFileNumber v e = e\<lparr>ve_has_next := True, ve_next := v\<rparr>"

definition SetColumnFamilyID :: "u32 \<Rightarrow> VersionEdit \<Rightarrow> VersionEdit" where
  "SetColumnFamilyID v e = e\<lparr>ve_cf := v\<rparr>"

definition VersionEdit_AddBlobFile :: "BlobFileMeta \<Rightarrow> VersionEdit \<Rightarrow> VersionEdit" where
  "VersionEdit_AddBlobFile f e = e\<lparr>ve_added := ve_added e @ [f]\<rparr>"

definition VersionEdit_DeleteBlobFile :: "u64 \<Rightarrow> u64 \<Rightarrow> VersionEdit \<Rightarrow> VersionEdit" where
  "VersionEdit_DeleteBlobFile file_number obsolete_sequence e =
     e\<lparr>ve_deleted := ve_deleted e @ [(file_number, obsolete_sequence)]\<rparr>"

definition VersionEdit_EncodeTo :: "bytes \<Rightarrow> VersionEdit \<Rightarrow> bytes" where
  "VersionEdit_EncodeTo dst e =
     (let dst = (if ve_has_next e then PutVarint32Varint64 dst kNextFileNumber (ve_next e) else dst);
          dst = PutVarint32Varint32 dst kColumnFamilyID (ve_cf e);
          dst = foldl (\<lambda>dst f. BlobFileMeta_EncodeTo (PutVarint32 dst kAddedBlobFileV2) f) dst (ve_added e)
      in foldl (\<lambda>dst f. PutVarint32Varint64 dst kDeletedBlobFile (fst f)) dst (ve_deleted e))"

text \<open>
  One round of the loop: \<open>Inl\<close> the error text.  The text taken from a failed metadata decode
  is the pointer into a temporary; it is only printed.
\<close>

definition status_text :: "status \<Rightarrow> string" where
  "status_text s = (case s of Corruption m \<Rightarrow> ''Corruption: '' @ m | _ \<Rightarrow> '''')"

definition VersionEdit_item :: "VersionEdit \<Rightarrow> bytes \<Rightarrow> string + VersionEdit \<times> bytes" where
  "VersionEdit_item e src =
     (case GetVarint32 src of
        None \<Rightarrow> Inl ''invalid tag''
      | Some (tag, src) \<Rightarrow>
          if tag = kNextFileNumber then
            (case GetVarint64 src of
               None \<Rightarrow> Inl ''next file number''
             | Some (n, src) \<Rightarrow> Inr (SetNextFileNumber n e, src))
          else if tag = kColumnFamilyID then
            (case GetVarint32 src of
               None \<Rightarrow> Inl ''column family id''
             | Some (c, src) \<Rightarrow> Inr (SetColumnFamilyID c e, src))
          else if tag = kAddedBlobFile then
            (case BlobFileMeta_DecodeFromLegacy BlobFileMeta_default src of
               Inl s \<Rightarrow> Inl (status_text s)
             | Inr (f, src) \<Rightarrow> Inr (VersionEdit_AddBlobFile f e, src))
          else if tag = kAddedBlobFileV2 then
            (case BlobFileMeta_DecodeFrom BlobFileMeta_default src of
               Inl s \<Rightarrow> Inl (status_text s)
             | Inr (f, src) \<Rightarrow> Inr (VersionEdit_AddBlobFile f e, src))
          else if tag = kDeletedBlobFile then
            (case GetVarint64 src of
               None \<Rightarrow> Inl ''deleted blob file''
             | Some (n, src) \<Rightarrow> Inr (VersionEdit_DeleteBlobFile n 0 e, src))
          else Inl ''unknown tag'')"

lemma BlobFileMeta_legacy_shrinks:
  "BlobFileMeta_DecodeFromLegacy obj src = Inr (f, rest) \<Longrightarrow> length rest < length src"
  by (auto simp: BlobFileMeta_DecodeFromLegacy_def split: option.splits prod.splits
      dest!: varint64.get_shrinks)

lemma BlobFileMeta_ints_shrinks:
  "BlobFileMeta_ints src = Some (x, rest) \<Longrightarrow> length rest < length src"
  by (auto simp: BlobFileMeta_ints_def split: option.splits prod.splits
      dest!: varint64.get_shrinks varint32.get_shrinks)

lemma BlobFileMeta_shrinks:
  "BlobFileMeta_DecodeFrom obj src = Inr (f, rest) \<Longrightarrow> length rest < length src"
  by (auto simp: BlobFileMeta_DecodeFrom_def split: option.splits prod.splits
      dest!: BlobFileMeta_ints_shrinks lpslice.get_shrinks)

lemma VersionEdit_item_shrinks:
  "VersionEdit_item e src = Inr (e', rest) \<Longrightarrow> length rest < length src"
  by (auto simp: VersionEdit_item_def split: option.splits prod.splits sum.splits if_splits
      dest!: varint64.get_shrinks varint32.get_shrinks BlobFileMeta_legacy_shrinks
        BlobFileMeta_shrinks)

function VersionEdit_loop :: "VersionEdit \<Rightarrow> bytes \<Rightarrow> string + VersionEdit" where
  "VersionEdit_loop e src =
     (if src = [] then Inr e
      else case VersionEdit_item e src of
             Inl error \<Rightarrow> Inl error
           | Inr (e', rest) \<Rightarrow> VersionEdit_loop e' rest)"
  by pat_completeness auto
termination
  by (relation "measure (\<lambda>(e, src). length src)") (auto dest: VersionEdit_item_shrinks)

declare VersionEdit_loop.simps [simp del]

text \<open>On success the whole slice is consumed.\<close>

definition VersionEdit_DecodeFrom :: "VersionEdit \<Rightarrow> VersionEdit decoder" where
  "VersionEdit_DecodeFrom obj src =
     (case VersionEdit_loop obj src of
        Inl error \<Rightarrow> Inl (Corruption (''VersionEdit: '' @ error))
      | Inr e \<Rightarrow> Inr (e, []))"

text \<open>\<open>std::map::insert\<close> keeps the first entry of a key.\<close>

definition VersionEdit_eq :: "VersionEdit \<Rightarrow> VersionEdit \<Rightarrow> bool" where
  "VersionEdit_eq l r \<longleftrightarrow>
     length (ve_added l) = length (ve_added r) \<and>
     (\<forall>f \<in> set (ve_added r).
        case find (\<lambda>g. fm_number g = fm_number f) (ve_added l) of
          None \<Rightarrow> False | Some g \<Rightarrow> BlobFileMeta_eq g f) \<and>
     ve_has_next l = ve_has_next r \<and> ve_next l = ve_next r \<and> ve_cf l = ve_cf r \<and>
     ve_deleted l = ve_deleted r"

section \<open>Round trip\<close>

definition VersionEdit_fits :: "VersionEdit \<Rightarrow> bool" where
  "VersionEdit_fits e \<longleftrightarrow> list_all BlobFileMeta_fits (ve_added e)"

text \<open>What the manifest keeps of an edit: obsolete sequences are not persistent.\<close>

definition VersionEdit_persistent :: "VersionEdit \<Rightarrow> VersionEdit" where
  "VersionEdit_persistent e =
     \<lparr>ve_has_next = ve_has_next e, ve_next = (if ve_has_next e then ve_next e else 0),
      ve_cf = ve_cf e,
      ve_added = map (BlobFileMeta_persistent BlobFileMeta_default) (ve_added e),
      ve_deleted = map (\<lambda>f. (fst f, 0)) (ve_deleted e)\<rparr>"

lemma VersionEdit_loop_step:
  "VersionEdit_item e (x # xs) = Inr (e', rest) \<Longrightarrow>
   VersionEdit_loop e (x # xs) = VersionEdit_loop e' rest"
  by (subst VersionEdit_loop.simps) simp

lemma VersionEdit_loop_next:
  "VersionEdit_loop e (EncodeVarint32 kNextFileNumber @ EncodeVarint64 n @ rest) =
   VersionEdit_loop (SetNextFileNumber n e) rest"
  by (subst VersionEdit_loop.simps)
    (simp add: VersionEdit_item_def codec_rt varint32.put_nonempty)

lemma VersionEdit_loop_cf:
  "VersionEdit_loop e (EncodeVarint32 kColumnFamilyID @ EncodeVarint32 c @ rest) =
   VersionEdit_loop (SetColumnFamilyID c e) rest"
  by (subst VersionEdit_loop.simps)
    (simp add: VersionEdit_item_def codec_rt varint32.put_nonempty)

lemma VersionEdit_loop_added:
  "BlobFileMeta_fits f \<Longrightarrow>
   VersionEdit_loop e (EncodeVarint32 kAddedBlobFileV2 @ BlobFileMeta_EncodeTo [] f @ rest) =
   VersionEdit_loop (VersionEdit_AddBlobFile (BlobFileMeta_persistent BlobFileMeta_default f) e) rest"
  by (subst VersionEdit_loop.simps)
    (simp add: VersionEdit_item_def codec_rt varint32.put_nonempty BlobFileMeta_Decode_Encode)

lemma VersionEdit_loop_deleted:
  "VersionEdit_loop e (EncodeVarint32 kDeletedBlobFile @ EncodeVarint64 n @ rest) =
   VersionEdit_loop (VersionEdit_DeleteBlobFile n 0 e) rest"
  by (subst VersionEdit_loop.simps)
    (simp add: VersionEdit_item_def codec_rt varint32.put_nonempty)

lemma foldl_append_concat:
  "(\<And>d x. f d x = d @ g x) \<Longrightarrow> foldl f d xs = d @ concat (map g xs)"
  by (induction xs arbitrary: d) simp_all

lemma VersionEdit_EncodeTo_parts:
  "VersionEdit_EncodeTo [] e =
     (if ve_has_next e then EncodeVarint32 kNextFileNumber @ EncodeVarint64 (ve_next e) else []) @
     EncodeVarint32 kColumnFamilyID @ EncodeVarint32 (ve_cf e) @
     concat (map (\<lambda>f. EncodeVarint32 kAddedBlobFileV2 @ BlobFileMeta_EncodeTo [] f) (ve_added e)) @
     concat (map (\<lambda>f. EncodeVarint32 kDeletedBlobFile @ EncodeVarint64 (fst f)) (ve_deleted e))"
  unfolding VersionEdit_EncodeTo_def Let_def PutVarint32Varint64_def PutVarint32Varint32_def
    PutVarint32_def
  by (subst foldl_append_concat [where g = "\<lambda>f. EncodeVarint32 kDeletedBlobFile @ EncodeVarint64 (fst f)"],
      simp, subst foldl_append_concat
        [where g = "\<lambda>f. EncodeVarint32 kAddedBlobFileV2 @ BlobFileMeta_EncodeTo [] f"],
      subst BlobFileMeta_EncodeTo_append, simp_all)

lemma VersionEdit_loop_addeds:
  "list_all BlobFileMeta_fits fs \<Longrightarrow>
   VersionEdit_loop e (concat (map (\<lambda>f. EncodeVarint32 kAddedBlobFileV2 @ BlobFileMeta_EncodeTo [] f) fs) @ rest) =
   VersionEdit_loop (e\<lparr>ve_added := ve_added e @ map (BlobFileMeta_persistent BlobFileMeta_default) fs\<rparr>) rest"
  by (induction fs arbitrary: e) (simp_all add: VersionEdit_loop_added VersionEdit_AddBlobFile_def)

lemma VersionEdit_loop_deleteds:
  "VersionEdit_loop e (concat (map (\<lambda>f. EncodeVarint32 kDeletedBlobFile @ EncodeVarint64 (fst f)) fs)) =
   Inr (e\<lparr>ve_deleted := ve_deleted e @ map (\<lambda>f. (fst f, 0)) fs\<rparr>)"
proof (induction fs arbitrary: e)
  case Nil
  then show ?case by (subst VersionEdit_loop.simps) simp
qed (simp add: VersionEdit_loop_deleted VersionEdit_DeleteBlobFile_def)

lemma VersionEdit_Decode_Encode:
  "VersionEdit_fits e \<Longrightarrow>
   VersionEdit_DecodeFrom VersionEdit_new (VersionEdit_EncodeTo [] e) =
     Inr (VersionEdit_persistent e, [])"
  by (simp add: VersionEdit_DecodeFrom_def VersionEdit_EncodeTo_parts VersionEdit_loop_next
      VersionEdit_loop_cf VersionEdit_loop_addeds VersionEdit_loop_deleteds VersionEdit_fits_def
      VersionEdit_new_def VersionEdit_persistent_def SetNextFileNumber_def SetColumnFamilyID_def)

section \<open>Properties\<close>

text \<open>A manifest record that encodes an edit is decoded to the edit, except that the
  obsolete sequence of every deleted file comes back as 0 and added files come back with fresh
  in-memory state; decoding any byte string ends.\<close>

theorem version_edit_roundtrip:
  assumes "VersionEdit_fits e"
  shows "DecodeInto (VersionEdit_DecodeFrom VersionEdit_new) (VersionEdit_EncodeTo [] e) False =
    Inr (VersionEdit_persistent e)"
  using VersionEdit_Decode_Encode [OF assms] by (simp add: DecodeInto_def)

theorem version_edit_roundtrip_witness:
  "DecodeInto (VersionEdit_DecodeFrom VersionEdit_new)
     (VersionEdit_EncodeTo [] \<lparr>ve_has_next = True, ve_next = 9, ve_cf = 2,
        ve_added = [BlobFileMeta_new 7 4096 20 1 [1] [2, 3]], ve_deleted = [(5, 77), (6, 78)]\<rparr>) False =
   Inr \<lparr>ve_has_next = True, ve_next = 9, ve_cf = 2,
        ve_added = [BlobFileMeta_new 7 4096 20 1 [1] [2, 3]], ve_deleted = [(5, 0), (6, 0)]\<rparr>"
  using version_edit_roundtrip [of "\<lparr>ve_has_next = True, ve_next = 9, ve_cf = 2,
        ve_added = [BlobFileMeta_new 7 4096 20 1 [1] [2, 3]], ve_deleted = [(5, 77), (6, 78)]\<rparr>"]
  by (simp add: VersionEdit_fits_def BlobFileMeta_fits_def BlobFileMeta_new_def
      VersionEdit_persistent_def BlobFileMeta_persistent_def BlobFileMeta_default_def)

end
