(* ===== verification/Titan_Storage.thy ===== *)
theory Titan_Storage
  imports Titan_BlobFormat "HOL-Library.Multiset"
begin

text \<open>
  The blob files of one column family (\<open>blob_storage.h\<close>, \<open>blob_storage.cc\<close>): the map from
  file numbers to metadata, the index by smallest key, the per-level counters, the list of
  obsolete files with the sequence at which they became obsolete, the garbage-collection scores
  and the statistics of \<open>titan_stats.h\<close>.

  A failed assertion and an access outside \<open>levels_file_count_\<close> have the value \<open>None\<close>.
  Pointers to metadata are file numbers: the storage owns the metadata.  The comparator of the
  column family is a parameter, the strict order \<open>co_less\<close>.
\<close>

section \<open>Options\<close>

datatype TitanBlobRunMode = kNormal | kReadOnly | kFallback

record TitanCFOptions =
  co_min_blob_size :: u64
  co_compression :: ctype
  co_target_size :: u64
  co_max_gc_batch_size :: u64
  co_min_gc_batch_size :: u64
  co_discardable_ratio :: dbl
  co_merge_small_file_threshold :: u64
  co_blob_run_mode :: TitanBlobRunMode
  co_level_merge :: bool
  co_range_merge :: bool
  co_max_sorted_runs :: int
  co_skip_value :: bool
  co_use_bitmap :: bool
  co_gc_offload :: bool
  co_num_levels :: nat
  co_less :: "bytes \<Rightarrow> bytes \<Rightarrow> bool"

text \<open>The default comparator, \<open>BytewiseComparator\<close>: \<open>memcmp\<close> order, shorter first.\<close>

fun bytes_less :: "bytes \<Rightarrow> bytes \<Rightarrow> bool" where
  "bytes_less [] b = (b \<noteq> [])"
| "bytes_less (x # a) [] = False"
| "bytes_less (x # a) (y # b) = (x < y \<or> (x = y \<and> bytes_less a b))"

lemma bytes_less_irrefl [simp]: "\<not> bytes_less a a"
  by (induction a) auto

lemma bytes_less_trans: "bytes_less a b \<Longrightarrow> bytes_less b c \<Longrightarrow> bytes_less a c"
proof (induction a b arbitrary: c rule: bytes_less.induct)
  case (3 x a y b)
  then show ?case by (cases c) auto
qed (auto elim: bytes_less.elims)

lemma bytes_less_total: "bytes_less a b \<or> a = b \<or> bytes_less b a"
  by (induction a b rule: bytes_less.induct) auto

section \<open>Statistics\<close>

datatype StatsType =
    LIVE_BLOB_SIZE | NUM_LIVE_BLOB_FILE | NUM_OBSOLETE_BLOB_FILE | LIVE_BLOB_FILE_SIZE
  | OBSOLETE_BLOB_FILE_SIZE | NUM_DISCARDABLE_RATIO DiscardableRatioLevel

text \<open>\<open>None\<close>: no statistics object.\<close>

type_synonym stats = "(StatsType \<Rightarrow> u64) option"

definition AddStats :: "StatsType \<Rightarrow> u64 \<Rightarrow> stats \<Rightarrow> stats" where
  "AddStats type v st = map_option (\<lambda>f. f(type := f type + v)) st"

definition SubStats :: "StatsType \<Rightarrow> u64 \<Rightarrow> stats \<Rightarrow> stats" where
  "SubStats type v st = map_option (\<lambda>f. f(type := f type - v)) st"

section \<open>State\<close>

record GCScore =
  gs_file_number :: u64
  gs_score :: dbl

record BlobStorage =
  bs_opts :: TitanCFOptions
  bs_run_mode :: TitanBlobRunMode
  bs_cf_id :: u32
  bs_files :: "(u64 \<times> BlobFileMeta) list"
  bs_levels :: "int list"
  bs_ranges :: "(bytes \<times> u64) list"
  bs_gc_score :: "GCScore list"
  bs_obsolete :: "(u64 \<times> u64) list"
  bs_destroyed :: bool
  bs_stats :: stats

definition BlobStorage_new :: "TitanCFOptions \<Rightarrow> u32 \<Rightarrow> stats \<Rightarrow> BlobStorage" where
  "BlobStorage_new opts cf_id st =
     \<lparr>bs_opts = opts, bs_run_mode = co_blob_run_mode opts, bs_cf_id = cf_id, bs_files = [],
      bs_levels = replicate (co_num_levels opts) 0, bs_ranges = [], bs_gc_score = [],
      bs_obsolete = [], bs_destroyed = False, bs_stats = st\<rparr>"

definition cf_options :: "BlobStorage \<Rightarrow> TitanCFOptions" where
  "cf_options bs = (bs_opts bs)\<lparr>co_blob_run_mode := bs_run_mode bs\<rparr>"

definition SetBlobRunMode :: "TitanBlobRunMode \<Rightarrow> BlobStorage \<Rightarrow> BlobStorage" where
  "SetBlobRunMode mode bs = bs\<lparr>bs_run_mode := mode\<rparr>"

section \<open>Operations\<close>

definition FindFile :: "BlobStorage \<Rightarrow> u64 \<Rightarrow> BlobFileMeta option" where
  "FindFile bs file_number = map_of (bs_files bs) file_number"

text \<open>\<open>std::sort\<close> by descending score; equal scores keep the order of the map.\<close>

fun insert_score :: "GCScore \<Rightarrow> GCScore list \<Rightarrow> GCScore list" where
  "insert_score g [] = [g]"
| "insert_score g (h # hs) =
     (if dbl_less (gs_score g) (gs_score h) then h # insert_score g hs else g # h # hs)"

definition gc_score_of :: "TitanCFOptions \<Rightarrow> BlobFileMeta \<Rightarrow> dbl" where
  "gc_score_of opts m =
     (if fm_size m < co_merge_small_file_threshold opts then co_discardable_ratio opts
      else GetDiscardableRatio m)"

definition ComputeGCScore :: "BlobStorage \<Rightarrow> BlobStorage" where
  "ComputeGCScore bs =
     bs\<lparr>bs_gc_score := foldr insert_score
        (map (\<lambda>(n, m). \<lparr>gs_file_number = n, gs_score = gc_score_of (bs_opts bs) m\<rparr>)
           (filter (\<lambda>(n, m). \<not> is_obsolete m) (bs_files bs))) []\<rparr>"

text \<open>\<open>std::multimap::emplace\<close> puts a key after the equivalent ones.\<close>

definition range_emplace :: "(bytes \<Rightarrow> bytes \<Rightarrow> bool) \<Rightarrow> bytes \<Rightarrow> u64 \<Rightarrow> (bytes \<times> u64) list \<Rightarrow> (bytes \<times> u64) list" where
  "range_emplace lt k n rs =
     takeWhile (\<lambda>e. \<not> lt k (fst e)) rs @ (k, n) # dropWhile (\<lambda>e. \<not> lt k (fst e)) rs"

definition AddBlobFile :: "BlobFileMeta \<Rightarrow> BlobStorage \<Rightarrow> BlobStorage option" where
  "AddBlobFile file bs =
     (let lev = unat (fm_level file);
          bs = bs\<lparr>bs_files := emplace (fm_number file) file (bs_files bs),
                  bs_ranges := range_emplace (co_less (bs_opts bs)) (fm_smallest file)
                                 (fm_number file) (bs_ranges bs)\<rparr> in
      if lev < length (bs_levels bs) then
        (let bs = bs\<lparr>bs_levels := (bs_levels bs)[lev := bs_levels bs ! lev + 1]\<rparr>;
             st = bs_stats bs;
             st = (if fm_live file \<noteq> 0
                   then AddStats (NUM_DISCARDABLE_RATIO (GetDiscardableRatioLevel file)) 1 st
                   else st);
             st = AddStats LIVE_BLOB_FILE_SIZE (fm_size file) st;
             st = AddStats NUM_LIVE_BLOB_FILE 1 st
         in Some (bs\<lparr>bs_stats := st\<rparr>))
      else None)"

definition MarkFileObsoleteLocked :: "u64 \<Rightarrow> BlobFileMeta \<Rightarrow> u64 \<Rightarrow> BlobStorage \<Rightarrow> BlobStorage option" where
  "MarkFileObsoleteLocked n file obsolete_sequence bs =
     (let bs = bs\<lparr>bs_obsolete := bs_obsolete bs @ [(fm_number file, obsolete_sequence)]\<rparr>;
          lev = unat (fm_level file) in
      case FileStateTransit Delete file of
        None \<Rightarrow> None
      | Some file' \<Rightarrow>
          if lev < length (bs_levels bs) then
            (let st = bs_stats bs;
                 st = SubStats (NUM_DISCARDABLE_RATIO (GetDiscardableRatioLevel file')) 1 st;
                 st = SubStats LIVE_BLOB_SIZE (fm_live file') st;
                 st = SubStats LIVE_BLOB_FILE_SIZE (fm_size file') st;
                 st = SubStats NUM_LIVE_BLOB_FILE 1 st;
                 st = AddStats OBSOLETE_BLOB_FILE_SIZE (fm_size file') st;
                 st = AddStats NUM_OBSOLETE_BLOB_FILE 1 st
             in Some (bs\<lparr>bs_files := al_modify n (\<lambda>_. file') (bs_files bs),
                        bs_levels := (bs_levels bs)[lev := bs_levels bs ! lev - 1],
                        bs_stats := st\<rparr>))
          else None)"

definition MarkFileObsolete :: "u64 \<Rightarrow> u64 \<Rightarrow> BlobStorage \<Rightarrow> (bool \<times> BlobStorage) option" where
  "MarkFileObsolete file_number obsolete_sequence bs =
     (case map_of (bs_files bs) file_number of
        None \<Rightarrow> Some (False, bs)
      | Some file \<Rightarrow>
          map_option (\<lambda>bs. (True, bs)) (MarkFileObsoleteLocked file_number file obsolete_sequence bs))"

text \<open>The first entry with the number among the entries whose key is equivalent.\<close>

fun range_erase :: "(bytes \<Rightarrow> bytes \<Rightarrow> bool) \<Rightarrow> bytes \<Rightarrow> u64 \<Rightarrow> (bytes \<times> u64) list \<Rightarrow> (bytes \<times> u64) list" where
  "range_erase lt k n [] = []"
| "range_erase lt k n (e # es) =
     (if \<not> lt (fst e) k \<and> \<not> lt k (fst e) \<and> snd e = n then es else e # range_erase lt k n es)"

definition RemoveFile :: "u64 \<Rightarrow> BlobStorage \<Rightarrow> bool \<times> BlobStorage" where
  "RemoveFile file_number bs =
     (case map_of (bs_files bs) file_number of
        None \<Rightarrow> (False, bs)
      | Some file \<Rightarrow>
          (let st = bs_stats bs;
               st = SubStats OBSOLETE_BLOB_FILE_SIZE (fm_size file) st;
               st = SubStats NUM_OBSOLETE_BLOB_FILE 1 st
           in (True, bs\<lparr>bs_ranges := range_erase (co_less (bs_opts bs)) (fm_smallest file)
                                      (fm_number file) (bs_ranges bs),
                        bs_files := al_erase file_number (bs_files bs),
                        bs_stats := st\<rparr>)))"

text \<open>
  The loop of \<open>GetObsoleteFiles\<close> over \<open>obsolete_files_\<close>: the entries kept, the files removed
  and the storage, whose own list is replaced at the end.
\<close>

fun GetObsoleteFiles_loop ::
    "u64 \<Rightarrow> (u64 \<times> u64) list \<Rightarrow> BlobStorage \<Rightarrow> ((u64 \<times> u64) list \<times> u64 list \<times> BlobStorage) option" where
  "GetObsoleteFiles_loop oldest_sequence [] bs = Some ([], [], bs)"
| "GetObsoleteFiles_loop oldest_sequence ((file_number, obsolete_sequence) # es) bs =
     (if oldest_sequence > obsolete_sequence then
        (case RemoveFile file_number bs of
           (removed, bs) \<Rightarrow>
             if \<not> removed then None
             else (case GetObsoleteFiles_loop oldest_sequence es bs of
                     None \<Rightarrow> None
                   | Some (kept, names, bs) \<Rightarrow> Some (kept, file_number # names, bs)))
      else (case GetObsoleteFiles_loop oldest_sequence es bs of
              None \<Rightarrow> None
            | Some (kept, names, bs) \<Rightarrow> Some ((file_number, obsolete_sequence) # kept, names, bs)))"

definition GetObsoleteFiles :: "u64 \<Rightarrow> BlobStorage \<Rightarrow> (u64 list \<times> BlobStorage) option" where
  "GetObsoleteFiles oldest_sequence bs =
     (case GetObsoleteFiles_loop oldest_sequence (bs_obsolete bs) bs of
        None \<Rightarrow> None
      | Some (kept, names, bs) \<Rightarrow> Some (names, bs\<lparr>bs_obsolete := kept\<rparr>))"

definition GetAllFiles :: "BlobStorage \<Rightarrow> u64 list" where
  "GetAllFiles bs = map fst (bs_files bs)"

definition MarkDestroyed :: "BlobStorage \<Rightarrow> BlobStorage" where
  "MarkDestroyed bs = bs\<lparr>bs_destroyed := True\<rparr>"

definition MaybeRemove :: "BlobStorage \<Rightarrow> bool" where
  "MaybeRemove bs \<longleftrightarrow> bs_destroyed bs \<and> bs_obsolete bs = []"

definition NumBlobFiles :: "BlobStorage \<Rightarrow> nat" where
  "NumBlobFiles bs = length (bs_files bs)"

definition NumBlobFilesAtLevel :: "BlobStorage \<Rightarrow> nat \<Rightarrow> int" where
  "NumBlobFilesAtLevel bs level =
     (if level \<ge> length (bs_levels bs) then 0 else bs_levels bs ! level)"

definition NumObsoleteBlobFiles :: "BlobStorage \<Rightarrow> nat" where
  "NumObsoleteBlobFiles bs = length (bs_obsolete bs)"

fun restart_files :: "(u64 \<times> BlobFileMeta) list \<Rightarrow> (u64 \<times> BlobFileMeta) list option" where
  "restart_files [] = Some []"
| "restart_files ((n, m) # fs) =
     (case (FileStateTransit DbRestart m, restart_files fs) of
        (Some m', Some fs') \<Rightarrow> Some ((n, m') # fs')
      | _ \<Rightarrow> None)"

definition InitializeAllFiles :: "BlobStorage \<Rightarrow> BlobStorage option" where
  "InitializeAllFiles bs =
     map_option (\<lambda>fs. ComputeGCScore (bs\<lparr>bs_files := fs\<rparr>)) (restart_files (bs_files bs))"

text \<open>
  One range of \<open>GetBlobFilesInRanges\<close>: the iterators run from \<open>lower_bound(begin)\<close> to
  \<open>upper_bound(end)\<close>; when the first is behind the second the loop runs off the map (\<open>None\<close>).
\<close>

definition range_wanted :: "BlobStorage \<Rightarrow> bytes option \<Rightarrow> bool \<Rightarrow> u64 \<Rightarrow> bool" where
  "range_wanted bs endk include_end n =
     (case FindFile bs n of
        None \<Rightarrow> False
      | Some m \<Rightarrow>
          \<not> is_obsolete m \<and> \<not> (fm_largest m = [] \<and> endk \<noteq> None) \<and>
          (case endk of None \<Rightarrow> True
           | Some e \<Rightarrow> (include_end \<and> \<not> co_less (bs_opts bs) e (fm_largest m)) \<or>
                       (\<not> include_end \<and> co_less (bs_opts bs) (fm_largest m) e)))"

definition GetBlobFilesInRange :: "BlobStorage \<Rightarrow> bool \<Rightarrow> bytes option \<times> bytes option \<Rightarrow> u64 list option" where
  "GetBlobFilesInRange bs include_end rng =
     (let lt = co_less (bs_opts bs); rs = bs_ranges bs;
          lo = (case fst rng of None \<Rightarrow> 0 | Some b \<Rightarrow> length (takeWhile (\<lambda>e. lt (fst e) b) rs));
          hi = (case snd rng of None \<Rightarrow> length rs | Some e \<Rightarrow> length (takeWhile (\<lambda>x. \<not> lt e (fst x)) rs))
      in if lo \<le> hi
         then Some (filter (range_wanted bs (snd rng) include_end) (map snd (take (hi - lo) (drop lo rs))))
         else None)"

fun GetBlobFilesInRanges ::
    "BlobStorage \<Rightarrow> bool \<Rightarrow> (bytes option \<times> bytes option) list \<Rightarrow> u64 list option" where
  "GetBlobFilesInRanges bs include_end [] = Some []"
| "GetBlobFilesInRanges bs include_end (r # rs) =
     (case (GetBlobFilesInRange bs include_end r, GetBlobFilesInRanges bs include_end rs) of
        (Some a, Some b) \<Rightarrow> Some (a @ b)
      | _ \<Rightarrow> None)"

section \<open>Invariant\<close>

abbreviation live_file :: "u64 \<times> BlobFileMeta \<Rightarrow> bool" where
  "live_file p \<equiv> \<not> is_obsolete (snd p)"

abbreviation obs_file :: "u64 \<times> BlobFileMeta \<Rightarrow> bool" where
  "obs_file p \<equiv> is_obsolete (snd p)"

definition level_count :: "(u64 \<times> BlobFileMeta) list \<Rightarrow> nat \<Rightarrow> nat" where
  "level_count fs l = length (filter (\<lambda>p. live_file p \<and> unat (fm_level (snd p)) = l) fs)"

text \<open>The statistics that count files and bytes agree with the files.\<close>

definition stats_match :: "(u64 \<times> BlobFileMeta) list \<Rightarrow> stats \<Rightarrow> bool" where
  "stats_match fs st \<longleftrightarrow>
     (case st of None \<Rightarrow> True | Some f \<Rightarrow>
        f NUM_LIVE_BLOB_FILE = of_nat (length (filter live_file fs)) \<and>
        f NUM_OBSOLETE_BLOB_FILE = of_nat (length (filter obs_file fs)) \<and>
        f LIVE_BLOB_FILE_SIZE = sum_list (map (\<lambda>p. fm_size (snd p)) (filter live_file fs)) \<and>
        f OBSOLETE_BLOB_FILE_SIZE = sum_list (map (\<lambda>p. fm_size (snd p)) (filter obs_file fs)))"

definition storage_inv :: "BlobStorage \<Rightarrow> bool" where
  "storage_inv bs \<longleftrightarrow>
     distinct (map fst (bs_files bs)) \<and>
     list_all (\<lambda>p. fm_number (snd p) = fst p \<and> unat (fm_level (snd p)) < length (bs_levels bs)) (bs_files bs) \<and>
     (\<forall>l < length (bs_levels bs). bs_levels bs ! l = int (level_count (bs_files bs) l)) \<and>
     distinct (map fst (bs_obsolete bs)) \<and>
     fst ` set (bs_obsolete bs) = fst ` {p \<in> set (bs_files bs). obs_file p} \<and>
     mset (bs_ranges bs) = mset (map (\<lambda>p. (fm_smallest (snd p), fst p)) (bs_files bs)) \<and>
     stats_match (bs_files bs) (bs_stats bs)"

lemmas storage_simps = storage_inv_def level_count_def stats_match_def

text \<open>What the storage stands for: the live files, and the obsolete ones with their sequence.\<close>

definition live :: "BlobStorage \<Rightarrow> u64 \<rightharpoonup> BlobFileMeta" where
  "live bs n = (case map_of (bs_files bs) n of
     Some m \<Rightarrow> if is_obsolete m then None else Some m | None \<Rightarrow> None)"

definition obsolete_at :: "BlobStorage \<Rightarrow> u64 \<rightharpoonup> u64" where
  "obsolete_at bs n = map_of (bs_obsolete bs) n"

lemma map_of_split:
  assumes "distinct (map fst xs)" and "map_of xs k = Some v"
  obtains ys zs where "xs = ys @ (k, v) # zs" "k \<notin> fst ` set ys" "k \<notin> fst ` set zs"
proof -
  from map_of_SomeD [OF assms(2)] obtain ys zs where "xs = ys @ (k, v) # zs"
    by (auto simp: in_set_conv_decomp)
  with assms(1) that show thesis by auto
qed

lemma map_of_mid:
  "k \<notin> fst ` set ys \<Longrightarrow> map_of (ys @ (k, v) # zs) = (map_of (ys @ zs))(k \<mapsto> v)"
  by (induction ys) (auto simp: fun_eq_iff)

lemma al_modify_split:
  "k \<notin> fst ` set ys \<Longrightarrow> k \<notin> fst ` set zs \<Longrightarrow>
   al_modify k f (ys @ (k, v) # zs) = ys @ (k, f v) # zs"
  by (simp add: al_modify_def) (intro conjI map_idI; force)

lemma al_erase_split:
  "k \<notin> fst ` set ys \<Longrightarrow> k \<notin> fst ` set zs \<Longrightarrow> al_erase k (ys @ (k, v) # zs) = ys @ zs"
  by (simp add: al_erase_def) (intro arg_cong2 [where f = append] filter_True; force)

text \<open>Changing the volatile fields of files in place keeps the invariant.\<close>

lemma storage_inv_map_files:
  assumes inv: "storage_inv bs"
    and h: "\<And>p. p \<in> set (bs_files bs) \<Longrightarrow> fst (h p) = fst p \<and> fm_number (snd (h p)) = fm_number (snd p) \<and>
      fm_level (snd (h p)) = fm_level (snd p) \<and> fm_smallest (snd (h p)) = fm_smallest (snd p) \<and>
      fm_size (snd (h p)) = fm_size (snd p) \<and> is_obsolete (snd (h p)) = is_obsolete (snd p)"
  shows "storage_inv (bs\<lparr>bs_files := map h (bs_files bs)\<rparr>)"
proof -
  have fl: "filter live_file (map h (bs_files bs)) = map h (filter live_file (bs_files bs))"
    "filter obs_file (map h (bs_files bs)) = map h (filter obs_file (bs_files bs))"
    "filter (\<lambda>p. live_file p \<and> unat (fm_level (snd p)) = k) (map h (bs_files bs)) =
       map h (filter (\<lambda>p. live_file p \<and> unat (fm_level (snd p)) = k) (bs_files bs))" for k
    by (simp_all add: filter_map comp_def h cong: filter_cong)
  have sizes: "map (\<lambda>p. fm_size (snd p)) (map h (filter P (bs_files bs))) =
      map (\<lambda>p. fm_size (snd p)) (filter P (bs_files bs))" for P
    using h by simp
  have "fst ` {p \<in> set (map h (bs_files bs)). obs_file p} = fst ` {p \<in> set (bs_files bs). obs_file p}"
  proof -
    have "{p \<in> set (map h (bs_files bs)). obs_file p} = h ` {p \<in> set (bs_files bs). obs_file p}"
      using h by auto
    then show ?thesis using h by (simp add: image_image)
  qed
  moreover have "level_count (map h (bs_files bs)) k = level_count (bs_files bs) k" for k
    by (simp add: level_count_def fl)
  moreover have "stats_match (map h (bs_files bs)) (bs_stats bs) = stats_match (bs_files bs) (bs_stats bs)"
    by (cases "bs_stats bs") (simp_all add: stats_match_def fl sizes del: map_map)
  moreover have "list_all (\<lambda>p. fm_number (snd p) = fst p \<and> unat (fm_level (snd p)) < length (bs_levels bs)) (map h (bs_files bs))"
    using inv h by (simp add: storage_inv_def list_all_iff)
  moreover have "map (\<lambda>p. (fm_smallest (snd p), fst p)) (map h (bs_files bs)) =
      map (\<lambda>p. (fm_smallest (snd p), fst p)) (bs_files bs)" "map fst (map h (bs_files bs)) = map fst (bs_files bs)"
    using h by simp_all
  ultimately show ?thesis
    using inv by (simp add: storage_inv_def del: set_map list.pred_map map_map mset_map)
qed

lemma live_notin_obsolete: "storage_inv bs \<Longrightarrow> live bs n = Some m \<Longrightarrow> obsolete_at bs n = None"
proof -
  assume inv: "storage_inv bs" and "live bs n = Some m"
  then have m: "map_of (bs_files bs) n = Some m" "\<not> is_obsolete m"
    by (auto simp: live_def split: option.splits if_splits)
  have "n \<notin> fst ` {p \<in> set (bs_files bs). obs_file p}"
  proof
    assume "n \<in> fst ` {p \<in> set (bs_files bs). obs_file p}"
    then obtain m' where "(n, m') \<in> set (bs_files bs)" "is_obsolete m'" by auto
    with inv m show False by (auto simp: storage_inv_def dest: map_of_is_SomeI)
  qed
  then show "obsolete_at bs n = None"
    using inv by (auto simp: storage_inv_def obsolete_at_def map_of_eq_None_iff)
qed

lemma mset_range_emplace [simp]: "mset (range_emplace lt k n rs) = add_mset (k, n) (mset rs)"
  unfolding range_emplace_def
  by (metis mset_append mset.simps(2) takeWhile_dropWhile_id union_mset_add_mset_right)

lemma BlobStorage_new_inv: "st = None \<or> st = Some (\<lambda>_. 0) \<Longrightarrow> storage_inv (BlobStorage_new opts cf st)"
  by (auto simp: storage_simps BlobStorage_new_def)

section \<open>Adding and marking files\<close>

text \<open>A file the storage can take: its level exists and it is not obsolete.\<close>

definition addable :: "BlobStorage \<Rightarrow> BlobFileMeta \<Rightarrow> bool" where
  "addable bs m \<longleftrightarrow> unat (fm_level m) < length (bs_levels bs) \<and> \<not> is_obsolete m"

lemma level_count_snoc:
  "level_count (fs @ [(n, m)]) l = level_count fs l + (if \<not> is_obsolete m \<and> unat (fm_level m) = l then 1 else 0)"
  by (simp add: level_count_def)

lemma FindFile_None_iff:
  "storage_inv bs \<Longrightarrow> n \<notin> fst ` set (bs_files bs) \<longleftrightarrow> live bs n = None \<and> obsolete_at bs n = None"
proof
  assume inv: "storage_inv bs" and "live bs n = None \<and> obsolete_at bs n = None"
  then have o: "n \<notin> fst ` {p \<in> set (bs_files bs). obs_file p}"
    by (auto simp: storage_inv_def obsolete_at_def map_of_eq_None_iff)
  show "n \<notin> fst ` set (bs_files bs)"
  proof
    assume "n \<in> fst ` set (bs_files bs)"
    then obtain m where m: "map_of (bs_files bs) n = Some m"
      by (metis map_of_eq_None_iff option.exhaust)
    with o have "\<not> is_obsolete m" by (force dest: map_of_SomeD)
    with m have "live bs n = Some m" by (simp add: live_def)
    with \<open>live bs n = None \<and> _\<close> show False by simp
  qed
next
  assume inv: "storage_inv bs" and n: "n \<notin> fst ` set (bs_files bs)"
  then have "n \<notin> fst ` {p \<in> set (bs_files bs). obs_file p}" "map_of (bs_files bs) n = None"
    by (auto simp: map_of_eq_None_iff)
  moreover from this have "live bs n = None" by (simp add: live_def)
  ultimately show "live bs n = None \<and> obsolete_at bs n = None"
    using inv by (auto simp: storage_inv_def obsolete_at_def map_of_eq_None_iff)
qed

lemma stats_match_add:
  "stats_match fs st \<Longrightarrow> \<not> is_obsolete m \<Longrightarrow>
   stats_match (fs @ [(n, m)]) (AddStats NUM_LIVE_BLOB_FILE 1 (AddStats LIVE_BLOB_FILE_SIZE (fm_size m)
     (if b then AddStats (NUM_DISCARDABLE_RATIO r) 1 st else st)))"
  by (cases st) (simp_all add: stats_match_def AddStats_def)

lemma AddBlobFile_ok:
  assumes inv: "storage_inv bs" and add: "addable bs m"
    and new: "live bs (fm_number m) = None" "obsolete_at bs (fm_number m) = None"
  obtains bs' where "AddBlobFile m bs = Some bs'" "storage_inv bs'"
    "live bs' = (live bs)(fm_number m \<mapsto> m)" "obsolete_at bs' = obsolete_at bs"
    "length (bs_levels bs') = length (bs_levels bs)" "bs_opts bs' = bs_opts bs"
    "bs_files bs' = bs_files bs @ [(fm_number m, m)]"
proof -
  let ?n = "fm_number m" and ?l = "unat (fm_level m)"
  have fresh: "?n \<notin> fst ` set (bs_files bs)" using FindFile_None_iff [OF inv] new by simp
  have lev: "?l < length (bs_levels bs)" "\<not> is_obsolete m" using add by (simp_all add: addable_def)
  obtain bs' where bs': "AddBlobFile m bs = Some bs'" using lev by (simp add: AddBlobFile_def Let_def)
  then have files: "bs_files bs' = bs_files bs @ [(?n, m)]"
    and levels: "bs_levels bs' = (bs_levels bs)[?l := bs_levels bs ! ?l + 1]"
    and rest: "bs_obsolete bs' = bs_obsolete bs" "bs_opts bs' = bs_opts bs"
    and ranges: "mset (bs_ranges bs') = add_mset (fm_smallest m, ?n) (mset (bs_ranges bs))"
    using fresh lev by (auto simp: AddBlobFile_def Let_def emplace_def)
  have "bs_stats bs' = AddStats NUM_LIVE_BLOB_FILE 1 (AddStats LIVE_BLOB_FILE_SIZE (fm_size m)
      (if fm_live m \<noteq> 0 then AddStats (NUM_DISCARDABLE_RATIO (GetDiscardableRatioLevel m)) 1 (bs_stats bs)
       else bs_stats bs))"
    using bs' lev by (auto simp: AddBlobFile_def Let_def)
  moreover have "stats_match (bs_files bs) (bs_stats bs)" using inv by (simp add: storage_inv_def)
  ultimately have stats: "stats_match (bs_files bs') (bs_stats bs')"
    using lev(2) by (simp only: files stats_match_add simp_thms)
  have "\<forall>l < length (bs_levels bs'). bs_levels bs' ! l = int (level_count (bs_files bs') l)"
    using inv lev by (simp add: storage_inv_def levels files level_count_snoc nth_list_update)
  then have "storage_inv bs'"
    using inv fresh lev stats ranges rest
    by (auto simp: storage_inv_def files levels image_Un)
  moreover have "live bs' = (live bs)(?n \<mapsto> m)"
    using fresh lev(2)
    by (auto simp: live_def files fun_eq_iff map_of_snoc simp del: map_of_append)
  ultimately show thesis
    using that [OF bs'] rest files levels by (simp add: obsolete_at_def fun_eq_iff)
qed

lemma stats_match_kill:
  "stats_match (ys @ (n, m) # zs) st \<Longrightarrow> \<not> is_obsolete m \<Longrightarrow> is_obsolete m' \<Longrightarrow> fm_size m' = fm_size m \<Longrightarrow>
   stats_match (ys @ (n, m') # zs)
     (AddStats NUM_OBSOLETE_BLOB_FILE 1 (AddStats OBSOLETE_BLOB_FILE_SIZE (fm_size m')
       (SubStats NUM_LIVE_BLOB_FILE 1 (SubStats LIVE_BLOB_FILE_SIZE (fm_size m')
         (SubStats LIVE_BLOB_SIZE v (SubStats (NUM_DISCARDABLE_RATIO r) 1 st))))))"
  by (cases st) (simp_all add: stats_match_def AddStats_def SubStats_def)

lemma stats_match_remove:
  "stats_match (ys @ (n, m) # zs) st \<Longrightarrow> is_obsolete m \<Longrightarrow>
   stats_match (ys @ zs) (SubStats NUM_OBSOLETE_BLOB_FILE 1 (SubStats OBSOLETE_BLOB_FILE_SIZE (fm_size m) st))"
  by (cases st) (simp_all add: stats_match_def SubStats_def)

lemma MarkFileObsolete_ok:
  assumes inv: "storage_inv bs" and lv: "live bs n = Some m"
  obtains bs' where "MarkFileObsolete n q bs = Some (True, bs')" "storage_inv bs'"
    "live bs' = (live bs)(n := None)" "obsolete_at bs' = (obsolete_at bs)(n \<mapsto> q)"
    "length (bs_levels bs') = length (bs_levels bs)" "bs_opts bs' = bs_opts bs"
proof -
  define m' where "m' = m\<lparr>fm_state := Obsolete\<rparr>"
  have m: "map_of (bs_files bs) n = Some m" "\<not> is_obsolete m"
    using lv by (auto simp: live_def split: option.splits if_splits)
  have obs: "obsolete_at bs n = None" using live_notin_obsolete [OF inv lv] .
  have d: "distinct (map fst (bs_files bs))" using inv by (simp add: storage_inv_def)
  obtain ys zs where fs: "bs_files bs = ys @ (n, m) # zs" "n \<notin> fst ` set ys" "n \<notin> fst ` set zs"
    using map_of_split [OF d m(1)] by metis
  have num: "fm_number m = n" and lev: "unat (fm_level m) < length (bs_levels bs)"
    using inv fs(1) by (auto simp: storage_inv_def)
  have tr: "FileStateTransit Delete m = Some m'"
    using m(2) by (simp add: FileStateTransit_def transit_def is_obsolete_def m'_def)
  have m': "is_obsolete m'" "fm_level m' = fm_level m" "fm_size m' = fm_size m" "fm_number m' = n"
    "fm_smallest m' = fm_smallest m"
    using num by (simp_all add: m'_def is_obsolete_def)
  obtain bs' where bs': "MarkFileObsolete n q bs = Some (True, bs')"
    and files: "bs_files bs' = ys @ (n, m') # zs"
    and levels: "bs_levels bs' = (bs_levels bs)[unat (fm_level m) := bs_levels bs ! unat (fm_level m) - 1]"
    and rest: "bs_obsolete bs' = bs_obsolete bs @ [(n, q)]" "bs_opts bs' = bs_opts bs" "bs_ranges bs' = bs_ranges bs"
    and st: "bs_stats bs' = AddStats NUM_OBSOLETE_BLOB_FILE 1 (AddStats OBSOLETE_BLOB_FILE_SIZE (fm_size m')
       (SubStats NUM_LIVE_BLOB_FILE 1 (SubStats LIVE_BLOB_FILE_SIZE (fm_size m')
         (SubStats LIVE_BLOB_SIZE (fm_live m') (SubStats (NUM_DISCARDABLE_RATIO (GetDiscardableRatioLevel m')) 1 (bs_stats bs))))))"
    using lev num m(1) fs al_modify_split [OF fs(2,3), of "\<lambda>_. m'" m]
    by (simp add: MarkFileObsolete_def MarkFileObsoleteLocked_def tr Let_def)
  have stats: "stats_match (bs_files bs') (bs_stats bs')"
    unfolding files st using inv m(2) m' fs(1)
    by (intro stats_match_kill [of ys n m zs]) (auto simp: storage_inv_def)
  have "\<forall>l < length (bs_levels bs'). bs_levels bs' ! l = int (level_count (bs_files bs') l)"
    using inv lev m(2) m' by (auto simp: storage_inv_def levels files fs(1) level_count_def nth_list_update)
  moreover have "n \<notin> fst ` set (bs_obsolete bs)"
    using obs by (simp add: obsolete_at_def map_of_eq_None_iff)
  moreover have "fst ` {p \<in> set (bs_files bs'). obs_file p} = insert n (fst ` {p \<in> set (bs_files bs). obs_file p})"
    using m(2) m'(1) by (force simp: files fs(1))
  ultimately have "storage_inv bs'"
    using inv stats rest m' lev by (auto simp: storage_inv_def files levels fs(1))
  moreover have "live bs' = (live bs)(n := None)"
    using m'(1) by (simp add: live_def files fs(1) fun_eq_iff map_of_mid [OF fs(2)] del: map_of_append)
  moreover have "obsolete_at bs' = (obsolete_at bs)(n \<mapsto> q)"
    using \<open>n \<notin> fst ` set (bs_obsolete bs)\<close>
    by (simp add: obsolete_at_def fun_eq_iff rest map_of_snoc del: map_of_append)
  ultimately show thesis using that bs' rest levels by simp
qed

lemma MarkFileObsolete_missing:
  "n \<notin> fst ` set (bs_files bs) \<Longrightarrow> MarkFileObsolete n q bs = Some (False, bs)"
  by (simp add: MarkFileObsolete_def map_of_eq_None_iff [symmetric])

section \<open>Purging obsolete files\<close>

lemma mset_range_erase:
  "\<not> lt k k \<Longrightarrow> (k, n) \<in> set rs \<Longrightarrow> (\<And>e. e \<in> set rs \<Longrightarrow> snd e = n \<Longrightarrow> e = (k, n)) \<Longrightarrow>
   mset (range_erase lt k n rs) = mset rs - {#(k, n)#}"
proof (induction rs)
  case (Cons e rs)
  show ?case
  proof (cases "snd e = n")
    case True
    then have "e = (k, n)" using Cons.prems(3) [of e] by simp
    then show ?thesis using Cons.prems(1) by simp
  next
    case False
    then have "(k, n) \<in> set rs" "e \<noteq> (k, n)" using Cons.prems(2) by auto
    moreover have "mset (range_erase lt k n rs) = mset rs - {#(k, n)#}"
      using Cons.IH [OF Cons.prems(1) \<open>(k, n) \<in> set rs\<close>] Cons.prems(3) by simp
    ultimately show ?thesis using False by (simp add: multiset_eq_iff)
  qed
qed simp

lemma RemoveFile_ok:
  assumes inv: "storage_inv (bs\<lparr>bs_obsolete := pre @ (n, q) # es\<rparr>)"
    and irr: "\<And>k. \<not> co_less (bs_opts bs) k k"
  obtains bs' where "RemoveFile n bs = (True, bs')" "storage_inv (bs'\<lparr>bs_obsolete := pre @ es\<rparr>)"
    "live bs' = live bs" "bs_files bs' = al_erase n (bs_files bs)" "bs_opts bs' = bs_opts bs"
    "bs_destroyed bs' = bs_destroyed bs" "bs_levels bs' = bs_levels bs"
proof -
  have d: "distinct (map fst (bs_files bs))" using inv by (simp add: storage_inv_def)
  have "n \<in> fst ` {p \<in> set (bs_files bs). obs_file p}" using inv by (auto simp: storage_inv_def)
  then obtain m where m: "(n, m) \<in> set (bs_files bs)" "is_obsolete m" by auto
  then have mo: "map_of (bs_files bs) n = Some m" using d by simp
  obtain ys zs where fs: "bs_files bs = ys @ (n, m) # zs" "n \<notin> fst ` set ys" "n \<notin> fst ` set zs"
    using map_of_split [OF d mo] by metis
  have num: "fm_number m = n" using inv fs(1) by (auto simp: storage_inv_def)
  have er: "al_erase n (bs_files bs) = ys @ zs" using al_erase_split [OF fs(2,3)] fs(1) by simp
  have rs: "mset (bs_ranges bs) = mset (map (\<lambda>p. (fm_smallest (snd p), fst p)) (bs_files bs))"
    using inv by (simp add: storage_inv_def)
  have "mset (range_erase (co_less (bs_opts bs)) (fm_smallest m) n (bs_ranges bs)) =
      mset (bs_ranges bs) - {#(fm_smallest m, n)#}"
  proof (rule mset_range_erase)
    have "set (bs_ranges bs) = (\<lambda>p. (fm_smallest (snd p), fst p)) ` set (bs_files bs)"
      using arg_cong [OF rs, of set_mset] by simp
    then show "(fm_smallest m, n) \<in> set (bs_ranges bs)"
      and "\<And>e. e \<in> set (bs_ranges bs) \<Longrightarrow> snd e = n \<Longrightarrow> e = (fm_smallest m, n)"
      using fs by (auto simp: image_iff)
  qed (rule irr)
  then have rng: "mset (range_erase (co_less (bs_opts bs)) (fm_smallest m) n (bs_ranges bs)) =
      mset (map (\<lambda>p. (fm_smallest (snd p), fst p)) (ys @ zs))"
    by (simp add: rs fs(1))
  obtain bs' where bs': "RemoveFile n bs = (True, bs')" "bs_files bs' = ys @ zs"
    "bs_ranges bs' = range_erase (co_less (bs_opts bs)) (fm_smallest m) n (bs_ranges bs)"
    "bs_stats bs' = SubStats NUM_OBSOLETE_BLOB_FILE 1 (SubStats OBSOLETE_BLOB_FILE_SIZE (fm_size m) (bs_stats bs))"
    "bs_opts bs' = bs_opts bs" "bs_levels bs' = bs_levels bs" "bs_destroyed bs' = bs_destroyed bs"
    by (simp add: RemoveFile_def mo Let_def num er)
  have ob: "n \<notin> fst ` set (pre @ es)" "distinct (map fst (pre @ es))"
    "insert n (fst ` set (pre @ es)) = fst ` {p \<in> set (bs_files bs). obs_file p}"
    using inv by (simp_all add: storage_inv_def image_Un)
  have f1: "fst ` {p \<in> set (bs_files bs). obs_file p} = insert n (fst ` {p \<in> set (ys @ zs). obs_file p})"
    using m(2) by (force simp: fs(1))
  have f2: "n \<notin> fst ` {p \<in> set (ys @ zs). obs_file p}" using fs(2,3) by auto
  have o: "fst ` set (pre @ es) = fst ` {p \<in> set (ys @ zs). obs_file p}"
    using insert_ident [OF ob(1) f2] ob(3) f1 by (simp only: simp_thms)
  have "stats_match (bs_files bs') (bs_stats bs')"
    unfolding bs' using inv fs(1) m(2)
    by (intro stats_match_remove [of ys n m zs]) (simp_all add: storage_inv_def)
  moreover have "level_count (ys @ zs) l = level_count (bs_files bs) l" for l
    using m(2) by (simp add: level_count_def fs(1))
  moreover have "distinct (map fst (ys @ zs))" using d by (auto simp: fs(1))
  moreover have "list_all (\<lambda>p. fm_number (snd p) = fst p \<and> unat (fm_level (snd p)) < length (bs_levels bs)) (ys @ zs)"
    using inv by (simp add: storage_inv_def fs(1))
  ultimately have "storage_inv (bs'\<lparr>bs_obsolete := pre @ es\<rparr>)"
    using inv rng o ob(2) by (simp add: storage_inv_def bs')
  moreover have "map_of (ys @ zs) n = None" using fs(2,3) by (simp add: map_of_eq_None_iff image_Un del: map_of_append)
  then have "live bs' = live bs"
    using m(2) by (simp add: live_def bs' fs(1) fun_eq_iff map_of_mid [OF fs(2)] del: map_of_append)
  ultimately show thesis using that bs' er by simp
qed

lemma GetObsoleteFiles_loop_ok:
  assumes "storage_inv (bs\<lparr>bs_obsolete := pre @ es\<rparr>)" and "\<And>k. \<not> co_less (bs_opts bs) k k"
  shows "\<exists>bs'. GetObsoleteFiles_loop oldest es bs =
      Some (filter (\<lambda>e. \<not> snd e < oldest) es, map fst (filter (\<lambda>e. snd e < oldest) es), bs') \<and>
    storage_inv (bs'\<lparr>bs_obsolete := pre @ filter (\<lambda>e. \<not> snd e < oldest) es\<rparr>) \<and>
    live bs' = live bs \<and> bs_opts bs' = bs_opts bs \<and> bs_destroyed bs' = bs_destroyed bs \<and>
    bs_levels bs' = bs_levels bs"
  using assms
proof (induction es arbitrary: bs pre)
  case (Cons e es)
  obtain n q where e: "e = (n, q)" by (cases e)
  show ?case
  proof (cases "q < oldest")
    case True
    obtain bs1 where bs1: "RemoveFile n bs = (True, bs1)" "storage_inv (bs1\<lparr>bs_obsolete := pre @ es\<rparr>)"
      "live bs1 = live bs" "bs_opts bs1 = bs_opts bs" "bs_destroyed bs1 = bs_destroyed bs"
      "bs_levels bs1 = bs_levels bs"
      using RemoveFile_ok [where bs = bs and pre = pre and n = n and q = q and es = es] Cons.prems
      unfolding e by metis
    with Cons.IH [where bs = bs1 and pre = pre] Cons.prems(2) True show ?thesis by (auto simp: e)
  next
    case False
    with Cons.IH [where bs = bs and pre = "pre @ [e]"] Cons.prems show ?thesis by (auto simp: e)
  qed
qed simp

lemma GetObsoleteFiles_ok:
  assumes "storage_inv bs" and "\<And>k. \<not> co_less (bs_opts bs) k k"
  obtains bs' where
    "GetObsoleteFiles oldest bs = Some (map fst (filter (\<lambda>e. snd e < oldest) (bs_obsolete bs)), bs')"
    "storage_inv bs'" "live bs' = live bs" "bs_opts bs' = bs_opts bs"
    "bs_obsolete bs' = filter (\<lambda>e. \<not> snd e < oldest) (bs_obsolete bs)"
    "bs_destroyed bs' = bs_destroyed bs" "bs_levels bs' = bs_levels bs"
proof -
  have "bs\<lparr>bs_obsolete := [] @ bs_obsolete bs\<rparr> = bs" by simp
  then obtain bs1 where "GetObsoleteFiles_loop oldest (bs_obsolete bs) bs =
      Some (filter (\<lambda>e. \<not> snd e < oldest) (bs_obsolete bs),
            map fst (filter (\<lambda>e. snd e < oldest) (bs_obsolete bs)), bs1)"
    "storage_inv (bs1\<lparr>bs_obsolete := filter (\<lambda>e. \<not> snd e < oldest) (bs_obsolete bs)\<rparr>)"
    "live bs1 = live bs" "bs_opts bs1 = bs_opts bs" "bs_destroyed bs1 = bs_destroyed bs"
    "bs_levels bs1 = bs_levels bs"
    using GetObsoleteFiles_loop_ok [where bs = bs and pre = "[]" and es = "bs_obsolete bs" and oldest = oldest]
      assms by auto
  then show thesis
    using that [of "bs1\<lparr>bs_obsolete := filter (\<lambda>e. \<not> snd e < oldest) (bs_obsolete bs)\<rparr>"]
    by (simp add: GetObsoleteFiles_def live_def fun_eq_iff)
qed

lemma restrict_filter:
  "distinct (map fst xs) \<Longrightarrow>
   map_of (filter (\<lambda>e. \<not> snd e < q) xs) n = (case map_of xs n of Some v \<Rightarrow> if v < q then None else Some v | None \<Rightarrow> None)"
proof (induction xs)
  case (Cons a xs)
  obtain k v where a: "a = (k, v)" by (cases a)
  have "map_of xs k = None" using Cons.prems by (simp add: a map_of_eq_None_iff)
  with Cons show ?case by (auto simp: a)
qed simp

section \<open>Scores\<close>

lemma set_insert_score: "set (insert_score g gs) = insert g (set gs)"
  by (induction gs) auto

lemma set_foldr_insert_score: "set (foldr insert_score gs []) = set gs"
  by (induction gs) (simp_all add: set_insert_score)

text \<open>Scores are never \<open>NaN\<close> unless a file has exactly the size of an empty file and no live
  data, or the configured ratio is \<open>NaN\<close>; without them the list is sorted.\<close>

definition no_nan :: "GCScore list \<Rightarrow> bool" where
  "no_nan gs \<longleftrightarrow> list_all (\<lambda>g. gs_score g \<noteq> NaN) gs"

lemma dbl_less_trans: "dbl_less x y \<Longrightarrow> dbl_less y z \<Longrightarrow> dbl_less x z"
  by (cases x; cases y; cases z) auto

lemma dbl_total: "x \<noteq> NaN \<Longrightarrow> y \<noteq> NaN \<Longrightarrow> \<not> dbl_less x y \<Longrightarrow> y = x \<or> dbl_less y x"
  by (cases x; cases y) auto

lemma dbl_less_irrefl: "\<not> dbl_less x x"
  by (cases x) auto

lemma dbl_not_less_trans:
  "x \<noteq> NaN \<Longrightarrow> y \<noteq> NaN \<Longrightarrow> z \<noteq> NaN \<Longrightarrow> \<not> dbl_less x y \<Longrightarrow> \<not> dbl_less y z \<Longrightarrow> \<not> dbl_less x z"
  by (cases x; cases y; cases z) auto

lemma sorted_insert_score:
  "no_nan (g # gs) \<Longrightarrow> sorted_wrt (\<lambda>a b. \<not> dbl_less (gs_score a) (gs_score b)) gs \<Longrightarrow>
   sorted_wrt (\<lambda>a b. \<not> dbl_less (gs_score a) (gs_score b)) (insert_score g gs)"
proof (induction gs)
  case (Cons h hs)
  show ?case
  proof (cases "dbl_less (gs_score g) (gs_score h)")
    case True
    then have "\<not> dbl_less (gs_score h) (gs_score g)" using dbl_less_trans dbl_less_irrefl by blast
    with True Cons show ?thesis by (auto simp: set_insert_score no_nan_def)
  next
    case False
    have "\<not> dbl_less (gs_score g) (gs_score x)" if "x \<in> set hs" for x
      by (rule dbl_not_less_trans [of _ "gs_score h"])
        (use that Cons.prems False in \<open>auto simp: no_nan_def list_all_iff\<close>)
    with False Cons.prems show ?thesis by auto
  qed
qed simp

lemma sorted_foldr_insert_score:
  "no_nan gs \<Longrightarrow> sorted_wrt (\<lambda>a b. \<not> dbl_less (gs_score a) (gs_score b)) (foldr insert_score gs [])"
proof (induction gs)
  case (Cons g gs)
  then have "no_nan (g # foldr insert_score gs [])"
    by (simp add: no_nan_def list_all_iff set_foldr_insert_score)
  with Cons show ?case by (auto simp: no_nan_def intro: sorted_insert_score)
qed simp

lemma ComputeGCScore_same [simp]:
  "bs_files (ComputeGCScore bs) = bs_files bs" "bs_obsolete (ComputeGCScore bs) = bs_obsolete bs"
  "bs_levels (ComputeGCScore bs) = bs_levels bs" "bs_opts (ComputeGCScore bs) = bs_opts bs"
  "live (ComputeGCScore bs) = live bs" "obsolete_at (ComputeGCScore bs) = obsolete_at bs"
  "storage_inv (ComputeGCScore bs) = storage_inv bs"
  by (simp_all add: ComputeGCScore_def live_def obsolete_at_def fun_eq_iff storage_inv_def)

lemma gc_score_files:
  "storage_inv bs \<Longrightarrow>
   gs_file_number ` set (bs_gc_score (ComputeGCScore bs)) = dom (live bs)"
proof -
  assume "storage_inv bs"
  then have d: "distinct (map fst (bs_files bs))" by (simp add: storage_inv_def)
  have "gs_file_number ` set (bs_gc_score (ComputeGCScore bs)) =
      fst ` {p \<in> set (bs_files bs). live_file p}"
    by (auto simp: ComputeGCScore_def set_foldr_insert_score image_image case_prod_unfold)
  also have "\<dots> = dom (live bs)"
  proof (intro set_eqI iffI)
    fix n assume "n \<in> fst ` {p \<in> set (bs_files bs). live_file p}"
    then obtain m where "map_of (bs_files bs) n = Some m" "\<not> is_obsolete m" using d by auto
    then show "n \<in> dom (live bs)" by (simp add: live_def dom_def)
  next
    fix n assume "n \<in> dom (live bs)"
    then obtain m where "map_of (bs_files bs) n = Some m" "\<not> is_obsolete m"
      by (auto simp: live_def split: option.splits if_splits)
    then show "n \<in> fst ` {p \<in> set (bs_files bs). live_file p}" by (force dest: map_of_SomeD)
  qed
  finally show ?thesis .
qed

section \<open>The contract of a file store\<close>

text \<open>
  What the edit collector relies on when it applies a batch: adding a file that is neither live
  nor obsolete and killing a live file succeed, keep the invariant, and have exactly the expected
  effect on the two maps.
\<close>

locale file_store =
  fixes inv :: "'s \<Rightarrow> bool"
    and alive :: "'s \<Rightarrow> 'n \<rightharpoonup> 'm"
    and dying :: "'s \<Rightarrow> 'n \<rightharpoonup> 'q"
    and conf :: "'s \<Rightarrow> 'c"
    and fits :: "'c \<Rightarrow> 'm \<Rightarrow> bool"
    and num :: "'m \<Rightarrow> 'n"
    and add :: "'m \<Rightarrow> 's \<Rightarrow> 's option"
    and kill :: "'n \<Rightarrow> 'q \<Rightarrow> 's \<Rightarrow> (bool \<times> 's) option"
  assumes add_ok: "inv s \<Longrightarrow> fits (conf s) m \<Longrightarrow> alive s (num m) = None \<Longrightarrow> dying s (num m) = None \<Longrightarrow>
      \<exists>s'. add m s = Some s' \<and> inv s' \<and> alive s' = (alive s)(num m \<mapsto> m) \<and> dying s' = dying s \<and>
        conf s' = conf s"
    and kill_ok: "inv s \<Longrightarrow> alive s n = Some m \<Longrightarrow>
      \<exists>s'. kill n q s = Some (True, s') \<and> inv s' \<and> alive s' = (alive s)(n := None) \<and>
        dying s' = (dying s)(n \<mapsto> q) \<and> conf s' = conf s"
begin

primrec add_all :: "'m list \<Rightarrow> 's \<Rightarrow> 's option" where
  "add_all [] s = Some s"
| "add_all (m # ms) s = (case add m s of None \<Rightarrow> None | Some s' \<Rightarrow> add_all ms s')"

primrec kill_all :: "('n \<times> 'q) list \<Rightarrow> 's \<Rightarrow> ('n option \<times> 's) option" where
  "kill_all [] s = Some (None, s)"
| "kill_all (d # ds) s =
     (case kill (fst d) (snd d) s of
        None \<Rightarrow> None
      | Some (found, s') \<Rightarrow> if found then kill_all ds s' else Some (Some (fst d), s'))"

lemma add_all_ok:
  "inv s \<Longrightarrow> distinct (map num ms) \<Longrightarrow> (\<And>m. m \<in> set ms \<Longrightarrow> fits (conf s) m) \<Longrightarrow>
   (\<And>m. m \<in> set ms \<Longrightarrow> alive s (num m) = None \<and> dying s (num m) = None) \<Longrightarrow>
   \<exists>s'. add_all ms s = Some s' \<and> inv s' \<and>
     alive s' = alive s ++ map_of (map (\<lambda>m. (num m, m)) ms) \<and> dying s' = dying s \<and> conf s' = conf s"
proof (induction ms arbitrary: s)
  case (Cons m ms)
  obtain s1 where s1: "add m s = Some s1" "inv s1" "alive s1 = (alive s)(num m \<mapsto> m)"
    "dying s1 = dying s" "conf s1 = conf s"
    using add_ok [of s m] Cons.prems by auto
  have "alive s1 (num x) = None \<and> dying s1 (num x) = None" if "x \<in> set ms" for x
  proof -
    have "num x \<noteq> num m" using that Cons.prems(2) by (metis distinct.simps(2) image_eqI list.set_map list.simps(9))
    then show ?thesis using that Cons.prems(4) [of x] s1 by simp
  qed
  then obtain s2 where s2: "add_all ms s1 = Some s2" "inv s2"
    "alive s2 = alive s1 ++ map_of (map (\<lambda>m. (num m, m)) ms)" "dying s2 = dying s1" "conf s2 = conf s1"
    using Cons.IH [OF s1(2)] Cons.prems(2,3) s1(5) by auto
  have "num m \<notin> dom (map_of (map (\<lambda>m. (num m, m)) ms))"
    using Cons.prems(2) by (auto simp: dom_map_of_conv_image_fst image_image)
  then have al: "alive s2 = alive s ++ map_of (map (\<lambda>m. (num m, m)) (m # ms))"
    using s1(3) s2(3) by (auto simp: fun_eq_iff map_add_def split: option.splits)
  show ?case
    by (intro exI [of _ s2] conjI al)
      (simp_all only: add_all.simps s1(1,4,5) s2(1,2,4,5) option.case)
qed simp

lemma kill_all_ok:
  "inv s \<Longrightarrow> distinct (map fst ds) \<Longrightarrow> (\<And>d. d \<in> set ds \<Longrightarrow> alive s (fst d) \<noteq> None) \<Longrightarrow>
   \<exists>s'. kill_all ds s = Some (None, s') \<and> inv s' \<and>
     alive s' = (alive s) |` (- fst ` set ds) \<and> dying s' = dying s ++ map_of ds \<and> conf s' = conf s"
proof (induction ds arbitrary: s)
  case (Cons d ds)
  obtain m where "alive s (fst d) = Some m" using Cons.prems(3) [of d] by auto
  then obtain s1 where s1: "kill (fst d) (snd d) s = Some (True, s1)" "inv s1"
    "alive s1 = (alive s)(fst d := None)" "dying s1 = (dying s)(fst d \<mapsto> snd d)" "conf s1 = conf s"
    using kill_ok [OF Cons.prems(1), of "fst d" m "snd d"] by auto
  have "alive s1 (fst e) \<noteq> None" if "e \<in> set ds" for e
    using that Cons.prems(2,3) s1 by (auto simp: image_iff)
  then obtain s2 where s2: "kill_all ds s1 = Some (None, s2)" "inv s2"
    "alive s2 = (alive s1) |` (- fst ` set ds)" "dying s2 = dying s1 ++ map_of ds" "conf s2 = conf s1"
    using Cons.IH [OF s1(2)] Cons.prems(2) by auto
  have "map_of ds (fst d) = None" using Cons.prems(2) by (simp add: map_of_eq_None_iff)
  then have dy: "dying s2 = dying s ++ map_of (d # ds)"
    using s1(4) s2(4) by (auto simp: fun_eq_iff map_add_def split: option.splits)
  have al: "alive s2 = (alive s) |` (- fst ` set (d # ds))"
    using s1(3) s2(3) by (auto simp: fun_eq_iff restrict_map_def)
  show ?case
    by (intro exI [of _ s2] conjI al dy)
      (simp_all only: kill_all.simps s1(1,5) s2(1,2,5) option.case prod.case if_True)
qed (simp add: restrict_map_def)

end

definition store_conf :: "BlobStorage \<Rightarrow> nat \<times> TitanCFOptions" where
  "store_conf bs = (length (bs_levels bs), bs_opts bs)"

definition conf_fits :: "nat \<times> TitanCFOptions \<Rightarrow> BlobFileMeta \<Rightarrow> bool" where
  "conf_fits c m \<longleftrightarrow> unat (fm_level m) < fst c \<and> \<not> is_obsolete m"

lemma addable_conf: "addable bs m \<longleftrightarrow> conf_fits (store_conf bs) m"
  by (simp add: addable_def conf_fits_def store_conf_def)

interpretation storage: file_store storage_inv live obsolete_at store_conf conf_fits fm_number
  AddBlobFile MarkFileObsolete
proof (unfold_locales, goal_cases)
  case (1 s m)
  obtain s' where "AddBlobFile m s = Some s'" "storage_inv s'" "live s' = (live s)(fm_number m \<mapsto> m)"
    "obsolete_at s' = obsolete_at s" "length (bs_levels s') = length (bs_levels s)" "bs_opts s' = bs_opts s"
    by (rule AddBlobFile_ok [OF 1(1) 1(2) [folded addable_conf] 1(3,4)])
  then show ?case by (intro exI [of _ s']) (simp add: store_conf_def)
next
  case (2 s n m q)
  obtain s' where "MarkFileObsolete n q s = Some (True, s')" "storage_inv s'" "live s' = (live s)(n := None)"
    "obsolete_at s' = (obsolete_at s)(n \<mapsto> q)" "length (bs_levels s') = length (bs_levels s)" "bs_opts s' = bs_opts s"
    by (rule MarkFileObsolete_ok [OF 2])
  then show ?case by (intro exI [of _ s']) (simp add: store_conf_def)
qed

section \<open>Properties\<close>


definition demo_options :: TitanCFOptions where
  "demo_options = \<lparr>co_min_blob_size = 0, co_compression = 0, co_target_size = 256, co_max_gc_batch_size = 1000,
     co_min_gc_batch_size = 100, co_discardable_ratio = Fin (1 / 2), co_merge_small_file_threshold = 8,
     co_blob_run_mode = kNormal, co_level_merge = False, co_range_merge = False, co_max_sorted_runs = 20,
     co_skip_value = False, co_use_bitmap = True, co_gc_offload = False, co_num_levels = 2,
     co_less = bytes_less\<rparr>"


text \<open>\<open>ComputeGCScore\<close> gives a score to exactly the files that are not obsolete, in
  descending order as long as no score is \<open>NaN\<close>, and changes nothing else.\<close>

theorem gc_scores_sorted:
  assumes "storage_inv bs" and "list_all (\<lambda>p. gc_score_of (bs_opts bs) (snd p) \<noteq> NaN) (bs_files bs)"
  shows "gs_file_number ` set (bs_gc_score (ComputeGCScore bs)) = dom (live bs) \<and>
    sorted_wrt (\<lambda>a b. \<not> dbl_less (gs_score a) (gs_score b)) (bs_gc_score (ComputeGCScore bs)) \<and>
    live (ComputeGCScore bs) = live bs \<and> storage_inv (ComputeGCScore bs)"
proof -
  have "no_nan (map (\<lambda>(n, m). \<lparr>gs_file_number = n, gs_score = gc_score_of (bs_opts bs) m\<rparr>)
      (filter (\<lambda>(n, m). \<not> is_obsolete m) (bs_files bs)))"
    using assms(2) by (auto simp: no_nan_def list_all_iff)
  from sorted_foldr_insert_score [OF this]
  have "sorted_wrt (\<lambda>a b. \<not> dbl_less (gs_score a) (gs_score b)) (bs_gc_score (ComputeGCScore bs))"
    by (simp add: ComputeGCScore_def)
  with gc_score_files [OF assms(1)] assms(1) show ?thesis by simp
qed

theorem gc_scores_sorted_witness:
  "\<exists>bs. AddBlobFile (BlobFileMeta_new 3 4 1 0 [] []) (BlobStorage_new demo_options 0 None) = Some bs \<and>
     gs_file_number ` set (bs_gc_score (ComputeGCScore bs)) = dom (live bs) \<and>
     live bs 3 = Some (BlobFileMeta_new 3 4 1 0 [] []) \<and>
     sorted_wrt (\<lambda>a b. \<not> dbl_less (gs_score a) (gs_score b)) (bs_gc_score (ComputeGCScore bs))"
proof -
  let ?m = "BlobFileMeta_new 3 4 1 0 [] []" and ?s = "BlobStorage_new demo_options 0 None"
  have i: "storage_inv ?s" by (simp add: BlobStorage_new_inv)
  have a: "addable ?s ?m" "live ?s (fm_number ?m) = None" "obsolete_at ?s (fm_number ?m) = None"
    by (simp_all add: addable_def BlobStorage_new_def demo_options_def BlobFileMeta_new_def
        is_obsolete_def live_def obsolete_at_def)
  obtain bs where bs: "AddBlobFile ?m ?s = Some bs" "storage_inv bs" "live bs = (live ?s)(fm_number ?m \<mapsto> ?m)"
    "bs_opts bs = bs_opts ?s" "bs_files bs = bs_files ?s @ [(fm_number ?m, ?m)]"
    by (rule AddBlobFile_ok [OF i a])
  have "list_all (\<lambda>p. gc_score_of (bs_opts bs) (snd p) \<noteq> NaN) (bs_files bs)"
    by (simp add: bs BlobStorage_new_def demo_options_def gc_score_of_def BlobFileMeta_new_def)
  from gc_scores_sorted [OF bs(2) this] bs show ?thesis by (auto simp: BlobFileMeta_new_def)
qed

end
