(* ===== verification/Titan_FileSet.thy ===== *)
theory Titan_FileSet
  imports Titan_VersionEdit Titan_Storage
begin

text \<open>
  The manifest and the set of blob files of all column families (\<open>edit_collector.h\<close>,
  \<open>blob_file_set.h\<close>, \<open>blob_file_set.cc\<close>).  Edits are collected, checked against the storages
  (\<open>Seal\<close>), logged and applied.

  The file system is explicit: \<open>fs_disk\<close> holds the contents of the \<open>CURRENT\<close> file, of every
  manifest (as the log reader sees it: records, and places where it reports a corruption) and the
  names in the directory; \<open>fs_io\<close> is the list of outcomes of the file operations to come, an
  exhausted list giving success.  An operation that fails leaves the disk as it was.  \<open>None\<close> is
  a failed assertion or a null pointer.
\<close>

section \<open>Edit collector\<close>

record CFEditCollector =
  ce_added :: "(u64 \<times> BlobFileMeta) list"
  ce_deleted :: "(u64 \<times> u64) list"

definition CFEditCollector_new :: CFEditCollector where
  "CFEditCollector_new = \<lparr>ce_added = [], ce_deleted = []\<rparr>"

abbreviation file_msg :: "u64 \<Rightarrow> string \<Rightarrow> string" where
  "file_msg n what \<equiv> ''Blob file '' @ nat_digits (unat n) @ what"

definition CFE_AddFile :: "BlobFileMeta \<Rightarrow> CFEditCollector \<Rightarrow> status \<times> CFEditCollector" where
  "CFE_AddFile file ce =
     (let number = fm_number file in
      if number \<in> fst ` set (ce_added ce)
      then (Corruption (file_msg number '' has been added twice''), ce)
      else (OK, ce\<lparr>ce_added := ce_added ce @ [(number, file)]\<rparr>))"

definition CFE_DeleteFile :: "u64 \<Rightarrow> u64 \<Rightarrow> CFEditCollector \<Rightarrow> status \<times> CFEditCollector" where
  "CFE_DeleteFile number obsolete_sequence ce =
     (if number \<in> fst ` set (ce_deleted ce)
      then (Corruption (file_msg number '' has been deleted twice''), ce)
      else (OK, ce\<lparr>ce_deleted := ce_deleted ce @ [(number, obsolete_sequence)]\<rparr>))"

fun CFE_Seal_added :: "BlobStorage \<Rightarrow> (u64 \<times> BlobFileMeta) list \<Rightarrow> status" where
  "CFE_Seal_added bs [] = OK"
| "CFE_Seal_added bs ((number, _) # fs) =
     (case FindFile bs number of
        Some blob \<Rightarrow>
          if is_obsolete blob then Corruption (file_msg number '' has been deleted before'')
          else Corruption (file_msg number '' has been added before'')
      | None \<Rightarrow> CFE_Seal_added bs fs)"

fun CFE_Seal_deleted :: "BlobStorage \<Rightarrow> (u64 \<times> BlobFileMeta) list \<Rightarrow> (u64 \<times> u64) list \<Rightarrow> status" where
  "CFE_Seal_deleted bs added [] = OK"
| "CFE_Seal_deleted bs added ((number, _) # fs) =
     (if number \<in> fst ` set added then CFE_Seal_deleted bs added fs
      else (case FindFile bs number of
              None \<Rightarrow> Corruption (file_msg number ('' doesn'' @ [CHR 0x27] @ ''t exist before''))
            | Some blob \<Rightarrow>
                if is_obsolete blob then Corruption (file_msg number '' has been deleted already'')
                else CFE_Seal_deleted bs added fs))"

definition CFE_Seal :: "CFEditCollector \<Rightarrow> BlobStorage \<Rightarrow> status" where
  "CFE_Seal ce bs =
     (let s = CFE_Seal_added bs (ce_added ce) in
      if s \<noteq> OK then s else CFE_Seal_deleted bs (ce_added ce) (ce_deleted ce))"

fun CFE_Apply_added :: "(u64 \<times> u64) list \<Rightarrow> (u64 \<times> BlobFileMeta) list \<Rightarrow> BlobStorage \<Rightarrow> BlobStorage option" where
  "CFE_Apply_added deleted [] bs = Some bs"
| "CFE_Apply_added deleted ((number, file) # fs) bs =
     (if number \<in> fst ` set deleted then CFE_Apply_added deleted fs bs
      else (case AddBlobFile file bs of
              None \<Rightarrow> None
            | Some bs' \<Rightarrow> CFE_Apply_added deleted fs bs'))"

fun CFE_Apply_deleted :: "(u64 \<times> BlobFileMeta) list \<Rightarrow> (u64 \<times> u64) list \<Rightarrow> BlobStorage \<Rightarrow> (status \<times> BlobStorage) option" where
  "CFE_Apply_deleted added [] bs = Some (OK, bs)"
| "CFE_Apply_deleted added ((number, seq) # fs) bs =
     (if number \<in> fst ` set added then CFE_Apply_deleted added fs bs
      else (case MarkFileObsolete number seq bs of
              None \<Rightarrow> None
            | Some (found, bs') \<Rightarrow>
                if found then CFE_Apply_deleted added fs bs'
                else Some (NotFound (''Invalid file number '' @ nat_digits (unat number)), bs')))"

definition CFE_Apply :: "CFEditCollector \<Rightarrow> BlobStorage \<Rightarrow> (status \<times> BlobStorage) option" where
  "CFE_Apply ce bs =
     (case CFE_Apply_added (ce_deleted ce) (ce_added ce) bs of
        None \<Rightarrow> None
      | Some bs \<Rightarrow>
          (case CFE_Apply_deleted (ce_added ce) (ce_deleted ce) bs of
             None \<Rightarrow> None
           | Some (s, bs) \<Rightarrow> if s \<noteq> OK then Some (s, bs) else Some (OK, ComputeGCScore bs)))"

record EditCollector =
  ec_status :: status
  ec_sealed :: bool
  ec_has_next :: bool
  ec_next :: u64
  ec_cfs :: "(u32 \<times> CFEditCollector) list"

definition EditCollector_new :: EditCollector where
  "EditCollector_new = \<lparr>ec_status = OK, ec_sealed = False, ec_has_next = False, ec_next = 0, ec_cfs = []\<rparr>"

fun add_files :: "BlobFileMeta list \<Rightarrow> CFEditCollector \<Rightarrow> status \<times> CFEditCollector" where
  "add_files [] ce = (OK, ce)"
| "add_files (f # fs) ce =
     (let (s, ce) = CFE_AddFile f ce in if s \<noteq> OK then (s, ce) else add_files fs ce)"

fun delete_files :: "(u64 \<times> u64) list \<Rightarrow> CFEditCollector \<Rightarrow> status \<times> CFEditCollector" where
  "delete_files [] ce = (OK, ce)"
| "delete_files ((n, q) # fs) ce =
     (let (s, ce) = CFE_DeleteFile n q ce in if s \<noteq> OK then (s, ce) else delete_files fs ce)"

text \<open>\<open>column_families_[cf_id]\<close> creates the entry.\<close>

definition cf_collector :: "u32 \<Rightarrow> EditCollector \<Rightarrow> CFEditCollector" where
  "cf_collector cf_id ec = (case map_of (ec_cfs ec) cf_id of Some ce \<Rightarrow> ce | None \<Rightarrow> CFEditCollector_new)"

definition set_cf_collector :: "u32 \<Rightarrow> CFEditCollector \<Rightarrow> EditCollector \<Rightarrow> EditCollector" where
  "set_cf_collector cf_id ce ec =
     ec\<lparr>ec_cfs := al_modify cf_id (\<lambda>_. ce) (emplace cf_id CFEditCollector_new (ec_cfs ec))\<rparr>"

definition AddEdit :: "VersionEdit \<Rightarrow> EditCollector \<Rightarrow> status \<times> EditCollector" where
  "AddEdit edit ec =
     (if ec_sealed ec then (Incomplete ''Should be not called after Sealed() is called'', ec)
      else
        (let cf_id = ve_cf edit;
             (s, ce) = add_files (ve_added edit) (cf_collector cf_id ec);
             ec = (set_cf_collector cf_id ce ec)\<lparr>ec_status := (if ve_added edit = [] then ec_status ec else s)\<rparr> in
         if s \<noteq> OK then (s, ec)
         else
           (let (s, ce) = delete_files (ve_deleted edit) ce;
                ec = (set_cf_collector cf_id ce ec)\<lparr>ec_status := (if ve_deleted edit = [] then ec_status ec else s)\<rparr> in
            if s \<noteq> OK then (s, ec)
            else if ve_has_next edit then
              (if ve_next edit < ec_next ec then
                 (let s = Corruption (''Edit has a smaller next file number '' @ nat_digits (unat (ve_next edit)) @
                             '' than current '' @ nat_digits (unat (ec_next ec)))
                  in (s, ec\<lparr>ec_status := s\<rparr>))
               else (OK, ec\<lparr>ec_next := ve_next edit, ec_has_next := True\<rparr>))
            else (OK, ec))))"

fun Seal_cfs :: "(u32 \<rightharpoonup> BlobStorage) \<Rightarrow> (u32 \<times> CFEditCollector) list \<Rightarrow> status" where
  "Seal_cfs storage [] = OK"
| "Seal_cfs storage ((cf_id, ce) # cfs) =
     (case storage cf_id of
        None \<Rightarrow> Seal_cfs storage cfs
      | Some bs \<Rightarrow> (let s = CFE_Seal ce bs in if s \<noteq> OK then s else Seal_cfs storage cfs))"

definition Seal :: "(u32 \<rightharpoonup> BlobStorage) \<Rightarrow> EditCollector \<Rightarrow> status \<times> EditCollector" where
  "Seal storage ec =
     (if ec_status ec \<noteq> OK then (ec_status ec, ec)
      else
        (let s = Seal_cfs storage (ec_cfs ec) in
         if s \<noteq> OK then (s, ec\<lparr>ec_status := s\<rparr>) else (OK, ec\<lparr>ec_sealed := True\<rparr>)))"

fun Apply_cfs :: "(u32 \<times> CFEditCollector) list \<Rightarrow> (u32 \<times> BlobStorage) list \<Rightarrow> (status \<times> (u32 \<times> BlobStorage) list) option" where
  "Apply_cfs [] cols = Some (OK, cols)"
| "Apply_cfs ((cf_id, ce) # cfs) cols =
     (case map_of cols cf_id of
        None \<Rightarrow> Apply_cfs cfs cols
      | Some bs \<Rightarrow>
          (case CFE_Apply ce bs of
             None \<Rightarrow> None
           | Some (s, bs) \<Rightarrow>
               (let cols = al_modify cf_id (\<lambda>_. bs) cols in
                if s \<noteq> OK then Some (s, cols) else Apply_cfs cfs cols)))"

definition Apply :: "EditCollector \<Rightarrow> (u32 \<times> BlobStorage) list \<Rightarrow> (status \<times> (u32 \<times> BlobStorage) list) option" where
  "Apply ec cols =
     (if ec_status ec \<noteq> OK then Some (ec_status ec, cols)
      else if \<not> ec_sealed ec then Some (Incomplete ''Should be not called until Sealed() is called'', cols)
      else Apply_cfs (ec_cfs ec) cols)"

definition GetNextFileNumber :: "EditCollector \<Rightarrow> status + u64" where
  "GetNextFileNumber ec =
     (if ec_status ec \<noteq> OK then Inl (ec_status ec)
      else if ec_has_next ec then Inr (ec_next ec)
      else Inl (Corruption ''No next file number in manifest file''))"

section \<open>Disk\<close>

text \<open>\<open>DescriptorFileName\<close> prints the number with at least six digits.\<close>

definition DescriptorFileName :: "u64 \<Rightarrow> string" where
  "DescriptorFileName n =
     (let d = nat_digits (unat n) in ''MANIFEST-'' @ replicate (6 - length d) (CHR ''0'') @ d)"

text \<open>A record of a log file, or a place where the reader reports a corruption and goes on.\<close>

datatype log_entry = Rec bytes | Corrupt status

text \<open>Names in the directory, parsed.\<close>

datatype FileName = BlobFileN u64 | DescriptorN u64 | OtherN string

record Disk =
  dk_current :: "string option"
  dk_manifests :: "string \<rightharpoonup> log_entry list"
  dk_children :: "FileName list"

record BlobFileSet =
  fs_columns :: "(u32 \<times> BlobStorage) list"
  fs_obsolete_columns :: "u32 list"
  fs_obsolete_manifests :: "string list"
  fs_manifest :: "string option"
  fs_next_file_number :: u64
  fs_manifest_file_number :: u64
  fs_disk :: Disk
  fs_io :: "status list"

definition next_io :: "BlobFileSet \<Rightarrow> status \<times> BlobFileSet" where
  "next_io fs = (case fs_io fs of [] \<Rightarrow> (OK, fs) | s # ss \<Rightarrow> (s, fs\<lparr>fs_io := ss\<rparr>))"

definition GetBlobStorage :: "BlobFileSet \<Rightarrow> u32 \<rightharpoonup> BlobStorage" where
  "GetBlobStorage fs = map_of (fs_columns fs)"

definition NewFileNumber :: "BlobFileSet \<Rightarrow> u64 \<times> BlobFileSet" where
  "NewFileNumber fs = (fs_next_file_number fs, fs\<lparr>fs_next_file_number := fs_next_file_number fs + 1\<rparr>)"

definition IsColumnFamilyObsolete :: "BlobFileSet \<Rightarrow> u32 \<Rightarrow> bool" where
  "IsColumnFamilyObsolete fs cf_id \<longleftrightarrow> cf_id \<in> set (fs_obsolete_columns fs)"

section \<open>Logging\<close>

text \<open>\<open>manifest_->AddRecord\<close>: \<open>None\<close> when there is no open manifest.\<close>

definition AddRecord :: "bytes \<Rightarrow> BlobFileSet \<Rightarrow> (status \<times> BlobFileSet) option" where
  "AddRecord record fs =
     (case fs_manifest fs of
        None \<Rightarrow> None
      | Some name \<Rightarrow>
          (let (s, fs) = next_io fs; d = fs_disk fs;
               old = (case dk_manifests d name of Some es \<Rightarrow> es | None \<Rightarrow> []) in
           Some (s, if s \<noteq> OK then fs
                    else fs\<lparr>fs_disk := d\<lparr>dk_manifests := (dk_manifests d)(name \<mapsto> old @ [Rec record])\<rparr>\<rparr>)))"

definition SyncTitanManifest :: "BlobFileSet \<Rightarrow> status \<times> BlobFileSet" where
  "SyncTitanManifest fs = next_io fs"

definition LogAndApply :: "VersionEdit \<Rightarrow> BlobFileSet \<Rightarrow> (status \<times> BlobFileSet) option" where
  "LogAndApply edit fs =
     (let edit = SetNextFileNumber (fs_next_file_number fs) edit;
          record = VersionEdit_EncodeTo [] edit;
          (s, ec) = AddEdit edit EditCollector_new in
      if s \<noteq> OK then Some (s, fs)
      else
        (let (s, ec) = Seal (GetBlobStorage fs) ec in
         if s \<noteq> OK then Some (s, fs)
         else
           (case AddRecord record fs of
              None \<Rightarrow> None
            | Some (s, fs) \<Rightarrow>
                if s \<noteq> OK then Some (s, fs)
                else
                  (let (s, fs) = SyncTitanManifest fs in
                   if s \<noteq> OK then Some (s, fs)
                   else map_option (\<lambda>(s, cols). (s, fs\<lparr>fs_columns := cols\<rparr>)) (Apply ec (fs_columns fs))))))"

definition snapshot_edit :: "u32 \<times> BlobStorage \<Rightarrow> VersionEdit" where
  "snapshot_edit col =
     foldl (\<lambda>e p. if is_obsolete (snd p) then e else VersionEdit_AddBlobFile (snd p) e)
       (SetColumnFamilyID (fst col) VersionEdit_new) (bs_files (snd col))"

fun WriteSnapshot_cfs :: "(u32 \<times> BlobStorage) list \<Rightarrow> BlobFileSet \<Rightarrow> (status \<times> BlobFileSet) option" where
  "WriteSnapshot_cfs [] fs = Some (OK, fs)"
| "WriteSnapshot_cfs (col # cols) fs =
     (case AddRecord (VersionEdit_EncodeTo [] (snapshot_edit col)) fs of
        None \<Rightarrow> None
      | Some (s, fs) \<Rightarrow> if s \<noteq> OK then Some (s, fs) else WriteSnapshot_cfs cols fs)"

definition WriteSnapshot :: "BlobFileSet \<Rightarrow> (status \<times> BlobFileSet) option" where
  "WriteSnapshot fs =
     (case AddRecord (VersionEdit_EncodeTo [] (SetNextFileNumber (fs_next_file_number fs) VersionEdit_new)) fs of
        None \<Rightarrow> None
      | Some (s, fs) \<Rightarrow> if s \<noteq> OK then Some (s, fs) else WriteSnapshot_cfs (fs_columns fs) fs)"

text \<open>\<open>SetCurrentFile\<close> replaces the \<open>CURRENT\<close> file atomically.\<close>

definition SetCurrentFile :: "u64 \<Rightarrow> BlobFileSet \<Rightarrow> status \<times> BlobFileSet" where
  "SetCurrentFile number fs =
     (let (s, fs) = next_io fs in
      (s, if s \<noteq> OK then fs
          else fs\<lparr>fs_disk := (fs_disk fs)\<lparr>dk_current := Some (DescriptorFileName number @ [CHR 0x0A])\<rparr>\<rparr>))"

definition OpenManifest :: "u64 \<Rightarrow> BlobFileSet \<Rightarrow> (status \<times> BlobFileSet) option" where
  "OpenManifest file_number fs =
     (let name = DescriptorFileName file_number; (s, fs) = next_io fs in
      if s \<noteq> OK then Some (s, fs)
      else
        (let d = fs_disk fs;
             fs = fs\<lparr>fs_disk := d\<lparr>dk_manifests := (dk_manifests d)(name \<mapsto> []),
                                   dk_children := dk_children d @ [DescriptorN file_number]\<rparr>,
                     fs_manifest := Some name\<rparr> in
         case WriteSnapshot fs of
           None \<Rightarrow> None
         | Some (s, fs) \<Rightarrow>
             (let (s, fs) = (if s = OK then SyncTitanManifest fs else (s, fs));
                  old_manifest_file_number = fs_manifest_file_number fs;
                  (s, fs) = (if s = OK
                             then (let (s, fs) = SetCurrentFile file_number fs
                                   in (s, fs\<lparr>fs_manifest_file_number := file_number\<rparr>))
                             else (s, fs))
              in Some (s, if s \<noteq> OK
                          then fs\<lparr>fs_manifest := None, fs_manifest_file_number := old_manifest_file_number,
                                  fs_obsolete_manifests := fs_obsolete_manifests fs @ [name]\<rparr>
                          else fs))))"

section \<open>Recovery\<close>

text \<open>\<open>ReadRecord\<close>: the reporter keeps the first corruption in the status.\<close>

fun ReadRecord :: "status \<Rightarrow> log_entry list \<Rightarrow> status \<times> (bytes \<times> log_entry list) option" where
  "ReadRecord s [] = (s, None)"
| "ReadRecord s (Rec r # es) = (s, Some (r, es))"
| "ReadRecord s (Corrupt c # es) = ReadRecord (if s = OK then c else s) es"

lemma ReadRecord_shrinks: "ReadRecord s es = (s', Some (r, es')) \<Longrightarrow> length es' < length es"
  by (induction s es rule: ReadRecord.induct) (auto split: if_splits)

text \<open>The loop of \<open>Recover\<close>: \<open>Inl\<close> is a return with an error, \<open>Inr\<close> leaving the loop.\<close>

function replay :: "status \<Rightarrow> log_entry list \<Rightarrow> EditCollector \<Rightarrow> status + EditCollector" where
  "replay s es ec =
     (case ReadRecord s es of
        (_, None) \<Rightarrow> Inr ec
      | (s, Some (record, es')) \<Rightarrow>
          if s \<noteq> OK then Inr ec
          else (case DecodeInto (VersionEdit_DecodeFrom VersionEdit_new) record False of
                  Inl e \<Rightarrow> Inl e
                | Inr edit \<Rightarrow>
                    (let (s, ec) = AddEdit edit ec in
                     if s \<noteq> OK then Inl s else replay s es' ec)))"
  by pat_completeness auto
termination
  by (relation "measure (\<lambda>(s, es, ec). length es)") (auto dest: ReadRecord_shrinks [OF sym])

declare replay.simps [simp del]

definition kMaxSequenceNumber :: u64 where
  "kMaxSequenceNumber = 2 ^ 56 - 1"

fun purge_columns :: "(u32 \<times> BlobStorage) list \<Rightarrow> (u64 list \<times> (u32 \<times> BlobStorage) list) option" where
  "purge_columns [] = Some ([], [])"
| "purge_columns ((cf, bs) # cols) =
     (case (GetObsoleteFiles kMaxSequenceNumber bs, purge_columns cols) of
        (Some (_, bs'), Some (alive, cols')) \<Rightarrow>
          Some (map (\<lambda>p. fm_number (snd p)) (bs_files bs') @ alive, (cf, bs') # cols')
      | _ \<Rightarrow> None)"

fun file_dead :: "u64 list \<Rightarrow> FileName \<Rightarrow> bool" where
  "file_dead alive (BlobFileN n) = (n \<notin> set alive)"
| "file_dead alive (DescriptorN n) = (n \<notin> set alive)"
| "file_dead alive (OtherN _) = False"

text \<open>The directory after the deletions; a deletion that fails leaves its file.\<close>

fun delete_dead :: "u64 list \<Rightarrow> FileName list \<Rightarrow> BlobFileSet \<Rightarrow> BlobFileSet" where
  "delete_dead alive [] fs = fs"
| "delete_dead alive (f # fl) fs =
     (if file_dead alive f then
        (let (s, fs) = next_io fs; d = fs_disk fs in
         delete_dead alive fl
           (if s \<noteq> OK then fs else fs\<lparr>fs_disk := d\<lparr>dk_children := removeAll f (dk_children d)\<rparr>\<rparr>))
      else delete_dead alive fl fs)"

text \<open>Sealing and applying the collected edits, and restoring the next file number.\<close>

definition Recover_apply :: "EditCollector \<Rightarrow> BlobFileSet \<Rightarrow> (status \<times> BlobFileSet) option" where
  "Recover_apply ec fs =
     (let (s, ec) = Seal (GetBlobStorage fs) ec in
      if s \<noteq> OK then Some (s, fs)
      else (case Apply ec (fs_columns fs) of
              None \<Rightarrow> None
            | Some (s, cols) \<Rightarrow>
                (let fs = fs\<lparr>fs_columns := cols\<rparr> in
                 if s \<noteq> OK then Some (s, fs)
                 else (case GetNextFileNumber ec of
                         Inl e \<Rightarrow> Some (e, fs)
                       | Inr next_file_number \<Rightarrow>
                           Some (OK, fs\<lparr>fs_next_file_number := next_file_number\<rparr>)))))"

text \<open>A new manifest, then the purge of the files that are not alive.\<close>

definition Recover_purge :: "BlobFileSet \<Rightarrow> (status \<times> BlobFileSet) option" where
  "Recover_purge fs =
     (let (number, fs) = NewFileNumber fs in
      case OpenManifest number fs of
        None \<Rightarrow> None
      | Some (s, fs) \<Rightarrow>
          if s \<noteq> OK then Some (s, fs)
          else (case purge_columns (fs_columns fs) of
                  None \<Rightarrow> None
                | Some (alive, cols) \<Rightarrow>
                    (let fs = fs\<lparr>fs_columns := cols\<rparr>;
                         (s, fs) = next_io fs;
                         files = (if s = OK then dk_children (fs_disk fs) else [])
                     in Some (OK, delete_dead (number # alive) files fs))))"

text \<open>Reading the name in \<open>CURRENT\<close> and opening that manifest.\<close>

definition Recover_open :: "BlobFileSet \<Rightarrow> (status + log_entry list) \<times> BlobFileSet" where
  "Recover_open fs =
     (let (s, fs) = next_io fs in
      if s \<noteq> OK then (Inl s, fs)
      else (case dk_current (fs_disk fs) of
              None \<Rightarrow> (Inl (NotFound ''CURRENT''), fs)
            | Some manifest \<Rightarrow>
                if manifest = [] \<or> last manifest \<noteq> CHR 0x0A
                then (Inl (Corruption ''CURRENT file does not end with newline''), fs)
                else
                  (let (s, fs) = next_io fs in
                   if s \<noteq> OK then (Inl s, fs)
                   else (case dk_manifests (fs_disk fs) (butlast manifest) of
                           None \<Rightarrow> (Inl (NotFound ''MANIFEST''), fs)
                         | Some entries \<Rightarrow> (Inr entries, fs)))))"

definition Recover :: "BlobFileSet \<Rightarrow> (status \<times> BlobFileSet) option" where
  "Recover fs =
     (case Recover_open fs of
        (Inl s, fs) \<Rightarrow> Some (s, fs)
      | (Inr entries, fs) \<Rightarrow>
          (case replay OK entries EditCollector_new of
             Inl e \<Rightarrow> Some (e, fs)
           | Inr ec \<Rightarrow>
               (case Recover_apply ec fs of
                  None \<Rightarrow> None
                | Some (s, fs) \<Rightarrow> if s \<noteq> OK then Some (s, fs) else Recover_purge fs)))"

definition AddColumnFamilies :: "bool \<Rightarrow> (u32 \<times> TitanCFOptions) list \<Rightarrow> BlobFileSet \<Rightarrow> BlobFileSet" where
  "AddColumnFamilies has_stats cfs fs =
     fs\<lparr>fs_columns := foldl (\<lambda>cols (cf, opts).
        emplace cf (BlobStorage_new opts cf (if has_stats then Some (\<lambda>_. 0) else None)) cols) (fs_columns fs) cfs\<rparr>"

definition Open :: "bool \<Rightarrow> (u32 \<times> TitanCFOptions) list \<Rightarrow> BlobFileSet \<Rightarrow> (status \<times> BlobFileSet) option" where
  "Open has_stats cfs fs =
     (let fs = AddColumnFamilies has_stats cfs fs;
          (s, fs) = next_io fs;
          s = (if s = OK \<and> dk_current (fs_disk fs) = None then NotFound ''CURRENT'' else s) in
      if s = OK then Recover fs
      else if \<not> IsNotFound s then Some (s, fs)
      else (let (number, fs) = NewFileNumber fs in OpenManifest number fs))"

section \<open>Column families and deletion\<close>

definition drop_edit :: "u32 \<Rightarrow> BlobStorage \<Rightarrow> u64 \<Rightarrow> VersionEdit" where
  "drop_edit cf_id bs obsolete_sequence =
     foldl (\<lambda>e p. if is_obsolete (snd p) then e else VersionEdit_DeleteBlobFile (fst p) obsolete_sequence e)
       (SetColumnFamilyID cf_id VersionEdit_new) (bs_files bs)"

fun DropColumnFamilies :: "u32 list \<Rightarrow> u64 \<Rightarrow> BlobFileSet \<Rightarrow> (status \<times> BlobFileSet) option" where
  "DropColumnFamilies [] obsolete_sequence fs = Some (OK, fs)"
| "DropColumnFamilies (cf_id # cfs) obsolete_sequence fs =
     (case map_of (fs_columns fs) cf_id of
        None \<Rightarrow> Some (NotFound ''invalid column family'', fs)
      | Some bs \<Rightarrow>
          (case LogAndApply (drop_edit cf_id bs obsolete_sequence) fs of
             None \<Rightarrow> None
           | Some (s, fs) \<Rightarrow>
               if s \<noteq> OK then Some (s, fs)
               else DropColumnFamilies cfs obsolete_sequence
                      (fs\<lparr>fs_obsolete_columns := List.insert cf_id (fs_obsolete_columns fs)\<rparr>)))"

definition MaybeDestroyColumnFamily :: "u32 \<Rightarrow> BlobFileSet \<Rightarrow> status \<times> BlobFileSet" where
  "MaybeDestroyColumnFamily cf_id fs =
     (let fs = fs\<lparr>fs_obsolete_columns := removeAll cf_id (fs_obsolete_columns fs)\<rparr> in
      case map_of (fs_columns fs) cf_id of
        None \<Rightarrow> (NotFound ''invalid column family'', fs)
      | Some bs \<Rightarrow>
          (let bs = MarkDestroyed bs in
           (OK, fs\<lparr>fs_columns := (if MaybeRemove bs then al_erase cf_id (fs_columns fs)
                                  else al_modify cf_id (\<lambda>_. bs) (fs_columns fs))\<rparr>)))"

definition DeleteBlobFilesInRanges ::
    "u32 \<Rightarrow> (bytes option \<times> bytes option) list \<Rightarrow> bool \<Rightarrow> u64 \<Rightarrow> BlobFileSet \<Rightarrow> (status \<times> BlobFileSet) option" where
  "DeleteBlobFilesInRanges cf_id ranges include_end obsolete_sequence fs =
     (case map_of (fs_columns fs) cf_id of
        None \<Rightarrow> Some (NotFound ''invalid column family'', fs)
      | Some bs \<Rightarrow>
          (case GetBlobFilesInRanges bs include_end ranges of
             None \<Rightarrow> None
           | Some files \<Rightarrow>
               LogAndApply (foldl (\<lambda>e n. VersionEdit_DeleteBlobFile n obsolete_sequence e)
                              (SetColumnFamilyID cf_id VersionEdit_new) files) fs))"

text \<open>The names collected are blob file numbers and names of manifests.\<close>

fun collect_obsolete ::
    "u32 list \<Rightarrow> u64 \<Rightarrow> (u32 \<times> BlobStorage) list \<Rightarrow> (u64 list \<times> (u32 \<times> BlobStorage) list) option" where
  "collect_obsolete dropped oldest [] = Some ([], [])"
| "collect_obsolete dropped oldest ((cf, bs) # cols) =
     (if cf \<in> set dropped then
        map_option (\<lambda>(names, cols'). (names, (cf, bs) # cols')) (collect_obsolete dropped oldest cols)
      else (case (GetObsoleteFiles oldest bs, collect_obsolete dropped oldest cols) of
              (Some (names, bs'), Some (names', cols')) \<Rightarrow>
                Some (names @ names', if MaybeRemove bs' then cols' else (cf, bs') # cols')
            | _ \<Rightarrow> None))"

definition FileSet_GetObsoleteFiles :: "u64 \<Rightarrow> BlobFileSet \<Rightarrow> ((u64 list \<times> string list) \<times> BlobFileSet) option" where
  "FileSet_GetObsoleteFiles oldest fs =
     (case collect_obsolete (fs_obsolete_columns fs) oldest (fs_columns fs) of
        None \<Rightarrow> None
      | Some (names, cols) \<Rightarrow>
          Some ((names, fs_obsolete_manifests fs), fs\<lparr>fs_columns := cols, fs_obsolete_manifests := []\<rparr>))"

definition FileSet_GetAllFiles :: "BlobFileSet \<Rightarrow> (u64 list \<times> string) \<times> VersionEdit list" where
  "FileSet_GetAllFiles fs =
     ((concat (map (\<lambda>col. GetAllFiles (snd col)) (fs_columns fs)),
       DescriptorFileName (fs_manifest_file_number fs)),
      SetNextFileNumber (fs_next_file_number fs) VersionEdit_new #
      map (\<lambda>col. foldl (\<lambda>e p. VersionEdit_AddBlobFile (snd p) e)
                   (SetColumnFamilyID (fst col) VersionEdit_new) (bs_files (snd col))) (fs_columns fs))"

section \<open>Applying one collector to one storage\<close>

lemma map_of_filter_fst:
  "map_of (filter (\<lambda>p. fst p \<notin> D) xs) n = (if n \<in> D then None else map_of xs n)"
  by (induction xs) auto

lemma CFE_Apply_added_store:
  "CFE_Apply_added del fs bs = storage.add_all (map snd (filter (\<lambda>p. fst p \<notin> fst ` set del) fs)) bs"
  by (induction del fs bs rule: CFE_Apply_added.induct) (auto split: option.splits)

lemma CFE_Apply_deleted_store:
  "storage.kill_all (filter (\<lambda>d. fst d \<notin> fst ` set added) fs) bs = Some (None, bs') \<Longrightarrow>
   CFE_Apply_deleted added fs bs = Some (OK, bs')"
  by (induction added fs bs rule: CFE_Apply_deleted.induct) (auto split: option.splits prod.splits if_splits)

definition ce_wf :: "CFEditCollector \<Rightarrow> bool" where
  "ce_wf ce \<longleftrightarrow> distinct (map fst (ce_added ce)) \<and> distinct (map fst (ce_deleted ce)) \<and>
     list_all (\<lambda>p. fm_number (snd p) = fst p) (ce_added ce)"

lemma CFE_Seal_added_OK: "CFE_Seal_added bs fs = OK \<longleftrightarrow> (\<forall>n \<in> fst ` set fs. FindFile bs n = None)"
  by (induction bs fs rule: CFE_Seal_added.induct) (auto split: option.splits)

lemma CFE_Seal_deleted_OK:
  "CFE_Seal_deleted bs added fs = OK \<longleftrightarrow>
     (\<forall>n \<in> fst ` set fs. n \<in> fst ` set added \<or> live bs n \<noteq> None)"
  by (induction bs added fs rule: CFE_Seal_deleted.induct)
    (auto simp: live_def FindFile_def split: option.splits)

lemma CFE_Seal_OK:
  assumes "CFE_Seal ce bs = OK"
  shows "\<And>n. n \<in> fst ` set (ce_added ce) \<Longrightarrow> FindFile bs n = None"
    and "\<And>n. n \<in> fst ` set (ce_deleted ce) \<Longrightarrow> n \<in> fst ` set (ce_added ce) \<or> live bs n \<noteq> None"
  using assms
  by (auto simp: CFE_Seal_def Let_def CFE_Seal_added_OK CFE_Seal_deleted_OK split: if_splits)

text \<open>The batch a sealed collector stands for.\<close>

definition batch_live :: "CFEditCollector \<Rightarrow> (u64 \<rightharpoonup> BlobFileMeta) \<Rightarrow> u64 \<rightharpoonup> BlobFileMeta" where
  "batch_live ce L = (L ++ map_of (ce_added ce)) |` (- fst ` set (ce_deleted ce))"

lemma renumber: "list_all (\<lambda>p. fm_number (snd p) = fst p) xs \<Longrightarrow> map (\<lambda>m. (fm_number m, m)) (map snd xs) = xs"
  by (induction xs) auto

lemma CFE_Apply_ok:
  assumes inv: "storage_inv bs" and wf: "ce_wf ce" and seal: "CFE_Seal ce bs = OK"
    and fit: "\<And>p. p \<in> set (ce_added ce) \<Longrightarrow> addable bs (snd p)"
  obtains bs' where "CFE_Apply ce bs = Some (OK, bs')" "storage_inv bs'"
    "live bs' = batch_live ce (live bs)" "store_conf bs' = store_conf bs"
    "obsolete_at bs' = obsolete_at bs ++ map_of (filter (\<lambda>d. fst d \<notin> fst ` set (ce_added ce)) (ce_deleted ce))"
proof -
  let ?D = "fst ` set (ce_deleted ce)" and ?A = "fst ` set (ce_added ce)"
  let ?add = "filter (\<lambda>p. fst p \<notin> ?D) (ce_added ce)" and ?del = "filter (\<lambda>d. fst d \<notin> ?A) (ce_deleted ce)"
  have new: "live bs n = None" "obsolete_at bs n = None" if "n \<in> ?A" for n
    using CFE_Seal_OK(1) [OF seal that] FindFile_None_iff [OF inv, of n]
    by (simp_all add: FindFile_def map_of_eq_None_iff)
  have num: "list_all (\<lambda>p. fm_number (snd p) = fst p) ?add" using wf by (auto simp: ce_wf_def list_all_iff)
  have nums: "map fm_number (map snd ?add) = map fst ?add"
    using num by (simp add: list_all_iff)
  have "distinct (map fm_number (map snd ?add))"
    unfolding nums using wf by (simp add: ce_wf_def distinct_map_filter)
  moreover have "fm_number m \<in> ?A" "conf_fits (store_conf bs) m" if "m \<in> set (map snd ?add)" for m
    using that fit num by (force simp: list_all_iff addable_conf)+
  ultimately obtain bs1 where bs1: "storage.add_all (map snd ?add) bs = Some bs1" "storage_inv bs1"
    "live bs1 = live bs ++ map_of ?add" "obsolete_at bs1 = obsolete_at bs" "store_conf bs1 = store_conf bs"
    using storage.add_all_ok [OF inv, of "map snd ?add"] new renumber [OF num] by auto
  have "live bs1 (fst d) \<noteq> None" if "d \<in> set ?del" for d
    using that CFE_Seal_OK(2) [OF seal, of "fst d"] by (auto simp: bs1(3) map_add_def split: option.splits)
  moreover have "distinct (map fst ?del)" using wf by (simp add: ce_wf_def distinct_map_filter)
  ultimately obtain bs2 where bs2: "storage.kill_all ?del bs1 = Some (None, bs2)" "storage_inv bs2"
    "live bs2 = live bs1 |` (- fst ` set ?del)" "obsolete_at bs2 = obsolete_at bs1 ++ map_of ?del" "store_conf bs2 = store_conf bs1"
    using storage.kill_all_ok [OF bs1(2), of ?del] by auto
  have "CFE_Apply ce bs = Some (OK, ComputeGCScore bs2)"
    using bs1(1) CFE_Apply_deleted_store [OF bs2(1)] by (simp add: CFE_Apply_def CFE_Apply_added_store)
  moreover have "live bs2 = batch_live ce (live bs)"
  proof
    fix n
    show "live bs2 n = batch_live ce (live bs) n"
      using new [of n]
      by (cases "n \<in> ?D"; cases "n \<in> ?A")
        (auto simp: batch_live_def bs2(3) bs1(3) restrict_map_def map_add_def map_of_filter_fst
          map_of_eq_None_iff split: option.splits)
  qed
  moreover have "store_conf (ComputeGCScore bs2) = store_conf bs2" by (simp add: store_conf_def)
  ultimately show thesis using that [of "ComputeGCScore bs2"] bs1 bs2 by simp
qed

section \<open>Collecting edits\<close>

abbreviation numbered :: "BlobFileMeta list \<Rightarrow> (u64 \<times> BlobFileMeta) list" where
  "numbered fs \<equiv> map (\<lambda>f. (fm_number f, f)) fs"

lemma add_files_OK:
  "add_files fs ce = (OK, ce') \<longleftrightarrow>
     distinct (map fm_number fs) \<and> fm_number ` set fs \<inter> fst ` set (ce_added ce) = {} \<and>
     ce' = ce\<lparr>ce_added := ce_added ce @ numbered fs\<rparr>"
proof (induction fs arbitrary: ce)
  case (Cons f fs)
  show ?case
  proof (cases "fm_number f \<in> fst ` set (ce_added ce)")
    case True
    then show ?thesis by (auto simp: CFE_AddFile_def Let_def)
  next
    case False
    then show ?thesis using Cons [of "ce\<lparr>ce_added := ce_added ce @ [(fm_number f, f)]\<rparr>"]
      by (auto simp: CFE_AddFile_def Let_def)
  qed
qed auto

lemma delete_files_OK:
  "delete_files fs ce = (OK, ce') \<longleftrightarrow>
     distinct (map fst fs) \<and> fst ` set fs \<inter> fst ` set (ce_deleted ce) = {} \<and>
     ce' = ce\<lparr>ce_deleted := ce_deleted ce @ fs\<rparr>"
proof (induction fs arbitrary: ce)
  case (Cons f fs)
  obtain n q where f: "f = (n, q)" by (cases f)
  show ?case
  proof (cases "n \<in> fst ` set (ce_deleted ce)")
    case True
    then show ?thesis by (auto simp: f CFE_DeleteFile_def)
  next
    case False
    then show ?thesis using Cons [of "ce\<lparr>ce_deleted := ce_deleted ce @ [(n, q)]\<rparr>"]
      by (auto simp: f CFE_DeleteFile_def)
  qed
qed auto

lemma cf_collector_set [simp]:
  "cf_collector cf (set_cf_collector cf' ce ec) = (if cf = cf' then ce else cf_collector cf ec)"
  by (auto simp: cf_collector_def set_cf_collector_def map_of_al_modify map_of_emplace
      map_of_eq_None_iff split: option.splits dest: map_of_SomeD)

lemma cf_collector_update [simp]:
  "cf_collector cf (ec\<lparr>ec_status := s\<rparr>) = cf_collector cf ec"
  "cf_collector cf (ec\<lparr>ec_next := n, ec_has_next := b\<rparr>) = cf_collector cf ec"
  "cf_collector cf (ec\<lparr>ec_sealed := b\<rparr>) = cf_collector cf ec"
  by (simp_all add: cf_collector_def)

lemma set_cf_collector_fields [simp]:
  "ec_status (set_cf_collector cf ce ec) = ec_status ec" "ec_sealed (set_cf_collector cf ce ec) = ec_sealed ec"
  "ec_next (set_cf_collector cf ce ec) = ec_next ec" "ec_has_next (set_cf_collector cf ce ec) = ec_has_next ec"
  by (simp_all add: set_cf_collector_def)

lemma set_cf_collector_cfs:
  "distinct (map fst (ec_cfs ec)) \<Longrightarrow> distinct (map fst (ec_cfs (set_cf_collector cf ce ec)))"
  "fst ` set (ec_cfs (set_cf_collector cf ce ec)) = insert cf (fst ` set (ec_cfs ec))"
proof -
  show "distinct (map fst (ec_cfs ec)) \<Longrightarrow> distinct (map fst (ec_cfs (set_cf_collector cf ce ec)))"
    by (simp add: set_cf_collector_def distinct_emplace)
  show "fst ` set (ec_cfs (set_cf_collector cf ce ec)) = insert cf (fst ` set (ec_cfs ec))"
    by (auto simp: set_cf_collector_def emplace_def)
qed

text \<open>When an edit can be added, and the collector it leaves.\<close>

definition edit_fits :: "VersionEdit \<Rightarrow> CFEditCollector \<Rightarrow> u64 \<Rightarrow> bool" where
  "edit_fits e ce next \<longleftrightarrow>
     distinct (map fm_number (ve_added e)) \<and> fm_number ` set (ve_added e) \<inter> fst ` set (ce_added ce) = {} \<and>
     distinct (map fst (ve_deleted e)) \<and> fst ` set (ve_deleted e) \<inter> fst ` set (ce_deleted ce) = {} \<and>
     (ve_has_next e \<longrightarrow> next \<le> ve_next e)"

definition edit_collect :: "VersionEdit \<Rightarrow> CFEditCollector \<Rightarrow> CFEditCollector" where
  "edit_collect e ce = ce\<lparr>ce_added := ce_added ce @ numbered (ve_added e),
     ce_deleted := ce_deleted ce @ ve_deleted e\<rparr>"

lemma AddEdit_OK:
  assumes "\<not> ec_sealed ec" "ec_status ec = OK" "distinct (map fst (ec_cfs ec))"
    and "edit_fits e (cf_collector (ve_cf e) ec) (ec_next ec)"
  obtains ec' where "AddEdit e ec = (OK, ec')" "\<not> ec_sealed ec'" "ec_status ec' = OK"
    "ec_next ec' = (if ve_has_next e then ve_next e else ec_next ec)"
    "ec_has_next ec' = (ec_has_next ec \<or> ve_has_next e)"
    "\<And>cf. cf_collector cf ec' = (if cf = ve_cf e then edit_collect e (cf_collector cf ec) else cf_collector cf ec)"
    "fst ` set (ec_cfs ec') = insert (ve_cf e) (fst ` set (ec_cfs ec))" "distinct (map fst (ec_cfs ec'))"
proof -
  let ?ce = "cf_collector (ve_cf e) ec"
  let ?ce1 = "?ce\<lparr>ce_added := ce_added ?ce @ numbered (ve_added e)\<rparr>"
  let ?ce2 = "edit_collect e ?ce"
  let ?ec1 = "(set_cf_collector (ve_cf e) ?ce1 ec)\<lparr>ec_status := OK\<rparr>"
  let ?ec2 = "(set_cf_collector (ve_cf e) ?ce2 ?ec1)\<lparr>ec_status := OK\<rparr>"
  have a: "add_files (ve_added e) ?ce = (OK, ?ce1)"
    using assms(4) by (simp add: add_files_OK edit_fits_def)
  have d: "delete_files (ve_deleted e) ?ce1 = (OK, ?ce2)"
    using assms(4) by (simp add: delete_files_OK edit_fits_def edit_collect_def)
  have s1: "(set_cf_collector (ve_cf e) ?ce1 ec)\<lparr>ec_status := (if ve_added e = [] then ec_status ec else OK)\<rparr> = ?ec1"
    using assms(2) by simp
  have s2: "(set_cf_collector (ve_cf e) ?ce2 ?ec1)\<lparr>ec_status := (if ve_deleted e = [] then ec_status ?ec1 else OK)\<rparr> = ?ec2"
    by simp
  define ec' where "ec' = (if ve_has_next e then ?ec2\<lparr>ec_next := ve_next e, ec_has_next := True\<rparr> else ?ec2)"
  have "AddEdit e ec = (OK, ec')"
    using assms(1,4) by (auto simp: AddEdit_def a d s1 s2 Let_def ec'_def edit_fits_def)
  moreover have "ec_cfs ec' = ec_cfs ?ec2" by (simp add: ec'_def)
  ultimately show thesis
    using that [of ec'] assms(1,3) set_cf_collector_cfs by (simp add: ec'_def)
qed

section \<open>Logging and applying an edit\<close>

definition fileset_inv :: "BlobFileSet \<Rightarrow> bool" where
  "fileset_inv fs \<longleftrightarrow> distinct (map fst (fs_columns fs)) \<and> list_all (\<lambda>c. storage_inv (snd c)) (fs_columns fs)"

text \<open>The edit as one batch for its column family.\<close>

definition edit_batch :: "VersionEdit \<Rightarrow> CFEditCollector" where
  "edit_batch e = \<lparr>ce_added = numbered (ve_added e), ce_deleted = ve_deleted e\<rparr>"

lemma next_io_fields [simp]:
  "next_io fs = (s, fs') \<Longrightarrow> fs_columns fs' = fs_columns fs \<and> fs_disk fs' = fs_disk fs \<and>
     fs_manifest fs' = fs_manifest fs \<and> fs_next_file_number fs' = fs_next_file_number fs"
  by (auto simp: next_io_def split: list.splits)

definition manifest_entries :: "BlobFileSet \<Rightarrow> log_entry list" where
  "manifest_entries fs =
     (case fs_manifest fs of None \<Rightarrow> []
      | Some name \<Rightarrow> (case dk_manifests (fs_disk fs) name of Some es \<Rightarrow> es | None \<Rightarrow> []))"

lemma AddRecord_cases:
  assumes "fs_manifest fs \<noteq> None"
  obtains s fs' where "AddRecord r fs = Some (s, fs')" "fs_columns fs' = fs_columns fs"
    "fs_manifest fs' = fs_manifest fs" "fs_next_file_number fs' = fs_next_file_number fs"
    "manifest_entries fs' = (if s = OK then manifest_entries fs @ [Rec r] else manifest_entries fs)"
proof -
  obtain name where name: "fs_manifest fs = Some name" using assms by auto
  obtain s fs1 where io: "next_io fs = (s, fs1)" by (cases "next_io fs")
  show thesis
    using that name io next_io_fields [OF io]
    by (cases "s = OK") (auto simp: AddRecord_def Let_def manifest_entries_def)
qed

lemma AddEdit_new_cases:
  "AddEdit e EditCollector_new = (s, ec) \<Longrightarrow> s = OK \<Longrightarrow>
   ec_cfs ec = [(ve_cf e, edit_batch e)] \<and> ec_status ec = OK \<and> \<not> ec_sealed ec \<and> ce_wf (edit_batch e)"
  by (auto simp: AddEdit_def EditCollector_new_def cf_collector_def set_cf_collector_def emplace_def
      al_modify_def CFEditCollector_new_def add_files_OK delete_files_OK edit_batch_def ce_wf_def
      list_all_iff comp_def Let_def split: prod.splits if_splits)

lemma LogAndApply_cases:
  assumes inv: "fileset_inv fs" and man: "fs_manifest fs \<noteq> None"
    and col: "map_of (fs_columns fs) (ve_cf e) = Some bs"
    and fit: "\<And>f. f \<in> set (ve_added e) \<Longrightarrow> addable bs f"
  obtains s fs' where "LogAndApply e fs = Some (s, fs')"
    "s \<noteq> OK \<Longrightarrow> fs_columns fs' = fs_columns fs"
    "s = OK \<Longrightarrow> \<exists>bs'. fs_columns fs' = al_modify (ve_cf e) (\<lambda>_. bs') (fs_columns fs) \<and> storage_inv bs' \<and>
       live bs' = batch_live (edit_batch e) (live bs) \<and> store_conf bs' = store_conf bs \<and>
       manifest_entries fs' = manifest_entries fs @
         [Rec (VersionEdit_EncodeTo [] (SetNextFileNumber (fs_next_file_number fs) e))]"
    "fs_manifest fs' = fs_manifest fs"
proof -
  let ?e = "SetNextFileNumber (fs_next_file_number fs) e"
  have eb: "edit_batch ?e = edit_batch e" "ve_cf ?e = ve_cf e" by (simp_all add: edit_batch_def SetNextFileNumber_def)
  obtain s1 ec where ae: "AddEdit ?e EditCollector_new = (s1, ec)" by (cases "AddEdit ?e EditCollector_new")
  show thesis
  proof (cases "s1 = OK")
    case False
    then show thesis using that ae by (simp add: LogAndApply_def Let_def)
  next
    case True
    then have ec: "ec_cfs ec = [(ve_cf e, edit_batch e)]" "ec_status ec = OK" "ce_wf (edit_batch e)"
      using AddEdit_new_cases [OF ae] eb by auto
    show thesis
    proof (cases "CFE_Seal (edit_batch e) bs = OK")
      case False
      then have "Seal (GetBlobStorage fs) ec = (CFE_Seal (edit_batch e) bs, ec\<lparr>ec_status := CFE_Seal (edit_batch e) bs\<rparr>)"
        using ec col by (simp add: Seal_def GetBlobStorage_def Let_def)
      with False True ae show thesis using that by (simp add: LogAndApply_def Let_def)
    next
      case seal: True
      have sl: "Seal (GetBlobStorage fs) ec = (OK, ec\<lparr>ec_sealed := True\<rparr>)"
        using ec col seal by (simp add: Seal_def GetBlobStorage_def Let_def)
      have "storage_inv bs" using inv col by (force simp: fileset_inv_def list_all_iff dest: map_of_SomeD)
      moreover have "addable bs (snd p)" if "p \<in> set (ce_added (edit_batch e))" for p
        using that fit by (auto simp: edit_batch_def)
      ultimately obtain bs' where bs': "CFE_Apply (edit_batch e) bs = Some (OK, bs')" "storage_inv bs'"
        "live bs' = batch_live (edit_batch e) (live bs)" "store_conf bs' = store_conf bs"
        using CFE_Apply_ok [OF _ ec(3) seal] by metis
      obtain s2 fs2 where fs2: "AddRecord (VersionEdit_EncodeTo [] ?e) fs = Some (s2, fs2)"
        "fs_columns fs2 = fs_columns fs" "fs_manifest fs2 = fs_manifest fs"
        "manifest_entries fs2 = (if s2 = OK then manifest_entries fs @ [Rec (VersionEdit_EncodeTo [] ?e)] else manifest_entries fs)"
        using AddRecord_cases [OF man] by metis
      obtain s3 fs3 where io: "next_io fs2 = (s3, fs3)" by (cases "next_io fs2")
      have ap: "Apply (ec\<lparr>ec_sealed := True\<rparr>) (fs_columns fs) =
          Some (OK, al_modify (ve_cf e) (\<lambda>_. bs') (fs_columns fs))"
        using ec bs' col by (simp add: Apply_def Let_def)
      have me: "manifest_entries (fs3\<lparr>fs_columns := cols\<rparr>) = manifest_entries fs2" for cols
        using next_io_fields [OF io] by (simp add: manifest_entries_def split: option.split)
      have "LogAndApply e fs = (if s2 \<noteq> OK then Some (s2, fs2) else if s3 \<noteq> OK then Some (s3, fs3)
          else Some (OK, fs3\<lparr>fs_columns := al_modify (ve_cf e) (\<lambda>_. bs') (fs_columns fs)\<rparr>))"
        using ae True sl fs2 io ap next_io_fields [OF io]
        by (simp add: LogAndApply_def Let_def SyncTitanManifest_def)
      then show thesis
        using that fs2 bs' me next_io_fields [OF io] by (cases "s2 = OK"; cases "s3 = OK") auto
    qed
  qed
qed

lemma fileset_inv_modify:
  "fileset_inv fs \<Longrightarrow> storage_inv bs \<Longrightarrow> fileset_inv (fs\<lparr>fs_columns := al_modify cf (\<lambda>_. bs) (fs_columns fs)\<rparr>)"
  by (auto simp: fileset_inv_def list_all_iff al_modify_def comp_def if_distrib cong: if_cong)

end
