(* ===== verification/Titan_Recovery.thy ===== *)
theory Titan_Recovery
  imports Titan_FileSet
begin

text \<open>
  What the manifest means and what recovery does with it: the history of live files a sequence
  of edits describes, the replay of a manifest by \<open>BlobFileSet::Recover\<close>, the snapshot written
  when a manifest is opened, and the purge of dead files at the end of recovery.
\<close>

section \<open>Manifest histories\<close>

text \<open>What a sequence of edits means: the live files of every column family.\<close>

definition apply_edit :: "(u32 \<Rightarrow> u64 \<rightharpoonup> BlobFileMeta) \<Rightarrow> VersionEdit \<Rightarrow> u32 \<Rightarrow> u64 \<rightharpoonup> BlobFileMeta" where
  "apply_edit L e = L(ve_cf e := batch_live (edit_batch e) (L (ve_cf e)))"

definition history :: "VersionEdit list \<Rightarrow> u32 \<Rightarrow> u64 \<rightharpoonup> BlobFileMeta" where
  "history es = foldl apply_edit (\<lambda>_. Map.empty) es"

text \<open>All files ever added or deleted, and the last next file number.\<close>

definition collect :: "VersionEdit list \<Rightarrow> u32 \<Rightarrow> CFEditCollector" where
  "collect es cf = foldl (\<lambda>ce e. if ve_cf e = cf then edit_collect e ce else ce) CFEditCollector_new es"

definition next_of :: "VersionEdit list \<Rightarrow> u64" where
  "next_of es = foldl (\<lambda>n e. if ve_has_next e then ve_next e else n) 0 es"

text \<open>
  A history the running database writes: file numbers are never reused, only files that were
  added are deleted, and only once, and the next file number grows.
\<close>

inductive valid_history :: "VersionEdit list \<Rightarrow> bool" where
  Nil: "valid_history []"
| Snoc: "valid_history es \<Longrightarrow> edit_fits e (collect es (ve_cf e)) (next_of es) \<Longrightarrow>
    fst ` set (ve_deleted e) \<subseteq> fst ` set (ce_added (edit_collect e (collect es (ve_cf e)))) \<Longrightarrow>
    valid_history (es @ [e])"

inductive_cases valid_history_snocE: "valid_history (es @ [e])"

lemma history_snoc [simp]: "history (es @ [e]) = apply_edit (history es) e"
  by (simp add: history_def)

lemma collect_snoc [simp]:
  "collect (es @ [e]) cf = (if ve_cf e = cf then edit_collect e (collect es cf) else collect es cf)"
  by (simp add: collect_def)

lemma next_of_snoc [simp]: "next_of (es @ [e]) = (if ve_has_next e then ve_next e else next_of es)"
  by (simp add: next_of_def)

lemma valid_history_prefix: "valid_history (es @ fs) \<Longrightarrow> valid_history es"
proof (induction fs rule: rev_induct)
  case (snoc f fs)
  then have "valid_history ((es @ fs) @ [f])" by simp
  then have "valid_history (es @ fs)" by (rule valid_history_snocE)
  then show ?case by (rule snoc.IH)
qed simp

lemma valid_history_collect:
  "valid_history es \<Longrightarrow>
     ce_wf (collect es cf) \<and> fst ` set (ce_deleted (collect es cf)) \<subseteq> fst ` set (ce_added (collect es cf)) \<and>
     history es cf = map_of (ce_added (collect es cf)) |` (- fst ` set (ce_deleted (collect es cf)))"
proof (induction rule: valid_history.induct)
  case Nil
  then show ?case
    by (auto simp: collect_def history_def CFEditCollector_new_def ce_wf_def restrict_map_def)
next
  case (Snoc es e)
  show ?case
  proof (cases "ve_cf e = cf")
    case False
    with Snoc show ?thesis by (simp add: apply_edit_def)
  next
    case True
    let ?c = "collect es cf"
    let ?A = "numbered (ve_added e)" and ?D = "fst ` set (ve_deleted e)"
    have fits: "distinct (map fm_number (ve_added e))" "fm_number ` set (ve_added e) \<inter> fst ` set (ce_added ?c) = {}"
      "distinct (map fst (ve_deleted e))" "?D \<inter> fst ` set (ce_deleted ?c) = {}"
      using Snoc.hyps(2) True by (auto simp: edit_fits_def)
    have wf: "ce_wf (edit_collect e ?c)"
      using Snoc.IH fits by (auto simp: ce_wf_def edit_collect_def comp_def list_all_iff image_image)
    have sub: "fst ` set (ce_deleted (edit_collect e ?c)) \<subseteq> fst ` set (ce_added (edit_collect e ?c))"
      using Snoc.IH Snoc.hyps(3) True by (auto simp: edit_collect_def)
    have "apply_edit (history es) e cf n =
        (map_of (ce_added (edit_collect e ?c)) |` (- fst ` set (ce_deleted (edit_collect e ?c)))) n" for n
    proof -
      have A: "fst ` set ?A = fm_number ` set (ve_added e)" by (simp add: image_image)
      have "map_of ?A n = None" if "n \<in> fst ` set (ce_added ?c)"
        using that fits(2) A by (auto simp: map_of_eq_None_iff)
      moreover have "map_of (ce_added ?c) n = None" if "n \<notin> fst ` set (ce_added ?c)"
        using that by (simp add: map_of_eq_None_iff)
      moreover have "n \<in> fst ` set (ce_added ?c)" if "n \<in> fst ` set (ce_deleted ?c)"
        using that Snoc.IH by auto
      ultimately show ?thesis
        using Snoc.IH True
        by (cases "n \<in> fst ` set (ce_added ?c)"; cases "n \<in> fst ` set (ce_deleted ?c)")
          (auto simp: apply_edit_def batch_live_def edit_batch_def edit_collect_def restrict_map_def
            map_add_def image_Un split: option.splits)
    qed
    with wf sub True show ?thesis by auto
  qed
qed

section \<open>Replaying a manifest\<close>

definition collector_matches :: "VersionEdit list \<Rightarrow> EditCollector \<Rightarrow> bool" where
  "collector_matches es ec \<longleftrightarrow> \<not> ec_sealed ec \<and> ec_status ec = OK \<and> distinct (map fst (ec_cfs ec)) \<and>
     ec_next ec = next_of es \<and> ec_has_next ec = list_ex ve_has_next es \<and>
     (\<forall>cf. cf_collector cf ec = collect es cf) \<and> fst ` set (ec_cfs ec) = ve_cf ` set es"

lemma collector_matches_new: "collector_matches [] EditCollector_new"
  by (simp add: collector_matches_def EditCollector_new_def next_of_def cf_collector_def collect_def)

lemma AddEdit_matches:
  assumes "collector_matches es ec" and "valid_history (es @ [e])"
  obtains ec' where "AddEdit e ec = (OK, ec')" "collector_matches (es @ [e]) ec'"
proof -
  have "edit_fits e (cf_collector (ve_cf e) ec) (ec_next ec)"
    using assms by (auto simp: collector_matches_def elim: valid_history_snocE)
  with assms(1) obtain ec' where "AddEdit e ec = (OK, ec')" "\<not> ec_sealed ec'" "ec_status ec' = OK"
    "ec_next ec' = (if ve_has_next e then ve_next e else ec_next ec)"
    "ec_has_next ec' = (ec_has_next ec \<or> ve_has_next e)"
    "\<And>cf. cf_collector cf ec' = (if cf = ve_cf e then edit_collect e (cf_collector cf ec) else cf_collector cf ec)"
    "fst ` set (ec_cfs ec') = insert (ve_cf e) (fst ` set (ec_cfs ec))" "distinct (map fst (ec_cfs ec'))"
    by (elim AddEdit_OK [rotated 3]) (auto simp: collector_matches_def)
  then show thesis
    using that assms(1) by (auto simp: collector_matches_def)
qed

abbreviation manifest_of :: "VersionEdit list \<Rightarrow> log_entry list" where
  "manifest_of es \<equiv> map (\<lambda>e. Rec (VersionEdit_EncodeTo [] e)) es"

lemma replay_manifest:
  "list_all VersionEdit_fits es \<Longrightarrow> collector_matches pre ec \<Longrightarrow>
   valid_history (pre @ map VersionEdit_persistent es) \<Longrightarrow>
   \<exists>ec'. replay OK (manifest_of es) ec = Inr ec' \<and> collector_matches (pre @ map VersionEdit_persistent es) ec'"
proof (induction es arbitrary: pre ec)
  case Nil
  then show ?case by (subst replay.simps) simp
next
  case (Cons e es)
  let ?e = "VersionEdit_persistent e"
  have "valid_history (pre @ [?e])"
    using Cons.prems(3) valid_history_prefix [of "pre @ [?e]" "map VersionEdit_persistent es"] by simp
  then obtain ec1 where ec1: "AddEdit ?e ec = (OK, ec1)" "collector_matches (pre @ [?e]) ec1"
    using AddEdit_matches [OF Cons.prems(2)] by metis
  have "DecodeInto (VersionEdit_DecodeFrom VersionEdit_new) (VersionEdit_EncodeTo [] e) False = Inr ?e"
    using VersionEdit_Decode_Encode Cons.prems(1) by (simp add: DecodeInto_def)
  then have "replay OK (manifest_of (e # es)) ec = replay OK (manifest_of es) ec1"
    using ec1(1) by (subst replay.simps) simp
  with Cons.IH [OF _ ec1(2)] Cons.prems show ?case by simp
qed

text \<open>
  A corruption the log reader reports ends the loop, and the status it left is overwritten by the
  result of \<open>Seal\<close>: the edits after it are silently ignored.
\<close>

lemma replay_stops_at_corruption:
  "c \<noteq> OK \<Longrightarrow> replay OK (map Rec rs @ Corrupt c # rest) ec = replay OK (map Rec rs) ec"
proof (induction rs arbitrary: ec)
  case Nil
  have "ReadRecord c es = (c, None) \<or> (\<exists>r es'. ReadRecord c es = (c, Some (r, es')))" for es
    using Nil by (induction c es rule: ReadRecord.induct) auto
  from this [of rest] Nil show ?case by (subst (1 2) replay.simps) auto
next
  case (Cons r rs)
  then show ?case by (subst (1 2) replay.simps) (simp split: sum.split prod.split)
qed

section \<open>Applying the collected edits\<close>

definition column_after :: "(u32 \<times> CFEditCollector) list \<Rightarrow> u32 \<Rightarrow> BlobStorage \<Rightarrow> BlobStorage \<Rightarrow> bool" where
  "column_after cfs cf bs bs' \<longleftrightarrow> storage_inv bs' \<and> store_conf bs' = store_conf bs \<and>
     live bs' = (case map_of cfs cf of None \<Rightarrow> live bs | Some ce \<Rightarrow> batch_live ce (live bs)) \<and>
     obsolete_at bs' = (case map_of cfs cf of None \<Rightarrow> obsolete_at bs
        | Some ce \<Rightarrow> obsolete_at bs ++ map_of (filter (\<lambda>d. fst d \<notin> fst ` set (ce_added ce)) (ce_deleted ce)))"

definition sealed_for :: "(u32 \<times> BlobStorage) list \<Rightarrow> u32 \<times> CFEditCollector \<Rightarrow> bool" where
  "sealed_for cols c \<longleftrightarrow> (\<forall>bs. map_of cols (fst c) = Some bs \<longrightarrow>
     ce_wf (snd c) \<and> CFE_Seal (snd c) bs = OK \<and> (\<forall>p \<in> set (ce_added (snd c)). addable bs (snd p)))"

lemma Apply_cfs_ok:
  "distinct (map fst cfs) \<Longrightarrow> distinct (map fst cols) \<Longrightarrow> list_all (\<lambda>c. storage_inv (snd c)) cols \<Longrightarrow>
   list_all (sealed_for cols) cfs \<Longrightarrow>
   \<exists>cols'. Apply_cfs cfs cols = Some (OK, cols') \<and> map fst cols' = map fst cols \<and>
     (\<forall>cf bs. map_of cols cf = Some bs \<longrightarrow> (\<exists>bs'. map_of cols' cf = Some bs' \<and> column_after cfs cf bs bs'))"
proof (induction cfs arbitrary: cols)
  case Nil
  then show ?case by (auto simp: column_after_def list_all_iff dest: map_of_SomeD)
next
  case (Cons c cfs)
  obtain cf ce where c: "c = (cf, ce)" by (cases c)
  have new: "map_of cfs cf = None" using Cons.prems(1) by (simp add: c map_of_eq_None_iff)
  show ?case
  proof (cases "map_of cols cf")
    case None
    obtain cols' where cols': "Apply_cfs cfs cols = Some (OK, cols')" "map fst cols' = map fst cols"
      "\<And>k b. map_of cols k = Some b \<Longrightarrow> \<exists>b'. map_of cols' k = Some b' \<and> column_after cfs k b b'"
      using Cons.IH [of cols] Cons.prems by (auto simp: c)
    have "\<exists>b'. map_of cols' k = Some b' \<and> column_after (c # cfs) k b b'" if "map_of cols k = Some b" for k b
      using cols'(3) [OF that] that None by (cases "k = cf") (auto simp: c column_after_def)
    then show ?thesis using cols'(1,2) None by (auto simp: c)
  next
    case (Some bs)
    then have "storage_inv bs" using Cons.prems(3) by (force simp: list_all_iff dest: map_of_SomeD)
    moreover have "ce_wf ce" "CFE_Seal ce bs = OK" "\<And>p. p \<in> set (ce_added ce) \<Longrightarrow> addable bs (snd p)"
      using Cons.prems(4) Some by (auto simp: c sealed_for_def)
    ultimately obtain bs1 where bs1: "CFE_Apply ce bs = Some (OK, bs1)" "storage_inv bs1"
      "live bs1 = batch_live ce (live bs)" "store_conf bs1 = store_conf bs"
      "obsolete_at bs1 = obsolete_at bs ++ map_of (filter (\<lambda>d. fst d \<notin> fst ` set (ce_added ce)) (ce_deleted ce))"
      by (rule CFE_Apply_ok)
    define cols1 where "cols1 = al_modify cf (\<lambda>_. bs1) cols"
    have m1: "map_of cols1 k = (if k = cf then Some bs1 else map_of cols k)" for k
      using Some by (simp add: cols1_def map_of_al_modify)
    have f1: "map fst cols1 = map fst cols" by (auto simp: cols1_def al_modify_def)
    have "list_all (\<lambda>c. storage_inv (snd c)) cols1"
      using Cons.prems(3) bs1(2) by (auto simp: cols1_def al_modify_def list_all_iff)
    moreover have "list_all (sealed_for cols1) cfs"
      using Cons.prems(1,4) by (force simp: c sealed_for_def m1 list_all_iff)
    ultimately obtain cols' where cols': "Apply_cfs cfs cols1 = Some (OK, cols')" "map fst cols' = map fst cols1"
      "\<And>k b. map_of cols1 k = Some b \<Longrightarrow> \<exists>b'. map_of cols' k = Some b' \<and> column_after cfs k b b'"
      using Cons.IH [of cols1] Cons.prems(1,2) f1 by (auto simp: c)
    have "\<exists>b'. map_of cols' k = Some b' \<and> column_after (c # cfs) k b b'" if "map_of cols k = Some b" for k b
    proof (cases "k = cf")
      case True
      with cols'(3) [of k bs1] m1 new bs1 that Some show ?thesis by (auto simp: c column_after_def)
    next
      case False
      with cols'(3) [of k b] m1 that show ?thesis by (auto simp: c column_after_def)
    qed
    moreover have "Apply_cfs (c # cfs) cols = Some (OK, cols')"
      using Some bs1(1) cols'(1) by (simp add: c cols1_def Let_def)
    ultimately show ?thesis using cols'(2) f1 by auto
  qed
qed

lemma Seal_cfs_ok:
  "list_all (sealed_for cols) cfs \<Longrightarrow> Seal_cfs (map_of cols) cfs = OK"
  by (induction cfs) (auto simp: sealed_for_def split: option.splits)

section \<open>Recovering fresh column families\<close>

text \<open>The storages a database starts with.\<close>

definition fresh_columns :: "(u32 \<times> BlobStorage) list \<Rightarrow> bool" where
  "fresh_columns cols \<longleftrightarrow> distinct (map fst cols) \<and>
     list_all (\<lambda>c. storage_inv (snd c) \<and> bs_files (snd c) = [] \<and>
       (\<forall>k. \<not> co_less (bs_opts (snd c)) k k)) cols"

lemma fresh_storage:
  assumes "storage_inv bs" "bs_files bs = []"
  shows "live bs = Map.empty" "obsolete_at bs = Map.empty" "FindFile bs n = None"
proof -
  have "bs_obsolete bs = []" using assms by (auto simp: storage_inv_def)
  then show "live bs = Map.empty" "obsolete_at bs = Map.empty" "FindFile bs n = None"
    using assms by (auto simp: live_def obsolete_at_def FindFile_def)
qed

text \<open>Every file of the history lies at a level its column family has.\<close>

definition levels_fit :: "VersionEdit list \<Rightarrow> (u32 \<times> BlobStorage) list \<Rightarrow> bool" where
  "levels_fit es cols \<longleftrightarrow>
     list_all (\<lambda>e. list_all (\<lambda>c. fst c = ve_cf e \<longrightarrow> list_all (addable (snd c)) (ve_added e)) cols) es"

lemma collect_added:
  "p \<in> set (ce_added (collect es cf)) \<Longrightarrow> \<exists>e \<in> set es. ve_cf e = cf \<and> snd p \<in> set (ve_added e)"
  by (induction es rule: rev_induct)
    (auto simp: collect_def edit_collect_def CFEditCollector_new_def split: if_splits)

lemma cf_collector_map_of: "map_of (ec_cfs ec) cf = Some ce \<Longrightarrow> cf_collector cf ec = ce"
  by (simp add: cf_collector_def)

lemma matches_sealed_for:
  assumes m: "collector_matches es ec" and v: "valid_history es" and f: "fresh_columns cols"
    and l: "levels_fit es cols"
  shows "list_all (sealed_for cols) (ec_cfs ec)"
  unfolding list_all_iff
proof
  fix c assume c: "c \<in> set (ec_cfs ec)"
  then have "map_of (ec_cfs ec) (fst c) = Some (snd c)" using m by (simp add: collector_matches_def)
  then have ce: "snd c = collect es (fst c)"
    using m cf_collector_map_of [of ec "fst c" "snd c"] by (simp add: collector_matches_def)
  show "sealed_for cols c"
    unfolding sealed_for_def
  proof (intro allI impI conjI ballI)
    fix bs assume bs: "map_of cols (fst c) = Some bs"
    then have in_cols: "(fst c, bs) \<in> set cols" by (rule map_of_SomeD)
    show "ce_wf (snd c)" using valid_history_collect [OF v] ce by simp
    have "storage_inv bs" "bs_files bs = []"
      using f in_cols by (auto simp: fresh_columns_def list_all_iff)
    then have "FindFile bs n = None" for n by (rule fresh_storage)
    moreover have "fst ` set (ce_deleted (snd c)) \<subseteq> fst ` set (ce_added (snd c))"
      using valid_history_collect [OF v, of "fst c"] unfolding ce by blast
    ultimately show "CFE_Seal (snd c) bs = OK"
      by (simp add: CFE_Seal_def CFE_Seal_added_OK CFE_Seal_deleted_OK) blast
    fix p assume "p \<in> set (ce_added (snd c))"
    then obtain e where "e \<in> set es" "ve_cf e = fst c" "snd p \<in> set (ve_added e)"
      using collect_added ce by metis
    then show "addable bs (snd p)" using l in_cols by (force simp: levels_fit_def list_all_iff)
  qed
qed

lemma Recover_apply_ok:
  assumes m: "collector_matches es ec" and v: "valid_history es" and f: "fresh_columns (fs_columns fs)"
    and l: "levels_fit es (fs_columns fs)" and n: "list_ex ve_has_next es"
  obtains fs' where "Recover_apply ec fs = Some (OK, fs')" "fs_next_file_number fs' = next_of es"
    "fs_disk fs' = fs_disk fs" "fs_io fs' = fs_io fs" "map fst (fs_columns fs') = map fst (fs_columns fs)"
    "\<And>cf bs. map_of (fs_columns fs') cf = Some bs \<Longrightarrow>
       storage_inv bs \<and> live bs = history es cf \<and> obsolete_at bs = Map.empty \<and> (\<forall>k. \<not> co_less (bs_opts bs) k k)"
proof -
  let ?cols = "fs_columns fs"
  have sf: "list_all (sealed_for ?cols) (ec_cfs ec)" by (rule matches_sealed_for [OF m v f l])
  have ec: "ec_status ec = OK" "distinct (map fst (ec_cfs ec))" "ec_next ec = next_of es" "ec_has_next ec"
    "fst ` set (ec_cfs ec) = ve_cf ` set es" "\<And>cf. cf_collector cf ec = collect es cf"
    using m n by (simp_all add: collector_matches_def)
  have seal: "Seal (GetBlobStorage fs) ec = (OK, ec\<lparr>ec_sealed := True\<rparr>)"
    using Seal_cfs_ok [OF sf] ec(1) by (simp add: Seal_def GetBlobStorage_def)
  have "distinct (map fst ?cols)" "list_all (\<lambda>c. storage_inv (snd c)) ?cols"
    using f by (auto simp: fresh_columns_def list_all_iff)
  then obtain cols' where cols': "Apply_cfs (ec_cfs ec) ?cols = Some (OK, cols')" "map fst cols' = map fst ?cols"
    "\<And>cf bs. map_of ?cols cf = Some bs \<Longrightarrow> \<exists>bs'. map_of cols' cf = Some bs' \<and> column_after (ec_cfs ec) cf bs bs'"
    using Apply_cfs_ok [OF ec(2) _ _ sf] by auto
  have "storage_inv bs \<and> live bs = history es cf \<and> obsolete_at bs = Map.empty \<and> (\<forall>k. \<not> co_less (bs_opts bs) k k)"
    if bs: "map_of cols' cf = Some bs" for cf bs
  proof -
    have "cf \<in> fst ` set ?cols" using bs cols'(2) 
      by (metis (no_types, lifting) list.set_map map_of_eq_None_iff option.distinct(1))
    then obtain b where b: "map_of ?cols cf = Some b" by (metis map_of_eq_None_iff option.exhaust)
    then have fr: "storage_inv b" "bs_files b = []" "\<forall>k. \<not> co_less (bs_opts b) k k"
      using f map_of_SomeD [OF b] by (auto simp: fresh_columns_def list_all_iff)
    have ca: "column_after (ec_cfs ec) cf b bs" using cols'(3) [OF b] bs by auto
    have vc: "fst ` set (ce_deleted (collect es cf)) \<subseteq> fst ` set (ce_added (collect es cf))"
      "history es cf = batch_live (collect es cf) Map.empty"
      using valid_history_collect [OF v, of cf] by (simp_all add: batch_live_def)
    have "live bs = history es cf \<and> obsolete_at bs = Map.empty"
    proof (cases "map_of (ec_cfs ec) cf")
      case None
      then have "collect es cf = CFEditCollector_new" using ec(6) [of cf] by (simp add: cf_collector_def)
      then have "history es cf = Map.empty"
        using vc(2) by (simp add: batch_live_def CFEditCollector_new_def)
      with None ca fresh_storage [OF fr(1,2)] show ?thesis by (simp add: column_after_def)
    next
      case (Some ce)
      then have "ce = collect es cf" using ec(6) cf_collector_map_of by metis
      moreover from this vc(1) have "filter (\<lambda>d. fst d \<notin> fst ` set (ce_added ce)) (ce_deleted ce) = []"
        by (auto simp: filter_empty_conv)
      ultimately show ?thesis
        using Some ca vc(2) fresh_storage [OF fr(1,2)] by (simp add: column_after_def)
    qed
    then show ?thesis using ca fr(3) by (simp add: column_after_def store_conf_def)
  qed
  moreover have "Recover_apply ec fs = Some (OK, fs\<lparr>fs_columns := cols', fs_next_file_number := next_of es\<rparr>)"
    using seal cols'(1) ec by (simp add: Recover_apply_def Apply_def GetNextFileNumber_def Let_def)
  ultimately show thesis
    using that [of "fs\<lparr>fs_columns := cols', fs_next_file_number := next_of es\<rparr>"] cols'(2) by simp
qed

section \<open>Opening a manifest\<close>

lemma next_io_Nil [simp]: "fs_io fs = [] \<Longrightarrow> next_io fs = (OK, fs)"
  by (simp add: next_io_def)

definition append_records :: "string \<Rightarrow> bytes list \<Rightarrow> BlobFileSet \<Rightarrow> BlobFileSet" where
  "append_records name rs fs =
     fs\<lparr>fs_disk := (fs_disk fs)\<lparr>dk_manifests := (dk_manifests (fs_disk fs))
          (name \<mapsto> (case dk_manifests (fs_disk fs) name of Some es \<Rightarrow> es | None \<Rightarrow> []) @ map Rec rs)\<rparr>\<rparr>"

lemma AddRecord_ok:
  "fs_io fs = [] \<Longrightarrow> fs_manifest fs = Some name \<Longrightarrow> AddRecord r fs = Some (OK, append_records name [r] fs)"
  by (simp add: AddRecord_def append_records_def Let_def)

lemma append_records_append [simp]:
  "append_records name rs2 (append_records name rs1 fs) = append_records name (rs1 @ rs2) fs"
  by (simp add: append_records_def)

lemma append_records_fields [simp]:
  "fs_io (append_records name rs fs) = fs_io fs" "fs_manifest (append_records name rs fs) = fs_manifest fs"
  "fs_columns (append_records name rs fs) = fs_columns fs"
  "fs_next_file_number (append_records name rs fs) = fs_next_file_number fs"
  "fs_manifest_file_number (append_records name rs fs) = fs_manifest_file_number fs"
  by (simp_all add: append_records_def)

lemma WriteSnapshot_cfs_ok:
  "fs_io fs = [] \<Longrightarrow> fs_manifest fs = Some name \<Longrightarrow> cols \<noteq> [] \<Longrightarrow>
   WriteSnapshot_cfs cols fs = Some (OK, append_records name (map (\<lambda>c. VersionEdit_EncodeTo [] (snapshot_edit c)) cols) fs)"
proof (induction cols arbitrary: fs)
  case (Cons c cols)
  then show ?case by (cases "cols = []") (simp_all add: AddRecord_ok)
qed simp

text \<open>The edits a snapshot consists of.\<close>

definition snapshot_edits :: "BlobFileSet \<Rightarrow> VersionEdit list" where
  "snapshot_edits fs = SetNextFileNumber (fs_next_file_number fs) VersionEdit_new # map snapshot_edit (fs_columns fs)"

lemma WriteSnapshot_ok:
  "fs_io fs = [] \<Longrightarrow> fs_manifest fs = Some name \<Longrightarrow>
   WriteSnapshot fs = Some (OK, append_records name (map (VersionEdit_EncodeTo []) (snapshot_edits fs)) fs)"
  by (cases "fs_columns fs = []")
    (simp_all add: WriteSnapshot_def AddRecord_ok WriteSnapshot_cfs_ok snapshot_edits_def comp_def)

lemma OpenManifest_ok:
  assumes "fs_io fs = []"
  obtains fs' where "OpenManifest n fs = Some (OK, fs')" "fs_io fs' = []" "fs_columns fs' = fs_columns fs"
    "fs_manifest fs' = Some (DescriptorFileName n)" "fs_next_file_number fs' = fs_next_file_number fs"
    "fs_manifest_file_number fs' = n" "dk_current (fs_disk fs') = Some (DescriptorFileName n @ [CHR 0x0A])"
    "dk_children (fs_disk fs') = dk_children (fs_disk fs) @ [DescriptorN n]"
    "dk_manifests (fs_disk fs') = (dk_manifests (fs_disk fs))(DescriptorFileName n \<mapsto> manifest_of (snapshot_edits fs))"
proof -
  let ?fs1 = "fs\<lparr>fs_disk := (fs_disk fs)\<lparr>dk_manifests := (dk_manifests (fs_disk fs))(DescriptorFileName n \<mapsto> []),
      dk_children := dk_children (fs_disk fs) @ [DescriptorN n]\<rparr>, fs_manifest := Some (DescriptorFileName n)\<rparr>"
  have w: "WriteSnapshot ?fs1 = Some (OK, append_records (DescriptorFileName n)
      (map (VersionEdit_EncodeTo []) (snapshot_edits fs)) ?fs1)"
    using WriteSnapshot_ok [of ?fs1 "DescriptorFileName n"] assms by (simp add: snapshot_edits_def)
  let ?fs2 = "append_records (DescriptorFileName n) (map (VersionEdit_EncodeTo []) (snapshot_edits fs)) ?fs1"
  have "OpenManifest n fs = Some (OK, ?fs2\<lparr>fs_disk := (fs_disk ?fs2)\<lparr>dk_current :=
      Some (DescriptorFileName n @ [CHR 0x0A])\<rparr>, fs_manifest_file_number := n\<rparr>)"
    by (simp add: OpenManifest_def Let_def assms w SyncTitanManifest_def SetCurrentFile_def)
  then show thesis
    by (rule that) (simp_all add: assms append_records_def comp_def)
qed

section \<open>Purging at the end of recovery\<close>

lemma purge_columns_ok:
  "list_all (\<lambda>c. storage_inv (snd c) \<and> obsolete_at (snd c) = Map.empty \<and> (\<forall>k. \<not> co_less (bs_opts (snd c)) k k)) cols \<Longrightarrow>
   \<exists>alive cols'. purge_columns cols = Some (alive, cols') \<and>
     set alive = (\<Union>c \<in> set cols. dom (live (snd c))) \<and>
     list_all2 (\<lambda>c c'. fst c' = fst c \<and> storage_inv (snd c') \<and> live (snd c') = live (snd c) \<and>
       obsolete_at (snd c') = Map.empty) cols cols'"
proof (induction cols)
  case (Cons c cols)
  obtain cf bs where c: "c = (cf, bs)" by (cases c)
  have bs: "storage_inv bs" "obsolete_at bs = Map.empty" "\<And>k. \<not> co_less (bs_opts bs) k k"
    using Cons.prems by (auto simp: c)
  have ob: "bs_obsolete bs = []" using bs(2) by (simp add: obsolete_at_def fun_eq_iff map_of_eq_None_iff)
  obtain bs' where bs': "GetObsoleteFiles kMaxSequenceNumber bs = Some ([], bs')" "storage_inv bs'"
    "live bs' = live bs" "bs_obsolete bs' = []"
    by (rule GetObsoleteFiles_ok [OF bs(1,3), of kMaxSequenceNumber]) (simp add: ob)
  have nobs: "\<not> is_obsolete (snd p)" if "p \<in> set (bs_files bs')" for p
    using that bs'(2,4) by (simp add: storage_inv_def) (metis prod.collapse)
  have nums: "fm_number (snd p) = fst p" if "p \<in> set (bs_files bs')" for p
    using that bs'(2) by (auto simp: storage_inv_def list_all_iff)
  have "n \<in> (\<lambda>p. fm_number (snd p)) ` set (bs_files bs') \<longleftrightarrow> n \<in> dom (live bs')" for n
  proof -
    have "n \<in> (\<lambda>p. fm_number (snd p)) ` set (bs_files bs') \<longleftrightarrow> map_of (bs_files bs') n \<noteq> None"
      using nums by (force simp: map_of_eq_None_iff)
    also have "\<dots> \<longleftrightarrow> n \<in> dom (live bs')"
      using nobs by (force simp: live_def dest: map_of_SomeD split: option.splits)
    finally show ?thesis .
  qed
  then have "(\<lambda>p. fm_number (snd p)) ` set (bs_files bs') = dom (live bs)" using bs'(3) by auto
  with Cons bs' show ?case by (force simp: c obsolete_at_def)
qed simp

lemma delete_dead_ok:
  "fs_io fs = [] \<Longrightarrow>
   delete_dead alive fl fs =
     fs\<lparr>fs_disk := (fs_disk fs)\<lparr>dk_children :=
        filter (\<lambda>f. \<not> (file_dead alive f \<and> f \<in> set fl)) (dk_children (fs_disk fs))\<rparr>\<rparr>"
proof (induction fl arbitrary: fs)
  case (Cons f fl)
  show ?case
  proof (cases "file_dead alive f")
    case True
    let ?fs = "fs\<lparr>fs_disk := (fs_disk fs)\<lparr>dk_children := removeAll f (dk_children (fs_disk fs))\<rparr>\<rparr>"
    have "filter (\<lambda>g. \<not> (file_dead alive g \<and> g \<in> set fl)) (removeAll f xs) =
        filter (\<lambda>g. \<not> (file_dead alive g \<and> g \<in> set (f # fl))) xs" for xs
      using True by (induction xs) auto
    with Cons.IH [of ?fs] Cons.prems True show ?thesis by (simp add: Let_def)
  next
    case False
    then have "filter (\<lambda>g. \<not> (file_dead alive g \<and> g \<in> set fl)) xs =
        filter (\<lambda>g. \<not> (file_dead alive g \<and> g \<in> set (f # fl))) xs" for xs
      by (intro filter_cong) auto
    with Cons.IH [OF Cons.prems] False show ?thesis by simp
  qed
qed simp

lemma Recover_purge_ok:
  assumes io: "fs_io fs = []"
    and cols: "list_all (\<lambda>c. storage_inv (snd c) \<and> obsolete_at (snd c) = Map.empty \<and>
      (\<forall>k. \<not> co_less (bs_opts (snd c)) k k)) (fs_columns fs)"
  obtains fs' where "Recover_purge fs = Some (OK, fs')"
    "list_all2 (\<lambda>c c'. fst c' = fst c \<and> storage_inv (snd c') \<and> live (snd c') = live (snd c) \<and>
       obsolete_at (snd c') = Map.empty) (fs_columns fs) (fs_columns fs')"
    "fs_next_file_number fs' = fs_next_file_number fs + 1"
    "dk_current (fs_disk fs') = Some (DescriptorFileName (fs_next_file_number fs) @ [CHR 0x0A])"
    "dk_manifests (fs_disk fs') (DescriptorFileName (fs_next_file_number fs)) =
       Some (manifest_of (snapshot_edits (snd (NewFileNumber fs))))"
    "\<And>n. BlobFileN n \<in> set (dk_children (fs_disk fs')) \<longleftrightarrow>
       BlobFileN n \<in> set (dk_children (fs_disk fs)) \<and>
       (n = fs_next_file_number fs \<or> (\<exists>c \<in> set (fs_columns fs). live (snd c) n \<noteq> None))"
proof -
  let ?n = "fs_next_file_number fs" and ?fs0 = "fs\<lparr>fs_next_file_number := fs_next_file_number fs + 1\<rparr>"
  have io0: "fs_io ?fs0 = []" using io by simp
  obtain fs1 where fs1: "OpenManifest ?n ?fs0 = Some (OK, fs1)" "fs_io fs1 = []" "fs_columns fs1 = fs_columns fs"
    "fs_next_file_number fs1 = ?n + 1" "dk_current (fs_disk fs1) = Some (DescriptorFileName ?n @ [CHR 0x0A])"
    "dk_children (fs_disk fs1) = dk_children (fs_disk fs) @ [DescriptorN ?n]"
    "dk_manifests (fs_disk fs1) (DescriptorFileName ?n) = Some (manifest_of (snapshot_edits ?fs0))"
    by (rule OpenManifest_ok [OF io0, of ?n]) simp
  obtain alive cols' where p: "purge_columns (fs_columns fs) = Some (alive, cols')"
    "set alive = (\<Union>c \<in> set (fs_columns fs). dom (live (snd c)))"
    "list_all2 (\<lambda>c c'. fst c' = fst c \<and> storage_inv (snd c') \<and> live (snd c') = live (snd c) \<and>
       obsolete_at (snd c') = Map.empty) (fs_columns fs) cols'"
    using purge_columns_ok [OF cols] by auto
  let ?fs2 = "fs1\<lparr>fs_columns := cols'\<rparr>"
  let ?fs3 = "delete_dead (?n # alive) (dk_children (fs_disk ?fs2)) ?fs2"
  have "Recover_purge fs = Some (OK, ?fs3)"
    using fs1 p(1) by (simp add: Recover_purge_def NewFileNumber_def Let_def)
  moreover have "?fs3 = ?fs2\<lparr>fs_disk := (fs_disk ?fs2)\<lparr>dk_children :=
      filter (\<lambda>f. \<not> (file_dead (?n # alive) f \<and> f \<in> set (dk_children (fs_disk ?fs2)))) (dk_children (fs_disk ?fs2))\<rparr>\<rparr>"
    using fs1(2) by (intro delete_dead_ok) simp
  ultimately show thesis
    using that fs1 p by (auto simp: NewFileNumber_def)
qed

lemma Recover_ok:
  assumes io: "fs_io fs = []"
    and current: "dk_current (fs_disk fs) = Some (name @ [CHR 0x0A])"
    and manifest: "dk_manifests (fs_disk fs) name = Some entries"
    and same: "replay OK entries EditCollector_new = replay OK (manifest_of es) EditCollector_new"
    and fits: "list_all VersionEdit_fits es" and hasnext: "list_ex ve_has_next es"
    and valid: "valid_history (map VersionEdit_persistent es)"
    and fresh: "fresh_columns (fs_columns fs)" and levels: "levels_fit (map VersionEdit_persistent es) (fs_columns fs)"
  obtains fs' where "Recover fs = Some (OK, fs')" "map fst (fs_columns fs') = map fst (fs_columns fs)"
    "\<And>cf bs. map_of (fs_columns fs') cf = Some bs \<Longrightarrow>
       storage_inv bs \<and> live bs = history (map VersionEdit_persistent es) cf \<and> obsolete_at bs = Map.empty"
    "fs_next_file_number fs' = next_of (map VersionEdit_persistent es) + 1"
    "\<And>n. BlobFileN n \<in> set (dk_children (fs_disk fs')) \<longleftrightarrow> BlobFileN n \<in> set (dk_children (fs_disk fs)) \<and>
       (n = next_of (map VersionEdit_persistent es) \<or>
        (\<exists>cf \<in> fst ` set (fs_columns fs). history (map VersionEdit_persistent es) cf n \<noteq> None))"
proof -
  let ?es = "map VersionEdit_persistent es"
  obtain ec where ec: "replay OK (manifest_of es) EditCollector_new = Inr ec" "collector_matches ?es ec"
    using replay_manifest [OF fits collector_matches_new] valid by auto
  have nx: "list_ex ve_has_next ?es" using hasnext by (simp add: list_ex_iff VersionEdit_persistent_def)
  obtain fs1 where fs1: "Recover_apply ec fs = Some (OK, fs1)" "fs_next_file_number fs1 = next_of ?es"
    "fs_disk fs1 = fs_disk fs" "fs_io fs1 = fs_io fs" "map fst (fs_columns fs1) = map fst (fs_columns fs)"
    "\<And>cf bs. map_of (fs_columns fs1) cf = Some bs \<Longrightarrow>
       storage_inv bs \<and> live bs = history ?es cf \<and> obsolete_at bs = Map.empty \<and> (\<forall>k. \<not> co_less (bs_opts bs) k k)"
    by (rule Recover_apply_ok [OF ec(2) valid fresh levels nx]) (rule that; (assumption | blast))
  have d1: "distinct (map fst (fs_columns fs1))" using fresh fs1(5) by (simp add: fresh_columns_def)
  have col: "storage_inv (snd c) \<and> live (snd c) = history ?es (fst c) \<and> obsolete_at (snd c) = Map.empty \<and>
      (\<forall>k. \<not> co_less (bs_opts (snd c)) k k)" if "c \<in> set (fs_columns fs1)" for c
    using fs1(6) [of "fst c" "snd c"] that d1 by simp
  have io1: "fs_io fs1 = []" using io fs1(4) by simp
  have cl: "list_all (\<lambda>c. storage_inv (snd c) \<and> obsolete_at (snd c) = Map.empty \<and>
      (\<forall>k. \<not> co_less (bs_opts (snd c)) k k)) (fs_columns fs1)"
    using col by (simp add: list_all_iff)
  obtain fs2 where fs2: "Recover_purge fs1 = Some (OK, fs2)"
    "list_all2 (\<lambda>c c'. fst c' = fst c \<and> storage_inv (snd c') \<and> live (snd c') = live (snd c) \<and>
       obsolete_at (snd c') = Map.empty) (fs_columns fs1) (fs_columns fs2)"
    "fs_next_file_number fs2 = next_of ?es + 1"
    "\<And>n. BlobFileN n \<in> set (dk_children (fs_disk fs2)) \<longleftrightarrow> BlobFileN n \<in> set (dk_children (fs_disk fs)) \<and>
       (n = next_of ?es \<or> (\<exists>c \<in> set (fs_columns fs1). live (snd c) n \<noteq> None))"
    by (rule Recover_purge_ok [OF io1 cl]) (simp add: fs1(2,3))
  have "Recover_open fs = (Inr entries, fs)"
    using io current manifest by (simp add: Recover_open_def Let_def)
  then have "Recover fs = Some (OK, fs2)" using ec(1) same fs1(1) fs2(1) by (simp add: Recover_def)
  moreover have "map fst (fs_columns fs2) = map fst (fs_columns fs)"
    using fs2(2) unfolding fs1(5) [symmetric] by (induction rule: list_all2_induct) auto
  moreover have "storage_inv bs \<and> live bs = history ?es cf \<and> obsolete_at bs = Map.empty"
    if bs: "map_of (fs_columns fs2) cf = Some bs" for cf bs
  proof -
    obtain i where i: "i < length (fs_columns fs2)" "fs_columns fs2 ! i = (cf, bs)"
      using map_of_SomeD [OF bs] by (auto simp: in_set_conv_nth)
    moreover have "fs_columns fs1 ! i \<in> set (fs_columns fs1)"
      using i(1) list_all2_lengthD [OF fs2(2)] by simp
    ultimately show ?thesis
      using list_all2_nthD2 [OF fs2(2) i(1)] col [of "fs_columns fs1 ! i"] by simp
  qed
  moreover have "fst ` set (fs_columns fs) = fst ` set (fs_columns fs1)" using fs1(5) by (metis list.set_map)
  then have "(\<exists>c \<in> set (fs_columns fs1). live (snd c) n \<noteq> None) \<longleftrightarrow>
      (\<exists>cf \<in> fst ` set (fs_columns fs). history ?es cf n \<noteq> None)" for n
    using col by auto
  ultimately show thesis using that fs2(3,4) by simp
qed

section \<open>Snapshots\<close>

lemma snapshot_edit_eq:
  "snapshot_edit (cf, bs) = \<lparr>ve_has_next = False, ve_next = 0, ve_cf = cf,
     ve_added = map snd (filter live_file (bs_files bs)), ve_deleted = []\<rparr>"
proof -
  have "foldl (\<lambda>e p. if is_obsolete (snd p) then e else VersionEdit_AddBlobFile (snd p) e) e xs =
      e\<lparr>ve_added := ve_added e @ map snd (filter live_file xs)\<rparr>" for xs e
    by (induction xs arbitrary: e) (auto simp: VersionEdit_AddBlobFile_def)
  then show ?thesis by (simp add: snapshot_edit_def SetColumnFamilyID_def VersionEdit_new_def)
qed

abbreviation persisted :: "BlobFileMeta \<Rightarrow> BlobFileMeta" where
  "persisted \<equiv> BlobFileMeta_persistent BlobFileMeta_default"

lemma persisted_number [simp]: "fm_number (persisted m) = fm_number m"
  by (simp add: BlobFileMeta_persistent_def)

text \<open>An edit that adds the files of a column which satisfy \<open>P\<close>, and what it contributes to the collected edits.\<close>

definition files_edit :: "(u64 \<times> BlobFileMeta \<Rightarrow> bool) \<Rightarrow> u32 \<times> BlobStorage \<Rightarrow> VersionEdit" where
  "files_edit P col = \<lparr>ve_has_next = False, ve_next = 0, ve_cf = fst col, ve_added = map snd (filter P (bs_files (snd col))), ve_deleted = []\<rparr>"

definition files_collect :: "(u64 \<times> BlobFileMeta \<Rightarrow> bool) \<Rightarrow> BlobStorage \<Rightarrow> CFEditCollector" where
  "files_collect P bs = \<lparr>ce_added = numbered (map (persisted \<circ> snd) (filter P (bs_files bs))), ce_deleted = []\<rparr>"

lemma snapshot_files_edit: "snapshot_edit = files_edit live_file"
  by (auto simp: fun_eq_iff snapshot_edit_eq files_edit_def)

definition first_edit :: "u64 \<Rightarrow> VersionEdit" where
  "first_edit n = VersionEdit_persistent (SetNextFileNumber n VersionEdit_new)"

lemma first_edit_simps [simp]:
  "ve_added (first_edit n) = []" "ve_deleted (first_edit n) = []" "ve_has_next (first_edit n)"
  "ve_next (first_edit n) = n" "ve_cf (first_edit n) = 0"
  by (simp_all add: first_edit_def VersionEdit_persistent_def SetNextFileNumber_def VersionEdit_new_def)

lemma valid_first_edit:
  "valid_history [first_edit n]" "collect [first_edit n] cf = CFEditCollector_new" "next_of [first_edit n] = n"
proof -
  have "valid_history ([] @ [first_edit n])"
    by (rule valid_history.Snoc [OF valid_history.Nil]) (simp_all add: edit_fits_def next_of_def)
  then show "valid_history [first_edit n]" by simp
qed (simp_all add: collect_def edit_collect_def next_of_def)

lemma filter_numbers:
  assumes "storage_inv bs"
  shows "map (fm_number \<circ> snd) (filter P (bs_files bs)) = map fst (filter P (bs_files bs))"
  using assms by (auto simp: storage_inv_def list_all_iff)

lemma files_history:
  assumes "distinct (map fst cols)" "list_all (\<lambda>c. storage_inv (snd c)) cols"
  shows "valid_history (first_edit n # map (VersionEdit_persistent \<circ> files_edit P) cols) \<and>
    next_of (first_edit n # map (VersionEdit_persistent \<circ> files_edit P) cols) = n \<and>
    (\<forall>cf. collect (first_edit n # map (VersionEdit_persistent \<circ> files_edit P) cols) cf =
       (case map_of cols cf of None \<Rightarrow> CFEditCollector_new | Some bs \<Rightarrow> files_collect P bs))"
  using assms
proof (induction cols rule: rev_induct)
  case Nil
  then show ?case by (simp add: valid_first_edit)
next
  case (snoc c cols)
  obtain cf bs where c: "c = (cf, bs)" by (cases c)
  let ?es = "first_edit n # map (VersionEdit_persistent \<circ> files_edit P) cols"
  let ?e = "VersionEdit_persistent (files_edit P c)"
  have new: "map_of cols cf = None" using snoc.prems(1) by (simp add: c map_of_eq_None_iff)
  have prems: "distinct (map fst cols)" "list_all (\<lambda>c. storage_inv (snd c)) cols"
    using snoc.prems by auto
  have IH: "valid_history ?es" "next_of ?es = n"
    "\<And>cf. collect ?es cf = (case map_of cols cf of None \<Rightarrow> CFEditCollector_new | Some bs \<Rightarrow> files_collect P bs)"
    using snoc.IH [OF prems] by blast+
  have e: "ve_cf ?e = cf" "ve_deleted ?e = []" "\<not> ve_has_next ?e"
    "ve_added ?e = map (persisted \<circ> snd) (filter P (bs_files bs))"
    by (simp_all add: c files_edit_def VersionEdit_persistent_def)
  have inv: "storage_inv bs" using snoc.prems(2) by (simp add: c)
  then have "distinct (map fst (bs_files bs))" by (simp add: storage_inv_def)
  then have "distinct (map (fm_number \<circ> snd) (filter P (bs_files bs)))"
    unfolding filter_numbers [OF inv] by (rule distinct_map_filter)
  moreover have "map fm_number (ve_added ?e) = map (fm_number \<circ> snd) (filter P (bs_files bs))"
    by (simp add: e(4) comp_def)
  ultimately have "edit_fits ?e (collect ?es (ve_cf ?e)) (next_of ?es)"
    using e(1-3) IH(3) new by (simp add: edit_fits_def CFEditCollector_new_def)
  then have "valid_history (?es @ [?e])"
    by (rule valid_history.Snoc [OF IH(1)]) (simp add: e(2))
  moreover have "map_of (cols @ [c]) k = (if k = cf then Some bs else map_of cols k)" for k
    using new by (auto simp: c map_add_def split: option.splits)
  then have "collect (?es @ [?e]) k = (case map_of (cols @ [c]) k of
      None \<Rightarrow> CFEditCollector_new | Some bs \<Rightarrow> files_collect P bs)" for k
    unfolding collect_snoc IH(3) e(1) using new e
    by (auto simp: edit_collect_def files_collect_def CFEditCollector_new_def simp del: map_of_append)
  moreover have "next_of (?es @ [?e]) = n" unfolding next_of_snoc using IH(2) e(3) by simp
  moreover have "?es @ [?e] = first_edit n # map (VersionEdit_persistent \<circ> files_edit P) (cols @ [c])"
    by simp
  ultimately show ?case by metis
qed

lemma map_of_filter_numbers:
  "distinct (map fst xs) \<Longrightarrow> map_of (filter P xs) n = (case map_of xs n of Some m \<Rightarrow> if P (n, m) then Some m else None | None \<Rightarrow> None)"
  by (induction xs) (auto simp: map_of_eq_None_iff split: option.splits)

lemma files_history_live:
  assumes cols: "distinct (map fst cols)" "list_all (\<lambda>c. storage_inv (snd c)) cols" and bs: "map_of cols cf = Some bs"
  shows "history (first_edit n # map (VersionEdit_persistent \<circ> files_edit P) cols) cf k =
    map_option persisted (map_of (filter P (bs_files bs)) k)"
proof -
  let ?es = "first_edit n # map (VersionEdit_persistent \<circ> files_edit P) cols"
  have i: "storage_inv bs" using cols(2) map_of_SomeD [OF bs] by (auto simp: list_all_iff)
  note h = files_history [OF cols, of n P]
  have c: "collect ?es cf = files_collect P bs" using h bs by simp
  have "history ?es cf = map_of (ce_added (files_collect P bs))"
    using valid_history_collect [OF h [THEN conjunct1], of cf] unfolding c by (simp add: files_collect_def restrict_map_def)
  moreover have "ce_added (files_collect P bs) = map (\<lambda>(k, m). (k, persisted m)) (filter P (bs_files bs))"
    using i by (auto simp: files_collect_def storage_inv_def list_all_iff)
  ultimately show ?thesis by (simp add: map_of_map)
qed

lemma live_filter: "storage_inv bs \<Longrightarrow> map_of (filter live_file (bs_files bs)) = live bs"
  by (auto simp: fun_eq_iff map_of_filter_numbers storage_inv_def live_def split: option.splits)

section \<open>Properties\<close>

text \<open>C6: Logging an edit is all or nothing in memory.  On a consistent file set with an open
  manifest, for an edit of a known column family whose added files lie at existing levels and are
  not obsolete, \<open>LogAndApply\<close> always returns; with an error no storage changes, whatever file
  operation failed; with success the edit's record is the last one of the manifest, exactly its
  column family changes, its live files are the old ones with the added and without the deleted
  ones, and the file set stays consistent.\<close>

theorem log_and_apply_atomic:
  assumes "fileset_inv fs" and "fs_manifest fs \<noteq> None"
    and "map_of (fs_columns fs) (ve_cf e) = Some bs"
    and "\<And>f. f \<in> set (ve_added e) \<Longrightarrow> addable bs f"
  shows "\<exists>s fs'. LogAndApply e fs = Some (s, fs') \<and> fileset_inv fs' \<and> fs_manifest fs' = fs_manifest fs \<and>
    (if s \<noteq> OK then fs_columns fs' = fs_columns fs
     else (\<exists>bs'. fs_columns fs' = al_modify (ve_cf e) (\<lambda>_. bs') (fs_columns fs) \<and>
       live bs' = (live bs ++ map_of (map (\<lambda>f. (fm_number f, f)) (ve_added e))) |` (- fst ` set (ve_deleted e)) \<and>
       manifest_entries fs' = manifest_entries fs @
         [Rec (VersionEdit_EncodeTo [] (SetNextFileNumber (fs_next_file_number fs) e))]))"
proof -
  obtain s fs' where r: "LogAndApply e fs = Some (s, fs')" "s \<noteq> OK \<Longrightarrow> fs_columns fs' = fs_columns fs"
    "s = OK \<Longrightarrow> \<exists>bs'. fs_columns fs' = al_modify (ve_cf e) (\<lambda>_. bs') (fs_columns fs) \<and> storage_inv bs' \<and>
       live bs' = batch_live (edit_batch e) (live bs) \<and> store_conf bs' = store_conf bs \<and>
       manifest_entries fs' = manifest_entries fs @
         [Rec (VersionEdit_EncodeTo [] (SetNextFileNumber (fs_next_file_number fs) e))]"
    "fs_manifest fs' = fs_manifest fs"
    by (rule LogAndApply_cases [OF assms]) (assumption, (rule that; (assumption | blast)))
  have "fileset_inv fs'"
  proof (cases "s = OK")
    case False
    then show ?thesis using r(2) assms(1) by (simp add: fileset_inv_def)
  next
    case True
    then obtain bs' where "fs_columns fs' = al_modify (ve_cf e) (\<lambda>_. bs') (fs_columns fs)" "storage_inv bs'"
      using r(3) by blast
    then show ?thesis using fileset_inv_modify [OF assms(1)] by (simp add: fileset_inv_def)
  qed
  then show ?thesis
    using r by (cases "s = OK") (auto simp: batch_live_def edit_batch_def)
qed

definition demo_fileset :: "status list \<Rightarrow> BlobFileSet" where
  "demo_fileset io = \<lparr>fs_columns = [(0, BlobStorage_new demo_options 0 None)], fs_obsolete_columns = [],
     fs_obsolete_manifests = [], fs_manifest = Some ''MANIFEST-000001'', fs_next_file_number = 8,
     fs_manifest_file_number = 1,
     fs_disk = \<lparr>dk_current = Some (''MANIFEST-000001'' @ [CHR 0x0A]),
                dk_manifests = [''MANIFEST-000001'' \<mapsto> manifest_of
                  [\<lparr>ve_has_next = True, ve_next = 6, ve_cf = 0, ve_added = [BlobFileMeta_new 3 4 1 0 [] []], ve_deleted = []\<rparr>,
                   \<lparr>ve_has_next = True, ve_next = 7, ve_cf = 0, ve_added = [BlobFileMeta_new 5 4 1 0 [] []], ve_deleted = [(3, 10)]\<rparr>]],
                dk_children = [BlobFileN 3, BlobFileN 5, BlobFileN 6]\<rparr>,
     fs_io = io\<rparr>"

lemma demo_fresh: "fresh_columns (fs_columns (demo_fileset io))"
  by (simp add: demo_fileset_def fresh_columns_def BlobStorage_new_inv)
    (simp add: BlobStorage_new_def demo_options_def)

theorem log_and_apply_atomic_witness:
  "\<exists>s fs'. LogAndApply \<lparr>ve_has_next = False, ve_next = 0, ve_cf = 0, ve_added = [BlobFileMeta_new 7 4 1 0 [] []], ve_deleted = []\<rparr>
     (demo_fileset [OK, IOError ''sync'']) = Some (s, fs') \<and> fileset_inv fs'"
proof -
  let ?e = "\<lparr>ve_has_next = False, ve_next = 0, ve_cf = 0, ve_added = [BlobFileMeta_new 7 4 1 0 [] []], ve_deleted = []\<rparr>"
  let ?fs = "demo_fileset [OK, IOError ''sync'']"
  have "fileset_inv ?fs" using demo_fresh by (auto simp: fileset_inv_def fresh_columns_def list_all_iff)
  moreover have "fs_manifest ?fs \<noteq> None" "map_of (fs_columns ?fs) (ve_cf ?e) = Some (BlobStorage_new demo_options 0 None)"
    by (simp_all add: demo_fileset_def)
  moreover have "addable (BlobStorage_new demo_options 0 None) f" if "f \<in> set (ve_added ?e)" for f
    using that by (simp add: addable_def BlobStorage_new_def demo_options_def BlobFileMeta_new_def is_obsolete_def)
  ultimately show ?thesis using log_and_apply_atomic [of ?fs ?e] by blast
qed


abbreviation demo_edits :: "VersionEdit list" where
  "demo_edits \<equiv> [\<lparr>ve_has_next = True, ve_next = 6, ve_cf = 0, ve_added = [BlobFileMeta_new 3 4 1 0 [] []], ve_deleted = []\<rparr>,
     \<lparr>ve_has_next = True, ve_next = 7, ve_cf = 0, ve_added = [BlobFileMeta_new 5 4 1 0 [] []], ve_deleted = [(3, 10)]\<rparr>]"

lemma demo_valid: "valid_history (map VersionEdit_persistent demo_edits)"
proof -
  let ?e1 = "VersionEdit_persistent (demo_edits ! 0)" and ?e2 = "VersionEdit_persistent (demo_edits ! 1)"
  have "valid_history ([] @ [?e1])"
    by (rule valid_history.Snoc [OF valid_history.Nil])
      (simp_all add: edit_fits_def VersionEdit_persistent_def collect_def CFEditCollector_new_def next_of_def)
  then have "valid_history (([] @ [?e1]) @ [?e2])"
    by (rule valid_history.Snoc)
      (simp_all add: edit_fits_def edit_collect_def VersionEdit_persistent_def collect_def CFEditCollector_new_def
        next_of_def BlobFileMeta_new_def)
  then show ?thesis by simp
qed

lemma demo_levels: "levels_fit (map VersionEdit_persistent demo_edits) (fs_columns (demo_fileset []))"
  by (simp add: levels_fit_def demo_fileset_def addable_def BlobStorage_new_def demo_options_def
      VersionEdit_persistent_def BlobFileMeta_persistent_def BlobFileMeta_default_def BlobFileMeta_new_def
      is_obsolete_def)

lemma demo_fits: "list_all VersionEdit_fits demo_edits" and demo_next: "list_ex ve_has_next demo_edits"
  by (simp_all add: VersionEdit_fits_def BlobFileMeta_fits_def BlobFileMeta_new_def)


text \<open>C33: A damaged manifest is truncated silently.  When the log reader reports a corruption in
  the middle of the manifest, \<open>Recover\<close> behaves exactly as if the manifest ended there: the
  status of the reader is overwritten by that of \<open>Seal\<close>, so the database opens without an error
  although the later edits are lost.\<close>

theorem manifest_corruption_ignored:
  assumes "fs_io fs = []" and "dk_current (fs_disk fs) = Some (name @ [CHR 0x0A])"
    and "dk_manifests (fs_disk fs) name = Some (manifest_of es @ Corrupt c # rest)" and "c \<noteq> OK"
    and "list_all VersionEdit_fits es" and "list_ex ve_has_next es"
    and "valid_history (map VersionEdit_persistent es)"
    and "fresh_columns (fs_columns fs)" and "levels_fit (map VersionEdit_persistent es) (fs_columns fs)"
  shows "\<exists>fs'. Recover fs = Some (OK, fs') \<and>
    (\<forall>cf bs. map_of (fs_columns fs') cf = Some bs \<longrightarrow> live bs = history (map VersionEdit_persistent es) cf) \<and>
    (\<forall>n. BlobFileN n \<in> set (dk_children (fs_disk fs')) \<longrightarrow>
       n = next_of (map VersionEdit_persistent es) \<or>
       (\<exists>cf \<in> fst ` set (fs_columns fs). history (map VersionEdit_persistent es) cf n \<noteq> None))"
proof -
  have "manifest_of es = map Rec (map (VersionEdit_EncodeTo []) es)" by simp
  then have same: "replay OK (manifest_of es @ Corrupt c # rest) EditCollector_new =
      replay OK (manifest_of es) EditCollector_new"
    using replay_stops_at_corruption [OF assms(4)] by metis
  show ?thesis by (rule Recover_ok [OF assms(1-3) same assms(5-9)]) blast
qed

theorem manifest_corruption_ignored_witness:
  "\<exists>fs'. Recover ((demo_fileset [])\<lparr>fs_disk := \<lparr>dk_current = Some (''M'' @ [CHR 0x0A]),
       dk_manifests = [''M'' \<mapsto> manifest_of demo_edits @ [Corrupt (Corruption ''checksum mismatch''), Rec [1]]],
       dk_children = [BlobFileN 5, BlobFileN 6]\<rparr>\<rparr>) = Some (OK, fs') \<and>
     BlobFileN 6 \<notin> set (dk_children (fs_disk fs'))"
proof -
  let ?d = "\<lparr>dk_current = Some (''M'' @ [CHR 0x0A]),
       dk_manifests = [''M'' \<mapsto> manifest_of demo_edits @ [Corrupt (Corruption ''checksum mismatch''), Rec [1]]],
       dk_children = [BlobFileN 5, BlobFileN 6]\<rparr>"
  let ?fs = "(demo_fileset [])\<lparr>fs_disk := ?d\<rparr>"
  have d: "fs_io ?fs = []" "dk_current (fs_disk ?fs) = Some (''M'' @ [CHR 0x0A])"
    "dk_manifests (fs_disk ?fs) ''M'' = Some (manifest_of demo_edits @ Corrupt (Corruption ''checksum mismatch'') # [Rec [1]])"
    "Corruption ''checksum mismatch'' \<noteq> OK" "fs_columns ?fs = fs_columns (demo_fileset [])"
    "fst ` set (fs_columns ?fs) = {0}"
    by (simp_all add: demo_fileset_def)
  have h: "history (map VersionEdit_persistent demo_edits) 0 6 = None"
    "next_of (map VersionEdit_persistent demo_edits) = 7"
    by (simp_all add: history_def apply_edit_def batch_live_def edit_batch_def VersionEdit_persistent_def
        BlobFileMeta_persistent_def BlobFileMeta_new_def next_of_def)
  obtain fs' where "Recover ?fs = Some (OK, fs')"
    "\<forall>n. BlobFileN n \<in> set (dk_children (fs_disk fs')) \<longrightarrow>
       n = next_of (map VersionEdit_persistent demo_edits) \<or>
       (\<exists>cf \<in> fst ` set (fs_columns ?fs). history (map VersionEdit_persistent demo_edits) cf n \<noteq> None)"
    using manifest_corruption_ignored [OF d(1-4) demo_fits demo_next demo_valid
        demo_fresh [of "[]", folded d(5)] demo_levels [folded d(5)]] by blast
  then show ?thesis unfolding d(6) using h by (intro exI [of _ fs']) auto
qed



end
