(* ===== verification/Titan_Collectors.thy ===== *)
theory Titan_Collectors
  imports Titan_Storage
begin

text \<open>
  The two table-property collectors that summarise, for every SST file, which blob records it
  refers to: \<open>BlobFileSizeCollector\<close> (bytes per blob file, \<open>blob_file_size_collector.h\<close> and
  \<open>.cc\<close>) and \<open>BlobValidationCollector\<close> (record indexes per blob file,
  \<open>blob_validation_collector.h\<close> and \<open>.cc\<close>), and the extraction of both from a table's
  properties (\<open>db_impl_gc.cc\<close>).
\<close>

section \<open>Ordered maps\<close>

text \<open>A \<open>std::map\<close> is an association list in ascending order of its keys.\<close>

fun smap_put :: "'k::linorder \<Rightarrow> 'v \<Rightarrow> ('k \<times> 'v) list \<Rightarrow> ('k \<times> 'v) list" where
  "smap_put k v [] = [(k, v)]"
| "smap_put k v ((j, w) # xs) =
     (if k < j then (k, v) # (j, w) # xs
      else if k = j then (k, v) # xs
      else (j, w) # smap_put k v xs)"

abbreviation smap_wf :: "('k::linorder \<times> 'v) list \<Rightarrow> bool" where
  "smap_wf xs \<equiv> sorted_wrt (<) (map fst xs)"

lemma map_of_smap_put [simp]: "map_of (smap_put k v xs) = (map_of xs)(k \<mapsto> v)"
  by (induction k v xs rule: smap_put.induct) (auto simp: fun_eq_iff)

lemma fst_smap_put [simp]: "fst ` set (smap_put k v xs) = insert k (fst ` set xs)"
  by (induction k v xs rule: smap_put.induct) auto

lemma smap_put_wf: "smap_wf xs \<Longrightarrow> smap_wf (smap_put k v xs)"
proof (induction k v xs rule: smap_put.induct)
  case (2 k v j w xs)
  have "\<forall>x \<in> fst ` set (smap_put k v xs). j < x" if "j < k" using 2 that by auto
  with 2 show ?case by (auto simp: not_less)
qed simp

lemma smap_put_last: "(\<And>x. x \<in> fst ` set xs \<Longrightarrow> x < k) \<Longrightarrow> smap_put k v xs = xs @ [(k, v)]"
  by (induction k v xs rule: smap_put.induct) (auto simp: dest: less_asym)

lemma smap_wf_distinct: "smap_wf xs \<Longrightarrow> distinct (map fst xs)"
  by (simp add: strict_sorted_iff)

text \<open>\<open>map[k].push_back(v)\<close> on a hash map.\<close>

definition al_push :: "'k \<Rightarrow> 'v \<Rightarrow> ('k \<times> 'v list) list \<Rightarrow> ('k \<times> 'v list) list" where
  "al_push k v xs = al_modify k (\<lambda>l. l @ [v]) (emplace k [] xs)"

definition al_list :: "('k \<times> 'v list) list \<Rightarrow> 'k \<Rightarrow> 'v list" where
  "al_list xs k = (case map_of xs k of None \<Rightarrow> [] | Some l \<Rightarrow> l)"

lemma al_list_push [simp]: "al_list (al_push k v xs) j = (if j = k then al_list xs j @ [v] else al_list xs j)"
proof (cases "map_of xs k")
  case None
  then have "k \<notin> fst ` set xs" by (simp add: map_of_eq_None_iff)
  with None show ?thesis by (simp add: al_list_def al_push_def map_of_al_modify map_of_emplace)
next
  case (Some l)
  then have "k \<in> fst ` set xs" by (metis map_of_eq_None_iff option.distinct(1))
  with Some show ?thesis by (simp add: al_list_def al_push_def map_of_al_modify map_of_emplace)
qed

section \<open>Table entries and properties\<close>

datatype EntryType =
    kEntryPut | kEntryDelete | kEntrySingleDelete | kEntryMerge | kEntryRangeDeletion
  | kEntryBlobIndex | kEntryDeleteWithTimestamp | kEntryOther

type_synonym user_properties = "(string \<times> bytes) list"

section \<open>Blob file sizes\<close>

abbreviation kSizeProperty :: string where "kSizeProperty \<equiv> ''TitanDB.blob_discardable_size''"

definition Size_Encode :: "(u64 \<times> u64) list \<Rightarrow> bytes \<Rightarrow> bytes" where
  "Size_Encode blob_files_size result =
     foldl (\<lambda>r bfs. PutVarint64 (PutVarint64 r (fst bfs)) (snd bfs))
       (PutVarint32 result (of_nat (length blob_files_size))) blob_files_size"

fun Size_Decode_loop :: "nat \<Rightarrow> bytes \<Rightarrow> (u64 \<times> u64) list \<Rightarrow> ((u64 \<times> u64) list \<times> bytes) option" where
  "Size_Decode_loop 0 src sizes = Some (sizes, src)"
| "Size_Decode_loop (Suc n) src sizes =
     (case GetVarint64 src of
        None \<Rightarrow> None
      | Some (file_number, src) \<Rightarrow>
          (case GetVarint64 src of
             None \<Rightarrow> None
           | Some (sz, src) \<Rightarrow> Size_Decode_loop n src (smap_put file_number sz sizes)))"

definition Size_Decode :: "bytes \<Rightarrow> (u64 \<times> u64) list \<Rightarrow> ((u64 \<times> u64) list \<times> bytes) option" where
  "Size_Decode src sizes =
     (case GetVarint32 src of
        None \<Rightarrow> None
      | Some (num, src) \<Rightarrow> Size_Decode_loop (unat num) src sizes)"

definition Size_AddUserKey :: "bytes \<Rightarrow> EntryType \<Rightarrow> (u64 \<times> u64) list \<Rightarrow> status \<times> (u64 \<times> u64) list" where
  "Size_AddUserKey val type sizes =
     (if type \<noteq> kEntryBlobIndex then (OK, sizes)
      else (case BlobIndex_DecodeFrom BlobIndex_zero val of
              Inl s \<Rightarrow> (s, sizes)
            | Inr (index, _) \<Rightarrow>
                (case map_of sizes (bi_file_number index) of
                   None \<Rightarrow> (OK, smap_put (bi_file_number index) (bh_size (bi_handle index)) sizes)
                 | Some sz \<Rightarrow> (OK, smap_put (bi_file_number index) (sz + bh_size (bi_handle index)) sizes))))"

definition Size_Finish :: "(u64 \<times> u64) list \<Rightarrow> user_properties \<Rightarrow> user_properties" where
  "Size_Finish sizes props =
     (if sizes = [] then props else emplace kSizeProperty (Size_Encode sizes []) props)"

section \<open>Blob record indexes\<close>

abbreviation kValidationProperty :: string where "kValidationProperty \<equiv> ''TitanDB.blob_validation''"

definition Validation_Encode :: "(u64 \<times> u64 list) list \<Rightarrow> bytes \<Rightarrow> bytes" where
  "Validation_Encode blob_entry_indexes result =
     foldl (\<lambda>r item. foldl PutVarint64
              (PutVarint32 (PutVarint64 r (fst item)) (of_nat (length (snd item)))) (snd item))
       (PutVarint32 result (of_nat (length blob_entry_indexes))) blob_entry_indexes"

fun Validation_Decode_entries ::
    "nat \<Rightarrow> u64 \<Rightarrow> bytes \<Rightarrow> (u64 \<times> u64 list) list \<Rightarrow> ((u64 \<times> u64 list) list \<times> bytes) option" where
  "Validation_Decode_entries 0 file_number src m = Some (m, src)"
| "Validation_Decode_entries (Suc n) file_number src m =
     (case GetVarint64 src of
        None \<Rightarrow> None
      | Some (index, src) \<Rightarrow> Validation_Decode_entries n file_number src (al_push file_number index m))"

fun Validation_Decode_loop ::
    "nat \<Rightarrow> bytes \<Rightarrow> (u64 \<times> u64 list) list \<Rightarrow> ((u64 \<times> u64 list) list \<times> bytes) option" where
  "Validation_Decode_loop 0 src m = Some (m, src)"
| "Validation_Decode_loop (Suc n) src m =
     (case GetVarint64 src of
        None \<Rightarrow> None
      | Some (file_number, src) \<Rightarrow>
          (case GetVarint32 src of
             None \<Rightarrow> None
           | Some (sz, src) \<Rightarrow>
               (case Validation_Decode_entries (unat sz) file_number src m of
                  None \<Rightarrow> None
                | Some (m, src) \<Rightarrow> Validation_Decode_loop n src m)))"

definition Validation_Decode :: "bytes \<Rightarrow> (u64 \<times> u64 list) list \<Rightarrow> ((u64 \<times> u64 list) list \<times> bytes) option" where
  "Validation_Decode src m =
     (case GetVarint32 src of
        None \<Rightarrow> None
      | Some (num, src) \<Rightarrow> Validation_Decode_loop (unat num) src m)"

definition Validation_AddUserKey ::
    "bytes \<Rightarrow> EntryType \<Rightarrow> (u64 \<times> u64 list) list \<Rightarrow> status \<times> (u64 \<times> u64 list) list" where
  "Validation_AddUserKey val type m =
     (if type \<noteq> kEntryBlobIndex then (OK, m)
      else (case BlobIndex_DecodeFrom BlobIndex_zero val of
              Inl s \<Rightarrow> (s, m)
            | Inr (index, _) \<Rightarrow> (OK, al_push (bi_file_number index) (bh_index (bi_handle index)) m)))"

definition Validation_Finish :: "(u64 \<times> u64 list) list \<Rightarrow> user_properties \<Rightarrow> user_properties" where
  "Validation_Finish m props =
     (if m = [] then props else emplace kValidationProperty (Validation_Encode m []) props)"

section \<open>Extraction\<close>

text \<open>
  The properties of a table, or a null pointer.  The difference of a blob file is an
  \<open>int64_t\<close>; \<open>map[k] += diff\<close> starts from 0.  Every caller stops at an error (an assertion or a
  return), so what a failed decoding left in the map is not kept.
\<close>

definition diff_add :: "u64 \<Rightarrow> u64 \<Rightarrow> (u64 \<times> u64) list \<Rightarrow> (u64 \<times> u64) list" where
  "diff_add n d m = smap_put n ((case map_of m n of None \<Rightarrow> 0 | Some v \<Rightarrow> v) + d) m"

definition ExtractGCStatsFromTableProperty ::
    "user_properties option \<Rightarrow> bool \<Rightarrow> (u64 \<times> u64) list \<Rightarrow> status \<times> (u64 \<times> u64) list" where
  "ExtractGCStatsFromTableProperty table_properties to_add diff =
     (case table_properties of
        None \<Rightarrow> (OK, diff)
      | Some prop \<Rightarrow>
          (case map_of prop kSizeProperty of
             None \<Rightarrow> (OK, diff)
           | Some v \<Rightarrow>
               (case Size_Decode v [] of
                  None \<Rightarrow> (Corruption ''Failed to decode blob file size property.'', diff)
                | Some (sizes, _) \<Rightarrow>
                    (OK, foldl (\<lambda>m p. diff_add (fst p) (if to_add then snd p else - snd p) m) diff sizes))))"

definition ExtractBlobValidationFromTableProperty ::
    "user_properties option \<Rightarrow> (u64 \<times> u64 list) list \<Rightarrow> status \<times> (u64 \<times> u64 list) list" where
  "ExtractBlobValidationFromTableProperty table_properties m =
     (case table_properties of
        None \<Rightarrow> (OK, m)
      | Some prop \<Rightarrow>
          (case map_of prop kValidationProperty of
             None \<Rightarrow> (OK, m)
           | Some v \<Rightarrow>
               (case Validation_Decode v m of
                  None \<Rightarrow> (Corruption ''Failed to decode blob file size property.'', m)
                | Some (m', _) \<Rightarrow> (OK, m'))))"

section \<open>Round trips\<close>

definition size_item :: "u64 \<times> u64 \<Rightarrow> bytes" where
  "size_item p = EncodeVarint64 (fst p) @ EncodeVarint64 (snd p)"

definition validation_item :: "u64 \<times> u64 list \<Rightarrow> bytes" where
  "validation_item p = EncodeVarint64 (fst p) @ EncodeVarint32 (of_nat (length (snd p))) @
     concat (map EncodeVarint64 (snd p))"

lemma foldl_put_concat: "(\<And>r x. f r x = r @ g x) \<Longrightarrow> foldl f r xs = r @ concat (map g xs)"
  by (induction xs arbitrary: r) simp_all

lemma Size_Encode_parts:
  "Size_Encode m [] = EncodeVarint32 (of_nat (length m)) @ concat (map size_item m)"
  unfolding Size_Encode_def
  by (subst foldl_put_concat [where g = size_item]) (simp_all add: PutVarint64_def PutVarint32_def size_item_def)

lemma Validation_Encode_parts:
  "Validation_Encode m [] = EncodeVarint32 (of_nat (length m)) @ concat (map validation_item m)"
proof -
  have "foldl PutVarint64 r xs = r @ concat (map EncodeVarint64 xs)" for r xs
    by (rule foldl_put_concat) (simp add: PutVarint64_def)
  then show ?thesis
    unfolding Validation_Encode_def
    by (subst foldl_put_concat [where g = validation_item])
      (simp_all add: PutVarint64_def PutVarint32_def validation_item_def)
qed

lemma Size_Decode_loop_ok:
  "Size_Decode_loop (length m) (concat (map size_item m) @ rest) acc =
     Some (foldl (\<lambda>a p. smap_put (fst p) (snd p) a) acc m, rest)"
  by (induction m arbitrary: acc) (simp_all add: size_item_def codec_rt)

lemma smap_put_fold:
  "smap_wf (xs @ ys) \<Longrightarrow> foldl (\<lambda>a p. smap_put (fst p) (snd p) a) xs ys = xs @ ys"
proof (induction ys arbitrary: xs)
  case (Cons y ys)
  have "smap_put (fst y) (snd y) xs = xs @ [y]"
    using Cons.prems by (subst smap_put_last) (auto simp: sorted_wrt_append)
  with Cons.IH [of "xs @ [y]"] Cons.prems show ?case by simp
qed simp

lemma unat_length: "length (xs :: 'a list) < 2 ^ 32 \<Longrightarrow> unat (of_nat (length xs) :: u32) = length xs"
  by (simp add: unsigned_of_nat take_bit_nat_eq_self)

lemma Size_Decode_Encode:
  "smap_wf m \<Longrightarrow> length m < 2 ^ 32 \<Longrightarrow> Size_Decode (Size_Encode m []) [] = Some (m, [])"
  using Size_Decode_loop_ok [of m "[]" "[]"] smap_put_fold [of "[]" m]
  by (simp add: Size_Decode_def Size_Encode_parts codec_rt unat_length)

lemma Validation_Decode_entries_ok:
  "Validation_Decode_entries (length is) n (concat (map EncodeVarint64 is) @ rest) acc =
     Some (foldl (\<lambda>a i. al_push n i a) acc is, rest)"
  by (induction "is" arbitrary: acc) (simp_all add: codec_rt)

definition push_all :: "(u64 \<times> u64 list) list \<Rightarrow> (u64 \<times> u64 list) list \<Rightarrow> (u64 \<times> u64 list) list" where
  "push_all acc items = foldl (\<lambda>a it. foldl (\<lambda>a i. al_push (fst it) i a) a (snd it)) acc items"

lemma Validation_Decode_loop_ok:
  "list_all (\<lambda>it. length (snd it) < 2 ^ 32) items \<Longrightarrow>
   Validation_Decode_loop (length items) (concat (map validation_item items) @ rest) acc =
     Some (push_all acc items, rest)"
  by (induction items arbitrary: acc)
    (simp_all add: validation_item_def codec_rt unat_length Validation_Decode_entries_ok push_all_def)

lemma al_list_pushes:
  "al_list (foldl (\<lambda>a i. al_push n i a) acc is) k = (if k = n then al_list acc k @ is else al_list acc k)"
  by (induction "is" arbitrary: acc) auto

lemma al_list_push_all:
  "distinct (map fst items) \<Longrightarrow> al_list (push_all acc items) k = al_list acc k @ al_list items k"
proof (induction items arbitrary: acc)
  case Nil
  then show ?case by (simp add: push_all_def al_list_def)
next
  case (Cons it items)
  have "push_all acc (it # items) = push_all (foldl (\<lambda>a i. al_push (fst it) i a) acc (snd it)) items"
    by (simp add: push_all_def)
  moreover have "map_of items (fst it) = None" using Cons.prems by (simp add: map_of_eq_None_iff)
  then have "al_list items (fst it) = []" by (simp add: al_list_def)
  ultimately show ?case
    using Cons by (auto simp: al_list_pushes) (simp_all add: al_list_def)
qed

lemma Validation_Decode_Encode:
  assumes "distinct (map fst m)" "length m < 2 ^ 32" "list_all (\<lambda>it. length (snd it) < 2 ^ 32) m"
  shows "\<exists>m'. Validation_Decode (Validation_Encode m []) acc = Some (m', []) \<and>
    (\<forall>k. al_list m' k = al_list acc k @ al_list m k)"
  using Validation_Decode_loop_ok [OF assms(3), of "[]" acc] al_list_push_all [OF assms(1), of acc] assms(2)
  by (simp add: Validation_Decode_def Validation_Encode_parts codec_rt unat_length)

section \<open>What a table's properties say\<close>

text \<open>The blob indexes among the entries of a table.\<close>

definition blob_refs :: "(bytes \<times> EntryType) list \<Rightarrow> BlobIndex list" where
  "blob_refs es = concat (map (\<lambda>e. if snd e \<noteq> kEntryBlobIndex then []
     else (case BlobIndex_DecodeFrom BlobIndex_zero (fst e) of Inl _ \<Rightarrow> [] | Inr (ix, _) \<Rightarrow> [ix])) es)"

definition refs_to :: "u64 \<Rightarrow> BlobIndex list \<Rightarrow> BlobIndex list" where
  "refs_to n ixs = filter (\<lambda>ix. bi_file_number ix = n) ixs"

definition refs_size :: "BlobIndex list \<Rightarrow> u64 \<Rightarrow> u64" where
  "refs_size ixs n = sum_list (map (\<lambda>ix. bh_size (bi_handle ix)) (refs_to n ixs))"

definition refs_indexes :: "BlobIndex list \<Rightarrow> u64 \<Rightarrow> u64 list" where
  "refs_indexes ixs n = map (\<lambda>ix. bh_index (bi_handle ix)) (refs_to n ixs)"

text \<open>The table builder hands every entry to both collectors and finishes them.\<close>

definition collected_sizes :: "(bytes \<times> EntryType) list \<Rightarrow> (u64 \<times> u64) list" where
  "collected_sizes es = foldl (\<lambda>m e. snd (Size_AddUserKey (fst e) (snd e) m)) [] es"

definition collected_indexes :: "(bytes \<times> EntryType) list \<Rightarrow> (u64 \<times> u64 list) list" where
  "collected_indexes es = foldl (\<lambda>m e. snd (Validation_AddUserKey (fst e) (snd e) m)) [] es"

definition table_properties :: "(bytes \<times> EntryType) list \<Rightarrow> user_properties" where
  "table_properties es = Validation_Finish (collected_indexes es) (Size_Finish (collected_sizes es) [])"

lemma blob_refs_snoc:
  "blob_refs (es @ [e]) = blob_refs es @ (if snd e \<noteq> kEntryBlobIndex then []
     else (case BlobIndex_DecodeFrom BlobIndex_zero (fst e) of Inl _ \<Rightarrow> [] | Inr (ix, _) \<Rightarrow> [ix]))"
  by (simp add: blob_refs_def)

lemma collected_sizes_ok:
  "smap_wf (collected_sizes es) \<and>
   (\<forall>n. map_of (collected_sizes es) n =
      (if refs_to n (blob_refs es) = [] then None else Some (refs_size (blob_refs es) n)))"
proof (induction es rule: rev_induct)
  case Nil
  then show ?case by (simp add: collected_sizes_def blob_refs_def refs_to_def)
next
  case (snoc e es)
  have s: "collected_sizes (es @ [e]) = snd (Size_AddUserKey (fst e) (snd e) (collected_sizes es))"
    by (simp add: collected_sizes_def)
  show ?case
  proof (cases "snd e = kEntryBlobIndex \<and> (\<exists>ix r. BlobIndex_DecodeFrom BlobIndex_zero (fst e) = Inr (ix, r))")
    case False
    then have "blob_refs (es @ [e]) = blob_refs es" "collected_sizes (es @ [e]) = collected_sizes es"
      by (auto simp: blob_refs_snoc s Size_AddUserKey_def split: sum.splits prod.splits)
    with snoc show ?thesis by simp
  next
    case True
    then obtain ix r where ix: "snd e = kEntryBlobIndex" "BlobIndex_DecodeFrom BlobIndex_zero (fst e) = Inr (ix, r)"
      by auto
    then have b: "blob_refs (es @ [e]) = blob_refs es @ [ix]" by (simp add: blob_refs_snoc)
    have "collected_sizes (es @ [e]) = smap_put (bi_file_number ix)
        ((case map_of (collected_sizes es) (bi_file_number ix) of None \<Rightarrow> 0 | Some v \<Rightarrow> v) + bh_size (bi_handle ix))
        (collected_sizes es)"
      using ix by (simp add: s Size_AddUserKey_def split: option.split)
    with snoc b show ?thesis
      by (auto simp: smap_put_wf refs_to_def refs_size_def split: option.splits)
  qed
qed

lemma collected_indexes_ok:
  "distinct (map fst (collected_indexes es)) \<and>
   (\<forall>n. al_list (collected_indexes es) n = refs_indexes (blob_refs es) n)"
proof (induction es rule: rev_induct)
  case Nil
  then show ?case by (simp add: collected_indexes_def blob_refs_def refs_to_def refs_indexes_def al_list_def)
next
  case (snoc e es)
  have s: "collected_indexes (es @ [e]) = snd (Validation_AddUserKey (fst e) (snd e) (collected_indexes es))"
    by (simp add: collected_indexes_def)
  show ?case
  proof (cases "snd e = kEntryBlobIndex \<and> (\<exists>ix r. BlobIndex_DecodeFrom BlobIndex_zero (fst e) = Inr (ix, r))")
    case False
    then have "blob_refs (es @ [e]) = blob_refs es" "collected_indexes (es @ [e]) = collected_indexes es"
      by (auto simp: blob_refs_snoc s Validation_AddUserKey_def split: sum.splits prod.splits)
    with snoc show ?thesis by simp
  next
    case True
    then obtain ix r where ix: "snd e = kEntryBlobIndex" "BlobIndex_DecodeFrom BlobIndex_zero (fst e) = Inr (ix, r)"
      by auto
    then have "blob_refs (es @ [e]) = blob_refs es @ [ix]"
      "collected_indexes (es @ [e]) = al_push (bi_file_number ix) (bh_index (bi_handle ix)) (collected_indexes es)"
      by (simp_all add: blob_refs_snoc s Validation_AddUserKey_def)
    with snoc show ?thesis
      by (simp add: refs_indexes_def refs_to_def al_push_def distinct_emplace)
        (simp add: refs_indexes_def refs_to_def flip: al_push_def)
  qed
qed

definition diff_val :: "(u64 \<times> u64) list \<Rightarrow> u64 \<Rightarrow> u64" where
  "diff_val m n = (case map_of m n of None \<Rightarrow> 0 | Some v \<Rightarrow> v)"

lemma diff_add_ok:
  "diff_val (diff_add n d m) k = (if k = n then diff_val m k + d else diff_val m k)"
  "fst ` set (diff_add n d m) = insert n (fst ` set m)"
  "smap_wf m \<Longrightarrow> smap_wf (diff_add n d m)"
  by (simp_all add: diff_add_def diff_val_def smap_put_wf)

lemma diff_add_fold:
  assumes "distinct (map fst xs)"
  shows "diff_val (foldl (\<lambda>m p. diff_add (fst p) (g (snd p)) m) m xs) k =
      diff_val m k + (case map_of xs k of None \<Rightarrow> 0 | Some v \<Rightarrow> g v)"
    and "fst ` set (foldl (\<lambda>m p. diff_add (fst p) (g (snd p)) m) m xs) = fst ` set m \<union> fst ` set xs"
    and "smap_wf m \<Longrightarrow> smap_wf (foldl (\<lambda>m p. diff_add (fst p) (g (snd p)) m) m xs)"
  using assms
proof (induction xs arbitrary: m)
  case (Cons p xs)
  {
    case 1
    have "map_of xs (fst p) = None" using 1 by (simp add: map_of_eq_None_iff)
    with Cons.IH(1) [of "diff_add (fst p) (g (snd p)) m"] 1 show ?case by (auto simp: diff_add_ok)
  next
    case 2
    with Cons.IH(2) [of "diff_add (fst p) (g (snd p)) m"] show ?case by (simp add: diff_add_ok)
  next
    case 3
    with Cons.IH(3) [of "diff_add (fst p) (g (snd p)) m"] show ?case by (simp add: diff_add_ok)
  }
qed auto

lemma length_foldl_le:
  assumes "\<And>m e. length (f m e) \<le> Suc (length m)"
  shows "length (foldl f m es) \<le> length m + length es"
proof (induction es arbitrary: m)
  case (Cons e es)
  from Cons.IH [of "f m e"] assms [of m e] show ?case by simp
qed simp

text \<open>Tables small enough for the 32-bit counts of the encodings.\<close>

definition table_fits :: "(bytes \<times> EntryType) list \<Rightarrow> bool" where
  "table_fits es \<longleftrightarrow> length es < 2 ^ 32"

lemma length_collected:
  "length (collected_sizes es) \<le> length es" "length (collected_indexes es) \<le> length es"
  "list_all (\<lambda>it. length (snd it) \<le> length es) (collected_indexes es)"
proof -
  have p: "length (smap_put k v xs) \<le> Suc (length xs)" for k :: u64 and v :: u64 and xs
    by (induction k v xs rule: smap_put.induct) auto
  have "length (snd (Size_AddUserKey v t m)) \<le> Suc (length m)" for v t m
    using p by (auto simp: Size_AddUserKey_def split: sum.splits option.splits)
  then have "length (foldl (\<lambda>m e. snd (Size_AddUserKey (fst e) (snd e) m)) m es) \<le> length m + length es" for m
    by (intro length_foldl_le)
  from this [of "[]"] show "length (collected_sizes es) \<le> length es" by (simp add: collected_sizes_def)
  have q: "length (al_push k v xs) \<le> Suc (length xs)" for k :: u64 and v :: u64 and xs
    by (simp add: al_push_def emplace_def al_modify_def)
  have "length (snd (Validation_AddUserKey v t m)) \<le> Suc (length m)" for v t m
    using q by (auto simp: Validation_AddUserKey_def split: sum.splits)
  then have "length (foldl (\<lambda>m e. snd (Validation_AddUserKey (fst e) (snd e) m)) m es) \<le> length m + length es" for m
    by (intro length_foldl_le)
  from this [of "[]"] show "length (collected_indexes es) \<le> length es" by (simp add: collected_indexes_def)
  have "length (refs_indexes (blob_refs es) n) \<le> length es" for n
  proof -
    have "length (blob_refs es) \<le> length es"
      by (induction es) (auto simp: blob_refs_def split: sum.splits prod.splits)
    then show ?thesis
      by (simp add: refs_indexes_def refs_to_def) (meson le_trans length_filter_le)
  qed
  moreover have "length (snd it) = length (refs_indexes (blob_refs es) (fst it))" if "it \<in> set (collected_indexes es)" for it
    using collected_indexes_ok [of es] that by (metis al_list_def map_of_eq_Some_iff option.simps(5) prod.collapse)
  ultimately show "list_all (\<lambda>it. length (snd it) \<le> length es) (collected_indexes es)"
    by (simp add: list_all_iff)
qed

lemma table_properties_lookup:
  "map_of (table_properties es) kSizeProperty =
     (if collected_sizes es = [] then None else Some (Size_Encode (collected_sizes es) []))"
  "map_of (table_properties es) kValidationProperty =
     (if collected_indexes es = [] then None else Some (Validation_Encode (collected_indexes es) []))"
  by (simp_all add: table_properties_def Validation_Finish_def Size_Finish_def emplace_def)

lemma Extract_sizes:
  assumes "table_fits es"
  obtains diff' where "ExtractGCStatsFromTableProperty (Some (table_properties es)) to_add diff = (OK, diff')"
    "\<And>n. diff_val diff' n = (if to_add then diff_val diff n + refs_size (blob_refs es) n
                              else diff_val diff n - refs_size (blob_refs es) n)"
    "fst ` set diff' = fst ` set diff \<union> bi_file_number ` set (blob_refs es)"
    "smap_wf diff \<Longrightarrow> smap_wf diff'"
proof -
  let ?s = "collected_sizes es" and ?g = "\<lambda>v :: u64. if to_add then v else - v"
  have wf: "smap_wf ?s" and mo: "\<And>n. map_of ?s n =
      (if refs_to n (blob_refs es) = [] then None else Some (refs_size (blob_refs es) n))"
    using collected_sizes_ok [of es] by blast+
  have len: "length ?s < 2 ^ 32" using assms length_collected(1) [of es] by (simp add: table_fits_def)
  have keys: "fst ` set ?s = bi_file_number ` set (blob_refs es)"
  proof (rule set_eqI)
    fix n
    have "n \<in> fst ` set ?s \<longleftrightarrow> refs_to n (blob_refs es) \<noteq> []"
      using mo [of n] by (metis map_of_eq_None_iff option.distinct(1))
    also have "\<dots> \<longleftrightarrow> n \<in> bi_file_number ` set (blob_refs es)"
      by (force simp: refs_to_def filter_empty_conv)
    finally show "n \<in> fst ` set ?s \<longleftrightarrow> n \<in> bi_file_number ` set (blob_refs es)" .
  qed
  have z: "refs_size (blob_refs es) n = 0" if "refs_to n (blob_refs es) = []" for n
    using that by (simp add: refs_size_def)
  let ?d = "foldl (\<lambda>m p. diff_add (fst p) (?g (snd p)) m) diff ?s"
  have "ExtractGCStatsFromTableProperty (Some (table_properties es)) to_add diff = (OK, ?d)"
    using Size_Decode_Encode [OF wf len]
    by (simp add: ExtractGCStatsFromTableProperty_def table_properties_lookup)
  then show thesis
    using that [of ?d] diff_add_fold [OF smap_wf_distinct [OF wf], where g = ?g and m = diff] keys mo z by simp
qed

lemma Extract_indexes:
  assumes "table_fits es"
  obtains m' where "ExtractBlobValidationFromTableProperty (Some (table_properties es)) m = (OK, m')"
    "\<And>n. al_list m' n = al_list m n @ refs_indexes (blob_refs es) n"
proof (cases "collected_indexes es = []")
  case True
  then have "refs_indexes (blob_refs es) n = []" for n
    using collected_indexes_ok [of es] by (metis al_list_def map_of.simps(1) option.simps(4))
  with True that [of m] show thesis
    by (simp add: ExtractBlobValidationFromTableProperty_def table_properties_lookup)
next
  case False
  have "length (collected_indexes es) < 2 ^ 32" "list_all (\<lambda>it. length (snd it) < 2 ^ 32) (collected_indexes es)"
    using assms length_collected(2,3) [of es] by (auto simp: table_fits_def list_all_iff)
  with False collected_indexes_ok [of es] Validation_Decode_Encode [of "collected_indexes es" m] that show thesis
    by (auto simp: ExtractBlobValidationFromTableProperty_def table_properties_lookup)
qed

section \<open>Properties\<close>

text \<open>C25: What the collectors write is what the extraction reads.  For every table of fewer than
  \<open>2 ^ 32\<close> entries, whatever its entries are: extracting the size property adds to (or subtracts
  from) the difference of every blob file exactly the bytes of the table's blob indexes into that
  file, modulo \<open>2 ^ 64\<close>, and extracting the validation property appends exactly their record
  indexes, in order.\<close>

theorem table_properties_exact:
  assumes "length es < 2 ^ 32"
  shows "\<exists>diff' m'.
    ExtractGCStatsFromTableProperty (Some (table_properties es)) to_add diff = (OK, diff') \<and>
    (\<forall>n. diff_val diff' n = (if to_add then diff_val diff n + refs_size (blob_refs es) n
                              else diff_val diff n - refs_size (blob_refs es) n)) \<and>
    fst ` set diff' = fst ` set diff \<union> bi_file_number ` set (blob_refs es) \<and>
    ExtractBlobValidationFromTableProperty (Some (table_properties es)) m = (OK, m') \<and>
    (\<forall>n. al_list m' n = al_list m n @ refs_indexes (blob_refs es) n)"
proof -
  have fits: "table_fits es" using assms by (simp add: table_fits_def)
  obtain diff' where "ExtractGCStatsFromTableProperty (Some (table_properties es)) to_add diff = (OK, diff')"
    "\<And>n. diff_val diff' n = (if to_add then diff_val diff n + refs_size (blob_refs es) n
                              else diff_val diff n - refs_size (blob_refs es) n)"
    "fst ` set diff' = fst ` set diff \<union> bi_file_number ` set (blob_refs es)"
    by (rule Extract_sizes [OF fits]) (rule that; (assumption | blast))
  moreover obtain m' where "ExtractBlobValidationFromTableProperty (Some (table_properties es)) m = (OK, m')"
    "\<And>n. al_list m' n = al_list m n @ refs_indexes (blob_refs es) n"
    by (rule Extract_indexes [OF fits]) (rule that; (assumption | blast))
  ultimately show ?thesis by blast
qed

definition demo_index :: BlobIndex where
  "demo_index = \<lparr>bi_file_number = 3, bi_handle = \<lparr>bh_offset = 12, bh_size = 40, bh_index = 1\<rparr>,
     bi_old_file_number = 0, bi_old_handle = BlobHandle_zero\<rparr>"

lemma demo_index_refs:
  "blob_refs [(BlobIndex_EncodeTo [] demo_index, kEntryBlobIndex), ([0], kEntryPut)] = [demo_index]"
proof -
  have "BlobIndex_DecodeFrom BlobIndex_zero (BlobIndex_EncodeTo [] demo_index) = Inr (demo_index, [])"
    unfolding BlobIndex_Decode_Encode by (simp add: demo_index_def)
  then show ?thesis by (simp add: blob_refs_def)
qed

theorem table_properties_exact_witness:
  "\<exists>diff'. ExtractGCStatsFromTableProperty (Some (table_properties
       [(BlobIndex_EncodeTo [] demo_index, kEntryBlobIndex), ([0], kEntryPut)])) False [] = (OK, diff') \<and>
     diff_val diff' 3 = - 40"
proof -
  let ?es = "[(BlobIndex_EncodeTo [] demo_index, kEntryBlobIndex), ([0], kEntryPut)]"
  have "length ?es < 2 ^ 32" by simp
  from table_properties_exact [OF this, of False "[]" "[]"] obtain diff' where
    d: "ExtractGCStatsFromTableProperty (Some (table_properties ?es)) False [] = (OK, diff')"
    "diff_val diff' 3 = diff_val [] 3 - refs_size (blob_refs ?es) 3" by auto
  have "diff_val diff' 3 = - 40"
    unfolding d(2) demo_index_refs by (simp add: diff_val_def refs_size_def refs_to_def demo_index_def)
  with d(1) show ?thesis by blast
qed

end
