(* ===== verification/Titan_Scheduler.thy ===== *)
theory Titan_Scheduler
  imports Titan_Prelude
begin

text \<open>
  Scheduling of background garbage collections and its interplay with dropping column families
  and closing the database (\<open>db_impl.h\<close>, \<open>db_impl_gc.cc\<close>, \<open>db_impl.cc\<close>).  Every operation is one
  critical section under \<open>mutex_\<close>; the steps of the threads interleave at the places where the
  mutex is released: while a job runs, while a drop works on the base database, and in the waits.
  Jobs in the thread pool that have not entered their critical section, and drop requests that
  wait or work, are counted explicitly.
\<close>

section \<open>State and operations\<close>

record Scheduler =
  sc_queue :: "u32 list"
  sc_unscheduled :: int
  sc_scheduled :: int
  sc_running :: int
  sc_drop_requests :: int
  sc_shutdown :: bool
  sc_disabled :: bool
  sc_max :: int
  sc_pool :: nat
  sc_drop_waiting :: nat
  sc_drop_working :: nat

definition Scheduler_new :: "bool \<Rightarrow> int \<Rightarrow> Scheduler" where
  "Scheduler_new disable_background_gc max_background_gc =
     \<lparr>sc_queue = [], sc_unscheduled = 0, sc_scheduled = 0, sc_running = 0, sc_drop_requests = 0,
      sc_shutdown = False, sc_disabled = disable_background_gc, sc_max = max_background_gc,
      sc_pool = 0, sc_drop_waiting = 0, sc_drop_working = 0\<rparr>"

definition AddToGCQueue :: "u32 \<Rightarrow> Scheduler \<Rightarrow> Scheduler" where
  "AddToGCQueue column_family_id s =
     s\<lparr>sc_unscheduled := sc_unscheduled s + 1, sc_queue := sc_queue s @ [column_family_id]\<rparr>"

definition PopFirstFromGCQueue :: "Scheduler \<Rightarrow> (u32 \<times> Scheduler) option" where
  "PopFirstFromGCQueue s =
     (case sc_queue s of [] \<Rightarrow> None | cf # q \<Rightarrow> Some (cf, s\<lparr>sc_queue := q\<rparr>))"

text \<open>The loop of \<open>MaybeScheduleGC\<close>; \<open>SubmitJob\<close> adds a job to the pool.\<close>

function schedule_loop :: "Scheduler \<Rightarrow> Scheduler" where
  "schedule_loop s =
     (if sc_unscheduled s > 0 \<and> sc_scheduled s < sc_max s
      then schedule_loop (s\<lparr>sc_unscheduled := sc_unscheduled s - 1, sc_scheduled := sc_scheduled s + 1,
                            sc_pool := Suc (sc_pool s)\<rparr>)
      else s)"
  by pat_completeness auto
termination
  by (relation "measure (\<lambda>s. nat (sc_unscheduled s))") auto

declare schedule_loop.simps [simp del]

definition MaybeScheduleGC :: "Scheduler \<Rightarrow> Scheduler" where
  "MaybeScheduleGC s =
     (if sc_disabled s then s else if sc_shutdown s then s else schedule_loop s)"

text \<open>
  The beginning of \<open>BackgroundCallGC\<close>: \<open>None\<close> while the job waits for the drop requests.  The
  column family is the one the job collects; an empty queue gives none.
\<close>

definition BackgroundCallGC_begin :: "Scheduler \<Rightarrow> (u32 option \<times> Scheduler) option" where
  "BackgroundCallGC_begin s =
     (if sc_drop_requests s > 0 then None
      else
        (let s = s\<lparr>sc_running := sc_running s + 1, sc_pool := sc_pool s - 1\<rparr> in
         case PopFirstFromGCQueue s of
           None \<Rightarrow> Some (None, s)
         | Some (cf, s) \<Rightarrow> Some (Some cf, s)))"

text \<open>The end of \<open>BackgroundGC\<close>: the column family is queued again when data remained.\<close>

definition BackgroundGC_trigger :: "bool \<Rightarrow> u32 \<Rightarrow> Scheduler \<Rightarrow> Scheduler" where
  "BackgroundGC_trigger trigger_next cf s =
     (if trigger_next \<and> sc_scheduled s - 1 + int (length (sc_queue s)) < 2 * sc_max s
      then AddToGCQueue cf s else s)"

text \<open>The end of \<open>BackgroundCallGC\<close>, and whether it signals the waiting threads.\<close>

definition BackgroundCallGC_end :: "Scheduler \<Rightarrow> bool \<times> Scheduler" where
  "BackgroundCallGC_end s =
     (let s = s\<lparr>sc_running := sc_running s - 1, sc_scheduled := sc_scheduled s - 1\<rparr>;
          s = MaybeScheduleGC s
      in (sc_scheduled s = 0 \<or> sc_running s = 0, s))"

text \<open>
  \<open>DropColumnFamilies\<close>: entering, passing the wait, and leaving after the base database has
  dropped the column families; when the base database fails nothing is undone.
\<close>

definition Drop_enter :: "Scheduler \<Rightarrow> Scheduler" where
  "Drop_enter s = s\<lparr>sc_drop_requests := sc_drop_requests s + 1, sc_drop_waiting := Suc (sc_drop_waiting s)\<rparr>"

definition Drop_proceed :: "Scheduler \<Rightarrow> Scheduler option" where
  "Drop_proceed s =
     (if sc_running s > 0 then None
      else Some (s\<lparr>sc_drop_waiting := sc_drop_waiting s - 1, sc_drop_working := Suc (sc_drop_working s)\<rparr>))"

definition Drop_leave :: "bool \<Rightarrow> Scheduler \<Rightarrow> bool \<times> Scheduler" where
  "Drop_leave base_ok s =
     (let s = s\<lparr>sc_drop_working := sc_drop_working s - 1\<rparr> in
      if base_ok then
        (let s = s\<lparr>sc_drop_requests := sc_drop_requests s - 1\<rparr> in (sc_drop_requests s = 0, s))
      else (False, s))"

definition CloseImpl_begin :: "Scheduler \<Rightarrow> Scheduler" where
  "CloseImpl_begin s = s\<lparr>sc_shutdown := True\<rparr>"

text \<open>What the last wait of \<open>CloseImpl\<close> waits for.\<close>

definition CloseImpl_ready :: "Scheduler \<Rightarrow> bool" where
  "CloseImpl_ready s \<longleftrightarrow> \<not> sc_scheduled s > 0"

section \<open>Steps\<close>

text \<open>\<open>sched_step sig s s'\<close>: a thread does one critical section; \<open>sig\<close> when it signals.\<close>

inductive sched_step :: "bool \<Rightarrow> Scheduler \<Rightarrow> Scheduler \<Rightarrow> bool" where
  Enqueue: "sched_step False s (MaybeScheduleGC (AddToGCQueue cf s))"
| Begin: "sc_pool s > 0 \<Longrightarrow> BackgroundCallGC_begin s = Some (cf, s') \<Longrightarrow> sched_step False s s'"
| End: "sc_running s > 0 \<Longrightarrow> BackgroundCallGC_end (BackgroundGC_trigger trig cf s) = (sig, s') \<Longrightarrow>
    sched_step sig s s'"
| DropEnter: "sched_step False s (Drop_enter s)"
| DropProceed: "sc_drop_waiting s > 0 \<Longrightarrow> Drop_proceed s = Some s' \<Longrightarrow> sched_step False s s'"
| DropLeave: "sc_drop_working s > 0 \<Longrightarrow> Drop_leave True s = (sig, s') \<Longrightarrow> sched_step sig s s'"
| DropFail: "sc_drop_working s > 0 \<Longrightarrow> Drop_leave False s = (sig, s') \<Longrightarrow> sched_step sig s s'"
| Close: "sched_step False s (CloseImpl_begin s)"

inductive sched_reach :: "bool \<Rightarrow> int \<Rightarrow> Scheduler \<Rightarrow> bool" for dis mx where
  Start: "sched_reach dis mx (Scheduler_new dis mx)"
| Step: "sched_reach dis mx s \<Longrightarrow> sched_step sig s s' \<Longrightarrow> sched_reach dis mx s'"

inductive_cases sched_stepE: "sched_step sig s s'"

section \<open>Invariant\<close>

definition sched_inv :: "bool \<Rightarrow> int \<Rightarrow> Scheduler \<Rightarrow> bool" where
  "sched_inv dis mx s \<longleftrightarrow>
     sc_disabled s = dis \<and> sc_max s = mx \<and> 0 \<le> sc_unscheduled s \<and> 0 \<le> sc_running s \<and>
     sc_scheduled s = int (sc_pool s) + sc_running s \<and> sc_scheduled s \<le> max 0 mx \<and>
     int (length (sc_queue s)) = sc_unscheduled s + int (sc_pool s) \<and>
     sc_drop_requests s \<ge> int (sc_drop_waiting s) + int (sc_drop_working s) \<and>
     (sc_drop_working s > 0 \<longrightarrow> sc_running s = 0) \<and>
     (\<not> dis \<and> \<not> sc_shutdown s \<and> sc_unscheduled s > 0 \<longrightarrow> mx \<le> sc_scheduled s)"

lemma schedule_loop_ok:
  assumes "0 \<le> sc_unscheduled s"
  shows "schedule_loop s = s\<lparr>sc_unscheduled := sc_unscheduled (schedule_loop s),
       sc_scheduled := sc_scheduled s + (sc_unscheduled s - sc_unscheduled (schedule_loop s)),
       sc_pool := sc_pool s + nat (sc_unscheduled s - sc_unscheduled (schedule_loop s))\<rparr> \<and>
     0 \<le> sc_unscheduled (schedule_loop s) \<and> sc_unscheduled (schedule_loop s) \<le> sc_unscheduled s \<and>
     sc_scheduled (schedule_loop s) \<le> max (sc_scheduled s) (sc_max s) \<and>
     (sc_unscheduled (schedule_loop s) > 0 \<longrightarrow> sc_max s \<le> sc_scheduled (schedule_loop s))"
  using assms
proof (induction s rule: schedule_loop.induct)
  case (1 s)
  show ?case
  proof (cases "sc_unscheduled s > 0 \<and> sc_scheduled s < sc_max s")
    case False
    then have "schedule_loop s = s" by (subst schedule_loop.simps) auto
    with False 1(2) show ?thesis by auto
  next
    case True
    let ?s = "s\<lparr>sc_unscheduled := sc_unscheduled s - 1, sc_scheduled := sc_scheduled s + 1, sc_pool := Suc (sc_pool s)\<rparr>"
    have e: "schedule_loop s = schedule_loop ?s" using True by (subst schedule_loop.simps) simp
    have "0 \<le> sc_unscheduled ?s" using True by simp
    from 1(1) [OF True this] True show ?thesis
      unfolding e by (cases s; cases "schedule_loop ?s") (auto simp: nat_diff_distrib)
  qed
qed

lemma MaybeScheduleGC_ok:
  assumes u: "0 \<le> sc_unscheduled s"
  obtains k where "MaybeScheduleGC s = s\<lparr>sc_unscheduled := sc_unscheduled s - int k,
      sc_scheduled := sc_scheduled s + int k, sc_pool := sc_pool s + k\<rparr>"
    "int k \<le> sc_unscheduled s" "k > 0 \<Longrightarrow> sc_scheduled s + int k \<le> sc_max s"
    "\<not> sc_disabled s \<Longrightarrow> \<not> sc_shutdown s \<Longrightarrow> sc_unscheduled s > int k \<Longrightarrow> sc_max s \<le> sc_scheduled s + int k"
proof (cases "sc_disabled s \<or> sc_shutdown s")
  case True
  then show thesis using that [of 0] u by (auto simp: MaybeScheduleGC_def)
next
  case False
  note ok = schedule_loop_ok [OF u]
  let ?k = "nat (sc_unscheduled s - sc_unscheduled (schedule_loop s))"
  have e: "schedule_loop s = s\<lparr>sc_unscheduled := sc_unscheduled s - int ?k,
      sc_scheduled := sc_scheduled s + int ?k, sc_pool := sc_pool s + ?k\<rparr>"
    using ok by simp
  have sch: "sc_scheduled (schedule_loop s) = sc_scheduled s + int ?k" by (subst e) simp
  have un: "sc_unscheduled (schedule_loop s) = sc_unscheduled s - int ?k" by (subst e) simp
  show thesis
  proof (rule that [of ?k])
    show "MaybeScheduleGC s = s\<lparr>sc_unscheduled := sc_unscheduled s - int ?k,
      sc_scheduled := sc_scheduled s + int ?k, sc_pool := sc_pool s + ?k\<rparr>"
      using False e by (simp add: MaybeScheduleGC_def)
    show "int ?k \<le> sc_unscheduled s" using ok by simp
    show "sc_scheduled s + int ?k \<le> sc_max s" if "?k > 0" using ok sch that by linarith
    show "sc_max s \<le> sc_scheduled s + int ?k" if "sc_unscheduled s > int ?k" using ok sch un that by linarith
  qed
qed

lemma MaybeScheduleGC_inv:
  assumes "sc_disabled s = dis" "sc_max s = mx" "0 \<le> sc_unscheduled s" "0 \<le> sc_running s"
    "sc_scheduled s = int (sc_pool s) + sc_running s" "sc_scheduled s \<le> max 0 mx"
    "int (length (sc_queue s)) = sc_unscheduled s + int (sc_pool s)"
    "sc_drop_requests s \<ge> int (sc_drop_waiting s) + int (sc_drop_working s)"
    "sc_drop_working s > 0 \<longrightarrow> sc_running s = 0"
  shows "sched_inv dis mx (MaybeScheduleGC s)"
proof -
  obtain k where k: "MaybeScheduleGC s = s\<lparr>sc_unscheduled := sc_unscheduled s - int k,
      sc_scheduled := sc_scheduled s + int k, sc_pool := sc_pool s + k\<rparr>"
    "int k \<le> sc_unscheduled s" "k > 0 \<Longrightarrow> sc_scheduled s + int k \<le> sc_max s"
    "\<not> sc_disabled s \<Longrightarrow> \<not> sc_shutdown s \<Longrightarrow> sc_unscheduled s > int k \<Longrightarrow> sc_max s \<le> sc_scheduled s + int k"
    using MaybeScheduleGC_ok [OF assms(3)] by metis
  show ?thesis using assms k(2-4) unfolding k(1) sched_inv_def by (cases "k > 0") auto
qed

lemma sched_step_inv:
  assumes "sched_step sig s s'" and "sched_inv dis mx s"
  shows "sched_inv dis mx s'"
  using assms
proof cases
  case (Enqueue cf)
  show ?thesis
    unfolding Enqueue(2)
    by (rule MaybeScheduleGC_inv) (use assms(2) in \<open>auto simp: sched_inv_def AddToGCQueue_def\<close>)
next
  case (Begin cf)
  with assms(2) show ?thesis
    by (auto simp: sched_inv_def BackgroundCallGC_begin_def PopFirstFromGCQueue_def Let_def
        split: if_splits list.splits)
next
  case (End trig cf)
  let ?t = "BackgroundGC_trigger trig cf s"
  have s': "s' = MaybeScheduleGC (?t\<lparr>sc_running := sc_running ?t - 1, sc_scheduled := sc_scheduled ?t - 1\<rparr>)"
    using End(2) by (simp add: BackgroundCallGC_end_def Let_def)
  show ?thesis
    unfolding s'
    by (rule MaybeScheduleGC_inv)
      (use assms(2) End(1) in \<open>auto simp: sched_inv_def BackgroundGC_trigger_def AddToGCQueue_def\<close>)
next
  case DropEnter
  with assms(2) show ?thesis by (auto simp: sched_inv_def Drop_enter_def)
next
  case DropProceed
  with assms(2) show ?thesis by (auto simp: sched_inv_def Drop_proceed_def split: if_splits)
next
  case DropLeave
  with assms(2) show ?thesis by (auto simp: sched_inv_def Drop_leave_def Let_def)
next
  case DropFail
  with assms(2) show ?thesis by (auto simp: sched_inv_def Drop_leave_def Let_def)
next
  case Close
  with assms(2) show ?thesis by (auto simp: sched_inv_def CloseImpl_begin_def)
qed

lemma sched_reach_inv: "sched_reach dis mx s \<Longrightarrow> sched_inv dis mx s"
proof (induction rule: sched_reach.induct)
  case Start
  then show ?case by (simp add: sched_inv_def Scheduler_new_def)
next
  case (Step s sig s')
  then show ?case using sched_step_inv by blast
qed

section \<open>A drop that fails\<close>

text \<open>A request that is counted but neither waits nor works.\<close>

definition leaked :: "Scheduler \<Rightarrow> bool" where
  "leaked s \<longleftrightarrow> sc_drop_requests s > int (sc_drop_waiting s) + int (sc_drop_working s)"

lemma MaybeScheduleGC_fields:
  "sc_drop_requests (MaybeScheduleGC s) = sc_drop_requests s" "sc_drop_waiting (MaybeScheduleGC s) = sc_drop_waiting s"
  "sc_drop_working (MaybeScheduleGC s) = sc_drop_working s" "sc_running (MaybeScheduleGC s) = sc_running s"
  "sc_pool s \<le> sc_pool (MaybeScheduleGC s)"
proof -
  have "sc_drop_requests (schedule_loop s) = sc_drop_requests s \<and> sc_drop_waiting (schedule_loop s) = sc_drop_waiting s \<and>
    sc_drop_working (schedule_loop s) = sc_drop_working s \<and> sc_running (schedule_loop s) = sc_running s \<and>
    sc_pool s \<le> sc_pool (schedule_loop s)"
    by (induction s rule: schedule_loop.induct) (subst (1 2 3 4 5) schedule_loop.simps, auto)
  then show "sc_drop_requests (MaybeScheduleGC s) = sc_drop_requests s" "sc_drop_waiting (MaybeScheduleGC s) = sc_drop_waiting s"
    "sc_drop_working (MaybeScheduleGC s) = sc_drop_working s" "sc_running (MaybeScheduleGC s) = sc_running s"
    "sc_pool s \<le> sc_pool (MaybeScheduleGC s)"
    by (simp_all add: MaybeScheduleGC_def)
qed

lemma leaked_step:
  assumes "sched_step sig s s'" and "leaked s"
  shows "leaked s' \<and> sc_pool s \<le> sc_pool s'"
  using assms
proof cases
  case (Begin cf)
  with assms(2) show ?thesis by (auto simp: leaked_def BackgroundCallGC_begin_def)
next
  case (End trig cf)
  then show ?thesis
    using assms(2) MaybeScheduleGC_fields(5)
    by (auto simp: leaked_def BackgroundCallGC_end_def BackgroundGC_trigger_def AddToGCQueue_def Let_def
        MaybeScheduleGC_fields split: if_splits intro: order_trans [OF _ MaybeScheduleGC_fields(5)])
next
  case (Enqueue cf)
  with assms(2) show ?thesis
    by (auto simp: leaked_def AddToGCQueue_def MaybeScheduleGC_fields intro: order_trans [OF _ MaybeScheduleGC_fields(5)])
qed (use assms(2) in \<open>auto simp: leaked_def Drop_enter_def Drop_proceed_def Drop_leave_def CloseImpl_begin_def
      Let_def split: if_splits\<close>)

lemma leaked_run:
  "(\<lambda>a b. \<exists>sig. sched_step sig a b)\<^sup>*\<^sup>* s s' \<Longrightarrow> leaked s \<Longrightarrow> leaked s' \<and> sc_pool s \<le> sc_pool s'"
proof (induction rule: rtranclp_induct)
  case (step t u)
  then obtain sig where "sched_step sig t u" by auto
  from leaked_step [OF this] step show ?case by auto
qed simp

section \<open>Properties\<close>

text \<open>C17: In every reachable state of the scheduler, whatever the interleaving: at most
  \<open>max_background_gc\<close> collections are scheduled and the running ones are among them; no collection
  runs while a column family is being dropped; every queued column family has exactly one
  scheduled or still unscheduled job, so a job that starts finds a column family to collect; and
  unless background collection is off or the database closes, a request is left unscheduled only
  when all slots are taken.\<close>

theorem scheduler_safe:
  assumes "sched_reach dis mx s" and "0 \<le> mx"
  shows "0 \<le> sc_running s \<and> sc_running s \<le> sc_scheduled s \<and> sc_scheduled s \<le> mx \<and>
    (sc_drop_working s > 0 \<longrightarrow> sc_running s = 0) \<and>
    int (length (sc_queue s)) = sc_unscheduled s + int (sc_pool s) \<and>
    (sc_pool s > 0 \<longrightarrow> sc_drop_requests s \<le> 0 \<longrightarrow>
       (\<exists>cf s'. BackgroundCallGC_begin s = Some (Some cf, s') \<and> cf = hd (sc_queue s))) \<and>
    (\<not> dis \<and> \<not> sc_shutdown s \<and> sc_unscheduled s > 0 \<longrightarrow> sc_scheduled s = mx)"
proof -
  have i: "sched_inv dis mx s" by (rule sched_reach_inv [OF assms(1)])
  have "\<exists>cf s'. BackgroundCallGC_begin s = Some (Some cf, s') \<and> cf = hd (sc_queue s)"
    if "sc_pool s > 0" "sc_drop_requests s \<le> 0"
  proof -
    have "sc_queue s \<noteq> []" using i that(1) by (auto simp: sched_inv_def)
    then show ?thesis using that(2)
      by (cases "sc_queue s") (auto simp: BackgroundCallGC_begin_def PopFirstFromGCQueue_def)
  qed
  with i assms(2) show ?thesis by (auto simp: sched_inv_def)
qed

lemma demo_enqueue:
  "MaybeScheduleGC (AddToGCQueue 7 (Scheduler_new False 1)) =
     (Scheduler_new False 1)\<lparr>sc_queue := [7], sc_scheduled := 1, sc_pool := 1\<rparr>"
  by (simp add: MaybeScheduleGC_def AddToGCQueue_def Scheduler_new_def schedule_loop.simps)

theorem scheduler_safe_witness:
  "\<exists>cf s'. BackgroundCallGC_begin (MaybeScheduleGC (AddToGCQueue 7 (Scheduler_new False 1))) = Some (Some cf, s') \<and> cf = 7"
proof -
  let ?s = "MaybeScheduleGC (AddToGCQueue 7 (Scheduler_new False 1))"
  have "sched_reach False 1 ?s" by (rule sched_reach.Step [OF sched_reach.Start sched_step.Enqueue])
  from scheduler_safe [OF this] show ?thesis unfolding demo_enqueue by (simp add: Scheduler_new_def)
qed

text \<open>C29: No wake-up is lost.  A step that makes the condition of one of the three waits true
  (no running collection, no drop request, no scheduled collection) signals the condition
  variable.\<close>

theorem wakeups_signalled:
  assumes "sched_step sig s s'"
    and "sc_running s > 0 \<and> \<not> sc_running s' > 0 \<or> sc_drop_requests s > 0 \<and> \<not> sc_drop_requests s' > 0 \<or>
      sc_scheduled s > 0 \<and> sc_scheduled s' = 0"
    and "sched_inv dis mx s"
  shows "sig"
proof -
  have i: "sched_inv dis mx s'" by (rule sched_step_inv [OF assms(1,3)])
  show ?thesis
    using assms(1)
  proof cases
    case (Enqueue cf)
    have "0 \<le> sc_unscheduled (AddToGCQueue cf s)" using assms(3) by (simp add: sched_inv_def AddToGCQueue_def)
    then obtain k where "MaybeScheduleGC (AddToGCQueue cf s) = (AddToGCQueue cf s)\<lparr>
        sc_unscheduled := sc_unscheduled (AddToGCQueue cf s) - int k,
        sc_scheduled := sc_scheduled (AddToGCQueue cf s) + int k, sc_pool := sc_pool (AddToGCQueue cf s) + k\<rparr>"
      by (metis MaybeScheduleGC_ok)
    with assms(2) show ?thesis unfolding Enqueue(2) by (auto simp: AddToGCQueue_def)
  next
    case (End trig cf)
    let ?t = "BackgroundGC_trigger trig cf s"
    have sig: "sig \<longleftrightarrow> sc_scheduled s' = 0 \<or> sc_running s' = 0"
      using End(2) by (auto simp: BackgroundCallGC_end_def Let_def)
    have "sc_drop_requests s' = sc_drop_requests s"
      using End(2) by (auto simp: BackgroundCallGC_end_def BackgroundGC_trigger_def AddToGCQueue_def Let_def
          MaybeScheduleGC_fields split: if_splits)
    with sig assms(2) i show ?thesis by (auto simp: sched_inv_def)
  next
    case DropLeave
    then have "sig \<longleftrightarrow> sc_drop_requests s' = 0" "sc_running s' = sc_running s" "sc_scheduled s' = sc_scheduled s"
      by (auto simp: Drop_leave_def Let_def)
    with assms(2) i show ?thesis by (auto simp: sched_inv_def)
  qed (use assms(2,3) in \<open>auto simp: sched_inv_def BackgroundCallGC_begin_def PopFirstFromGCQueue_def Drop_enter_def
        Drop_proceed_def Drop_leave_def CloseImpl_begin_def Let_def split: if_splits list.splits\<close>)
qed

theorem wakeups_signalled_witness:
  "sched_step True ((Scheduler_new False 1)\<lparr>sc_scheduled := 1, sc_running := 1\<rparr>) (Scheduler_new False 1) \<and>
   fst (BackgroundCallGC_end ((Scheduler_new False 1)\<lparr>sc_scheduled := 1, sc_running := 1\<rparr>))"
proof -
  let ?s = "(Scheduler_new False 1)\<lparr>sc_scheduled := 1, sc_running := 1\<rparr>"
  have e: "BackgroundCallGC_end (BackgroundGC_trigger False 0 ?s) = (True, Scheduler_new False 1)"
    by (simp add: BackgroundCallGC_end_def BackgroundGC_trigger_def Scheduler_new_def MaybeScheduleGC_def
        schedule_loop.simps)
  have st: "sched_step True ?s (Scheduler_new False 1)"
    by (rule sched_step.End [OF _ e]) (simp add: Scheduler_new_def)
  have "True" by (rule wakeups_signalled [OF st, of False 1]) (simp_all add: Scheduler_new_def sched_inv_def)
  with st e show ?thesis by (simp add: BackgroundGC_trigger_def)
qed

text \<open>C34: A drop of column families that the base database refuses blocks garbage collection for
  good: the request is never given back, so in every later state no job can start, the jobs in the
  pool never leave it, and closing the database waits forever once there is one.\<close>

theorem failed_drop_blocks_gc:
  assumes "sched_reach dis mx s" and "sc_drop_working s > 0" and "Drop_leave False s = (sig, s1)"
    and "(\<lambda>a b. \<exists>sig. sched_step sig a b)\<^sup>*\<^sup>* s1 s2"
  shows "BackgroundCallGC_begin s2 = None \<and> sc_pool s1 \<le> sc_pool s2 \<and>
    (sc_pool s1 > 0 \<longrightarrow> \<not> CloseImpl_ready s2)"
proof -
  have i: "sched_inv dis mx s" by (rule sched_reach_inv [OF assms(1)])
  have "leaked s1" using i assms(2,3) by (auto simp: leaked_def Drop_leave_def sched_inv_def Let_def)
  from leaked_run [OF assms(4) this] have l: "leaked s2" "sc_pool s1 \<le> sc_pool s2" by auto
  have "sched_inv dis mx s1" using sched_step_inv [OF sched_step.DropFail [OF assms(2,3)] i] .
  with assms(4) have "sched_inv dis mx s2"
    by (induction rule: rtranclp_induct) (auto intro: sched_step_inv)
  with l show ?thesis by (auto simp: leaked_def BackgroundCallGC_begin_def CloseImpl_ready_def sched_inv_def)
qed

theorem failed_drop_blocks_gc_witness:
  "\<exists>s1. Drop_leave False (the (Drop_proceed (Drop_enter (MaybeScheduleGC (AddToGCQueue 7 (Scheduler_new False 1)))))) = (False, s1) \<and>
     BackgroundCallGC_begin (CloseImpl_begin s1) = None \<and> \<not> CloseImpl_ready (CloseImpl_begin s1)"
proof -
  let ?q = "MaybeScheduleGC (AddToGCQueue 7 (Scheduler_new False 1))"
  let ?s = "the (Drop_proceed (Drop_enter ?q))"
  have s: "?s = (Scheduler_new False 1)\<lparr>sc_queue := [7], sc_scheduled := 1, sc_pool := 1,
      sc_drop_requests := 1, sc_drop_working := 1\<rparr>"
    unfolding demo_enqueue by (simp add: Drop_enter_def Drop_proceed_def Scheduler_new_def)
  have r1: "sched_reach False 1 ?q" by (rule sched_reach.Step [OF sched_reach.Start sched_step.Enqueue])
  have r2: "sched_reach False 1 (Drop_enter ?q)" by (rule sched_reach.Step [OF r1 sched_step.DropEnter])
  have "sched_step False (Drop_enter ?q) ?s"
    unfolding demo_enqueue
    by (rule sched_step.DropProceed) (simp_all add: Drop_enter_def Drop_proceed_def Scheduler_new_def)
  then have r3: "sched_reach False 1 ?s" by (rule sched_reach.Step [OF r2])
  obtain s1 where s1: "Drop_leave False ?s = (False, s1)" "sc_pool s1 > 0"
    unfolding s by (simp add: Drop_leave_def Scheduler_new_def)
  have "(\<lambda>a b. \<exists>sig. sched_step sig a b)\<^sup>*\<^sup>* s1 (CloseImpl_begin s1)"
    by (rule r_into_rtranclp) (auto intro: sched_step.Close)
  moreover have "sc_drop_working ?s > 0" unfolding s by simp
  ultimately have "BackgroundCallGC_begin (CloseImpl_begin s1) = None \<and> \<not> CloseImpl_ready (CloseImpl_begin s1)"
    using failed_drop_blocks_gc [OF r3 _ s1(1)] s1(2) by blast
  with s1(1) show ?thesis by blast
qed

end
