(* ===== verification/Titan_Events.thy ===== *)
theory Titan_Events
  imports Titan_Recovery Titan_Collectors Titan_Scheduler
begin

text \<open>
  What the database does when the LSM tree changes (\<open>db_impl.cc\<close>, \<open>db_impl_gc.cc\<close>): after a flush
  and after a compaction the live bytes of the blob files are updated from the table properties,
  dead records are entered into the bitmaps, files without live data are deleted (level merge) or
  a garbage collection is queued; at start the live bytes are rebuilt from all tables.  A failed
  assertion has the value \<open>None\<close>.  Log lines and tickers are left out.
\<close>

section \<open>State\<close>

record TitanDB =
  tb_fileset :: BlobFileSet
  tb_sched :: Scheduler
  tb_initialized :: bool
  tb_use_bitmap :: "u32 \<Rightarrow> bool"
  tb_sequence :: u64

definition db_storage :: "TitanDB \<Rightarrow> u32 \<Rightarrow> BlobStorage option" where
  "db_storage db cf = GetBlobStorage (tb_fileset db) cf"

definition db_set_storage :: "u32 \<Rightarrow> BlobStorage \<Rightarrow> TitanDB \<Rightarrow> TitanDB" where
  "db_set_storage cf bs db =
     db\<lparr>tb_fileset := (tb_fileset db)\<lparr>fs_columns := al_modify cf (\<lambda>_. bs) (fs_columns (tb_fileset db))\<rparr>\<rparr>"

text \<open>A loop that may stop at an assertion.\<close>

fun opt_fold :: "('a \<Rightarrow> 's \<Rightarrow> 's option) \<Rightarrow> 'a list \<Rightarrow> 's \<Rightarrow> 's option" where
  "opt_fold f [] s = Some s"
| "opt_fold f (x # xs) s = (case f x s of None \<Rightarrow> None | Some s' \<Rightarrow> opt_fold f xs s')"

definition put_file :: "u64 \<Rightarrow> BlobFileMeta \<Rightarrow> BlobStorage \<Rightarrow> BlobStorage" where
  "put_file n f bs = bs\<lparr>bs_files := al_modify n (\<lambda>_. f) (bs_files bs)\<rparr>"

definition add_ratio :: "BlobFileMeta \<Rightarrow> BlobStorage \<Rightarrow> BlobStorage" where
  "add_ratio f bs = bs\<lparr>bs_stats := AddStats (NUM_DISCARDABLE_RATIO (GetDiscardableRatioLevel f)) 1 (bs_stats bs)\<rparr>"

definition sub_ratio :: "BlobFileMeta \<Rightarrow> BlobStorage \<Rightarrow> BlobStorage" where
  "sub_ratio f bs = bs\<lparr>bs_stats := SubStats (NUM_DISCARDABLE_RATIO (GetDiscardableRatioLevel f)) 1 (bs_stats bs)\<rparr>"

section \<open>Flush\<close>

definition flush_file :: "u64 \<times> u64 \<Rightarrow> BlobStorage \<Rightarrow> BlobStorage option" where
  "flush_file file_diff bs =
     (let (file_number, delta) = file_diff in
      case FindFile bs file_number of
        None \<Rightarrow> Some bs
      | Some f \<Rightarrow>
          if fm_state f \<noteq> PendingLSM then Some bs
          else if sint delta < 0 then None
          else
            (let delta = (if fm_live f \<noteq> 0 then delta - fm_live f else delta);
                 f = f\<lparr>fm_live := delta\<rparr>;
                 bs = add_ratio f bs
             in map_option (\<lambda>f. put_file file_number f bs) (FileStateTransit FlushCompleted f)))"

definition OnFlushCompleted :: "user_properties option \<Rightarrow> u32 \<Rightarrow> TitanDB \<Rightarrow> TitanDB option" where
  "OnFlushCompleted props cf_id db =
     (if \<not> tb_initialized db then None
      else
        (let (s, diff) = ExtractGCStatsFromTableProperty props True [] in
         if s \<noteq> OK then None
         else (case db_storage db cf_id of
                 None \<Rightarrow> None
               | Some bs \<Rightarrow> map_option (\<lambda>bs. db_set_storage cf_id bs db) (opt_fold flush_file diff bs))))"

section \<open>Compaction\<close>

record CompactionJobInfo =
  cj_status :: status
  cj_cf_id :: u32
  cj_input_files :: "string list"
  cj_output_files :: "string list"
  cj_table_properties :: "string \<rightharpoonup> user_properties option"
  cj_output_level :: int

definition update_diff :: "CompactionJobInfo \<Rightarrow> bool \<Rightarrow> string \<Rightarrow> (u64 \<times> u64) list \<Rightarrow> (u64 \<times> u64) list option" where
  "update_diff job to_add file_name diff =
     (case cj_table_properties job file_name of
        None \<Rightarrow> Some diff
      | Some props \<Rightarrow>
          (let (s, diff) = ExtractGCStatsFromTableProperty props to_add diff
           in if s \<noteq> OK then None else Some diff))"

definition validation_diff :: "CompactionJobInfo \<Rightarrow> string \<Rightarrow> (u64 \<times> u64 list) list \<Rightarrow> (u64 \<times> u64 list) list option" where
  "validation_diff job file_name m =
     (case cj_table_properties job file_name of
        None \<Rightarrow> Some m
      | Some props \<Rightarrow>
          (let (s, m) = ExtractBlobValidationFromTableProperty props m
           in if s \<noteq> OK then None else Some m))"

definition set_bit_ok :: "u32 \<Rightarrow> u64 \<Rightarrow> BitMap \<Rightarrow> BitMap option" where
  "set_bit_ok on index bm =
     (case SetBit bm index on of
        None \<Rightarrow> None
      | Some (s, bm) \<Rightarrow> if s \<noteq> OK then None else Some bm)"

definition validate_file :: "(u64 \<times> u64 list) list \<Rightarrow> u64 \<times> u64 list \<Rightarrow> BlobStorage \<Rightarrow> BlobStorage option" where
  "validate_file valid_indexes item bs =
     (let (file_number, may_invalid) = item in
      case FindFile bs file_number of
        None \<Rightarrow> Some bs
      | Some f \<Rightarrow>
          if is_obsolete f then Some bs
          else
            (case opt_fold (set_bit_ok 1) may_invalid (BitMap_new (fm_entries f)) of
               None \<Rightarrow> None
             | Some bm \<Rightarrow>
                 (case (case map_of valid_indexes file_number of
                          None \<Rightarrow> Some bm
                        | Some valid \<Rightarrow> opt_fold (set_bit_ok 0) valid bm) of
                    None \<Rightarrow> None
                  | Some bm \<Rightarrow>
                      (case UpdateInvalidEntryIndexes f (Some bm) of
                         None \<Rightarrow> None
                       | Some (s, f) \<Rightarrow> if s \<noteq> OK then None else Some (put_file file_number f bs)))))"

definition compaction_bitmaps :: "CompactionJobInfo \<Rightarrow> TitanDB \<Rightarrow> (bool \<times> TitanDB) option" where
  "compaction_bitmaps job db =
     (case (opt_fold (validation_diff job) (cj_input_files job) [],
            opt_fold (validation_diff job) (cj_output_files job) []) of
        (Some may_invalid, Some valid) \<Rightarrow>
          (case db_storage db (cj_cf_id job) of
             None \<Rightarrow> Some (False, db)
           | Some bs \<Rightarrow>
               map_option (\<lambda>bs. (True, db_set_storage (cj_cf_id job) bs db))
                 (opt_fold (validate_file valid) may_invalid bs))
      | _ \<Rightarrow> None)"

text \<open>The loop over the differences: the storage, the edit and the merge candidates.\<close>

record CompactionState =
  cs_storage :: BlobStorage
  cs_edit :: VersionEdit
  cs_candidates :: "u64 list"

definition ratio_after :: "BlobFileMeta \<Rightarrow> BlobStorage \<Rightarrow> BlobStorage" where
  "ratio_after f bs = (if fm_state f = Normal \<or> fm_state f = ToMerge then add_ratio f bs else bs)"

definition compaction_pending_file :: "u64 \<Rightarrow> u64 \<Rightarrow> u64 \<Rightarrow> BlobFileMeta \<Rightarrow> CompactionState \<Rightarrow> CompactionState option" where
  "compaction_pending_file sequence file_number delta f cs =
     (if sint delta \<le> 0 then
        (let (ok, f) = UpdateLiveDataSize (- delta) f
         in if \<not> ok then None else Some (cs\<lparr>cs_storage := put_file file_number f (cs_storage cs)\<rparr>))
      else
        (let delta = (if fm_live f \<noteq> 0 then delta - fm_live f else delta);
             f = f\<lparr>fm_live := delta\<rparr>;
             bs = add_ratio f (cs_storage cs)
         in case FileStateTransit CompactionCompleted f of
              None \<Rightarrow> None
            | Some f \<Rightarrow>
                Some (cs\<lparr>cs_storage := ratio_after f (put_file file_number f bs),
                         cs_edit := (if NoLiveData f
                                     then VersionEdit_DeleteBlobFile (fm_number f) sequence (cs_edit cs)
                                     else cs_edit cs),
                         cs_candidates := cs_candidates cs @ [file_number]\<rparr>)))"

definition compaction_normal_file ::
    "TitanCFOptions \<Rightarrow> bool \<Rightarrow> u64 \<Rightarrow> u64 \<Rightarrow> u64 \<Rightarrow> BlobFileMeta \<Rightarrow> CompactionState \<Rightarrow> CompactionState option" where
  "compaction_normal_file opts count_sorted_run sequence file_number delta f cs =
     (if sint delta > 0 then None
      else
        (let bs = sub_ratio f (cs_storage cs);
             (ok, f) = UpdateLiveDataSize delta f
         in if \<not> ok then None
            else
              (let bs = bs\<lparr>bs_stats := SubStats LIVE_BLOB_SIZE delta (bs_stats bs)\<rparr> in
               if \<not> co_level_merge opts then
                 Some (cs\<lparr>cs_storage := ratio_after f (put_file file_number f bs)\<rparr>)
               else if NoLiveData f then
                 Some (cs\<lparr>cs_storage := ratio_after f (put_file file_number f bs),
                          cs_edit := VersionEdit_DeleteBlobFile (fm_number f) sequence (cs_edit cs)\<rparr>)
               else if sint (fm_level f) \<ge> int (co_num_levels opts) - 2 \<and>
                       dbl_less (co_discardable_ratio opts) (GetDiscardableRatio f) then
                 (case FileStateTransit NeedMerge f of
                    None \<Rightarrow> None
                  | Some f \<Rightarrow> Some (cs\<lparr>cs_storage := ratio_after f (put_file file_number f bs)\<rparr>))
               else
                 Some (cs\<lparr>cs_storage := ratio_after f (put_file file_number f bs),
                          cs_candidates := (if count_sorted_run then cs_candidates cs @ [file_number]
                                            else cs_candidates cs)\<rparr>))))"

definition compaction_file ::
    "TitanCFOptions \<Rightarrow> bool \<Rightarrow> u64 \<Rightarrow> u64 \<times> u64 \<Rightarrow> CompactionState \<Rightarrow> CompactionState option" where
  "compaction_file opts count_sorted_run sequence file_diff cs =
     (let (file_number, delta) = file_diff in
      case FindFile (cs_storage cs) file_number of
        None \<Rightarrow> Some cs
      | Some f \<Rightarrow>
          if is_obsolete f then Some cs
          else if fm_state f = PendingLSM then compaction_pending_file sequence file_number delta f cs
          else if fm_state f = Normal \<or> fm_state f = ToMerge
          then compaction_normal_file opts count_sorted_run sequence file_number delta f cs
          else Some cs)"

section \<open>Marking files for a merge\<close>

text \<open>
  The ends of the files, sorted by key, the largest key of a file before the smallest key of
  another when they are equal.  \<open>std::string::compare\<close> is the byte-wise order.
\<close>

type_synonym blob_end = "BlobFileMeta \<times> bool"

definition end_key :: "blob_end \<Rightarrow> bytes" where
  "end_key e = (if snd e then fm_smallest (fst e) else fm_largest (fst e))"

definition blob_ends_cmp :: "blob_end \<Rightarrow> blob_end \<Rightarrow> bool" where
  "blob_ends_cmp end1 end2 =
     (if end_key end1 = end_key end2 then \<not> snd end1 \<and> snd end2
      else bytes_less (end_key end1) (end_key end2))"

fun insert_end :: "blob_end \<Rightarrow> blob_end list \<Rightarrow> blob_end list" where
  "insert_end e [] = [e]"
| "insert_end e (f # fs) = (if blob_ends_cmp f e then f # insert_end e fs else e # f # fs)"

fun mark_runs :: "int \<Rightarrow> blob_end list \<Rightarrow> u64 list \<Rightarrow> BlobStorage \<Rightarrow> BlobStorage option" where
  "mark_runs max_sorted_runs [] open_files bs = Some bs"
| "mark_runs max_sorted_runs ((f, smallest) # ends) open_files bs =
     (if smallest then
        (let open_files = List.insert (fm_number f) open_files in
         if 0 \<le> max_sorted_runs \<and> int (length open_files) > max_sorted_runs then
           (case opt_fold (\<lambda>n bs. case FindFile bs n of
                              None \<Rightarrow> None
                            | Some f \<Rightarrow> map_option (\<lambda>f. put_file n f bs) (FileStateTransit NeedMerge f))
                   open_files bs of
              None \<Rightarrow> None
            | Some bs \<Rightarrow> mark_runs max_sorted_runs ends open_files bs)
         else mark_runs max_sorted_runs ends open_files bs)
      else mark_runs max_sorted_runs ends (removeAll (fm_number f) open_files) bs)"

definition MarkFileIfNeedMerge :: "u64 list \<Rightarrow> int \<Rightarrow> BlobStorage \<Rightarrow> BlobStorage option" where
  "MarkFileIfNeedMerge files max_sorted_runs bs =
     (if files = [] then Some bs
      else
        (let fs = List.map_filter (FindFile bs) files;
             ends = concat (map (\<lambda>f. [(f, True), (f, False)]) fs)
         in mark_runs max_sorted_runs (foldr insert_end ends []) [] bs))"

section \<open>The compaction handler\<close>

definition compaction_account :: "CompactionJobInfo \<Rightarrow> (u64 \<times> u64) list \<Rightarrow> TitanDB \<Rightarrow> TitanDB option" where
  "compaction_account job diff db =
     (case db_storage db (cj_cf_id job) of
        None \<Rightarrow> Some db
      | Some bs \<Rightarrow>
          (let opts = cf_options bs;
               count_sorted_run = (co_level_merge opts \<and> co_range_merge opts \<and>
                  int (co_num_levels opts) - 1 = cj_output_level job)
           in case opt_fold (compaction_file opts count_sorted_run (tb_sequence db)) diff
                     \<lparr>cs_storage = bs, cs_edit = VersionEdit_new, cs_candidates = []\<rparr> of
                None \<Rightarrow> None
              | Some cs \<Rightarrow>
                  (let db = db_set_storage (cj_cf_id job) (cs_storage cs) db in
                   if co_level_merge opts then
                     (case LogAndApply (cs_edit cs) (tb_fileset db) of
                        None \<Rightarrow> None
                      | Some (_, fs) \<Rightarrow>
                          (let db = db\<lparr>tb_fileset := fs\<rparr> in
                           case db_storage db (cj_cf_id job) of
                             None \<Rightarrow> None
                           | Some bs \<Rightarrow>
                               map_option (\<lambda>bs. db_set_storage (cj_cf_id job) bs db)
                                 (MarkFileIfNeedMerge (cs_candidates cs) (co_max_sorted_runs opts) bs)))
                   else
                     (let db = db_set_storage (cj_cf_id job) (ComputeGCScore (cs_storage cs)) db
                      in Some (db\<lparr>tb_sched := MaybeScheduleGC (AddToGCQueue (cj_cf_id job) (tb_sched db))\<rparr>)))))"

definition OnCompactionCompleted :: "CompactionJobInfo \<Rightarrow> TitanDB \<Rightarrow> TitanDB option" where
  "OnCompactionCompleted job db =
     (if \<not> tb_initialized db then None
      else if cj_status job \<noteq> OK then Some db
      else
        (case opt_fold (update_diff job False) (cj_input_files job) [] of
           None \<Rightarrow> None
         | Some diff \<Rightarrow>
             (case opt_fold (update_diff job True) (cj_output_files job) diff of
                None \<Rightarrow> None
              | Some diff \<Rightarrow>
                  if tb_use_bitmap db (cj_cf_id job) then
                    (case compaction_bitmaps job db of
                       None \<Rightarrow> None
                     | Some (found, db) \<Rightarrow> if \<not> found then Some db else compaction_account job diff db)
                  else compaction_account job diff db)))"

section \<open>Start\<close>

text \<open>
  \<open>InitializeGC\<close> for one column family: the outcomes of the flush and of reading the table
  properties are inputs.
\<close>

definition init_file :: "u64 \<times> u64 \<Rightarrow> BlobStorage \<Rightarrow> BlobStorage option" where
  "init_file file_size bs =
     (if sint (snd file_size) < 0 then None
      else (case FindFile bs (fst file_size) of
              None \<Rightarrow> Some bs
            | Some f \<Rightarrow>
                if fm_live f \<noteq> 0 then None
                else (let f = f\<lparr>fm_live := snd file_size\<rparr> in Some (put_file (fst file_size) f (add_ratio f bs)))))"

fun init_diff :: "user_properties option list \<Rightarrow> (u64 \<times> u64) list \<Rightarrow> status \<times> (u64 \<times> u64) list" where
  "init_diff [] diff = (OK, diff)"
| "init_diff (p # ps) diff =
     (let (s, diff) = ExtractGCStatsFromTableProperty p True diff in
      if s \<noteq> OK then (s, diff) else init_diff ps diff)"

record CFStart =
  cg_id :: u32
  cg_flush :: status
  cg_tables :: "status + user_properties option list"

fun InitializeGC_cfs :: "CFStart list \<Rightarrow> TitanDB \<Rightarrow> (status \<times> TitanDB) option" where
  "InitializeGC_cfs [] db = Some (OK, db)"
| "InitializeGC_cfs (cf # cfs) db =
     (if cg_flush cf \<noteq> OK then Some (cg_flush cf, db)
      else (case cg_tables cf of
              Inl s \<Rightarrow> Some (s, db)
            | Inr tables \<Rightarrow>
                (let (s, diff) = init_diff tables [] in
                 if s \<noteq> OK then Some (s, db)
                 else (case db_storage db (cg_id cf) of
                         None \<Rightarrow> None
                       | Some bs \<Rightarrow>
                           (case opt_fold init_file diff bs of
                              None \<Rightarrow> None
                            | Some bs \<Rightarrow>
                                (case InitializeAllFiles bs of
                                   None \<Rightarrow> None
                                 | Some bs \<Rightarrow> InitializeGC_cfs cfs (db_set_storage (cg_id cf) bs db)))))))"

definition InitializeGC :: "CFStart list \<Rightarrow> TitanDB \<Rightarrow> (status \<times> TitanDB) option" where
  "InitializeGC cfs db =
     (if tb_initialized db then None
      else (case InitializeGC_cfs cfs db of
              None \<Rightarrow> None
            | Some (s, db) \<Rightarrow>
                if s \<noteq> OK then Some (s, db)
                else Some (OK, db\<lparr>tb_sched := MaybeScheduleGC
                       (foldl (\<lambda>sc cf. AddToGCQueue (cg_id cf) sc) (tb_sched db) cfs)\<rparr>)))"

section \<open>Updating one file\<close>

lemma FindFile_put_file:
  "FindFile (put_file n f bs) k = (if k = n then map_option (\<lambda>_. f) (FindFile bs n) else FindFile bs k)"
  by (simp add: FindFile_def put_file_def map_of_al_modify)

lemma ratio_simps [simp]:
  "bs_files (add_ratio f bs) = bs_files bs" "FindFile (add_ratio f bs) = FindFile bs"
  "bs_files (sub_ratio f bs) = bs_files bs" "FindFile (sub_ratio f bs) = FindFile bs"
  "FindFile (bs\<lparr>bs_stats := st\<rparr>) = FindFile bs"
  "bs_opts (add_ratio f bs) = bs_opts bs" "bs_opts (sub_ratio f bs) = bs_opts bs" "bs_opts (put_file n f bs) = bs_opts bs"
  "bs_run_mode (add_ratio f bs) = bs_run_mode bs" "bs_run_mode (sub_ratio f bs) = bs_run_mode bs"
  "bs_run_mode (put_file n f bs) = bs_run_mode bs"
  by (simp_all add: add_ratio_def sub_ratio_def put_file_def FindFile_def fun_eq_iff)

lemma ratio_after_simps [simp]:
  "FindFile (ratio_after f bs) = FindFile bs" "bs_opts (ratio_after f bs) = bs_opts bs"
  "bs_run_mode (ratio_after f bs) = bs_run_mode bs"
  by (simp_all add: ratio_after_def)

lemma stats_other:
  assumes "storage_inv bs" and "\<And>f. st = Some f \<Longrightarrow> \<exists>g. bs_stats bs = Some g \<and>
      f NUM_LIVE_BLOB_FILE = g NUM_LIVE_BLOB_FILE \<and> f NUM_OBSOLETE_BLOB_FILE = g NUM_OBSOLETE_BLOB_FILE \<and>
      f LIVE_BLOB_FILE_SIZE = g LIVE_BLOB_FILE_SIZE \<and> f OBSOLETE_BLOB_FILE_SIZE = g OBSOLETE_BLOB_FILE_SIZE"
  shows "storage_inv (bs\<lparr>bs_stats := st\<rparr>)"
  using assms by (cases st) (force simp: storage_inv_def stats_match_def split: option.splits)+

lemma ratio_inv [simp]:
  assumes "storage_inv bs"
  shows "storage_inv (add_ratio f bs)" "storage_inv (sub_ratio f bs)" "storage_inv (ratio_after f bs)"
    "storage_inv (bs\<lparr>bs_stats := SubStats LIVE_BLOB_SIZE d (bs_stats bs)\<rparr>)"
  unfolding add_ratio_def sub_ratio_def ratio_after_def
  using assms by (auto intro!: stats_other simp: AddStats_def SubStats_def)

text \<open>The fields of a file that never change while it is live.\<close>

definition same_core :: "BlobFileMeta \<Rightarrow> BlobFileMeta \<Rightarrow> bool" where
  "same_core f g \<longleftrightarrow> fm_number g = fm_number f \<and> fm_level g = fm_level f \<and> fm_smallest g = fm_smallest f \<and>
     fm_largest g = fm_largest f \<and> fm_size g = fm_size f \<and> fm_entries g = fm_entries f \<and> is_obsolete g = is_obsolete f"

lemma put_file_inv:
  assumes inv: "storage_inv bs" and f: "FindFile bs n = Some f" and core: "same_core f g"
  shows "storage_inv (put_file n g bs)"
proof -
  have "snd p = f" if p: "p \<in> set (bs_files bs)" "fst p = n" for p
  proof -
    have "map_of (bs_files bs) (fst p) = Some (snd p)" using p(1) inv by (simp add: storage_inv_def)
    with p(2) f show ?thesis by (simp add: FindFile_def)
  qed
  then show ?thesis
    unfolding put_file_def al_modify_def using core
    by (intro storage_inv_map_files [OF inv]) (auto simp: same_core_def)
qed

section \<open>Setting bits\<close>

lemma set_bits_ok:
  assumes "BitMap_wf bm" "on = 0 \<or> on = 1" "\<And>i. i \<in> set is \<Longrightarrow> i \<le> valid_bits bm"
  shows "\<exists>bm'. opt_fold (set_bit_ok on) is bm = Some bm' \<and> BitMap_wf bm' \<and> valid_bits bm' = valid_bits bm \<and>
    (\<forall>j. j \<le> valid_bits bm \<longrightarrow> bm_test bm' j = (if j \<in> set is then on = 1 else bm_test bm j))"
  using assms
proof (induction "is" arbitrary: bm)
  case (Cons i "is")
  obtain b1 where b1: "SetBit bm i on = Some (OK, b1)" "BitMap_wf b1" "valid_bits b1 = valid_bits bm"
    "\<And>j. j \<le> valid_bits bm \<Longrightarrow> bm_test b1 j = (if j = i then on = 1 else bm_test bm j)"
    using SetBit_wf_step [OF Cons.prems(1), of i on] Cons.prems(2,3) by (metis list.set_intros(1))
  then obtain b2 where "opt_fold (set_bit_ok on) is b1 = Some b2" "BitMap_wf b2" "valid_bits b2 = valid_bits b1"
    "\<And>j. j \<le> valid_bits b1 \<Longrightarrow> bm_test b2 j = (if j \<in> set is then on = 1 else bm_test b1 j)"
    using Cons.IH [of b1] Cons.prems(2,3) by auto
  moreover have "set_bit_ok on i bm = Some b1" using b1(1) by (simp add: set_bit_ok_def)
  ultimately show ?case using b1(3,4) by (intro exI [of _ b2]) auto
qed simp

text \<open>A file whose bitmap is in order, and its dead records.\<close>

definition bitmap_ok :: "BlobFileMeta \<Rightarrow> bool" where
  "bitmap_ok f \<longleftrightarrow> (case fm_invalid f of None \<Rightarrow> False | Some bm \<Rightarrow> BitMap_wf bm \<and> valid_bits bm = fm_entries f)"

definition dead_record :: "BlobFileMeta \<Rightarrow> u64 \<Rightarrow> bool" where
  "dead_record f i = (case fm_invalid f of None \<Rightarrow> False | Some bm \<Rightarrow> bm_test bm i)"

definition indexes_fit :: "BlobFileMeta \<Rightarrow> u64 list \<Rightarrow> bool" where
  "indexes_fit f is \<longleftrightarrow> list_all (\<lambda>i. i \<le> fm_entries f) is"

lemma validate_file_ok:
  assumes f: "FindFile bs n = Some f" "\<not> is_obsolete f" "bitmap_ok f"
    and fit: "indexes_fit f is" "indexes_fit f (al_list valid n)"
  obtains f' where "validate_file valid (n, is) bs = Some (put_file n f' bs)"
    "f' = f\<lparr>fm_invalid := fm_invalid f'\<rparr>" "bitmap_ok f'"
    "\<And>j. j \<le> fm_entries f \<Longrightarrow> dead_record f' j \<longleftrightarrow> dead_record f j \<or> j \<in> set is \<and> j \<notin> set (al_list valid n)"
proof -
  obtain bm where bm: "fm_invalid f = Some bm" "BitMap_wf bm" "valid_bits bm = fm_entries f"
    using f(3) by (auto simp: bitmap_ok_def split: option.splits)
  have v: "valid_bits (BitMap_new (fm_entries f)) = fm_entries f" by (simp add: BitMap_new_def Let_def)
  obtain b1 where b1: "opt_fold (set_bit_ok 1) is (BitMap_new (fm_entries f)) = Some b1" "BitMap_wf b1"
    "valid_bits b1 = fm_entries f" "\<And>j. j \<le> fm_entries f \<Longrightarrow> bm_test b1 j = (j \<in> set is)"
    using set_bits_ok [OF BitMap_new_wf, of 1 "is" "fm_entries f"] fit(1) v bm_test_new
    by (auto simp: indexes_fit_def list_all_iff)
  obtain b2 where b2: "(case map_of valid n of None \<Rightarrow> Some b1 | Some vs \<Rightarrow> opt_fold (set_bit_ok 0) vs b1) = Some b2"
    "BitMap_wf b2" "valid_bits b2 = fm_entries f"
    "\<And>j. j \<le> fm_entries f \<Longrightarrow> bm_test b2 j = (j \<in> set is \<and> j \<notin> set (al_list valid n))"
  proof (cases "map_of valid n")
    case None
    then show thesis using that b1 by (simp add: al_list_def)
  next
    case (Some vs)
    then show thesis
      using that set_bits_ok [OF b1(2), of 0 vs] b1(3,4) fit(2)
      by (auto simp: al_list_def indexes_fit_def list_all_iff)
  qed
  obtain b3 where b3: "BitOps bm kBitOr (Some b2) = Some (OK, b3)" "BitMap_wf b3" "valid_bits b3 = valid_bits bm"
    "\<And>i. i \<le> valid_bits bm \<Longrightarrow> bm_test b3 i = (bm_test bm i \<or> bm_test b2 i)"
    using BitOps_Or_test [OF bm(2) b2(2)] bm(3) b2(3) by auto
  let ?f = "f\<lparr>fm_invalid := Some b3\<rparr>"
  have "validate_file valid (n, is) bs = Some (put_file n ?f bs)"
    using f(1,2) b1(1) b2(1) b3(1) bm(1) by (simp add: validate_file_def UpdateInvalidEntryIndexes_def)
  then show thesis
    using that [of ?f] bm b2(4) b3 by (simp add: bitmap_ok_def dead_record_def)
qed

section \<open>Loops over files\<close>

text \<open>
  The handlers loop over items with distinct file numbers, and each round reads and writes one
  file.  What a round promises for its file gives what the loop does to all files.
\<close>

locale file_loop =
  fixes step :: "'i \<Rightarrow> 's \<Rightarrow> 's option"
    and key :: "'i \<Rightarrow> 'k"
    and look :: "'s \<Rightarrow> 'k \<rightharpoonup> 'f"
    and inv :: "'s \<Rightarrow> bool"
    and pre :: "'i \<Rightarrow> 'f option \<Rightarrow> bool"
    and post :: "'i \<Rightarrow> 'f option \<Rightarrow> 'f option \<Rightarrow> bool"
  assumes step_ok: "inv s \<Longrightarrow> pre x (look s (key x)) \<Longrightarrow>
      \<exists>s' v. step x s = Some s' \<and> inv s' \<and> look s' = (look s)(key x := v) \<and> post x (look s (key x)) v"
begin

lemma loop_ok:
  "inv s \<Longrightarrow> distinct (map key xs) \<Longrightarrow> (\<And>x. x \<in> set xs \<Longrightarrow> pre x (look s (key x))) \<Longrightarrow>
   \<exists>s'. opt_fold step xs s = Some s' \<and> inv s' \<and>
     (\<forall>x \<in> set xs. post x (look s (key x)) (look s' (key x))) \<and>
     (\<forall>k. k \<notin> key ` set xs \<longrightarrow> look s' k = look s k)"
proof (induction xs arbitrary: s)
  case (Cons x xs)
  obtain s1 v where s1: "step x s = Some s1" "inv s1" "look s1 = (look s)(key x := v)" "post x (look s (key x)) v"
    using step_ok [OF Cons.prems(1), of x] Cons.prems(3) by auto
  have other: "look s1 (key y) = look s (key y)" if "y \<in> set xs" for y
    using that Cons.prems(2) s1(3) by (auto simp: image_iff)
  then have "pre y (look s1 (key y))" if "y \<in> set xs" for y using that Cons.prems(3) by simp
  then obtain s2 where "opt_fold step xs s1 = Some s2" "inv s2"
    "\<forall>y \<in> set xs. post y (look s1 (key y)) (look s2 (key y))" "\<forall>k. k \<notin> key ` set xs \<longrightarrow> look s2 k = look s1 k"
    using Cons.IH [OF s1(2)] Cons.prems(2) by auto
  with s1 other Cons.prems(2) show ?case by auto
qed simp

end

text \<open>A flush.\<close>

definition flushed :: "u64 \<Rightarrow> BlobFileMeta \<Rightarrow> BlobFileMeta" where
  "flushed delta f = (if fm_state f = PendingLSM then f\<lparr>fm_live := delta - fm_live f, fm_state := Normal\<rparr> else f)"

interpretation flush: file_loop flush_file fst FindFile "\<lambda>bs. storage_inv bs \<and> bs_opts bs = conf"
  "\<lambda>x old. case old of None \<Rightarrow> True | Some f \<Rightarrow> fm_state f = PendingLSM \<longrightarrow> 0 \<le> sint (snd x)"
  "\<lambda>x old new. new = map_option (flushed (snd x)) old"
  for conf
proof (unfold_locales, goal_cases)
  case (1 bs x)
  obtain n d where x: "x = (n, d)" by (cases x)
  show ?case
  proof (cases "FindFile bs n")
    case None
    with 1 show ?thesis by (auto simp: x flush_file_def fun_upd_idem)
  next
    case (Some f)
    show ?thesis
    proof (cases "fm_state f = PendingLSM")
      case False
      with Some 1 show ?thesis by (auto simp: x flush_file_def flushed_def fun_upd_idem)
    next
      case True
      have "flush_file x bs = Some (put_file n (flushed d f) (add_ratio (f\<lparr>fm_live := d - fm_live f\<rparr>) bs))"
        using True Some 1(2) by (simp add: x flush_file_def flushed_def FileStateTransit_def transit_def Let_def)
      moreover have "same_core f (flushed d f)"
        using True by (simp add: same_core_def flushed_def is_obsolete_def)
      ultimately show ?thesis
        using put_file_inv [of "add_ratio (f\<lparr>fm_live := d - fm_live f\<rparr>) bs" n f "flushed d f"] Some 1(1)
        by (auto simp: x FindFile_put_file fun_eq_iff)
    qed
  qed
qed

text \<open>Entering dead records.\<close>

definition marked :: "u64 list \<Rightarrow> u64 list \<Rightarrow> BlobFileMeta \<Rightarrow> BlobFileMeta \<Rightarrow> bool" where
  "marked ins outs f f' \<longleftrightarrow> f' = f\<lparr>fm_invalid := fm_invalid f'\<rparr> \<and> bitmap_ok f' \<and>
     (\<forall>j \<le> fm_entries f. dead_record f' j \<longleftrightarrow> dead_record f j \<or> j \<in> set ins \<and> j \<notin> set outs)"

lemma same_core_invalid: "f' = f\<lparr>fm_invalid := b\<rparr> \<Longrightarrow> same_core f f'"
  by (simp add: same_core_def is_obsolete_def)

interpretation validate: file_loop "validate_file valid" fst FindFile "\<lambda>bs. storage_inv bs \<and> bs_opts bs = conf"
  "\<lambda>x old. case old of None \<Rightarrow> True | Some f \<Rightarrow>
     \<not> is_obsolete f \<longrightarrow> bitmap_ok f \<and> indexes_fit f (snd x) \<and> indexes_fit f (al_list valid (fst x))"
  "\<lambda>x old new. case old of None \<Rightarrow> new = None | Some f \<Rightarrow>
     if is_obsolete f then new = Some f else \<exists>f'. new = Some f' \<and> marked (snd x) (al_list valid (fst x)) f f'"
  for valid conf
proof (unfold_locales, goal_cases)
  case (1 bs x)
  obtain n js where x: "x = (n, js)" by (cases x)
  show ?case
  proof (cases "\<exists>f. FindFile bs n = Some f \<and> \<not> is_obsolete f")
    case False
    then have "validate_file valid x bs = Some bs"
      by (auto simp: x validate_file_def split: option.splits)
    then show ?thesis
      using 1(1) False by (intro exI [of _ bs] exI [of _ "FindFile bs n"]) (auto simp: x split: option.splits)
  next
    case True
    then obtain f where f: "FindFile bs n = Some f" "\<not> is_obsolete f" by auto
    then have p: "bitmap_ok f" "indexes_fit f js" "indexes_fit f (al_list valid n)" using 1(2) by (simp_all add: x)
    obtain f' where f': "validate_file valid (n, js) bs = Some (put_file n f' bs)" "f' = f\<lparr>fm_invalid := fm_invalid f'\<rparr>"
      "bitmap_ok f'" "\<And>j. j \<le> fm_entries f \<Longrightarrow> dead_record f' j \<longleftrightarrow> dead_record f j \<or> j \<in> set js \<and> j \<notin> set (al_list valid n)"
      by (rule validate_file_ok [OF f p]) (rule that; (assumption | blast))
    have "storage_inv (put_file n f' bs)" by (rule put_file_inv [OF conjunct1 [OF 1(1)] f(1) same_core_invalid [OF f'(2)]])
    then show ?thesis
      using f f' 1(1) by (intro exI [of _ "put_file n f' bs"] exI [of _ "Some f'"])
        (auto simp: x FindFile_put_file fun_eq_iff marked_def)
  qed
qed

text \<open>Accounting live data after a compaction, when level merge is off.\<close>

definition accounted :: "u64 \<Rightarrow> BlobFileMeta \<Rightarrow> BlobFileMeta" where
  "accounted delta f =
     (if fm_state f = PendingLSM then
        (if sint delta \<le> 0 then f\<lparr>fm_live := fm_live f - delta\<rparr>
         else f\<lparr>fm_live := delta - fm_live f, fm_state := Normal\<rparr>)
      else if fm_state f = Normal \<or> fm_state f = ToMerge then f\<lparr>fm_live := fm_live f + delta\<rparr>
      else f)"

definition account_ok :: "u64 \<Rightarrow> BlobFileMeta \<Rightarrow> bool" where
  "account_ok delta f \<longleftrightarrow>
     (fm_state f = PendingLSM \<and> sint delta \<le> 0 \<longrightarrow> 0 \<le> sint (fm_live f - delta)) \<and>
     (fm_state f = Normal \<or> fm_state f = ToMerge \<longrightarrow> sint delta \<le> 0 \<and> 0 \<le> sint (fm_live f + delta))"

lemma accounted_core: "same_core f (accounted d f)"
  by (auto simp: same_core_def accounted_def is_obsolete_def)

lemma compaction_file_ok:
  assumes inv: "storage_inv (cs_storage cs)" and f: "FindFile (cs_storage cs) n = Some f" "\<not> is_obsolete f"
    and ok: "account_ok d f" and nl: "\<not> co_level_merge opts"
  obtains cs' where "compaction_file opts c q (n, d) cs = Some cs'" "storage_inv (cs_storage cs')"
    "FindFile (cs_storage cs') = (FindFile (cs_storage cs))(n \<mapsto> accounted d f)"
    "bs_opts (cs_storage cs') = bs_opts (cs_storage cs)"
proof -
  have put: "storage_inv (ratio_after g (put_file n (accounted d f) bs))"
    "FindFile (ratio_after g (put_file n (accounted d f) bs)) = (FindFile (cs_storage cs))(n \<mapsto> accounted d f)"
    if "storage_inv bs" "FindFile bs = FindFile (cs_storage cs)" for bs g
    using put_file_inv [OF that(1), of n f "accounted d f"] accounted_core f(1) that
    by (auto simp: FindFile_put_file fun_eq_iff)
  consider (early) "fm_state f = PendingLSM" "sint d \<le> 0" | (out) "fm_state f = PendingLSM" "\<not> sint d \<le> 0"
    | (norm) "fm_state f = Normal \<or> fm_state f = ToMerge" | (skip) "fm_state f \<notin> {PendingLSM, Normal, ToMerge}"
    by blast
  then show thesis
  proof cases
    case early
    let ?cs = "cs\<lparr>cs_storage := put_file n (accounted d f) (cs_storage cs)\<rparr>"
    have "compaction_file opts c q (n, d) cs = Some ?cs"
      using early f ok by (auto simp: compaction_file_def compaction_pending_file_def UpdateLiveDataSize_def
          account_ok_def accounted_def Let_def not_less)
    then show thesis
      using that put_file_inv [OF inv f(1) accounted_core] f(1) by (auto simp: FindFile_put_file fun_eq_iff)
  next
    case out
    let ?bs = "ratio_after (accounted d f) (put_file n (accounted d f) (add_ratio (f\<lparr>fm_live := d - fm_live f\<rparr>) (cs_storage cs)))"
    have live: "(if fm_live f \<noteq> 0 then d - fm_live f else d) = d - fm_live f" by simp
    have "compaction_file opts c q (n, d) cs = Some (cs\<lparr>cs_storage := ?bs,
        cs_edit := (if NoLiveData (accounted d f) then VersionEdit_DeleteBlobFile (fm_number f) q (cs_edit cs)
                    else cs_edit cs),
        cs_candidates := cs_candidates cs @ [n]\<rparr>)"
      using out f by (simp add: compaction_file_def compaction_pending_file_def FileStateTransit_def transit_def
          accounted_def live Let_def)
    then show thesis using that put inv by simp
  next
    case norm
    let ?s = "sub_ratio f (cs_storage cs)"
    let ?bs = "ratio_after (accounted d f) (put_file n (accounted d f) (?s\<lparr>bs_stats := SubStats LIVE_BLOB_SIZE d (bs_stats ?s)\<rparr>))"
    have "compaction_file opts c q (n, d) cs = Some (cs\<lparr>cs_storage := ?bs\<rparr>)"
      using norm f ok nl
      by (auto simp: compaction_file_def compaction_normal_file_def UpdateLiveDataSize_def account_ok_def
          accounted_def Let_def not_less)
    then show thesis using that put inv by simp
  next
    case skip
    then have "accounted d f = f" "compaction_file opts c q (n, d) cs = Some cs"
      using f by (auto simp: accounted_def compaction_file_def)
    with that inv f(1) show thesis by (simp add: fun_upd_idem)
  qed
qed

interpretation account: file_loop "compaction_file opts c q" fst "\<lambda>cs. FindFile (cs_storage cs)"
  "\<lambda>cs. storage_inv (cs_storage cs) \<and> bs_opts (cs_storage cs) = conf"
  "\<lambda>x old. \<not> co_level_merge opts \<and> (case old of None \<Rightarrow> True | Some f \<Rightarrow> \<not> is_obsolete f \<longrightarrow> account_ok (snd x) f)"
  "\<lambda>x old new. new = map_option (\<lambda>f. if is_obsolete f then f else accounted (snd x) f) old"
  for opts c q conf
proof (unfold_locales, goal_cases)
  case (1 cs x)
  obtain n d where x: "x = (n, d)" by (cases x)
  show ?case
  proof (cases "\<exists>f. FindFile (cs_storage cs) n = Some f \<and> \<not> is_obsolete f")
    case False
    then have "compaction_file opts c q x cs = Some cs"
      by (auto simp: x compaction_file_def split: option.splits)
    then show ?thesis
      using 1(1) False by (intro exI [of _ cs] exI [of _ "FindFile (cs_storage cs) n"])
        (cases "FindFile (cs_storage cs) n"; auto simp: x)
  next
    case True
    then obtain f where f: "FindFile (cs_storage cs) n = Some f" "\<not> is_obsolete f" by auto
    have p: "account_ok d f" "\<not> co_level_merge opts" using 1(2) f by (simp_all add: x)
    obtain cs' where "compaction_file opts c q (n, d) cs = Some cs'" "storage_inv (cs_storage cs')"
      "FindFile (cs_storage cs') = (FindFile (cs_storage cs))(n \<mapsto> accounted d f)"
      "bs_opts (cs_storage cs') = bs_opts (cs_storage cs)"
      by (rule compaction_file_ok [OF conjunct1 [OF 1(1)] f p])
    then show ?thesis using 1(1) f by (intro exI [of _ cs'] exI [of _ "Some (accounted d f)"]) (simp add: x)
  qed
qed

interpretation init: file_loop init_file fst FindFile storage_inv
  "\<lambda>x old. 0 \<le> sint (snd x) \<and> (case old of None \<Rightarrow> True | Some f \<Rightarrow> fm_live f = 0)"
  "\<lambda>x old new. new = map_option (\<lambda>f. f\<lparr>fm_live := snd x\<rparr>) old"
proof (unfold_locales, goal_cases)
  case (1 bs x)
  obtain n d where x: "x = (n, d)" by (cases x)
  show ?case
  proof (cases "FindFile bs n")
    case None
    with 1 show ?thesis by (auto simp: x init_file_def not_less fun_upd_idem)
  next
    case (Some f)
    let ?g = "f\<lparr>fm_live := d\<rparr>"
    have "init_file x bs = Some (put_file n ?g (add_ratio ?g bs))"
      using 1 Some by (simp add: x init_file_def not_less Let_def)
    moreover have "storage_inv (put_file n ?g (add_ratio ?g bs))"
      using put_file_inv [of "add_ratio ?g bs" n f ?g] Some 1(1) by (simp add: same_core_def is_obsolete_def)
    ultimately show ?thesis using Some by (auto simp: x FindFile_put_file fun_eq_iff)
  qed
qed

section \<open>Differences and record indexes of several tables\<close>

text \<open>Jobs whose table properties were written by the collectors.\<close>

definition collected_job :: "(string \<rightharpoonup> (bytes \<times> EntryType) list) \<Rightarrow> CompactionJobInfo \<Rightarrow> bool" where
  "collected_job tables job \<longleftrightarrow>
     cj_table_properties job = (\<lambda>name. map_option (\<lambda>es. Some (table_properties es)) (tables name)) \<and>
     (\<forall>name es. tables name = Some es \<longrightarrow> table_fits es)"

definition files_refs :: "(string \<rightharpoonup> (bytes \<times> EntryType) list) \<Rightarrow> string list \<Rightarrow> BlobIndex list" where
  "files_refs tables names = concat (map (\<lambda>name. case tables name of None \<Rightarrow> [] | Some es \<Rightarrow> blob_refs es) names)"

lemma refs_size_append: "refs_size (a @ b) n = refs_size a n + refs_size b n"
  by (simp add: refs_size_def refs_to_def)

lemma refs_indexes_append: "refs_indexes (a @ b) n = refs_indexes a n @ refs_indexes b n"
  by (simp add: refs_indexes_def refs_to_def)

lemma update_diffs_ok:
  assumes "collected_job tables job" "smap_wf diff"
  shows "\<exists>diff'. opt_fold (update_diff job to_add) names diff = Some diff' \<and> smap_wf diff' \<and>
    (\<forall>n. diff_val diff' n = (if to_add then diff_val diff n + refs_size (files_refs tables names) n
                              else diff_val diff n - refs_size (files_refs tables names) n)) \<and>
    fst ` set diff' = fst ` set diff \<union> bi_file_number ` set (files_refs tables names)"
  using assms(2)
proof (induction names arbitrary: diff)
  case Nil
  then show ?case by (simp add: files_refs_def refs_size_def refs_to_def)
next
  case (Cons name names)
  show ?case
  proof (cases "tables name")
    case None
    then have "update_diff job to_add name diff = Some diff"
      using assms(1) by (simp add: update_diff_def collected_job_def)
    moreover have "files_refs tables (name # names) = files_refs tables names" using None by (simp add: files_refs_def)
    ultimately show ?thesis using Cons.IH [OF Cons.prems] by (simp only: opt_fold.simps option.case)
  next
    case (Some es)
    then have fits: "table_fits es" using assms(1) by (simp add: collected_job_def)
    obtain d1 where d1: "ExtractGCStatsFromTableProperty (Some (table_properties es)) to_add diff = (OK, d1)"
      "\<And>n. diff_val d1 n = (if to_add then diff_val diff n + refs_size (blob_refs es) n
                              else diff_val diff n - refs_size (blob_refs es) n)"
      "fst ` set d1 = fst ` set diff \<union> bi_file_number ` set (blob_refs es)" "smap_wf diff \<Longrightarrow> smap_wf d1"
      by (rule Extract_sizes [OF fits]) (rule that; (assumption | simp))
    have "update_diff job to_add name diff = Some d1"
      using assms(1) Some d1(1) by (simp add: update_diff_def collected_job_def)
    moreover have "files_refs tables (name # names) = blob_refs es @ files_refs tables names"
      using Some by (simp add: files_refs_def)
    ultimately show ?thesis
      using Cons.IH [OF d1(4) [OF Cons.prems]] d1(2,3) by (auto simp: refs_size_append algebra_simps)
  qed
qed

lemma al_push_distinct: "distinct (map fst m) \<Longrightarrow> distinct (map fst (al_push k v m))"
  by (simp add: al_push_def distinct_emplace)

lemma Validation_Decode_distinct:
  assumes "Validation_Decode src m = Some (m', r)" "distinct (map fst m)"
  shows "distinct (map fst m')"
proof -
  have e: "Validation_Decode_entries n k src m = Some (m', r) \<Longrightarrow> distinct (map fst m) \<Longrightarrow> distinct (map fst m')"
    for n k src m m' r
    by (induction n arbitrary: src m) (fastforce split: option.splits intro: al_push_distinct)+
  have "Validation_Decode_loop n src m = Some (m', r) \<Longrightarrow> distinct (map fst m) \<Longrightarrow> distinct (map fst m')"
    for n src m m' r
    by (induction n arbitrary: src m) (fastforce split: option.splits dest: e)+
  with assms show ?thesis by (auto simp: Validation_Decode_def split: option.splits)
qed

lemma validation_diffs_ok:
  assumes "collected_job tables job" "distinct (map fst m)"
  shows "\<exists>m'. opt_fold (validation_diff job) names m = Some m' \<and> distinct (map fst m') \<and>
    (\<forall>n. al_list m' n = al_list m n @ refs_indexes (files_refs tables names) n)"
  using assms(2)
proof (induction names arbitrary: m)
  case Nil
  then show ?case by (simp add: files_refs_def refs_indexes_def refs_to_def)
next
  case (Cons name names)
  show ?case
  proof (cases "tables name")
    case None
    then have "validation_diff job name m = Some m"
      using assms(1) by (simp add: validation_diff_def collected_job_def)
    moreover have "files_refs tables (name # names) = files_refs tables names" using None by (simp add: files_refs_def)
    ultimately show ?thesis using Cons.IH [OF Cons.prems] by (simp only: opt_fold.simps option.case)
  next
    case (Some es)
    then have fits: "table_fits es" using assms(1) by (simp add: collected_job_def)
    obtain m1 where m1: "ExtractBlobValidationFromTableProperty (Some (table_properties es)) m = (OK, m1)"
      "\<And>n. al_list m1 n = al_list m n @ refs_indexes (blob_refs es) n"
      by (rule Extract_indexes [OF fits]) (rule that; (assumption | blast))
    have "distinct (map fst m1)"
      using m1(1) Cons.prems Validation_Decode_distinct
      by (auto simp: ExtractBlobValidationFromTableProperty_def split: option.splits)
    moreover have "validation_diff job name m = Some m1"
      using assms(1) Some m1(1) by (simp add: validation_diff_def collected_job_def)
    moreover have "files_refs tables (name # names) = blob_refs es @ files_refs tables names"
      using Some by (simp add: files_refs_def)
    ultimately show ?thesis
      using Cons.IH [of m1] m1(2) by (auto simp: refs_indexes_append)
  qed
qed

section \<open>The handlers\<close>

lemma db_storage_set:
  "db_storage (db_set_storage cf bs db) k = (if k = cf then map_option (\<lambda>_. bs) (db_storage db cf) else db_storage db k)"
  by (simp add: db_storage_def db_set_storage_def GetBlobStorage_def map_of_al_modify)

lemma db_set_storage_simps [simp]:
  "tb_sched (db_set_storage cf bs db) = tb_sched db" "tb_sequence (db_set_storage cf bs db) = tb_sequence db"
  "db_storage (db\<lparr>tb_sched := sc\<rparr>) = db_storage db"
  by (simp_all add: db_set_storage_def db_storage_def fun_eq_iff)

definition touched :: "(string \<rightharpoonup> (bytes \<times> EntryType) list) \<Rightarrow> CompactionJobInfo \<Rightarrow> u64 set" where
  "touched tables job = bi_file_number ` set (files_refs tables (cj_input_files job) @ files_refs tables (cj_output_files job))"

text \<open>Bytes the output tables refer to in a blob file, less those the input tables did.\<close>

definition net_bytes :: "(string \<rightharpoonup> (bytes \<times> EntryType) list) \<Rightarrow> CompactionJobInfo \<Rightarrow> u64 \<Rightarrow> u64" where
  "net_bytes tables job n =
     refs_size (files_refs tables (cj_output_files job)) n - refs_size (files_refs tables (cj_input_files job)) n"

lemma job_diff_ok:
  assumes "collected_job tables job"
  obtains d1 diff where "opt_fold (update_diff job False) (cj_input_files job) [] = Some d1"
    "opt_fold (update_diff job True) (cj_output_files job) d1 = Some diff" "smap_wf diff"
    "\<And>n. diff_val diff n = net_bytes tables job n" "fst ` set diff = touched tables job"
proof -
  obtain d1 where d1: "opt_fold (update_diff job False) (cj_input_files job) [] = Some d1" "smap_wf d1"
    "\<forall>n. diff_val d1 n = diff_val [] n - refs_size (files_refs tables (cj_input_files job)) n"
    "fst ` set d1 = bi_file_number ` set (files_refs tables (cj_input_files job))"
    using update_diffs_ok [OF assms, of "[]" False "cj_input_files job"] by auto
  obtain d2 where "opt_fold (update_diff job True) (cj_output_files job) d1 = Some d2" "smap_wf d2"
    "\<forall>n. diff_val d2 n = diff_val d1 n + refs_size (files_refs tables (cj_output_files job)) n"
    "fst ` set d2 = fst ` set d1 \<union> bi_file_number ` set (files_refs tables (cj_output_files job))"
    using update_diffs_ok [OF assms d1(2), of True "cj_output_files job"] by auto
  with d1 that show thesis by (simp add: net_bytes_def touched_def diff_val_def image_Un)
qed

lemma diff_val_in: "smap_wf diff \<Longrightarrow> p \<in> set diff \<Longrightarrow> diff_val diff (fst p) = snd p"
  using smap_wf_distinct [of diff] by (cases p) (simp add: diff_val_def)

definition account_pre :: "(string \<rightharpoonup> (bytes \<times> EntryType) list) \<Rightarrow> CompactionJobInfo \<Rightarrow> BlobStorage \<Rightarrow> bool" where
  "account_pre tables job bs \<longleftrightarrow>
     (\<forall>n f. n \<in> touched tables job \<longrightarrow> FindFile bs n = Some f \<longrightarrow> \<not> is_obsolete f \<longrightarrow>
        account_ok (net_bytes tables job n) f)"

lemma compaction_account_ok:
  assumes st: "db_storage db (cj_cf_id job) = Some bs" and inv: "storage_inv bs"
    and nl: "\<not> co_level_merge (bs_opts bs)"
    and diff: "smap_wf diff" "\<And>n. diff_val diff n = net_bytes tables job n" "fst ` set diff = touched tables job"
    and pre: "account_pre tables job bs"
  obtains bs' where "compaction_account job diff db = Some ((db_set_storage (cj_cf_id job) bs' db)\<lparr>tb_sched := MaybeScheduleGC (AddToGCQueue (cj_cf_id job) (tb_sched db))\<rparr>)"
    "storage_inv bs'" "bs_gc_score bs' = bs_gc_score (ComputeGCScore bs')"
    "\<And>n. FindFile bs' n = map_option (\<lambda>f. if is_obsolete f \<or> n \<notin> touched tables job then f
        else accounted (net_bytes tables job n) f) (FindFile bs n)"
proof -
  let ?opts = "cf_options bs"
  let ?c = "co_level_merge ?opts \<and> co_range_merge ?opts \<and> int (co_num_levels ?opts) - 1 = cj_output_level job"
  let ?cs = "\<lparr>cs_storage = bs, cs_edit = VersionEdit_new, cs_candidates = []\<rparr>"
  have nl': "\<not> co_level_merge ?opts" using nl by (simp add: cf_options_def)
  have dv: "snd x = net_bytes tables job (fst x)" if "x \<in> set diff" for x
    using diff_val_in [OF diff(1) that] diff(2) by simp
  have "storage_inv (cs_storage ?cs) \<and> bs_opts (cs_storage ?cs) = bs_opts bs" using inv by simp
  moreover have "\<not> co_level_merge ?opts \<and> (case FindFile (cs_storage ?cs) (fst x) of None \<Rightarrow> True
      | Some f \<Rightarrow> \<not> is_obsolete f \<longrightarrow> account_ok (snd x) f)" if "x \<in> set diff" for x
  proof (cases "FindFile bs (fst x)")
    case (Some f)
    have "fst x \<in> touched tables job" using that diff(3) by (metis image_eqI)
    then have "account_ok (snd x) f" if "\<not> is_obsolete f"
      using pre Some that unfolding dv [OF \<open>x \<in> set diff\<close>] account_pre_def by blast
    with Some nl' show ?thesis by simp
  qed (use nl' in simp)
  ultimately obtain cs where cs: "opt_fold (compaction_file ?opts ?c (tb_sequence db)) diff ?cs = Some cs"
    "storage_inv (cs_storage cs)"
    "\<forall>x \<in> set diff. FindFile (cs_storage cs) (fst x) =
       map_option (\<lambda>f. if is_obsolete f then f else accounted (snd x) f) (FindFile bs (fst x))"
    "\<forall>k. k \<notin> fst ` set diff \<longrightarrow> FindFile (cs_storage cs) k = FindFile bs k"
    using account.loop_ok [OF _ smap_wf_distinct [OF diff(1)], of ?cs "bs_opts bs" ?opts ?c "tb_sequence db"] by auto
  let ?bs = "ComputeGCScore (cs_storage cs)"
  have set2: "db_set_storage k b1 (db_set_storage k b2 db) = db_set_storage k b1 db" for k b1 b2
  proof -
    have "al_modify k (\<lambda>_. b1) (al_modify k (\<lambda>_. b2) xs) = al_modify k (\<lambda>_. b1) xs" for xs :: "(u32 \<times> BlobStorage) list"
      by (auto simp: al_modify_def)
    then show ?thesis by (simp add: db_set_storage_def)
  qed
  have f: "FindFile ?bs = FindFile (cs_storage cs)" by (simp add: FindFile_def fun_eq_iff)
  have "FindFile ?bs n = map_option (\<lambda>f. if is_obsolete f \<or> n \<notin> touched tables job then f
      else accounted (net_bytes tables job n) f) (FindFile bs n)" for n
  proof (cases "n \<in> touched tables job")
    case True
    then have "n \<in> fst ` set diff" using diff(3) by simp
    then obtain x where x: "x \<in> set diff" "fst x = n" by blast
    have "FindFile ?bs n = map_option (\<lambda>f. if is_obsolete f then f else accounted (snd x) f) (FindFile bs n)"
      using bspec [OF cs(3) x(1)] unfolding x(2) f .
    then show ?thesis using True dv [OF x(1)] unfolding x(2) by (cases "FindFile bs n") simp_all
  next
    case False
    then have "FindFile ?bs n = FindFile bs n" using cs(4) f unfolding diff(3) by simp
    with False show ?thesis by (simp add: option.map_ident)
  qed
  moreover have "compaction_account job diff db = Some ((db_set_storage (cj_cf_id job) ?bs db)\<lparr>tb_sched := MaybeScheduleGC (AddToGCQueue (cj_cf_id job) (tb_sched db))\<rparr>)"
    using st cs(1) nl' by (simp add: compaction_account_def Let_def set2)
  moreover have "bs_gc_score ?bs = bs_gc_score (ComputeGCScore ?bs)" by (simp add: ComputeGCScore_def)
  ultimately show thesis using that cs(2) by simp
qed

end
