(* ===== verification/Titan_GCPicker.thy ===== *)
theory Titan_GCPicker
  imports Titan_Storage
begin

text \<open>
  Choosing the blob files of a garbage collection (\<open>blob_gc_picker.h\<close>, \<open>blob_gc_picker.cc\<close>) and
  the collection object that marks them (\<open>blob_gc.h\<close>, \<open>blob_gc.cc\<close>).  The inputs of a \<open>BlobGC\<close> are
  shared pointers into the storage, so they are file numbers here and a state transition of an
  input is a change of the storage.  \<open>None\<close> is a failed assertion or a null pointer.  Tickers and
  log lines have no effect and are left out, except that the log line of a skipped file reads
  through the pointer.
\<close>

section \<open>The collection object\<close>

record BlobGC =
  gc_inputs :: "u64 list"
  gc_outputs :: "u64 list"
  gc_options :: TitanCFOptions
  gc_trigger_next :: bool

fun transit_files :: "FileEvent \<Rightarrow> u64 list \<Rightarrow> BlobStorage \<Rightarrow> BlobStorage option" where
  "transit_files event [] bs = Some bs"
| "transit_files event (n # ns) bs =
     (case FindFile bs n of
        None \<Rightarrow> None
      | Some f \<Rightarrow>
          (case FileStateTransit event f of
             None \<Rightarrow> None
           | Some f' \<Rightarrow> transit_files event ns (bs\<lparr>bs_files := al_modify n (\<lambda>_. f') (bs_files bs)\<rparr>)))"

definition MarkFilesBeingGC :: "BlobGC \<Rightarrow> BlobStorage \<Rightarrow> BlobStorage option" where
  "MarkFilesBeingGC gc bs = transit_files GCBegin (gc_inputs gc) bs"

definition BlobGC_new :: "u64 list \<Rightarrow> TitanCFOptions \<Rightarrow> bool \<Rightarrow> BlobStorage \<Rightarrow> (BlobGC \<times> BlobStorage) option" where
  "BlobGC_new blob_files opts need_trigger_next bs =
     (let gc = \<lparr>gc_inputs = blob_files, gc_outputs = [], gc_options = opts, gc_trigger_next = need_trigger_next\<rparr>
      in map_option (\<lambda>bs. (gc, bs)) (MarkFilesBeingGC gc bs))"

definition AddOutputFile :: "u64 \<Rightarrow> BlobGC \<Rightarrow> BlobGC" where
  "AddOutputFile blob_file gc = gc\<lparr>gc_outputs := gc_outputs gc @ [blob_file]\<rparr>"

definition ReleaseGcFiles :: "BlobGC \<Rightarrow> BlobStorage \<Rightarrow> BlobStorage option" where
  "ReleaseGcFiles gc bs =
     (case transit_files GCCompleted (gc_inputs gc) bs of
        None \<Rightarrow> None
      | Some bs \<Rightarrow> transit_files GCCompleted (gc_outputs gc) bs)"

section \<open>Picking\<close>

text \<open>The assertion that the file is not in its initial state, then the check.\<close>

definition CheckBlobFile :: "BlobFileMeta option \<Rightarrow> bool option" where
  "CheckBlobFile blob_file =
     (case blob_file of
        None \<Rightarrow> Some False
      | Some f \<Rightarrow> if fm_state f = StInit then None else Some (fm_state f = Normal))"

record Picking =
  pk_files :: "BlobFileMeta list"
  pk_batch_size :: u64
  pk_estimate_output_size :: u64
  pk_stop_picking :: bool
  pk_maybe_continue :: bool
  pk_next_gc_size :: u64

definition Picking_new :: Picking where
  "Picking_new = \<lparr>pk_files = [], pk_batch_size = 0, pk_estimate_output_size = 0, pk_stop_picking = False,
     pk_maybe_continue = False, pk_next_gc_size = 0\<rparr>"

definition pick_file :: "TitanCFOptions \<Rightarrow> BlobFileMeta \<Rightarrow> Picking \<Rightarrow> Picking" where
  "pick_file opts f p =
     (let p = p\<lparr>pk_files := pk_files p @ [f], pk_batch_size := pk_batch_size p + fm_size f,
                pk_estimate_output_size := pk_estimate_output_size p + fm_live f\<rparr>
      in if pk_batch_size p \<ge> co_max_gc_batch_size opts then p\<lparr>pk_stop_picking := True\<rparr> else p)"

fun PickBlobGC_loop :: "TitanCFOptions \<Rightarrow> BlobStorage \<Rightarrow> GCScore list \<Rightarrow> Picking \<Rightarrow> Picking option" where
  "PickBlobGC_loop opts bs [] p = Some p"
| "PickBlobGC_loop opts bs (g # gs) p =
     (if dbl_less (gs_score g) (co_discardable_ratio opts) then Some p
      else
        (let blob_file = FindFile bs (gs_file_number g) in
         case CheckBlobFile blob_file of
           None \<Rightarrow> None
         | Some check \<Rightarrow>
             (case blob_file of
                None \<Rightarrow> None
              | Some f \<Rightarrow>
                  if \<not> check then PickBlobGC_loop opts bs gs p
                  else if \<not> pk_stop_picking p then PickBlobGC_loop opts bs gs (pick_file opts f p)
                  else
                    (let p = p\<lparr>pk_next_gc_size := pk_next_gc_size p + fm_size f\<rparr> in
                     if pk_next_gc_size p > co_min_gc_batch_size opts
                     then Some (p\<lparr>pk_maybe_continue := True\<rparr>)
                     else PickBlobGC_loop opts bs gs p))))"

definition PickBlobGC :: "TitanCFOptions \<Rightarrow> BlobStorage \<Rightarrow> (BlobGC option \<times> BlobStorage) option" where
  "PickBlobGC opts bs =
     (case PickBlobGC_loop opts bs (bs_gc_score bs) Picking_new of
        None \<Rightarrow> None
      | Some p \<Rightarrow>
          if pk_files p = [] \<or> pk_batch_size p < co_min_gc_batch_size opts then Some (None, bs)
          else if length (pk_files p) = 1 \<and>
                  fm_size (hd (pk_files p)) \<le> co_merge_small_file_threshold opts \<and>
                  dbl_less (GetDiscardableRatio (hd (pk_files p))) (co_discardable_ratio opts)
          then Some (None, bs)
          else map_option (\<lambda>(gc, bs). (Some gc, bs))
                 (BlobGC_new (map fm_number (pk_files p)) opts (pk_maybe_continue p) bs))"

section \<open>What is picked\<close>

text \<open>The scored files above the ratio that are not already taking part in a collection.\<close>

definition gc_candidates :: "TitanCFOptions \<Rightarrow> BlobStorage \<Rightarrow> GCScore list \<Rightarrow> BlobFileMeta list" where
  "gc_candidates opts bs gs =
     filter (\<lambda>f. fm_state f = Normal)
       (map (\<lambda>g. the (FindFile bs (gs_file_number g)))
         (takeWhile (\<lambda>g. \<not> dbl_less (gs_score g) (co_discardable_ratio opts)) gs))"

text \<open>The shortest prefix whose size reaches the maximum of a batch.\<close>

fun take_batch :: "u64 \<Rightarrow> u64 \<Rightarrow> BlobFileMeta list \<Rightarrow> BlobFileMeta list" where
  "take_batch mx acc [] = []"
| "take_batch mx acc (f # fs) =
     f # (if acc + fm_size f \<ge> mx then [] else take_batch mx (acc + fm_size f) fs)"

definition scores_known :: "BlobStorage \<Rightarrow> GCScore list \<Rightarrow> bool" where
  "scores_known bs gs \<longleftrightarrow>
     list_all (\<lambda>g. case FindFile bs (gs_file_number g) of None \<Rightarrow> False | Some f \<Rightarrow> fm_state f \<noteq> StInit) gs"

lemma loop_stopped:
  "scores_known bs gs \<Longrightarrow> pk_stop_picking p \<Longrightarrow>
   \<exists>p'. PickBlobGC_loop opts bs gs p = Some p' \<and> pk_files p' = pk_files p \<and> pk_batch_size p' = pk_batch_size p"
proof (induction gs arbitrary: p)
  case (Cons g gs)
  from Cons.prems obtain f where f: "FindFile bs (gs_file_number g) = Some f" "fm_state f \<noteq> StInit"
    by (auto simp: scores_known_def split: option.splits)
  have k: "scores_known bs gs" using Cons.prems(1) by (simp add: scores_known_def)
  show ?case
    using Cons.IH [OF k, of p] Cons.IH [OF k, of "p\<lparr>pk_next_gc_size := pk_next_gc_size p + fm_size f\<rparr>"]
      Cons.prems(2) f by (auto simp: CheckBlobFile_def Let_def)
qed simp

lemma loop_picks:
  "scores_known bs gs \<Longrightarrow> \<not> pk_stop_picking p \<Longrightarrow>
   \<exists>p'. PickBlobGC_loop opts bs gs p = Some p' \<and>
     pk_files p' = pk_files p @ take_batch (co_max_gc_batch_size opts) (pk_batch_size p) (gc_candidates opts bs gs) \<and>
     pk_batch_size p' = pk_batch_size p +
       sum_list (map fm_size (take_batch (co_max_gc_batch_size opts) (pk_batch_size p) (gc_candidates opts bs gs)))"
proof (induction gs arbitrary: p)
  case Nil
  then show ?case by (simp add: gc_candidates_def)
next
  case (Cons g gs)
  from Cons.prems obtain f where f: "FindFile bs (gs_file_number g) = Some f" "fm_state f \<noteq> StInit"
    by (auto simp: scores_known_def split: option.splits)
  have k: "scores_known bs gs" using Cons.prems(1) by (simp add: scores_known_def)
  show ?case
  proof (cases "dbl_less (gs_score g) (co_discardable_ratio opts)")
    case True
    then show ?thesis by (simp add: gc_candidates_def)
  next
    case False
    note unstopped = this
    show ?thesis
    proof (cases "fm_state f = Normal")
      case False
      then have "gc_candidates opts bs (g # gs) = gc_candidates opts bs gs"
        using f unstopped by (simp add: gc_candidates_def)
      with Cons.IH [OF k Cons.prems(2)] False f unstopped show ?thesis by (simp add: CheckBlobFile_def Let_def)
    next
      case True
      then have c: "gc_candidates opts bs (g # gs) = f # gc_candidates opts bs gs"
        using f unstopped by (simp add: gc_candidates_def)
      have l: "PickBlobGC_loop opts bs (g # gs) p = PickBlobGC_loop opts bs gs (pick_file opts f p)"
        using True Cons.prems(2) f unstopped by (simp add: CheckBlobFile_def Let_def)
      show ?thesis
      proof (cases "pk_batch_size p + fm_size f \<ge> co_max_gc_batch_size opts")
        case True
        then have "pk_stop_picking (pick_file opts f p)" by (simp add: pick_file_def)
        from loop_stopped [OF k this, of opts] True show ?thesis
          unfolding l c by (simp add: pick_file_def)
      next
        case False
        then have "\<not> pk_stop_picking (pick_file opts f p)" using Cons.prems(2) by (simp add: pick_file_def)
        from Cons.IH [OF k this] False show ?thesis
          unfolding l c by (simp add: pick_file_def add.assoc)
      qed
    qed
  qed
qed

lemma take_batch_prefix: "\<exists>ys. xs = take_batch mx acc xs @ ys"
proof (induction mx acc xs rule: take_batch.induct)
  case (2 mx acc f fs)
  then show ?case by (cases "mx \<le> acc + fm_size f") auto
qed simp

section \<open>State transitions of several files\<close>

definition set_states :: "FileState \<Rightarrow> u64 list \<Rightarrow> BlobStorage \<Rightarrow> BlobStorage" where
  "set_states t ns bs =
     bs\<lparr>bs_files := map (\<lambda>p. (fst p, if fst p \<in> set ns then (snd p)\<lparr>fm_state := t\<rparr> else snd p)) (bs_files bs)\<rparr>"

lemma FindFile_set_states:
  "FindFile (set_states t ns bs) n =
     map_option (\<lambda>f. if n \<in> set ns then f\<lparr>fm_state := t\<rparr> else f) (FindFile bs n)"
proof -
  have "map_of (map (\<lambda>p. (fst p, if fst p \<in> set ns then (snd p)\<lparr>fm_state := t\<rparr> else snd p)) xs) n =
      map_option (\<lambda>f. if n \<in> set ns then f\<lparr>fm_state := t\<rparr> else f) (map_of xs n)" for xs
    by (induction xs) auto
  then show ?thesis by (simp add: FindFile_def set_states_def)
qed

lemma transit_files_ok:
  assumes "distinct (map fst (bs_files bs))" and "distinct ns"
    and "\<And>n. n \<in> set ns \<Longrightarrow> \<exists>f. FindFile bs n = Some f \<and> transit event (fm_state f) = Some t"
  shows "transit_files event ns bs = Some (set_states t ns bs)"
  using assms
proof (induction ns arbitrary: bs)
  case Nil
  then show ?case by (simp add: set_states_def)
next
  case (Cons n ns)
  obtain f where f: "FindFile bs n = Some f" "transit event (fm_state f) = Some t"
    using Cons.prems(3) [of n] by auto
  let ?bs = "bs\<lparr>bs_files := al_modify n (\<lambda>_. f\<lparr>fm_state := t\<rparr>) (bs_files bs)\<rparr>"
  have find: "FindFile ?bs k = (if k = n then Some (f\<lparr>fm_state := t\<rparr>) else FindFile bs k)" for k
    using f(1) by (simp add: FindFile_def map_of_al_modify)
  have d: "map fst (al_modify n (\<lambda>_. f\<lparr>fm_state := t\<rparr>) (bs_files bs)) = map fst (bs_files bs)"
    by (simp add: al_modify_def comp_def case_prod_unfold if_distrib cong: if_cong)
  have "transit_files event ns ?bs = Some (set_states t ns ?bs)"
    using Cons.prems d find by (intro Cons.IH) (force split: if_splits)+
  moreover have "al_modify n (\<lambda>_. f\<lparr>fm_state := t\<rparr>) (bs_files bs) =
      map (\<lambda>p. (fst p, if fst p = n then (snd p)\<lparr>fm_state := t\<rparr> else snd p)) (bs_files bs)"
  proof -
    have "snd p = f" if "p \<in> set (bs_files bs)" "fst p = n" for p
      using that f(1) Cons.prems(1) by (metis FindFile_def map_of_eq_Some_iff option.inject prod.collapse)
    then show ?thesis by (auto simp: al_modify_def)
  qed
  then have "set_states t ns ?bs = set_states t (n # ns) bs"
    by (auto simp: set_states_def)
  ultimately show ?case using f by (simp add: FileStateTransit_def)
qed

lemma set_states_inv:
  assumes inv: "storage_inv bs" and t: "t \<noteq> Obsolete"
    and l: "\<And>n. n \<in> set ns \<Longrightarrow> live bs n \<noteq> None"
  shows "storage_inv (set_states t ns bs)"
proof -
  let ?h = "\<lambda>p. (fst p, if fst p \<in> set ns then (snd p)\<lparr>fm_state := t\<rparr> else snd p)"
  have obs: "is_obsolete (snd (?h p)) = is_obsolete (snd p)" if "p \<in> set (bs_files bs)" for p
  proof (cases "fst p \<in> set ns")
    case True
    have "map_of (bs_files bs) (fst p) = Some (snd p)" using that inv by (simp add: storage_inv_def)
    then have "\<not> is_obsolete (snd p)" using l [OF True] by (auto simp: live_def)
    with t True show ?thesis by (simp add: is_obsolete_def)
  qed simp
  show ?thesis
    unfolding set_states_def by (rule storage_inv_map_files [OF inv]) (use obs in simp)
qed

lemma set_states_back:
  assumes "\<And>n f. n \<in> set ns \<Longrightarrow> FindFile bs n = Some f \<Longrightarrow> fm_state f = t"
    and "distinct (map fst (bs_files bs))"
  shows "set_states t ns (set_states u ns bs) = bs"
proof -
  have "fm_state (snd p) = t" if "p \<in> set (bs_files bs)" "fst p \<in> set ns" for p
    using assms(1) [OF that(2), of "snd p"] that(1) assms(2) by (simp add: FindFile_def)
  then show ?thesis
    by (cases bs) (auto simp: set_states_def comp_def intro!: map_idI)
qed

section \<open>Fresh scores\<close>

lemma mset_insert_score: "mset (insert_score g gs) = add_mset g (mset gs)"
  by (induction gs) auto

lemma mset_foldr_insert_score: "mset (foldr insert_score gs []) = mset gs"
  by (induction gs) (simp_all add: mset_insert_score)

text \<open>Scores as the last \<open>ComputeGCScore\<close> left them, on the files as they were then.\<close>

definition scores_fresh :: "BlobStorage \<Rightarrow> bool" where
  "scores_fresh bs \<longleftrightarrow> bs_gc_score bs = bs_gc_score (ComputeGCScore bs)"

lemma fresh_scores:
  assumes inv: "storage_inv bs" and fresh: "scores_fresh bs"
  shows "distinct (map gs_file_number (bs_gc_score bs))"
    and "g \<in> set (bs_gc_score bs) \<Longrightarrow>
      \<exists>f. live bs (gs_file_number g) = Some f \<and> gs_score g = gc_score_of (bs_opts bs) f"
proof -
  let ?l = "map (\<lambda>(n, m). \<lparr>gs_file_number = n, gs_score = gc_score_of (bs_opts bs) m\<rparr>)
      (filter (\<lambda>(n, m). \<not> is_obsolete m) (bs_files bs))"
  have sc: "bs_gc_score bs = foldr insert_score ?l []"
    using fresh by (simp add: scores_fresh_def ComputeGCScore_def)
  have d: "distinct (map fst (bs_files bs))" using inv by (simp add: storage_inv_def)
  have "map gs_file_number ?l = map fst (filter (\<lambda>(n, m). \<not> is_obsolete m) (bs_files bs))"
    by (simp add: case_prod_unfold)
  then have "distinct (map gs_file_number ?l)" using d by (simp only: distinct_map_filter)
  moreover have "mset (map gs_file_number (bs_gc_score bs)) = mset (map gs_file_number ?l)"
    unfolding mset_map sc mset_foldr_insert_score ..
  ultimately show "distinct (map gs_file_number (bs_gc_score bs))"
    using mset_eq_imp_distinct_iff by blast
  assume "g \<in> set (bs_gc_score bs)"
  then obtain n m where "(n, m) \<in> set (bs_files bs)" "\<not> is_obsolete m"
    "g = \<lparr>gs_file_number = n, gs_score = gc_score_of (bs_opts bs) m\<rparr>"
    by (auto simp: sc set_foldr_insert_score)
  then show "\<exists>f. live bs (gs_file_number g) = Some f \<and> gs_score g = gc_score_of (bs_opts bs) f"
    using d by (simp add: live_def)
qed

lemma live_FindFile: "live bs n = Some f \<Longrightarrow> FindFile bs n = Some f"
  by (auto simp: live_def FindFile_def split: option.splits if_splits)

lemma FindFile_number: "storage_inv bs \<Longrightarrow> FindFile bs n = Some f \<Longrightarrow> fm_number f = n"
  by (auto simp: storage_inv_def FindFile_def list_all_iff dest: map_of_SomeD)

text \<open>Facts about the files of a batch.\<close>

lemma batch_files:
  assumes inv: "storage_inv bs" and fresh: "scores_fresh bs"
    and f: "f \<in> set (take_batch mx 0 (gc_candidates opts bs (bs_gc_score bs)))"
  shows "live bs (fm_number f) = Some f" "fm_state f = Normal"
    "\<not> dbl_less (gc_score_of (bs_opts bs) f) (co_discardable_ratio opts)"
proof -
  have "f \<in> set (gc_candidates opts bs (bs_gc_score bs))"
    using f take_batch_prefix [of "gc_candidates opts bs (bs_gc_score bs)" mx 0] by (metis Un_iff set_append)
  then obtain g where g: "g \<in> set (takeWhile (\<lambda>g. \<not> dbl_less (gs_score g) (co_discardable_ratio opts)) (bs_gc_score bs))"
    "f = the (FindFile bs (gs_file_number g))" "fm_state f = Normal"
    by (auto simp: gc_candidates_def)
  from set_takeWhileD [OF g(1)] obtain f' where "live bs (gs_file_number g) = Some f'"
    "gs_score g = gc_score_of (bs_opts bs) f'" "\<not> dbl_less (gs_score g) (co_discardable_ratio opts)"
    using fresh_scores(2) [OF inv fresh] by blast
  with g(2,3) live_FindFile FindFile_number [OF inv]
  show "live bs (fm_number f) = Some f" "fm_state f = Normal"
    "\<not> dbl_less (gc_score_of (bs_opts bs) f) (co_discardable_ratio opts)"
    by (metis option.sel)+
qed

lemma batch_distinct:
  assumes inv: "storage_inv bs" and fresh: "scores_fresh bs"
  shows "distinct (map fm_number (take_batch mx 0 (gc_candidates opts bs (bs_gc_score bs))))"
proof -
  let ?gs = "takeWhile (\<lambda>g. \<not> dbl_less (gs_score g) (co_discardable_ratio opts)) (bs_gc_score bs)"
  have "fm_number (the (FindFile bs (gs_file_number g))) = gs_file_number g" if "g \<in> set ?gs" for g
    using fresh_scores(2) [OF inv fresh] set_takeWhileD [OF that] live_FindFile FindFile_number [OF inv]
    by (metis option.sel)
  then have "map fm_number (map (\<lambda>g. the (FindFile bs (gs_file_number g))) ?gs) = map gs_file_number ?gs"
    by simp
  moreover have "distinct (map gs_file_number ?gs)"
    using fresh_scores(1) [OF inv fresh] by (metis distinct_append map_append takeWhile_dropWhile_id)
  ultimately have "distinct (map fm_number (gc_candidates opts bs (bs_gc_score bs)))"
    unfolding gc_candidates_def by (metis distinct_map_filter)
  then show ?thesis
    using take_batch_prefix [of "gc_candidates opts bs (bs_gc_score bs)" mx 0] by (metis distinct_append map_append)
qed

lemma scores_fresh_compute: "scores_fresh (ComputeGCScore bs)"
  by (simp add: scores_fresh_def ComputeGCScore_def)

section \<open>Properties\<close>

text \<open>What a collection that was picked promises, and the storage it leaves.\<close>

definition picked_batch :: "TitanCFOptions \<Rightarrow> BlobStorage \<Rightarrow> BlobGC \<Rightarrow> BlobStorage \<Rightarrow> bool" where
  "picked_batch opts bs gc bs' \<longleftrightarrow>
         (let files = take_batch (co_max_gc_batch_size opts) 0 (gc_candidates opts bs (bs_gc_score bs)) in
          files \<noteq> [] \<and> gc_inputs gc = map fm_number files \<and> distinct (gc_inputs gc) \<and>
          sum_list (map fm_size files) \<ge> co_min_gc_batch_size opts \<and>
          list_all (\<lambda>f. live bs (fm_number f) = Some f \<and> fm_state f = Normal \<and>
            \<not> dbl_less (gc_score_of (bs_opts bs) f) (co_discardable_ratio opts)) files \<and>
          (\<forall>n. FindFile bs' n = map_option (\<lambda>f. if n \<in> set (gc_inputs gc) then f\<lparr>fm_state := BeingGC\<rparr> else f) (FindFile bs n)) \<and>
          ReleaseGcFiles gc bs' = Some bs)"

text \<open>C16: Picking a collection.  On a consistent storage with fresh scores whose live files have
  left the initial state, \<open>PickBlobGC\<close> never follows a null pointer or fails an assertion.  When it
  picks, the inputs are the shortest prefix of the eligible files in score order that fills a
  batch, of at least the minimal batch size; each was live, in the normal state and at or above the
  discardable ratio, and is now being collected; nothing else changes, the storage stays
  consistent, and releasing the files restores it.  When it picks nothing the storage is
  unchanged.\<close>

theorem pick_blob_gc_sound:
  assumes inv: "storage_inv bs" and fresh: "scores_fresh bs"
    and started: "\<And>n f. live bs n = Some f \<Longrightarrow> fm_state f \<noteq> StInit"
  shows "\<exists>r bs'. PickBlobGC opts bs = Some (r, bs') \<and> storage_inv bs' \<and>
    (case r of None \<Rightarrow> bs' = bs | Some gc \<Rightarrow> picked_batch opts bs gc bs')"
proof -
  let ?files = "take_batch (co_max_gc_batch_size opts) 0 (gc_candidates opts bs (bs_gc_score bs))"
  let ?ns = "map fm_number ?files"
  have known: "scores_known bs (bs_gc_score bs)"
    using fresh_scores(2) [OF inv fresh] live_FindFile started
    by (fastforce simp: scores_known_def list_all_iff split: option.splits)
  have "\<not> pk_stop_picking Picking_new" by (simp add: Picking_new_def)
  from loop_picks [OF known this, of opts] obtain p where
    p: "PickBlobGC_loop opts bs (bs_gc_score bs) Picking_new = Some p" "pk_files p = ?files"
    "pk_batch_size p = sum_list (map fm_size ?files)"
    by (auto simp: Picking_new_def)
  have find: "\<exists>f. FindFile bs n = Some f \<and> fm_state f = Normal \<and> live bs n \<noteq> None" if "n \<in> set ?ns" for n
    using that batch_files(1,2) [OF inv fresh] live_FindFile by fastforce
  have d: "distinct ?ns" "distinct (map fst (bs_files bs))"
    using batch_distinct [OF inv fresh] inv by (simp_all add: storage_inv_def)
  have marked: "transit_files GCBegin ?ns bs = Some (set_states BeingGC ?ns bs)"
    by (rule transit_files_ok [OF d(2,1)]) (use find in \<open>fastforce simp: transit_def\<close>)
  have d': "distinct (map fst (bs_files (set_states BeingGC ?ns bs)))"
    using d(2) by (simp add: set_states_def comp_def)
  have "transit_files GCCompleted ?ns (set_states BeingGC ?ns bs) = Some (set_states Normal ?ns (set_states BeingGC ?ns bs))"
    by (rule transit_files_ok [OF d' d(1)]) (use find in \<open>fastforce simp: transit_def FindFile_set_states\<close>)
  then have restored: "transit_files GCCompleted ?ns (set_states BeingGC ?ns bs) = Some bs"
    using set_states_back [of ?ns bs Normal BeingGC] find d(2) by fastforce
  have inv': "storage_inv (set_states BeingGC ?ns bs)"
    using set_states_inv [OF inv, of BeingGC ?ns] find by blast
  have la: "list_all (\<lambda>f. live bs (fm_number f) = Some f \<and> fm_state f = Normal \<and>
      \<not> dbl_less (gc_score_of (bs_opts bs) f) (co_discardable_ratio opts)) ?files"
    using batch_files [OF inv fresh] by (simp add: list_all_iff)
  show ?thesis
    using p inv inv' marked restored d(1) la
    by (auto simp: PickBlobGC_def BlobGC_new_def MarkFilesBeingGC_def ReleaseGcFiles_def FindFile_set_states
        picked_batch_def Let_def not_less)
qed

definition demo_file :: BlobFileMeta where
  "demo_file = (BlobFileMeta_new 3 4 1 0 [] [])\<lparr>fm_state := Normal\<rparr>"

definition demo_gc_options :: TitanCFOptions where
  "demo_gc_options = demo_options\<lparr>co_min_gc_batch_size := 2\<rparr>"

theorem pick_blob_gc_sound_witness:
  "\<exists>bs gc bs'. AddBlobFile demo_file (BlobStorage_new demo_options 0 None) = Some bs \<and>
     PickBlobGC demo_gc_options (ComputeGCScore bs) = Some (Some gc, bs') \<and> gc_inputs gc = [3] \<and>
     storage_inv bs' \<and> ReleaseGcFiles gc bs' = Some (ComputeGCScore bs)"
proof -
  let ?s = "BlobStorage_new demo_options 0 None"
  have i: "storage_inv ?s" by (simp add: BlobStorage_new_inv)
  have a: "addable ?s demo_file" "live ?s (fm_number demo_file) = None" "obsolete_at ?s (fm_number demo_file) = None"
    by (simp_all add: addable_def BlobStorage_new_def demo_options_def BlobFileMeta_new_def demo_file_def
        is_obsolete_def live_def obsolete_at_def)
  obtain bs where bs: "AddBlobFile demo_file ?s = Some bs" "storage_inv bs"
    "live bs = (live ?s)(fm_number demo_file \<mapsto> demo_file)" "bs_opts bs = bs_opts ?s"
    "bs_files bs = bs_files ?s @ [(fm_number demo_file, demo_file)]"
    by (rule AddBlobFile_ok [OF i a])
  let ?b = "ComputeGCScore bs"
  have inv: "storage_inv ?b" using bs(2) by simp
  have files: "bs_files bs = [(3, demo_file)]" "bs_opts bs = demo_options"
    using bs(4,5) by (simp_all add: BlobStorage_new_def demo_file_def BlobFileMeta_new_def)
  have "live ?s n = None" for n by (simp add: live_def BlobStorage_new_def)
  then have st: "fm_state f \<noteq> StInit" if "live ?b n = Some f" for n f
    using that bs(3) by (auto simp: demo_file_def split: if_splits)
  have sc: "bs_gc_score ?b = [\<lparr>gs_file_number = 3, gs_score = Fin (1 / 2)\<rparr>]"
    using files by (simp add: ComputeGCScore_def demo_file_def demo_options_def is_obsolete_def gc_score_of_def BlobFileMeta_new_def)
  have "PickBlobGC_loop demo_gc_options ?b (bs_gc_score ?b) Picking_new =
      Some (Picking_new\<lparr>pk_files := [demo_file], pk_batch_size := 4, pk_estimate_output_size := 0\<rparr>)"
    unfolding sc using files
    by (simp add: FindFile_def CheckBlobFile_def demo_file_def BlobFileMeta_new_def demo_gc_options_def demo_options_def
        Picking_new_def pick_file_def)
  then have "\<exists>r. PickBlobGC demo_gc_options ?b = map_option (\<lambda>(gc, bs). (Some gc, bs)) r"
    by (auto simp: PickBlobGC_def demo_gc_options_def demo_options_def demo_file_def BlobFileMeta_new_def
        GetDiscardableRatio_def kBlobMaxHeaderSize_def kBlobFooterSize_def Let_def)
  moreover obtain r bs' where r: "PickBlobGC demo_gc_options ?b = Some (r, bs')" "storage_inv bs'"
    "case r of None \<Rightarrow> bs' = ?b | Some gc \<Rightarrow> picked_batch demo_gc_options ?b gc bs'"
    using pick_blob_gc_sound [OF inv scores_fresh_compute, where opts = demo_gc_options] st by blast
  moreover have "map fm_number (take_batch (co_max_gc_batch_size demo_gc_options) 0
      (gc_candidates demo_gc_options ?b (bs_gc_score ?b))) = [3]"
    unfolding sc using files
    by (simp add: gc_candidates_def FindFile_def demo_gc_options_def demo_options_def demo_file_def BlobFileMeta_new_def)
  ultimately show ?thesis
    using bs(1) by (cases r) (auto simp: picked_batch_def map_option_case Let_def split: option.splits)
qed

end
