(* ===== verification/Titan_Accounting.thy ===== *)
theory Titan_Accounting
  imports Titan_Events Titan_GCPicker
begin

text \<open>
  What the handlers of \<open>Titan_Events\<close> keep true: live bytes follow the blob indexes in the
  tables, dead records enter the bitmaps, a flush and a compaction that race give the same files,
  and the live bytes rebuilt at start are the ones the tables refer to.
\<close>

section \<open>Compaction\<close>

text \<open>A database with one column family and one file, for concrete instances.\<close>

definition demo_storage :: "BlobFileMeta \<Rightarrow> BlobStorage" where
  "demo_storage f = (BlobStorage_new demo_options 0 None)
     \<lparr>bs_files := [(fm_number f, f)], bs_levels := [1, 0], bs_ranges := [(fm_smallest f, fm_number f)]\<rparr>"

definition demo_db :: "BlobFileMeta \<Rightarrow> bool \<Rightarrow> TitanDB" where
  "demo_db f bitmap = \<lparr>tb_fileset = (demo_fileset [])\<lparr>fs_columns := [(0, demo_storage f)]\<rparr>,
     tb_sched = Scheduler_new False 1, tb_initialized = True, tb_use_bitmap = (\<lambda>_. bitmap), tb_sequence = 7\<rparr>"

definition demo_table :: "(bytes \<times> EntryType) list" where
  "demo_table = [(BlobIndex_EncodeTo [] demo_index, kEntryBlobIndex), ([0], kEntryPut)]"

definition demo_tables :: "string \<rightharpoonup> (bytes \<times> EntryType) list" where
  "demo_tables = [''in'' \<mapsto> demo_table, ''out'' \<mapsto> []]"

definition demo_job :: CompactionJobInfo where
  "demo_job = \<lparr>cj_status = OK, cj_cf_id = 0, cj_input_files = [''in''], cj_output_files = [''out''],
     cj_table_properties = (\<lambda>name. map_option (\<lambda>es. Some (table_properties es)) (demo_tables name)),
     cj_output_level = 1\<rparr>"

definition demo_live_file :: BlobFileMeta where
  "demo_live_file = (BlobFileMeta_new 3 100 2 0 [] [])\<lparr>fm_state := Normal, fm_live := 80\<rparr>"

lemma demo_storage_inv: "\<not> is_obsolete f \<Longrightarrow> fm_level f = 0 \<Longrightarrow> storage_inv (demo_storage f)"
  by (auto simp: demo_storage_def storage_simps BlobStorage_new_def less_Suc_eq nth_Cons')

lemma demo_storage_simps [simp]:
  "FindFile (demo_storage f) n = (if n = fm_number f then Some f else None)" "bs_opts (demo_storage f) = demo_options"
  "db_storage (demo_db f b) 0 = Some (demo_storage f)" "tb_initialized (demo_db f b)"
  "tb_use_bitmap (demo_db f b) cf = b" "cj_status demo_job = OK" "cj_cf_id demo_job = 0"
  by (simp_all add: demo_storage_def BlobStorage_new_def FindFile_def demo_db_def db_storage_def GetBlobStorage_def demo_job_def)

lemma demo_refs [simp]: "blob_refs demo_table = [demo_index]" "blob_refs [] = []"
  using demo_index_refs by (simp_all add: demo_table_def blob_refs_def)

lemma demo_collected: "collected_job demo_tables demo_job"
  by (auto simp: collected_job_def demo_job_def demo_tables_def demo_table_def table_fits_def split: if_splits)

lemma demo_net: "touched demo_tables demo_job = {3}" "net_bytes demo_tables demo_job 3 = - 40"
  "refs_indexes (files_refs demo_tables (cj_input_files demo_job)) n = (if n = 3 then [1] else [])"
  "files_refs demo_tables (cj_output_files demo_job) = []"
  by (simp_all add: touched_def net_bytes_def files_refs_def demo_job_def demo_tables_def refs_size_def refs_to_def
      demo_index_def refs_indexes_def)

lemma db_set_storage_flags [simp]:
  "tb_initialized (db_set_storage cf bs db) = tb_initialized db" "tb_use_bitmap (db_set_storage cf bs db) = tb_use_bitmap db"
  by (simp_all add: db_set_storage_def)

lemma OnCompactionCompleted_no_bitmap:
  assumes "tb_initialized db" "cj_status job = OK" "\<not> tb_use_bitmap db (cj_cf_id job)" and job: "collected_job tables job"
  obtains diff where "OnCompactionCompleted job db = compaction_account job diff db" "smap_wf diff"
    "\<And>n. diff_val diff n = net_bytes tables job n" "fst ` set diff = touched tables job"
proof -
  obtain d1 diff where "opt_fold (update_diff job False) (cj_input_files job) [] = Some d1"
    "opt_fold (update_diff job True) (cj_output_files job) d1 = Some diff" "smap_wf diff"
    "\<And>n. diff_val diff n = net_bytes tables job n" "fst ` set diff = touched tables job"
    by (rule job_diff_ok [OF job]) (rule that; (assumption | simp))
  with assms that show thesis by (simp add: OnCompactionCompleted_def)
qed

lemma OnCompactionCompleted_account:
  assumes "tb_initialized db" "cj_status job = OK" "\<not> tb_use_bitmap db (cj_cf_id job)"
    and st: "db_storage db (cj_cf_id job) = Some bs" "storage_inv bs" "\<not> co_level_merge (bs_opts bs)"
    and job: "collected_job tables job" and pre: "account_pre tables job bs"
  shows "\<exists>bs'. OnCompactionCompleted job db = Some ((db_set_storage (cj_cf_id job) bs' db)
        \<lparr>tb_sched := MaybeScheduleGC (AddToGCQueue (cj_cf_id job) (tb_sched db))\<rparr>) \<and>
      storage_inv bs' \<and> scores_fresh bs' \<and>
      (\<forall>n. FindFile bs' n = map_option (\<lambda>f. if is_obsolete f \<or> n \<notin> touched tables job then f
             else accounted (net_bytes tables job n) f) (FindFile bs n))"
proof -
  obtain diff where d: "OnCompactionCompleted job db = compaction_account job diff db" "smap_wf diff"
    "\<And>n. diff_val diff n = net_bytes tables job n" "fst ` set diff = touched tables job"
    by (rule OnCompactionCompleted_no_bitmap [OF assms(1-3) job]) (rule that; (assumption | simp))
  show ?thesis unfolding d(1) scores_fresh_def
    by (rule compaction_account_ok [OF st d(2,3,4) pre]) (assumption | (rule exI, intro conjI allI; assumption))+
qed



section \<open>Dead records\<close>

text \<open>The bitmaps of the files are in order and the tables name records that the files have.\<close>

definition records_fit :: "(string \<rightharpoonup> (bytes \<times> EntryType) list) \<Rightarrow> CompactionJobInfo \<Rightarrow> BlobStorage \<Rightarrow> bool" where
  "records_fit tables job bs \<longleftrightarrow>
     (\<forall>n f. FindFile bs n = Some f \<longrightarrow> \<not> is_obsolete f \<longrightarrow> bitmap_ok f \<and>
        indexes_fit f (refs_indexes (files_refs tables (cj_input_files job)) n) \<and>
        indexes_fit f (refs_indexes (files_refs tables (cj_output_files job)) n))"

text \<open>What entering the dead records does to a file.\<close>

definition records_marked ::
    "(string \<rightharpoonup> (bytes \<times> EntryType) list) \<Rightarrow> CompactionJobInfo \<Rightarrow> u64 \<Rightarrow> BlobFileMeta \<Rightarrow> BlobFileMeta \<Rightarrow> bool" where
  "records_marked tables job n f f' \<longleftrightarrow>
     (if is_obsolete f then f' = f
      else marked (refs_indexes (files_refs tables (cj_input_files job)) n)
             (refs_indexes (files_refs tables (cj_output_files job)) n) f f')"

lemma compaction_bitmaps_ok:
  assumes st: "db_storage db (cj_cf_id job) = Some bs" and inv: "storage_inv bs"
    and job: "collected_job tables job" and fit: "records_fit tables job bs"
  obtains bs' where "compaction_bitmaps job db = Some (True, db_set_storage (cj_cf_id job) bs' db)"
    "storage_inv bs'" "bs_opts bs' = bs_opts bs"
    "\<And>n. rel_option (records_marked tables job n) (FindFile bs n) (FindFile bs' n)"
proof -
  let ?I = "\<lambda>n. refs_indexes (files_refs tables (cj_input_files job)) n"
  let ?O = "\<lambda>n. refs_indexes (files_refs tables (cj_output_files job)) n"
  obtain ins where ins: "opt_fold (validation_diff job) (cj_input_files job) [] = Some ins" "distinct (map fst ins)"
    "\<And>n. al_list ins n = ?I n"
    using validation_diffs_ok [OF job, of "[]" "cj_input_files job"] by (auto simp: al_list_def)
  obtain outs where outs: "opt_fold (validation_diff job) (cj_output_files job) [] = Some outs"
    "\<And>n. al_list outs n = ?O n"
    using validation_diffs_ok [OF job, of "[]" "cj_output_files job"] by (auto simp: al_list_def)
  have item: "snd x = ?I (fst x)" if "x \<in> set ins" for x
    using that ins(2) ins(3) [of "fst x"] by (cases x rule: prod.exhaust) (simp add: al_list_def)
  have "case FindFile bs (fst x) of None \<Rightarrow> True | Some f \<Rightarrow> \<not> is_obsolete f \<longrightarrow>
      bitmap_ok f \<and> indexes_fit f (snd x) \<and> indexes_fit f (al_list outs (fst x))" if "x \<in> set ins" for x
    using fit unfolding item [OF that] outs(2) by (cases "FindFile bs (fst x)") (simp_all add: records_fit_def)
  then obtain bs' where bs': "opt_fold (validate_file outs) ins bs = Some bs'" "storage_inv bs'" "bs_opts bs' = bs_opts bs"
    "\<And>x. x \<in> set ins \<Longrightarrow> case FindFile bs (fst x) of None \<Rightarrow> FindFile bs' (fst x) = None | Some f \<Rightarrow>
       if is_obsolete f then FindFile bs' (fst x) = Some f
       else \<exists>f'. FindFile bs' (fst x) = Some f' \<and> marked (snd x) (al_list outs (fst x)) f f'"
    "\<And>k. k \<notin> fst ` set ins \<Longrightarrow> FindFile bs' k = FindFile bs k"
    using validate.loop_ok [of bs "bs_opts bs" ins outs] inv ins(2) by blast
  have rel: "rel_option (records_marked tables job n) (FindFile bs n) (FindFile bs' n)" for n
  proof (cases "n \<in> fst ` set ins")
    case True
    then obtain x where x: "x \<in> set ins" "fst x = n" by blast
    show ?thesis using bs'(4) [OF x(1)] unfolding item [OF x(1)] x(2) outs(2)
      by (cases "FindFile bs n") (auto simp: records_marked_def split: if_splits)
  next
    case False
    then have "map_of ins n = None" by (simp add: map_of_eq_None_iff)
    then have "?I n = []" using ins(3) [of n] by (simp add: al_list_def)
    moreover have "bitmap_ok f" if "FindFile bs n = Some f" "\<not> is_obsolete f" for f using fit that by (simp add: records_fit_def)
    ultimately show ?thesis using bs'(5) [OF False] by (cases "FindFile bs n") (simp_all add: records_marked_def marked_def)
  qed
  have "compaction_bitmaps job db = Some (True, db_set_storage (cj_cf_id job) bs' db)"
    using ins(1) outs(1) st bs'(1) by (simp add: compaction_bitmaps_def)
  then show thesis using that bs'(2,3) rel by blast
qed

lemma db_set_storage_twice: "db_set_storage cf b1 (db_set_storage cf b2 db) = db_set_storage cf b1 db"
proof -
  have "al_modify cf (\<lambda>_. b1) (al_modify cf (\<lambda>_. b2) xs) = al_modify cf (\<lambda>_. b1) xs" for xs :: "(u32 \<times> BlobStorage) list"
    by (auto simp: al_modify_def)
  then show ?thesis by (simp add: db_set_storage_def)
qed

lemma accounted_fields [simp]:
  "fm_invalid (accounted d f) = fm_invalid f" "fm_entries (accounted d f) = fm_entries f"
  "dead_record (accounted d f) = dead_record f" "is_obsolete (accounted d f) = is_obsolete f"
  "bitmap_ok (accounted d f) = bitmap_ok f"
  by (auto simp: accounted_def dead_record_def is_obsolete_def bitmap_ok_def fun_eq_iff split: option.splits)

lemma marked_account:
  assumes "marked ins outs f g"
  shows "account_ok d g = account_ok d f" "is_obsolete g = is_obsolete f" "fm_live (accounted d g) = fm_live (accounted d f)"
    "fm_live g = fm_live f"
proof -
  obtain b where "g = f\<lparr>fm_invalid := b\<rparr>" using assms unfolding marked_def by blast
  then show "account_ok d g = account_ok d f" "is_obsolete g = is_obsolete f" "fm_live (accounted d g) = fm_live (accounted d f)"
    "fm_live g = fm_live f" by (simp_all add: account_ok_def is_obsolete_def accounted_def)
qed

lemma account_pre_marked:
  assumes rel: "\<And>n. rel_option (records_marked tables job n) (FindFile bs n) (FindFile bs' n)" and pre: "account_pre tables job bs"
  shows "account_pre tables job bs'"
  unfolding account_pre_def
proof (intro allI impI)
  fix n g assume n: "n \<in> touched tables job" "FindFile bs' n = Some g" "\<not> is_obsolete g"
  then obtain f where f: "FindFile bs n = Some f" "records_marked tables job n f g"
    using rel [of n] by (cases "FindFile bs n") auto
  then have "\<not> is_obsolete f" using n(3) by (auto simp: records_marked_def)
  with f n(1) pre show "account_ok (net_bytes tables job n) g"
    by (auto simp: records_marked_def account_pre_def marked_account)
qed

text \<open>C9: With the bitmap on, the records of a file that the input tables referred to and the
  output tables do not are entered as dead, and no other record changes; the live bytes are
  accounted as without the bitmap.\<close>

theorem compaction_marks_dead_records:
  assumes "tb_initialized db" "cj_status job = OK" "tb_use_bitmap db (cj_cf_id job)"
    and st: "db_storage db (cj_cf_id job) = Some bs" "storage_inv bs" "\<not> co_level_merge (bs_opts bs)"
    and job: "collected_job tables job" and pre: "account_pre tables job bs" and fit: "records_fit tables job bs"
  shows "\<exists>bs'. OnCompactionCompleted job db = Some ((db_set_storage (cj_cf_id job) bs' db)
        \<lparr>tb_sched := MaybeScheduleGC (AddToGCQueue (cj_cf_id job) (tb_sched db))\<rparr>) \<and>
      storage_inv bs' \<and>
      (\<forall>n f. FindFile bs n = Some f \<and> \<not> is_obsolete f \<longrightarrow>
         (\<exists>f'. FindFile bs' n = Some f' \<and> bitmap_ok f' \<and>
            fm_live f' = fm_live (if n \<in> touched tables job then accounted (net_bytes tables job n) f else f) \<and>
            (\<forall>j \<le> fm_entries f. dead_record f' j \<longleftrightarrow> dead_record f j \<or>
               j \<in> set (refs_indexes (files_refs tables (cj_input_files job)) n) \<and>
               j \<notin> set (refs_indexes (files_refs tables (cj_output_files job)) n))))"
    (is "\<exists>bs'. _ \<and> _ \<and> (\<forall>n f. _ \<longrightarrow> ?P bs' n f)")
proof -
  obtain d1 diff where d: "opt_fold (update_diff job False) (cj_input_files job) [] = Some d1"
    "opt_fold (update_diff job True) (cj_output_files job) d1 = Some diff" "smap_wf diff"
    "\<And>n. diff_val diff n = net_bytes tables job n" "fst ` set diff = touched tables job"
    by (rule job_diff_ok [OF job]) (rule that; (assumption | simp))
  obtain b1 where b1: "compaction_bitmaps job db = Some (True, db_set_storage (cj_cf_id job) b1 db)"
    "storage_inv b1" "bs_opts b1 = bs_opts bs"
    "\<And>n. rel_option (records_marked tables job n) (FindFile bs n) (FindFile b1 n)"
    by (rule compaction_bitmaps_ok [OF st(1,2) job fit]) (rule that; (assumption | simp))
  let ?db = "db_set_storage (cj_cf_id job) b1 db"
  have st': "db_storage ?db (cj_cf_id job) = Some b1" "\<not> co_level_merge (bs_opts b1)"
    using st(1,3) b1(3) by (simp_all add: db_storage_set)
  obtain bs' where bs': "compaction_account job diff ?db = Some ((db_set_storage (cj_cf_id job) bs' ?db)
        \<lparr>tb_sched := MaybeScheduleGC (AddToGCQueue (cj_cf_id job) (tb_sched ?db))\<rparr>)" "storage_inv bs'"
    "\<And>n. FindFile bs' n = map_option (\<lambda>f. if is_obsolete f \<or> n \<notin> touched tables job then f
        else accounted (net_bytes tables job n) f) (FindFile b1 n)"
    by (rule compaction_account_ok [OF st'(1) b1(2) st'(2) d(3,4,5) account_pre_marked [OF b1(4) pre]])
      (rule that; (assumption | simp))
  have "?P bs' n f" if f: "FindFile bs n = Some f" "\<not> is_obsolete f" for n f
  proof -
    obtain g where g: "FindFile b1 n = Some g" "records_marked tables job n f g"
      using b1(4) [of n] f(1) by (cases "FindFile b1 n") auto
    then show ?thesis using f(2) bs'(3) [of n]
      by (auto simp: records_marked_def marked_account) (simp_all add: marked_def)
  qed
  moreover have "OnCompactionCompleted job db = Some ((db_set_storage (cj_cf_id job) bs' db)
        \<lparr>tb_sched := MaybeScheduleGC (AddToGCQueue (cj_cf_id job) (tb_sched db))\<rparr>)"
    using assms(1,2,3) d(1,2) b1(1) bs'(1) by (simp add: OnCompactionCompleted_def db_set_storage_twice)
  ultimately show ?thesis using bs'(2) by blast
qed

theorem compaction_marks_dead_records_witness:
  "\<exists>bs' f'. OnCompactionCompleted demo_job (demo_db demo_live_file True) =
      Some ((db_set_storage 0 bs' (demo_db demo_live_file True))
        \<lparr>tb_sched := MaybeScheduleGC (AddToGCQueue 0 (tb_sched (demo_db demo_live_file True)))\<rparr>) \<and>
     FindFile bs' 3 = Some f' \<and> fm_live f' = 40 \<and> dead_record f' 1 \<and> \<not> dead_record f' 2"
proof -
  let ?db = "demo_db demo_live_file True" and ?bs = "demo_storage demo_live_file"
  have e: "fm_entries demo_live_file = 2" by (simp add: demo_live_file_def BlobFileMeta_new_def)
  have bm: "bitmap_ok demo_live_file" "\<And>j. j \<le> 2 \<Longrightarrow> \<not> dead_record demo_live_file j"
    using BitMap_new_wf [of 2] bm_test_new [of _ 2]
    by (simp_all add: bitmap_ok_def dead_record_def demo_live_file_def BlobFileMeta_new_def BitMap_new_def Let_def)
  have "account_pre demo_tables demo_job ?bs"
    by (auto simp: account_pre_def demo_net account_ok_def demo_live_file_def BlobFileMeta_new_def)
  moreover have "records_fit demo_tables demo_job ?bs"
    using bm(1) e by (simp add: records_fit_def demo_net indexes_fit_def) (simp add: refs_indexes_def refs_to_def)
  moreover have f: "FindFile ?bs 3 = Some demo_live_file \<and> \<not> is_obsolete demo_live_file"
    by (simp add: demo_live_file_def BlobFileMeta_new_def is_obsolete_def)
  moreover have "storage_inv ?bs" using f by (intro demo_storage_inv) (auto simp: demo_live_file_def BlobFileMeta_new_def)
  ultimately obtain bs' where r: "OnCompactionCompleted demo_job ?db = Some ((db_set_storage 0 bs' ?db)
        \<lparr>tb_sched := MaybeScheduleGC (AddToGCQueue 0 (tb_sched ?db))\<rparr>)"
    and "\<exists>f'. FindFile bs' 3 = Some f' \<and> bitmap_ok f' \<and>
      fm_live f' = fm_live (if 3 \<in> touched demo_tables demo_job then accounted (net_bytes demo_tables demo_job 3) demo_live_file
        else demo_live_file) \<and>
      (\<forall>j \<le> fm_entries demo_live_file. dead_record f' j \<longleftrightarrow> dead_record demo_live_file j \<or>
         j \<in> set (refs_indexes (files_refs demo_tables (cj_input_files demo_job)) 3) \<and>
         j \<notin> set (refs_indexes (files_refs demo_tables (cj_output_files demo_job)) 3))"
    using compaction_marks_dead_records [of ?db demo_job ?bs demo_tables] demo_collected
    unfolding demo_storage_simps(6,7) by (auto simp: demo_options_def)
  then obtain f' where "FindFile bs' 3 = Some f'" "fm_live f' = fm_live (accounted (- 40) demo_live_file)"
    "\<forall>j \<le> fm_entries demo_live_file. dead_record f' j \<longleftrightarrow> dead_record demo_live_file j \<or> j = 1"
    unfolding demo_net by (auto simp: refs_indexes_def refs_to_def)
  with r show ?thesis using bm(2) [of 1] bm(2) [of 2]
    by (auto simp: demo_live_file_def BlobFileMeta_new_def accounted_def)
qed

section \<open>A flush and a compaction\<close>

lemma OnFlushCompleted_ok:
  assumes init: "tb_initialized db" and st: "db_storage db cf = Some bs" "storage_inv bs" and fits: "table_fits es"
    and pre: "\<And>n f. n \<in> bi_file_number ` set (blob_refs es) \<Longrightarrow> FindFile bs n = Some f \<Longrightarrow> fm_state f = PendingLSM \<Longrightarrow>
      0 \<le> sint (refs_size (blob_refs es) n)"
  obtains bs' where "OnFlushCompleted (Some (table_properties es)) cf db = Some (db_set_storage cf bs' db)"
    "storage_inv bs'" "bs_opts bs' = bs_opts bs"
    "\<And>n. FindFile bs' n = map_option (\<lambda>f. if n \<in> bi_file_number ` set (blob_refs es)
        then flushed (refs_size (blob_refs es) n) f else f) (FindFile bs n)"
proof -
  obtain d where d: "ExtractGCStatsFromTableProperty (Some (table_properties es)) True [] = (OK, d)" "smap_wf d"
    "\<And>n. diff_val d n = refs_size (blob_refs es) n" "fst ` set d = bi_file_number ` set (blob_refs es)"
    by (rule Extract_sizes [OF fits, of True "[]"]) (rule that; (assumption | simp add: diff_val_def))
  have dv: "snd x = refs_size (blob_refs es) (fst x)" if "x \<in> set d" for x
    using diff_val_in [OF d(2) that] d(3) by simp
  have "case FindFile bs (fst x) of None \<Rightarrow> True | Some f \<Rightarrow> fm_state f = PendingLSM \<longrightarrow> 0 \<le> sint (snd x)"
    if "x \<in> set d" for x
  proof -
    have "fst x \<in> bi_file_number ` set (blob_refs es)" using that d(4) by blast
    from pre [OF this] show ?thesis unfolding dv [OF that] by (cases "FindFile bs (fst x)") simp_all
  qed
  then obtain bs' where bs': "opt_fold flush_file d bs = Some bs'" "storage_inv bs'" "bs_opts bs' = bs_opts bs"
    "\<And>x. x \<in> set d \<Longrightarrow> FindFile bs' (fst x) = map_option (flushed (snd x)) (FindFile bs (fst x))"
    "\<And>k. k \<notin> fst ` set d \<Longrightarrow> FindFile bs' k = FindFile bs k"
    using flush.loop_ok [of bs "bs_opts bs" d] st(2) smap_wf_distinct [OF d(2)] by blast
  have "FindFile bs' n = map_option (\<lambda>f. if n \<in> bi_file_number ` set (blob_refs es)
        then flushed (refs_size (blob_refs es) n) f else f) (FindFile bs n)" for n
  proof (cases "n \<in> fst ` set d")
    case True
    then obtain x where x: "x \<in> set d" "fst x = n" by blast
    from bs'(4) [OF x(1)] show ?thesis using True unfolding dv [OF x(1)] x(2) d(4) by simp
  next
    case False
    from bs'(5) [OF False] show ?thesis using False unfolding d(4) by (simp add: option.map_ident)
  qed
  moreover have "OnFlushCompleted (Some (table_properties es)) cf db = Some (db_set_storage cf bs' db)"
    using init d(1) st(1) bs'(1) by (simp add: OnFlushCompleted_def)
  ultimately show thesis using that bs'(2,3) by blast
qed

text \<open>
  A table is flushed and, before the flush is reported, a compaction reads it.  A file that waits
  for the flush has no live data yet, the flush brings its bytes and the compaction only removes
  some of them; for every other file the compaction alone must be in order.
\<close>

definition race_ok :: "(bytes \<times> EntryType) list \<Rightarrow> (string \<rightharpoonup> (bytes \<times> EntryType) list) \<Rightarrow> CompactionJobInfo \<Rightarrow>
    u64 \<Rightarrow> BlobFileMeta \<Rightarrow> bool" where
  "race_ok es tables job n f \<longleftrightarrow>
     (let F = refs_size (blob_refs es) n; N = net_bytes tables job n in
      if fm_state f = PendingLSM \<and> n \<in> bi_file_number ` set (blob_refs es)
      then fm_live f = 0 \<and> 0 \<le> sint F \<and> sint N \<le> 0 \<and> 0 \<le> sint (- N) \<and> 0 \<le> sint (F + N)
      else n \<in> touched tables job \<longrightarrow> \<not> is_obsolete f \<longrightarrow> account_ok N f)"

lemma race_commutes:
  assumes "race_ok es tables job n f"
  defines "F \<equiv> \<lambda>f. if n \<in> bi_file_number ` set (blob_refs es) then flushed (refs_size (blob_refs es) n) f else f"
    and "C \<equiv> \<lambda>f. if is_obsolete f \<or> n \<notin> touched tables job then f else accounted (net_bytes tables job n) f"
  shows "C (F f) = F (C f)"
    and "n \<in> touched tables job \<Longrightarrow> \<not> is_obsolete f \<Longrightarrow> account_ok (net_bytes tables job n) f"
    and "n \<in> touched tables job \<Longrightarrow> \<not> is_obsolete (F f) \<Longrightarrow> account_ok (net_bytes tables job n) (F f)"
proof -
  consider (race) "fm_state f = PendingLSM" "n \<in> bi_file_number ` set (blob_refs es)"
    | (other) "\<not> (fm_state f = PendingLSM \<and> n \<in> bi_file_number ` set (blob_refs es))" by blast
  then have "C (F f) = F (C f) \<and> (n \<in> touched tables job \<longrightarrow> \<not> is_obsolete f \<longrightarrow> account_ok (net_bytes tables job n) f) \<and>
      (n \<in> touched tables job \<longrightarrow> \<not> is_obsolete (F f) \<longrightarrow> account_ok (net_bytes tables job n) (F f))"
  proof cases
    case race
    with assms(1) show ?thesis
      unfolding race_ok_def Let_def F_def C_def
      by (auto simp: flushed_def accounted_def account_ok_def is_obsolete_def)
  next
    case other
    then have "F f = f" "F (C f) = C f"
      by (auto simp: F_def C_def flushed_def accounted_def)
    with assms(1) other show ?thesis unfolding race_ok_def Let_def by auto
  qed
  then show "C (F f) = F (C f)"
    "n \<in> touched tables job \<Longrightarrow> \<not> is_obsolete f \<Longrightarrow> account_ok (net_bytes tables job n) f"
    "n \<in> touched tables job \<Longrightarrow> \<not> is_obsolete (F f) \<Longrightarrow> account_ok (net_bytes tables job n) (F f)" by blast+
qed

text \<open>C12: A flush and a compaction of the flushed table may be reported in either order: both
  orders succeed and leave the same files, with the same live bytes and the same states.\<close>

theorem flush_compaction_commute:
  assumes init: "tb_initialized db" "cj_status job = OK" "\<not> tb_use_bitmap db (cj_cf_id job)"
    and st: "db_storage db (cj_cf_id job) = Some bs" "storage_inv bs" "\<not> co_level_merge (bs_opts bs)"
    and job: "collected_job tables job" and fits: "length es < 2 ^ 32"
    and race: "\<And>n f. FindFile bs n = Some f \<Longrightarrow> race_ok es tables job n f"
  shows "\<exists>db1 db2 b1 b2.
      Option.bind (OnFlushCompleted (Some (table_properties es)) (cj_cf_id job) db) (OnCompactionCompleted job) = Some db1 \<and>
      Option.bind (OnCompactionCompleted job db) (OnFlushCompleted (Some (table_properties es)) (cj_cf_id job)) = Some db2 \<and>
      db_storage db1 (cj_cf_id job) = Some b1 \<and> db_storage db2 (cj_cf_id job) = Some b2 \<and>
      FindFile b1 = FindFile b2 \<and> storage_inv b1 \<and> storage_inv b2 \<and> tb_sched db1 = tb_sched db2"
proof -
  let ?cf = "cj_cf_id job"
  let ?F = "\<lambda>n f. if n \<in> bi_file_number ` set (blob_refs es) then flushed (refs_size (blob_refs es) n) f else f"
  let ?C = "\<lambda>n f. if is_obsolete f \<or> n \<notin> touched tables job then f else accounted (net_bytes tables job n) f"
  let ?S = "MaybeScheduleGC (AddToGCQueue ?cf (tb_sched db))"
  note fit = fits [folded table_fits_def]
  note rc = race_commutes [OF race]
  have pos: "0 \<le> sint (refs_size (blob_refs es) n)"
    if "n \<in> bi_file_number ` set (blob_refs es)" "FindFile bs n = Some f" "fm_state f = PendingLSM" for n f
    using race [OF that(2)] that by (simp add: race_ok_def Let_def)
  obtain bf where bf: "OnFlushCompleted (Some (table_properties es)) ?cf db = Some (db_set_storage ?cf bf db)"
    "storage_inv bf" "bs_opts bf = bs_opts bs" "\<And>n. FindFile bf n = map_option (?F n) (FindFile bs n)"
    by (rule OnFlushCompleted_ok [OF init(1) st(1,2) fit], erule (2) pos) (rule that; (assumption | simp))
  let ?db = "db_set_storage ?cf bf db"
  have db: "db_storage ?db ?cf = Some bf" "tb_initialized ?db" "\<not> tb_use_bitmap ?db ?cf" "\<not> co_level_merge (bs_opts bf)"
    using st init bf(3) by (simp_all add: db_storage_set)
  have "account_ok (net_bytes tables job n) g" if g: "n \<in> touched tables job" "FindFile bf n = Some g" "\<not> is_obsolete g" for n g
  proof -
    obtain f where "FindFile bs n = Some f" "g = ?F n f" using g(2) bf(4) [of n] by (cases "FindFile bs n") simp_all
    then show ?thesis using rc(3) [of n f] g(1,3) by simp
  qed
  then have pre: "account_pre tables job bs" "account_pre tables job bf"
    using rc(2) unfolding account_pre_def by blast+
  obtain bc where bc: "OnCompactionCompleted job db = Some ((db_set_storage ?cf bc db)\<lparr>tb_sched := ?S\<rparr>)"
    "storage_inv bc" "\<And>n. FindFile bc n = map_option (?C n) (FindFile bs n)"
    using OnCompactionCompleted_account [OF init st job pre(1)] by blast
  obtain b1 where b1: "OnCompactionCompleted job ?db = Some ((db_set_storage ?cf b1 ?db)\<lparr>tb_sched := ?S\<rparr>)"
    "storage_inv b1" "\<And>n. FindFile b1 n = map_option (?C n) (FindFile bf n)"
    using OnCompactionCompleted_account [OF db(2) init(2) db(3,1) bf(2) db(4) job pre(2)] by auto
  let ?dc = "(db_set_storage ?cf bc db)\<lparr>tb_sched := ?S\<rparr>"
  have dc: "tb_initialized ?dc" "db_storage ?dc ?cf = Some bc" using st init by (simp_all add: db_storage_set)
  have pos2: "0 \<le> sint (refs_size (blob_refs es) n)"
    if f: "n \<in> bi_file_number ` set (blob_refs es)" "FindFile bc n = Some f" "fm_state f = PendingLSM" for n f
  proof -
    obtain g where "FindFile bs n = Some g" "f = ?C n g" using f(2) bc(3) [of n] by (cases "FindFile bs n") simp_all
    moreover from this f(3) have "fm_state g = PendingLSM" by (auto simp: accounted_def split: if_splits)
    ultimately show ?thesis using pos f(1) by blast
  qed
  obtain b2 where b2: "OnFlushCompleted (Some (table_properties es)) ?cf ?dc = Some (db_set_storage ?cf b2 ?dc)"
    "storage_inv b2" "\<And>n. FindFile b2 n = map_option (?F n) (FindFile bc n)"
    by (rule OnFlushCompleted_ok [OF dc bc(2) fit], erule (2) pos2) (rule that; (assumption | simp))
  have "FindFile b1 = FindFile b2"
  proof
    fix n show "FindFile b1 n = FindFile b2 n"
      unfolding b1(3) b2(3) bf(4) bc(3) using rc(1) [of n] by (cases "FindFile bs n") simp_all
  qed
  then show ?thesis
    using bf(1) b1(1,2) bc(1) b2(1,2) st(1) by (simp add: db_storage_set)
qed

definition demo_pending_file :: BlobFileMeta where
  "demo_pending_file = (BlobFileMeta_new 3 100 2 0 [] [])\<lparr>fm_state := PendingLSM\<rparr>"

theorem flush_compaction_commute_witness:
  "\<exists>db1 db2 b1 b2.
      Option.bind (OnFlushCompleted (Some (table_properties demo_table)) 0 (demo_db demo_pending_file False))
        (OnCompactionCompleted demo_job) = Some db1 \<and>
      Option.bind (OnCompactionCompleted demo_job (demo_db demo_pending_file False))
        (OnFlushCompleted (Some (table_properties demo_table)) 0) = Some db2 \<and>
      db_storage db1 0 = Some b1 \<and> db_storage db2 0 = Some b2 \<and> FindFile b1 = FindFile b2"
proof -
  let ?db = "demo_db demo_pending_file False" and ?bs = "demo_storage demo_pending_file"
  have "race_ok demo_table demo_tables demo_job n f" if "FindFile ?bs n = Some f" for n f
    using that by (auto simp: race_ok_def Let_def demo_net demo_pending_file_def BlobFileMeta_new_def
        demo_index_def refs_size_def refs_to_def split: if_splits)
  moreover have "storage_inv ?bs"
    by (intro demo_storage_inv) (simp_all add: demo_pending_file_def BlobFileMeta_new_def is_obsolete_def)
  ultimately show ?thesis
    using flush_compaction_commute [of ?db demo_job ?bs demo_tables demo_table] demo_collected
    by (fastforce simp: demo_options_def demo_table_def)
qed

section \<open>Start\<close>

text \<open>A column family as recovery leaves it, with the entries of its tables.\<close>

definition start_ok :: "(u32 \<Rightarrow> (bytes \<times> EntryType) list list) \<Rightarrow> TitanDB \<Rightarrow> CFStart \<Rightarrow> bool" where
  "start_ok tables db cf \<longleftrightarrow>
     cg_flush cf = OK \<and> cg_tables cf = Inr (map (\<lambda>es. Some (table_properties es)) (tables (cg_id cf))) \<and>
     (\<forall>es \<in> set (tables (cg_id cf)). table_fits es) \<and>
     (\<forall>n. 0 \<le> sint (refs_size (concat (map blob_refs (tables (cg_id cf)))) n)) \<and>
     (\<exists>bs. db_storage db (cg_id cf) = Some bs \<and> storage_inv bs \<and>
        (\<forall>n f. FindFile bs n = Some f \<longrightarrow> fm_state f = StInit \<and> fm_live f = 0))"

lemma init_diff_ok:
  assumes "\<forall>es \<in> set ts. table_fits es" "smap_wf diff"
  shows "\<exists>diff'. init_diff (map (\<lambda>es. Some (table_properties es)) ts) diff = (OK, diff') \<and> smap_wf diff' \<and>
    (\<forall>n. diff_val diff' n = diff_val diff n + refs_size (concat (map blob_refs ts)) n) \<and>
    fst ` set diff' = fst ` set diff \<union> bi_file_number ` set (concat (map blob_refs ts))"
  using assms
proof (induction ts arbitrary: diff)
  case Nil
  then show ?case by (simp add: refs_size_def refs_to_def)
next
  case (Cons es ts)
  then have fits: "table_fits es" by simp
  obtain d1 where d1: "ExtractGCStatsFromTableProperty (Some (table_properties es)) True diff = (OK, d1)"
    "\<And>n. diff_val d1 n = diff_val diff n + refs_size (blob_refs es) n"
    "fst ` set d1 = fst ` set diff \<union> bi_file_number ` set (blob_refs es)" "smap_wf diff \<Longrightarrow> smap_wf d1"
    by (rule Extract_sizes [OF fits, of True diff]) (rule that; (assumption | simp))
  obtain d2 where "init_diff (map (\<lambda>es. Some (table_properties es)) ts) d1 = (OK, d2)" "smap_wf d2"
    "\<forall>n. diff_val d2 n = diff_val d1 n + refs_size (concat (map blob_refs ts)) n"
    "fst ` set d2 = fst ` set d1 \<union> bi_file_number ` set (concat (map blob_refs ts))"
    using Cons.IH [OF _ d1(4) [OF Cons.prems(2)]] Cons.prems(1) by auto
  with d1 show ?case by (intro exI [of _ d2]) (auto simp: refs_size_append add.assoc)
qed

lemma restart_files_ok:
  "\<forall>p \<in> set fs. fm_state (snd p) = StInit \<Longrightarrow>
   restart_files fs = Some (map (\<lambda>p. (fst p, (snd p)\<lparr>fm_state := Normal\<rparr>)) fs)"
  by (induction fs) (auto simp: FileStateTransit_def transit_def)

text \<open>A column family whose live bytes are the ones its tables refer to.\<close>

definition started :: "(bytes \<times> EntryType) list list \<Rightarrow> BlobStorage \<Rightarrow> BlobStorage \<Rightarrow> bool" where
  "started ts bs bs' \<longleftrightarrow> storage_inv bs' \<and> scores_fresh bs' \<and>
     (\<forall>n. FindFile bs' n = map_option (\<lambda>f. f\<lparr>fm_live := refs_size (concat (map blob_refs ts)) n, fm_state := Normal\<rparr>)
        (FindFile bs n))"

lemma InitializeAllFiles_ok:
  assumes inv: "storage_inv bs" and st: "\<And>n f. FindFile bs n = Some f \<Longrightarrow> fm_state f = StInit"
  obtains bs' where "InitializeAllFiles bs = Some bs'" "storage_inv bs'" "scores_fresh bs'"
    "\<And>n. FindFile bs' n = map_option (\<lambda>f. f\<lparr>fm_state := Normal\<rparr>) (FindFile bs n)"
proof -
  let ?fs = "map (\<lambda>p. (fst p, (snd p)\<lparr>fm_state := Normal\<rparr>)) (bs_files bs)"
  have init: "fm_state (snd p) = StInit" if "p \<in> set (bs_files bs)" for p
    using st [of "fst p" "snd p"] that inv by (simp add: FindFile_def storage_inv_def)
  then have "InitializeAllFiles bs = Some (ComputeGCScore (bs\<lparr>bs_files := ?fs\<rparr>))"
    by (simp add: InitializeAllFiles_def restart_files_ok)
  moreover have "storage_inv (bs\<lparr>bs_files := ?fs\<rparr>)"
    by (rule storage_inv_map_files [OF inv]) (use init in \<open>simp add: is_obsolete_def\<close>)
  moreover have "FindFile (ComputeGCScore (bs\<lparr>bs_files := ?fs\<rparr>)) n = map_option (\<lambda>f. f\<lparr>fm_state := Normal\<rparr>) (FindFile bs n)" for n
    using map_of_map [of "\<lambda>f. f\<lparr>fm_state := Normal\<rparr>" "bs_files bs"] by (simp add: FindFile_def case_prod_unfold)
  ultimately show thesis using that scores_fresh_compute by simp
qed

lemma InitializeGC_column:
  assumes ok: "start_ok tables db cf" and st: "db_storage db (cg_id cf) = Some bs"
  obtains bs' where "InitializeGC_cfs (cf # cfs) db = InitializeGC_cfs cfs (db_set_storage (cg_id cf) bs' db)"
    "started (tables (cg_id cf)) bs bs'"
proof -
  let ?ts = "tables (cg_id cf)"
  have inv: "storage_inv bs" and files: "\<And>n f. FindFile bs n = Some f \<Longrightarrow> fm_state f = StInit \<and> fm_live f = 0"
    and ts: "cg_flush cf = OK" "cg_tables cf = Inr (map (\<lambda>es. Some (table_properties es)) ?ts)"
      "\<forall>es \<in> set ?ts. table_fits es" "\<And>n. 0 \<le> sint (refs_size (concat (map blob_refs ?ts)) n)"
    using ok st by (auto simp: start_ok_def)
  obtain diff where d: "init_diff (map (\<lambda>es. Some (table_properties es)) ?ts) [] = (OK, diff)" "smap_wf diff"
    "\<And>n. diff_val diff n = refs_size (concat (map blob_refs ?ts)) n"
    "fst ` set diff = bi_file_number ` set (concat (map blob_refs ?ts))"
    using init_diff_ok [OF ts(3), of "[]"] by (auto simp: diff_val_def)
  have dv: "snd x = refs_size (concat (map blob_refs ?ts)) (fst x)" if "x \<in> set diff" for x
    using diff_val_in [OF d(2) that] d(3) by simp
  have "0 \<le> sint (snd x) \<and> (case FindFile bs (fst x) of None \<Rightarrow> True | Some f \<Rightarrow> fm_live f = 0)" if "x \<in> set diff" for x
    using ts(4) files unfolding dv [OF that] by (cases "FindFile bs (fst x)") simp_all
  then obtain b1 where b1: "opt_fold init_file diff bs = Some b1" "storage_inv b1"
    "\<And>x. x \<in> set diff \<Longrightarrow> FindFile b1 (fst x) = map_option (\<lambda>f. f\<lparr>fm_live := snd x\<rparr>) (FindFile bs (fst x))"
    "\<And>k. k \<notin> fst ` set diff \<Longrightarrow> FindFile b1 k = FindFile bs k"
    using init.loop_ok [OF inv smap_wf_distinct [OF d(2)]] by blast
  have look: "FindFile b1 n = map_option (\<lambda>f. f\<lparr>fm_live := refs_size (concat (map blob_refs ?ts)) n\<rparr>) (FindFile bs n)" for n
  proof (cases "n \<in> fst ` set diff")
    case True
    then obtain x where x: "x \<in> set diff" "fst x = n" by blast
    from b1(3) [OF x(1)] show ?thesis unfolding dv [OF x(1)] x(2) .
  next
    case False
    then have "refs_size (concat (map blob_refs ?ts)) n = 0"
      using d(3) [of n] by (simp add: diff_val_def map_of_eq_None_iff split: option.splits) (metis map_of_SomeD fst_conv image_eqI)
    then show ?thesis using b1(4) [OF False] files [of n] by (cases "FindFile bs n") simp_all
  qed
  have "fm_state f = StInit" if f: "FindFile b1 n = Some f" for n f
    using f files [of n] unfolding look by (cases "FindFile bs n") auto
  then obtain b2 where b2: "InitializeAllFiles b1 = Some b2" "storage_inv b2" "scores_fresh b2"
    "\<And>n. FindFile b2 n = map_option (\<lambda>f. f\<lparr>fm_state := Normal\<rparr>) (FindFile b1 n)"
    using InitializeAllFiles_ok [OF b1(2)] by blast
  have "started ?ts bs b2" using b2(2,3) by (simp add: started_def b2(4) look option.map_comp o_def)
  moreover have "InitializeGC_cfs (cf # cfs) db = InitializeGC_cfs cfs (db_set_storage (cg_id cf) b2 db)"
    using ts(1,2) d(1) st b1(1) b2(1) by simp
  ultimately show thesis using that by blast
qed

lemma InitializeGC_cfs_ok:
  assumes "distinct (map cg_id cfs)" "\<And>cf. cf \<in> set cfs \<Longrightarrow> start_ok tables db cf"
  shows "\<exists>db'. InitializeGC_cfs cfs db = Some (OK, db') \<and> tb_sched db' = tb_sched db \<and>
    (\<forall>id. id \<notin> cg_id ` set cfs \<longrightarrow> db_storage db' id = db_storage db id) \<and>
    (\<forall>cf \<in> set cfs. \<exists>bs bs'. db_storage db (cg_id cf) = Some bs \<and> db_storage db' (cg_id cf) = Some bs' \<and>
       started (tables (cg_id cf)) bs bs')"
  using assms
proof (induction cfs arbitrary: db)
  case (Cons cf cfs)
  have ok: "start_ok tables db cf" using Cons.prems(2) by simp
  then obtain bs where st: "db_storage db (cg_id cf) = Some bs" by (auto simp: start_ok_def)
  obtain b1 where b1: "InitializeGC_cfs (cf # cfs) db = InitializeGC_cfs cfs (db_set_storage (cg_id cf) b1 db)"
    "started (tables (cg_id cf)) bs b1" by (rule InitializeGC_column [OF ok st])
  let ?db = "db_set_storage (cg_id cf) b1 db"
  have other: "db_storage ?db (cg_id c) = db_storage db (cg_id c)" if "c \<in> set cfs" for c
    using that Cons.prems(1) by (force simp: db_storage_set image_iff)
  have "start_ok tables ?db c" if "c \<in> set cfs" for c
    using Cons.prems(2) [of c] that other [OF that] by (simp add: start_ok_def)
  then obtain db' where "InitializeGC_cfs cfs ?db = Some (OK, db')" "tb_sched db' = tb_sched db"
    "\<forall>id. id \<notin> cg_id ` set cfs \<longrightarrow> db_storage db' id = db_storage ?db id"
    "\<forall>cf \<in> set cfs. \<exists>bs bs'. db_storage ?db (cg_id cf) = Some bs \<and> db_storage db' (cg_id cf) = Some bs' \<and>
       started (tables (cg_id cf)) bs bs'"
    using Cons.IH [of ?db] Cons.prems(1) by auto
  with b1 st other Cons.prems(1) show ?case by (simp add: db_storage_set)
qed simp

lemma queue_all: "sc_queue (foldl (\<lambda>sc cf. AddToGCQueue (cg_id cf) sc) sc cfs) = sc_queue sc @ map cg_id cfs"
  by (induction cfs arbitrary: sc) (simp_all add: AddToGCQueue_def)

lemma MaybeScheduleGC_queue: "sc_queue (MaybeScheduleGC sc) = sc_queue sc"
proof -
  have "sc_queue (schedule_loop sc) = sc_queue sc" for sc
    by (induction sc rule: schedule_loop.induct) (simp add: schedule_loop.simps)
  then show ?thesis by (simp add: MaybeScheduleGC_def)
qed

text \<open>C23: After \<open>InitializeGC\<close> the live bytes of every file of every column family are exactly
  the bytes its tables refer to, every file is normal, the scores are fresh, and every column family
  is queued for a collection.\<close>

theorem initialize_gc_exact:
  assumes "\<not> tb_initialized db" "distinct (map cg_id cfs)" "\<And>cf. cf \<in> set cfs \<Longrightarrow> start_ok tables db cf"
  shows "\<exists>db'. InitializeGC cfs db = Some (OK, db') \<and>
    sc_queue (tb_sched db') = sc_queue (tb_sched db) @ map cg_id cfs \<and>
    (\<forall>cf \<in> set cfs. \<exists>bs bs'. db_storage db (cg_id cf) = Some bs \<and> db_storage db' (cg_id cf) = Some bs' \<and>
       started (tables (cg_id cf)) bs bs')"
  using InitializeGC_cfs_ok [OF assms(2,3)] assms(1)
  by (auto simp: InitializeGC_def queue_all MaybeScheduleGC_queue)

theorem initialize_gc_exact_witness:
  "\<exists>db' bs'. InitializeGC [\<lparr>cg_id = 0, cg_flush = OK, cg_tables = Inr [Some (table_properties demo_table)]\<rparr>]
       ((demo_db (BlobFileMeta_new 3 100 2 0 [] []) False)\<lparr>tb_initialized := False\<rparr>) = Some (OK, db') \<and>
     sc_queue (tb_sched db') = [0] \<and> db_storage db' 0 = Some bs' \<and>
     FindFile bs' 3 = Some ((BlobFileMeta_new 3 100 2 0 [] [])\<lparr>fm_live := 40, fm_state := Normal\<rparr>)"
proof -
  let ?f = "BlobFileMeta_new 3 100 2 0 [] []" and ?t = "\<lambda>_. [demo_table]"
  let ?c = "\<lparr>cg_id = 0, cg_flush = OK, cg_tables = Inr [Some (table_properties demo_table)]\<rparr>"
  let ?db = "(demo_db ?f False)\<lparr>tb_initialized := False\<rparr>"
  have st: "db_storage ?db 0 = Some (demo_storage ?f)" using demo_storage_simps(3) [of ?f False] by (simp add: db_storage_def)
  have size: "refs_size [demo_index] n = (if n = 3 then 40 else 0)" for n
    by (simp add: refs_size_def refs_to_def demo_index_def)
  have "storage_inv (demo_storage ?f)"
    by (rule demo_storage_inv) (simp_all add: BlobFileMeta_new_def is_obsolete_def)
  then have "start_ok ?t ?db ?c"
    unfolding start_ok_def using st by (simp add: size table_fits_def demo_table_def demo_refs [unfolded demo_table_def])
      (simp add: BlobFileMeta_new_def)
  then obtain db' bs' where "InitializeGC [?c] ?db = Some (OK, db')" "sc_queue (tb_sched db') = sc_queue (tb_sched ?db) @ [0]"
    "db_storage db' 0 = Some bs'" "started [demo_table] (demo_storage ?f) bs'"
    using initialize_gc_exact [of ?db "[?c]" ?t] st by auto
  then show ?thesis by (auto simp: started_def size demo_db_def Scheduler_new_def) (simp add: BlobFileMeta_new_def)
qed

section \<open>Level merge\<close>

lemma next_io_columns: "fs_columns (snd (next_io fs)) = fs_columns fs"
  by (cases "fs_io fs") (simp_all add: next_io_def)

lemma AddRecord_columns: "AddRecord r fs = Some p \<Longrightarrow> fs_columns (snd p) = fs_columns fs"
  using next_io_columns [of fs] by (cases "next_io fs"; cases "fs_manifest fs") (auto simp: AddRecord_def Let_def)

text \<open>An edit only reaches the column family it names.\<close>

lemma LogAndApply_other:
  assumes "LogAndApply e fs = Some (s, fs')" "cf \<noteq> ve_cf e"
  shows "GetBlobStorage fs' cf = GetBlobStorage fs cf"
proof -
  let ?e = "SetNextFileNumber (fs_next_file_number fs) e"
  obtain s1 ec where ae: "AddEdit ?e EditCollector_new = (s1, ec)" by (cases "AddEdit ?e EditCollector_new")
  obtain s2 ec' where se: "Seal (GetBlobStorage fs) ec = (s2, ec')" by (cases "Seal (GetBlobStorage fs) ec")
  show ?thesis
  proof (cases "s1 = OK \<and> s2 = OK")
    case False
    then show ?thesis using assms(1) ae se by (auto simp: LogAndApply_def Let_def split: if_splits)
  next
    case True
    then have cfs: "ec_cfs ec' = [(ve_cf e, edit_batch ?e)]"
      using AddEdit_new_cases [OF ae] se by (auto simp: Seal_def Let_def SetNextFileNumber_def split: if_splits)
    obtain s3 f3 where a3: "AddRecord (VersionEdit_EncodeTo [] ?e) fs = Some (s3, f3)"
      using assms(1) True ae se by (auto simp: LogAndApply_def Let_def split: option.splits)
    obtain s4 f4 where a4: "SyncTitanManifest f3 = (s4, f4)" by (cases "SyncTitanManifest f3")
    have cols: "fs_columns f3 = fs_columns fs" "fs_columns f4 = fs_columns fs"
      using AddRecord_columns [OF a3] next_io_columns [of f3] a4 by (simp_all add: SyncTitanManifest_def)
    have "Apply ec' (fs_columns fs) = Some (s5, cols) \<Longrightarrow> map_of cols cf = map_of (fs_columns fs) cf" for s5 cols
      using cfs assms(2) by (auto simp: Apply_def Let_def map_of_al_modify split: if_splits option.splits)
    then show ?thesis
      using assms(1) True ae se a3 a4 cols by (auto simp: LogAndApply_def Let_def GetBlobStorage_def split: if_splits)
  qed
qed

text \<open>The same files, obsolete or not as before.\<close>

definition same_obsolete :: "BlobStorage \<Rightarrow> BlobStorage \<Rightarrow> bool" where
  "same_obsolete bs bs' \<longleftrightarrow> (\<forall>n. map_option is_obsolete (FindFile bs' n) = map_option is_obsolete (FindFile bs n))"

lemma same_obsolete_trans: "same_obsolete a b \<Longrightarrow> same_obsolete b c \<Longrightarrow> same_obsolete a c"
  by (simp add: same_obsolete_def)

lemma same_obsolete_put:
  "FindFile bs n = Some f \<Longrightarrow> is_obsolete g = is_obsolete f \<Longrightarrow> FindFile bs' = FindFile bs \<Longrightarrow> same_obsolete bs (put_file n g bs')"
  by (simp add: same_obsolete_def FindFile_put_file)

lemma opt_fold_same:
  assumes "\<And>x s s'. f x s = Some s' \<Longrightarrow> same_obsolete (st s) (st s')" "opt_fold f xs s = Some s'"
  shows "same_obsolete (st s) (st s')"
  using assms(2)
proof (induction xs arbitrary: s)
  case Nil
  then show ?case by (simp add: same_obsolete_def)
next
  case (Cons x xs)
  then show ?case using assms(1) same_obsolete_trans by (fastforce split: option.splits)
qed

lemma transit_obsolete: "FileStateTransit ev f = Some g \<Longrightarrow> ev \<in> {CompactionCompleted, NeedMerge} \<Longrightarrow> is_obsolete g = is_obsolete f"
  by (auto simp: FileStateTransit_def transit_def is_obsolete_def split: if_splits)

lemma UpdateLive_obsolete: "is_obsolete (snd (UpdateLiveDataSize d f)) = is_obsolete f"
  by (simp add: UpdateLiveDataSize_def is_obsolete_def Let_def)

lemma compaction_pending_same:
  assumes f: "FindFile (cs_storage cs) n = Some f" and r: "compaction_pending_file q n d f cs = Some cs'"
  shows "same_obsolete (cs_storage cs) (cs_storage cs') \<and> ve_cf (cs_edit cs') = ve_cf (cs_edit cs)"
proof (cases "sint d \<le> 0")
  case True
  then show ?thesis using r same_obsolete_put [OF f UpdateLive_obsolete refl, of "- d"]
    by (auto simp: compaction_pending_file_def case_prod_unfold Let_def split: if_splits)
next
  case False
  let ?f = "f\<lparr>fm_live := if fm_live f \<noteq> 0 then d - fm_live f else d\<rparr>"
  obtain g where g: "FileStateTransit CompactionCompleted ?f = Some g"
    using False r by (auto simp: compaction_pending_file_def Let_def split: option.splits)
  then have "is_obsolete g = is_obsolete f" using transit_obsolete by (fastforce simp: is_obsolete_def)
  then have "same_obsolete (cs_storage cs) (ratio_after g (put_file n g (add_ratio ?f (cs_storage cs))))"
    using same_obsolete_put [OF f, of g "add_ratio ?f (cs_storage cs)"] by (simp add: same_obsolete_def)
  moreover have "cs_storage cs' = ratio_after g (put_file n g (add_ratio ?f (cs_storage cs)))" "ve_cf (cs_edit cs') = ve_cf (cs_edit cs)"
    using False r g by (auto simp: compaction_pending_file_def Let_def VersionEdit_DeleteBlobFile_def)
  ultimately show ?thesis by simp
qed

lemma compaction_normal_same:
  assumes f: "FindFile (cs_storage cs) n = Some f" and r: "compaction_normal_file opts c q n d f cs = Some cs'"
  shows "same_obsolete (cs_storage cs) (cs_storage cs') \<and> ve_cf (cs_edit cs') = ve_cf (cs_edit cs)"
proof -
  let ?s = "sub_ratio f (cs_storage cs)" and ?g = "snd (UpdateLiveDataSize d f)"
  let ?b = "?s\<lparr>bs_stats := SubStats LIVE_BLOB_SIZE d (bs_stats ?s)\<rparr>"
  have put: "same_obsolete (cs_storage cs) (ratio_after h (put_file n h ?b))" if "is_obsolete h = is_obsolete f" for h
    using same_obsolete_put [OF f that, of ?b] by (simp add: same_obsolete_def)
  have g: "is_obsolete ?g = is_obsolete f" by (rule UpdateLive_obsolete)
  have "\<exists>h. is_obsolete h = is_obsolete f \<and> cs_storage cs' = ratio_after h (put_file n h ?b) \<and> ve_cf (cs_edit cs') = ve_cf (cs_edit cs)"
  proof (cases "FileStateTransit NeedMerge ?g")
    case None
    then show ?thesis
      using r g by (auto simp: compaction_normal_file_def case_prod_unfold Let_def VersionEdit_DeleteBlobFile_def
          split: if_splits intro!: exI [of _ ?g])
  next
    case (Some h)
    then have "is_obsolete h = is_obsolete f" using transit_obsolete g by simp
    with Some g r show ?thesis
      by (auto simp: compaction_normal_file_def case_prod_unfold Let_def VersionEdit_DeleteBlobFile_def
          split: if_splits)
  qed
  then show ?thesis using put by auto
qed

lemma compaction_file_same:
  assumes "compaction_file opts c q x cs = Some cs'"
  shows "same_obsolete (cs_storage cs) (cs_storage cs')" "ve_cf (cs_edit cs') = ve_cf (cs_edit cs)"
proof -
  have "same_obsolete (cs_storage cs) (cs_storage cs') \<and> ve_cf (cs_edit cs') = ve_cf (cs_edit cs)"
    using assms compaction_pending_same compaction_normal_same
    by (cases x) (auto simp: compaction_file_def same_obsolete_def split: option.splits if_splits)
  then show "same_obsolete (cs_storage cs) (cs_storage cs')" "ve_cf (cs_edit cs') = ve_cf (cs_edit cs)" by auto
qed

lemma mark_runs_same: "mark_runs mx ends open_files bs = Some bs' \<Longrightarrow> same_obsolete bs bs'"
proof (induction mx ends open_files bs rule: mark_runs.induct)
  case (2 mx f smallest ends open_files bs)
  let ?step = "\<lambda>n bs. case FindFile bs n of None \<Rightarrow> None
      | Some f \<Rightarrow> map_option (\<lambda>f. put_file n f bs) (FileStateTransit NeedMerge f)"
  have "opt_fold ?step ns bs = Some b1 \<Longrightarrow> same_obsolete bs b1" for ns bs b1
    by (erule opt_fold_same [of ?step "\<lambda>b. b", rotated])
      (auto split: option.splits intro!: same_obsolete_put dest: transit_obsolete)
  then show ?case using 2 by (fastforce simp: Let_def split: if_splits option.splits intro: same_obsolete_trans)
qed (simp add: same_obsolete_def)

lemma validate_file_same: "validate_file valid x bs = Some bs' \<Longrightarrow> same_obsolete bs bs'"
proof -
  have "UpdateInvalidEntryIndexes f b = Some (s, f') \<Longrightarrow> is_obsolete f' = is_obsolete f" for f b s f'
    by (auto simp: UpdateInvalidEntryIndexes_def is_obsolete_def split: option.splits if_splits)
  then show "validate_file valid x bs = Some bs' \<Longrightarrow> same_obsolete bs bs'"
    by (cases x) (auto simp: validate_file_def same_obsolete_def FindFile_put_file split: option.splits if_splits)
qed

lemma compaction_bitmaps_same:
  assumes "compaction_bitmaps job db = Some (found, db')" "db_storage db (cj_cf_id job) = Some bs"
  shows "\<exists>bs'. db_storage db' (cj_cf_id job) = Some bs' \<and> same_obsolete bs bs'"
proof -
  obtain ins outs bs' where "opt_fold (validate_file outs) ins bs = Some bs'" "db' = db_set_storage (cj_cf_id job) bs' db"
    using assms by (auto simp: compaction_bitmaps_def split: option.splits)
  then show ?thesis
    using opt_fold_same [of "validate_file outs" "\<lambda>b. b"] validate_file_same assms(2) by (auto simp: db_storage_set)
qed

lemma compaction_account_same:
  assumes "compaction_account job diff db = Some db'" "db_storage db (cj_cf_id job) = Some bs" "cj_cf_id job \<noteq> 0"
  shows "\<exists>bs'. db_storage db' (cj_cf_id job) = Some bs' \<and> same_obsolete bs bs'"
proof -
  let ?cf = "cj_cf_id job"
  let ?c = "co_level_merge (cf_options bs) \<and> co_range_merge (cf_options bs) \<and> int (co_num_levels (cf_options bs)) - 1 = cj_output_level job"
  let ?cs = "\<lparr>cs_storage = bs, cs_edit = VersionEdit_new, cs_candidates = []\<rparr>"
  let ?step = "compaction_file (cf_options bs) ?c (tb_sequence db)"
  obtain cs where cs: "opt_fold ?step diff ?cs = Some cs"
    using assms(1,2) by (auto simp: compaction_account_def Let_def split: option.splits)
  have same: "same_obsolete bs (cs_storage cs)"
    using opt_fold_same [of ?step cs_storage, OF _ cs] compaction_file_same(1) by simp
  have "opt_fold ?step xs a = Some b \<Longrightarrow> ve_cf (cs_edit b) = ve_cf (cs_edit a)" for xs a b
    by (induction xs arbitrary: a) (auto split: option.splits dest: compaction_file_same(2))
  from this [OF cs] have cf: "?cf \<noteq> ve_cf (cs_edit cs)" using assms(3) by (simp add: VersionEdit_new_def)
  let ?db = "db_set_storage ?cf (cs_storage cs) db"
  show ?thesis
  proof (cases "co_level_merge (cf_options bs)")
    case False
    then have "db_storage db' ?cf = Some (ComputeGCScore (cs_storage cs))"
      using assms(1,2) cs by (auto simp: compaction_account_def Let_def db_storage_set)
    then show ?thesis using same by (simp add: same_obsolete_def FindFile_def)
  next
    case True
    obtain s fs where la: "LogAndApply (cs_edit cs) (tb_fileset ?db) = Some (s, fs)"
      using True assms(1,2) cs by (auto simp: compaction_account_def Let_def split: option.splits)
    have st: "GetBlobStorage fs ?cf = Some (cs_storage cs)"
      using LogAndApply_other [OF la cf] assms(2) db_storage_set [of ?cf "cs_storage cs" db ?cf]
      by (simp add: db_storage_def [symmetric])
    then obtain b where b: "MarkFileIfNeedMerge (cs_candidates cs) (co_max_sorted_runs (cf_options bs)) (cs_storage cs) = Some b"
      "db' = db_set_storage ?cf b (?db\<lparr>tb_fileset := fs\<rparr>)"
      using True assms(1,2) cs la by (auto simp: compaction_account_def Let_def db_storage_def split: option.splits)
    have "db_storage db' ?cf = Some b"
      unfolding b(2) db_storage_set using st by (simp add: db_storage_def)
    moreover have "same_obsolete (cs_storage cs) b"
      using b(1) mark_runs_same by (auto simp: MarkFileIfNeedMerge_def Let_def same_obsolete_def [of _ "cs_storage cs"] split: if_splits)
    ultimately show ?thesis using same same_obsolete_trans by blast
  qed
qed

text \<open>C35: After a compaction of a column family other than the default one, no file of it is
  deleted, even with level merge on and when its last live byte is gone: the edit with the
  deletions does not name the column family.\<close>

theorem level_merge_deletes_nothing:
  assumes "OnCompactionCompleted job db = Some db'" "cj_cf_id job \<noteq> 0" "db_storage db (cj_cf_id job) = Some bs"
  shows "\<exists>bs'. db_storage db' (cj_cf_id job) = Some bs' \<and>
    (\<forall>n. map_option is_obsolete (FindFile bs' n) = map_option is_obsolete (FindFile bs n))"
proof -
  have "\<exists>bs'. db_storage db' (cj_cf_id job) = Some bs' \<and> same_obsolete bs bs'"
  proof (cases "cj_status job = OK \<and> tb_use_bitmap db (cj_cf_id job)")
    case False
    then show ?thesis
      using assms compaction_account_same by (auto simp: OnCompactionCompleted_def same_obsolete_def split: option.splits if_splits)
  next
    case True
    then obtain found db1 diff where d: "compaction_bitmaps job db = Some (found, db1)"
      "db' = db1 \<or> compaction_account job diff db1 = Some db'"
      using assms(1) by (auto simp: OnCompactionCompleted_def split: option.splits if_splits) blast
    then obtain b1 where "db_storage db1 (cj_cf_id job) = Some b1" "same_obsolete bs b1"
      using compaction_bitmaps_same assms(3) by blast
    then show ?thesis using d(2) compaction_account_same [OF _ _ assms(2)] same_obsolete_trans by blast
  qed
  then show ?thesis by (simp add: same_obsolete_def)
qed

definition demo_merge_db :: TitanDB where
  "demo_merge_db = (demo_db demo_live_file False)\<lparr>tb_fileset := (demo_fileset [])\<lparr>fs_columns :=
     [(0, BlobStorage_new demo_options 0 None),
      (1, (demo_storage (demo_live_file\<lparr>fm_live := 40\<rparr>))\<lparr>bs_opts := demo_options\<lparr>co_level_merge := True\<rparr>\<rparr>)]\<rparr>\<rparr>"

lemma demo_diff:
  assumes "smap_wf diff" "fst ` set diff = {3}" "diff_val diff 3 = - 40"
  shows "diff = [(3, - 40)]"
proof -
  have d: "distinct (map fst diff)" by (rule smap_wf_distinct [OF assms(1)])
  have "length diff = card (fst ` set diff)" using distinct_card [OF d] by simp
  then obtain p where "diff = [p]" using assms(2) by (auto simp: length_Suc_conv)
  with assms show ?thesis by (cases p) (simp add: diff_val_def)
qed

lemma delete_missing_file:
  assumes "map_of (fs_columns fs) 0 = Some bs" "FindFile bs n = None"
  shows "\<exists>s. LogAndApply (VersionEdit_DeleteBlobFile n q VersionEdit_new) fs = Some (s, fs)"
  using assms
  by (simp add: LogAndApply_def VersionEdit_DeleteBlobFile_def VersionEdit_new_def SetNextFileNumber_def AddEdit_def
      EditCollector_new_def cf_collector_def set_cf_collector_def emplace_def al_modify_def CFEditCollector_new_def
      CFE_DeleteFile_def Seal_def GetBlobStorage_def CFE_Seal_def Let_def)

lemma compaction_account_merge:
  assumes "db_storage db (cj_cf_id job) = Some bs" "co_level_merge (bs_opts bs)"
    and "\<And>c. opt_fold (compaction_file (cf_options bs) c (tb_sequence db)) diff
       \<lparr>cs_storage = bs, cs_edit = VersionEdit_new, cs_candidates = []\<rparr> = Some \<lparr>cs_storage = b, cs_edit = e, cs_candidates = []\<rparr>"
    and "LogAndApply e (tb_fileset (db_set_storage (cj_cf_id job) b db)) = Some (s, tb_fileset (db_set_storage (cj_cf_id job) b db))"
  shows "compaction_account job diff db = Some (db_set_storage (cj_cf_id job) b db)"
  using assms db_storage_set [of "cj_cf_id job" b db "cj_cf_id job"]
  by (simp add: compaction_account_def Let_def cf_options_def MarkFileIfNeedMerge_def db_set_storage_twice)

theorem level_merge_deletes_nothing_witness:
  "\<exists>db' bs' f'. OnCompactionCompleted (demo_job\<lparr>cj_cf_id := 1\<rparr>) demo_merge_db = Some db' \<and>
     db_storage db' 1 = Some bs' \<and> FindFile bs' 3 = Some f' \<and> NoLiveData f' \<and> \<not> is_obsolete f'"
proof -
  let ?job = "demo_job\<lparr>cj_cf_id := 1\<rparr>" and ?f = "demo_live_file\<lparr>fm_live := 40\<rparr>"
  let ?bs = "(demo_storage ?f)\<lparr>bs_opts := demo_options\<lparr>co_level_merge := True\<rparr>\<rparr>"
  have net: "touched demo_tables ?job = {3}" "net_bytes demo_tables ?job 3 = - 40"
    using demo_net by (simp_all add: touched_def net_bytes_def)
  have job: "collected_job demo_tables ?job" using demo_collected by (simp add: collected_job_def)
  have flags: "tb_initialized demo_merge_db" "cj_status ?job = OK" "\<not> tb_use_bitmap demo_merge_db (cj_cf_id ?job)"
    using demo_storage_simps(4,5) [of demo_live_file False] by (simp_all add: demo_merge_db_def)
  obtain diff where "OnCompactionCompleted ?job demo_merge_db = compaction_account ?job diff demo_merge_db"
    "smap_wf diff" "\<And>n. diff_val diff n = net_bytes demo_tables ?job n" "fst ` set diff = touched demo_tables ?job"
    by (rule OnCompactionCompleted_no_bitmap [OF flags job]) (rule that; (assumption | simp))
  then have e: "OnCompactionCompleted ?job demo_merge_db = compaction_account ?job [(3, - 40)] demo_merge_db"
    using demo_diff net by simp
  have st: "db_storage demo_merge_db 1 = Some ?bs" by (simp add: db_storage_def demo_merge_db_def GetBlobStorage_def)
  let ?g = "?f\<lparr>fm_live := 0\<rparr>" and ?b = "sub_ratio ?f ?bs"
  let ?b' = "ratio_after ?g (put_file 3 ?g (?b\<lparr>bs_stats := SubStats LIVE_BLOB_SIZE (- 40) (bs_stats ?b)\<rparr>))"
  let ?e = "VersionEdit_DeleteBlobFile 3 7 VersionEdit_new"
  have cf: "compaction_file (cf_options ?bs) c 7 (3, - 40) \<lparr>cs_storage = ?bs, cs_edit = VersionEdit_new, cs_candidates = []\<rparr> =
      Some \<lparr>cs_storage = ?b', cs_edit = ?e, cs_candidates = []\<rparr>" for c
    by (simp add: compaction_file_def compaction_normal_file_def demo_live_file_def BlobFileMeta_new_def is_obsolete_def
        UpdateLiveDataSize_def NoLiveData_def cf_options_def Let_def FindFile_def demo_storage_def)
  let ?db = "db_set_storage 1 ?b' demo_merge_db"
  have "map_of (fs_columns (tb_fileset ?db)) 0 = Some (BlobStorage_new demo_options 0 None)"
    by (simp add: db_set_storage_def demo_merge_db_def al_modify_def)
  then obtain s where la: "LogAndApply ?e (tb_fileset ?db) = Some (s, tb_fileset ?db)"
    using delete_missing_file [of "tb_fileset ?db" _ 3 7] by (auto simp: FindFile_def BlobStorage_new_def)
  have "compaction_account ?job [(3, - 40)] demo_merge_db = Some ?db"
    using compaction_account_merge [of demo_merge_db ?job ?bs "[(3, - 40)]" ?b' ?e s] st cf la
    by (simp add: demo_merge_db_def [THEN arg_cong [of _ _ tb_sequence]] demo_db_def)
  then have r: "OnCompactionCompleted ?job demo_merge_db = Some ?db" unfolding e .
  have st': "db_storage ?db 1 = Some ?b'" using st by (simp add: db_storage_set)
  have f: "FindFile ?bs 3 = Some ?f" "\<not> is_obsolete ?f" 
    by (simp_all add: FindFile_def demo_storage_def demo_live_file_def BlobFileMeta_new_def is_obsolete_def)
  then have "FindFile ?b' 3 = Some ?g" by (simp add: FindFile_put_file)
  moreover have "map_option is_obsolete (FindFile ?b' 3) = map_option is_obsolete (FindFile ?bs 3)"
    using level_merge_deletes_nothing [OF r, of ?bs] st st' by auto
  ultimately show ?thesis using r st' f by (auto simp: NoLiveData_def)
qed

end
