(* ===== verification/Titan_BlobFile.thy ===== *)
theory Titan_BlobFile
  imports Titan_Storage
begin

text \<open>
  Writing and reading one blob file (\<open>blob_file_builder.cc\<close>, \<open>blob_file_reader.cc\<close>): the builder
  with its buffered state for a compression dictionary, the reader with its cache, and the
  prefetcher.  A failed assertion, an index outside a vector and bytes that were never read have the
  value \<open>None\<close>.

  The compression libraries, the training of a dictionary and the block format of the meta index
  are the parameter \<open>BlobLib\<close>; a file is its bytes and the outcomes of the coming operations.
\<close>

section \<open>Files\<close>

record WritableFile =
  wf_data :: bytes
  wf_io :: "status list"

definition wf_next :: "WritableFile \<Rightarrow> status \<times> WritableFile" where
  "wf_next w = (case wf_io w of [] \<Rightarrow> (OK, w) | s # ss \<Rightarrow> (s, w\<lparr>wf_io := ss\<rparr>))"

definition file_Append :: "bytes \<Rightarrow> WritableFile \<Rightarrow> status \<times> WritableFile" where
  "file_Append data w = (let (s, w) = wf_next w in (s, if s = OK then w\<lparr>wf_data := wf_data w @ data\<rparr> else w))"

definition file_Flush :: "WritableFile \<Rightarrow> status \<times> WritableFile" where
  "file_Flush w = wf_next w"

definition GetFileSize :: "WritableFile \<Rightarrow> u64" where
  "GetFileSize w = of_nat (length (wf_data w))"

record RandomAccessFile =
  rf_data :: bytes
  rf_io :: "status list"

text \<open>A read past the end gives the bytes there are.\<close>

definition file_Read :: "u64 \<Rightarrow> u64 \<Rightarrow> RandomAccessFile \<Rightarrow> (status \<times> bytes) \<times> RandomAccessFile" where
  "file_Read off n f =
     (let (s, f) = (case rf_io f of [] \<Rightarrow> (OK, f) | s # ss \<Rightarrow> (s, f\<lparr>rf_io := ss\<rparr>))
      in ((s, if s = OK then take (unat n) (drop (unat off) (rf_data f)) else []), f))"

section \<open>Library\<close>

text \<open>
  \<open>lib_compression\<close> is indexed by the dictionary, empty for none; \<open>lib_meta_index\<close> is
  the meta index block with the handle of the dictionary as its only entry, if any, and \<open>lib_find_dict\<close>
  looks the entry up (\<open>SeekToMetaBlock\<close>); \<open>lib_zstd\<close> says that the compiled-in library has
  dictionaries (\<open>ZSTD_VERSION_NUMBER\<close>).
\<close>

record BlobLib =
  lib_compression :: "bytes \<Rightarrow> Compression"
  lib_train :: "bytes \<Rightarrow> nat list \<Rightarrow> u32 \<Rightarrow> bytes"
  lib_meta_index :: "BlockHandle option \<Rightarrow> bytes"
  lib_find_dict :: "bytes \<Rightarrow> status + BlockHandle option"
  lib_zstd :: bool

record BuilderOptions = TitanCFOptions +
  co_max_dict_bytes :: u32
  co_zstd_max_train_bytes :: u32

section \<open>Builder\<close>

record BlobRecordContext =
  rc_key :: bytes
  rc_original_blob_index :: BlobIndex
  rc_new_blob_index :: BlobIndex
  rc_has_value :: bool
  rc_value :: bytes

record BlobFileBuilder =
  bb_buffered :: bool
  bb_opts :: BuilderOptions
  bb_file :: WritableFile
  bb_version :: u32
  bb_status :: status
  bb_dict :: "bytes option"
  bb_samples :: "bytes list"
  bb_sample_len :: u64
  bb_cached :: "BlobRecordContext list"
  bb_entries :: u64
  bb_live :: u64
  bb_smallest :: bytes
  bb_largest :: bytes

definition builder_Append :: "bytes \<Rightarrow> BlobFileBuilder \<Rightarrow> BlobFileBuilder" where
  "builder_Append data b = (let (s, w) = file_Append data (bb_file b) in b\<lparr>bb_status := s, bb_file := w\<rparr>)"

definition WriteHeader :: "BlobFileBuilder \<Rightarrow> BlobFileBuilder option" where
  "WriteHeader b =
     (let header = \<lparr>hd_version = bb_version b, hd_flags = 0\<rparr> in
      if co_max_dict_bytes (bb_opts b) > 0 then
        (if bb_version b \<noteq> kVersion2 then None
         else Some (builder_Append (BlobFileHeader_EncodeTo []
                (header\<lparr>hd_flags := hd_flags header OR kHasUncompressionDictionary\<rparr>)) b))
      else Some (builder_Append (BlobFileHeader_EncodeTo [] header) b))"

definition BlobFileBuilder_new :: "BlobLib \<Rightarrow> BuilderOptions \<Rightarrow> WritableFile \<Rightarrow> u32 \<Rightarrow> BlobFileBuilder option" where
  "BlobFileBuilder_new lib opts file version =
     (let b = \<lparr>bb_buffered = (co_max_dict_bytes opts > 0), bb_opts = opts, bb_file = file, bb_version = version,
               bb_status = ValidateVersion version, bb_dict = None, bb_samples = [], bb_sample_len = 0,
               bb_cached = [], bb_entries = 0, bb_live = 0, bb_smallest = [], bb_largest = []\<rparr> in
      if bb_status b \<noteq> OK then Some b
      else if co_max_dict_bytes opts > 0 then
        (if \<not> lib_zstd lib then Some (b\<lparr>bb_status := NotSupported ''ZSTD version too old.''\<rparr>)
         else
           (let b = (if version \<noteq> kVersion2
                     then b\<lparr>bb_status := NotSupported ''dictionary comparession is not supported by blob file version 1''\<rparr>
                     else b)
            in WriteHeader b))
      else WriteHeader b)"

text \<open>The encoder: the compression type of the column family and the dictionary set so far.\<close>

definition builder_encode :: "BlobLib \<Rightarrow> BlobFileBuilder \<Rightarrow> bytes \<Rightarrow> BlobEncoder" where
  "builder_encode lib b rec_str =
     EncodeSlice (lib_compression lib (case bb_dict b of None \<Rightarrow> [] | Some d \<Rightarrow> d)) (co_compression (bb_opts b)) rec_str"

definition WriteEncoderData :: "BlobEncoder \<Rightarrow> BlobFileBuilder \<Rightarrow> BlobHandle \<times> BlobFileBuilder" where
  "WriteEncoderData e b =
     (let h = \<lparr>bh_offset = GetFileSize (bb_file b), bh_size = of_nat (GetEncodedSize e), bh_index = bb_entries b\<rparr>;
          b = builder_Append (enc_header e) (b\<lparr>bb_live := bb_live b + bh_size h\<rparr>)
      in (h, if bb_status b = OK
             then (builder_Append (enc_record e) b)\<lparr>bb_entries := bb_entries b + 1\<rparr>
             else b))"

definition set_handle :: "BlobHandle \<Rightarrow> BlobRecordContext \<Rightarrow> BlobRecordContext" where
  "set_handle h c = c\<lparr>rc_new_blob_index := (rc_new_blob_index c)\<lparr>bi_handle := h\<rparr>\<rparr>"

text \<open>
  The loop of \<open>FlushSampleRecords\<close>: contexts that carry a value go out as they are, the next one
  belongs to the sample.
\<close>

fun flush_samples :: "BlobLib \<Rightarrow> bytes list \<Rightarrow> BlobRecordContext list \<Rightarrow> BlobFileBuilder \<Rightarrow>
    (BlobFileBuilder \<times> BlobRecordContext list) option" where
  "flush_samples lib [] ctxs b = (if list_all rc_has_value ctxs then Some (b, ctxs) else None)"
| "flush_samples lib (record_str # samples) ctxs b =
     (let small = takeWhile rc_has_value ctxs in
      case dropWhile rc_has_value ctxs of
        [] \<Rightarrow> None
      | c # ctxs \<Rightarrow>
          (let (h, b) = WriteEncoderData (builder_encode lib b record_str) b in
           map_option (\<lambda>(b, out). (b, small @ set_handle h c # out)) (flush_samples lib samples ctxs b)))"

definition FlushSampleRecords :: "BlobLib \<Rightarrow> BlobFileBuilder \<Rightarrow> (BlobFileBuilder \<times> BlobRecordContext list) option" where
  "FlushSampleRecords lib b =
     (if length (bb_cached b) < length (bb_samples b) then None
      else map_option (\<lambda>(b, out). (b\<lparr>bb_samples := [], bb_sample_len := 0, bb_cached := []\<rparr>, out))
             (flush_samples lib (bb_samples b) (bb_cached b) b))"

definition EnterUnbuffered :: "BlobLib \<Rightarrow> BlobFileBuilder \<Rightarrow> (BlobFileBuilder \<times> BlobRecordContext list) option" where
  "EnterUnbuffered lib b =
     (let dict = lib_train lib (concat (bb_samples b)) (map length (bb_samples b)) (co_max_dict_bytes (bb_opts b))
      in map_option (\<lambda>(b, out). (b\<lparr>bb_buffered := False\<rparr>, out)) (FlushSampleRecords lib (b\<lparr>bb_dict := Some dict\<rparr>)))"

definition key_range :: "bytes \<Rightarrow> BlobFileBuilder \<Rightarrow> BlobFileBuilder" where
  "key_range key b =
     (let lt = co_less (bb_opts b);
          b = (if bb_smallest b = [] \<or> lt key (bb_smallest b) then b\<lparr>bb_smallest := key\<rparr> else b)
      in if bb_largest b = [] \<or> lt (bb_largest b) key then b\<lparr>bb_largest := key\<rparr> else b)"

definition Builder_Add ::
    "BlobLib \<Rightarrow> BlobRecord \<Rightarrow> BlobRecordContext \<Rightarrow> BlobFileBuilder \<Rightarrow> (BlobFileBuilder \<times> BlobRecordContext list) option" where
  "Builder_Add lib record ctx b =
     (if bb_status b \<noteq> OK then Some (b, [])
      else
        map_option (\<lambda>(b, out). (key_range (rec_key record) b, out))
          (if bb_buffered b then
             (let record_str = BlobRecord_EncodeTo [] record;
                  b = b\<lparr>bb_samples := bb_samples b @ [record_str],
                        bb_sample_len := bb_sample_len b + of_nat (length record_str),
                        bb_cached := bb_cached b @ [ctx]\<rparr>
              in if co_zstd_max_train_bytes (bb_opts b) > 0 \<and>
                    bb_sample_len b \<ge> ucast (co_zstd_max_train_bytes (bb_opts b))
                 then EnterUnbuffered lib b
                 else Some (b, []))
           else
             (let (h, b) = WriteEncoderData (builder_encode lib b (BlobRecord_EncodeTo [] record)) b
              in Some (b, [set_handle h ctx]))))"

definition AddSmall :: "BlobRecordContext \<Rightarrow> BlobFileBuilder \<Rightarrow> BlobFileBuilder" where
  "AddSmall ctx b = b\<lparr>bb_cached := bb_cached b @ [ctx]\<rparr>"

abbreviation kBlockTrailerSize :: nat where "kBlockTrailerSize \<equiv> 5"

definition WriteRawBlock :: "bytes \<Rightarrow> BlobFileBuilder \<Rightarrow> BlockHandle \<times> BlobFileBuilder" where
  "WriteRawBlock block b =
     (let h = \<lparr>blk_offset = GetFileSize (bb_file b), blk_size = of_nat (length block)\<rparr>;
          b = builder_Append block b
      in (h, if bb_status b = OK
             then builder_Append ([kNoCompression] @ EncodeFixed32 (Mask (Extend (Value block) [kNoCompression]))) b
             else b))"

definition Builder_Finish :: "BlobLib \<Rightarrow> BlobFileBuilder \<Rightarrow> ((status \<times> BlobFileBuilder) \<times> BlobRecordContext list) option" where
  "Builder_Finish lib b =
     (if bb_status b \<noteq> OK then Some ((bb_status b, b), [])
      else
        (case (if bb_buffered b then EnterUnbuffered lib b else Some (b, [])) of
           None \<Rightarrow> None
         | Some (b, out) \<Rightarrow>
             (case (if co_max_dict_bytes (bb_opts b) > 0 then
                      (case bb_dict b of
                         None \<Rightarrow> None
                       | Some dict \<Rightarrow>
                           (let (dict_handle, b) = WriteRawBlock dict b in
                            Some (WriteRawBlock
                              (lib_meta_index lib (if bb_status b = OK then Some dict_handle else None)) b)))
                    else Some (NullBlockHandle, b)) of
                None \<Rightarrow> None
              | Some (meta_index_handle, b) \<Rightarrow>
                  (let b = builder_Append (BlobFileFooter_EncodeTo [] meta_index_handle) b;
                       b = (if bb_status b = OK
                            then (let (s, w) = file_Flush (bb_file b) in b\<lparr>bb_status := s, bb_file := w\<rparr>)
                            else b)
                   in Some ((bb_status b, b), out)))))"

section \<open>Reader\<close>

text \<open>The dictionary of a file; short reads leave bytes that were never read.\<close>

definition InitUncompressionDict ::
    "BlobLib \<Rightarrow> BlockHandle \<Rightarrow> RandomAccessFile \<Rightarrow> ((status + bytes) \<times> RandomAccessFile) option" where
  "InitUncompressionDict lib meta_index_handle f =
     (if \<not> lib_zstd lib then Some (Inl (NotSupported ''the version of libztsd is too low''), f)
      else if blk_size meta_index_handle = 0 then None
      else
        (let ((s, blob), f) = file_Read (blk_offset meta_index_handle) (blk_size meta_index_handle) f in
         if s \<noteq> OK then Some (Inl s, f)
         else if length blob < unat (blk_size meta_index_handle) then None
         else
           (case lib_find_dict lib blob of
              Inl s \<Rightarrow> Some (Inl s, f)
            | Inr None \<Rightarrow> Some (Inl (NotFound ''uncompression dict''), f)
            | Inr (Some dict_block) \<Rightarrow>
                (let ((s, dict), f) = file_Read (blk_offset dict_block) (blk_size dict_block) f in
                 if s \<noteq> OK then Some (Inl s, f)
                 else if length dict < unat (blk_size dict_block) then None
                 else Some (Inr dict, f)))))"

abbreviation kMaxHeaderLength :: u64 where "kMaxHeaderLength \<equiv> 12"

definition ReadHeader :: "RandomAccessFile \<Rightarrow> (status + BlobFileHeader) \<times> RandomAccessFile" where
  "ReadHeader f =
     (let ((s, buffer), f) = file_Read 0 kMaxHeaderLength f in
      if s \<noteq> OK then (Inl s, f)
      else (DecodeInto (BlobFileHeader_DecodeFrom BlobFileHeader_default) buffer True, f))"

record BlobFileReader =
  rd_file :: RandomAccessFile
  rd_dict :: "bytes option"
  rd_cache_prefix :: bytes

definition footer_into :: "bytes \<Rightarrow> (status + BlockHandle) option" where
  "footer_into buffer =
     map_option (\<lambda>r. case r of
         Inl s \<Rightarrow> Inl s
       | Inr (h, rest) \<Rightarrow>
           if rest \<noteq> [] then Inl (Corruption ''redundant bytes when decoding blob file'') else Inr h)
       (BlobFileFooter_DecodeFrom buffer)"

definition BlobFileReader_Open ::
    "BlobLib \<Rightarrow> bytes \<Rightarrow> RandomAccessFile \<Rightarrow> u64 \<Rightarrow> (status + BlobFileReader) option" where
  "BlobFileReader_Open lib cache_prefix file file_size =
     (if file_size < of_nat kEncodedLength then Some (Inl (Corruption ''file is too short to be a blob file''))
      else
        (case ReadHeader file of
           (Inl s, file) \<Rightarrow> Some (Inl s)
         | (Inr header, file) \<Rightarrow>
             (let ((s, buffer), file) = file_Read (file_size - of_nat kEncodedLength) (of_nat kEncodedLength) file in
              if s \<noteq> OK then Some (Inl s)
              else
                (case footer_into buffer of
                   None \<Rightarrow> None
                 | Some (Inl s) \<Rightarrow> Some (Inl s)
                 | Some (Inr footer) \<Rightarrow>
                     if hd_flags header AND kHasUncompressionDictionary \<noteq> 0 then
                       (case InitUncompressionDict lib footer file of
                          None \<Rightarrow> None
                        | Some (Inl s, file) \<Rightarrow> Some (Inl s)
                        | Some (Inr dict, file) \<Rightarrow>
                            Some (Inr \<lparr>rd_file = file, rd_dict = Some dict, rd_cache_prefix = cache_prefix\<rparr>))
                     else Some (Inr \<lparr>rd_file = file, rd_dict = None, rd_cache_prefix = cache_prefix\<rparr>)))))"

text \<open>
  The buffer \<open>DecodeRecord\<close> leaves: the decompressed record, or the slice itself.
\<close>

definition record_buffer :: "Compression \<Rightarrow> BlobDecoder \<Rightarrow> bytes \<Rightarrow> bytes" where
  "record_buffer cl d src =
     (if dec_compression d = kNoCompression then src
      else (case Uncompress cl (dec_compression d) (take (unat (dec_record_size d)) src) of
              Inl _ \<Rightarrow> src | Inr buffer \<Rightarrow> buffer))"

definition ReadRecord ::
    "BlobLib \<Rightarrow> BlobHandle \<Rightarrow> BlobFileReader \<Rightarrow> ((status + BlobRecord \<times> bytes) \<times> BlobFileReader) option" where
  "ReadRecord lib h rd =
     (let ((s, blob), file) = file_Read (bh_offset h) (bh_size h) (rd_file rd);
          rd = rd\<lparr>rd_file := file\<rparr>;
          cl = lib_compression lib (case rd_dict rd of None \<Rightarrow> [] | Some d \<Rightarrow> d) in
      if s \<noteq> OK then Some (Inl s, rd)
      else if bh_size h \<noteq> of_nat (length blob) then
        Some (Inl (Corruption (''ReadRecord actual size: '' @ nat_digits (length blob) @
               '' not equal to blob size '' @ nat_digits (unat (bh_size h)))), rd)
      else
        (case DecodeHeader blob of
           Inl s \<Rightarrow> Some (Inl s, rd)
         | Inr (d, blob) \<Rightarrow>
             (case DecodeRecord cl d blob of
                None \<Rightarrow> None
              | Some (Inl s) \<Rightarrow> Some (Inl s, rd)
              | Some (Inr (record, _)) \<Rightarrow> Some (Inr (record, record_buffer cl d blob), rd))))"

definition EncodeBlobCache :: "bytes \<Rightarrow> u64 \<Rightarrow> bytes" where
  "EncodeBlobCache prefix off = PutVarint64 prefix off"

text \<open>The cache maps keys to buffers; \<open>None\<close> for no cache.\<close>

type_synonym blob_cache = "(bytes \<rightharpoonup> bytes) option"

definition Reader_Get :: "BlobLib \<Rightarrow> BlobHandle \<Rightarrow> BlobFileReader \<Rightarrow> blob_cache \<Rightarrow>
    ((status + BlobRecord) \<times> BlobFileReader \<times> blob_cache) option" where
  "Reader_Get lib h rd cache =
     (let key = EncodeBlobCache (rd_cache_prefix rd) (bh_offset h) in
      case (case cache of None \<Rightarrow> None | Some m \<Rightarrow> m key) of
        Some blob \<Rightarrow> Some (DecodeInto BlobRecord_DecodeFrom blob False, rd, cache)
      | None \<Rightarrow>
          (case ReadRecord lib h rd of
             None \<Rightarrow> None
           | Some (Inl s, rd) \<Rightarrow> Some (Inl s, rd, cache)
           | Some (Inr (record, blob), rd) \<Rightarrow> Some (Inr record, rd, map_option (\<lambda>m. m(key \<mapsto> blob)) cache)))"

record BlobFilePrefetcher =
  pf_reader :: BlobFileReader
  pf_last_offset :: u64
  pf_readahead_size :: u64
  pf_readahead_limit :: u64

definition kMaxReadaheadSize :: u64 where
  "kMaxReadaheadSize = push_bit 10 256"

definition Prefetcher_Get :: "BlobLib \<Rightarrow> BlobHandle \<Rightarrow> BlobFilePrefetcher \<Rightarrow> blob_cache \<Rightarrow>
    ((status + BlobRecord) \<times> BlobFilePrefetcher \<times> blob_cache) option" where
  "Prefetcher_Get lib h pf cache =
     (let pf = (if bh_offset h = pf_last_offset pf then
                  (let pf = pf\<lparr>pf_last_offset := bh_offset h + bh_size h\<rparr> in
                   if bh_offset h + bh_size h > pf_readahead_limit pf then
                     (let sz = max (bh_size h) (pf_readahead_size pf)
                      in pf\<lparr>pf_readahead_limit := bh_offset h + sz,
                            pf_readahead_size := min kMaxReadaheadSize (sz * 2)\<rparr>)
                   else pf)
                else pf\<lparr>pf_last_offset := bh_offset h + bh_size h, pf_readahead_size := 0, pf_readahead_limit := 0\<rparr>)
      in map_option (\<lambda>(r, rd, cache). (r, pf\<lparr>pf_reader := rd\<rparr>, cache)) (Reader_Get lib h (pf_reader pf) cache))"

section \<open>Layout\<close>

text \<open>The bytes of a file, its records with their handles.\<close>

definition enc_bytes :: "BlobEncoder \<Rightarrow> bytes" where
  "enc_bytes e = enc_header e @ enc_record e"

definition lay :: "BlobFileHeader \<Rightarrow> BlobEncoder list \<Rightarrow> bytes" where
  "lay hdr es = BlobFileHeader_EncodeTo [] hdr @ concat (map enc_bytes es)"

definition nth_handle :: "BlobFileHeader \<Rightarrow> BlobEncoder list \<Rightarrow> nat \<Rightarrow> BlobHandle" where
  "nth_handle hdr es i =
     \<lparr>bh_offset = of_nat (length (lay hdr (take i es))), bh_size = of_nat (length (enc_bytes (es ! i))), bh_index = of_nat i\<rparr>"

definition block_trailer :: "bytes \<Rightarrow> bytes" where
  "block_trailer block = [kNoCompression] @ EncodeFixed32 (Mask (Extend (Value block) [kNoCompression]))"

definition raw_block :: "bytes \<Rightarrow> bytes" where
  "raw_block block = block @ block_trailer block"

definition block_at :: "bytes \<Rightarrow> bytes \<Rightarrow> BlockHandle" where
  "block_at before block = \<lparr>blk_offset = of_nat (length before), blk_size = of_nat (length block)\<rparr>"

definition meta_blocks :: "BlobLib \<Rightarrow> bytes \<Rightarrow> bytes option \<Rightarrow> bytes \<times> BlockHandle" where
  "meta_blocks lib before dict =
     (case dict of
        None \<Rightarrow> ([], NullBlockHandle)
      | Some d \<Rightarrow>
          (let mi = lib_meta_index lib (Some (block_at before d))
           in (raw_block d @ raw_block mi, block_at (before @ raw_block d) mi)))"

definition blob_file :: "BlobLib \<Rightarrow> bytes option \<Rightarrow> BlobFileHeader \<Rightarrow> BlobEncoder list \<Rightarrow> bytes" where
  "blob_file lib dict hdr es =
     lay hdr es @ fst (meta_blocks lib (lay hdr es) dict) @
     BlobFileFooter_EncodeTo [] (snd (meta_blocks lib (lay hdr es) dict))"

lemma length_enc_bytes: "length (enc_bytes (EncodeSlice cl t x)) = GetEncodedSize (EncodeSlice cl t x)"
  by (simp add: enc_bytes_def GetEncodedSize_def length_enc_header)

lemma lay_snoc: "lay hdr (es @ [e]) = lay hdr es @ enc_bytes e"
  by (simp add: lay_def)

lemma nth_handle_append: "i < length es \<Longrightarrow> nth_handle hdr (es @ es') i = nth_handle hdr es i"
  by (simp add: nth_handle_def nth_append)

section \<open>The builder writes the layout\<close>

text \<open>What is relied on of the libraries: decompression undoes compression, a trained dictionary is
  no longer than asked for, and the dictionary is found in a (short) meta index block that has it.\<close>

definition lib_sound :: "BlobLib \<Rightarrow> bool" where
  "lib_sound lib \<longleftrightarrow> (\<forall>d. compression_sound (lib_compression lib d)) \<and>
     (\<forall>s ls n. length (lib_train lib s ls n) \<le> unat n) \<and>
     (\<forall>h. lib_find_dict lib (lib_meta_index lib (Some h)) = Inr (Some h)) \<and>
     (\<forall>h. lib_meta_index lib h \<noteq> [] \<and> length (lib_meta_index lib h) < 2 ^ 32)"

definition written :: "BlobFileBuilder \<Rightarrow> BlobFileHeader \<Rightarrow> BlobEncoder list \<Rightarrow> bool" where
  "written b hdr es \<longleftrightarrow> bb_status b = OK \<and> wf_io (bb_file b) = [] \<and> wf_data (bb_file b) = lay hdr es \<and>
     bb_entries b = of_nat (length es)"

text \<open>The fields that writing leaves alone.\<close>

definition same_config :: "BlobFileBuilder \<Rightarrow> BlobFileBuilder \<Rightarrow> bool" where
  "same_config b b' \<longleftrightarrow> bb_buffered b' = bb_buffered b \<and> bb_opts b' = bb_opts b \<and> bb_version b' = bb_version b \<and>
     bb_dict b' = bb_dict b \<and> bb_samples b' = bb_samples b \<and> bb_cached b' = bb_cached b"

lemma builder_Append_ok:
  "wf_io (bb_file b) = [] \<Longrightarrow>
   builder_Append data b = b\<lparr>bb_status := OK, bb_file := (bb_file b)\<lparr>wf_data := wf_data (bb_file b) @ data\<rparr>\<rparr>"
  by (simp add: builder_Append_def file_Append_def wf_next_def)

lemma WriteEncoderData_written:
  assumes "written b hdr es" "e = builder_encode lib b x"
  obtains b' where "WriteEncoderData e b = (nth_handle hdr (es @ [e]) (length es), b')" "written b' hdr (es @ [e])"
    "same_config b b'"
proof -
  have "GetEncodedSize e = length (enc_bytes e)" using assms(2) by (simp add: builder_encode_def length_enc_bytes)
  then show thesis
    using assms(1) that
    by (simp add: WriteEncoderData_def Let_def builder_Append_ok written_def nth_handle_def GetFileSize_def lay_snoc
        same_config_def enc_bytes_def)
qed

definition handled :: "BlobFileHeader \<Rightarrow> BlobEncoder list \<Rightarrow> BlobRecordContext list \<Rightarrow> BlobRecordContext list" where
  "handled hdr es ctxs = map (\<lambda>i. set_handle (nth_handle hdr es i) (ctxs ! i)) [0..<length ctxs]"

lemma handled_snoc:
  "length ctxs = length es \<Longrightarrow> handled hdr (es @ [e]) (ctxs @ [c]) =
     handled hdr es ctxs @ [set_handle (nth_handle hdr (es @ [e]) (length es)) c]"
  by (auto simp: handled_def nth_append nth_handle_append)

lemma flush_samples_written:
  assumes "written b hdr es" "length samples = length ctxs" "list_all (\<lambda>c. \<not> rc_has_value c) ctxs"
    and "length outs0 = length es" "outs0 = handled hdr es cs0" "length cs0 = length es"
  shows "\<exists>b' outs. flush_samples lib samples ctxs b = Some (b', outs) \<and>
    written b' hdr (es @ map (builder_encode lib b) samples) \<and> same_config b b' \<and>
    outs0 @ outs = handled hdr (es @ map (builder_encode lib b) samples) (cs0 @ ctxs)"
  using assms
proof (induction samples arbitrary: ctxs b es outs0 cs0)
  case Nil
  then show ?case by (simp add: same_config_def)
next
  case (Cons x xs)
  obtain c cs where ctxs: "ctxs = c # cs" using Cons.prems(2) by (cases ctxs) auto
  let ?e = "builder_encode lib b x"
  obtain b1 where b1: "WriteEncoderData ?e b = (nth_handle hdr (es @ [?e]) (length es), b1)" "written b1 hdr (es @ [?e])"
    "same_config b b1" by (rule WriteEncoderData_written [OF Cons.prems(1) refl])
  have same: "builder_encode lib b1 = builder_encode lib b"
    using b1(3) by (simp add: builder_encode_def same_config_def fun_eq_iff)
  let ?h = "nth_handle hdr (es @ [?e]) (length es)"
  obtain b2 outs where "flush_samples lib xs cs b1 = Some (b2, outs)"
    "written b2 hdr ((es @ [?e]) @ map (builder_encode lib b1) xs)" "same_config b1 b2"
    "(outs0 @ [set_handle ?h c]) @ outs = handled hdr ((es @ [?e]) @ map (builder_encode lib b1) xs) ((cs0 @ [c]) @ cs)"
    using Cons.IH [OF b1(2), of cs "outs0 @ [set_handle ?h c]" "cs0 @ [c]"] Cons.prems(2-) ctxs handled_snoc [of cs0 es hdr ?e c]
    by auto
  then show ?case
    using b1 Cons.prems(3) unfolding ctxs same by (auto simp: same_config_def)
qed

text \<open>
  A builder that has taken the records \<open>recs\<close> with the contexts \<open>ctxs\<close> and has given \<open>outs\<close>
  back: everything is still buffered, or everything is in the file.
\<close>

definition dict_of :: "BlobFileBuilder \<Rightarrow> bytes" where
  "dict_of b = (case bb_dict b of None \<Rightarrow> [] | Some d \<Rightarrow> d)"

definition encoded :: "BlobLib \<Rightarrow> BlobFileBuilder \<Rightarrow> BlobRecord list \<Rightarrow> BlobEncoder list" where
  "encoded lib b recs = map (EncodeRecord (lib_compression lib (dict_of b)) (co_compression (bb_opts b))) recs"

definition building :: "BlobLib \<Rightarrow> BlobFileHeader \<Rightarrow> BlobRecord list \<Rightarrow> BlobRecordContext list \<Rightarrow>
    BlobRecordContext list \<Rightarrow> BlobFileBuilder \<Rightarrow> bool" where
  "building lib hdr recs ctxs outs b \<longleftrightarrow>
     length ctxs = length recs \<and> list_all (\<lambda>c. \<not> rc_has_value c) ctxs \<and>
     (if bb_buffered b
      then written b hdr [] \<and> bb_samples b = map (BlobRecord_EncodeTo []) recs \<and> bb_cached b = ctxs \<and> outs = [] \<and>
        co_max_dict_bytes (bb_opts b) > 0
      else written b hdr (encoded lib b recs) \<and> bb_samples b = [] \<and> bb_cached b = [] \<and>
        outs = handled hdr (encoded lib b recs) ctxs \<and> (bb_dict b \<noteq> None \<longleftrightarrow> co_max_dict_bytes (bb_opts b) > 0) \<and>
        length (dict_of b) < 2 ^ 32)"

lemma builder_encode_record: "builder_encode lib b (BlobRecord_EncodeTo [] r) =
    EncodeRecord (lib_compression lib (dict_of b)) (co_compression (bb_opts b)) r"
  by (simp add: builder_encode_def EncodeRecord_def dict_of_def)

lemma EnterUnbuffered_building:
  assumes lib: "lib_sound lib" and "building lib hdr recs ctxs [] b" "bb_buffered b"
  obtains b' outs where "EnterUnbuffered lib b = Some (b', outs)" "building lib hdr recs ctxs outs b'" "\<not> bb_buffered b'"
    "bb_opts b' = bb_opts b"
proof -
  define d where "d = lib_train lib (concat (bb_samples b)) (map length (bb_samples b)) (co_max_dict_bytes (bb_opts b))"
  let ?b = "b\<lparr>bb_dict := Some d\<rparr>"
  have w: "written ?b hdr []" using assms by (simp add: building_def written_def)
  have len: "length (bb_samples b) = length (bb_cached b)" "list_all (\<lambda>c. \<not> rc_has_value c) (bb_cached b)"
    using assms by (simp_all add: building_def)
  obtain b' outs where b': "flush_samples lib (bb_samples b) (bb_cached b) ?b = Some (b', outs)"
    "written b' hdr (map (builder_encode lib ?b) (bb_samples b))" "same_config ?b b'"
    "outs = handled hdr (map (builder_encode lib ?b) (bb_samples b)) (bb_cached b)"
    using flush_samples_written [OF w len, of "[]" "[]" lib] by (auto simp: handled_def)
  let ?r = "b'\<lparr>bb_samples := [], bb_sample_len := 0, bb_cached := [], bb_buffered := False\<rparr>"
  have e: "map (builder_encode lib ?b) (bb_samples b) = encoded lib ?r recs"
    using assms b'(3) by (simp add: building_def encoded_def builder_encode_record same_config_def dict_of_def)
  have r: "EnterUnbuffered lib b = Some (?r, outs)"
    using b'(1) len by (simp add: EnterUnbuffered_def FlushSampleRecords_def Let_def d_def [symmetric])
  have "length d < 2 ^ 32"
    using lib unat_lt_u32 [of "co_max_dict_bytes (bb_opts b)"] unfolding d_def lib_sound_def by (meson le_less_trans)
  then have "building lib hdr recs ctxs outs ?r"
    using assms b'(2,3,4) unfolding e by (simp add: building_def written_def same_config_def encoded_def dict_of_def)
  with r show thesis using that b'(3) by (simp add: same_config_def)
qed

lemma key_range_simps [simp]:
  "bb_buffered (key_range k b) = bb_buffered b" "bb_opts (key_range k b) = bb_opts b" "bb_file (key_range k b) = bb_file b"
  "bb_status (key_range k b) = bb_status b" "bb_dict (key_range k b) = bb_dict b" "bb_samples (key_range k b) = bb_samples b"
  "bb_cached (key_range k b) = bb_cached b" "bb_entries (key_range k b) = bb_entries b"
  by (simp_all add: key_range_def Let_def)

lemma building_key_range [simp]: "building lib hdr recs ctxs outs (key_range k b) = building lib hdr recs ctxs outs b"
  by (simp add: building_def written_def encoded_def dict_of_def)

lemma Builder_Add_building:
  assumes lib: "lib_sound lib" and b: "building lib hdr recs ctxs outs b" and c: "\<not> rc_has_value c"
  obtains b' new where "Builder_Add lib r c b = Some (b', new)" "building lib hdr (recs @ [r]) (ctxs @ [c]) (outs @ new) b'"
    "bb_opts b' = bb_opts b"
proof (cases "bb_buffered b")
  case True
  let ?s = "BlobRecord_EncodeTo [] r"
  let ?b = "b\<lparr>bb_samples := bb_samples b @ [?s], bb_sample_len := bb_sample_len b + of_nat (length ?s), bb_cached := bb_cached b @ [c]\<rparr>"
  have ok: "bb_status b = OK" and o0: "outs = []" using True b by (simp_all add: building_def written_def)
  have b1: "building lib hdr (recs @ [r]) (ctxs @ [c]) [] ?b"
    using True b c by (simp add: building_def written_def)
  show thesis
  proof (cases "co_zstd_max_train_bytes (bb_opts ?b) > 0 \<and> bb_sample_len ?b \<ge> ucast (co_zstd_max_train_bytes (bb_opts ?b))")
    case full: True
    obtain b' new where "EnterUnbuffered lib ?b = Some (b', new)" "building lib hdr (recs @ [r]) (ctxs @ [c]) new b'"
      "bb_opts b' = bb_opts ?b"
      by (rule EnterUnbuffered_building [OF lib b1]) (use True in \<open>simp; fail\<close>, rule that)
    then show thesis using that True ok o0 full by (simp add: Builder_Add_def Let_def)
  next
    case False
    then have "Builder_Add lib r c b = Some (key_range (rec_key r) ?b, [])"
      using True ok by (auto simp: Builder_Add_def Let_def)
    then show thesis using that b1 o0 by simp
  qed
next
  case False
  let ?e = "builder_encode lib b (BlobRecord_EncodeTo [] r)" and ?es = "encoded lib b recs"
  have w: "written b hdr ?es" and ok: "bb_status b = OK" using False b by (simp_all add: building_def written_def)
  obtain b' where b': "WriteEncoderData ?e b = (nth_handle hdr (?es @ [?e]) (length ?es), b')" "written b' hdr (?es @ [?e])"
    "same_config b b'" by (rule WriteEncoderData_written [OF w refl])
  have e: "?es @ [?e] = encoded lib b' (recs @ [r])"
    using b'(3) by (simp add: encoded_def builder_encode_record dict_of_def same_config_def)
  have len: "length ctxs = length ?es" using b by (simp add: building_def encoded_def)
  have "Builder_Add lib r c b = Some (key_range (rec_key r) b', [set_handle (nth_handle hdr (?es @ [?e]) (length ?es)) c])"
    using False ok b'(1) by (simp add: Builder_Add_def)
  moreover have "building lib hdr (recs @ [r]) (ctxs @ [c])
      (outs @ [set_handle (nth_handle hdr (?es @ [?e]) (length ?es)) c]) b'"
    using False b c b'(2,3) handled_snoc [OF len, of hdr ?e c] unfolding e
    by (simp add: building_def same_config_def dict_of_def)
  ultimately show thesis using that b'(3) by (simp add: same_config_def)
qed

fun add_all :: "BlobLib \<Rightarrow> (BlobRecord \<times> BlobRecordContext) list \<Rightarrow> BlobFileBuilder \<Rightarrow>
    (BlobFileBuilder \<times> BlobRecordContext list) option" where
  "add_all lib [] b = Some (b, [])"
| "add_all lib ((r, c) # xs) b =
     (case Builder_Add lib r c b of
        None \<Rightarrow> None
      | Some (b, new) \<Rightarrow> map_option (\<lambda>(b, out). (b, new @ out)) (add_all lib xs b))"

lemma add_all_building:
  assumes lib: "lib_sound lib" and "building lib hdr recs ctxs outs b" "list_all (\<lambda>x. \<not> rc_has_value (snd x)) xs"
  shows "\<exists>b' new. add_all lib xs b = Some (b', new) \<and>
    building lib hdr (recs @ map fst xs) (ctxs @ map snd xs) (outs @ new) b' \<and> bb_opts b' = bb_opts b"
  using assms(2,3)
proof (induction xs arbitrary: b recs ctxs outs)
  case (Cons x xs)
  obtain r c where x: "x = (r, c)" by (cases x)
  have c: "\<not> rc_has_value c" using Cons.prems(2) x by simp
  obtain b1 new where b1: "Builder_Add lib r c b = Some (b1, new)"
    "building lib hdr (recs @ [r]) (ctxs @ [c]) (outs @ new) b1" "bb_opts b1 = bb_opts b"
    by (rule Builder_Add_building [OF lib Cons.prems(1) c])
  from Cons.IH [OF b1(2)] Cons.prems(2) b1(1,3) show ?case by (auto simp: x)
qed simp

text \<open>Options under which a file of a version can be built, and the header it gets.\<close>

definition buildable :: "BlobLib \<Rightarrow> BuilderOptions \<Rightarrow> u32 \<Rightarrow> bool" where
  "buildable lib opts version \<longleftrightarrow> version = kVersion2 \<and> (co_max_dict_bytes opts > 0 \<longrightarrow> lib_zstd lib) \<or>
     version = kVersion1 \<and> co_max_dict_bytes opts = 0"

definition built_header :: "BuilderOptions \<Rightarrow> u32 \<Rightarrow> BlobFileHeader" where
  "built_header opts version = \<lparr>hd_version = version, hd_flags = (if co_max_dict_bytes opts > 0 then kHasUncompressionDictionary else 0)\<rparr>"

lemma built_header_wf: "buildable lib opts version \<Longrightarrow> BlobFileHeader_wf (built_header opts version)"
  by (auto simp: buildable_def BlobFileHeader_wf_def built_header_def)

lemma BlobFileBuilder_new_building:
  assumes "buildable lib opts version"
  obtains b where "BlobFileBuilder_new lib opts \<lparr>wf_data = [], wf_io = []\<rparr> version = Some b"
    "building lib (built_header opts version) [] [] [] b" "bb_opts b = opts"
proof -
  let ?r = "BlobFileBuilder_new lib opts \<lparr>wf_data = [], wf_io = []\<rparr> version"
  have v: "ValidateVersion version = OK" using assms by (auto simp: buildable_def ValidateVersion_def)
  have "\<exists>b. ?r = Some b \<and> building lib (built_header opts version) [] [] [] b \<and> bb_opts b = opts"
  proof (cases "co_max_dict_bytes opts > 0")
    case True
    then have "version = kVersion2" "lib_zstd lib" using assms by (auto simp: buildable_def)
    then show ?thesis
      using True v by (simp add: BlobFileBuilder_new_def Let_def WriteHeader_def builder_Append_ok building_def written_def
          lay_def built_header_def)
  next
    case False
    then show ?thesis
      using v by (simp add: BlobFileBuilder_new_def Let_def WriteHeader_def builder_Append_ok building_def written_def
          lay_def built_header_def encoded_def handled_def dict_of_def)
  qed
  then show thesis using that by blast
qed

lemma Builder_Finish_building:
  assumes lib: "lib_sound lib" and "building lib hdr recs ctxs outs b"
  obtains b' new dict where "Builder_Finish lib b = Some ((OK, b'), new)"
    "wf_data (bb_file b') = blob_file lib dict hdr
        (map (EncodeRecord (lib_compression lib (case dict of None \<Rightarrow> [] | Some d \<Rightarrow> d)) (co_compression (bb_opts b))) recs)"
    "outs @ new = handled hdr
        (map (EncodeRecord (lib_compression lib (case dict of None \<Rightarrow> [] | Some d \<Rightarrow> d)) (co_compression (bb_opts b))) recs) ctxs"
    "dict \<noteq> None \<longleftrightarrow> co_max_dict_bytes (bb_opts b) > 0" "\<And>d. dict = Some d \<Longrightarrow> length d < 2 ^ 32" "wf_io (bb_file b') = []"
proof -
  have ok: "bb_status b = OK" using assms(2) by (simp add: building_def written_def split: if_splits)
  obtain b1 new where b1: "(if bb_buffered b then EnterUnbuffered lib b else Some (b, [])) = Some (b1, new)"
    "building lib hdr recs ctxs (outs @ new) b1" "\<not> bb_buffered b1" "bb_opts b1 = bb_opts b"
  proof (cases "bb_buffered b")
    case True
    then have "outs = []" "building lib hdr recs ctxs [] b" using assms by (simp_all add: building_def)
    then show thesis using EnterUnbuffered_building [OF lib _ True] True that by (metis append_Nil)
  next
    case False
    then show thesis using that [of b "[]"] assms by simp
  qed
  let ?es = "encoded lib b1 recs"
  have w: "written b1 hdr ?es" "outs @ new = handled hdr ?es ctxs" "bb_dict b1 \<noteq> None \<longleftrightarrow> co_max_dict_bytes (bb_opts b1) > 0"
    "\<And>d. bb_dict b1 = Some d \<Longrightarrow> length d < 2 ^ 32"
    using b1(2,3) by (simp_all add: building_def dict_of_def)
  have es: "?es = map (EncodeRecord (lib_compression lib (case bb_dict b1 of None \<Rightarrow> [] | Some d \<Rightarrow> d)) (co_compression (bb_opts b))) recs"
    by (simp add: encoded_def dict_of_def b1(4))
  have "\<exists>b'. Builder_Finish lib b = Some ((OK, b'), new) \<and> wf_data (bb_file b') = blob_file lib (bb_dict b1) hdr ?es \<and> wf_io (bb_file b') = []"
  proof (cases "bb_dict b1")
    case None
    then have "\<not> co_max_dict_bytes (bb_opts b) > 0" using w(3) b1(4) by simp
    then show ?thesis
      using None ok b1 w(1)
      by (simp add: Builder_Finish_def Let_def builder_Append_ok written_def file_Flush_def wf_next_def blob_file_def meta_blocks_def)
  next
    case (Some d)
    then have "co_max_dict_bytes (bb_opts b) > 0" using w(3) b1(4) by simp
    then show ?thesis
      using Some ok b1 w(1)
      by (simp add: Builder_Finish_def Let_def builder_Append_ok written_def file_Flush_def wf_next_def blob_file_def meta_blocks_def
          WriteRawBlock_def GetFileSize_def raw_block_def block_trailer_def block_at_def)
  qed
  then obtain b' where b': "Builder_Finish lib b = Some ((OK, b'), new)" "wf_data (bb_file b') = blob_file lib (bb_dict b1) hdr ?es"
    "wf_io (bb_file b') = []" by blast
  from that [OF b'(1,2) [unfolded es] w(2) [unfolded es]] w(3,4) b1(4) b'(3) show thesis by simp
qed

section \<open>The reader reads the layout\<close>

abbreviation read_only :: "bytes \<Rightarrow> RandomAccessFile" where
  "read_only data \<equiv> \<lparr>rf_data = data, rf_io = []\<rparr>"

lemma file_Read_part:
  assumes "data = a @ b @ c" "length data < 2 ^ 64" "off = of_nat (length a)" "n = of_nat (length b)"
  shows "file_Read off n (read_only data) = ((OK, b), read_only data)"
proof -
  have "unat off = length a" "unat n = length b"
    using assms by (simp_all add: unsigned_of_nat take_bit_nat_eq_self)
  then show ?thesis using assms(1) by (simp add: file_Read_def)
qed

lemma unat_of_nat_u64: "n < 2 ^ 64 \<Longrightarrow> unat (of_nat n :: u64) = n"
  by (simp add: unsigned_of_nat take_bit_nat_eq_self)

lemma ReadHeader_lay:
  assumes "BlobFileHeader_wf hdr"
  shows "ReadHeader (read_only (BlobFileHeader_EncodeTo [] hdr @ rest)) = (Inr hdr, read_only (BlobFileHeader_EncodeTo [] hdr @ rest))"
proof -
  let ?h = "BlobFileHeader_EncodeTo [] hdr"
  have "length ?h \<le> 12" using length_BlobFileHeader [OF assms] by (simp add: BlobFileHeader_size_def)
  then have "take 12 (?h @ rest) = ?h @ take (12 - length ?h) rest" by simp
  then show ?thesis
    using BlobFileHeader_Decode_Encode [OF assms] by (simp add: ReadHeader_def file_Read_def DecodeInto_def)
qed

lemma footer_into_encoded: "footer_into (BlobFileFooter_EncodeTo [] h) = Some (Inr h)"
  using BlobFileFooter_Decode_Encode [of h "[]"] by (simp add: footer_into_def)

lemma dict_read_back:
  assumes lib: "lib_sound lib" "lib_zstd lib" and data: "data = before @ fst (meta_blocks lib before (Some d)) @ rest"
    and len: "length data < 2 ^ 64"
  shows "InitUncompressionDict lib (snd (meta_blocks lib before (Some d))) (read_only data) = Some (Inr d, read_only data)"
proof -
  define h where "h = block_at before d"
  define mi where "mi = lib_meta_index lib (Some h)"
  have mi: "mi \<noteq> []" "lib_find_dict lib mi = Inr (Some h)" using lib(1) by (simp_all add: lib_sound_def mi_def)
  have data': "data = before @ d @ (block_trailer d @ raw_block mi @ rest)"
    "data = (before @ raw_block d) @ mi @ (block_trailer mi @ rest)"
    using data by (simp_all add: meta_blocks_def Let_def raw_block_def mi_def h_def)
  have h2: "snd (meta_blocks lib before (Some d)) = block_at (before @ raw_block d) mi"
    by (simp add: meta_blocks_def Let_def mi_def h_def)
  have "length mi < 2 ^ 64" "length d < 2 ^ 64" using len by (simp_all add: data'(2) raw_block_def)
  then have un: "unat (of_nat (length mi) :: u64) = length mi" "unat (of_nat (length d) :: u64) = length d"
    by (simp_all add: unat_of_nat_u64)
  then have "(of_nat (length mi) :: u64) \<noteq> 0" using mi(1) by (metis length_0_conv unat_0)
  then show ?thesis
    unfolding h2 using lib(2) mi(2) un file_Read_part [OF data'(2) len refl refl] file_Read_part [OF data'(1) len refl refl]
    by (simp add: InitUncompressionDict_def block_at_def h_def)
qed

lemma Reader_Open_footer:
  assumes data: "data = body @ footer" "length footer = kEncodedLength" "footer_into footer = Some (Inr h)" and len: "length data < 2 ^ 64"
    and hdr: "ReadHeader (read_only data) = (Inr hdr, read_only data)"
  shows "BlobFileReader_Open lib pre (read_only data) (of_nat (length data)) =
    (if hd_flags hdr AND kHasUncompressionDictionary \<noteq> 0
     then (case InitUncompressionDict lib h (read_only data) of
             None \<Rightarrow> None
           | Some (Inl s, file) \<Rightarrow> Some (Inl s)
           | Some (Inr dict, file) \<Rightarrow> Some (Inr \<lparr>rd_file = file, rd_dict = Some dict, rd_cache_prefix = pre\<rparr>))
     else Some (Inr \<lparr>rd_file = read_only data, rd_dict = None, rd_cache_prefix = pre\<rparr>))"
proof -
  let ?n = "of_nat (length data) :: u64"
  have l: "length data = length body + kEncodedLength" using data by simp
  then have "\<not> ?n < of_nat kEncodedLength" using len by (simp add: word_less_nat_alt unat_of_nat_u64 del: of_nat_add)
  moreover have "file_Read (?n - of_nat kEncodedLength) (of_nat kEncodedLength) (read_only data) = ((OK, footer), read_only data)"
    by (rule file_Read_part [OF _ len, of body _ "[]"]) (simp_all add: data l)
  ultimately show ?thesis
    using hdr data(3) by (simp add: BlobFileReader_Open_def del: of_nat_numeral)
qed

lemma Reader_Open_blob_file:
  assumes lib: "lib_sound lib" and hdr: "BlobFileHeader_wf hdr"
    and flags: "hd_flags hdr AND kHasUncompressionDictionary \<noteq> 0 \<longleftrightarrow> dict \<noteq> None" and zstd: "dict \<noteq> None \<Longrightarrow> lib_zstd lib"
    and len: "length (blob_file lib dict hdr es) < 2 ^ 64"
  shows "BlobFileReader_Open lib pre (read_only (blob_file lib dict hdr es)) (of_nat (length (blob_file lib dict hdr es))) =
    Some (Inr \<lparr>rd_file = read_only (blob_file lib dict hdr es), rd_dict = dict, rd_cache_prefix = pre\<rparr>)"
proof -
  let ?m = "meta_blocks lib (lay hdr es) dict" and ?data = "blob_file lib dict hdr es"
  let ?f = "BlobFileFooter_EncodeTo [] (snd ?m)"
  have d: "?data = (lay hdr es @ fst ?m) @ ?f" by (simp add: blob_file_def)
  have h: "ReadHeader (read_only ?data) = (Inr hdr, read_only ?data)"
    using ReadHeader_lay [OF hdr] by (simp add: blob_file_def lay_def)
  note op = Reader_Open_footer [OF d length_BlobFileFooter footer_into_encoded len h, of lib pre]
  show ?thesis
  proof (cases dict)
    case None
    then show ?thesis using op flags by simp
  next
    case (Some x)
    have "InitUncompressionDict lib (snd ?m) (read_only ?data) = Some (Inr x, read_only ?data)"
      using dict_read_back [OF lib zstd, of ?data "lay hdr es" x ?f] Some len by (simp add: blob_file_def)
    then show ?thesis using op flags Some by simp
  qed
qed

lemma decode_encoded:
  assumes "compression_sound cl" "BlobRecord_fits r" "length (enc_record (EncodeRecord cl t r)) < 2 ^ 32"
  defines "e \<equiv> EncodeRecord cl t r"
  shows "\<exists>d. (\<forall>rest. DecodeHeader (enc_header e @ rest) = Inr (d, rest)) \<and> unat (dec_record_size d) = length (enc_record e) \<and>
    DecodeRecord cl d (enc_record e) = Some (Inr (r, [])) \<and> record_buffer cl d (enc_record e) = BlobRecord_EncodeTo [] r"
proof -
  obtain d where d: "DecodeHeader (enc_header e @ enc_record e @ []) = Inr (d, enc_record e @ [])"
    "unat (dec_record_size d) = length (enc_record e)" "DecodeRecord cl d (enc_record e @ []) = Some (Inr (r, []))"
    using DecodeRecord_EncodeRecord [OF assms(1,2,3), of "[]"] unfolding e_def by blast
  let ?x = "BlobRecord_EncodeTo [] r"
  obtain b c where bc: "Compress cl t ?x = (b, c)" by (cases "Compress cl t ?x")
  have e: "enc_record e = b" "e = EncodeSlice cl t ?x"
    using EncodeSlice_parts(2) [OF bc] by (simp_all add: e_def EncodeRecord_def)
  have h: "dec_compression d = c" "DecodeHeader (enc_header e @ rest) = Inr (d, rest)" for rest
    using DecodeHeader_EncodeSlice [OF bc] d(1) e by auto
  have "record_buffer cl d (enc_record e) = ?x"
    using Compress_cases [OF bc] assms(1) d(2) e(1) h(1) by (auto simp: record_buffer_def Uncompress_def compression_sound_def)
  with d h show ?thesis by auto
qed

lemma blob_file_nth:
  assumes "i < length es"
  shows "\<exists>rest. blob_file lib dict hdr es = lay hdr (take i es) @ enc_bytes (es ! i) @ rest"
proof -
  have "concat (map enc_bytes es) = concat (map enc_bytes (take i es)) @ enc_bytes (es ! i) @ concat (map enc_bytes (drop (Suc i) es))"
    by (subst id_take_nth_drop [OF assms]) simp
  then show ?thesis by (simp add: blob_file_def lay_def)
qed

lemma ReadRecord_at:
  assumes cl: "compression_sound (lib_compression lib (case rd_dict rd of None \<Rightarrow> [] | Some d \<Rightarrow> d))" and fits: "BlobRecord_fits r"
    and e: "e = EncodeRecord (lib_compression lib (case rd_dict rd of None \<Rightarrow> [] | Some d \<Rightarrow> d)) t r" and size: "length (enc_record e) < 2 ^ 32"
    and data: "data = a @ enc_bytes e @ rest" and len: "length data < 2 ^ 64" and rd: "rd_file rd = read_only data"
    and h: "bh_offset h = of_nat (length a)" "bh_size h = of_nat (length (enc_bytes e))"
  shows "ReadRecord lib h rd = Some (Inr (r, BlobRecord_EncodeTo [] r), rd)"
proof -
  let ?cl = "lib_compression lib (case rd_dict rd of None \<Rightarrow> [] | Some d \<Rightarrow> d)"
  obtain d where d: "\<forall>rest. DecodeHeader (enc_header e @ rest) = Inr (d, rest)"
    "DecodeRecord ?cl d (enc_record e) = Some (Inr (r, []))" "record_buffer ?cl d (enc_record e) = BlobRecord_EncodeTo [] r"
    using decode_encoded [OF cl fits, of t] size unfolding e by auto
  have "file_Read (bh_offset h) (bh_size h) (rd_file rd) = ((OK, enc_bytes e), rd_file rd)"
    unfolding rd by (rule file_Read_part [OF data len h])
  with d h(2) show ?thesis by (simp add: ReadRecord_def enc_bytes_def)
qed

lemma ReadRecord_nth:
  assumes lib: "lib_sound lib" and i: "i < length recs" and fits: "BlobRecord_fits (recs ! i)"
    and es: "es = map (EncodeRecord (lib_compression lib (case dict of None \<Rightarrow> [] | Some d \<Rightarrow> d)) t) recs"
    and size: "length (enc_record (es ! i)) < 2 ^ 32" and len: "length (blob_file lib dict hdr es) < 2 ^ 64"
    and rd: "rd_file rd = read_only (blob_file lib dict hdr es)" "rd_dict rd = dict"
  shows "ReadRecord lib (nth_handle hdr es i) rd = Some (Inr (recs ! i, BlobRecord_EncodeTo [] (recs ! i)), rd)"
proof -
  obtain rest where data: "blob_file lib dict hdr es = lay hdr (take i es) @ enc_bytes (es ! i) @ rest"
    using blob_file_nth [of i es lib dict hdr] i unfolding es length_map by blast
  show ?thesis
    by (rule ReadRecord_at [OF _ fits _ size data len rd(1)]) (use lib i es rd(2) in \<open>simp_all add: lib_sound_def nth_handle_def\<close>)
qed

lemma blob_file_small:
  assumes lib: "lib_sound lib" and hdr: "BlobFileHeader_wf hdr" and n: "length es < 2 ^ 31"
    and es: "\<And>e. e \<in> set es \<Longrightarrow> length (enc_bytes e) \<le> 2 ^ 32 + 8" and dict: "\<And>d. dict = Some d \<Longrightarrow> length d < 2 ^ 32"
  shows "length (blob_file lib dict hdr es) < 2 ^ 64"
proof -
  have "length (concat (map enc_bytes es)) \<le> length es * (2 ^ 32 + 8)"
    using es by (induction es) (auto simp: add_mono)
  also have "\<dots> \<le> 2 ^ 31 * (2 ^ 32 + 8)" using n by (intro mult_right_mono) auto
  finally have "length (lay hdr es) \<le> 12 + 2 ^ 31 * (2 ^ 32 + 8)"
    using length_BlobFileHeader [OF hdr] by (simp add: lay_def BlobFileHeader_size_def)
  moreover have "length (fst (meta_blocks lib before dict)) \<le> 2 * (2 ^ 32 + 5)" for before
  proof (cases dict)
    case (Some d)
    have "length (lib_meta_index lib (Some (block_at before d))) < 2 ^ 32" using lib by (simp add: lib_sound_def)
    then show ?thesis using dict [OF Some] Some by (simp add: meta_blocks_def raw_block_def block_trailer_def Let_def)
  qed (simp add: meta_blocks_def)
  from this [of "lay hdr es"] calculation show ?thesis
    using length_BlobFileFooter [of "snd (meta_blocks lib (lay hdr es) dict)"] by (simp add: blob_file_def)
qed

text \<open>C4: Records that were added to a builder, buffered for a dictionary or not, are read back:
  when the writes succeed, adding and finishing succeed, every context comes back in order with
  the handle of its record, the file can be opened, and reading a handle gives its record.\<close>

theorem blob_file_roundtrip:
  assumes lib: "lib_sound lib" and opts: "buildable lib opts version"
    and recs: "list_all (\<lambda>x. BlobRecord_fits (fst x) \<and> \<not> rc_has_value (snd x)) items" "length items < 2 ^ 31"
    and size: "\<And>d r. r \<in> fst ` set items \<Longrightarrow> length (enc_record (EncodeRecord (lib_compression lib d) (co_compression opts) r)) < 2 ^ 32"
  shows "\<exists>b0 b1 b2 out1 out2 hs rd.
      BlobFileBuilder_new lib opts \<lparr>wf_data = [], wf_io = []\<rparr> version = Some b0 \<and>
      add_all lib items b0 = Some (b1, out1) \<and> Builder_Finish lib b1 = Some ((OK, b2), out2) \<and>
      length hs = length items \<and> out1 @ out2 = map2 set_handle hs (map snd items) \<and>
      BlobFileReader_Open lib pre (read_only (wf_data (bb_file b2))) (GetFileSize (bb_file b2)) = Some (Inr rd) \<and>
      (\<forall>i < length items. \<exists>buf. ReadRecord lib (hs ! i) rd = Some (Inr (fst (items ! i), buf), rd))"
proof -
  let ?hdr = "built_header opts version"
  obtain b0 where b0: "BlobFileBuilder_new lib opts \<lparr>wf_data = [], wf_io = []\<rparr> version = Some b0"
    "building lib ?hdr [] [] [] b0" "bb_opts b0 = opts" by (rule BlobFileBuilder_new_building [OF opts])
  have nv: "list_all (\<lambda>x. \<not> rc_has_value (snd x)) items" using recs(1) by (simp add: list_all_iff)
  obtain b1 out1 where b1: "add_all lib items b0 = Some (b1, out1)"
    "building lib ?hdr (map fst items) (map snd items) out1 b1" "bb_opts b1 = opts"
    using add_all_building [OF lib b0(2) nv] b0(3) by auto
  define es where "es dict = map (EncodeRecord (lib_compression lib (case dict of None \<Rightarrow> [] | Some d \<Rightarrow> d)) (co_compression opts)) (map fst items)"
    for dict
  obtain b2 out2 dict where b2: "Builder_Finish lib b1 = Some ((OK, b2), out2)"
    "wf_data (bb_file b2) = blob_file lib dict ?hdr (es dict)" "out1 @ out2 = handled ?hdr (es dict) (map snd items)"
    "dict \<noteq> None \<longleftrightarrow> co_max_dict_bytes opts > 0" "\<And>d. dict = Some d \<Longrightarrow> length d < 2 ^ 32"
    by (rule Builder_Finish_building [OF lib b1(2), unfolded b1(3), folded es_def]) (rule that; (assumption | simp))
  let ?hs = "map (nth_handle ?hdr (es dict)) [0..<length items]"
  let ?rd = "\<lparr>rd_file = read_only (blob_file lib dict ?hdr (es dict)), rd_dict = dict, rd_cache_prefix = pre\<rparr>"
  have small: "length (enc_record e) < 2 ^ 32" "length (enc_bytes e) \<le> 2 ^ 32 + 8" if e: "e \<in> set (es dict)" for e
  proof -
    obtain r where r: "r \<in> fst ` set items" "e = EncodeRecord (lib_compression lib (case dict of None \<Rightarrow> [] | Some d \<Rightarrow> d)) (co_compression opts) r"
      using e by (auto simp: es_def)
    show "length (enc_record e) < 2 ^ 32" unfolding r(2) by (rule size [OF r(1)])
    moreover have "length (enc_header e) = 9" unfolding r(2) by (simp add: EncodeRecord_def length_enc_header kRecordHeaderSize_def)
    ultimately show "length (enc_bytes e) \<le> 2 ^ 32 + 8" by (simp add: enc_bytes_def)
  qed
  have len: "length (blob_file lib dict ?hdr (es dict)) < 2 ^ 64"
    by (rule blob_file_small [OF lib built_header_wf [OF opts] _ small(2) b2(5)]) (use recs(2) in \<open>simp add: es_def\<close>)
  have "hd_flags ?hdr AND kHasUncompressionDictionary \<noteq> 0 \<longleftrightarrow> dict \<noteq> None" "dict \<noteq> None \<Longrightarrow> lib_zstd lib"
    using b2(4) opts by (auto simp: built_header_def buildable_def)
  then have "BlobFileReader_Open lib pre (read_only (wf_data (bb_file b2))) (GetFileSize (bb_file b2)) = Some (Inr ?rd)"
    using Reader_Open_blob_file [OF lib built_header_wf [OF opts]] len unfolding b2(2) GetFileSize_def by blast
  moreover have "ReadRecord lib (?hs ! i) ?rd = Some (Inr (fst (items ! i), BlobRecord_EncodeTo [] (fst (items ! i))), ?rd)"
    if i: "i < length items" for i
  proof -
    have "length (enc_record (es dict ! i)) < 2 ^ 32" "BlobRecord_fits (map fst items ! i)"
      using small(1) recs(1) i by (simp_all add: es_def list_all_length)
    then show ?thesis
      using ReadRecord_nth [OF lib, of i "map fst items" "es dict" dict "co_compression opts" ?hdr ?rd] len i
      by (simp add: es_def)
  qed
  moreover have "out1 @ out2 = map2 set_handle ?hs (map snd items)"
    unfolding b2(3) handled_def by (rule nth_equalityI) simp_all
  moreover have "length ?hs = length items" by simp
  ultimately show ?thesis using b0(1) b1(1) b2(1) by blast
qed

definition demo_lib :: BlobLib where
  "demo_lib = \<lparr>lib_compression = (\<lambda>_. rle_demo), lib_train = (\<lambda>s _ n. take (unat n) s),
     lib_meta_index = (\<lambda>h. case h of None \<Rightarrow> [0] | Some h \<Rightarrow> 1 # BlockHandle_EncodeTo [] h),
     lib_find_dict = (\<lambda>b. if hd b = 0 then Inr None else
        (case BlockHandle_DecodeFrom (tl b) of Inl s \<Rightarrow> Inl s | Inr (h, _) \<Rightarrow> Inr (Some h))),
     lib_zstd = True\<rparr>"

lemma demo_lib_sound: "lib_sound demo_lib"
proof -
  have "length (BlockHandle_EncodeTo [] h) < 4294967295" for h using length_BlockHandle [of h] by simp
  then show ?thesis
    using rle_demo_sound BlockHandle_Decode_Encode [of _ "[]"]
    by (auto simp: lib_sound_def demo_lib_def split: option.splits)
qed

definition demo_builder_options :: BuilderOptions where
  "demo_builder_options = TitanCFOptions.extend demo_options
     \<lparr>co_max_dict_bytes = 8, co_zstd_max_train_bytes = 5\<rparr>"

definition demo_context :: BlobRecordContext where
  "demo_context = \<lparr>rc_key = [1], rc_original_blob_index = BlobIndex_zero, rc_new_blob_index = BlobIndex_zero,
     rc_has_value = False, rc_value = []\<rparr>"

theorem blob_file_roundtrip_witness:
  "\<exists>b0 b1 b2 out1 out2 hs rd buf.
      BlobFileBuilder_new demo_lib demo_builder_options \<lparr>wf_data = [], wf_io = []\<rparr> kVersion2 = Some b0 \<and>
      add_all demo_lib [(\<lparr>rec_key = [1], rec_value = [2, 2, 2]\<rparr>, demo_context), (\<lparr>rec_key = [3], rec_value = []\<rparr>, demo_context)] b0 =
        Some (b1, out1) \<and> Builder_Finish demo_lib b1 = Some ((OK, b2), out2) \<and>
      BlobFileReader_Open demo_lib [] (read_only (wf_data (bb_file b2))) (GetFileSize (bb_file b2)) = Some (Inr rd) \<and>
      ReadRecord demo_lib (hs ! 1) rd = Some (Inr (\<lparr>rec_key = [3], rec_value = []\<rparr>, buf), rd)"
proof -
  let ?items = "[(\<lparr>rec_key = [1], rec_value = [2, 2, 2]\<rparr>, demo_context), (\<lparr>rec_key = [3], rec_value = []\<rparr>, demo_context)]"
  have "buildable demo_lib demo_builder_options kVersion2" by (simp add: buildable_def demo_lib_def)
  moreover have "list_all (\<lambda>x. BlobRecord_fits (fst x) \<and> \<not> rc_has_value (snd x)) ?items"
    by (simp add: BlobRecord_fits_def demo_context_def)
  moreover have "length (enc_record (EncodeRecord (lib_compression demo_lib d) (co_compression demo_builder_options) r)) < 2 ^ 32"
    if "r \<in> fst ` set ?items" for d r
    using that length_EncodeVarint32_max [of 1] length_EncodeVarint32_max [of 3] length_EncodeVarint32_max [of 0]
    by (auto simp: EncodeRecord_def EncodeSlice_def Compress_def demo_builder_options_def demo_options_def Let_def
        TitanCFOptions.extend_def BlobRecord_EncodeTo_def PutLengthPrefixedSlice_def PutVarint32_def)
  moreover have "length ?items < 2 ^ 31" by simp
  ultimately obtain b0 b1 b2 out1 out2 hs rd where "BlobFileBuilder_new demo_lib demo_builder_options \<lparr>wf_data = [], wf_io = []\<rparr> kVersion2 = Some b0"
    "add_all demo_lib ?items b0 = Some (b1, out1)" "Builder_Finish demo_lib b1 = Some ((OK, b2), out2)"
    "BlobFileReader_Open demo_lib [] (read_only (wf_data (bb_file b2))) (GetFileSize (bb_file b2)) = Some (Inr rd)"
    and all: "\<forall>i < length ?items. \<exists>buf. ReadRecord demo_lib (hs ! i) rd = Some (Inr (fst (?items ! i), buf), rd)"
    using blob_file_roundtrip [OF demo_lib_sound, of demo_builder_options kVersion2 ?items "[]"] by blast
  moreover have "\<exists>buf. ReadRecord demo_lib (hs ! 1) rd = Some (Inr (\<lparr>rec_key = [3], rec_value = []\<rparr>, buf), rd)"
    using all [rule_format, of 1] by simp
  ultimately show ?thesis by blast
qed

section \<open>Cache\<close>

text \<open>An opened file with its records, and a cache that holds some of them.\<close>

definition opened :: "BlobLib \<Rightarrow> ctype \<Rightarrow> BlobFileHeader \<Rightarrow> BlobRecord list \<Rightarrow> BlobFileReader \<Rightarrow> bool" where
  "opened lib t hdr recs rd \<longleftrightarrow>
     (let es = map (EncodeRecord (lib_compression lib (case rd_dict rd of None \<Rightarrow> [] | Some d \<Rightarrow> d)) t) recs in
      list_all BlobRecord_fits recs \<and> list_all (\<lambda>e. length (enc_record e) < 2 ^ 32) es \<and>
      rd_file rd = read_only (blob_file lib (rd_dict rd) hdr es) \<and> length (blob_file lib (rd_dict rd) hdr es) < 2 ^ 64)"

definition rec_handle :: "BlobLib \<Rightarrow> ctype \<Rightarrow> BlobFileHeader \<Rightarrow> BlobRecord list \<Rightarrow> BlobFileReader \<Rightarrow> nat \<Rightarrow> BlobHandle" where
  "rec_handle lib t hdr recs rd i =
     nth_handle hdr (map (EncodeRecord (lib_compression lib (case rd_dict rd of None \<Rightarrow> [] | Some d \<Rightarrow> d)) t) recs) i"

definition coherent :: "BlobLib \<Rightarrow> ctype \<Rightarrow> BlobFileHeader \<Rightarrow> BlobRecord list \<Rightarrow> BlobFileReader \<Rightarrow> (bytes \<rightharpoonup> bytes) \<Rightarrow> bool" where
  "coherent lib t hdr recs rd m \<longleftrightarrow>
     (\<forall>i < length recs. \<forall>blob. m (EncodeBlobCache (rd_cache_prefix rd) (bh_offset (rec_handle lib t hdr recs rd i))) = Some blob \<longrightarrow>
        blob = BlobRecord_EncodeTo [] (recs ! i))"

lemma EncodeBlobCache_inj: "EncodeBlobCache pre a = EncodeBlobCache pre b \<longleftrightarrow> a = b"
proof
  assume "EncodeBlobCache pre a = EncodeBlobCache pre b"
  then have "GetVarint64 (EncodeVarint64 a @ []) = GetVarint64 (EncodeVarint64 b @ [])"
    by (simp add: EncodeBlobCache_def PutVarint64_def)
  then show "a = b" by (simp only: GetVarint64_Encode option.inject prod.inject)
qed simp

lemma lay_strict_mono:
  assumes "i < j" "j \<le> length es" "\<And>e. e \<in> set es \<Longrightarrow> enc_bytes e \<noteq> []"
  shows "length (lay hdr (take i es)) < length (lay hdr (take j es))"
proof -
  have "take j es = take i es @ es ! i # drop (Suc i) (take j es)"
    using assms(1,2) id_take_nth_drop [of i "take j es"] by (simp add: min_def)
  then have "length (lay hdr (take j es)) = length (lay hdr (take i es)) + length (enc_bytes (es ! i)) +
      length (concat (map enc_bytes (drop (Suc i) (take j es))))"
    by (metis (no_types, lifting) append.assoc concat.simps(2) concat_append lay_def length_append list.simps(9) map_append)
  moreover have "enc_bytes (es ! i) \<noteq> []" using assms by simp
  ultimately show ?thesis by simp
qed

lemma rec_handle_inj:
  assumes o: "opened lib t hdr recs rd" and ij: "i < length recs" "j < length recs"
    and eq: "bh_offset (rec_handle lib t hdr recs rd i) = bh_offset (rec_handle lib t hdr recs rd j)"
  shows "i = j"
proof -
  let ?es = "map (EncodeRecord (lib_compression lib (case rd_dict rd of None \<Rightarrow> [] | Some d \<Rightarrow> d)) t) recs"
  have len: "length (blob_file lib (rd_dict rd) hdr ?es) < 2 ^ 64" using o by (simp add: opened_def Let_def)
  have small: "length (lay hdr (take k ?es)) < 2 ^ 64" if "k < length recs" for k
    using blob_file_nth [of k ?es lib "rd_dict rd" hdr] that len by auto
  have "length (lay hdr (take i ?es)) = length (lay hdr (take j ?es))"
    using eq small [OF ij(1)] small [OF ij(2)] unfolding rec_handle_def nth_handle_def BlobHandle.select_convs
    by (metis unat_of_nat_u64)
  moreover have "enc_bytes e \<noteq> []" if e: "e \<in> set ?es" for e
  proof -
    have "length (enc_header e) = 9"
      using e by (auto simp: EncodeRecord_def length_enc_header kRecordHeaderSize_def)
    then show ?thesis by (auto simp: enc_bytes_def)
  qed
  then have "length (lay hdr (take a ?es)) < length (lay hdr (take b ?es))" if "a < b" "b < length recs" for a b
    using lay_strict_mono [of a b ?es hdr] that by simp
  ultimately show ?thesis using ij by (metis less_irrefl linorder_neqE_nat)
qed

text \<open>A read through the cache, whatever part of the file it holds, gives the record and keeps
  the cache in order, and so does a read through the prefetcher, whatever it has read before.\<close>

theorem cached_reads_agree:
  assumes lib: "lib_sound lib" and o: "opened lib t hdr recs rd" and c: "coherent lib t hdr recs rd m" and i: "i < length recs"
  shows "\<exists>m'. Reader_Get lib (rec_handle lib t hdr recs rd i) rd (Some m) = Some (Inr (recs ! i), rd, Some m') \<and>
    coherent lib t hdr recs rd m' \<and>
    (\<exists>pf'. Prefetcher_Get lib (rec_handle lib t hdr recs rd i) (pf\<lparr>pf_reader := rd\<rparr>) (Some m) = Some (Inr (recs ! i), pf', Some m') \<and>
       pf_reader pf' = rd)"
proof -
  let ?h = "rec_handle lib t hdr recs rd i" and ?r = "BlobRecord_EncodeTo [] (recs ! i)"
  let ?k = "EncodeBlobCache (rd_cache_prefix rd) (bh_offset ?h)"
  have fits: "BlobRecord_fits (recs ! i)" using o i by (simp add: opened_def Let_def list_all_length)
  have dec: "DecodeInto BlobRecord_DecodeFrom ?r False = Inr (recs ! i)"
    using BlobRecord_Decode_Encode [OF fits, of "[]"] by (simp add: DecodeInto_def)
  have rr: "ReadRecord lib ?h rd = Some (Inr (recs ! i, ?r), rd)"
    unfolding rec_handle_def
    by (rule ReadRecord_nth [OF lib i fits refl]) (use o i in \<open>simp_all add: opened_def Let_def list_all_length\<close>)
  obtain m' where m': "Reader_Get lib ?h rd (Some m) = Some (Inr (recs ! i), rd, Some m')" "m' = m \<or> m' = m(?k \<mapsto> ?r)"
  proof (cases "m ?k")
    case None
    then show thesis using that rr by (simp add: Reader_Get_def)
  next
    case (Some blob)
    then have "blob = ?r" using c i by (simp add: coherent_def)
    then show thesis using that Some dec by (simp add: Reader_Get_def)
  qed
  have "coherent lib t hdr recs rd (m(?k \<mapsto> ?r))"
    using c rec_handle_inj [OF o _ i] unfolding coherent_def by (auto simp: EncodeBlobCache_inj)
  then have "coherent lib t hdr recs rd m'" using m'(2) c by auto
  moreover have "\<exists>pf'. Prefetcher_Get lib ?h (pf\<lparr>pf_reader := rd\<rparr>) (Some m) = Some (Inr (recs ! i), pf', Some m') \<and> pf_reader pf' = rd"
    using m'(1) by (simp add: Prefetcher_Get_def Let_def)
  ultimately show ?thesis using m'(1) by blast
qed

definition demo_reader :: BlobFileReader where
  "demo_reader = \<lparr>rd_file = read_only (blob_file demo_lib None BlobFileHeader_default
       [EncodeRecord rle_demo 0 \<lparr>rec_key = [1], rec_value = [2]\<rparr>]), rd_dict = None, rd_cache_prefix = [9]\<rparr>"

theorem cached_reads_agree_witness:
  "\<exists>m'. Reader_Get demo_lib (rec_handle demo_lib 0 BlobFileHeader_default [\<lparr>rec_key = [1], rec_value = [2]\<rparr>] demo_reader 0)
     demo_reader (Some Map.empty) = Some (Inr \<lparr>rec_key = [1], rec_value = [2]\<rparr>, demo_reader, Some m')"
proof -
  let ?r = "\<lparr>rec_key = [1], rec_value = [2]\<rparr> :: BlobRecord" and ?e = "EncodeRecord rle_demo 0 \<lparr>rec_key = [1], rec_value = [2]\<rparr>"
  have "length (enc_record ?e) \<le> 12"
    using length_EncodeVarint32_max [of 1]
    by (simp add: EncodeRecord_def EncodeSlice_def Compress_def Let_def BlobRecord_EncodeTo_def PutLengthPrefixedSlice_def PutVarint32_def)
  moreover have "length (enc_header ?e) = 9" by (simp add: EncodeRecord_def length_enc_header kRecordHeaderSize_def)
  ultimately have small: "length (enc_bytes ?e) \<le> 2 ^ 32 + 8" "length (enc_record ?e) < 2 ^ 32" by (simp_all add: enc_bytes_def)
  have "length (blob_file demo_lib None BlobFileHeader_default [?e]) < 2 ^ 64"
    by (rule blob_file_small [OF demo_lib_sound]) (use small in \<open>auto simp: BlobFileHeader_wf_def BlobFileHeader_default_def\<close>)
  then have "opened demo_lib 0 BlobFileHeader_default [?r] demo_reader"
    using small by (simp add: opened_def demo_reader_def demo_lib_def BlobRecord_fits_def Let_def)
  moreover have "coherent demo_lib 0 BlobFileHeader_default [?r] demo_reader Map.empty" by (simp add: coherent_def)
  ultimately show ?thesis
    using cached_reads_agree [OF demo_lib_sound, of 0 BlobFileHeader_default "[?r]" demo_reader Map.empty 0] by auto
qed

section \<open>A write that fails\<close>

text \<open>When the write of the dictionary block fails and the later ones succeed, finishing the
  file reports success, and the file cannot be opened afterwards.\<close>

theorem failed_dictionary_unnoticed:
  assumes b: "bb_status b = OK" "\<not> bb_buffered b" "co_max_dict_bytes (bb_opts b) > 0" "bb_dict b = Some d"
    and io: "wf_io (bb_file b) = [s]" "s \<noteq> OK" and lib: "lib_sound lib" "lib_zstd lib" "lib_find_dict lib (lib_meta_index lib None) = Inr None"
    and data: "wf_data (bb_file b) = lay hdr es" "BlobFileHeader_wf hdr" "hd_flags hdr AND kHasUncompressionDictionary \<noteq> 0"
    and len: "length (lay hdr es) < 2 ^ 63"
  shows "\<exists>b'. Builder_Finish lib b = Some ((OK, b'), []) \<and>
    BlobFileReader_Open lib pre (read_only (wf_data (bb_file b'))) (GetFileSize (bb_file b')) =
      Some (Inl (NotFound ''uncompression dict''))"
proof -
  let ?mi = "lib_meta_index lib None"
  let ?h = "block_at (lay hdr es) ?mi"
  let ?file = "lay hdr es @ raw_block ?mi @ BlobFileFooter_EncodeTo [] ?h"
  have "\<exists>b'. Builder_Finish lib b = Some ((OK, b'), []) \<and> wf_data (bb_file b') = ?file"
    using b io data(1)
    by (simp add: Builder_Finish_def Let_def WriteRawBlock_def builder_Append_def file_Append_def wf_next_def file_Flush_def
        raw_block_def block_trailer_def block_at_def GetFileSize_def)
  then obtain b' where b': "Builder_Finish lib b = Some ((OK, b'), [])" "wf_data (bb_file b') = ?file" by blast
  have mi: "?mi \<noteq> []" "length ?mi < 2 ^ 32" using lib(1) by (simp_all add: lib_sound_def)
  have l: "length ?file < 2 ^ 64" using len mi(2) length_BlobFileFooter [of ?h] by (simp add: raw_block_def block_trailer_def)
  have h: "ReadHeader (read_only ?file) = (Inr hdr, read_only ?file)"
    using ReadHeader_lay [OF data(2)] by (simp add: lay_def)
  have "(of_nat (length ?mi) :: u64) \<noteq> 0" using mi unat_of_nat_u64 [of "length ?mi"] by auto
  moreover have "file_Read (blk_offset ?h) (blk_size ?h) (read_only ?file) = ((OK, ?mi), read_only ?file)"
    by (rule file_Read_part [OF _ l, of "lay hdr es" ?mi]) (simp_all add: raw_block_def block_at_def)
  ultimately have "InitUncompressionDict lib ?h (read_only ?file) = Some (Inl (NotFound ''uncompression dict''), read_only ?file)"
    using lib(2,3) mi(2) by (simp add: InitUncompressionDict_def block_at_def unat_of_nat_u64)
  then have "BlobFileReader_Open lib pre (read_only ?file) (of_nat (length ?file)) = Some (Inl (NotFound ''uncompression dict''))"
    using Reader_Open_footer [OF _ length_BlobFileFooter footer_into_encoded l h, of "lay hdr es @ raw_block ?mi"] data(3) by simp
  then show ?thesis using b' by (simp add: GetFileSize_def)
qed

definition demo_builder :: BlobFileBuilder where
  "demo_builder = \<lparr>bb_buffered = False, bb_opts = demo_builder_options,
     bb_file = \<lparr>wf_data = lay \<lparr>hd_version = kVersion2, hd_flags = 1\<rparr> [], wf_io = [IOError ''disk'']\<rparr>,
     bb_version = kVersion2, bb_status = OK, bb_dict = Some [7], bb_samples = [], bb_sample_len = 0, bb_cached = [],
     bb_entries = 0, bb_live = 0, bb_smallest = [], bb_largest = []\<rparr>"

theorem failed_dictionary_unnoticed_witness:
  "\<exists>b'. Builder_Finish demo_lib demo_builder = Some ((OK, b'), []) \<and>
     BlobFileReader_Open demo_lib [] (read_only (wf_data (bb_file b'))) (GetFileSize (bb_file b')) =
       Some (Inl (NotFound ''uncompression dict''))"
proof (rule failed_dictionary_unnoticed [where d = "[7]" and s = "IOError ''disk''" and hdr = "\<lparr>hd_version = kVersion2, hd_flags = 1\<rparr>" and es = "[]"])
  show "lib_zstd demo_lib" "lib_find_dict demo_lib (lib_meta_index demo_lib None) = Inr None" by (simp_all add: demo_lib_def)
  show "length (lay \<lparr>hd_version = kVersion2, hd_flags = 1\<rparr> []) < 2 ^ 63"
    by (simp add: lay_def BlobFileHeader_EncodeTo_def PutFixed32_def)
qed (simp_all add: demo_builder_def demo_builder_options_def TitanCFOptions.extend_def BlobFileHeader_wf_def demo_lib_sound)

end
