(* ===== verification/Titan_Iterator.thy ===== *)
theory Titan_Iterator
  imports Titan_BlobFile
begin

text \<open>
  Iterating over the records of a blob file and merging several files (\<open>blob_file_iterator.cc\<close>).
  A failed assertion and a slice that is cut too far have the value \<open>None\<close>; so has a loop that
  does not end.  Prefetching has no effect on what is read.
\<close>

section \<open>Iterator\<close>

record BlobFileIterator =
  it_file :: RandomAccessFile
  it_file_number :: u64
  it_file_size :: u64
  it_file_entries :: u64
  it_min_blob_size :: u64
  it_init :: bool
  it_end :: u64
  it_status :: status
  it_valid :: bool
  it_dict :: "bytes option"
  it_offset :: u64
  it_index :: u64
  it_record :: BlobRecord
  it_cur_offset :: u64
  it_cur_size :: u64
  it_cur_index :: u64
  it_header_size :: u64
  it_ra_begin :: u64
  it_ra_end :: u64
  it_ra_size :: u64
  it_bitmap :: "BitMap option"

definition kMinReadaheadSize :: u64 where
  "kMinReadaheadSize = push_bit 10 4"

text \<open>Members that the constructor leaves uninitialised start as zero here.\<close>

definition BlobFileIterator_new :: "RandomAccessFile \<Rightarrow> u64 \<Rightarrow> u64 \<Rightarrow> u64 \<Rightarrow> u64 \<Rightarrow> BlobFileIterator" where
  "BlobFileIterator_new file number sz min_blob_size entries =
     \<lparr>it_file = file, it_file_number = number, it_file_size = sz, it_file_entries = entries,
      it_min_blob_size = min_blob_size, it_init = False, it_end = 0, it_status = OK, it_valid = False, it_dict = None,
      it_offset = 0, it_index = 0, it_record = \<lparr>rec_key = [], rec_value = []\<rparr>, it_cur_offset = 0, it_cur_size = 0,
      it_cur_index = 0, it_header_size = 0, it_ra_begin = 0, it_ra_end = 0, it_ra_size = kMinReadaheadSize, it_bitmap = None\<rparr>"

text \<open>
  The handle a footer has after \<open>DecodeFrom\<close>, whether or not that succeeded: the status of the
  decoding is not looked at.
\<close>

definition footer_handle :: "bytes \<Rightarrow> (status \<times> BlockHandle) option" where
  "footer_handle src =
     map_option (\<lambda>r. (case r of Inl s \<Rightarrow> s | Inr _ \<Rightarrow> OK,
         case BlockHandle_DecodeFrom src of Inl _ \<Rightarrow> NullBlockHandle | Inr (h, _) \<Rightarrow> h))
       (BlobFileFooter_DecodeFrom src)"

definition Iter_Init :: "BlobLib \<Rightarrow> BlobFileIterator \<Rightarrow> (bool \<times> BlobFileIterator) option" where
  "Iter_Init lib it =
     (let ((s, header_buf), file) = file_Read 0 kMaxHeaderLength (it_file it);
          it = it\<lparr>it_file := file, it_status := s\<rparr> in
      if s \<noteq> OK then Some (False, it)
      else
        (case DecodeInto (BlobFileHeader_DecodeFrom BlobFileHeader_default) header_buf True of
           Inl s \<Rightarrow> Some (False, it\<lparr>it_status := s\<rparr>)
         | Inr header \<Rightarrow>
             (let it = it\<lparr>it_header_size := of_nat (BlobFileHeader_size header)\<rparr>;
                  ((s, footer_buf), file) =
                    file_Read (it_file_size it - of_nat kEncodedLength) (of_nat kEncodedLength) (it_file it);
                  it = it\<lparr>it_file := file, it_status := s\<rparr> in
              if s \<noteq> OK then Some (False, it)
              else
                (case footer_handle footer_buf of
                   None \<Rightarrow> None
                 | Some (s, h) \<Rightarrow>
                     (let it = it\<lparr>it_status := s, it_end := it_file_size it - of_nat kEncodedLength\<rparr>;
                          it = (if h = NullBlockHandle then it
                                else it\<lparr>it_end := it_end it - (blk_size h + of_nat kBlockTrailerSize)\<rparr>) in
                      case (if hd_flags header AND kHasUncompressionDictionary \<noteq> 0 then
                              (case InitUncompressionDict lib h (it_file it) of
                                 None \<Rightarrow> None
                               | Some (Inl s, file) \<Rightarrow> Some (False, it\<lparr>it_status := s, it_file := file\<rparr>)
                               | Some (Inr dict, file) \<Rightarrow>
                                   Some (True, it\<lparr>it_status := OK, it_file := file, it_dict := Some dict,
                                     it_end := it_end it - (of_nat (length dict) + of_nat kBlockTrailerSize)\<rparr>))
                            else Some (True, it)) of
                        None \<Rightarrow> None
                      | Some (False, it) \<Rightarrow> Some (False, it)
                      | Some (True, it) \<Rightarrow>
                          if it_end it \<le> 8 then None else Some (True, it\<lparr>it_init := True\<rparr>))))))"

definition iter_compression :: "BlobLib \<Rightarrow> BlobFileIterator \<Rightarrow> Compression" where
  "iter_compression lib it = lib_compression lib (case it_dict it of None \<Rightarrow> [] | Some d \<Rightarrow> d)"

definition GetBlobRecord :: "BlobLib \<Rightarrow> BlobFileIterator \<Rightarrow> BlobFileIterator option" where
  "GetBlobRecord lib it =
     (let ((s, header_buffer), file) = file_Read (it_offset it) (of_nat kRecordHeaderSize) (it_file it);
          it = it\<lparr>it_file := file, it_status := s\<rparr> in
      if s \<noteq> OK then Some it
      else
        (case DecodeHeader header_buffer of
           Inl s \<Rightarrow> Some (it\<lparr>it_status := s\<rparr>)
         | Inr (d, _) \<Rightarrow>
             (let record_size = ucast (dec_record_size d) :: u64;
                  ((s, record_slice), file) =
                    file_Read (it_offset it + of_nat kRecordHeaderSize) record_size (it_file it);
                  it = it\<lparr>it_file := file, it_status := s\<rparr> in
              if s \<noteq> OK then Some it
              else
                (case DecodeRecord (iter_compression lib it) d record_slice of
                   None \<Rightarrow> None
                 | Some (Inl s) \<Rightarrow> Some (it\<lparr>it_status := s\<rparr>)
                 | Some (Inr (r, _)) \<Rightarrow>
                     (let sz = of_nat kRecordHeaderSize + record_size
                      in Some (it\<lparr>it_record := r, it_cur_offset := it_offset it, it_cur_size := sz,
                                 it_cur_index := it_index it, it_index := it_index it + 1,
                                 it_offset := it_offset it + sz, it_valid := True\<rparr>))))))"

text \<open>The loop that doubles the window.\<close>

partial_function (option) grow_window :: "u64 \<Rightarrow> u64 \<Rightarrow> u64 \<Rightarrow> u64 option" where
  "grow_window min_blob_size end_offset sz =
     (if end_offset + sz \<le> min_blob_size \<and> sz < kMaxReadaheadSize
      then grow_window min_blob_size end_offset (push_bit 1 sz) else Some sz)"

definition prefetch :: "BlobFileIterator \<Rightarrow> BlobFileIterator option" where
  "prefetch it =
     (let it = (if it_ra_begin it > it_offset it \<or> it_ra_end it < it_offset it then
                  (let b = it_offset it - (it_offset it AND 0xfff)
                   in it\<lparr>it_ra_begin := b, it_ra_end := b, it_ra_size := kMinReadaheadSize\<rparr>)
                else it);
          min_blob_size = it_offset it + of_nat kRecordHeaderSize + it_min_blob_size it in
      if it_ra_end it \<le> min_blob_size then
        map_option (\<lambda>sz. it\<lparr>it_ra_end := it_ra_end it + sz, it_ra_size := min kMaxReadaheadSize (push_bit 1 sz)\<rparr>)
          (grow_window min_blob_size (it_ra_end it) (it_ra_size it))
      else Some it)"

definition PrefetchAndGet :: "BlobLib \<Rightarrow> BlobFileIterator \<Rightarrow> BlobFileIterator option" where
  "PrefetchAndGet lib it =
     (if it_offset it \<ge> it_end it \<or> it_index it \<ge> it_file_entries it then Some (it\<lparr>it_valid := False\<rparr>)
      else
        (case prefetch it of
           None \<Rightarrow> None
         | Some it \<Rightarrow>
             map_option (\<lambda>it. if it_ra_end it < it_offset it then it\<lparr>it_ra_end := it_offset it\<rparr> else it)
               (GetBlobRecord lib it)))"

definition Iter_SeekToFirst :: "BlobLib \<Rightarrow> BlobFileIterator \<Rightarrow> BlobFileIterator option" where
  "Iter_SeekToFirst lib it =
     (case (if it_init it then Some (True, it) else Iter_Init lib it) of
        None \<Rightarrow> None
      | Some (False, it) \<Rightarrow> Some it
      | Some (True, it) \<Rightarrow> PrefetchAndGet lib (it\<lparr>it_status := OK, it_offset := it_header_size it\<rparr>))"

definition Iter_Valid :: "BlobFileIterator \<Rightarrow> bool" where
  "Iter_Valid it \<longleftrightarrow> it_valid it \<and> it_status it = OK"

definition Iter_Next :: "BlobLib \<Rightarrow> BlobFileIterator \<Rightarrow> BlobFileIterator option" where
  "Iter_Next lib it = (if \<not> it_init it then None else PrefetchAndGet lib it)"

definition GetBlobIndex :: "BlobFileIterator \<Rightarrow> BlobIndex" where
  "GetBlobIndex it =
     BlobIndex_zero\<lparr>bi_file_number := it_file_number it,
       bi_handle := \<lparr>bh_offset = it_cur_offset it, bh_size = it_cur_size it, bh_index = it_cur_index it\<rparr>\<rparr>"

definition ValidateByBitMap :: "BlobFileIterator \<Rightarrow> bool option" where
  "ValidateByBitMap it =
     (case it_bitmap it of
        None \<Rightarrow> None
      | Some bm \<Rightarrow>
          (case GetBit bm (it_cur_index it) of
             None \<Rightarrow> None
           | Some (s, r) \<Rightarrow> if s \<noteq> OK then None else map_option (\<lambda>b. b = 0) r))"

definition SetBitMap :: "BitMap \<Rightarrow> BlobFileIterator \<Rightarrow> BlobFileIterator" where
  "SetBitMap bm it = it\<lparr>it_bitmap := Some bm\<rparr>"

text \<open>\<open>IterateForPrev\<close>: the loop over the record headers up to an offset.\<close>

partial_function (option) prev_loop :: "u64 \<Rightarrow> u64 \<Rightarrow> BlobFileIterator \<Rightarrow> (bool \<times> u64 \<times> BlobFileIterator) option" where
  "prev_loop off step_len it =
     (if it_offset it < off then
        (let ((s, header_buffer), file) = file_Read (it_offset it) (of_nat kRecordHeaderSize) (it_file it);
             it = it\<lparr>it_file := file, it_status := s\<rparr> in
         if s \<noteq> OK then Some (False, step_len, it)
         else
           (case DecodeHeader header_buffer of
              Inl s \<Rightarrow> Some (False, step_len, it\<lparr>it_status := s\<rparr>)
            | Inr (d, _) \<Rightarrow>
                (let step_len = of_nat kRecordHeaderSize + ucast (dec_record_size d)
                 in prev_loop off step_len (it\<lparr>it_index := it_index it + 1, it_offset := it_offset it + step_len\<rparr>))))
      else Some (True, step_len, it))"

definition IterateForPrev :: "BlobLib \<Rightarrow> u64 \<Rightarrow> BlobFileIterator \<Rightarrow> BlobFileIterator option" where
  "IterateForPrev lib off it =
     (case (if it_init it then Some (True, it) else Iter_Init lib it) of
        None \<Rightarrow> None
      | Some (False, it) \<Rightarrow> Some it
      | Some (True, it) \<Rightarrow>
          (let it = it\<lparr>it_status := OK\<rparr> in
           if off \<ge> it_end it then Some (it\<lparr>it_offset := off, it_status := InvalidArgument ''Out of bound''\<rparr>)
           else
             (case prev_loop off 0 (it\<lparr>it_offset := it_header_size it, it_index := 0\<rparr>) of
                None \<Rightarrow> None
              | Some (False, _, it) \<Rightarrow> Some it
              | Some (True, step_len, it) \<Rightarrow>
                  Some ((if it_offset it > off then it\<lparr>it_offset := it_offset it - step_len, it_index := it_index it - 1\<rparr> else it)
                        \<lparr>it_valid := False\<rparr>))))"

section \<open>Merging iterator\<close>

text \<open>
  The heap of the iterators that stand on a record, smallest key first; \<open>std::priority_queue\<close>
  leaves open which of two equal keys comes first.  Iterators are positions in the list.
\<close>

record BlobFileMergeIterator =
  mi_iters :: "BlobFileIterator list"
  mi_less :: "bytes \<Rightarrow> bytes \<Rightarrow> bool"
  mi_heap :: "nat list"
  mi_current :: "nat option"
  mi_status :: status

definition BlobFileMergeIterator_new :: "BlobFileIterator list \<Rightarrow> (bytes \<Rightarrow> bytes \<Rightarrow> bool) \<Rightarrow> BlobFileMergeIterator" where
  "BlobFileMergeIterator_new its lt = \<lparr>mi_iters = its, mi_less = lt, mi_heap = [], mi_current = None, mi_status = OK\<rparr>"

definition iter_key :: "BlobFileIterator list \<Rightarrow> nat \<Rightarrow> bytes" where
  "iter_key its i = rec_key (it_record (its ! i))"

fun heap_push :: "(bytes \<Rightarrow> bytes \<Rightarrow> bool) \<Rightarrow> BlobFileIterator list \<Rightarrow> nat \<Rightarrow> nat list \<Rightarrow> nat list" where
  "heap_push lt its i [] = [i]"
| "heap_push lt its i (j # js) =
     (if lt (iter_key its i) (iter_key its j) then i # j # js else j # heap_push lt its i js)"

definition Merge_status :: "BlobFileMergeIterator \<Rightarrow> status" where
  "Merge_status mi =
     (case mi_current mi of
        None \<Rightarrow> mi_status mi
      | Some c \<Rightarrow> if it_status (mi_iters mi ! c) \<noteq> OK then it_status (mi_iters mi ! c) else mi_status mi)"

definition Merge_Valid :: "BlobFileMergeIterator \<Rightarrow> bool" where
  "Merge_Valid mi =
     (case mi_current mi of
        None \<Rightarrow> False
      | Some c \<Rightarrow> Merge_status mi = OK \<and> Iter_Valid (mi_iters mi ! c) \<and> it_status (mi_iters mi ! c) = OK)"

definition push_valid :: "nat \<Rightarrow> BlobFileMergeIterator \<Rightarrow> BlobFileMergeIterator" where
  "push_valid i mi =
     (if it_status (mi_iters mi ! i) = OK \<and> Iter_Valid (mi_iters mi ! i)
      then mi\<lparr>mi_heap := heap_push (mi_less mi) (mi_iters mi) i (mi_heap mi)\<rparr> else mi)"

fun seek_all :: "BlobLib \<Rightarrow> nat list \<Rightarrow> BlobFileMergeIterator \<Rightarrow> BlobFileMergeIterator option" where
  "seek_all lib [] mi = Some mi"
| "seek_all lib (i # is) mi =
     (case Iter_SeekToFirst lib (mi_iters mi ! i) of
        None \<Rightarrow> None
      | Some it \<Rightarrow> seek_all lib is (push_valid i (mi\<lparr>mi_iters := (mi_iters mi)[i := it]\<rparr>)))"

definition Merge_SeekToFirst :: "BlobLib \<Rightarrow> BlobFileMergeIterator \<Rightarrow> BlobFileMergeIterator option" where
  "Merge_SeekToFirst lib mi =
     map_option (\<lambda>mi. case mi_heap mi of
         [] \<Rightarrow> mi\<lparr>mi_status := Aborted ''No iterator is valid''\<rparr>
       | i # h \<Rightarrow> mi\<lparr>mi_current := Some i, mi_heap := h\<rparr>)
       (seek_all lib [0..<length (mi_iters mi)] mi)"

definition Merge_Next :: "BlobLib \<Rightarrow> BlobFileMergeIterator \<Rightarrow> BlobFileMergeIterator option" where
  "Merge_Next lib mi =
     (if \<not> Merge_Valid mi then None
      else
        (case mi_current mi of
           None \<Rightarrow> None
         | Some c \<Rightarrow>
             map_option (\<lambda>it. let mi = push_valid c (mi\<lparr>mi_iters := (mi_iters mi)[c := it]\<rparr>) in
                 case mi_heap mi of
                   [] \<Rightarrow> mi\<lparr>mi_current := None\<rparr>
                 | i # h \<Rightarrow> mi\<lparr>mi_current := Some i, mi_heap := h\<rparr>)
               (Iter_Next lib (mi_iters mi ! c))))"

section \<open>The window of the read-ahead\<close>

lemma unat_kMax: "unat kMaxReadaheadSize = 262144" "unat kMinReadaheadSize = 4096"
  by (simp_all add: kMaxReadaheadSize_def kMinReadaheadSize_def push_bit_eq_mult)

definition window_ok :: "u64 \<Rightarrow> bool" where
  "window_ok sz \<longleftrightarrow> kMinReadaheadSize \<le> sz \<and> sz \<le> kMaxReadaheadSize"

lemma window_double: "kMinReadaheadSize \<le> sz \<Longrightarrow> sz < kMaxReadaheadSize \<Longrightarrow> unat (push_bit 1 sz) = 2 * unat sz"
  by (simp add: push_bit_eq_mult word_less_nat_alt word_le_nat_alt unat_kMax unat_word_ariths)

lemma grow_window_ok:
  assumes "kMinReadaheadSize \<le> sz" "unat sz < 2 * 262144"
  shows "\<exists>sz'. grow_window m e sz = Some sz' \<and> kMinReadaheadSize \<le> sz' \<and> unat sz' < 2 * 262144"
  using assms
proof (induction "2 * 262144 - unat sz" arbitrary: sz rule: less_induct)
  case less
  show ?case
  proof (cases "e + sz \<le> m \<and> sz < kMaxReadaheadSize")
    case False
    then show ?thesis using less.prems by (subst grow_window.simps) auto
  next
    case True
    then have d: "unat (push_bit 1 sz) = 2 * unat sz" using window_double less.prems(1) by blast
    moreover have "4096 \<le> unat sz" "unat sz < 262144"
      using less.prems True by (simp_all add: word_le_nat_alt word_less_nat_alt unat_kMax)
    ultimately have "\<exists>sz'. grow_window m e (push_bit 1 sz) = Some sz' \<and> kMinReadaheadSize \<le> sz' \<and> unat sz' < 2 * 262144"
      by (intro less.hyps) (simp_all add: word_le_nat_alt unat_kMax)
    then show ?thesis using True by (subst grow_window.simps) simp
  qed
qed

lemma prefetch_ok:
  assumes "window_ok (it_ra_size it)"
  obtains it' where "prefetch it = Some it'" "window_ok (it_ra_size it')"
    "it' = it\<lparr>it_ra_begin := it_ra_begin it', it_ra_end := it_ra_end it', it_ra_size := it_ra_size it'\<rparr>"
proof -
  define it1 where "it1 = (if it_ra_begin it > it_offset it \<or> it_ra_end it < it_offset it then
       (let b = it_offset it - (it_offset it AND 0xfff) in it\<lparr>it_ra_begin := b, it_ra_end := b, it_ra_size := kMinReadaheadSize\<rparr>)
     else it)"
  define m where "m = it_offset it1 + of_nat kRecordHeaderSize + it_min_blob_size it1"
  have w: "window_ok (it_ra_size it1)" using assms by (auto simp: it1_def Let_def window_ok_def word_le_nat_alt unat_kMax)
  have same: "it1 = it\<lparr>it_ra_begin := it_ra_begin it1, it_ra_end := it_ra_end it1, it_ra_size := it_ra_size it1\<rparr>"
    by (simp add: it1_def Let_def)
  show thesis
  proof (cases "it_ra_end it1 \<le> m")
    case False
    then have "prefetch it = Some it1" by (simp add: prefetch_def it1_def [symmetric] m_def [symmetric] Let_def [of it1] Let_def [of m])
    then show thesis using that w same by blast
  next
    case True
    obtain sz where sz: "grow_window m (it_ra_end it1) (it_ra_size it1) = Some sz" "kMinReadaheadSize \<le> sz" "unat sz < 2 * 262144"
      using grow_window_ok [of "it_ra_size it1" m "it_ra_end it1"] w by (auto simp: window_ok_def word_le_nat_alt unat_kMax)
    let ?r = "it1\<lparr>it_ra_end := it_ra_end it1 + sz, it_ra_size := min kMaxReadaheadSize (push_bit 1 sz)\<rparr>"
    have "prefetch it = Some ?r"
      using True sz(1) by (simp add: prefetch_def it1_def [symmetric] m_def [symmetric] Let_def [of it1] Let_def [of m])
    moreover have "4096 \<le> unat (push_bit 1 sz)"
      using sz(2,3) by (simp add: push_bit_eq_mult word_le_nat_alt unat_kMax unat_word_ariths)
    then have "window_ok (it_ra_size ?r)" by (auto simp: window_ok_def min_def word_le_nat_alt unat_kMax)
    moreover have "?r = it\<lparr>it_ra_begin := it_ra_begin ?r, it_ra_end := it_ra_end ?r, it_ra_size := it_ra_size ?r\<rparr>"
      by (subst same) simp
    ultimately show thesis using that by blast
  qed
qed

text \<open>C28: The loop that widens the read-ahead window ends, and the window always stays between its
  smallest and its largest size; nothing but the window changes.\<close>

theorem readahead_bounded:
  assumes "kMinReadaheadSize \<le> it_ra_size it" "it_ra_size it \<le> kMaxReadaheadSize"
  shows "\<exists>it'. prefetch it = Some it' \<and> kMinReadaheadSize \<le> it_ra_size it' \<and> it_ra_size it' \<le> kMaxReadaheadSize \<and>
    it' = it\<lparr>it_ra_begin := it_ra_begin it', it_ra_end := it_ra_end it', it_ra_size := it_ra_size it'\<rparr>"
proof -
  have "window_ok (it_ra_size it)" using assms by (simp add: window_ok_def)
  then obtain it' where "prefetch it = Some it'" "window_ok (it_ra_size it')"
    "it' = it\<lparr>it_ra_begin := it_ra_begin it', it_ra_end := it_ra_end it', it_ra_size := it_ra_size it'\<rparr>"
    by (rule prefetch_ok)
  then show ?thesis unfolding window_ok_def by blast
qed

theorem readahead_bounded_witness:
  "\<exists>it'. prefetch (BlobFileIterator_new (read_only []) 3 1000000 300000 9) = Some it' \<and> it_ra_size it' \<le> kMaxReadaheadSize"
  using readahead_bounded [of "BlobFileIterator_new (read_only []) 3 1000000 300000 9"]
  by (auto simp: BlobFileIterator_new_def word_le_nat_alt unat_kMax)

section \<open>Iterating over a file\<close>

definition file_es :: "BlobLib \<Rightarrow> ctype \<Rightarrow> bytes option \<Rightarrow> BlobRecord list \<Rightarrow> BlobEncoder list" where
  "file_es lib t dict recs = map (EncodeRecord (lib_compression lib (case dict of None \<Rightarrow> [] | Some d \<Rightarrow> d)) t) recs"

text \<open>A blob file in order, and an iterator that is about to read record \<open>k\<close> of it.\<close>

definition good_file :: "BlobLib \<Rightarrow> ctype \<Rightarrow> bytes option \<Rightarrow> BlobFileHeader \<Rightarrow> BlobRecord list \<Rightarrow> bool" where
  "good_file lib t dict hdr recs \<longleftrightarrow>
     lib_sound lib \<and> BlobFileHeader_wf hdr \<and> (hd_flags hdr AND kHasUncompressionDictionary \<noteq> 0 \<longleftrightarrow> dict \<noteq> None) \<and>
     (dict \<noteq> None \<longrightarrow> lib_zstd lib) \<and> list_all BlobRecord_fits recs \<and>
     list_all (\<lambda>e. length (enc_record e) < 2 ^ 32) (file_es lib t dict recs) \<and>
     length (blob_file lib dict hdr (file_es lib t dict recs)) < 2 ^ 64 \<and> (recs \<noteq> [] \<or> hd_version hdr = kVersion2)"

definition ready :: "BlobLib \<Rightarrow> ctype \<Rightarrow> bytes option \<Rightarrow> BlobFileHeader \<Rightarrow> BlobRecord list \<Rightarrow> nat \<Rightarrow> BlobFileIterator \<Rightarrow> bool" where
  "ready lib t dict hdr recs k it \<longleftrightarrow>
     it_file it = read_only (blob_file lib dict hdr (file_es lib t dict recs)) \<and> it_init it \<and> it_status it = OK \<and>
     it_dict it = dict \<and> it_end it = of_nat (length (lay hdr (file_es lib t dict recs))) \<and>
     it_header_size it = of_nat (length (BlobFileHeader_EncodeTo [] hdr)) \<and> window_ok (it_ra_size it) \<and>
     length recs \<le> unat (it_file_entries it) \<and>
     it_offset it = of_nat (length (lay hdr (take k (file_es lib t dict recs)))) \<and> it_index it = of_nat k"

text \<open>The iterator stands on record \<open>k\<close>.\<close>

definition stands_on :: "BlobLib \<Rightarrow> ctype \<Rightarrow> bytes option \<Rightarrow> BlobFileHeader \<Rightarrow> BlobRecord list \<Rightarrow> nat \<Rightarrow> BlobFileIterator \<Rightarrow> bool" where
  "stands_on lib t dict hdr recs k it \<longleftrightarrow>
     ready lib t dict hdr recs (Suc k) it \<and> Iter_Valid it \<and> it_record it = recs ! k \<and>
     bi_handle (GetBlobIndex it) = nth_handle hdr (file_es lib t dict recs) k"

lemma es_nonempty: "e \<in> set (file_es lib t dict recs) \<Longrightarrow> length (enc_header e) = 9 \<and> enc_bytes e \<noteq> []"
proof -
  assume "e \<in> set (file_es lib t dict recs)"
  then have "length (enc_header e) = 9" by (auto simp: file_es_def EncodeRecord_def length_enc_header kRecordHeaderSize_def)
  then show ?thesis by (auto simp: enc_bytes_def)
qed

lemma length_file_es [simp]: "length (file_es lib t dict recs) = length recs"
  by (simp add: file_es_def)

lemma lay_length_le:
  assumes "good_file lib t dict hdr recs"
  shows "length (lay hdr (take k (file_es lib t dict recs))) < 2 ^ 64" "length (lay hdr (file_es lib t dict recs)) < 2 ^ 64"
proof -
  have "length (lay hdr (take k es)) \<le> length (lay hdr es)" for es
    by (metis append_take_drop_id concat_append lay_def le_add1 length_append map_append append.assoc)
  moreover have "length (lay hdr (file_es lib t dict recs)) \<le> length (blob_file lib dict hdr (file_es lib t dict recs))"
    by (simp add: blob_file_def)
  ultimately show "length (lay hdr (take k (file_es lib t dict recs))) < 2 ^ 64" "length (lay hdr (file_es lib t dict recs)) < 2 ^ 64"
    using assms by (meson good_file_def le_less_trans)+
qed

lemma GetBlobRecord_ok:
  assumes gf: "good_file lib t dict hdr recs" and r: "ready lib t dict hdr recs k it" and k: "k < length recs"
  obtains it' where "GetBlobRecord lib it = Some it'" "stands_on lib t dict hdr recs k it'"
    "it' = it\<lparr>it_record := it_record it', it_cur_offset := it_cur_offset it', it_cur_size := it_cur_size it',
       it_cur_index := it_cur_index it', it_index := it_index it', it_offset := it_offset it', it_valid := it_valid it'\<rparr>"
proof -
  let ?es = "file_es lib t dict recs" and ?cl = "lib_compression lib (case dict of None \<Rightarrow> [] | Some d \<Rightarrow> d)"
  let ?e = "?es ! k" and ?data = "blob_file lib dict hdr ?es" and ?pre = "lay hdr (take k ?es)"
  have e: "?e = EncodeRecord ?cl t (recs ! k)" using k by (simp add: file_es_def)
  have fit: "BlobRecord_fits (recs ! k)" "length (enc_record ?e) < 2 ^ 32" "compression_sound ?cl"
    using gf k by (simp_all add: good_file_def list_all_length lib_sound_def)
  obtain d where d: "\<forall>rest. DecodeHeader (enc_header ?e @ rest) = Inr (d, rest)" "unat (dec_record_size d) = length (enc_record ?e)"
    "DecodeRecord ?cl d (enc_record ?e) = Some (Inr (recs ! k, []))"
    using decode_encoded [OF fit(3,1), of t] fit(2) unfolding e by auto
  have h9: "length (enc_header ?e) = 9" using es_nonempty [of ?e lib t dict recs] k by simp
  obtain rest where data: "?data = ?pre @ enc_header ?e @ enc_record ?e @ rest"
    using blob_file_nth [of k ?es lib dict hdr] k by (auto simp: enc_bytes_def)
  have len: "length ?data < 2 ^ 64" using gf by (simp add: good_file_def)
  have rs: "(ucast (dec_record_size d) :: u64) = of_nat (length (enc_record ?e))"
    using fit(2) d(2) by (simp add: word_unat_eq_iff unat_ucast_u32_u64 unat_of_nat_u64)
  have off: "it_offset it = of_nat (length ?pre)" "it_file it = read_only ?data" "it_dict it = dict"
    using r by (simp_all add: ready_def)
  have r1: "file_Read (it_offset it) (of_nat kRecordHeaderSize) (read_only ?data) = ((OK, enc_header ?e), read_only ?data)"
    by (rule file_Read_part [OF data len off(1)]) (simp add: h9 kRecordHeaderSize_def)
  have r2: "file_Read (it_offset it + of_nat kRecordHeaderSize) (ucast (dec_record_size d)) (read_only ?data) = ((OK, enc_record ?e), read_only ?data)"
    by (rule file_Read_part [OF _ len, of "?pre @ enc_header ?e" _ rest]) (simp_all add: data off(1) h9 kRecordHeaderSize_def rs)
  let ?sz = "of_nat kRecordHeaderSize + ucast (dec_record_size d) :: u64"
  let ?r = "it\<lparr>it_record := recs ! k, it_cur_offset := it_offset it, it_cur_size := ?sz, it_cur_index := it_index it,
      it_index := it_index it + 1, it_offset := it_offset it + ?sz, it_valid := True\<rparr>"
  have st: "it_status it = OK" using r by (simp add: ready_def)
  then have u: "it\<lparr>it_file := read_only ?data, it_status := OK\<rparr> = it" using off(2) by simp
  have g: "GetBlobRecord lib it = Some ?r"
    using r1 r2 d(1) [rule_format, of "[]"] d(3) st off(3)
    by (simp add: GetBlobRecord_def off(2) u iter_compression_def Let_def)
  have sz: "?sz = of_nat (length (enc_bytes ?e))" by (simp add: enc_bytes_def h9 kRecordHeaderSize_def rs)
  have "lay hdr (take (Suc k) ?es) = ?pre @ enc_bytes ?e" using k by (simp add: take_Suc_conv_app_nth lay_snoc)
  then have "stands_on lib t dict hdr recs k ?r"
    using r off(1) unfolding stands_on_def ready_def nth_handle_def GetBlobIndex_def Iter_Valid_def sz by simp
  with g show thesis using that by simp
qed

text \<open>What an iterator keeps besides its position.\<close>

definition same_iter :: "BlobFileIterator \<Rightarrow> BlobFileIterator \<Rightarrow> bool" where
  "same_iter it it' \<longleftrightarrow> it_file_number it' = it_file_number it \<and> it_bitmap it' = it_bitmap it"

lemma ready_prefetched:
  assumes "it' = it\<lparr>it_ra_begin := it_ra_begin it', it_ra_end := it_ra_end it', it_ra_size := it_ra_size it'\<rparr>"
    "window_ok (it_ra_size it')"
  shows "ready lib t dict hdr recs k it \<Longrightarrow> ready lib t dict hdr recs k it'"
    "stands_on lib t dict hdr recs k it \<Longrightarrow> stands_on lib t dict hdr recs k it'" "same_iter it it'"
proof -
  obtain b e s where "it' = it\<lparr>it_ra_begin := b, it_ra_end := e, it_ra_size := s\<rparr>" using assms(1) by blast
  then show "ready lib t dict hdr recs k it \<Longrightarrow> ready lib t dict hdr recs k it'"
    "stands_on lib t dict hdr recs k it \<Longrightarrow> stands_on lib t dict hdr recs k it'" "same_iter it it'"
    using assms(2) by (simp_all add: ready_def stands_on_def Iter_Valid_def GetBlobIndex_def same_iter_def)
qed

lemma PrefetchAndGet_record:
  assumes gf: "good_file lib t dict hdr recs" and r: "ready lib t dict hdr recs k it" and k: "k < length recs"
  obtains it' where "PrefetchAndGet lib it = Some it'" "stands_on lib t dict hdr recs k it'" "same_iter it it'"
proof -
  let ?es = "file_es lib t dict recs"
  have "length (lay hdr (take k ?es)) < length (lay hdr (take (length recs) ?es))"
    by (rule lay_strict_mono) (use k es_nonempty in auto)
  then have "it_offset it < it_end it"
    using r lay_length_le [OF gf] by (simp add: ready_def word_less_nat_alt unat_of_nat_u64)
  moreover have "it_index it < it_file_entries it"
  proof -
    have "length recs < 2 ^ 64" using r unat_lt_u64 [of "it_file_entries it"] by (simp add: ready_def)
    then show ?thesis using r k by (simp add: ready_def word_less_nat_alt unat_of_nat_u64)
  qed
  ultimately have in_range: "\<not> (it_offset it \<ge> it_end it \<or> it_index it \<ge> it_file_entries it)" by (simp add: not_le)
  have w: "window_ok (it_ra_size it)" using r by (simp add: ready_def)
  obtain i1 where i1: "prefetch it = Some i1" "window_ok (it_ra_size i1)"
    "i1 = it\<lparr>it_ra_begin := it_ra_begin i1, it_ra_end := it_ra_end i1, it_ra_size := it_ra_size i1\<rparr>"
    by (rule prefetch_ok [OF w])
  note p1 = ready_prefetched [OF i1(3,2)]
  obtain i2 where i2: "GetBlobRecord lib i1 = Some i2" "stands_on lib t dict hdr recs k i2"
    "i2 = i1\<lparr>it_record := it_record i2, it_cur_offset := it_cur_offset i2, it_cur_size := it_cur_size i2,
       it_cur_index := it_cur_index i2, it_index := it_index i2, it_offset := it_offset i2, it_valid := it_valid i2\<rparr>"
    by (rule GetBlobRecord_ok [OF gf p1(1) [OF r] k])
  let ?i3 = "if it_ra_end i2 < it_offset i2 then i2\<lparr>it_ra_end := it_offset i2\<rparr> else i2"
  have w2: "window_ok (it_ra_size ?i3)" "?i3 = i2\<lparr>it_ra_begin := it_ra_begin ?i3, it_ra_end := it_ra_end ?i3, it_ra_size := it_ra_size ?i3\<rparr>"
    using i2(2) by (simp_all add: stands_on_def ready_def)
  have "PrefetchAndGet lib it = Some ?i3" using in_range i1(1) i2(1) by (simp add: PrefetchAndGet_def)
  moreover have "same_iter i1 i2" by (subst i2(3)) (simp add: same_iter_def)
  ultimately show thesis
    using that [of ?i3] ready_prefetched(2) [OF w2(2,1) i2(2)] ready_prefetched(3) [OF w2(2,1)] p1(3) by (simp add: same_iter_def)
qed

lemma PrefetchAndGet_end:
  assumes gf: "good_file lib t dict hdr recs" and r: "ready lib t dict hdr recs (length recs) it"
  shows "PrefetchAndGet lib it = Some (it\<lparr>it_valid := False\<rparr>)"
  using r by (simp add: ready_def PrefetchAndGet_def)

lemma footer_handle_encoded: "footer_handle (BlobFileFooter_EncodeTo [] h) = Some (OK, h)"
proof -
  let ?h = "BlockHandle_EncodeTo [] h"
  have "resize 20 ?h = ?h @ replicate (20 - length ?h) 0" using length_BlockHandle [of h] by (simp add: resize_def)
  then have "\<exists>rest. BlockHandle_DecodeFrom (BlobFileFooter_EncodeTo [] h) = Inr (h, rest)"
    by (simp add: BlobFileFooter_EncodeTo_nil BlockHandle_Decode_Encode)
  then show ?thesis using BlobFileFooter_Decode_Encode [of h "[]"] by (auto simp: footer_handle_def)
qed

lemma lay_longer:
  assumes gf: "good_file lib t dict hdr recs"
  shows "8 < length (lay hdr (file_es lib t dict recs))"
proof -
  have hdr: "BlobFileHeader_wf hdr" using gf by (simp add: good_file_def)
  show ?thesis
  proof (cases recs)
    case Nil
    then show ?thesis
      using gf length_BlobFileHeader [OF hdr] by (simp add: good_file_def lay_def BlobFileHeader_size_def)
  next
    case (Cons r rs)
    have "length (enc_header (hd (file_es lib t dict recs))) = 9"
      using es_nonempty [of "hd (file_es lib t dict recs)" lib t dict recs] Cons by (simp add: file_es_def)
    then show ?thesis
      using Cons length_BlobFileHeader [OF hdr] by (simp add: file_es_def lay_def enc_bytes_def BlobFileHeader_size_def)
  qed
qed

lemma Iter_Init_ok:
  assumes gf: "good_file lib t dict hdr recs"
    and it: "it_file it = read_only (blob_file lib dict hdr (file_es lib t dict recs))"
      "it_file_size it = of_nat (length (blob_file lib dict hdr (file_es lib t dict recs)))" "it_dict it = None"
      "window_ok (it_ra_size it)" "length recs \<le> unat (it_file_entries it)" "it_index it = 0"
  obtains it' where "Iter_Init lib it = Some (True, it')"
    "ready lib t dict hdr recs 0 (it'\<lparr>it_status := OK, it_offset := it_header_size it'\<rparr>)" "same_iter it it'"
proof -
  let ?es = "file_es lib t dict recs"
  let ?data = "blob_file lib dict hdr ?es" and ?m = "meta_blocks lib (lay hdr ?es) dict"
  let ?n = "of_nat (length ?data) :: u64"
  have lib: "lib_sound lib" and hdr: "BlobFileHeader_wf hdr" and len: "length ?data < 2 ^ 64"
    and flags: "hd_flags hdr AND kHasUncompressionDictionary \<noteq> 0 \<longleftrightarrow> dict \<noteq> None" and zstd: "dict \<noteq> None \<Longrightarrow> lib_zstd lib"
    using gf by (simp_all add: good_file_def)
  have data: "?data = (lay hdr ?es @ fst ?m) @ BlobFileFooter_EncodeTo [] (snd ?m) @ []" by (simp add: blob_file_def)
  have n: "?n - of_nat kEncodedLength = of_nat (length (lay hdr ?es @ fst ?m))"
    using length_BlobFileFooter [of "snd ?m"] by (simp add: blob_file_def)
  let ?h = "snd ?m"
  have r1: "file_Read 0 kMaxHeaderLength (read_only ?data) = ((OK, take 12 ?data), read_only ?data)" by (simp add: file_Read_def)
  have "ReadHeader (read_only ?data) = (Inr hdr, read_only ?data)"
    using ReadHeader_lay [OF hdr] by (simp add: blob_file_def lay_def)
  then have dec: "DecodeInto (BlobFileHeader_DecodeFrom BlobFileHeader_default) (take 12 ?data) True = Inr hdr"
    by (simp add: ReadHeader_def r1)
  have r2: "file_Read (?n - of_nat kEncodedLength) (of_nat kEncodedLength) (read_only ?data) =
      ((OK, BlobFileFooter_EncodeTo [] ?h), read_only ?data)"
    by (rule file_Read_part [OF data len n]) (simp add: length_BlobFileFooter)
  have hs: "BlobFileHeader_size hdr = length (BlobFileHeader_EncodeTo [] hdr)" using length_BlobFileHeader [OF hdr] by simp
  let ?it = "it\<lparr>it_header_size := of_nat (BlobFileHeader_size hdr), it_status := OK, it_end := of_nat (length (lay hdr ?es)), it_dict := dict, it_init := True\<rparr>"
  have gt8: "\<not> (of_nat (length (lay hdr ?es)) :: u64) \<le> 8"
    using lay_longer [OF gf] lay_length_le(2) [OF gf] by (simp add: word_le_nat_alt unat_of_nat_u64)
  have "Iter_Init lib it = Some (True, ?it)"
  proof (cases dict)
    case None
    then have m: "?h = NullBlockHandle" "fst ?m = []" by (simp_all add: meta_blocks_def)
    then show ?thesis
      using r1 dec r2 flags None n gt8 it
      by (simp add: Iter_Init_def footer_handle_encoded Let_def del: of_nat_numeral)
  next
    case (Some d)
    let ?mi = "lib_meta_index lib (Some (block_at (lay hdr ?es) d))"
    have mi: "?mi \<noteq> []" "length ?mi < 2 ^ 32" using lib by (simp_all add: lib_sound_def)
    then have "(of_nat (length ?mi) :: u64) \<noteq> 0" using unat_of_nat_u64 [of "length ?mi"] by auto
    then have nn: "?h \<noteq> NullBlockHandle" "blk_size ?h = of_nat (length ?mi)"
      by (simp_all add: Some meta_blocks_def Let_def block_at_def NullBlockHandle_def)
    have "length (fst ?m) = length d + kBlockTrailerSize + (length ?mi + kBlockTrailerSize)"
      by (simp add: Some meta_blocks_def Let_def raw_block_def block_trailer_def)
    then have e: "?n - of_nat kEncodedLength - (blk_size ?h + of_nat kBlockTrailerSize) - (of_nat (length d) + of_nat kBlockTrailerSize) =
        of_nat (length (lay hdr ?es))"
      unfolding n nn(2) by simp
    have "InitUncompressionDict lib ?h (read_only ?data) = Some (Inr d, read_only ?data)"
      using dict_read_back [OF lib zstd, of ?data "lay hdr ?es" d] Some len by (simp add: blob_file_def)
    then show ?thesis
      using r1 dec r2 flags Some nn(1) e gt8 it(1,2)
      by (simp add: Iter_Init_def footer_handle_encoded Let_def del: of_nat_numeral)
  qed
  moreover have "ready lib t dict hdr recs 0 (?it\<lparr>it_status := OK, it_offset := it_header_size ?it\<rparr>)"
    using it hs by (simp add: ready_def lay_def)
  ultimately show thesis using that by (simp add: same_iter_def)
qed

section \<open>Cursors\<close>

fun steps :: "('s \<Rightarrow> 's option) \<Rightarrow> nat \<Rightarrow> 's \<Rightarrow> 's option" where
  "steps advance 0 s = Some s"
| "steps advance (Suc k) s = (case advance s of None \<Rightarrow> None | Some s' \<Rightarrow> steps advance k s')"

fun collect :: "('s \<Rightarrow> 's option) \<Rightarrow> ('s \<Rightarrow> bool) \<Rightarrow> ('s \<Rightarrow> 'r) \<Rightarrow> nat \<Rightarrow> 's \<Rightarrow> 'r list option" where
  "collect advance valid item 0 s = Some []"
| "collect advance valid item (Suc k) s =
     (if valid s
      then (case advance s of None \<Rightarrow> None | Some s' \<Rightarrow> map_option (Cons (item s)) (collect advance valid item k s'))
      else Some [])"

lemma steps_Suc: "steps advance (Suc k) s = Option.bind (steps advance k s) advance"
proof (induction k arbitrary: s)
  case (Suc k)
  show ?case
  proof (cases "advance s")
    case (Some s')
    then show ?thesis
      using Suc [of s'] by (simp only: steps.simps(2) [of advance "Suc k" s] steps.simps(2) [of advance k s] option.case)
  qed simp
qed (simp split: option.splits)

text \<open>
  What a client of an iterator relies on: it stands on the first of the items that are left, a
  step drops that item, and it is not valid when none is left.
\<close>

locale cursor =
  fixes advance :: "'s \<Rightarrow> 's option"
    and valid :: "'s \<Rightarrow> bool"
    and item :: "'s \<Rightarrow> 'r"
    and left_over :: "'s \<Rightarrow> 'r list \<Rightarrow> bool"
  assumes on_item: "left_over s (r # rs) \<Longrightarrow> valid s \<and> item s = r \<and> (\<exists>s'. advance s = Some s' \<and> left_over s' rs)"
    and at_end: "left_over s [] \<Longrightarrow> \<not> valid s"
begin

lemma steps_left_over: "left_over s rs \<Longrightarrow> k \<le> length rs \<Longrightarrow> \<exists>s'. steps advance k s = Some s' \<and> left_over s' (drop k rs)"
proof (induction k arbitrary: s rs)
  case (Suc k)
  then obtain r rs' where rs: "rs = r # rs'" by (cases rs) auto
  with Suc.prems on_item obtain s' where "advance s = Some s'" "left_over s' rs'" by blast
  with Suc.IH [of s' rs'] Suc.prems rs show ?case by auto
qed simp

lemma collect_all: "left_over s rs \<Longrightarrow> length rs < k \<Longrightarrow> collect advance valid item k s = Some rs"
proof (induction k arbitrary: s rs)
  case (Suc k)
  then show ?case using on_item at_end by (cases rs) fastforce+
qed simp

end

text \<open>The records that a blob file iterator has left.\<close>

definition iter_left :: "BlobLib \<Rightarrow> BlobFileIterator \<Rightarrow> BlobRecord list \<Rightarrow> bool" where
  "iter_left lib it rs \<longleftrightarrow>
     (\<exists>t dict hdr recs k. good_file lib t dict hdr recs \<and> rs = drop k recs \<and> k \<le> length recs \<and>
        (if k < length recs then stands_on lib t dict hdr recs k it
         else ready lib t dict hdr recs k it \<and> \<not> it_valid it))"

lemma iter_left_status: "iter_left lib it rs \<Longrightarrow> it_status it = OK"
  by (auto simp: iter_left_def stands_on_def ready_def split: if_splits)

lemma PrefetchAndGet_left:
  assumes gf: "good_file lib t dict hdr recs" and r: "ready lib t dict hdr recs k it" and k: "k \<le> length recs"
  shows "\<exists>it'. PrefetchAndGet lib it = Some it' \<and> iter_left lib it' (drop k recs) \<and> same_iter it it' \<and>
    (k < length recs \<longrightarrow> stands_on lib t dict hdr recs k it')"
proof (cases "k < length recs")
  case True
  obtain it' where "PrefetchAndGet lib it = Some it'" "stands_on lib t dict hdr recs k it'" "same_iter it it'"
    by (rule PrefetchAndGet_record [OF gf r True])
  with True gf show ?thesis unfolding iter_left_def by (metis less_imp_le)
next
  case False
  then have k: "k = length recs" using k by simp
  then have "PrefetchAndGet lib it = Some (it\<lparr>it_valid := False\<rparr>)" using PrefetchAndGet_end [OF gf] r by simp
  moreover have "ready lib t dict hdr recs k (it\<lparr>it_valid := False\<rparr>)" using r by (simp add: ready_def)
  then have "iter_left lib (it\<lparr>it_valid := False\<rparr>) (drop k recs)"
    unfolding iter_left_def using gf k
    by (intro exI [of _ t] exI [of _ dict] exI [of _ hdr] exI [of _ recs] exI [of _ k]) simp
  ultimately show ?thesis using False by (simp add: same_iter_def)
qed

lemma iter_left_Cons:
  assumes "iter_left lib it (r # rs)"
  shows "Iter_Valid it \<and> it_record it = r \<and> (\<exists>it'. Iter_Next lib it = Some it' \<and> iter_left lib it' rs)"
proof -
  obtain t dict hdr recs k where f0: "good_file lib t dict hdr recs" "r # rs = drop k recs"
    "if k < length recs then stands_on lib t dict hdr recs k it else ready lib t dict hdr recs k it \<and> \<not> it_valid it"
    using assms unfolding iter_left_def by blast
  moreover have "k < length recs" using f0(2) by (metis drop_all list.distinct(1) not_le)
  ultimately have f: "good_file lib t dict hdr recs" "r # rs = drop k recs" "k < length recs" "stands_on lib t dict hdr recs k it"
    by simp_all
  then have "recs ! k = r" "rs = drop (Suc k) recs" by (metis Cons_nth_drop_Suc list.inject)+
  moreover have "ready lib t dict hdr recs (Suc k) it" "it_init it" using f(4) by (simp_all add: stands_on_def ready_def)
  ultimately show ?thesis
    using PrefetchAndGet_left [OF f(1), of "Suc k" it] f(3,4) by (auto simp: Iter_Next_def stands_on_def)
qed

interpretation file_cursor: cursor "Iter_Next lib" Iter_Valid it_record "iter_left lib" for lib
proof
  show "iter_left lib it (r # rs) \<Longrightarrow> Iter_Valid it \<and> it_record it = r \<and> (\<exists>it'. Iter_Next lib it = Some it' \<and> iter_left lib it' rs)"
    for lib it r rs by (rule iter_left_Cons)
  show "iter_left lib it [] \<Longrightarrow> \<not> Iter_Valid it" for lib it
    by (auto simp: iter_left_def Iter_Valid_def split: if_splits)
qed

text \<open>A fresh iterator on a blob file.\<close>

definition fresh_iter :: "BlobLib \<Rightarrow> ctype \<Rightarrow> bytes option \<Rightarrow> BlobFileHeader \<Rightarrow> BlobRecord list \<Rightarrow> u64 \<Rightarrow> u64 \<Rightarrow> u64 \<Rightarrow> BlobFileIterator" where
  "fresh_iter lib t dict hdr recs number min_blob entries =
     (let data = blob_file lib dict hdr (file_es lib t dict recs)
      in BlobFileIterator_new (read_only data) number (of_nat (length data)) min_blob entries)"

lemma SeekToFirst_left:
  assumes gf: "good_file lib t dict hdr recs" and n: "length recs \<le> unat entries"
  shows "\<exists>it. Iter_SeekToFirst lib (fresh_iter lib t dict hdr recs number min_blob entries) = Some it \<and> iter_left lib it recs \<and>
    it_file_number it = number \<and> (recs \<noteq> [] \<longrightarrow> stands_on lib t dict hdr recs 0 it)"
proof -
  let ?it = "fresh_iter lib t dict hdr recs number min_blob entries"
  have "window_ok kMinReadaheadSize" by (simp add: window_ok_def word_le_nat_alt unat_kMax)
  then have f: "it_file ?it = read_only (blob_file lib dict hdr (file_es lib t dict recs))"
    "it_file_size ?it = of_nat (length (blob_file lib dict hdr (file_es lib t dict recs)))" "it_dict ?it = None"
    "window_ok (it_ra_size ?it)" "length recs \<le> unat (it_file_entries ?it)" "it_index ?it = 0"
    using n by (simp_all add: fresh_iter_def BlobFileIterator_new_def Let_def)
  obtain i1 where i1: "Iter_Init lib ?it = Some (True, i1)"
    "ready lib t dict hdr recs 0 (i1\<lparr>it_status := OK, it_offset := it_header_size i1\<rparr>)" "same_iter ?it i1"
    by (rule Iter_Init_ok [OF gf f])
  have "\<not> it_init ?it" "it_file_number ?it = number" by (simp_all add: fresh_iter_def BlobFileIterator_new_def Let_def)
  then show ?thesis
    using PrefetchAndGet_left [OF gf i1(2)] i1(1,3) by (auto simp: Iter_SeekToFirst_def same_iter_def)
qed

lemma steps_stands_on:
  assumes gf: "good_file lib t dict hdr recs" and s: "stands_on lib t dict hdr recs 0 it"
  shows "k < length recs \<Longrightarrow> \<exists>it'. steps (Iter_Next lib) k it = Some it' \<and> stands_on lib t dict hdr recs k it' \<and>
    it_file_number it' = it_file_number it"
proof (induction k)
  case 0
  then show ?case using s by simp
next
  case (Suc k)
  then obtain i1 where i1: "steps (Iter_Next lib) k it = Some i1" "stands_on lib t dict hdr recs k i1" "it_file_number i1 = it_file_number it"
    by auto
  then have "ready lib t dict hdr recs (Suc k) i1" "it_init i1" by (simp_all add: stands_on_def ready_def)
  with PrefetchAndGet_left [OF gf, of "Suc k" i1] Suc.prems i1 show ?case
    unfolding steps_Suc by (auto simp: Iter_Next_def same_iter_def)
qed

text \<open>C14: An iterator over a blob file visits exactly the records of the file, in order, each with
  its position, size and index, and ends without an error.\<close>

theorem blob_file_iterated:
  assumes gf: "good_file lib t dict hdr recs" and n: "length recs \<le> unat entries"
  shows "\<exists>it. Iter_SeekToFirst lib (fresh_iter lib t dict hdr recs number min_blob entries) = Some it \<and>
    collect (Iter_Next lib) Iter_Valid it_record (Suc (length recs)) it = Some recs \<and>
    (\<forall>k < length recs. \<exists>it'. steps (Iter_Next lib) k it = Some it' \<and>
       GetBlobIndex it' = BlobIndex_zero\<lparr>bi_file_number := number, bi_handle := nth_handle hdr (file_es lib t dict recs) k\<rparr>) \<and>
    (\<exists>it'. steps (Iter_Next lib) (length recs) it = Some it' \<and> \<not> Iter_Valid it' \<and> it_status it' = OK)"
proof -
  obtain it where it: "Iter_SeekToFirst lib (fresh_iter lib t dict hdr recs number min_blob entries) = Some it" "iter_left lib it recs"
    "it_file_number it = number" "recs \<noteq> [] \<longrightarrow> stands_on lib t dict hdr recs 0 it"
    using SeekToFirst_left [OF gf n] by blast
  have "collect (Iter_Next lib) Iter_Valid it_record (Suc (length recs)) it = Some recs" by (rule file_cursor.collect_all [OF it(2)]) simp
  moreover have "\<exists>it'. steps (Iter_Next lib) (length recs) it = Some it' \<and> \<not> Iter_Valid it' \<and> it_status it' = OK"
    using file_cursor.steps_left_over [OF it(2), of "length recs"] file_cursor.at_end iter_left_status by auto
  moreover have "\<exists>it'. steps (Iter_Next lib) k it = Some it' \<and>
      GetBlobIndex it' = BlobIndex_zero\<lparr>bi_file_number := number, bi_handle := nth_handle hdr (file_es lib t dict recs) k\<rparr>"
    if k: "k < length recs" for k
  proof -
    obtain it' where i: "steps (Iter_Next lib) k it = Some it'" "stands_on lib t dict hdr recs k it'" "it_file_number it' = number"
      using steps_stands_on [OF gf _ k, of it] it(3,4) k by fastforce
    then have "bi_handle (GetBlobIndex it') = nth_handle hdr (file_es lib t dict recs) k" by (simp add: stands_on_def)
    then show ?thesis using i(1,3) by (simp add: GetBlobIndex_def)
  qed
  ultimately show ?thesis using it(1) by blast
qed

definition demo_recs :: "BlobRecord list" where
  "demo_recs = [\<lparr>rec_key = [1], rec_value = [2]\<rparr>, \<lparr>rec_key = [3], rec_value = [4]\<rparr>]"

lemma demo_good_file:
  assumes "recs = demo_recs \<or> recs = [\<lparr>rec_key = [2], rec_value = []\<rparr>]"
  shows "good_file demo_lib 0 None BlobFileHeader_default recs"
proof -
  have "length (enc_record (EncodeRecord rle_demo 0 r)) \<le> 12" if "r \<in> set recs" for r
    using length_EncodeVarint32_max [of 1] length_EncodeVarint32_max [of 0] that assms
    by (auto simp: demo_recs_def EncodeRecord_def EncodeSlice_def Compress_def Let_def BlobRecord_EncodeTo_def
        PutLengthPrefixedSlice_def PutVarint32_def)
  then have small: "length (enc_record e) \<le> 12" if "e \<in> set (file_es demo_lib 0 None recs)" for e
    using that by (auto simp: file_es_def demo_lib_def)
  have "length (blob_file demo_lib None BlobFileHeader_default (file_es demo_lib 0 None recs)) < 2 ^ 64"
  proof (rule blob_file_small [OF demo_lib_sound])
    fix e assume e: "e \<in> set (file_es demo_lib 0 None recs)"
    then show "length (enc_bytes e) \<le> 2 ^ 32 + 8" using small [OF e] es_nonempty [OF e] by (simp add: enc_bytes_def)
  qed (use assms in \<open>auto simp: BlobFileHeader_wf_def BlobFileHeader_default_def demo_recs_def\<close>)
  moreover have "list_all (\<lambda>e. length (enc_record e) < 2 ^ 32) (file_es demo_lib 0 None recs)"
    using small by (fastforce simp: list_all_iff)
  ultimately show ?thesis
    using assms demo_lib_sound
    by (auto simp: good_file_def BlobFileHeader_wf_def BlobFileHeader_default_def demo_recs_def BlobRecord_fits_def)
qed

theorem blob_file_iterated_witness:
  "\<exists>it. Iter_SeekToFirst demo_lib (fresh_iter demo_lib 0 None BlobFileHeader_default demo_recs 7 0 (- 1)) = Some it \<and>
    collect (Iter_Next demo_lib) Iter_Valid it_record 3 it = Some demo_recs"
proof -
  have "length demo_recs \<le> unat (- 1 :: u64)" "length demo_recs = 2"
    by (simp_all add: demo_recs_def unsigned_minus_1_eq_mask mask_eq_exp_minus_1)
  with blob_file_iterated [OF demo_good_file, of demo_recs "- 1" 7 0] show ?thesis by auto
qed

section \<open>Merging\<close>

text \<open>What is relied on of a comparator.\<close>

definition strict_weak :: "(bytes \<Rightarrow> bytes \<Rightarrow> bool) \<Rightarrow> bool" where
  "strict_weak lt \<longleftrightarrow> (\<forall>x. \<not> lt x x) \<and> (\<forall>x y z. lt x y \<longrightarrow> lt y z \<longrightarrow> lt x z) \<and>
     (\<forall>x y z. \<not> lt x y \<longrightarrow> \<not> lt y z \<longrightarrow> \<not> lt x z)"

lemma bytes_less_strict_weak: "strict_weak bytes_less"
  unfolding strict_weak_def using bytes_less_trans bytes_less_total by (metis bytes_less_irrefl)

definition key_le :: "(bytes \<Rightarrow> bytes \<Rightarrow> bool) \<Rightarrow> BlobRecord \<Rightarrow> BlobRecord \<Rightarrow> bool" where
  "key_le lt a b \<longleftrightarrow> \<not> lt (rec_key b) (rec_key a)"

definition Merge_record :: "BlobFileMergeIterator \<Rightarrow> BlobRecord" where
  "Merge_record mi = (case mi_current mi of None \<Rightarrow> \<lparr>rec_key = [], rec_value = []\<rparr> | Some c \<Rightarrow> it_record (mi_iters mi ! c))"

abbreviation heap_sorted :: "(bytes \<Rightarrow> bytes \<Rightarrow> bool) \<Rightarrow> BlobFileIterator list \<Rightarrow> nat list \<Rightarrow> bool" where
  "heap_sorted lt its \<equiv> sorted_wrt (\<lambda>i j. \<not> lt (iter_key its j) (iter_key its i))"

lemma mset_heap_push: "mset (heap_push lt its i h) = add_mset i (mset h)"
  by (induction h) auto

lemma set_heap_push: "set (heap_push lt its i h) = insert i (set h)"
  by (induction h) auto

lemma heap_push_sorted:
  assumes sw: "strict_weak lt" and "heap_sorted lt its h"
  shows "heap_sorted lt its (heap_push lt its i h)"
  using assms(2)
proof (induction h)
  case (Cons j h)
  show ?case
  proof (cases "lt (iter_key its i) (iter_key its j)")
    case True
    then have "\<not> lt (iter_key its x) (iter_key its i)" if "x \<in> set (j # h)" for x
      using Cons.prems that sw unfolding strict_weak_def by (metis set_ConsD sorted_wrt.simps(2))
    then show ?thesis using True Cons.prems by simp
  next
    case False
    then show ?thesis using Cons by (simp add: set_heap_push)
  qed
qed simp

lemma distinct_heap_push: "distinct (heap_push lt its i h) \<longleftrightarrow> i \<notin> set h \<and> distinct h"
  by (induction h) (auto simp: set_heap_push)

lemma heap_sorted_update: "c \<notin> set h \<Longrightarrow> heap_sorted lt (its[c := it]) h = heap_sorted lt its h"
proof -
  assume "c \<notin> set h"
  then have "iter_key (its[c := it]) j = iter_key its j" if "j \<in> set h" for j
    using that by (metis iter_key_def nth_list_update_neq)
  then show "heap_sorted lt (its[c := it]) h = heap_sorted lt its h"
    by (metis (mono_tags, lifting) sorted_wrt_mono_rel)
qed

text \<open>
  The records left in every file; the heap has the iterators that stand on a record, the current
  one apart.
\<close>

definition merging :: "BlobLib \<Rightarrow> BlobRecord list list \<Rightarrow> BlobFileMergeIterator \<Rightarrow> bool" where
  "merging lib rss mi \<longleftrightarrow>
     length (mi_iters mi) = length rss \<and> (\<forall>j < length rss. iter_left lib (mi_iters mi ! j) (rss ! j)) \<and>
     mi_status mi = OK \<and> distinct (mi_heap mi) \<and> heap_sorted (mi_less mi) (mi_iters mi) (mi_heap mi) \<and>
     (case mi_current mi of
        None \<Rightarrow> set (mi_heap mi) = {} \<and> (\<forall>j < length rss. rss ! j = [])
      | Some c \<Rightarrow> c < length rss \<and> rss ! c \<noteq> [] \<and> c \<notin> set (mi_heap mi) \<and>
          insert c (set (mi_heap mi)) = {j. j < length rss \<and> rss ! j \<noteq> []} \<and>
          (\<forall>j \<in> set (mi_heap mi). \<not> mi_less mi (iter_key (mi_iters mi) j) (iter_key (mi_iters mi) c)))"

text \<open>Taking the top of the heap.\<close>

definition take_top :: "BlobFileMergeIterator \<Rightarrow> BlobFileMergeIterator" where
  "take_top mi = (case mi_heap mi of [] \<Rightarrow> mi\<lparr>mi_current := None\<rparr> | i # h \<Rightarrow> mi\<lparr>mi_current := Some i, mi_heap := h\<rparr>)"

lemma take_top_merging:
  assumes "length (mi_iters mi) = length rss" "\<forall>j < length rss. iter_left lib (mi_iters mi ! j) (rss ! j)"
    "mi_status mi = OK" "distinct (mi_heap mi)" "heap_sorted (mi_less mi) (mi_iters mi) (mi_heap mi)"
    "set (mi_heap mi) = {j. j < length rss \<and> rss ! j \<noteq> []}"
  shows "merging lib rss (take_top mi)"
proof (cases "mi_heap mi")
  case Nil
  then show ?thesis using assms by (auto simp: merging_def take_top_def)
next
  case (Cons c h)
  then have "c < length rss \<and> rss ! c \<noteq> []" using assms(6) by auto
  then show ?thesis using Cons assms by (auto simp: merging_def take_top_def)
qed

lemma iter_left_valid: "iter_left lib it rs \<Longrightarrow> Iter_Valid it \<longleftrightarrow> rs \<noteq> []"
  using file_cursor.on_item file_cursor.at_end by (cases rs) auto

lemma merging_current:
  assumes "merging lib rss mi"
  shows "Merge_Valid mi \<longleftrightarrow> (\<exists>j < length rss. rss ! j \<noteq> [])"
  using assms iter_left_valid iter_left_status
  by (cases "mi_current mi") (auto simp: merging_def Merge_Valid_def Merge_status_def)

lemma merging_Next:
  assumes sw: "strict_weak (mi_less mi)" and m: "merging lib rss mi" and c: "mi_current mi = Some c"
  obtains mi' where "Merge_Next lib mi = Some mi'" "merging lib (rss[c := tl (rss ! c)]) mi'" "mi_less mi' = mi_less mi"
    "Merge_record mi = hd (rss ! c)"
proof -
  let ?its = "mi_iters mi"
  have cl: "c < length rss" "rss ! c \<noteq> []" "c \<notin> set (mi_heap mi)" "iter_left lib (?its ! c) (rss ! c)"
    "length ?its = length rss" "insert c (set (mi_heap mi)) = {j. j < length rss \<and> rss ! j \<noteq> []}"
    using m c by (auto simp: merging_def)
  obtain r rs where rs: "rss ! c = r # rs" using cl(2) by (cases "rss ! c") auto
  obtain it where it: "it_record (?its ! c) = r" "Iter_Next lib (?its ! c) = Some it" "iter_left lib it rs"
    using iter_left_Cons cl(4) rs by fastforce
  let ?m1 = "mi\<lparr>mi_iters := ?its[c := it]\<rparr>"
  let ?m2 = "push_valid c ?m1"
  have "Merge_Valid mi" using merging_current [OF m] cl(1,2) by blast
  then have nx: "Merge_Next lib mi = Some (take_top ?m2)"
    using c it(2) by (simp add: Merge_Next_def take_top_def Let_def)
  have sorted: "heap_sorted (mi_less mi) (?its[c := it]) (mi_heap mi)"
    using heap_sorted_update [OF cl(3)] m by (simp add: merging_def)
  have "merging lib (rss[c := rs]) (take_top ?m2)"
  proof (rule take_top_merging)
    show "length (mi_iters ?m2) = length (rss[c := rs])" using cl(5) by (simp add: push_valid_def)
    show "\<forall>j < length (rss[c := rs]). iter_left lib (mi_iters ?m2 ! j) (rss[c := rs] ! j)"
    proof (intro allI impI)
      fix j assume j: "j < length (rss[c := rs])"
      then have "iter_left lib (?its ! j) (rss ! j)" using m by (simp add: merging_def)
      then show "iter_left lib (mi_iters ?m2 ! j) (rss[c := rs] ! j)"
        using it(3) cl(1,5) j by (cases "j = c") (simp_all add: push_valid_def)
    qed
    show "mi_status ?m2 = OK" using m by (simp add: push_valid_def merging_def)
    show "distinct (mi_heap ?m2)" using m cl(3) by (simp add: push_valid_def merging_def distinct_heap_push)
    show "heap_sorted (mi_less ?m2) (mi_iters ?m2) (mi_heap ?m2)"
      using sorted heap_push_sorted [OF sw sorted] by (simp add: push_valid_def)
    have "set (mi_heap ?m2) = (if rs \<noteq> [] then insert c (set (mi_heap mi)) else set (mi_heap mi))"
      using iter_left_valid [OF it(3)] iter_left_status [OF it(3)] cl(1,5) by (simp add: push_valid_def set_heap_push)
    then show "set (mi_heap ?m2) = {j. j < length (rss[c := rs]) \<and> rss[c := rs] ! j \<noteq> []}"
      using cl(1,3,6) by (auto simp: nth_list_update)
  qed
  moreover have "mi_less (take_top ?m2) = mi_less mi" by (simp add: take_top_def push_valid_def split: list.splits)
  moreover have "Merge_record mi = hd (rss ! c)" using c it(1) rs by (simp add: Merge_record_def)
  ultimately show thesis using that nx rs by simp
qed

lemma key_le_head:
  assumes sw: "strict_weak lt" and "sorted_wrt (key_le lt) xs" "key_le lt r (hd xs)" "x \<in> set xs"
  shows "key_le lt r x"
proof -
  obtain y ys where xs: "xs = y # ys" using assms(4) by (cases xs) auto
  then consider "x = y" | "key_le lt y x" using assms(2,4) by auto
  then show ?thesis
  proof cases
    case 2
    then show ?thesis using assms(3) sw xs unfolding key_le_def strict_weak_def by (metis list.sel(1))
  qed (use assms(3) xs in simp)
qed

text \<open>The current record is the smallest of those that are left.\<close>

lemma merging_min:
  assumes m: "merging lib rss mi" and c: "mi_current mi = Some c" and lt: "mi_less mi = lt" and sw: "strict_weak lt"
    and j: "j < length rss" "rss ! j \<noteq> []" and r: "rss ! c = r # rs"
  shows "key_le lt r (hd (rss ! j))"
proof -
  have key: "iter_key (mi_iters mi) i = rec_key (hd (rss ! i))" if "i < length rss" "rss ! i \<noteq> []" for i
  proof -
    have "iter_left lib (mi_iters mi ! i) (hd (rss ! i) # tl (rss ! i))" using m that by (simp add: merging_def)
    then show ?thesis using iter_left_Cons by (simp add: iter_key_def)
  qed
  have cl: "c < length rss" "rss ! c \<noteq> []" "insert c (set (mi_heap mi)) = {j. j < length rss \<and> rss ! j \<noteq> []}"
    "\<forall>j \<in> set (mi_heap mi). \<not> lt (iter_key (mi_iters mi) j) (iter_key (mi_iters mi) c)"
    using m c lt by (simp_all add: merging_def)
  show ?thesis
  proof (cases "j = c")
    case True
    then show ?thesis using r sw by (simp add: key_le_def strict_weak_def)
  next
    case False
    then have "j \<in> set (mi_heap mi)" using cl(3) j by blast
    then have "\<not> lt (iter_key (mi_iters mi) j) (iter_key (mi_iters mi) c)" using cl(4) by blast
    then show ?thesis using key [OF cl(1,2)] key [OF j] r by (simp add: key_le_def)
  qed
qed

lemma mset_concat_update:
  "c < length rss \<Longrightarrow> rss ! c = r # rs \<Longrightarrow> mset (concat rss) = add_mset r (mset (concat (rss[c := rs])))"
proof (induction rss arbitrary: c)
  case (Cons x xs)
  then show ?case by (cases c) auto
qed simp

lemma merging_collect:
  assumes sw: "strict_weak lt"
  shows "merging lib rss mi \<Longrightarrow> mi_less mi = lt \<Longrightarrow> length (concat rss) < k \<Longrightarrow>
    (\<And>rs. rs \<in> set rss \<Longrightarrow> sorted_wrt (key_le lt) rs) \<Longrightarrow>
    \<exists>out. collect (Merge_Next lib) Merge_Valid Merge_record k mi = Some out \<and> mset out = mset (concat rss) \<and>
      sorted_wrt (key_le lt) out"
proof (induction k arbitrary: rss mi)
  case (Suc k)
  note m = Suc.prems(1)
  show ?case
  proof (cases "mi_current mi")
    case None
    then have e: "rss ! j = []" if "j < length rss" for j using m that by (simp add: merging_def)
    then have "\<not> Merge_Valid mi" using merging_current [OF m] by blast
    moreover have "concat rss = []" using e by (auto simp: in_set_conv_nth)
    ultimately show ?thesis by simp
  next
    case (Some c)
    obtain mi' where n: "Merge_Next lib mi = Some mi'" "merging lib (rss[c := tl (rss ! c)]) mi'" "mi_less mi' = lt"
      "Merge_record mi = hd (rss ! c)"
      using merging_Next [OF _ m Some] sw Suc.prems(2) by metis
    have c: "c < length rss" "rss ! c \<noteq> []" using m Some by (simp_all add: merging_def)
    obtain r rs where rs: "rss ! c = r # rs" using c(2) by (cases "rss ! c") auto
    note ms = mset_concat_update [OF c(1) rs]
    have "length (concat rss) = Suc (length (concat (rss[c := rs])))" using arg_cong [OF ms, of size] by simp
    then have len: "length (concat (rss[c := tl (rss ! c)])) < k" using Suc.prems(3) rs by simp
    have srt: "sorted_wrt (key_le lt) x" if "x \<in> set (rss[c := tl (rss ! c)])" for x
    proof -
      have "x \<in> set rss \<or> x = rs" using that set_update_subset_insert rs by fastforce
      moreover have "sorted_wrt (key_le lt) rs" using Suc.prems(4) [OF nth_mem [OF c(1)]] rs by simp
      ultimately show ?thesis using Suc.prems(4) by blast
    qed
    obtain out where out: "collect (Merge_Next lib) Merge_Valid Merge_record k mi' = Some out"
      "mset out = mset (concat (rss[c := rs]))" "sorted_wrt (key_le lt) out"
      using Suc.IH [OF n(2,3) len srt] rs by auto
    have "key_le lt r x" if "x \<in> set out" for x
    proof -
      have "x \<in> set (concat (rss[c := rs]))" using that out(2) by (metis set_mset_mset)
      then obtain j where j: "j < length rss" "x \<in> set (rss[c := rs] ! j)" by (metis (no_types) UN_E in_set_conv_nth length_list_update set_concat)
      then have jn: "x \<in> set (rss ! j)" using rs by (cases "j = c") auto
      have "key_le lt r (hd (rss ! j))" by (rule merging_min [OF m Some Suc.prems(2) sw j(1)]) (use jn rs in auto)
      moreover have "sorted_wrt (key_le lt) (rss ! j)" using Suc.prems(4) j(1) by simp
      ultimately show ?thesis using jn key_le_head sw by metis
    qed
    moreover have "Merge_Valid mi" using merging_current [OF m] c by blast
    ultimately show ?thesis using n(1,4) out rs ms by simp
  qed
qed simp

lemma seek_all_merging:
  assumes sw: "strict_weak (mi_less mi)"
    and seek: "\<And>j. j < length rss \<Longrightarrow> \<exists>it. Iter_SeekToFirst lib (its ! j) = Some it \<and> iter_left lib it (rss ! j)"
    and m: "m \<le> length rss" "length (mi_iters mi) = length rss" "mi_status mi = OK" "distinct (mi_heap mi)"
      "heap_sorted (mi_less mi) (mi_iters mi) (mi_heap mi)" "set (mi_heap mi) = {j. j < m \<and> rss ! j \<noteq> []}"
      "\<forall>j < m. iter_left lib (mi_iters mi ! j) (rss ! j)" "\<forall>j < length rss. m \<le> j \<longrightarrow> mi_iters mi ! j = its ! j"
  shows "\<exists>mi'. seek_all lib [m..<length rss] mi = Some mi' \<and> merging lib rss (take_top mi') \<and> mi_less mi' = mi_less mi \<and>
    set (mi_heap mi') = {j. j < length rss \<and> rss ! j \<noteq> []}"
  using sw m
proof (induction "length rss - m" arbitrary: m mi)
  case 0
  then have "m = length rss" by simp
  then show ?case using 0 take_top_merging [of mi rss lib] by simp
next
  case (Suc d)
  then have ml: "m < length rss" by simp
  then obtain it where it: "Iter_SeekToFirst lib (mi_iters mi ! m) = Some it" "iter_left lib it (rss ! m)"
    using seek Suc.prems(9) by (metis order_refl)
  let ?m1 = "mi\<lparr>mi_iters := (mi_iters mi)[m := it]\<rparr>"
  let ?m2 = "push_valid m ?m1"
  have nin: "m \<notin> set (mi_heap mi)" using Suc.prems(7) by simp
  have sorted: "heap_sorted (mi_less mi) ((mi_iters mi)[m := it]) (mi_heap mi)"
    using heap_sorted_update [OF nin] Suc.prems(6) by simp
  have v: "it_status it = OK" "Iter_Valid it \<longleftrightarrow> rss ! m \<noteq> []" using iter_left_status [OF it(2)] iter_left_valid [OF it(2)] by auto
  have "\<exists>mi'. seek_all lib [Suc m..<length rss] ?m2 = Some mi' \<and> merging lib rss (take_top mi') \<and> mi_less mi' = mi_less ?m2 \<and>
      set (mi_heap mi') = {j. j < length rss \<and> rss ! j \<noteq> []}"
  proof (rule Suc.hyps(1))
    show "d = length rss - Suc m" using Suc.hyps(2) by simp
    show "strict_weak (mi_less ?m2)" using Suc.prems(1) by (simp add: push_valid_def)
    show "Suc m \<le> length rss" using ml by simp
    show "length (mi_iters ?m2) = length rss" "mi_status ?m2 = OK" using Suc.prems by (simp_all add: push_valid_def)
    show "distinct (mi_heap ?m2)" using Suc.prems(5) nin by (simp add: push_valid_def distinct_heap_push)
    show "heap_sorted (mi_less ?m2) (mi_iters ?m2) (mi_heap ?m2)"
      using sorted heap_push_sorted [OF Suc.prems(1) sorted] by (simp add: push_valid_def)
    have "set (mi_heap ?m2) = (if rss ! m \<noteq> [] then insert m (set (mi_heap mi)) else set (mi_heap mi))"
      using v ml Suc.prems(3) by (simp add: push_valid_def set_heap_push)
    then show "set (mi_heap ?m2) = {j. j < Suc m \<and> rss ! j \<noteq> []}" using Suc.prems(7) by (auto simp: less_Suc_eq)
    show "\<forall>j < Suc m. iter_left lib (mi_iters ?m2 ! j) (rss ! j)"
      using Suc.prems(3,8) it(2) ml by (simp add: push_valid_def nth_list_update less_Suc_eq)
    show "\<forall>j < length rss. Suc m \<le> j \<longrightarrow> mi_iters ?m2 ! j = its ! j"
      using Suc.prems(9) by (simp add: push_valid_def)
  qed
  moreover have "mi_less ?m2 = mi_less mi" by (simp add: push_valid_def)
  moreover have "seek_all lib [m..<length rss] mi = seek_all lib [Suc m..<length rss] ?m2"
    using it(1) ml by (simp add: upt_conv_Cons)
  ultimately show ?case by simp
qed

lemma concat_nonempty_nth: "concat rss \<noteq> [] \<Longrightarrow> \<exists>j < length rss. rss ! j \<noteq> []"
  by (metis concat_eq_Nil_conv in_set_conv_nth)

text \<open>A file to merge: its compression type, dictionary, header, records and number.\<close>

type_synonym merge_file = "(ctype \<times> bytes option \<times> BlobFileHeader) \<times> BlobRecord list \<times> u64"

definition merge_iter :: "BlobLib \<Rightarrow> merge_file \<Rightarrow> BlobFileIterator" where
  "merge_iter lib f = (case f of ((t, dict, hdr), recs, number) \<Rightarrow> fresh_iter lib t dict hdr recs number 0 (- 1))"

definition merge_ok :: "BlobLib \<Rightarrow> (bytes \<Rightarrow> bytes \<Rightarrow> bool) \<Rightarrow> merge_file \<Rightarrow> bool" where
  "merge_ok lib lt f = (case f of ((t, dict, hdr), recs, number) \<Rightarrow>
     good_file lib t dict hdr recs \<and> length recs < 2 ^ 64 \<and> sorted_wrt (key_le lt) recs)"

text \<open>C13: Merging blob files whose records are sorted visits every record of every file exactly
  once, in the order of the keys.\<close>

theorem merge_visits_all_sorted:
  assumes sw: "strict_weak lt" and ok: "list_all (merge_ok lib lt) fs" and some: "concat (map (fst \<circ> snd) fs) \<noteq> []"
  shows "\<exists>mi out. Merge_SeekToFirst lib (BlobFileMergeIterator_new (map (merge_iter lib) fs) lt) = Some mi \<and>
    collect (Merge_Next lib) Merge_Valid Merge_record (Suc (length (concat (map (fst \<circ> snd) fs)))) mi = Some out \<and>
    mset out = mset (concat (map (fst \<circ> snd) fs)) \<and> sorted_wrt (key_le lt) out"
proof -
  let ?rss = "map (fst \<circ> snd) fs" and ?its = "map (merge_iter lib) fs"
  let ?m0 = "BlobFileMergeIterator_new ?its lt"
  have "\<exists>it. Iter_SeekToFirst lib (?its ! j) = Some it \<and> iter_left lib it (?rss ! j)" if j: "j < length ?rss" for j
  proof -
    obtain t dict hdr recs number where f: "fs ! j = ((t, dict, hdr), recs, number)" by (metis prod.exhaust)
    then have g: "good_file lib t dict hdr recs" "length recs \<le> unat (- 1 :: u64)"
      using ok j by (auto simp: list_all_length merge_ok_def unsigned_minus_1_eq_mask mask_eq_exp_minus_1)
    show ?thesis using SeekToFirst_left [OF g] f j by (auto simp: merge_iter_def)
  qed
  then obtain m1 where m1: "seek_all lib [0..<length ?rss] ?m0 = Some m1" "merging lib ?rss (take_top m1)" "mi_less m1 = lt"
    "set (mi_heap m1) = {j. j < length ?rss \<and> ?rss ! j \<noteq> []}"
    using seek_all_merging [of ?m0 ?rss lib ?its 0] sw by (auto simp: BlobFileMergeIterator_new_def)
  have "mi_heap m1 \<noteq> []" using concat_nonempty_nth [OF some] m1(4) by (metis (mono_tags, lifting) empty_set empty_iff mem_Collect_eq)
  then obtain i h where "mi_heap m1 = i # h" by (cases "mi_heap m1") auto
  moreover from this have "take_top m1 = m1\<lparr>mi_current := Some i, mi_heap := h\<rparr>" by (simp add: take_top_def)
  moreover have "length (mi_iters ?m0) = length ?rss" by (simp add: BlobFileMergeIterator_new_def)
  ultimately have "Merge_SeekToFirst lib ?m0 = Some (take_top m1)" "mi_less (take_top m1) = lt"
    using m1(1,3) by (simp_all add: Merge_SeekToFirst_def)
  moreover have "sorted_wrt (key_le lt) rs" if "rs \<in> set ?rss" for rs
    using that ok by (auto simp: list_all_iff merge_ok_def)
  then have "\<exists>out. collect (Merge_Next lib) Merge_Valid Merge_record (Suc (length (concat ?rss))) (take_top m1) = Some out \<and>
      mset out = mset (concat ?rss) \<and> sorted_wrt (key_le lt) out"
    using merging_collect [OF sw m1(2) calculation(2), of "Suc (length (concat ?rss))"] by blast
  ultimately show ?thesis by blast
qed

text \<open>C36: When reading on in a file fails, the merging iterator drops the file and goes on with the
  others: it stays valid and reports no error, although records of the file were not visited.\<close>

theorem merge_loses_errors:
  assumes "Merge_Valid mi" "mi_current mi = Some c" "Iter_Next lib (mi_iters mi ! c) = Some it" "it_status it \<noteq> OK"
    and "mi_heap mi = j # h" "j \<noteq> c" "Iter_Valid (mi_iters mi ! j)" "c < length (mi_iters mi)"
  shows "\<exists>mi'. Merge_Next lib mi = Some mi' \<and> Merge_Valid mi' \<and> Merge_status mi' = OK \<and> mi_current mi' = Some j \<and>
    mi_heap mi' = h"
proof -
  have "mi_status mi = OK" using assms(1,2) by (simp add: Merge_Valid_def Merge_status_def split: if_splits)
  then show ?thesis
    using assms by (simp add: Merge_Next_def Merge_Valid_def Merge_status_def push_valid_def Iter_Valid_def)
qed

definition demo_failing :: BlobFileIterator where
  "demo_failing = (BlobFileIterator_new \<lparr>rf_data = [], rf_io = [IOError ''disk'']\<rparr> 1 100 0 (- 1))
     \<lparr>it_init := True, it_valid := True, it_end := 50, it_offset := 12\<rparr>"

definition demo_merge :: BlobFileMergeIterator where
  "demo_merge = (BlobFileMergeIterator_new
       [demo_failing, (BlobFileIterator_new (read_only []) 2 100 0 (- 1))\<lparr>it_valid := True\<rparr>] bytes_less)
     \<lparr>mi_heap := [1], mi_current := Some 0\<rparr>"

theorem merge_visits_all_sorted_witness:
  "\<exists>mi out. Merge_SeekToFirst demo_lib (BlobFileMergeIterator_new (map (merge_iter demo_lib)
       [((0, None, BlobFileHeader_default), demo_recs, 7), ((0, None, BlobFileHeader_default), [\<lparr>rec_key = [2], rec_value = []\<rparr>], 8)])
       bytes_less) = Some mi \<and>
     collect (Merge_Next demo_lib) Merge_Valid Merge_record 4 mi = Some out \<and> length out = 3 \<and> sorted_wrt (key_le bytes_less) out"
proof -
  let ?fs = "[((0, None, BlobFileHeader_default), demo_recs, 7),
      ((0, None, BlobFileHeader_default), [\<lparr>rec_key = [2], rec_value = []\<rparr>], 8)] :: merge_file list"
  have "list_all (merge_ok demo_lib bytes_less) ?fs"
    using demo_good_file by (simp add: merge_ok_def) (simp add: demo_recs_def key_le_def)
  moreover have "length (concat (map (fst \<circ> snd) ?fs)) = 3" by (simp add: demo_recs_def)
  moreover from this have "concat (map (fst \<circ> snd) ?fs) \<noteq> []" by force
  ultimately obtain mi out where "Merge_SeekToFirst demo_lib (BlobFileMergeIterator_new (map (merge_iter demo_lib) ?fs) bytes_less) = Some mi"
    "collect (Merge_Next demo_lib) Merge_Valid Merge_record (Suc 3) mi = Some out"
    "mset out = mset (concat (map (fst \<circ> snd) ?fs))" "sorted_wrt (key_le bytes_less) out"
    using merge_visits_all_sorted [OF bytes_less_strict_weak, of demo_lib ?fs] by metis
  moreover from this have "length out = 3" by (metis \<open>length (concat (map (fst \<circ> snd) ?fs)) = 3\<close> size_mset)
  ultimately show ?thesis by (intro exI [of _ mi] exI [of _ out]) (simp add: eval_nat_numeral)
qed

theorem merge_loses_errors_witness:
  "\<exists>mi'. Merge_Next demo_lib demo_merge = Some mi' \<and> Merge_Valid mi' \<and> Merge_status mi' = OK \<and> mi_current mi' = Some 1"
proof -
  have w: "window_ok (it_ra_size demo_failing)"
    by (simp add: demo_failing_def BlobFileIterator_new_def window_ok_def word_le_nat_alt unat_kMax)
  obtain i1 where i1: "prefetch demo_failing = Some i1"
    "i1 = demo_failing\<lparr>it_ra_begin := it_ra_begin i1, it_ra_end := it_ra_end i1, it_ra_size := it_ra_size i1\<rparr>"
    by (rule prefetch_ok [OF w])
  then obtain b e s where "i1 = demo_failing\<lparr>it_ra_begin := b, it_ra_end := e, it_ra_size := s\<rparr>" by blast
  then have "\<exists>i2. GetBlobRecord demo_lib i1 = Some i2 \<and> it_status i2 = IOError ''disk''"
    by (simp add: GetBlobRecord_def file_Read_def demo_failing_def BlobFileIterator_new_def)
  then obtain it where it: "Iter_Next demo_lib demo_failing = Some it" "it_status it = IOError ''disk''"
    using i1(1) by (auto simp: Iter_Next_def PrefetchAndGet_def demo_failing_def BlobFileIterator_new_def)
  have "\<exists>mi'. Merge_Next demo_lib demo_merge = Some mi' \<and> Merge_Valid mi' \<and> Merge_status mi' = OK \<and>
      mi_current mi' = Some 1 \<and> mi_heap mi' = []"
    by (rule merge_loses_errors [of _ 0 _ it])
      (simp_all add: demo_merge_def BlobFileMergeIterator_new_def Merge_Valid_def Merge_status_def Iter_Valid_def it
        demo_failing_def [THEN arg_cong [of _ _ it_status]] demo_failing_def [THEN arg_cong [of _ _ it_valid]] BlobFileIterator_new_def)
  then show ?thesis by blast
qed

end
