(* ===== verification/Titan_Read.thy ===== *)
theory Titan_Read
  imports Titan_Accounting Titan_Iterator
begin

text \<open>
  The database around a garbage collection: the base database seen as the newest entry of every
  key, the blob files with the cache of their readers (\<open>blob_file_cache.cc\<close>), the read path
  (\<open>db_impl.cc\<close>, \<open>blob_storage.cc\<close>) and the creation and installation of blob files
  (\<open>TitanDBImpl::FileManager\<close> in \<open>db_impl.cc\<close>).  A failed assertion, a null pointer and taking a mutex that is
  never released have the value \<open>None\<close>.
\<close>

section \<open>State\<close>

text \<open>
  One column family of the base database: a key maps to its value and whether that is a blob
  index.  Other threads write to it: \<open>w_writes\<close> has, for each of the coming calls into the base
  database, what they write before it.  The outcomes of the coming operations are lists too, an empty
  list stands for success: \<open>w_base_io\<close> for the base database, \<open>w_new_files\<close> for the creation of
  files with the outcomes of the operations on the new file, \<open>w_dir_io\<close> for the directory; so are the
  answers to the questions whether the database shuts down and the column family is dropped.
\<close>

type_synonym base_entry = "bytes \<times> bool"

record World =
  w_db :: TitanDB
  w_files :: "u64 \<rightharpoonup> bytes"
  w_readers :: "u64 \<rightharpoonup> BlobFileReader"
  w_prefix :: "u64 \<Rightarrow> bytes"
  w_cache :: blob_cache
  w_base :: "bytes \<rightharpoonup> base_entry"
  w_writes :: "(bytes \<times> base_entry option) list list"
  w_base_io :: "string option list"
  w_new_files :: "(status \<times> status list) list"
  w_dir_io :: "status list"
  w_pending :: "u64 list"
  w_mutex :: bool
  w_bg_error :: status
  w_shutdown :: "bool list"
  w_dropped :: "bool list"

definition mutex_Lock :: "World \<Rightarrow> World option" where
  "mutex_Lock w = (if w_mutex w then None else Some (w\<lparr>w_mutex := True\<rparr>))"

definition mutex_Unlock :: "World \<Rightarrow> World" where
  "mutex_Unlock w = w\<lparr>w_mutex := False\<rparr>"

definition IsShutingDown :: "World \<Rightarrow> bool \<times> World" where
  "IsShutingDown w = (case w_shutdown w of [] \<Rightarrow> (False, w) | b # bs \<Rightarrow> (b, w\<lparr>w_shutdown := bs\<rparr>))"

definition IsDropped :: "World \<Rightarrow> bool \<times> World" where
  "IsDropped w = (case w_dropped w of [] \<Rightarrow> (False, w) | b # bs \<Rightarrow> (b, w\<lparr>w_dropped := bs\<rparr>))"

definition w_fileset :: "World \<Rightarrow> BlobFileSet" where
  "w_fileset w = tb_fileset (w_db w)"

definition set_fileset :: "BlobFileSet \<Rightarrow> World \<Rightarrow> World" where
  "set_fileset fs w = w\<lparr>w_db := (w_db w)\<lparr>tb_fileset := fs\<rparr>\<rparr>"

definition w_storage :: "World \<Rightarrow> u32 \<Rightarrow> BlobStorage option" where
  "w_storage w cf = db_storage (w_db w) cf"

section \<open>Base database\<close>

text \<open>A write takes one sequence number.\<close>

definition base_put :: "bytes \<Rightarrow> base_entry option \<Rightarrow> World \<Rightarrow> World" where
  "base_put key e w =
     w\<lparr>w_base := (w_base w)(key := e), w_db := (w_db w)\<lparr>tb_sequence := tb_sequence (w_db w) + 1\<rparr>\<rparr>"

definition others :: "World \<Rightarrow> World" where
  "others w =
     (case w_writes w of
        [] \<Rightarrow> w
      | ws # wss \<Rightarrow> fold (\<lambda>(key, e). base_put key e) ws (w\<lparr>w_writes := wss\<rparr>))"

definition base_status :: "World \<Rightarrow> status \<times> World" where
  "base_status w =
     (case w_base_io w of
        [] \<Rightarrow> (OK, w)
      | r # rs \<Rightarrow> (case r of None \<Rightarrow> OK | Some e \<Rightarrow> IOError e, w\<lparr>w_base_io := rs\<rparr>))"

text \<open>\<open>DBImpl::GetImpl\<close>: the status, the value and whether it is a blob index.\<close>

definition base_read :: "bytes \<Rightarrow> World \<Rightarrow> (status \<times> bytes \<times> bool) \<times> World" where
  "base_read key w =
     (let (s, w) = base_status w in
      if s \<noteq> OK then ((s, [], False), w)
      else (case w_base w key of
              None \<Rightarrow> ((NotFound [], [], False), w)
            | Some (v, is_blob_index) \<Rightarrow> ((OK, v, is_blob_index), w)))"

definition base_GetImpl :: "bytes \<Rightarrow> World \<Rightarrow> (status \<times> bytes \<times> bool) \<times> World" where
  "base_GetImpl key w = base_read key (others w)"

datatype WriteOp = PutOp u32 bytes bytes | PutBlobIndexOp u32 bytes bytes

type_synonym WriteBatch = "WriteOp list"

definition WriteBatch_Put :: "WriteBatch \<Rightarrow> u32 \<Rightarrow> bytes \<Rightarrow> bytes \<Rightarrow> status \<times> WriteBatch" where
  "WriteBatch_Put b cf key v =
     (if length key > 0xFFFFFFFF then (InvalidArgument ''key is too large'', b)
      else if length v > 0xFFFFFFFF then (InvalidArgument ''value is too large'', b)
      else (OK, b @ [PutOp cf key v]))"

definition WriteBatch_PutBlobIndex :: "WriteBatch \<Rightarrow> u32 \<Rightarrow> bytes \<Rightarrow> bytes \<Rightarrow> status \<times> WriteBatch" where
  "WriteBatch_PutBlobIndex b cf key v = (OK, b @ [PutBlobIndexOp cf key v])"

text \<open>The representation: twelve bytes for the sequence and the count, then the operations.\<close>

definition op_header :: "byte \<Rightarrow> byte \<Rightarrow> u32 \<Rightarrow> bytes" where
  "op_header type cf_type cf = (if cf = 0 then [type] else PutVarint32 [cf_type] cf)"

fun op_rep :: "WriteOp \<Rightarrow> bytes" where
  "op_rep (PutOp cf key v) =
     PutLengthPrefixedSlice (PutLengthPrefixedSlice (op_header 0x1 0x5 cf) key) v"
| "op_rep (PutBlobIndexOp cf key v) =
     PutLengthPrefixedSlice (PutLengthPrefixedSlice (op_header 0x11 0x10 cf) key) v"

definition GetDataSize :: "WriteBatch \<Rightarrow> u64" where
  "GetDataSize b = of_nat (12 + length (concat (map op_rep b)))"

fun apply_op :: "WriteOp \<Rightarrow> World \<Rightarrow> World" where
  "apply_op (PutOp cf key v) w = base_put key (Some (v, False)) w"
| "apply_op (PutBlobIndexOp cf key v) w = base_put key (Some (v, True)) w"

definition base_commit :: "WriteBatch \<Rightarrow> World \<Rightarrow> status \<times> World" where
  "base_commit b w = (let (s, w) = base_status w in (s, if s = OK then fold apply_op b w else w))"

definition base_Write :: "WriteBatch \<Rightarrow> World \<Rightarrow> status \<times> World" where
  "base_Write b w = base_commit b (others w)"

definition FlushWAL :: "World \<Rightarrow> status \<times> World" where
  "FlushWAL w = base_status (others w)"

section \<open>Reading\<close>

text \<open>Opening a file for random access.\<close>

definition NewRandomAccessFile :: "u64 \<Rightarrow> World \<Rightarrow> status + RandomAccessFile" where
  "NewRandomAccessFile number w =
     (case w_files w number of
        None \<Rightarrow> Inl (IOError ''No such file or directory'')
      | Some data \<Rightarrow> Inr \<lparr>rf_data = data, rf_io = []\<rparr>)"

definition NewBlobFileReader :: "u64 \<Rightarrow> World \<Rightarrow> status + RandomAccessFile" where
  "NewBlobFileReader file_number w = NewRandomAccessFile file_number w"

definition Cache_FindFile :: "BlobLib \<Rightarrow> u64 \<Rightarrow> u64 \<Rightarrow> World \<Rightarrow> ((status + BlobFileReader) \<times> World) option" where
  "Cache_FindFile lib file_number file_size w =
     (case w_readers w file_number of
        Some rd \<Rightarrow> Some (Inr rd, w)
      | None \<Rightarrow>
          (case NewRandomAccessFile file_number w of
             Inl s \<Rightarrow> Some (Inl s, w)
           | Inr f \<Rightarrow>
               (case BlobFileReader_Open lib (w_prefix w file_number) f file_size of
                  None \<Rightarrow> None
                | Some (Inl s) \<Rightarrow> Some (Inl s, w)
                | Some (Inr rd) \<Rightarrow> Some (Inr rd, w\<lparr>w_readers := (w_readers w)(file_number \<mapsto> rd)\<rparr>))))"

definition Cache_Get :: "BlobLib \<Rightarrow> u64 \<Rightarrow> u64 \<Rightarrow> BlobHandle \<Rightarrow> World \<Rightarrow> ((status + BlobRecord) \<times> World) option" where
  "Cache_Get lib file_number file_size h w =
     (case Cache_FindFile lib file_number file_size w of
        None \<Rightarrow> None
      | Some (Inl s, w) \<Rightarrow> Some (Inl s, w)
      | Some (Inr rd, w) \<Rightarrow>
          map_option (\<lambda>(r, rd, cache). (r, w\<lparr>w_readers := (w_readers w)(file_number \<mapsto> rd), w_cache := cache\<rparr>))
            (Reader_Get lib h rd (w_cache w)))"

definition Cache_NewPrefetcher :: "BlobLib \<Rightarrow> u64 \<Rightarrow> u64 \<Rightarrow> World \<Rightarrow> ((status + BlobFilePrefetcher) \<times> World) option" where
  "Cache_NewPrefetcher lib file_number file_size w =
     map_option (\<lambda>(r, w). (case r of Inl s \<Rightarrow> Inl s
         | Inr rd \<Rightarrow> Inr \<lparr>pf_reader = rd, pf_last_offset = 0, pf_readahead_size = 0, pf_readahead_limit = 0\<rparr>, w))
       (Cache_FindFile lib file_number file_size w)"

definition Cache_Evict :: "u64 \<Rightarrow> World \<Rightarrow> World" where
  "Cache_Evict file_number w = w\<lparr>w_readers := (w_readers w)(file_number := None)\<rparr>"

definition Storage_Get :: "BlobLib \<Rightarrow> BlobStorage \<Rightarrow> BlobIndex \<Rightarrow> World \<Rightarrow> ((status + BlobRecord) \<times> World) option" where
  "Storage_Get lib bs index w =
     (case FindFile bs (bi_file_number index) of
        None \<Rightarrow> Some (Inl (Corruption (''Missing blob file: '' @ nat_digits (unat (bi_file_number index)))), w)
      | Some f \<Rightarrow> Cache_Get lib (fm_number f) (fm_size f) (bi_handle index) w)"

definition Storage_NewPrefetcher :: "BlobLib \<Rightarrow> BlobStorage \<Rightarrow> u64 \<Rightarrow> World \<Rightarrow> ((status + BlobFilePrefetcher) \<times> World) option" where
  "Storage_NewPrefetcher lib bs file_number w =
     (case FindFile bs file_number of
        None \<Rightarrow> Some (Inl (Corruption (''Missing blob wfile: '' @ nat_digits (unat file_number))), w)
      | Some f \<Rightarrow> Cache_NewPrefetcher lib (fm_number f) (fm_size f) w)"

text \<open>\<open>GetImpl\<close> after the base database has given an entry.\<close>

definition read_entry :: "BlobLib \<Rightarrow> u32 \<Rightarrow> base_entry \<Rightarrow> World \<Rightarrow> ((status \<times> bytes) \<times> World) option" where
  "read_entry lib cf e w =
     (let (v, is_blob_index) = e in
      if \<not> is_blob_index then Some ((OK, v), w)
      else
        (case BlobIndex_DecodeFrom BlobIndex_zero v of
           Inl s \<Rightarrow> None
         | Inr (index, _) \<Rightarrow>
             (case mutex_Lock w of
                None \<Rightarrow> None
              | Some w \<Rightarrow>
                  (let w = mutex_Unlock w in
                   case w_storage w cf of
                     None \<Rightarrow> Some ((NotFound (''Column family id: '' @ nat_digits (unat cf) @ '' not Found.''), v), w)
                   | Some bs \<Rightarrow>
                       map_option (\<lambda>(r, w). (case r of Inl s \<Rightarrow> (s, v) | Inr record \<Rightarrow> (OK, rec_value record), w))
                         (Storage_Get lib bs index w)))))"

definition Titan_GetImpl :: "BlobLib \<Rightarrow> u32 \<Rightarrow> bytes \<Rightarrow> World \<Rightarrow> ((status \<times> bytes) \<times> World) option" where
  "Titan_GetImpl lib cf key w =
     (let ((s, v, is_blob_index), w) = base_GetImpl key w in
      if s \<noteq> OK then Some ((s, v), w) else read_entry lib cf (v, is_blob_index) w)"

fun MultiGetImpl :: "BlobLib \<Rightarrow> (u32 \<times> bytes) list \<Rightarrow> World \<Rightarrow> ((status \<times> bytes) list \<times> World) option" where
  "MultiGetImpl lib [] w = Some ([], w)"
| "MultiGetImpl lib ((cf, key) # keys) w =
     (case Titan_GetImpl lib cf key w of
        None \<Rightarrow> None
      | Some (r, w) \<Rightarrow> map_option (\<lambda>(rs, w). (r # rs, w)) (MultiGetImpl lib keys w))"

section \<open>Blob file manager\<close>

definition NewFile :: "World \<Rightarrow> ((status + u64 \<times> WritableFile) \<times> World) option" where
  "NewFile w =
     (let (number, fs) = NewFileNumber (w_fileset w);
          w = set_fileset fs w;
          ((s, io), w) = (case w_new_files w of [] \<Rightarrow> ((OK, []), w) | f # fs \<Rightarrow> (f, w\<lparr>w_new_files := fs\<rparr>)) in
      if s \<noteq> OK then Some (Inl s, w)
      else map_option (\<lambda>w. (Inr (number, \<lparr>wf_data = [], wf_io = io\<rparr>),
                            mutex_Unlock (w\<lparr>w_pending := List.insert number (w_pending w)\<rparr>)))
             (mutex_Lock w))"

text \<open>The error that stops user writes; there are no listeners to clear it.\<close>

definition SetBGError :: "status \<Rightarrow> World \<Rightarrow> World" where
  "SetBGError s w = (if s = OK then w else w\<lparr>w_bg_error := s\<rparr>)"

definition Titan_Put :: "u32 \<Rightarrow> bytes \<Rightarrow> bytes \<Rightarrow> World \<Rightarrow> status \<times> World" where
  "Titan_Put cf key v w =
     (if w_bg_error w \<noteq> OK then (w_bg_error w, w)
      else (let (s, b) = WriteBatch_Put [] cf key v in if s \<noteq> OK then (s, w) else base_Write b w))"

definition Titan_Write :: "WriteBatch \<Rightarrow> World \<Rightarrow> status \<times> World" where
  "Titan_Write updates w = (if w_bg_error w \<noteq> OK then (w_bg_error w, w) else base_Write updates w)"

definition Titan_Delete :: "u32 \<Rightarrow> bytes \<Rightarrow> World \<Rightarrow> status \<times> World" where
  "Titan_Delete cf key w =
     (if w_bg_error w \<noteq> OK then (w_bg_error w, w)
      else (let (s, w) = base_status (others w) in (s, if s = OK then base_put key None w else w)))"

text \<open>
  A finished file: its metadata, the number of its handle and the file.  The loop syncs and closes; the bytes
  of a closed file are on disk.
\<close>

type_synonym finished = "BlobFileMeta \<times> u64 \<times> WritableFile"

fun sync_files :: "finished list \<Rightarrow> VersionEdit \<Rightarrow> World \<Rightarrow> (status + VersionEdit) \<times> World" where
  "sync_files [] edit w = (Inr edit, w)"
| "sync_files ((f, number, file) # files) edit w =
     (let (s, file) = wf_next file;
          (s, file) = (if s = OK then wf_next file else (s, file)) in
      if s \<noteq> OK then (Inl s, w)
      else sync_files files (VersionEdit_AddBlobFile f edit) (w\<lparr>w_files := (w_files w)(number \<mapsto> wf_data file)\<rparr>))"

definition dir_Fsync :: "World \<Rightarrow> status \<times> World" where
  "dir_Fsync w = (case w_dir_io w of [] \<Rightarrow> (OK, w) | s # ss \<Rightarrow> (s, w\<lparr>w_dir_io := ss\<rparr>))"

definition erase_pending :: "u64 list \<Rightarrow> World \<Rightarrow> World" where
  "erase_pending numbers w = w\<lparr>w_pending := filter (\<lambda>n. n \<notin> set numbers) (w_pending w)\<rparr>"

definition BatchFinishFiles :: "u32 \<Rightarrow> finished list \<Rightarrow> World \<Rightarrow> (status \<times> World) option" where
  "BatchFinishFiles cf_id files w =
     (case sync_files files (SetColumnFamilyID cf_id VersionEdit_new) w of
        (Inl s, w) \<Rightarrow> Some (s, w)
      | (Inr edit, w) \<Rightarrow>
          (let (s, w) = dir_Fsync w in
           if s \<noteq> OK then Some (s, w)
           else
             (case mutex_Lock w of
                None \<Rightarrow> None
              | Some w \<Rightarrow>
                  map_option (\<lambda>(s, fs). (s, mutex_Unlock (erase_pending (map (fst \<circ> snd) files) (SetBGError s (set_fileset fs w)))))
                    (LogAndApply edit (w_fileset w)))))"

text \<open>Only the outcome of the last deletion is kept.\<close>

fun delete_files_loop :: "u64 list \<Rightarrow> status \<Rightarrow> World \<Rightarrow> status \<times> World" where
  "delete_files_loop [] s w = (s, w)"
| "delete_files_loop (number # numbers) s w =
     (let (s, w) = dir_Fsync w in
      delete_files_loop numbers s (if s = OK then w\<lparr>w_files := (w_files w)(number := None)\<rparr> else w))"

definition BatchDeleteFiles :: "u64 list \<Rightarrow> World \<Rightarrow> (status \<times> World) option" where
  "BatchDeleteFiles numbers w =
     (let (s, w) = delete_files_loop numbers OK w
      in map_option (\<lambda>w. (s, mutex_Unlock (erase_pending numbers w))) (mutex_Lock w))"

end
