(* ===== verification/Titan_GCJob.thy ===== *)
theory Titan_GCJob
  imports Titan_Read
begin

text \<open>
  The garbage collection of the picked blob files (\<open>blob_gc_job.cc\<close>): live records are copied to a
  new blob file, the file is installed, the indices in the base database are written back under a
  check that nobody has changed them, and the inputs are marked obsolete.  The collection on the
  hardware has the result of the kernel as a parameter.  A failed assertion, a null pointer, an index outside a vector and
  a mutex that is never released have the value \<open>None\<close>; times are left out of the metrics.
\<close>

section \<open>State\<close>

record WriteCallback =
  cb_key :: bytes
  cb_blob_index :: BlobIndex
  cb_new_blob_index :: BlobIndex
  cb_read_bytes :: u64

text \<open>The constructor asserts that the key is not empty.\<close>

definition WriteCallback_new :: "bytes \<Rightarrow> BlobIndex \<Rightarrow> BlobIndex \<Rightarrow> WriteCallback option" where
  "WriteCallback_new key blob_index new_blob_index =
     (if key = [] then None
      else Some \<lparr>cb_key = key, cb_blob_index = blob_index, cb_new_blob_index = new_blob_index, cb_read_bytes = 0\<rparr>)"

definition Callback :: "WriteCallback \<Rightarrow> World \<Rightarrow> (status \<times> WriteCallback) \<times> World" where
  "Callback cb w =
     (let ((s, index_entry, is_blob_index), w) = base_read (cb_key cb) w in
      if s \<noteq> OK \<and> \<not> IsNotFound s then ((s, cb), w)
      else
        (let cb = cb\<lparr>cb_read_bytes := of_nat (length (cb_key cb) + length index_entry)\<rparr>;
             s = (if IsNotFound s then Busy ''key deleted''
                  else if \<not> is_blob_index then Busy ''key overwritten with other value'' else s) in
         if s \<noteq> OK then ((s, cb), w)
         else
           (case BlobIndex_DecodeFrom BlobIndex_zero index_entry of
              Inl s \<Rightarrow> ((s, cb), w)
            | Inr (other_blob_index, _) \<Rightarrow>
                ((if \<not> BlobIndex_eq (cb_blob_index cb) other_blob_index
                  then Busy ''key overwritten with other blob'' else OK, cb), w))))"

text \<open>The base database runs the callback in its write thread: no other write comes in between.\<close>

definition base_WriteWithCallback :: "WriteBatch \<Rightarrow> WriteCallback \<Rightarrow> World \<Rightarrow> (status \<times> WriteCallback) \<times> World" where
  "base_WriteWithCallback b cb w =
     (let ((s, cb), w) = Callback cb (others w) in
      if s \<noteq> OK then ((s, cb), w) else (let (s, w) = base_commit b w in ((s, cb), w)))"

record GCMetrics =
  gm_bytes_read :: u64
  gm_bytes_written :: u64
  gm_num_keys_overwritten :: u64
  gm_bytes_overwritten :: u64
  gm_num_keys_relocated :: u64
  gm_bytes_relocated :: u64
  gm_num_keys_fallback :: u64
  gm_bytes_fallback :: u64
  gm_num_new_files :: u64
  gm_num_files :: u64
  gm_num_read_lsm :: u64
  gm_num_read_blob :: u64
  gm_num_write_back :: u64

definition GCMetrics_zero :: GCMetrics where
  "GCMetrics_zero = \<lparr>gm_bytes_read = 0, gm_bytes_written = 0, gm_num_keys_overwritten = 0, gm_bytes_overwritten = 0,
     gm_num_keys_relocated = 0, gm_bytes_relocated = 0, gm_num_keys_fallback = 0, gm_bytes_fallback = 0,
     gm_num_new_files = 0, gm_num_files = 0, gm_num_read_lsm = 0, gm_num_read_blob = 0, gm_num_write_back = 0\<rparr>"

text \<open>
  The inputs are shared pointers: their numbers are in the \<open>BlobGC\<close>, their sizes, which never
  change, are \<open>gj_input_size\<close>, the rest of the metadata is that of the storage.
\<close>

record GCJob =
  gj_gc :: BlobGC
  gj_opts :: BuilderOptions
  gj_cf :: u32
  gj_input_size :: "u64 \<Rightarrow> u64"
  gj_builders :: "(u64 \<times> BlobFileBuilder) list"
  gj_batches :: "(WriteBatch \<times> WriteCallback) list"
  gj_metrics :: GCMetrics
  gj_use_bitmap :: bool
  gj_offload :: bool
  gj_hardware_file :: "BlobFileMeta option"
  gj_hardware_metrics :: "u64 list"

definition GCJob_new :: "BlobGC \<Rightarrow> BuilderOptions \<Rightarrow> u32 \<Rightarrow> (u64 \<Rightarrow> u64) \<Rightarrow> bool \<Rightarrow> GCJob" where
  "GCJob_new gc opts cf sizes hardware =
     \<lparr>gj_gc = gc, gj_opts = opts, gj_cf = cf, gj_input_size = sizes, gj_builders = [], gj_batches = [],
      gj_metrics = GCMetrics_zero, gj_use_bitmap = co_use_bitmap opts, gj_offload = hardware,
      gj_hardware_file = None, gj_hardware_metrics = []\<rparr>"

definition count_metrics :: "(GCMetrics \<Rightarrow> GCMetrics) \<Rightarrow> GCJob \<Rightarrow> GCJob" where
  "count_metrics f j = j\<lparr>gj_metrics := f (gj_metrics j)\<rparr>"

section \<open>Internal keys\<close>

abbreviation kTypeValue :: byte where "kTypeValue \<equiv> 1"

definition PackSequenceAndType :: "u64 \<Rightarrow> byte \<Rightarrow> u64" where
  "PackSequenceAndType seq t = push_bit 8 seq OR ucast t"

definition InternalKey :: "bytes \<Rightarrow> u64 \<Rightarrow> byte \<Rightarrow> bytes" where
  "InternalKey user_key seq t = PutFixed64 user_key (PackSequenceAndType seq t)"

definition IsExtendedValueType :: "byte \<Rightarrow> bool" where
  "IsExtendedValueType t \<longleftrightarrow> t \<le> 0x2 \<or> t = 0x7 \<or> t = 0x11 \<or> t = 0x14 \<or> t = 0xF"

definition ParseInternalKey :: "bytes \<Rightarrow> (status + bytes \<times> u64 \<times> byte) option" where
  "ParseInternalKey k =
     (if length k < 8
      then Some (Inl (Corruption (''Corrupted Key: Internal Key too small. Size='' @ nat_digits (length k) @ ''. '')))
      else
        (let n = length k - 8; num = DecodeFixed64 (drop n k); t = ucast num :: byte in
         if t > 0x7F then None
         else if IsExtendedValueType t then Some (Inr (take n k, drop_bit 8 num, t))
         else Some (Inl (Corruption ''Corrupted Key''))))"

section \<open>Collecting the live records\<close>

fun BatchWriteNewIndices :: "BlobRecordContext list \<Rightarrow> status \<Rightarrow> GCJob \<Rightarrow> (status \<times> GCJob) option" where
  "BatchWriteNewIndices [] s j = Some (s, j)"
| "BatchWriteNewIndices (ctx # contexts) s j =
     (let blob_index = BlobIndex_zero\<lparr>bi_file_number := bi_file_number (rc_new_blob_index ctx),
            bi_handle := bi_handle (rc_new_blob_index ctx)\<rparr> in
      case ParseInternalKey (rc_key ctx) of
        None \<Rightarrow> None
      | Some (Inl s) \<Rightarrow> Some (s, j)
      | Some (Inr (user_key, _, _)) \<Rightarrow>
          (case WriteCallback_new user_key (rc_original_blob_index ctx) blob_index of
             None \<Rightarrow> None
           | Some cb \<Rightarrow>
               (let (s, wb) = WriteBatch_PutBlobIndex [] (gj_cf j) user_key (BlobIndex_EncodeTo [] blob_index);
                    j = j\<lparr>gj_batches := gj_batches j @ [(wb, cb)]\<rparr>
                in if s \<noteq> OK then Some (s, j) else BatchWriteNewIndices contexts s j)))"

text \<open>The iterators of the inputs up to the first file that cannot be opened.\<close>

fun open_inputs :: "GCJob \<Rightarrow> u64 list \<Rightarrow> World \<Rightarrow> status \<times> BlobFileIterator list" where
  "open_inputs j [] w = (OK, [])"
| "open_inputs j (n # ns) w =
     (case NewBlobFileReader n w of
        Inl s \<Rightarrow> (s, [])
      | Inr f \<Rightarrow>
          (let (s, its) = open_inputs j ns w
           in (s, BlobFileIterator_new f n (gj_input_size j n) (co_min_blob_size (gj_opts j)) (- 1) # its)))"

text \<open>The bitmaps of the inputs; \<open>Inl\<close> for a return with an error.\<close>

definition copy_bitmap :: "BlobStorage \<Rightarrow> u64 \<Rightarrow> (status + BitMap) option" where
  "copy_bitmap bs n =
     (case FindFile bs n of
        None \<Rightarrow> Some (Inl (NotFound ''BlobGC::BuildIterator: File not Found.''))
      | Some f \<Rightarrow>
          if is_obsolete f then Some (Inl (NotFound ''BlobGC::BuildIterator: File not Found.''))
          else (case CopyInvalidEntryIndexesTo f BitMap_default of
                  None \<Rightarrow> None
                | Some (s, bm) \<Rightarrow> if s \<noteq> OK then None else Some (Inr bm)))"

fun set_bitmaps :: "BlobStorage \<Rightarrow> BlobFileIterator list \<Rightarrow> (status + BlobFileIterator list) option" where
  "set_bitmaps bs [] = Some (Inr [])"
| "set_bitmaps bs (it # its) =
     (case copy_bitmap bs (it_file_number it) of
        None \<Rightarrow> None
      | Some (Inl s) \<Rightarrow> Some (Inl s)
      | Some (Inr bm) \<Rightarrow>
          map_option (\<lambda>r. case r of Inl s \<Rightarrow> Inl s | Inr its \<Rightarrow> Inr (SetBitMap bm it # its)) (set_bitmaps bs its))"

text \<open>
  A return between \<open>Lock\<close> and \<open>Unlock\<close> leaves the mutex locked.  With bitmaps the status of the loop
  over the inputs is overwritten by that of the copying.
\<close>

definition BuildIterator :: "GCJob \<Rightarrow> World \<Rightarrow> ((status + BlobFileMergeIterator) \<times> World) option" where
  "BuildIterator j w =
     (if gc_inputs (gj_gc j) = [] then None
      else
        (let (s, its) = open_inputs j (gc_inputs (gj_gc j)) w;
             finish = (\<lambda>s its w. (if s = OK then Inr (BlobFileMergeIterator_new its (co_less (gj_opts j))) else Inl s, w)) in
         if \<not> gj_use_bitmap j then Some (finish s its w)
         else
           (case mutex_Lock w of
              None \<Rightarrow> None
            | Some w \<Rightarrow>
                (case w_storage w (gj_cf j) of
                   None \<Rightarrow> Some (Inl (NotFound ''BlobGC::BuildIterator: Column family not Found.''), w)
                 | Some bs \<Rightarrow>
                     (case set_bitmaps bs its of
                        None \<Rightarrow> None
                      | Some (Inl s) \<Rightarrow> Some (Inl s, w)
                      | Some (Inr its') \<Rightarrow> Some (finish (if its = [] then s else OK) its' (mutex_Unlock w)))))))"

definition DiscardEntry :: "bytes \<Rightarrow> BlobIndex \<Rightarrow> GCJob \<Rightarrow> World \<Rightarrow> (status + bool) \<times> GCJob \<times> World" where
  "DiscardEntry key blob_index j w =
     (let ((s, index_entry, is_blob_index), w) = base_GetImpl key w in
      if s \<noteq> OK \<and> \<not> IsNotFound s then (Inl s, j, w)
      else
        (let j = count_metrics (\<lambda>m. m\<lparr>gm_bytes_read := gm_bytes_read m + of_nat (length key + length index_entry),
                                       gm_num_read_lsm := gm_num_read_lsm m + 1\<rparr>) j in
         if IsNotFound s \<or> \<not> is_blob_index then (Inr True, j, w)
         else
           (case BlobIndex_DecodeFrom BlobIndex_zero index_entry of
              Inl s \<Rightarrow> (Inl s, j, w)
            | Inr (other_blob_index, _) \<Rightarrow> (Inr (\<not> BlobIndex_eq blob_index other_blob_index), j, w))))"

text \<open>The variables of the loop of \<open>DoRunGC\<close>; \<open>gl_out\<close> is the open output file with its builder.\<close>

record GCLoop =
  gl_job :: GCJob
  gl_world :: World
  gl_iter :: BlobFileMergeIterator
  gl_out :: "(u64 \<times> BlobFileBuilder) option"
  gl_file_size :: u64
  gl_last_key :: bytes
  gl_fresh :: bool
  gl_status :: status

definition current_iter :: "BlobFileMergeIterator \<Rightarrow> BlobFileIterator option" where
  "current_iter mi = (case mi_current mi of None \<Rightarrow> None | Some c \<Rightarrow> Some (mi_iters mi ! c))"

text \<open>Whether the current record can be left behind.\<close>

definition discardable :: "BlobFileIterator \<Rightarrow> GCLoop \<Rightarrow> ((status + bool) \<times> GCLoop) option" where
  "discardable it st =
     (if gj_use_bitmap (gl_job st) then map_option (\<lambda>b. (Inr (\<not> b), st)) (ValidateByBitMap it)
      else
        (let (r, j, w) = DiscardEntry (rec_key (it_record it)) (GetBlobIndex it) (gl_job st) (gl_world st)
         in Some (r, st\<lparr>gl_job := j, gl_world := w\<rparr>)))"

text \<open>The output file to write to: \<open>Inl\<close> when a new one cannot be created.\<close>

definition output_file :: "BlobLib \<Rightarrow> GCLoop \<Rightarrow> ((status + u64 \<times> BlobFileBuilder) \<times> GCLoop) option" where
  "output_file lib st =
     (let full = (gl_file_size st \<ge> co_target_size (gj_opts (gl_job st))) in
      case gl_out st of
        Some out \<Rightarrow>
          if \<not> full then Some (Inr out, st)
          else if bb_status (snd out) \<noteq> OK then None
          else
            (let st = st\<lparr>gl_out := None, gl_job := (gl_job st)\<lparr>gj_builders := gj_builders (gl_job st) @ [out]\<rparr>\<rparr> in
             case NewFile (gl_world st) of
               None \<Rightarrow> None
             | Some (Inl s, w) \<Rightarrow> Some (Inl s, st\<lparr>gl_world := w\<rparr>)
             | Some (Inr (n, file), w) \<Rightarrow>
                 map_option (\<lambda>b. (Inr (n, b), st\<lparr>gl_world := w, gl_file_size := 0\<rparr>))
                   (BlobFileBuilder_new lib (gj_opts (gl_job st)) file kVersion2))
      | None \<Rightarrow>
          if full then None
          else
            (case NewFile (gl_world st) of
               None \<Rightarrow> None
             | Some (Inl s, w) \<Rightarrow> Some (Inl s, st\<lparr>gl_world := w\<rparr>)
             | Some (Inr (n, file), w) \<Rightarrow>
                 map_option (\<lambda>b. (Inr (n, b), st\<lparr>gl_world := w, gl_file_size := 0\<rparr>))
                   (BlobFileBuilder_new lib (gj_opts (gl_job st)) file kVersion2)))"

text \<open>Writing a record to the output; the value says whether the loop goes on.\<close>

definition rewrite_record :: "BlobLib \<Rightarrow> BlobRecord \<Rightarrow> BlobIndex \<Rightarrow> GCLoop \<Rightarrow> (bool \<times> GCLoop) option" where
  "rewrite_record lib record blob_index st =
     (case output_file lib st of
        None \<Rightarrow> None
      | Some (Inl s, st) \<Rightarrow> Some (False, st\<lparr>gl_status := s\<rparr>)
      | Some (Inr (n, b), st) \<Rightarrow>
          (let j = count_metrics (\<lambda>m. m\<lparr>gm_bytes_written := gm_bytes_written m + of_nat (BlobRecord_size record)\<rparr>) (gl_job st);
               ctx = \<lparr>rc_key = InternalKey (rec_key record) 1 kTypeValue, rc_original_blob_index = blob_index,
                      rc_new_blob_index = BlobIndex_zero\<lparr>bi_file_number := n\<rparr>, rc_has_value = False, rc_value = []\<rparr> in
           case Builder_Add lib record ctx b of
             None \<Rightarrow> None
           | Some (b, contexts) \<Rightarrow>
               map_option (\<lambda>(s, j). (s = OK, st\<lparr>gl_out := Some (n, b), gl_job := j, gl_status := s\<rparr>))
                 (BatchWriteNewIndices contexts (gl_status st) j)))"

definition rewrite_inline :: "BlobRecord \<Rightarrow> BlobIndex \<Rightarrow> GCLoop \<Rightarrow> (bool \<times> GCLoop) option" where
  "rewrite_inline record blob_index st =
     map_option (\<lambda>cb.
         let j = gl_job st;
             (s, wb) = WriteBatch_Put [] (gj_cf j) (rec_key record) (rec_value record)
         in (s = OK, st\<lparr>gl_job := j\<lparr>gj_batches := gj_batches j @ [(wb, cb)]\<rparr>, gl_status := s\<rparr>))
       (WriteCallback_new (rec_key record) blob_index BlobIndex_zero)"

text \<open>The body of the loop.\<close>

definition gc_entry :: "BlobLib \<Rightarrow> GCLoop \<Rightarrow> (bool \<times> GCLoop) option" where
  "gc_entry lib st =
     (case current_iter (gl_iter st) of
        None \<Rightarrow> None
      | Some it \<Rightarrow>
          (let (shut, w) = IsShutingDown (gl_world st);
               st = st\<lparr>gl_world := w\<rparr> in
           if shut then Some (False, st\<lparr>gl_status := ShutdownInProgress\<rparr>)
           else
             (let blob_index = GetBlobIndex it;
                  record = it_record it;
                  st = st\<lparr>gl_job := count_metrics (\<lambda>m. m\<lparr>gm_bytes_read := gm_bytes_read m + bh_size (bi_handle blob_index)\<rparr>) (gl_job st)\<rparr>;
                  same = (gl_last_key st \<noteq> [] \<and> rec_key record = gl_last_key st) in
              if same \<and> gl_fresh st then Some (True, st)
              else
                (let st = (if same then st else st\<lparr>gl_last_key := rec_key record, gl_fresh := False\<rparr>) in
                 case discardable it st of
                   None \<Rightarrow> None
                 | Some (Inl s, st) \<Rightarrow> Some (False, st\<lparr>gl_status := s\<rparr>)
                 | Some (Inr True, st) \<Rightarrow>
                     Some (True, st\<lparr>gl_job := count_metrics (\<lambda>m. m\<lparr>gm_num_keys_overwritten := gm_num_keys_overwritten m + 1,
                        gm_bytes_overwritten := gm_bytes_overwritten m + bh_size (bi_handle blob_index)\<rparr>) (gl_job st)\<rparr>)
                 | Some (Inr False, st) \<Rightarrow>
                     (let st = (if gj_use_bitmap (gl_job st) then st else st\<lparr>gl_fresh := True\<rparr>) in
                      if co_blob_run_mode (gj_opts (gl_job st)) = kFallback
                      then rewrite_inline record blob_index st
                      else rewrite_record lib record blob_index st)))))"

definition iter_moved :: "GCLoop \<Rightarrow> BlobFileMergeIterator \<Rightarrow> GCLoop" where
  "iter_moved st mi =
     st\<lparr>gl_iter := mi, gl_job := count_metrics (\<lambda>m. m\<lparr>gm_num_read_blob := gm_num_read_blob m + 1\<rparr>) (gl_job st)\<rparr>"

partial_function (option) gc_loop :: "BlobLib \<Rightarrow> GCLoop \<Rightarrow> GCLoop option" where
  "gc_loop lib st =
     (if \<not> Merge_Valid (gl_iter st) then Some st
      else
        (case gc_entry lib st of
           None \<Rightarrow> None
         | Some (go_on, st) \<Rightarrow>
             if \<not> go_on then Some st
             else (case Merge_Next lib (gl_iter st) of
                     None \<Rightarrow> None
                   | Some mi \<Rightarrow> gc_loop lib (iter_moved st mi))))"

text \<open>After the loop.\<close>

definition gc_loop_end :: "GCLoop \<Rightarrow> (status \<times> GCJob \<times> World) option" where
  "gc_loop_end st =
     (let j = gl_job st; w = gl_world st in
      if Merge_status (gl_iter st) = OK \<and> gl_status st = OK then
        (case gl_out st of
           None \<Rightarrow> Some (gl_status st, j, w)
         | Some out \<Rightarrow>
             if bb_status (snd out) \<noteq> OK then None
             else Some (gl_status st, j\<lparr>gj_builders := gj_builders j @ [out]\<rparr>, w))
      else if Merge_status (gl_iter st) \<noteq> OK then Some (Merge_status (gl_iter st), j, w)
      else Some (gl_status st, j, w))"

definition DoRunGC :: "BlobLib \<Rightarrow> GCJob \<Rightarrow> World \<Rightarrow> (status \<times> GCJob \<times> World) option" where
  "DoRunGC lib j w =
     (case BuildIterator j w of
        None \<Rightarrow> None
      | Some (Inl s, w) \<Rightarrow> Some (s, j, w)
      | Some (Inr mi, w) \<Rightarrow>
          (case Merge_SeekToFirst lib mi of
             None \<Rightarrow> None
           | Some mi \<Rightarrow>
               if \<not> Merge_Valid mi then None
               else
                 (case gc_loop lib (iter_moved \<lparr>gl_job = j, gl_world = w, gl_iter = mi, gl_out = None, gl_file_size = 0,
                         gl_last_key = [], gl_fresh = False, gl_status = OK\<rparr> mi) of
                    None \<Rightarrow> None
                  | Some st \<Rightarrow> gc_loop_end st)))"

section \<open>Collecting on the hardware\<close>

text \<open>
  The driver: whether a compute unit is free, and what a run of the kernel gives for the contents of
  the inputs, their bitmaps and their numbers of entries: the keys with (new offset, input, old offset, size), the
  statistics, the number of entries and the size of the output, and the output file; \<open>None\<close> when the
  driver ends the process or accesses memory out of bounds.
\<close>

record HardwareGC =
  hw_free_cu :: bool
  hw_run :: "bytes list \<Rightarrow> BitMap list \<Rightarrow> u64 list \<Rightarrow>
    ((bytes \<times> u32 list) list \<times> u64 list \<times> u64 list \<times> bytes) option"

fun hardware_inputs :: "BlobStorage \<Rightarrow> u64 list \<Rightarrow> (status + (BitMap \<times> u64) list) option" where
  "hardware_inputs bs [] = Some (Inr [])"
| "hardware_inputs bs (n # ns) =
     (case copy_bitmap bs n of
        None \<Rightarrow> None
      | Some (Inl s) \<Rightarrow> Some (Inl s)
      | Some (Inr bm) \<Rightarrow>
          map_option (\<lambda>r. case r of Inl s \<Rightarrow> Inl s
             | Inr xs \<Rightarrow> Inr ((bm, case FindFile bs n of None \<Rightarrow> 0 | Some f \<Rightarrow> fm_entries f) # xs)) (hardware_inputs bs ns))"

definition hardware_index :: "u64 \<Rightarrow> u64 list \<Rightarrow> u64 \<Rightarrow> u32 list \<Rightarrow> (BlobIndex \<times> BlobIndex) option" where
  "hardware_index output_number inputs i index_meta =
     (if length index_meta < 4 \<or> unat (index_meta ! 1) \<ge> length inputs then None
      else
        (let origin = BlobIndex_zero\<lparr>bi_file_number := inputs ! unat (index_meta ! 1),
               bi_handle := BlobHandle_zero\<lparr>bh_offset := ucast (index_meta ! 2), bh_size := ucast (index_meta ! 3)\<rparr>\<rparr>
         in Some (origin,
              BlobIndex_zero\<lparr>bi_file_number := output_number,
                bi_handle := \<lparr>bh_offset = ucast (index_meta ! 0), bh_size = ucast (index_meta ! 3), bh_index = i\<rparr>,
                bi_old_file_number := bi_file_number origin,
                bi_old_handle := bi_handle origin\<rparr>)))"

text \<open>The write-back of the records the kernel has moved, and their smallest and largest key.\<close>

fun hardware_batches :: "u64 \<Rightarrow> (bytes \<times> u32 list) list \<Rightarrow> u64 \<Rightarrow> bytes \<times> bytes \<Rightarrow> GCJob \<Rightarrow>
    (status \<times> (bytes \<times> bytes) \<times> GCJob) option" where
  "hardware_batches output_number [] i rng j = Some (OK, rng, j)"
| "hardware_batches output_number ((key, index_meta) # keys) i (smallest_key, largest_key) j =
     (let lt = co_less (gj_opts j);
          (smallest_key, largest_key) = (if smallest_key = [] then (key, key) else (smallest_key, largest_key));
          smallest_key = (if lt key smallest_key then key else smallest_key);
          largest_key = (if lt largest_key key then key else largest_key) in
      case hardware_index output_number (gc_inputs (gj_gc j)) i index_meta of
        None \<Rightarrow> None
      | Some (origin, new) \<Rightarrow>
          (case WriteCallback_new key origin new of
             None \<Rightarrow> None
           | Some cb \<Rightarrow>
               (let (s, wb) = WriteBatch_PutBlobIndex [] (gj_cf j) key (BlobIndex_EncodeTo [] new);
                    j = j\<lparr>gj_batches := gj_batches j @ [(wb, cb)]\<rparr>
                in if s \<noteq> OK then Some (s, (smallest_key, largest_key), j)
                   else hardware_batches output_number keys (i + 1) (smallest_key, largest_key) j)))"

definition kernel_run :: "HardwareGC \<Rightarrow> (BitMap \<times> u64) list \<Rightarrow> GCJob \<Rightarrow> World \<Rightarrow> (status \<times> GCJob \<times> World) option" where
  "kernel_run hw xs j w =
     (let (output_number, fs) = NewFileNumber (w_fileset w);
          w = set_fileset fs w;
          contents = map (\<lambda>n. case w_files w n of None \<Rightarrow> [] | Some data \<Rightarrow> data) (gc_inputs (gj_gc j)) in
      case hw_run hw contents (map fst xs) (map snd xs) of
        None \<Rightarrow> None
      | Some (rewrite_keys, statistics, output_meta, data) \<Rightarrow>
          (let w = w\<lparr>w_files := (w_files w)(output_number \<mapsto> data)\<rparr> in
           case hardware_batches output_number rewrite_keys 0 ([], []) j of
             None \<Rightarrow> None
           | Some (s, (smallest_key, largest_key), j) \<Rightarrow>
               if s \<noteq> OK then Some (s, j, w)
               else if length output_meta < 2 \<or> length statistics < 5 then None
               else
                 map_option (\<lambda>f. (OK, j\<lparr>gj_hardware_file := Some f, gj_hardware_metrics := take 5 statistics\<rparr>, w))
                   (FileStateTransit GCOutput
                     ((BlobFileMeta_new output_number (output_meta ! 1) (output_meta ! 0) 0 smallest_key largest_key)
                       \<lparr>fm_live := output_meta ! 1\<rparr>))))"

definition DoRunGCOnHardware :: "BlobLib \<Rightarrow> HardwareGC \<Rightarrow> GCJob \<Rightarrow> World \<Rightarrow> (status \<times> GCJob \<times> World) option" where
  "DoRunGCOnHardware lib hw j w =
     (if \<not> hw_free_cu hw then DoRunGC lib (j\<lparr>gj_offload := False\<rparr>) w
      else if gc_inputs (gj_gc j) = [] then None
      else
        (case mutex_Lock w of
           None \<Rightarrow> None
         | Some w \<Rightarrow>
             (case w_storage w (gj_cf j) of
                None \<Rightarrow> Some (NotFound ''BlobGC::BuildIterator: Column family not Found.'', j, w)
              | Some bs \<Rightarrow>
                  (case hardware_inputs bs (gc_inputs (gj_gc j)) of
                     None \<Rightarrow> None
                   | Some (Inl s) \<Rightarrow> Some (s, j, w)
                   | Some (Inr xs) \<Rightarrow> kernel_run hw xs j (mutex_Unlock w)))))"

definition GCJob_Run :: "BlobLib \<Rightarrow> HardwareGC \<Rightarrow> GCJob \<Rightarrow> World \<Rightarrow> (status \<times> GCJob \<times> World) option" where
  "GCJob_Run lib hw j w = (if gj_offload j then DoRunGCOnHardware lib hw j w else DoRunGC lib j w)"

section \<open>Installing the output\<close>

definition gc_output_meta :: "u64 \<Rightarrow> BlobFileBuilder \<Rightarrow> BlobFileMeta option" where
  "gc_output_meta n b =
     FileStateTransit GCOutput
       ((BlobFileMeta_new n (GetFileSize (bb_file b)) (bb_entries b) 0 (bb_smallest b) (bb_largest b))\<lparr>fm_live := bb_live b\<rparr>)"

text \<open>The loop that finishes the builders: the status, the finished files and the job.\<close>

fun finish_builders :: "BlobLib \<Rightarrow> (u64 \<times> BlobFileBuilder) list \<Rightarrow> finished list \<Rightarrow> GCJob \<Rightarrow>
    (status \<times> finished list \<times> GCJob) option" where
  "finish_builders lib [] files j = Some (OK, files, j)"
| "finish_builders lib ((n, b) # bs) files j =
     (case Builder_Finish lib b of
        None \<Rightarrow> None
      | Some ((s, b), contexts) \<Rightarrow>
          (case BatchWriteNewIndices contexts s j of
             None \<Rightarrow> None
           | Some (s, j) \<Rightarrow>
               if s \<noteq> OK then Some (s, files, j)
               else
                 (case gc_output_meta n b of
                    None \<Rightarrow> None
                  | Some f \<Rightarrow>
                      finish_builders lib bs (files @ [(f, n, bb_file b)])
                        (count_metrics (\<lambda>m. m\<lparr>gm_num_new_files := gm_num_new_files m + 1\<rparr>) j))))"

text \<open>
  When a builder fails after another has finished, the handle of that one has been moved away and the
  list of the files to delete goes through a null pointer.
\<close>

definition InstallOutputBlobFiles :: "BlobLib \<Rightarrow> GCJob \<Rightarrow> World \<Rightarrow> (status \<times> GCJob \<times> World) option" where
  "InstallOutputBlobFiles lib j w =
     (case finish_builders lib (gj_builders j) [] j of
        None \<Rightarrow> None
      | Some (s, files, j) \<Rightarrow>
          if s = OK then
            map_option (\<lambda>(s, w). (s, if s = OK
                then j\<lparr>gj_gc := fold (\<lambda>f. AddOutputFile (fm_number (fst f))) files (gj_gc j)\<rparr> else j, w))
              (BatchFinishFiles (gj_cf j) files w)
          else if files \<noteq> [] then None
          else map_option (\<lambda>(_, w). (s, j, w)) (BatchDeleteFiles (map fst (gj_builders j)) w))"

definition InstallHardwareOutputBlobFiles :: "GCJob \<Rightarrow> World \<Rightarrow> (status \<times> GCJob \<times> World) option" where
  "InstallHardwareOutputBlobFiles j w =
     (let j = count_metrics (\<lambda>m. m\<lparr>gm_num_new_files := gm_num_new_files m + 1\<rparr>) j in
      case gj_hardware_file j of
        None \<Rightarrow> None
      | Some f \<Rightarrow>
          (case mutex_Lock w of
             None \<Rightarrow> None
           | Some w \<Rightarrow>
               (case LogAndApply (VersionEdit_AddBlobFile f (SetColumnFamilyID (gj_cf j) VersionEdit_new)) (w_fileset w) of
                  None \<Rightarrow> None
                | Some (s, fs) \<Rightarrow>
                    if s \<noteq> OK then None
                    else Some (s, j\<lparr>gj_gc := AddOutputFile (fm_number f) (gj_gc j)\<rparr>, mutex_Unlock (set_fileset fs w)))))"

section \<open>Writing back\<close>

text \<open>The bytes and the records that were dropped, per output file.\<close>

record Dropped =
  dr_sizes :: "(u64 \<times> u64) list"
  dr_indexes :: "(u64 \<times> u64 list) list"

definition al_update :: "'k \<Rightarrow> 'v \<Rightarrow> ('v \<Rightarrow> 'v) \<Rightarrow> ('k \<times> 'v) list \<Rightarrow> ('k \<times> 'v) list" where
  "al_update k v f xs = (if k \<in> fst ` set xs then al_modify k f xs else xs @ [(k, v)])"

definition drop_record :: "BlobIndex \<Rightarrow> bool \<Rightarrow> Dropped \<Rightarrow> Dropped" where
  "drop_record bi use_bitmap d =
     (let n = bi_file_number bi; sz = bh_size (bi_handle bi); i = bh_index (bi_handle bi);
          d = d\<lparr>dr_sizes := al_update n sz (\<lambda>x. x + sz) (dr_sizes d)\<rparr>
      in if use_bitmap then d\<lparr>dr_indexes := al_update n [i] (\<lambda>is. is @ [i]) (dr_indexes d)\<rparr> else d)"

definition write_back_metrics :: "status \<Rightarrow> WriteBatch \<Rightarrow> WriteCallback \<Rightarrow> GCMetrics \<Rightarrow> GCMetrics" where
  "write_back_metrics s wb cb m =
     (if s = OK then
        (if bh_size (bi_handle (cb_new_blob_index cb)) > 0
         then m\<lparr>gm_bytes_written := gm_bytes_written m + GetDataSize wb, gm_num_keys_relocated := gm_num_keys_relocated m + 1,
                gm_bytes_relocated := gm_bytes_relocated m + bh_size (bi_handle (cb_blob_index cb))\<rparr>
         else m\<lparr>gm_num_keys_fallback := gm_num_keys_fallback m + 1,
                gm_bytes_fallback := gm_bytes_fallback m + bh_size (bi_handle (cb_blob_index cb))\<rparr>)
      else m\<lparr>gm_num_keys_overwritten := gm_num_keys_overwritten m + 1,
             gm_bytes_overwritten := gm_bytes_overwritten m + bh_size (bi_handle (cb_blob_index cb))\<rparr>)"

text \<open>The loop over the batches: the last status, what was dropped, the job and the database.\<close>

fun rewrite_loop :: "(WriteBatch \<times> WriteCallback) list \<Rightarrow> status \<Rightarrow> Dropped \<Rightarrow> GCJob \<Rightarrow> World \<Rightarrow>
    status \<times> Dropped \<times> GCJob \<times> World" where
  "rewrite_loop [] s d j w = (s, d, j, w)"
| "rewrite_loop ((wb, cb) # batches) s d j w =
     (let (gone, w) = IsDropped w in
      if gone then (Aborted ''Column family drop'', d, j, w)
      else
        (let (shut, w) = IsShutingDown w in
         if shut then (ShutdownInProgress, d, j, w)
         else
           (let ((s, cb), w) = (if gj_offload j then (let (s, w) = base_Write wb w in ((s, cb), w))
                                else base_WriteWithCallback wb cb w);
                j = count_metrics (\<lambda>m. m\<lparr>gm_num_write_back := gm_num_write_back m + 1\<rparr>) j in
            if s \<noteq> OK \<and> \<not> IsBusy s then (s, d, j, w)
            else
              rewrite_loop batches s (if s = OK then d else drop_record (cb_new_blob_index cb) (gj_use_bitmap j) d)
                (count_metrics (\<lambda>m. m\<lparr>gm_bytes_read := gm_bytes_read m + cb_read_bytes cb\<rparr>)
                  (count_metrics (write_back_metrics s wb cb) j)) w)))"

text \<open>The account of one output file; \<open>None\<close> when a bit cannot be set.\<close>

definition drop_account :: "bool \<Rightarrow> (u64 \<times> u64 list) list \<Rightarrow> u64 \<times> u64 \<Rightarrow> BlobStorage \<Rightarrow> BlobStorage option" where
  "drop_account use_bitmap indexes p bs =
     (let (n, sz) = p in
      case FindFile bs n of
        None \<Rightarrow> Some bs
      | Some f \<Rightarrow>
          (let bs = sub_ratio f bs;
               (_, f) = UpdateLiveDataSize (- sz) f;
               bs = add_ratio f (put_file n f bs) in
           if \<not> use_bitmap then Some (ComputeGCScore bs)
           else
             (case opt_fold (set_bit_ok 1) (case map_of indexes n of None \<Rightarrow> [] | Some is \<Rightarrow> is) (BitMap_new (fm_entries f)) of
                None \<Rightarrow> None
              | Some bm \<Rightarrow>
                  (case UpdateInvalidEntryIndexes f (Some bm) of
                     None \<Rightarrow> None
                   | Some (s, f) \<Rightarrow> if s \<noteq> OK then None else Some (ComputeGCScore (put_file n f bs))))))"

definition account_dropped :: "GCJob \<Rightarrow> Dropped \<Rightarrow> World \<Rightarrow> World option" where
  "account_dropped j d w =
     (case w_storage w (gj_cf j) of
        None \<Rightarrow> Some w
      | Some bs \<Rightarrow>
          map_option (\<lambda>bs. w\<lparr>w_db := db_set_storage (gj_cf j) bs (w_db w)\<rparr>)
            (opt_fold (drop_account (gj_use_bitmap j) (dr_indexes d)) (dr_sizes d) bs))"

definition RewriteValidKeyToLSM :: "GCJob \<Rightarrow> World \<Rightarrow> (status \<times> GCJob \<times> World) option" where
  "RewriteValidKeyToLSM j w =
     (let (s, d, j, w) = rewrite_loop (gj_batches j) OK \<lparr>dr_sizes = [], dr_indexes = []\<rparr> j w in
      if s \<noteq> OK \<and> \<not> IsBusy s then Some (s, j, w)
      else
        (case mutex_Lock w of
           None \<Rightarrow> None
         | Some w \<Rightarrow>
             map_option (\<lambda>w. let (s, w) = FlushWAL (mutex_Unlock w) in (s, j, w)) (account_dropped j d w)))"

section \<open>Finishing\<close>

text \<open>An input that has left the storage was obsolete before.\<close>

definition input_obsolete :: "GCJob \<Rightarrow> World \<Rightarrow> u64 \<Rightarrow> bool" where
  "input_obsolete j w n =
     (case w_storage w (gj_cf j) of
        None \<Rightarrow> True
      | Some bs \<Rightarrow> (case FindFile bs n of None \<Rightarrow> True | Some f \<Rightarrow> is_obsolete f))"

definition DeleteInputBlobFiles :: "GCJob \<Rightarrow> World \<Rightarrow> (status \<times> GCJob \<times> World) option" where
  "DeleteInputBlobFiles j w =
     (let obsolete_sequence = tb_sequence (w_db w);
          inputs = gc_inputs (gj_gc j);
          edit = fold (\<lambda>n. VersionEdit_DeleteBlobFile n obsolete_sequence) (filter (\<lambda>n. \<not> input_obsolete j w n) inputs)
                   (SetColumnFamilyID (gj_cf j) VersionEdit_new);
          j = count_metrics (\<lambda>m. m\<lparr>gm_num_files := gm_num_files m + of_nat (length inputs)\<rparr>) j
      in map_option (\<lambda>(s, fs). (s, j, set_fileset fs w)) (LogAndApply edit (w_fileset w)))"

text \<open>Called with the mutex held.\<close>

definition GCJob_Finish :: "BlobLib \<Rightarrow> GCJob \<Rightarrow> World \<Rightarrow> (status \<times> GCJob \<times> World) option" where
  "GCJob_Finish lib j w =
     (case (if \<not> gj_offload j then InstallOutputBlobFiles lib j (mutex_Unlock w)
            else InstallHardwareOutputBlobFiles j (mutex_Unlock w)) of
        None \<Rightarrow> None
      | Some (s, j, w) \<Rightarrow>
          (case (if s = OK then RewriteValidKeyToLSM j w else Some (s, j, w)) of
             None \<Rightarrow> None
           | Some (s, j, w) \<Rightarrow>
               (case mutex_Lock w of
                  None \<Rightarrow> None
                | Some w \<Rightarrow>
                    if s \<noteq> OK then Some (s, j, w)
                    else
                      (let (gone, w) = IsDropped w in
                       if gone then Some (s, j, w) else DeleteInputBlobFiles j w))))"

text \<open>\<open>get_gc_metrics\<close> without the times.\<close>

definition get_gc_metrics :: "GCJob \<Rightarrow> u64 list" where
  "get_gc_metrics j =
     [gm_num_read_lsm (gj_metrics j), gm_num_read_blob (gj_metrics j), gm_num_write_back (gj_metrics j)] @ gj_hardware_metrics j"

text \<open>
  \<open>BackgroundGC\<close> of a column family, with the mutex held: picking, running, finishing, releasing the
  files and queueing the column family again.
\<close>

definition BackgroundGC_run :: "BlobLib \<Rightarrow> HardwareGC \<Rightarrow> GCJob \<Rightarrow> World \<Rightarrow> (status \<times> GCJob \<times> World) option" where
  "BackgroundGC_run lib hw j w =
     (case GCJob_Run lib hw j (mutex_Unlock w) of
        None \<Rightarrow> None
      | Some (s, j, w) \<Rightarrow>
          (case mutex_Lock w of
             None \<Rightarrow> None
           | Some w \<Rightarrow> if s = OK then GCJob_Finish lib j w else Some (s, j, w)))"

definition BackgroundGC :: "BlobLib \<Rightarrow> HardwareGC \<Rightarrow> bool \<Rightarrow> u32 \<times> u32 \<Rightarrow> u32 \<Rightarrow> World \<Rightarrow> (status \<times> World) option" where
  "BackgroundGC lib hw hardware dict cf w =
     (case (if IsColumnFamilyObsolete (w_fileset w) cf then None else w_storage w cf) of
        None \<Rightarrow> Some (OK, w)
      | Some bs \<Rightarrow>
          (case PickBlobGC (cf_options bs) bs of
             None \<Rightarrow> None
           | Some (None, bs) \<Rightarrow> Some (OK, w\<lparr>w_db := db_set_storage cf bs (w_db w)\<rparr>)
           | Some (Some gc, bs) \<Rightarrow>
               (let opts = TitanCFOptions.extend (gc_options gc) \<lparr>co_max_dict_bytes = fst dict, co_zstd_max_train_bytes = snd dict\<rparr>;
                    sizes = (\<lambda>n. case FindFile bs n of None \<Rightarrow> 0 | Some f \<Rightarrow> fm_size f);
                    w = w\<lparr>w_db := db_set_storage cf bs (w_db w)\<rparr> in
                case BackgroundGC_run lib hw (GCJob_new gc opts cf sizes hardware) w of
                  None \<Rightarrow> None
                | Some (s, j, w) \<Rightarrow>
                    (case (case w_storage w cf of
                             None \<Rightarrow> Some w
                           | Some bs \<Rightarrow> map_option (\<lambda>bs. w\<lparr>w_db := db_set_storage cf bs (w_db w)\<rparr>) (ReleaseGcFiles (gj_gc j) bs)) of
                       None \<Rightarrow> None
                     | Some w \<Rightarrow>
                         (let w = w\<lparr>w_db := (w_db w)\<lparr>tb_sched := BackgroundGC_trigger (gc_trigger_next gc) cf (tb_sched (w_db w))\<rparr>\<rparr>
                          in Some (s, SetBGError s w))))))"

end
