(* ===== verification/Titan_Relocation.thy ===== *)
theory Titan_Relocation
  imports Titan_GCJob
begin

text \<open>
  A garbage collection moves values without changing what readers see: the lemmas follow a job from
  its iterator to the write-back, with other threads writing to the base database in between.
\<close>

section \<open>Entries of the base database\<close>

definition entry_index :: "base_entry \<Rightarrow> BlobIndex option" where
  "entry_index e =
     (if snd e then (case BlobIndex_DecodeFrom BlobIndex_zero (fst e) of Inl _ \<Rightarrow> None | Inr (bi, _) \<Rightarrow> Some bi) else None)"

definition refers :: "base_entry option \<Rightarrow> u64 \<Rightarrow> bool" where
  "refers e n \<longleftrightarrow> (\<exists>x bi. e = Some x \<and> entry_index x = Some bi \<and> bi_file_number bi = n)"

definition points_to :: "base_entry option \<Rightarrow> BlobIndex \<Rightarrow> bool" where
  "points_to e bi \<longleftrightarrow> (\<exists>x b. e = Some x \<and> entry_index x = Some b \<and> BlobIndex_eq bi b)"

lemma points_to_refers: "points_to e bi \<Longrightarrow> refers e (bi_file_number bi)"
  by (auto simp: points_to_def refers_def BlobIndex_eq_def)

definition apply_writes :: "(bytes \<times> base_entry option) list \<Rightarrow> (bytes \<rightharpoonup> base_entry) \<Rightarrow> (bytes \<rightharpoonup> base_entry)" where
  "apply_writes ws m = fold (\<lambda>(k, e) m. m(k := e)) ws m"

lemma apply_writes_append [simp]: "apply_writes (xs @ ys) m = apply_writes ys (apply_writes xs m)"
  by (simp add: apply_writes_def)

lemma apply_writes_Nil [simp]: "apply_writes [] m = m"
  by (simp add: apply_writes_def)

lemma apply_writes_Cons: "apply_writes ((k, e) # ws) m = apply_writes ws (m(k := e))"
  by (simp add: apply_writes_def)

lemma apply_writes_cases:
  "(\<forall>m. apply_writes ws m k = m k) \<or> (\<exists>e. (k, e) \<in> set ws \<and> (\<forall>m. apply_writes ws m k = e))"
proof (induction ws)
  case (Cons x ws)
  obtain k' e' where x: "x = (k', e')" by (cases x)
  from Cons consider (same) "\<And>m. apply_writes ws m k = m k" | (set) e where "(k, e) \<in> set ws" "\<And>m. apply_writes ws m k = e" by blast
  then show ?case
  proof cases
    case same
    then show ?thesis by (cases "k' = k") (auto simp: x apply_writes_Cons)
  next
    case set
    then show ?thesis by (auto simp: x apply_writes_Cons)
  qed
qed simp

section \<open>What others do to the world\<close>

text \<open>What the base database and its clients leave alone.\<close>

definition steady :: "World \<Rightarrow> World \<Rightarrow> bool" where
  "steady w w' \<longleftrightarrow> w_files w' = w_files w \<and> w_readers w' = w_readers w \<and> w_prefix w' = w_prefix w \<and> w_cache w' = w_cache w \<and>
     w_mutex w' = w_mutex w \<and> fs_columns (w_fileset w') = fs_columns (w_fileset w) \<and> fs_manifest (w_fileset w') = fs_manifest (w_fileset w)"

definition evolved :: "World \<Rightarrow> World \<Rightarrow> bool" where
  "evolved w w' \<longleftrightarrow> steady w w' \<and>
     (\<exists>dn. w_writes w = dn @ w_writes w' \<and> w_base w' = apply_writes (concat dn) (w_base w))"

lemma steady_refl [simp]: "steady w w"
  by (simp add: steady_def)

lemma steady_trans: "steady u v \<Longrightarrow> steady v w \<Longrightarrow> steady u w"
  by (simp add: steady_def)

lemma evolved_refl [simp]: "evolved w w"
  by (auto simp: evolved_def)

lemma evolved_trans: "evolved u v \<Longrightarrow> evolved v w \<Longrightarrow> evolved u w"
proof -
  assume uv: "evolved u v" and vw: "evolved v w"
  obtain d1 where d1: "w_writes u = d1 @ w_writes v" "w_base v = apply_writes (concat d1) (w_base u)" using uv by (auto simp: evolved_def)
  obtain d2 where d2: "w_writes v = d2 @ w_writes w" "w_base w = apply_writes (concat d2) (w_base v)" using vw by (auto simp: evolved_def)
  have "w_writes u = (d1 @ d2) @ w_writes w" "w_base w = apply_writes (concat (d1 @ d2)) (w_base u)" using d1 d2 by simp_all
  then show "evolved u w" using uv vw steady_trans unfolding evolved_def by blast
qed

lemma base_put_fold:
  "steady w (fold (\<lambda>(k, e). base_put k e) ws w) \<and> w_writes (fold (\<lambda>(k, e). base_put k e) ws w) = w_writes w \<and>
   w_base (fold (\<lambda>(k, e). base_put k e) ws w) = apply_writes ws (w_base w)"
proof (induction ws arbitrary: w)
  case (Cons x ws)
  obtain k e where x: "x = (k, e)" by (cases x)
  let ?f = "\<lambda>(k, e). base_put k e"
  have b: "steady w (base_put k e w)" "w_writes (base_put k e w) = w_writes w" "w_base (base_put k e w) = (w_base w)(k := e)"
    by (simp_all add: base_put_def steady_def w_fileset_def)
  have f: "fold ?f (x # ws) w = fold ?f ws (base_put k e w)" by (simp add: x)
  note ih = Cons [of "base_put k e w"]
  have "w_base (fold ?f ws (base_put k e w)) = apply_writes (x # ws) (w_base w)"
    using ih unfolding b(3) x apply_writes_Cons by blast
  moreover have "steady w (fold ?f ws (base_put k e w))" using steady_trans [OF b(1)] ih by blast
  moreover have "w_writes (fold ?f ws (base_put k e w)) = w_writes w" using ih unfolding b(2) by blast
  ultimately show ?case unfolding f by blast
qed simp

lemma others_evolved: "evolved w (others w)"
proof (cases "w_writes w")
  case (Cons ws wss)
  have "steady (w\<lparr>w_writes := wss\<rparr>) v \<longleftrightarrow> steady w v" for v by (simp add: steady_def w_fileset_def)
  then show ?thesis
    using base_put_fold [of "w\<lparr>w_writes := wss\<rparr>" ws] Cons
    unfolding evolved_def others_def by (auto intro: exI [of _ "[ws]"])
qed (simp add: others_def)

lemma base_status_evolved: "base_status w = (s, w') \<Longrightarrow> steady w w' \<and> w_base w' = w_base w \<and> w_writes w' = w_writes w \<and> \<not> IsNotFound s \<and> \<not> IsBusy s"
  by (auto simp: base_status_def steady_def w_fileset_def split: list.splits option.splits)

lemma IsShutingDown_evolved: "IsShutingDown w = (b, w') \<Longrightarrow> steady w w' \<and> w_base w' = w_base w \<and> w_writes w' = w_writes w"
  by (auto simp: IsShutingDown_def steady_def w_fileset_def split: list.splits)

lemma IsDropped_evolved: "IsDropped w = (b, w') \<Longrightarrow> steady w w' \<and> w_base w' = w_base w \<and> w_writes w' = w_writes w"
  by (auto simp: IsDropped_def steady_def w_fileset_def split: list.splits)

lemma evolved_same: "steady w w' \<Longrightarrow> w_base w' = w_base w \<Longrightarrow> w_writes w' = w_writes w \<Longrightarrow> evolved w w'"
  by (auto simp: evolved_def)

text \<open>The numbering of new files is not touched either.\<close>

definition unmoved :: "World \<Rightarrow> World \<Rightarrow> bool" where
  "unmoved w w' \<longleftrightarrow> w_fileset w' = w_fileset w \<and> w_new_files w' = w_new_files w"

lemma unmoved_refl [simp]: "unmoved w w"
  by (simp add: unmoved_def)

lemma unmoved_trans: "unmoved u v \<Longrightarrow> unmoved v w \<Longrightarrow> unmoved u w"
  by (simp add: unmoved_def)

lemma others_unmoved: "unmoved w (others w)"
proof -
  have "unmoved w (fold (\<lambda>(k, e). base_put k e) ws w)" for ws w
    by (induction ws arbitrary: w) (auto simp: unmoved_def base_put_def w_fileset_def split_beta)
  from this [of "w\<lparr>w_writes := tl (w_writes w)\<rparr>" "hd (w_writes w)"] show ?thesis
    by (auto simp: others_def unmoved_def w_fileset_def split: list.splits)
qed

lemma answers_unmoved:
  "base_status w = (s, w') \<Longrightarrow> unmoved w w'" "IsShutingDown w = (b, w') \<Longrightarrow> unmoved w w'"
  by (auto simp: base_status_def IsShutingDown_def unmoved_def w_fileset_def split: list.splits)

text \<open>What \<open>base_read\<close> says about an entry.\<close>

lemma base_read_cases:
  assumes "base_read k w = ((s, v, b), w')"
  shows "evolved w w' \<and> unmoved w w' \<and> w_base w' = w_base w \<and> w_writes w' = w_writes w \<and> \<not> IsBusy s \<and>
    (s = OK \<longrightarrow> w_base w k = Some (v, b)) \<and> (IsNotFound s \<longrightarrow> w_base w k = None)"
proof -
  obtain s0 w0 where st: "base_status w = (s0, w0)" by (cases "base_status w")
  show ?thesis
    using assms base_status_evolved [OF st] answers_unmoved(1) [OF st] st evolved_same
    by (auto simp: base_read_def split: if_splits option.splits prod.splits)
qed

section \<open>The write-back\<close>

text \<open>The entry that a batch writes under the key of its callback.\<close>

fun batch_entry :: "WriteBatch \<times> WriteCallback \<Rightarrow> base_entry option" where
  "batch_entry ([PutOp cf k v], cb) = (if k = cb_key cb then Some (v, False) else None)"
| "batch_entry ([PutBlobIndexOp cf k v], cb) = (if k = cb_key cb then Some (v, True) else None)"
| "batch_entry _ = None"

lemma batch_entry_commit:
  assumes "batch_entry (wb, cb) = Some e"
  shows "fold apply_op wb w = base_put (cb_key cb) (Some e) w"
  using assms by (cases "(wb, cb)" rule: batch_entry.cases) (auto split: if_splits)

text \<open>
  The callback lets a write pass only when the entry still points to the record, and changes nothing
  of its own but the bytes it has read.
\<close>

lemma Callback_cases:
  assumes "Callback cb w = ((s, cb'), w')"
  shows "evolved w w' \<and> w_base w' = w_base w \<and> w_writes w' = w_writes w \<and>
    cb_new_blob_index cb' = cb_new_blob_index cb \<and> cb_blob_index cb' = cb_blob_index cb \<and> cb_key cb' = cb_key cb \<and>
    (s = OK \<longrightarrow> points_to (w_base w (cb_key cb)) (cb_blob_index cb)) \<and>
    (IsBusy s \<longrightarrow> \<not> points_to (w_base w (cb_key cb)) (cb_blob_index cb))"
proof -
  obtain s0 v b w0 where r: "base_read (cb_key cb) w = ((s0, v, b), w0)" by (metis prod.exhaust)
  note rc = base_read_cases [OF r]
  show ?thesis
  proof (cases "s0 \<noteq> OK \<and> \<not> IsNotFound s0")
    case True
    then show ?thesis using assms r rc by (simp add: Callback_def)
  next
    case False
    show ?thesis
    proof (cases "IsNotFound s0 \<or> \<not> b")
      case True
      then show ?thesis using False assms r rc by (auto simp: Callback_def Let_def points_to_def entry_index_def split: if_splits)
    next
      case nb: False
      then have ok: "s0 = OK" and b using False by auto
      then show ?thesis
        using assms r rc nb
        by (cases "BlobIndex_DecodeFrom BlobIndex_zero v")
          (auto simp: Callback_def Let_def points_to_def entry_index_def BlobIndex_DecodeFrom_def split: if_splits option.splits sum.splits)
    qed
  qed
qed

text \<open>
  \<open>I\<close> are the files that are collected.  A batch points away from them and its callback checks for a
  record of theirs; nobody else writes an index into them.
\<close>

definition batch_ok :: "u64 set \<Rightarrow> WriteBatch \<times> WriteCallback \<Rightarrow> bool" where
  "batch_ok I bt \<longleftrightarrow> batch_entry bt \<noteq> None \<and> (\<forall>n \<in> I. \<not> refers (batch_entry bt) n) \<and> bi_file_number (cb_blob_index (snd bt)) \<in> I"

definition writes_ok :: "u64 set \<Rightarrow> (bytes \<times> base_entry option) list list \<Rightarrow> bool" where
  "writes_ok I wss \<longleftrightarrow> (\<forall>x \<in> set (concat wss). \<forall>n \<in> I. \<not> refers (snd x) n)"

text \<open>The database \<open>m'\<close> is \<open>m\<close> with some entries moved by the batches.\<close>

definition moved :: "(WriteBatch \<times> WriteCallback) set \<Rightarrow> (bytes \<rightharpoonup> base_entry) \<Rightarrow> (bytes \<rightharpoonup> base_entry) \<Rightarrow> bool" where
  "moved B m m' \<longleftrightarrow> (\<forall>k. m' k = m k \<or>
     (\<exists>bt \<in> B. cb_key (snd bt) = k \<and> points_to (m k) (cb_blob_index (snd bt)) \<and> m' k = batch_entry bt))"

text \<open>Records nobody points to stay that way.\<close>

definition no_new_refs :: "u64 set \<Rightarrow> (bytes \<rightharpoonup> base_entry) \<Rightarrow> (bytes \<rightharpoonup> base_entry) \<Rightarrow> bool" where
  "no_new_refs I m m' \<longleftrightarrow> (\<forall>k. m' k = m k \<or> (\<forall>n \<in> I. \<not> refers (m' k) n))"

lemma no_new_refs_refl [simp]: "no_new_refs I m m"
  by (simp add: no_new_refs_def)

lemma no_new_refs_trans: "no_new_refs I m m' \<Longrightarrow> no_new_refs I m' m'' \<Longrightarrow> no_new_refs I m m''"
  unfolding no_new_refs_def by metis

lemma no_new_refs_dead:
  "no_new_refs I m m' \<Longrightarrow> bi_file_number bi \<in> I \<Longrightarrow> \<not> points_to (m k) bi \<Longrightarrow> \<not> points_to (m' k) bi"
  unfolding no_new_refs_def using points_to_refers by metis

lemma writes_ok_append: "writes_ok I (xs @ ys) \<longleftrightarrow> writes_ok I xs \<and> writes_ok I ys"
  by (auto simp: writes_ok_def)

lemma writes_no_new_refs: "writes_ok I wss \<Longrightarrow> no_new_refs I m (apply_writes (concat wss) m)"
proof -
  assume w: "writes_ok I wss"
  show ?thesis
    unfolding no_new_refs_def
  proof
    fix k
    show "apply_writes (concat wss) m k = m k \<or> (\<forall>n \<in> I. \<not> refers (apply_writes (concat wss) m k) n)"
      using apply_writes_cases [of "concat wss" k] w unfolding writes_ok_def by (metis snd_conv)
  qed
qed

lemma moved_writes: "moved B m m' \<Longrightarrow> moved B (apply_writes ws m) (apply_writes ws m')"
proof -
  assume m: "moved B m m'"
  show ?thesis
    unfolding moved_def
  proof
    fix k
    from apply_writes_cases [of ws k]
    show "apply_writes ws m' k = apply_writes ws m k \<or>
       (\<exists>bt \<in> B. cb_key (snd bt) = k \<and> points_to (apply_writes ws m k) (cb_blob_index (snd bt)) \<and> apply_writes ws m' k = batch_entry bt)"
    proof
      assume "\<forall>m. apply_writes ws m k = m k"
      then show ?thesis using m by (simp add: moved_def)
    qed auto
  qed
qed

text \<open>Between two worlds: others have written \<open>dn\<close>, and entries were moved.\<close>

definition relocated :: "u64 set \<Rightarrow> (WriteBatch \<times> WriteCallback) set \<Rightarrow> (bytes \<rightharpoonup> base_entry) \<Rightarrow> World \<Rightarrow> World \<Rightarrow> bool" where
  "relocated I B m w w' \<longleftrightarrow> steady w w' \<and> no_new_refs I (w_base w) (w_base w') \<and>
     (\<exists>dn. w_writes w = dn @ w_writes w' \<and> moved B (apply_writes (concat dn) m) (w_base w'))"

lemma write_back_one:
  assumes ok: "batch_ok I (wb, cb)" and B: "(wb, cb) \<in> B" "\<And>bt. bt \<in> B \<Longrightarrow> batch_ok I bt"
    and w: "moved B m (w_base w)" "writes_ok I (w_writes w)"
    and r: "base_WriteWithCallback wb cb w = ((s, cb'), w')"
  shows "relocated I B m w w' \<and> (s = OK \<or> IsBusy s \<longrightarrow> \<not> points_to (w_base w' (cb_key cb)) (cb_blob_index cb)) \<and>
    cb_new_blob_index cb' = cb_new_blob_index cb \<and> cb_blob_index cb' = cb_blob_index cb"
proof -
  let ?k = "cb_key cb" and ?bi = "cb_blob_index cb"
  obtain dn where dn: "steady w (others w)" "w_writes w = dn @ w_writes (others w)" "w_base (others w) = apply_writes (concat dn) (w_base w)"
    using others_evolved [of w] by (auto simp: evolved_def)
  have m1: "moved B (apply_writes (concat dn) m) (w_base (others w))" unfolding dn(3) by (rule moved_writes [OF w(1)])
  have nn: "no_new_refs I (w_base w) (w_base (others w))"
    unfolding dn(3) by (rule writes_no_new_refs) (use w(2) dn(2) writes_ok_append in metis)
  obtain s1 c1 w1 where cb: "Callback cb (others w) = ((s1, c1), w1)" by (metis prod.exhaust)
  note c = Callback_cases [OF cb]
  have st1: "steady w w1" using dn(1) c steady_trans by (auto simp: evolved_def)
  show ?thesis
  proof (cases "s1 = OK")
    case False
    then have "s = s1" "cb' = c1" "w' = w1" using r cb by (simp_all add: base_WriteWithCallback_def)
    then show ?thesis using False c st1 m1 nn dn(2) by (auto simp: relocated_def)
  next
    case True
    obtain s2 w2 where cm: "base_status w1 = (s2, w2)" by (cases "base_status w1")
    note b = base_status_evolved [OF cm]
    have pt: "points_to (w_base (others w) ?k) ?bi" using c True by simp
    show ?thesis
    proof (cases "s2 = OK")
      case False
      then have "s = s2" "cb' = c1" "w' = w2"
        using r cb cm True by (simp_all add: base_WriteWithCallback_def base_commit_def)
      then show ?thesis
        using False b c m1 nn dn(2) steady_trans [OF st1] by (auto simp: relocated_def)
    next
      case ok2: True
      obtain e where e: "batch_entry (wb, cb) = Some e" using ok by (auto simp: batch_ok_def)
      have "s = OK" "cb' = c1" "w' = base_put ?k (Some e) w2"
        using r cb cm True ok2 batch_entry_commit [OF e] by (simp_all add: base_WriteWithCallback_def base_commit_def)
      note res = this
      have base: "w_base w' = (w_base (others w))(?k := Some e)" "w_writes w' = w_writes (others w)" "steady w w'"
        using res(3) b c steady_trans [OF st1, of w'] by (simp_all add: base_put_def steady_def w_fileset_def)
      have away: "\<not> refers (Some e) n" if "n \<in> I" for n using ok e that by (simp add: batch_ok_def)
      have inI: "bi_file_number ?bi \<in> I" using ok by (simp add: batch_ok_def)
      have "points_to (apply_writes (concat dn) m ?k) ?bi"
      proof (rule ccontr)
        assume no: "\<not> ?thesis"
        then have "w_base (others w) ?k \<noteq> apply_writes (concat dn) m ?k" using pt by auto
        then obtain bt where "bt \<in> B" "w_base (others w) ?k = batch_entry bt" using m1 by (auto simp: moved_def)
        then show False using pt points_to_refers B(2) inI by (metis batch_ok_def)
      qed
      then have "moved B (apply_writes (concat dn) m) (w_base w')"
        using m1 B(1) e unfolding moved_def base(1) by (metis fun_upd_apply snd_conv)
      moreover have "no_new_refs I (w_base w) (w_base w')" using nn away unfolding no_new_refs_def base(1) by auto
      moreover have "\<not> points_to (w_base w' ?k) ?bi" using away inI points_to_refers unfolding base(1) by (metis fun_upd_same)
      ultimately show ?thesis using res base dn(2) c by (auto simp: relocated_def)
    qed
  qed
qed

text \<open>Jobs that differ in their metrics only.\<close>

definition same_job :: "GCJob \<Rightarrow> GCJob \<Rightarrow> bool" where
  "same_job j j' \<longleftrightarrow> j'\<lparr>gj_metrics := gj_metrics j\<rparr> = j"

lemma same_job_refl [simp]: "same_job j j"
  by (simp add: same_job_def)

lemma same_job_trans: "same_job i j \<Longrightarrow> same_job j k \<Longrightarrow> same_job i k"
  unfolding same_job_def by (cases i; cases j; cases k) simp

lemma same_job_count [simp]: "same_job j (count_metrics f j)"
  by (simp add: same_job_def count_metrics_def)

lemma same_jobD:
  assumes "same_job j j'"
  shows "gj_gc j' = gj_gc j" "gj_opts j' = gj_opts j" "gj_cf j' = gj_cf j" "gj_builders j' = gj_builders j" "gj_batches j' = gj_batches j"
    "gj_use_bitmap j' = gj_use_bitmap j" "gj_offload j' = gj_offload j" "gj_input_size j' = gj_input_size j"
  using assms unfolding same_job_def by (cases j; cases j'; simp)+

lemma rewrite_loop_relocated:
  assumes B: "\<And>bt. bt \<in> B \<Longrightarrow> batch_ok I bt"
  shows "set batches \<subseteq> B \<Longrightarrow> \<not> gj_offload j \<Longrightarrow> moved B m (w_base w) \<Longrightarrow> writes_ok I (w_writes w) \<Longrightarrow>
    rewrite_loop batches s d j w = (s', d', j', w') \<Longrightarrow>
    relocated I B m w w' \<and> same_job j j' \<and>
    (s' = OK \<or> IsBusy s' \<longrightarrow> (\<forall>bt \<in> set batches. \<not> points_to (w_base w' (cb_key (snd bt))) (cb_blob_index (snd bt))))"
proof (induction batches arbitrary: s d j w m)
  case Nil
  then show ?case by (auto simp: relocated_def intro!: exI [of _ "[]"])
next
  case (Cons bt batches)
  obtain wb cb where bt: "bt = (wb, cb)" by (cases bt)
  obtain gone w1 where g: "IsDropped w = (gone, w1)" by (cases "IsDropped w")
  obtain shut w2 where sh: "IsShutingDown w1 = (shut, w2)" by (cases "IsShutingDown w1")
  note e1 = IsDropped_evolved [OF g] and e2 = IsShutingDown_evolved [OF sh]
  have st2: "steady w w1" "steady w w2" using e1 e2 steady_trans by blast+
  have base2: "w_base w1 = w_base w" "w_writes w1 = w_writes w" "w_base w2 = w_base w" "w_writes w2 = w_writes w" using e1 e2 by simp_all
  have stay: "relocated I B m w v" if "steady w v" "w_base v = w_base w" "w_writes v = w_writes w" for v
    using that Cons.prems(3) by (auto simp: relocated_def intro!: exI [of _ "[]"])
  show ?case
  proof (cases "gone \<or> shut")
    case True
    then show ?thesis using Cons.prems(5) g sh bt stay st2 base2 by (cases gone) auto
  next
    case False
    obtain s1 cb1 w3 where c: "base_WriteWithCallback wb cb w2 = ((s1, cb1), w3)" by (metis prod.exhaust)
    have inB: "(wb, cb) \<in> B" using Cons.prems(1) bt by simp
    have one: "relocated I B m w2 w3" "s1 = OK \<or> IsBusy s1 \<Longrightarrow> \<not> points_to (w_base w3 (cb_key cb)) (cb_blob_index cb)"
      using write_back_one [OF B [OF inB] inB B _ _ c, of m] Cons.prems(3,4) base2 by auto
    then obtain dn where dn: "steady w w3" "no_new_refs I (w_base w) (w_base w3)" "w_writes w = dn @ w_writes w3"
        "moved B (apply_writes (concat dn) m) (w_base w3)"
      using st2 steady_trans base2 by (auto simp: relocated_def)
    let ?j1 = "count_metrics (\<lambda>m. m\<lparr>gm_num_write_back := gm_num_write_back m + 1\<rparr>) j"
    let ?j2 = "count_metrics (\<lambda>m. m\<lparr>gm_bytes_read := gm_bytes_read m + cb_read_bytes cb1\<rparr>) (count_metrics (write_back_metrics s1 wb cb1) ?j1)"
    have js: "same_job j ?j1" "same_job j ?j2" using same_job_trans same_job_count by meson+
    show ?thesis
    proof (cases "s1 \<noteq> OK \<and> \<not> IsBusy s1")
      case True
      then have "s' = s1" "j' = ?j1" "w' = w3" using Cons.prems(2,5) False g sh bt c by auto
      then show ?thesis using True dn js by (auto simp: relocated_def)
    next
      case fine: False
      let ?d = "if s1 = OK then d else drop_record (cb_new_blob_index cb1) (gj_use_bitmap ?j1) d"
      have off: "\<not> gj_offload ?j2" using same_jobD(7) [OF js(2)] Cons.prems(2) by simp
      have r: "rewrite_loop batches s1 ?d ?j2 w3 = (s', d', j', w')"
      proof -
        have "rewrite_loop ((wb, cb) # batches) s d j w =
            (if s1 \<noteq> OK \<and> \<not> IsBusy s1 then (s1, d, ?j1, w3) else rewrite_loop batches s1 ?d ?j2 w3)"
          using False Cons.prems(2) by (simp add: g sh c Let_def)
        then show ?thesis using Cons.prems(5) fine bt by simp
      qed
      have wo: "writes_ok I (w_writes w3)" using Cons.prems(4) dn(3) writes_ok_append by metis
      have ih: "relocated I B (apply_writes (concat dn) m) w3 w'" "same_job ?j2 j'"
        "s' = OK \<or> IsBusy s' \<Longrightarrow> \<forall>bt \<in> set batches. \<not> points_to (w_base w' (cb_key (snd bt))) (cb_blob_index (snd bt))"
        using Cons.IH [OF _ off dn(4) wo r] Cons.prems(1) by auto
      obtain dn2 where dn2: "w_writes w3 = dn2 @ w_writes w'" "moved B (apply_writes (concat dn2) (apply_writes (concat dn) m)) (w_base w')"
        using ih(1) by (auto simp: relocated_def)
      have "relocated I B m w w'"
        unfolding relocated_def
      proof (intro conjI exI)
        show "steady w w'" using ih(1) dn(1) steady_trans by (auto simp: relocated_def)
        show "no_new_refs I (w_base w) (w_base w')" using ih(1) dn(2) no_new_refs_trans by (auto simp: relocated_def)
        show "w_writes w = (dn @ dn2) @ w_writes w'" using dn(3) dn2(1) by simp
        show "moved B (apply_writes (concat (dn @ dn2)) m) (w_base w')" using dn2(2) by simp
      qed
      moreover have "no_new_refs I (w_base w3) (w_base w')" "bi_file_number (cb_blob_index cb) \<in> I"
        using ih(1) B [OF inB] by (auto simp: relocated_def batch_ok_def)
      then have "\<not> points_to (w_base w' (cb_key cb)) (cb_blob_index cb)"
        by (rule no_new_refs_dead) (use one(2) fine in blast)
      ultimately show ?thesis using ih(2,3) js same_job_trans bt by auto
    qed
  qed
qed

section \<open>Reading\<close>

text \<open>An input or output file: its compression type, dictionary, header, records and number.\<close>

definition file_data :: "BlobLib \<Rightarrow> merge_file \<Rightarrow> bytes" where
  "file_data lib f = (case f of ((t, dict, hdr), recs, n) \<Rightarrow> blob_file lib dict hdr (file_es lib t dict recs))"

definition file_good :: "BlobLib \<Rightarrow> merge_file \<Rightarrow> bool" where
  "file_good lib f = (case f of ((t, dict, hdr), recs, n) \<Rightarrow> good_file lib t dict hdr recs)"

definition file_index :: "BlobLib \<Rightarrow> merge_file \<Rightarrow> nat \<Rightarrow> BlobIndex" where
  "file_index lib f i = (case f of ((t, dict, hdr), recs, n) \<Rightarrow>
     BlobIndex_zero\<lparr>bi_file_number := n, bi_handle := nth_handle hdr (file_es lib t dict recs) i\<rparr>)"

abbreviation file_records :: "merge_file \<Rightarrow> BlobRecord list" where
  "file_records f \<equiv> fst (snd f)"

abbreviation file_number :: "merge_file \<Rightarrow> u64" where
  "file_number f \<equiv> snd (snd f)"

definition file_reader :: "BlobLib \<Rightarrow> merge_file \<Rightarrow> bytes \<Rightarrow> BlobFileReader" where
  "file_reader lib f pre = (case f of ((t, dict, hdr), recs, n) \<Rightarrow>
     \<lparr>rd_file = read_only (file_data lib f), rd_dict = dict, rd_cache_prefix = pre\<rparr>)"

text \<open>The file is on disk and known to the storage; a reader in the cache is one of the file.\<close>

definition on_disk :: "BlobLib \<Rightarrow> u32 \<Rightarrow> merge_file \<Rightarrow> World \<Rightarrow> bool" where
  "on_disk lib cf f w \<longleftrightarrow> file_good lib f \<and> w_files w (file_number f) = Some (file_data lib f) \<and>
     (\<exists>bs m. w_storage w cf = Some bs \<and> FindFile bs (file_number f) = Some m \<and> fm_number m = file_number f \<and>
        fm_size m = of_nat (length (file_data lib f))) \<and>
     (\<forall>rd. w_readers w (file_number f) = Some rd \<longrightarrow> rd = file_reader lib f (w_prefix w (file_number f)))"

definition entry_result :: "BlobLib \<Rightarrow> u32 \<Rightarrow> base_entry \<Rightarrow> World \<Rightarrow> (status \<times> bytes) option" where
  "entry_result lib cf e w = map_option fst (read_entry lib cf e (mutex_Unlock w))"

lemma ReadRecord_cong:
  assumes "bh_offset h = bh_offset h'" "bh_size h = bh_size h'"
  shows "Titan_BlobFile.ReadRecord lib h rd = Titan_BlobFile.ReadRecord lib h' rd"
  unfolding Titan_BlobFile.ReadRecord_def assms ..

lemma entry_result_blob:
  assumes "entry_index e = Some bi" "w_storage w cf = Some bs"
  shows "entry_result lib cf e w =
    map_option (\<lambda>r. case r of Inl s \<Rightarrow> (s, fst e) | Inr record \<Rightarrow> (OK, rec_value record))
      (map_option fst (Storage_Get lib bs bi (mutex_Unlock w)))"
proof -
  obtain v where e: "e = (v, True)" using assms(1) by (cases e) (auto simp: entry_index_def split: if_splits)
  obtain rest where v: "BlobIndex_DecodeFrom BlobIndex_zero v = Inr (bi, rest)"
    using assms(1) by (auto simp: e entry_index_def split: sum.splits)
  have "mutex_Lock (mutex_Unlock w) = Some (w\<lparr>w_mutex := True\<rparr>)" "mutex_Unlock (w\<lparr>w_mutex := True\<rparr>) = mutex_Unlock w"
    "w_storage (mutex_Unlock w) cf = Some bs"
    using assms(2) by (simp_all add: mutex_Unlock_def mutex_Lock_def w_storage_def)
  then show ?thesis unfolding e by (simp add: entry_result_def read_entry_def v option.map_comp comp_def case_prod_beta)
qed

lemma file_reader_reads:
  assumes f: "file_good lib f" and i: "i < length (file_records f)" and eq: "BlobHandle_eq (bi_handle (file_index lib f i)) h"
  shows "Titan_BlobFile.ReadRecord lib h (file_reader lib f pre) =
    Some (Inr (file_records f ! i, BlobRecord_EncodeTo [] (file_records f ! i)), file_reader lib f pre)"
proof -
  obtain t dict hdr recs n where ff: "f = ((t, dict, hdr), recs, n)" by (metis prod.exhaust)
  let ?h = "nth_handle hdr (file_es lib t dict recs) i"
  have g: "good_file lib t dict hdr recs" using f by (simp add: ff file_good_def)
  have "Titan_BlobFile.ReadRecord lib ?h (file_reader lib f pre) =
    Some (Inr (recs ! i, BlobRecord_EncodeTo [] (recs ! i)), file_reader lib f pre)"
    by (rule ReadRecord_nth [where dict = dict and t = t and es = "file_es lib t dict recs"])
      (use g i in \<open>simp_all add: ff good_file_def list_all_length file_reader_def file_data_def file_es_def\<close>)
  moreover have "bh_offset h = bh_offset ?h" "bh_size h = bh_size ?h"
    using eq by (simp_all add: ff file_index_def BlobHandle_eq_def)
  ultimately show ?thesis using ReadRecord_cong [of h ?h] by (simp add: ff)
qed

lemma file_reader_opens:
  assumes "file_good lib f"
  shows "BlobFileReader_Open lib pre (read_only (file_data lib f)) (of_nat (length (file_data lib f))) = Some (Inr (file_reader lib f pre))"
proof -
  obtain t dict hdr recs n where ff: "f = ((t, dict, hdr), recs, n)" by (metis prod.exhaust)
  have g: "good_file lib t dict hdr recs" using assms by (simp add: ff file_good_def)
  show ?thesis
    unfolding file_reader_def file_data_def ff prod.case
    by (rule Reader_Open_blob_file) (use g in \<open>auto simp: good_file_def\<close>)
qed

lemma entry_result_record:
  assumes d: "on_disk lib cf f w" and cache: "w_cache w = None" and i: "i < length (file_records f)"
    and e: "entry_index e = Some bi" and eq: "BlobIndex_eq (file_index lib f i) bi"
  shows "entry_result lib cf e w = Some (OK, rec_value (file_records f ! i))"
proof -
  obtain bs m where bs: "w_storage w cf = Some bs" "FindFile bs (file_number f) = Some m" "fm_number m = file_number f"
    "fm_size m = of_nat (length (file_data lib f))" using d by (auto simp: on_disk_def)
  let ?n = "file_number f" and ?rd = "file_reader lib f (w_prefix w (file_number f))"
  have n: "bi_file_number bi = ?n" "BlobHandle_eq (bi_handle (file_index lib f i)) (bi_handle bi)"
    using eq by (auto simp: BlobIndex_eq_def file_index_def split: prod.splits)
  let ?w = "mutex_Unlock w"
  have g: "file_good lib f" "w_files w ?n = Some (file_data lib f)" using d by (simp_all add: on_disk_def)
  have "\<exists>w'. Cache_FindFile lib ?n (fm_size m) ?w = Some (Inr ?rd, w') \<and> w_cache w' = None"
  proof (cases "w_readers w ?n")
    case None
    then show ?thesis
      using g file_reader_opens [OF g(1)] cache
      by (simp add: Cache_FindFile_def NewRandomAccessFile_def bs(4) mutex_Unlock_def)
  next
    case (Some rd)
    then show ?thesis using d cache by (simp add: Cache_FindFile_def mutex_Unlock_def on_disk_def)
  qed
  then obtain w' where "Cache_FindFile lib ?n (fm_size m) ?w = Some (Inr ?rd, w')" "w_cache w' = None" by blast
  then have "\<exists>w''. Cache_Get lib ?n (fm_size m) (bi_handle bi) ?w = Some (Inr (file_records f ! i), w'')"
    using file_reader_reads [OF g(1) i n(2)] by (simp add: Cache_Get_def Reader_Get_def)
  then have "map_option fst (Storage_Get lib bs bi ?w) = Some (Inr (file_records f ! i))" using bs(2,3) n(1) by (auto simp: Storage_Get_def)
  then show ?thesis unfolding entry_result_blob [OF e bs(1)] by auto
qed

text \<open>Worlds in which the files other than \<open>N\<close> are read in the same way.\<close>

definition same_reads :: "u32 \<Rightarrow> u64 set \<Rightarrow> World \<Rightarrow> World \<Rightarrow> bool" where
  "same_reads cf N w w' \<longleftrightarrow> w_cache w = None \<and> w_cache w' = None \<and> w_prefix w' = w_prefix w \<and>
     (\<forall>n. n \<notin> N \<longrightarrow> w_files w' n = w_files w n \<and> w_readers w' n = w_readers w n) \<and>
     (\<exists>bs bs'. w_storage w cf = Some bs \<and> w_storage w' cf = Some bs' \<and>
        (\<forall>n. n \<notin> N \<longrightarrow> map_option (\<lambda>m. (fm_number m, fm_size m)) (FindFile bs' n) = map_option (\<lambda>m. (fm_number m, fm_size m)) (FindFile bs n)) \<and>
        (\<forall>n m. FindFile bs n = Some m \<longrightarrow> fm_number m = n))"

lemma Cache_FindFile_same:
  assumes "w_readers w' n = w_readers w n" "w_files w' n = w_files w n" "w_prefix w' = w_prefix w" "w_cache w' = w_cache w"
  shows "map_option fst (Cache_FindFile lib n sz w') = map_option fst (Cache_FindFile lib n sz w) \<and>
    (\<forall>r v. Cache_FindFile lib n sz w = Some (r, v) \<longrightarrow> w_cache v = w_cache w) \<and>
    (\<forall>r v. Cache_FindFile lib n sz w' = Some (r, v) \<longrightarrow> w_cache v = w_cache w')"
  using assms by (auto simp: Cache_FindFile_def NewRandomAccessFile_def split: option.splits sum.splits)

lemma Cache_Get_same:
  assumes "w_readers w' n = w_readers w n" "w_files w' n = w_files w n" "w_prefix w' = w_prefix w" "w_cache w' = w_cache w"
  shows "map_option fst (Cache_Get lib n sz h w') = map_option fst (Cache_Get lib n sz h w)"
proof -
  note c = Cache_FindFile_same [OF assms, of lib sz]
  show ?thesis
  proof (cases "Cache_FindFile lib n sz w")
    case None
    then show ?thesis using c by (simp add: Cache_Get_def)
  next
    case (Some x)
    obtain r v where x: "x = (r, v)" by (cases x)
    then obtain v' where "Cache_FindFile lib n sz w' = Some (r, v')" using c Some by auto
    then show ?thesis using Some x c assms(4) by (cases r) (auto simp: Cache_Get_def option.map_comp comp_def case_prod_beta)
  qed
qed

lemma entry_result_same:
  assumes s: "same_reads cf N w w'" and e: "\<And>n. n \<in> N \<Longrightarrow> \<not> refers (Some e) n"
  shows "entry_result lib cf e w' = entry_result lib cf e w"
proof (cases "entry_index e")
  case None
  then show ?thesis
    by (auto simp: entry_result_def read_entry_def entry_index_def split: if_splits prod.splits sum.splits)
next
  case (Some bi)
  then have n: "bi_file_number bi \<notin> N" using e by (auto simp: refers_def)
  let ?n = "bi_file_number bi"
  obtain bs bs' where bs: "w_storage w cf = Some bs" "w_storage w' cf = Some bs'"
    "map_option (\<lambda>m. (fm_number m, fm_size m)) (FindFile bs' ?n) = map_option (\<lambda>m. (fm_number m, fm_size m)) (FindFile bs ?n)"
    "\<And>m. FindFile bs ?n = Some m \<Longrightarrow> fm_number m = ?n"
    using s n unfolding same_reads_def by blast
  have cg: "map_option fst (Cache_Get lib ?n sz h (mutex_Unlock w')) = map_option fst (Cache_Get lib ?n sz h (mutex_Unlock w))" for sz h
    by (rule Cache_Get_same) (use s n in \<open>simp_all add: same_reads_def mutex_Unlock_def\<close>)
  have "map_option fst (Storage_Get lib bs' bi (mutex_Unlock w')) = map_option fst (Storage_Get lib bs bi (mutex_Unlock w))"
  proof (cases "FindFile bs ?n")
    case None
    then show ?thesis using bs(3) by (simp add: Storage_Get_def)
  next
    case m: (Some m)
    then obtain m' where m': "FindFile bs' ?n = Some m'" "fm_number m' = ?n" "fm_size m' = fm_size m"
      using bs(3) bs(4) [OF m] by (cases "FindFile bs' ?n") auto
    show ?thesis unfolding Storage_Get_def m m'(1) option.case m'(2,3) bs(4) [OF m] by (rule cg)
  qed
  then show ?thesis unfolding entry_result_blob [OF Some bs(1)] entry_result_blob [OF Some bs(2)] by simp
qed

end
