(* ===== verification/Titan_Collecting.thy ===== *)
theory Titan_Collecting
  imports Titan_Relocation
begin

text \<open>
  The loop of a garbage collection: it visits every record of the inputs, terminates, and copies every
  record the base database still points to.
\<close>

section \<open>Walking over the inputs\<close>

text \<open>An iterator over a file with the records that are left.\<close>

definition iter_at :: "BlobLib \<Rightarrow> merge_file \<Rightarrow> BlobRecord list \<Rightarrow> BlobFileIterator \<Rightarrow> bool" where
  "iter_at lib f rs it \<longleftrightarrow> (case f of ((t, dict, hdr), recs, n) \<Rightarrow> it_file_number it = n \<and>
     (\<exists>k \<le> length recs. rs = drop k recs \<and>
        (if k < length recs then stands_on lib t dict hdr recs k it else ready lib t dict hdr recs k it \<and> \<not> it_valid it)))"

lemma iter_at_left: "file_good lib f \<Longrightarrow> iter_at lib f rs it \<Longrightarrow> iter_left lib it rs"
proof -
  assume g: "file_good lib f" and a: "iter_at lib f rs it"
  obtain t dict hdr recs n where f: "f = ((t, dict, hdr), recs, n)" by (metis prod.exhaust)
  show "iter_left lib it rs" using g a unfolding iter_at_def file_good_def iter_left_def f prod.case by blast
qed

lemma PrefetchAndGet_at:
  assumes gf: "good_file lib t dict hdr recs" and r: "ready lib t dict hdr recs k it" and k: "k \<le> length recs"
  shows "\<exists>it'. PrefetchAndGet lib it = Some it' \<and> iter_at lib ((t, dict, hdr), recs, it_file_number it) (drop k recs) it'"
proof (cases "k < length recs")
  case True
  obtain it' where it': "PrefetchAndGet lib it = Some it'" "stands_on lib t dict hdr recs k it'" "same_iter it it'"
    by (rule PrefetchAndGet_record [OF gf r True])
  then show ?thesis using True k by (auto simp: iter_at_def same_iter_def)
next
  case False
  then have "k = length recs" using k by simp
  moreover from this have "PrefetchAndGet lib it = Some (it\<lparr>it_valid := False\<rparr>)" using PrefetchAndGet_end [OF gf] r by simp
  moreover have "ready lib t dict hdr recs k (it\<lparr>it_valid := False\<rparr>)" using r by (simp add: ready_def)
  ultimately show ?thesis by (auto simp: iter_at_def)
qed

lemma iter_at_Cons:
  assumes g: "file_good lib f" and a: "iter_at lib f (r # rs) it"
  obtains i it' where "i < length (file_records f)" "i = length (file_records f) - Suc (length rs)" "r = file_records f ! i" "GetBlobIndex it = file_index lib f i" "it_record it = r"
    "Iter_Next lib it = Some it'" "iter_at lib f rs it'"
proof -
  obtain t dict hdr recs n where f: "f = ((t, dict, hdr), recs, n)" by (metis prod.exhaust)
  have gf: "good_file lib t dict hdr recs" using g by (simp add: f file_good_def)
  obtain k where k0: "k \<le> length recs" "r # rs = drop k recs" "it_file_number it = n"
    "if k < length recs then stands_on lib t dict hdr recs k it else ready lib t dict hdr recs k it \<and> \<not> it_valid it"
    using a unfolding iter_at_def f prod.case by blast
  have kl: "k < length recs" using k0(2) by (metis drop_all list.distinct(1) not_le)
  then have k: "stands_on lib t dict hdr recs k it" using k0(4) by simp
  have rr: "recs ! k = r" "rs = drop (Suc k) recs" using k0(2) kl by (metis Cons_nth_drop_Suc list.inject)+
  have "ready lib t dict hdr recs (Suc k) it" "it_init it" using k by (simp_all add: stands_on_def ready_def)
  then obtain it' where "Iter_Next lib it = Some it'" "iter_at lib f rs it'"
    using PrefetchAndGet_at [OF gf, of "Suc k" it] kl k0(3) rr(2) by (auto simp: Iter_Next_def f)
  moreover have "GetBlobIndex it = file_index lib f k" "it_record it = r"
    using k k0(3) rr(1) by (simp_all add: stands_on_def file_index_def f GetBlobIndex_def)
  moreover have "k = length recs - Suc (length rs)" using kl rr(2) by simp
  ultimately show thesis using that [of k it'] kl rr(1) by (simp add: f)
qed

lemma iter_at_seek:
  assumes g: "file_good lib f" and len: "length (file_records f) < 2 ^ 64"
  shows "\<exists>it. Iter_SeekToFirst lib (BlobFileIterator_new (read_only (file_data lib f)) (file_number f)
      (of_nat (length (file_data lib f))) mn (- 1)) = Some it \<and> iter_at lib f (file_records f) it"
proof -
  obtain t dict hdr recs n where f: "f = ((t, dict, hdr), recs, n)" by (metis prod.exhaust)
  have gf: "good_file lib t dict hdr recs" using g by (simp add: f file_good_def)
  let ?it = "BlobFileIterator_new (read_only (file_data lib f)) n (of_nat (length (file_data lib f))) mn (- 1)"
  have "window_ok kMinReadaheadSize" by (simp add: window_ok_def word_le_nat_alt unat_kMax)
  then have fr: "it_file ?it = read_only (blob_file lib dict hdr (file_es lib t dict recs))"
    "it_file_size ?it = of_nat (length (blob_file lib dict hdr (file_es lib t dict recs)))" "it_dict ?it = None"
    "window_ok (it_ra_size ?it)" "length recs \<le> unat (it_file_entries ?it)" "it_index ?it = 0"
    using len by (simp_all add: f file_data_def BlobFileIterator_new_def unsigned_minus_1_eq_mask mask_eq_exp_minus_1)
  obtain i1 where i1: "Iter_Init lib ?it = Some (True, i1)"
    "ready lib t dict hdr recs 0 (i1\<lparr>it_status := OK, it_offset := it_header_size i1\<rparr>)" "same_iter ?it i1"
    by (rule Iter_Init_ok [OF gf fr])
  have "\<not> it_init ?it" "it_file_number ?it = n" by (simp_all add: BlobFileIterator_new_def)
  then show ?thesis
    using PrefetchAndGet_at [OF gf i1(2)] i1(1,3) by (auto simp: f Iter_SeekToFirst_def same_iter_def)
qed

definition walking :: "BlobLib \<Rightarrow> merge_file list \<Rightarrow> BlobRecord list list \<Rightarrow> BlobFileMergeIterator \<Rightarrow> bool" where
  "walking lib fs rss mi \<longleftrightarrow> merging lib rss mi \<and> strict_weak (mi_less mi) \<and> length fs = length rss \<and>
     (\<forall>j < length fs. file_good lib (fs ! j) \<and> iter_at lib (fs ! j) (rss ! j) (mi_iters mi ! j))"

lemma Merge_Next_iters:
  assumes "Merge_Next lib mi = Some mi'" "mi_current mi = Some c"
  shows "\<exists>it. Iter_Next lib (mi_iters mi ! c) = Some it \<and> mi_iters mi' = (mi_iters mi)[c := it]"
proof -
  obtain it where it: "Iter_Next lib (mi_iters mi ! c) = Some it" using assms by (auto simp: Merge_Next_def split: if_splits)
  then have "mi' = (let mi = push_valid c (mi\<lparr>mi_iters := (mi_iters mi)[c := it]\<rparr>) in
      case mi_heap mi of [] \<Rightarrow> mi\<lparr>mi_current := None\<rparr> | i # h \<Rightarrow> mi\<lparr>mi_current := Some i, mi_heap := h\<rparr>)"
    using assms by (auto simp: Merge_Next_def split: if_splits)
  then show ?thesis using it by (auto simp: push_valid_def Let_def split: list.splits)
qed

lemma walking_end:
  assumes "walking lib fs rss mi" "mi_current mi = None"
  shows "\<not> Merge_Valid mi" "Merge_status mi = OK" "concat rss = []"
proof -
  have m: "merging lib rss mi" using assms by (simp add: walking_def)
  then have "\<forall>j < length rss. rss ! j = []" "mi_status mi = OK" using assms(2) by (simp_all add: merging_def)
  then show "\<not> Merge_Valid mi" "Merge_status mi = OK" "concat rss = []"
    using merging_current [OF m] assms(2) by (auto simp: Merge_status_def in_set_conv_nth)
qed

lemma walking_step:
  assumes w: "walking lib fs rss mi" and c: "mi_current mi = Some c"
  obtains i mi' where "Merge_Valid mi" "Merge_status mi = OK" "c < length fs" "i < length (file_records (fs ! c))"
    "i = length (file_records (fs ! c)) - length (rss ! c)"
    "current_iter mi = Some (mi_iters mi ! c)" "it_record (mi_iters mi ! c) = file_records (fs ! c) ! i"
    "GetBlobIndex (mi_iters mi ! c) = file_index lib (fs ! c) i" "rss ! c = file_records (fs ! c) ! i # tl (rss ! c)"
    "Merge_Next lib mi = Some mi'" "walking lib fs (rss[c := tl (rss ! c)]) mi'"
proof -
  have m: "merging lib rss mi" and len: "length fs = length rss" using w by (simp_all add: walking_def)
  have cl: "c < length rss" "rss ! c \<noteq> []" using m c by (simp_all add: merging_def)
  then obtain r rs where rs: "rss ! c = r # rs" by (cases "rss ! c") auto
  have g: "file_good lib (fs ! c)" "iter_at lib (fs ! c) (r # rs) (mi_iters mi ! c)" using w cl len rs by (auto simp: walking_def)
  obtain i it' where il: "i = length (file_records (fs ! c)) - Suc (length rs)"
    and i: "i < length (file_records (fs ! c))" "r = file_records (fs ! c) ! i" "GetBlobIndex (mi_iters mi ! c) = file_index lib (fs ! c) i"
    "it_record (mi_iters mi ! c) = r" "Iter_Next lib (mi_iters mi ! c) = Some it'" "iter_at lib (fs ! c) rs it'"
    by (rule iter_at_Cons [OF g]) (rule that; assumption)
  obtain mi' where mi': "Merge_Next lib mi = Some mi'" "merging lib (rss[c := tl (rss ! c)]) mi'" "mi_less mi' = mi_less mi"
    using merging_Next [OF _ m c] w by (auto simp: walking_def)
  have its: "mi_iters mi' = (mi_iters mi)[c := it']" using Merge_Next_iters [OF mi'(1) c] i(5) by auto
  have v: "Merge_Valid mi" using merging_current [OF m] cl by blast
  have "walking lib fs (rss[c := tl (rss ! c)]) mi'"
    unfolding walking_def
  proof (intro conjI allI impI)
    show "merging lib (rss[c := tl (rss ! c)]) mi'" "strict_weak (mi_less mi')" "length fs = length (rss[c := tl (rss ! c)])"
      using mi' w len by (auto simp: walking_def)
    fix j assume j: "j < length fs"
    show "file_good lib (fs ! j)" using w j by (simp add: walking_def)
    have "length (mi_iters mi) = length rss" using m by (simp add: merging_def)
    then show "iter_at lib (fs ! j) (rss[c := tl (rss ! c)] ! j) (mi_iters mi' ! j)"
      using w i(6) rs j len cl(1) unfolding its by (cases "j = c") (auto simp: walking_def)
  qed
  moreover have "Merge_status mi = OK" using v c by (simp add: Merge_Valid_def)
  ultimately show thesis using that [of i mi'] v cl(1) i il mi'(1) rs len c by (simp add: current_iter_def)
qed

lemma seek_all_iters:
  assumes "seek_all lib is mi = Some mi'" "distinct is"
  shows "length (mi_iters mi') = length (mi_iters mi) \<and> (\<forall>j. j \<notin> set is \<longrightarrow> mi_iters mi' ! j = mi_iters mi ! j) \<and>
    (\<forall>j \<in> set is. j < length (mi_iters mi) \<longrightarrow> Iter_SeekToFirst lib (mi_iters mi ! j) = Some (mi_iters mi' ! j))"
  using assms
proof (induction "is" arbitrary: mi)
  case (Cons i "is")
  then obtain it where it: "Iter_SeekToFirst lib (mi_iters mi ! i) = Some it" by (cases "Iter_SeekToFirst lib (mi_iters mi ! i)") auto
  let ?m = "push_valid i (mi\<lparr>mi_iters := (mi_iters mi)[i := it]\<rparr>)"
  have m: "mi_iters ?m = (mi_iters mi)[i := it]" by (simp add: push_valid_def)
  have "seek_all lib is ?m = Some mi'" using Cons.prems(1) it by simp
  note ih = Cons.IH [OF this]
  have "(mi_iters mi)[i := it] ! j = mi_iters mi ! j" if "j \<in> set is" for j using that Cons.prems(2) by (metis distinct.simps(2) nth_list_update_neq)
  with ih Cons.prems(2) it show ?case unfolding m by auto
qed simp

text \<open>What \<open>SeekToFirst\<close> gives on the iterators of good files.\<close>

lemma walking_seek:
  assumes sw: "strict_weak lt" and len: "length its = length fs" and some: "concat (map file_records fs) \<noteq> []"
    and seek: "\<And>j. j < length fs \<Longrightarrow> file_good lib (fs ! j) \<and>
      (\<exists>it. Iter_SeekToFirst lib (its ! j) = Some it \<and> iter_at lib (fs ! j) (file_records (fs ! j)) it)"
  shows "\<exists>mi. Merge_SeekToFirst lib (BlobFileMergeIterator_new its lt) = Some mi \<and> walking lib fs (map file_records fs) mi \<and>
    mi_current mi \<noteq> None"
proof -
  let ?rss = "map file_records fs" and ?m0 = "BlobFileMergeIterator_new its lt"
  have "\<exists>it. Iter_SeekToFirst lib (its ! j) = Some it \<and> iter_left lib it (?rss ! j)" if "j < length ?rss" for j
  proof -
    have j: "j < length fs" using that by simp
    then show ?thesis using seek [OF j] iter_at_left [of lib "fs ! j" "file_records (fs ! j)"] by (metis nth_map)
  qed
  then obtain m1 where m1: "seek_all lib [0..<length ?rss] ?m0 = Some m1" "merging lib ?rss (take_top m1)" "mi_less m1 = lt"
    "set (mi_heap m1) = {j. j < length ?rss \<and> ?rss ! j \<noteq> []}"
    using seek_all_merging [of ?m0 ?rss lib its 0] sw len by (auto simp: BlobFileMergeIterator_new_def)
  have "mi_heap m1 \<noteq> []" using concat_nonempty_nth [OF some] m1(4) by (metis (mono_tags, lifting) empty_set empty_iff mem_Collect_eq)
  then obtain i h where ih: "mi_heap m1 = i # h" by (cases "mi_heap m1") auto
  then have tt: "take_top m1 = m1\<lparr>mi_current := Some i, mi_heap := h\<rparr>" by (simp add: take_top_def)
  have l0: "length (mi_iters ?m0) = length ?rss" "mi_iters ?m0 = its" using len by (simp_all add: BlobFileMergeIterator_new_def)
  have "Merge_SeekToFirst lib ?m0 = Some (take_top m1)" using m1(1) ih tt l0 by (simp add: Merge_SeekToFirst_def)
  moreover have "Iter_SeekToFirst lib (its ! j) = Some (mi_iters m1 ! j)" if "j < length fs" for j
    using seek_all_iters [OF m1(1)] that len l0(2) by simp
  then have "iter_at lib (fs ! j) (?rss ! j) (mi_iters (take_top m1) ! j)" if "j < length fs" for j
    using seek [OF that] that by (auto simp: tt)
  then have "walking lib fs ?rss (take_top m1)" using m1(2,3) sw seek by (simp add: walking_def tt)
  ultimately show ?thesis by (auto simp: tt)
qed

section \<open>The loop\<close>

lemma ParseInternalKey_InternalKey: "ParseInternalKey (InternalKey k 1 kTypeValue) = Some (Inr (k, 1, kTypeValue))"
proof -
  have "PackSequenceAndType 1 kTypeValue = 0x101" by (simp add: PackSequenceAndType_def)
  moreover have "DecodeFixed64 (EncodeFixed64 v) = v" for v using DecodeFixed64_Encode [of v "[]"] by simp
  moreover have "drop_bit 8 (0x101 :: u64) = 1" by (simp add: drop_bit_eq_div)
  ultimately show ?thesis
    by (simp add: ParseInternalKey_def InternalKey_def PutFixed64_def IsExtendedValueType_def)
qed

text \<open>The context of a record, and the batch that a context becomes.\<close>

definition gc_ctx :: "u64 \<Rightarrow> BlobIndex \<times> BlobRecord \<Rightarrow> BlobRecordContext" where
  "gc_ctx n x = \<lparr>rc_key = InternalKey (rec_key (snd x)) 1 kTypeValue, rc_original_blob_index = fst x,
     rc_new_blob_index = BlobIndex_zero\<lparr>bi_file_number := n\<rparr>, rc_has_value = False, rc_value = []\<rparr>"

definition ctx_batch :: "u32 \<Rightarrow> BlobRecordContext \<Rightarrow> WriteBatch \<times> WriteCallback" where
  "ctx_batch cf c =
     (let key = take (length (rc_key c) - 8) (rc_key c);
          new = BlobIndex_zero\<lparr>bi_file_number := bi_file_number (rc_new_blob_index c), bi_handle := bi_handle (rc_new_blob_index c)\<rparr>
      in ([PutBlobIndexOp cf key (BlobIndex_EncodeTo [] new)],
          \<lparr>cb_key = key, cb_blob_index = rc_original_blob_index c, cb_new_blob_index = new, cb_read_bytes = 0\<rparr>))"

lemma BatchWriteNewIndices_contexts:
  "(\<And>c. c \<in> set cs \<Longrightarrow> \<exists>k. rc_key c = InternalKey k 1 kTypeValue \<and> k \<noteq> []) \<Longrightarrow>
   BatchWriteNewIndices cs OK j = Some (OK, j\<lparr>gj_batches := gj_batches j @ map (ctx_batch (gj_cf j)) cs\<rparr>)"
proof (induction cs arbitrary: j)
  case (Cons c cs)
  obtain k where k: "rc_key c = InternalKey k 1 kTypeValue" "k \<noteq> []" using Cons.prems by force
  have "take (length (rc_key c) - 8) (rc_key c) = k" by (simp add: k InternalKey_def PutFixed64_def)
  then show ?case
    using Cons.IH [of "j\<lparr>gj_batches := gj_batches j @ [ctx_batch (gj_cf j) c]\<rparr>"] Cons.prems k(2)
    by (simp add: k(1) ParseInternalKey_InternalKey WriteCallback_new_def WriteBatch_PutBlobIndex_def ctx_batch_def Let_def)
qed simp

lemma BlobIndex_Decode_error: "BlobIndex_DecodeFrom obj src = Inl s \<Longrightarrow> s \<noteq> OK"
  by (auto simp: BlobIndex_DecodeFrom_def BlobHandle_DecodeFrom_def Let_def split: option.splits prod.splits if_splits sum.splits)

lemma DiscardEntry_cases:
  assumes "DiscardEntry k bi j w = (r, j', w')"
  shows "evolved w w' \<and> unmoved w w' \<and> same_job j j' \<and> (\<forall>d. r = Inr d \<longrightarrow> d = (\<not> points_to (w_base w' k) bi)) \<and> r \<noteq> Inl OK"
proof -
  obtain s v b w1 where r: "base_GetImpl k w = ((s, v, b), w1)" by (metis prod.exhaust)
  then have rd: "base_read k (others w) = ((s, v, b), w1)" by (simp add: base_GetImpl_def)
  note c = base_read_cases [OF rd]
  have e: "evolved w w1" "unmoved w w1" using c others_evolved others_unmoved evolved_trans unmoved_trans by blast+
  show ?thesis
  proof (cases "s \<noteq> OK \<and> \<not> IsNotFound s")
    case True
    then show ?thesis using assms r e by (auto simp: DiscardEntry_def)
  next
    case False
    show ?thesis
    proof (cases "IsNotFound s \<or> \<not> b")
      case True
      then show ?thesis using False assms r e c by (auto simp: DiscardEntry_def Let_def points_to_def entry_index_def)
    next
      case nb: False
      then have "w_base w1 k = Some (v, True)" "s = OK" using False c by auto
      then show ?thesis
        using assms r e nb
        by (cases "BlobIndex_DecodeFrom BlobIndex_zero v")
          (auto simp: DiscardEntry_def Let_def points_to_def entry_index_def dest: BlobIndex_Decode_error)
    qed
  qed
qed

definition sources :: "BlobLib \<Rightarrow> merge_file list \<Rightarrow> (BlobIndex \<times> BlobRecord) set" where
  "sources lib fs = {(file_index lib f i, file_records f ! i) | f i. f \<in> set fs \<and> i < length (file_records f)}"

definition covered :: "(bytes \<rightharpoonup> base_entry) \<Rightarrow> (BlobIndex \<times> BlobRecord) list \<Rightarrow> BlobIndex \<times> BlobRecord \<Rightarrow> bool" where
  "covered m items x \<longleftrightarrow> (\<exists>y \<in> set items. rec_key (snd y) = rec_key (snd x) \<and> BlobIndex_eq (fst y) (fst x)) \<or>
     \<not> points_to (m (rec_key (snd x))) (fst x)"

lemma covered_mono:
  "covered m items x \<Longrightarrow> set items \<subseteq> set items' \<Longrightarrow> no_new_refs I m m' \<Longrightarrow> bi_file_number (fst x) \<in> I \<Longrightarrow> covered m' items' x"
  unfolding covered_def using no_new_refs_dead by blast

lemma BlobIndex_eq_join: "BlobIndex_eq a c \<Longrightarrow> BlobIndex_eq b c \<Longrightarrow> BlobIndex_eq a b"
  by (auto simp: BlobIndex_eq_def BlobHandle_eq_def)

lemma points_to_join: "points_to e a \<Longrightarrow> points_to e b \<Longrightarrow> BlobIndex_eq a b"
proof -
  assume "points_to e a" "points_to e b"
  then obtain c where "BlobIndex_eq a c" "BlobIndex_eq b c" by (auto simp: points_to_def)
  then show "BlobIndex_eq a b" by (rule BlobIndex_eq_join)
qed

text \<open>The options and inputs of a collection that copies records to a new blob file.\<close>

definition copying :: "BlobLib \<Rightarrow> merge_file list \<Rightarrow> GCJob \<Rightarrow> bool" where
  "copying lib fs j \<longleftrightarrow> lib_sound lib \<and> buildable lib (gj_opts j) kVersion2 \<and> co_target_size (gj_opts j) > 0 \<and>
     \<not> gj_use_bitmap j \<and> \<not> gj_offload j \<and> co_blob_run_mode (gj_opts j) \<noteq> kFallback \<and> gj_builders j = [] \<and> gj_batches j = [] \<and>
     (\<forall>x \<in> sources lib fs. rec_key (snd x) \<noteq> [])"

abbreviation gc_header :: "GCJob \<Rightarrow> BlobFileHeader" where
  "gc_header j \<equiv> built_header (gj_opts j) kVersion2"

text \<open>The state of the loop when the records \<open>items\<close> have been copied to the file \<open>n0\<close>.\<close>

definition gathered :: "BlobLib \<Rightarrow> merge_file list \<Rightarrow> GCJob \<Rightarrow> u64 \<Rightarrow> (BlobIndex \<times> BlobRecord) list \<Rightarrow> GCLoop \<Rightarrow> bool" where
  "gathered lib fs j0 n0 items st \<longleftrightarrow>
     set items \<subseteq> sources lib fs \<and> same_job (j0\<lparr>gj_batches := gj_batches (gl_job st)\<rparr>) (gl_job st) \<and>
     gl_status st = OK \<and> gl_file_size st = 0 \<and> \<not> w_mutex (gl_world st) \<and> (\<forall>x \<in> set (w_new_files (gl_world st)). snd x = []) \<and>
     (case gl_out st of
        None \<Rightarrow> items = [] \<and> gj_batches (gl_job st) = [] \<and> fs_next_file_number (w_fileset (gl_world st)) = n0
      | Some (n, b) \<Rightarrow> n = n0 \<and> bb_opts b = gj_opts j0 \<and>
          (\<exists>outs. building lib (gc_header j0) (map snd items) (map (gc_ctx n0) items) outs b \<and>
             gj_batches (gl_job st) = map (ctx_batch (gj_cf j0)) outs))"

text \<open>A fresh key needs no further look.\<close>

definition fresh_covered :: "BlobLib \<Rightarrow> merge_file list \<Rightarrow> (BlobIndex \<times> BlobRecord) list \<Rightarrow> GCLoop \<Rightarrow> bool" where
  "fresh_covered lib fs items st \<longleftrightarrow>
     (gl_fresh st \<longrightarrow> (\<forall>x \<in> sources lib fs. rec_key (snd x) = gl_last_key st \<longrightarrow> covered (w_base (gl_world st)) items x))"

definition gathering :: "BlobLib \<Rightarrow> merge_file list \<Rightarrow> GCJob \<Rightarrow> u64 \<Rightarrow> (BlobIndex \<times> BlobRecord) list \<Rightarrow> GCLoop \<Rightarrow> bool" where
  "gathering lib fs j0 n0 items st \<longleftrightarrow> gathered lib fs j0 n0 items st \<and> fresh_covered lib fs items st"

text \<open>The contexts that come out of a builder carry the keys of the records.\<close>

lemma building_contexts:
  assumes "building lib hdr recs (map (gc_ctx n) items) outs b" "c \<in> set outs" "\<And>x. x \<in> set items \<Longrightarrow> rec_key (snd x) \<noteq> []"
  shows "\<exists>k. rc_key c = InternalKey k 1 kTypeValue \<and> k \<noteq> []"
proof -
  have "outs = handled hdr (encoded lib b recs) (map (gc_ctx n) items)" using assms(1,2) by (auto simp: building_def split: if_splits)
  then obtain i where "i < length items" "c = set_handle (nth_handle hdr (encoded lib b recs) i) (gc_ctx n (items ! i))"
    using assms(2) by (auto simp: handled_def)
  then show ?thesis using assms(3) [of "items ! i"] by (auto simp: set_handle_def gc_ctx_def)
qed

lemma gathered_job:
  assumes "gathered lib fs j0 n0 items st"
  shows "gj_opts (gl_job st) = gj_opts j0" "gj_cf (gl_job st) = gj_cf j0" "gj_use_bitmap (gl_job st) = gj_use_bitmap j0"
    "gj_gc (gl_job st) = gj_gc j0" "gj_offload (gl_job st) = gj_offload j0" "gj_builders (gl_job st) = gj_builders j0"
proof -
  have "same_job (j0\<lparr>gj_batches := gj_batches (gl_job st)\<rparr>) (gl_job st)" using assms by (simp add: gathered_def)
  from same_jobD [OF this] show "gj_opts (gl_job st) = gj_opts j0" "gj_cf (gl_job st) = gj_cf j0" "gj_use_bitmap (gl_job st) = gj_use_bitmap j0"
    "gj_gc (gl_job st) = gj_gc j0" "gj_offload (gl_job st) = gj_offload j0" "gj_builders (gl_job st) = gj_builders j0" by simp_all
qed

lemma gathered_target:
  assumes "copying lib fs j0" "gathered lib fs j0 n0 items st"
  shows "\<not> gl_file_size st \<ge> co_target_size (gj_opts (gl_job st))"
proof -
  have "gl_file_size st = 0" "0 < co_target_size (gj_opts j0)" using assms by (simp_all add: gathered_def copying_def)
  then show ?thesis unfolding gathered_job(1) [OF assms(2)] by (metis not_le)
qed

lemma output_file_ok:
  assumes cp: "copying lib fs j0" and g: "gathered lib fs j0 n0 items st"
  obtains s w where "output_file lib st = Some (Inl s, st\<lparr>gl_world := w\<rparr>)" "evolved (gl_world st) w" "s \<noteq> OK"
  | b outs w where "output_file lib st = Some (Inr (n0, b), st\<lparr>gl_world := w\<rparr>)" "evolved (gl_world st) w" "w_base w = w_base (gl_world st)"
    "\<forall>x \<in> set (w_new_files w). snd x = []" "bb_opts b = gj_opts j0"
    "building lib (gc_header j0) (map snd items) (map (gc_ctx n0) items) outs b"
    "gj_batches (gl_job st) = map (ctx_batch (gj_cf j0)) outs"
proof (cases "gl_out st")
  case (Some out)
  obtain n b where out: "out = (n, b)" by (cases out)
  have tgt: "\<not> gl_file_size st \<ge> co_target_size (gj_opts (gl_job st))"
    using gathered_target [OF cp g] .
  have o: "output_file lib st = Some (Inr (n, b), st\<lparr>gl_world := gl_world st\<rparr>)"
    using tgt Some out by (simp add: output_file_def)
  obtain outs where "n = n0" "bb_opts b = gj_opts j0" "\<forall>x \<in> set (w_new_files (gl_world st)). snd x = []"
    "building lib (gc_header j0) (map snd items) (map (gc_ctx n0) items) outs b" "gj_batches (gl_job st) = map (ctx_batch (gj_cf j0)) outs"
    using g Some out by (auto simp: gathered_def)
  then show thesis using that(2) [of b "gl_world st" outs] o by simp
next
  case None
  let ?w = "gl_world st"
  note opts = gathered_job(1) [OF g]
  have tgt: "\<not> gl_file_size st \<ge> co_target_size (gj_opts (gl_job st))"
    using gathered_target [OF cp g] .
  have st: "gl_file_size st = 0" "items = []" "gj_batches (gl_job st) = []" "fs_next_file_number (w_fileset ?w) = n0" "\<not> w_mutex ?w"
    and nf: "\<forall>x \<in> set (w_new_files ?w). snd x = []"
    using g None by (simp_all add: gathered_def)
  define w1 where "w1 = set_fileset ((w_fileset ?w)\<lparr>fs_next_file_number := n0 + 1\<rparr>) ?w"
  obtain f w2 where fw: "(case w_new_files w1 of [] \<Rightarrow> ((OK, []), w1) | f # fs \<Rightarrow> (f, w1\<lparr>w_new_files := fs\<rparr>)) = (f, w2)" by (metis prod.exhaust)
  have f2: "snd f = []" "\<forall>x \<in> set (w_new_files w2). snd x = []" "w_mutex w2 = w_mutex ?w"
    and w2: "steady ?w w2" "w_base w2 = w_base ?w" "w_writes w2 = w_writes ?w"
    using fw nf by (auto simp: w1_def set_fileset_def steady_def w_fileset_def split: list.splits)
  obtain s io where fs: "f = (s, io)" by (cases f)
  have nfn: "NewFileNumber (w_fileset ?w) = (n0, (w_fileset ?w)\<lparr>fs_next_file_number := n0 + 1\<rparr>)"
    using st(4) by (simp add: NewFileNumber_def)
  show thesis
  proof (cases "s = OK")
    case False
    then have "NewFile ?w = Some (Inl s, w2)" using fw fs nfn by (simp add: NewFile_def w1_def [symmetric])
    then have "output_file lib st = Some (Inl s, st\<lparr>gl_world := w2\<rparr>)" using None tgt by (simp add: output_file_def)
    moreover have "evolved ?w w2" using w2 by (rule evolved_same)
    ultimately show thesis using that(1) False by blast
  next
    case True
    let ?w3 = "mutex_Unlock (w2\<lparr>w_mutex := True, w_pending := List.insert n0 (w_pending w2)\<rparr>)"
    have "NewFile ?w = Some (Inr (n0, \<lparr>wf_data = [], wf_io = []\<rparr>), ?w3)"
      using fw fs nfn True f2(1,3) st(5) by (simp add: NewFile_def w1_def [symmetric] mutex_Lock_def)
    moreover obtain b where b: "BlobFileBuilder_new lib (gj_opts j0) \<lparr>wf_data = [], wf_io = []\<rparr> kVersion2 = Some b"
      "building lib (gc_header j0) [] [] [] b" "bb_opts b = gj_opts j0"
      using BlobFileBuilder_new_building [of lib "gj_opts j0" kVersion2] cp by (auto simp: copying_def)
    moreover have "st\<lparr>gl_world := ?w3, gl_file_size := 0\<rparr> = st\<lparr>gl_world := ?w3\<rparr>" using st(1) by simp
    ultimately have "output_file lib st = Some (Inr (n0, b), st\<lparr>gl_world := ?w3\<rparr>)" using None tgt opts by (simp add: output_file_def)
    moreover have "evolved ?w ?w3"
      using w2 f2(3) st(5) by (intro evolved_same) (simp_all add: mutex_Unlock_def steady_def w_fileset_def)
    moreover have "w_base ?w3 = w_base ?w" "\<forall>x \<in> set (w_new_files ?w3). snd x = []" using w2(2) f2(2) by (simp_all add: mutex_Unlock_def)
    ultimately show thesis using that(2) [of b ?w3 "[]"] b(2,3) st by simp
  qed
qed

lemma rewrite_record_ok:
  assumes cp: "copying lib fs j0" and g: "gathered lib fs j0 n0 items st" and x: "x \<in> sources lib fs"
    and fr: "fresh_covered lib fs (items @ [x]) st"
  obtains go_on st' where "rewrite_record lib (snd x) (fst x) st = Some (go_on, st')" "evolved (gl_world st) (gl_world st')"
    "gl_iter st' = gl_iter st" "w_base (gl_world st') = w_base (gl_world st) \<or> \<not> go_on"
    "go_on \<Longrightarrow> gathering lib fs j0 n0 (items @ [x]) st'" "\<not> go_on \<Longrightarrow> gl_status st' \<noteq> OK"
proof (rule output_file_ok [OF cp g])
  fix s w assume o: "output_file lib st = Some (Inl s, st\<lparr>gl_world := w\<rparr>)" "evolved (gl_world st) w" "s \<noteq> OK"
  then show thesis using that [of False "st\<lparr>gl_world := w, gl_status := s\<rparr>"] by (simp add: rewrite_record_def)
next
  fix b outs w
  assume o: "output_file lib st = Some (Inr (n0, b), st\<lparr>gl_world := w\<rparr>)" "evolved (gl_world st) w" "w_base w = w_base (gl_world st)"
    "\<forall>x \<in> set (w_new_files w). snd x = []" "bb_opts b = gj_opts j0"
    and b: "building lib (gc_header j0) (map snd items) (map (gc_ctx n0) items) outs b"
    and bt: "gj_batches (gl_job st) = map (ctx_batch (gj_cf j0)) outs"
  let ?f = "\<lambda>m. m\<lparr>gm_bytes_written := gm_bytes_written m + of_nat (BlobRecord_size (snd x))\<rparr>"
  let ?j = "count_metrics ?f (gl_job st)"
  have lib: "lib_sound lib" using cp by (simp add: copying_def)
  obtain b' new where b': "Builder_Add lib (snd x) (gc_ctx n0 x) b = Some (b', new)"
    "building lib (gc_header j0) (map snd items @ [snd x]) (map (gc_ctx n0) items @ [gc_ctx n0 x]) (outs @ new) b'" "bb_opts b' = bb_opts b"
    by (rule Builder_Add_building [OF lib b, of "gc_ctx n0 x" "snd x"]) (simp add: gc_ctx_def, rule that)
  have key: "rec_key (snd y) \<noteq> []" if "y \<in> set (items @ [x])" for y using that g x cp by (auto simp: gathered_def copying_def)
  have "\<exists>k. rc_key c = InternalKey k 1 kTypeValue \<and> k \<noteq> []" if "c \<in> set new" for c
    by (rule building_contexts [of lib "gc_header j0" "map snd (items @ [x])" n0 "items @ [x]" "outs @ new" b']) (use b'(2) that key in auto)
  then have bw: "BatchWriteNewIndices new OK ?j = Some (OK, ?j\<lparr>gj_batches := gj_batches ?j @ map (ctx_batch (gj_cf ?j)) new\<rparr>)"
    by (rule BatchWriteNewIndices_contexts)
  let ?st' = "st\<lparr>gl_world := w, gl_out := Some (n0, b'), gl_job := ?j\<lparr>gj_batches := gj_batches ?j @ map (ctx_batch (gj_cf ?j)) new\<rparr>, gl_status := OK\<rparr>"
  have sj: "same_job (j0\<lparr>gj_batches := gj_batches (gl_job st)\<rparr>) (gl_job st)" and st: "gl_status st = OK" using g by (simp_all add: gathered_def)
  note cf = gathered_job(2) [OF g]
  have r: "rewrite_record lib (snd x) (fst x) st = Some (True, ?st')"
    using o(1) b'(1) bw st by (simp add: rewrite_record_def gc_ctx_def [of n0 x, symmetric])
  have "same_job (j0\<lparr>gj_batches := gj_batches ?j @ map (ctx_batch (gj_cf ?j)) new\<rparr>) (gl_job ?st')"
    using sj by (cases j0; cases "gl_job st") (simp add: same_job_def count_metrics_def)
  moreover have "gj_batches (gl_job ?st') = map (ctx_batch (gj_cf j0)) (outs @ new)" using bt cf by (simp add: count_metrics_def)
  moreover have "\<not> w_mutex w" using o(2) g by (simp add: evolved_def steady_def gathered_def)
  ultimately have "gathered lib fs j0 n0 (items @ [x]) ?st'"
    using g x o(3,4,5) b'(2,3) unfolding gathered_def by (auto simp: count_metrics_def)
  then have "gathering lib fs j0 n0 (items @ [x]) ?st'" using fr o(3) by (simp add: gathering_def fresh_covered_def)
  then show thesis using that [OF r] o(2,3) by simp
qed

text \<open>The loop variables that do not matter for what is gathered.\<close>

lemma gathering_count [simp]:
  "gathering lib fs j0 n0 items (st\<lparr>gl_job := count_metrics f (gl_job st)\<rparr>) = gathering lib fs j0 n0 items st"
proof -
  have "same_job (j0\<lparr>gj_batches := gj_batches (gl_job st)\<rparr>) (count_metrics f (gl_job st)) =
      same_job (j0\<lparr>gj_batches := gj_batches (gl_job st)\<rparr>) (gl_job st)"
    by (cases j0; cases "gl_job st") (simp add: same_job_def count_metrics_def)
  then show ?thesis by (cases "gl_out st") (simp_all add: gathering_def gathered_def fresh_covered_def count_metrics_def)
qed

lemma gathering_job_same:
  assumes "same_job (gl_job st) j" "gathering lib fs j0 n0 items st"
  shows "gathering lib fs j0 n0 items (st\<lparr>gl_job := j\<rparr>)"
proof -
  have "j = count_metrics (\<lambda>_. gj_metrics j) (gl_job st)"
    using assms(1) by (cases j; cases "gl_job st") (simp add: same_job_def count_metrics_def)
  then show ?thesis using assms(2) gathering_count by metis
qed

lemma gathering_moved [simp]: "gathering lib fs j0 n0 items (iter_moved st mi) = gathering lib fs j0 n0 items st"
proof -
  have "gathering lib fs j0 n0 items (iter_moved st mi) =
      gathering lib fs j0 n0 items (st\<lparr>gl_job := count_metrics (\<lambda>m. m\<lparr>gm_num_read_blob := gm_num_read_blob m + 1\<rparr>) (gl_job st)\<rparr>)"
    by (cases "gl_out st") (simp_all add: gathering_def gathered_def fresh_covered_def iter_moved_def)
  then show ?thesis by simp
qed

lemma sources_files: "x \<in> sources lib fs \<Longrightarrow> bi_file_number (fst x) \<in> file_number ` set fs"
  by (force simp: sources_def file_index_def split: prod.splits)

lemma evolved_no_new_refs: "evolved w w' \<Longrightarrow> writes_ok I (w_writes w) \<Longrightarrow> no_new_refs I (w_base w) (w_base w') \<and> writes_ok I (w_writes w')"
  using writes_no_new_refs unfolding evolved_def by (metis writes_ok_append)

lemma gathering_evolved:
  assumes g: "gathering lib fs j0 n0 items st" and e: "evolved (gl_world st) w" "unmoved (gl_world st) w"
    and ok: "writes_ok (file_number ` set fs) (w_writes (gl_world st))"
  shows "gathering lib fs j0 n0 items (st\<lparr>gl_world := w\<rparr>)"
proof -
  have n: "no_new_refs (file_number ` set fs) (w_base (gl_world st)) (w_base w)" using evolved_no_new_refs [OF e(1) ok] by simp
  have "covered (w_base w) items x" if "covered (w_base (gl_world st)) items x" "x \<in> sources lib fs" for x
    by (rule covered_mono [OF that(1) subset_refl n]) (rule sources_files [OF that(2)])
  then show ?thesis
    using g e by (cases "gl_out st") (auto simp: gathering_def gathered_def fresh_covered_def evolved_def steady_def unmoved_def)
qed

lemma gathering_key [simp]:
  "gathering lib fs j0 n0 items st \<Longrightarrow> gathering lib fs j0 n0 items (st\<lparr>gl_last_key := k, gl_fresh := False\<rparr>)"
  by (cases "gl_out st") (auto simp: gathering_def gathered_def fresh_covered_def)

text \<open>One record.\<close>

lemma gc_entry_ok:
  assumes cp: "copying lib fs j0" and g: "gathering lib fs j0 n0 items st" and x: "x \<in> sources lib fs"
    and it: "current_iter (gl_iter st) = Some it" "GetBlobIndex it = fst x" "it_record it = snd x"
    and ok: "writes_ok (file_number ` set fs) (w_writes (gl_world st))"
  obtains go_on st' items' where "gc_entry lib st = Some (go_on, st')" "evolved (gl_world st) (gl_world st')" "gl_iter st' = gl_iter st"
    "go_on \<Longrightarrow> gathering lib fs j0 n0 items' st' \<and> covered (w_base (gl_world st')) items' x \<and> set items \<subseteq> set items' \<and>
      length items' \<le> Suc (length items)"
    "\<not> go_on \<Longrightarrow> gl_status st' \<noteq> OK"
proof -
  obtain shut w1 where sh: "IsShutingDown (gl_world st) = (shut, w1)" by (cases "IsShutingDown (gl_world st)")
  have e1: "evolved (gl_world st) w1" "unmoved (gl_world st) w1" "w_writes w1 = w_writes (gl_world st)"
    using IsShutingDown_evolved [OF sh] evolved_same answers_unmoved(2) [OF sh] by blast+
  let ?key = "rec_key (snd x)" and ?sz = "bh_size (bi_handle (fst x))"
  let ?s1 = "st\<lparr>gl_world := w1\<rparr>"
  let ?s2 = "?s1\<lparr>gl_job := count_metrics (\<lambda>m. m\<lparr>gm_bytes_read := gm_bytes_read m + ?sz\<rparr>) (gl_job st)\<rparr>"
  have g2: "gathering lib fs j0 n0 items ?s2"
    using gathering_evolved [OF g e1(1,2) ok] gathering_count [of lib fs j0 n0 items "\<lambda>m. m\<lparr>gm_bytes_read := gm_bytes_read m + ?sz\<rparr>" ?s1] by simp
  have key: "?key \<noteq> []" using cp x by (simp add: copying_def)
  show thesis
  proof (cases shut)
    case True
    then show thesis using that [of False "?s1\<lparr>gl_status := ShutdownInProgress\<rparr>"] e1 it sh by (simp add: gc_entry_def)
  next
    case no: False
    let ?same = "gl_last_key st \<noteq> [] \<and> ?key = gl_last_key st"
    show thesis
    proof (cases "?same \<and> gl_fresh st")
      case True
      then have "gc_entry lib st = Some (True, ?s2)" using no it sh by (simp add: gc_entry_def Let_def)
      moreover have "covered (w_base w1) items x" using g2 True x by (simp add: gathering_def fresh_covered_def)
      ultimately show thesis using that [of True ?s2 items] e1(1) g2 by simp
    next
      case fresh: False
      define s3 where "s3 = (if ?same then ?s2 else ?s2\<lparr>gl_last_key := ?key, gl_fresh := False\<rparr>)"
      have s3: "gathering lib fs j0 n0 items s3" "gl_world s3 = w1" "gl_iter s3 = gl_iter st" "\<not> gl_fresh s3" "gl_last_key s3 = ?key"
        "gathered lib fs j0 n0 items s3"
        using g2 fresh gathering_key [OF g2] by (auto simp: s3_def gathering_def)
      obtain r j w4 where d: "DiscardEntry ?key (fst x) (gl_job s3) w1 = (r, j, w4)" by (metis prod.exhaust)
      note dc = DiscardEntry_cases [OF d]
      have ev: "evolved (gl_world st) w4" using dc e1(1) evolved_trans by blast
      let ?s4 = "s3\<lparr>gl_job := j, gl_world := w4\<rparr>"
      have ok1: "writes_ok (file_number ` set fs) (w_writes (gl_world (s3\<lparr>gl_job := j\<rparr>)))" using ok e1(3) s3(2) by simp
      have "gathering lib fs j0 n0 items (s3\<lparr>gl_job := j\<rparr>)" by (rule gathering_job_same) (use dc s3(1) in auto)
      from gathering_evolved [OF this _ _ ok1, of w4]
      have g4: "gathering lib fs j0 n0 items ?s4" using dc s3(2) by simp
      have dis: "discardable it s3 = Some (r, ?s4)"
        using gathered_job(3) [OF s3(6)] cp d s3(2) it by (simp add: discardable_def copying_def)
      have entry: "gc_entry lib st = (case discardable it s3 of
                   None \<Rightarrow> None
                 | Some (Inl s, st) \<Rightarrow> Some (False, st\<lparr>gl_status := s\<rparr>)
                 | Some (Inr True, st) \<Rightarrow>
                     Some (True, st\<lparr>gl_job := count_metrics (\<lambda>m. m\<lparr>gm_num_keys_overwritten := gm_num_keys_overwritten m + 1,
                        gm_bytes_overwritten := gm_bytes_overwritten m + ?sz\<rparr>) (gl_job st)\<rparr>)
                 | Some (Inr False, st) \<Rightarrow>
                     (let st = (if gj_use_bitmap (gl_job st) then st else st\<lparr>gl_fresh := True\<rparr>) in
                      if co_blob_run_mode (gj_opts (gl_job st)) = kFallback
                      then rewrite_inline (snd x) (fst x) st
                      else rewrite_record lib (snd x) (fst x) st))"
        using no fresh it sh
        by (cases "gl_last_key st = []"; cases "?key = gl_last_key st"; cases "gl_fresh st") (simp_all add: gc_entry_def s3_def Let_def)
      show thesis
      proof (cases r)
        case (Inl s)
        then have "gc_entry lib st = Some (False, ?s4\<lparr>gl_status := s\<rparr>)" "s \<noteq> OK" using entry dis dc by auto
        then show thesis using that [of False "?s4\<lparr>gl_status := s\<rparr>"] ev s3(3) by simp
      next
        case (Inr dd)
        then have dd: "dd = (\<not> points_to (w_base w4 ?key) (fst x))" using dc by blast
        show thesis
        proof (cases dd)
          case True
          let ?s5 = "?s4\<lparr>gl_job := count_metrics (\<lambda>m. m\<lparr>gm_num_keys_overwritten := gm_num_keys_overwritten m + 1,
                        gm_bytes_overwritten := gm_bytes_overwritten m + ?sz\<rparr>) (gl_job ?s4)\<rparr>"
          have "gc_entry lib st = Some (True, ?s5)" using entry dis Inr True by simp
          moreover have "gathering lib fs j0 n0 items ?s5" using g4 gathering_count [of lib fs j0 n0 items _ ?s4] by blast
          moreover have "covered (w_base w4) items x" using dd True by (simp add: covered_def)
          ultimately show thesis using that [of True ?s5 items] ev s3(3) by simp
        next
          case False
          let ?s5 = "?s4\<lparr>gl_fresh := True\<rparr>"
          have "\<not> gj_use_bitmap (gl_job ?s4)" "co_blob_run_mode (gj_opts (gl_job ?s4)) \<noteq> kFallback"
            using gathered_job(1,3) [OF g4 [unfolded gathering_def, THEN conjunct1]] cp by (simp_all add: copying_def)
          then have en: "gc_entry lib st = rewrite_record lib (snd x) (fst x) ?s5" using entry dis Inr False by simp
          have cov: "\<forall>y \<in> sources lib fs. rec_key (snd y) = ?key \<longrightarrow> covered (w_base w4) (items @ [x]) y"
          proof (intro ballI impI)
            fix y assume y: "y \<in> sources lib fs" "rec_key (snd y) = ?key"
            have px: "points_to (w_base w4 ?key) (fst x)" using dd False by simp
            show "covered (w_base w4) (items @ [x]) y"
            proof (cases "points_to (w_base w4 ?key) (fst y)")
              case True
              then have "BlobIndex_eq (fst x) (fst y)" using px points_to_join by blast
              then show ?thesis using y(2) by (simp add: covered_def)
            qed (simp add: covered_def y(2))
          qed
          have g5: "gathered lib fs j0 n0 items ?s5" using g4 by (cases "gl_out s3") (auto simp: gathering_def gathered_def)
          have fr: "fresh_covered lib fs (items @ [x]) ?s5" using cov s3(5) by (simp add: fresh_covered_def)
          obtain go_on s6 where s6: "rewrite_record lib (snd x) (fst x) ?s5 = Some (go_on, s6)" "evolved (gl_world ?s5) (gl_world s6)"
            "gl_iter s6 = gl_iter ?s5" "w_base (gl_world s6) = w_base (gl_world ?s5) \<or> \<not> go_on"
            "go_on \<Longrightarrow> gathering lib fs j0 n0 (items @ [x]) s6" "\<not> go_on \<Longrightarrow> gl_status s6 \<noteq> OK"
            by (rule rewrite_record_ok [OF cp g5 x fr]) (rule that; (assumption | simp))
          have "evolved (gl_world st) (gl_world s6)" using ev s6(2) evolved_trans by simp
          moreover have "covered (w_base (gl_world s6)) (items @ [x]) x" by (auto simp: covered_def BlobIndex_eq_def BlobHandle_eq_def)
          ultimately show thesis using that [of go_on s6 "items @ [x]"] en s6 s3(3) by auto
        qed
      qed
    qed
  qed
qed

text \<open>The records that are still to be visited.\<close>

definition unvisited :: "BlobLib \<Rightarrow> merge_file list \<Rightarrow> BlobRecord list list \<Rightarrow> (BlobIndex \<times> BlobRecord) set" where
  "unvisited lib fs rss = {(file_index lib (fs ! j) i, file_records (fs ! j) ! i) | j i.
     j < length fs \<and> i < length (file_records (fs ! j)) \<and> length (file_records (fs ! j)) - length (rss ! j) \<le> i}"

lemma unvisited_step:
  assumes "length fs = length rss" "c < length fs" "i = length (file_records (fs ! c)) - length (rss ! c)"
  shows "unvisited lib fs rss \<subseteq> insert (file_index lib (fs ! c) i, file_records (fs ! c) ! i) (unvisited lib fs (rss[c := tl (rss ! c)]))"
proof
  fix x assume "x \<in> unvisited lib fs rss"
  then obtain j k where x: "x = (file_index lib (fs ! j) k, file_records (fs ! j) ! k)" "j < length fs" "k < length (file_records (fs ! j))"
    "length (file_records (fs ! j)) - length (rss ! j) \<le> k" by (auto simp: unvisited_def)
  show "x \<in> insert (file_index lib (fs ! c) i, file_records (fs ! c) ! i) (unvisited lib fs (rss[c := tl (rss ! c)]))"
  proof (cases "j = c \<and> k = i")
    case False
    then have "length (file_records (fs ! j)) - length (rss[c := tl (rss ! c)] ! j) \<le> k"
      using x(3,4) assms by (cases "j = c") (auto simp: nth_list_update)
    then show ?thesis using x by (auto simp: unvisited_def)
  qed (simp add: x(1))
qed

lemma unvisited_all: "unvisited lib fs (map file_records fs) = sources lib fs"
proof
  show "unvisited lib fs (map file_records fs) \<subseteq> sources lib fs"
  proof
    fix x assume "x \<in> unvisited lib fs (map file_records fs)"
    then obtain j i where x: "x = (file_index lib (fs ! j) i, file_records (fs ! j) ! i)" "j < length fs" "i < length (file_records (fs ! j))"
      by (auto simp: unvisited_def)
    then show "x \<in> sources lib fs" using nth_mem [OF x(2)] unfolding sources_def by blast
  qed
  show "sources lib fs \<subseteq> unvisited lib fs (map file_records fs)"
  proof
    fix x assume "x \<in> sources lib fs"
    then obtain f i where x: "x = (file_index lib f i, file_records f ! i)" "f \<in> set fs" "i < length (file_records f)"
      unfolding sources_def by blast
    then obtain j where j: "j < length fs" "f = fs ! j" by (metis in_set_conv_nth)
    have "length (file_records (fs ! j)) - length (map file_records fs ! j) \<le> i" using j(1) by simp
    then show "x \<in> unvisited lib fs (map file_records fs)" using x j unfolding unvisited_def by blast
  qed
qed

lemma gc_loop_ok:
  assumes cp: "copying lib fs j0" and w: "walking lib fs rss (gl_iter st)" and g: "gathering lib fs j0 n0 items st"
    and ok: "writes_ok (file_number ` set fs) (w_writes (gl_world st))"
  shows "\<exists>st'. gc_loop lib st = Some st' \<and> evolved (gl_world st) (gl_world st') \<and> Merge_status (gl_iter st') = OK \<and>
    (gl_status st' = OK \<longrightarrow> (\<exists>items'. gathering lib fs j0 n0 items' st' \<and> set items \<subseteq> set items' \<and> length items' \<le> length items + length (concat rss) \<and>
       (\<forall>x \<in> unvisited lib fs rss. covered (w_base (gl_world st')) items' x)))"
  using w g ok
proof (induction "length (concat rss)" arbitrary: rss st items rule: less_induct)
  case less
  show ?case
  proof (cases "mi_current (gl_iter st)")
    case None
    note e = walking_end [OF less.prems(1) None]
    have "rss ! j = []" if "j < length fs" for j using e(3) that less.prems(1) by (simp add: walking_def)
    then have "unvisited lib fs rss = {}" by (auto simp: unvisited_def)
    then show ?thesis using e less.prems(2) by (subst gc_loop.simps) auto
  next
    case (Some c)
    let ?it = "mi_iters (gl_iter st) ! c"
    obtain i mi' where v: "Merge_Valid (gl_iter st)" "Merge_status (gl_iter st) = OK" "c < length fs" "i < length (file_records (fs ! c))"
      "i = length (file_records (fs ! c)) - length (rss ! c)"
      and it: "current_iter (gl_iter st) = Some ?it" "it_record ?it = file_records (fs ! c) ! i"
      "GetBlobIndex ?it = file_index lib (fs ! c) i" "rss ! c = file_records (fs ! c) ! i # tl (rss ! c)"
      and n: "Merge_Next lib (gl_iter st) = Some mi'" "walking lib fs (rss[c := tl (rss ! c)]) mi'"
      by (rule walking_step [OF less.prems(1) Some]) (rule that; assumption)
    define x where "x = (file_index lib (fs ! c) i, file_records (fs ! c) ! i)"
    have x: "x \<in> sources lib fs" using v(3,4) nth_mem [OF v(3)] unfolding x_def sources_def by blast
    have xi: "GetBlobIndex ?it = fst x" "it_record ?it = snd x" using it by (simp_all add: x_def)
    obtain go_on st1 items1 where s1: "gc_entry lib st = Some (go_on, st1)" "evolved (gl_world st) (gl_world st1)" "gl_iter st1 = gl_iter st"
      "go_on \<Longrightarrow> gathering lib fs j0 n0 items1 st1 \<and> covered (w_base (gl_world st1)) items1 x \<and> set items \<subseteq> set items1 \<and>
         length items1 \<le> Suc (length items)"
      "\<not> go_on \<Longrightarrow> gl_status st1 \<noteq> OK"
      by (rule gc_entry_ok [OF cp less.prems(2) x it(1) xi less.prems(3)]) (rule that; (assumption | blast))
    show ?thesis
    proof (cases go_on)
      case False
      then have "gc_loop lib st = Some st1" using v(1) s1(1) by (subst gc_loop.simps) simp
      then show ?thesis using s1 False v(2) by auto
    next
      case True
      let ?st2 = "iter_moved st1 mi'" and ?rss = "rss[c := tl (rss ! c)]"
      have lp: "gc_loop lib st = gc_loop lib ?st2" using v(1) s1(1,3) n(1) True by (subst gc_loop.simps) simp
      have len: "length fs = length rss" using less.prems(1) by (simp add: walking_def)
      then have "c < length rss" using v(3) by simp
      from arg_cong [OF mset_concat_update [OF this it(4)], of size]
      have cl: "length (concat rss) = Suc (length (concat ?rss))" by simp
      then have "length (concat ?rss) < length (concat rss)" by simp
      moreover have "walking lib fs ?rss (gl_iter ?st2)" using n(2) by (simp add: iter_moved_def)
      moreover have "gathering lib fs j0 n0 items1 ?st2" using s1(4) True by simp
      moreover have gw: "gl_world ?st2 = gl_world st1" by (simp add: iter_moved_def)
      moreover have ok1: "writes_ok (file_number ` set fs) (w_writes (gl_world st1))" using evolved_no_new_refs [OF s1(2) less.prems(3)] by simp
      ultimately obtain st' where st': "gc_loop lib ?st2 = Some st'" "evolved (gl_world st1) (gl_world st')" "Merge_status (gl_iter st') = OK"
        "gl_status st' = OK \<longrightarrow> (\<exists>items'. gathering lib fs j0 n0 items' st' \<and> set items1 \<subseteq> set items' \<and> length items' \<le> length items1 + length (concat ?rss) \<and>
           (\<forall>x \<in> unvisited lib fs ?rss. covered (w_base (gl_world st')) items' x))"
        using less.hyps [of ?rss ?st2 items1] by auto
      have nn: "no_new_refs (file_number ` set fs) (w_base (gl_world st1)) (w_base (gl_world st'))"
        using evolved_no_new_refs [OF st'(2) ok1] by simp
      have "covered (w_base (gl_world st')) items' x" if "set items1 \<subseteq> set items'" for items'
        by (rule covered_mono [OF _ that nn sources_files [OF x]]) (use s1(4) True in simp)
      then have "\<forall>y \<in> unvisited lib fs rss. covered (w_base (gl_world st')) items' y"
        if "set items1 \<subseteq> set items'" "\<forall>y \<in> unvisited lib fs ?rss. covered (w_base (gl_world st')) items' y" for items'
        using unvisited_step [OF len v(3,5)] that unfolding x_def by blast
      note cov = this
      have i1: "set items \<subseteq> set items1" "length items1 \<le> Suc (length items)" using s1(4) True by auto
      have "\<exists>items'. gathering lib fs j0 n0 items' st' \<and> set items \<subseteq> set items' \<and> length items' \<le> length items + length (concat rss) \<and>
          (\<forall>x \<in> unvisited lib fs rss. covered (w_base (gl_world st')) items' x)" if okk: "gl_status st' = OK"
      proof -
        obtain items' where "gathering lib fs j0 n0 items' st'" "set items1 \<subseteq> set items'" "length items' \<le> length items1 + length (concat ?rss)"
          "\<forall>x \<in> unvisited lib fs ?rss. covered (w_base (gl_world st')) items' x" using st'(4) okk by blast
        then show ?thesis using cov [of items'] i1 cl by (intro exI [of _ items']) auto
      qed
      then show ?thesis using lp st'(1,2,3) s1(2) evolved_trans by auto
    qed
  qed
qed

end
