(* ===== verification/Titan_GCSafe.thy ===== *)
theory Titan_GCSafe
  imports Titan_Collecting
begin

text \<open>
  A whole garbage collection, from the picked inputs to the installed output: it returns, readers see
  the same values before and after, and when it succeeds nothing refers to the inputs any more.
\<close>

section \<open>The run\<close>

text \<open>Where the blob files of a storage are.\<close>

definition placed :: "BlobStorage \<Rightarrow> u64 \<Rightarrow> (u64 \<times> u64) option" where
  "placed bs n = map_option (\<lambda>m. (fm_number m, fm_size m)) (FindFile bs n)"

definition input_file :: "BlobLib \<Rightarrow> GCJob \<Rightarrow> World \<Rightarrow> merge_file \<Rightarrow> bool" where
  "input_file lib j w f \<longleftrightarrow> on_disk lib (gj_cf j) f w \<and> length (file_records f) < 2 ^ 64 \<and>
     gj_input_size j (file_number f) = of_nat (length (file_data lib f))"

text \<open>
  A job that is about to run: the inputs are blob files in order; a reference into an input is one to a record
  of its key; nobody writes references into the inputs or to the file that will be created; the
  records fit into one output file.
\<close>

definition gc_ready :: "BlobLib \<Rightarrow> merge_file list \<Rightarrow> GCJob \<Rightarrow> World \<Rightarrow> bool" where
  "gc_ready lib fs j w \<longleftrightarrow>
     copying lib fs j \<and> gc_inputs (gj_gc j) = map file_number fs \<and> strict_weak (co_less (gj_opts j)) \<and>
     concat (map file_records fs) \<noteq> [] \<and> length (concat (map file_records fs)) < 2 ^ 31 \<and> list_all (input_file lib j w) fs \<and>
     w_mutex w \<and> w_cache w = None \<and> (\<forall>x \<in> set (w_new_files w). snd x = []) \<and>
     fileset_inv (w_fileset w) \<and> fs_manifest (w_fileset w) \<noteq> None \<and>
     (\<exists>bs. w_storage w (gj_cf j) = Some bs \<and> bs_levels bs \<noteq> [] \<and> FindFile bs (fs_next_file_number (w_fileset w)) = None) \<and>
     w_readers w (fs_next_file_number (w_fileset w)) = None \<and>
     writes_ok (insert (fs_next_file_number (w_fileset w)) (file_number ` set fs)) (w_writes w) \<and>
     (\<forall>k. \<not> refers (w_base w k) (fs_next_file_number (w_fileset w)) \<and>
        (\<forall>n \<in> file_number ` set fs. refers (w_base w k) n \<longrightarrow>
           (\<exists>x \<in> sources lib fs. rec_key (snd x) = k \<and> points_to (w_base w k) (fst x)))) \<and>
     (\<forall>x \<in> sources lib fs. \<forall>d. length (enc_record (EncodeRecord (lib_compression lib d) (co_compression (gj_opts j)) (snd x))) < 2 ^ 32)"

lemma open_inputs_ok:
  "list_all (input_file lib j w) fs \<Longrightarrow> open_inputs j (map file_number fs) w =
     (OK, map (\<lambda>f. BlobFileIterator_new (read_only (file_data lib f)) (file_number f) (of_nat (length (file_data lib f)))
        (co_min_blob_size (gj_opts j)) (- 1)) fs)"
  by (induction fs) (auto simp: input_file_def on_disk_def NewBlobFileReader_def NewRandomAccessFile_def)

lemma DoRunGC_ok:
  assumes r: "gc_ready lib fs j w"
  defines "n0 \<equiv> fs_next_file_number (w_fileset w)"
  shows "\<exists>s j' w'. DoRunGC lib j (mutex_Unlock w) = Some (s, j', w') \<and> evolved (mutex_Unlock w) w' \<and>
    (s = OK \<longrightarrow> (\<exists>items outs. set items \<subseteq> sources lib fs \<and> length items < 2 ^ 31 \<and>
       (\<forall>x \<in> sources lib fs. covered (w_base w') items x) \<and>
       same_job (j\<lparr>gj_batches := map (ctx_batch (gj_cf j)) outs, gj_builders := gj_builders j'\<rparr>) j' \<and>
       (gj_builders j' = [] \<and> items = [] \<and> outs = [] \<or>
        (\<exists>b. gj_builders j' = [(n0, b)] \<and> bb_opts b = gj_opts j \<and>
           building lib (gc_header j) (map snd items) (map (gc_ctx n0) items) outs b))))"
proof -
  let ?w = "mutex_Unlock w" and ?lt = "co_less (gj_opts j)" and ?I = "file_number ` set fs"
  let ?its = "map (\<lambda>f. BlobFileIterator_new (read_only (file_data lib f)) (file_number f) (of_nat (length (file_data lib f)))
        (co_min_blob_size (gj_opts j)) (- 1)) fs"
  have cp: "copying lib fs j" and inp: "list_all (input_file lib j w) fs" and some: "concat (map file_records fs) \<noteq> []"
    and sw: "strict_weak ?lt" and cnt: "length (concat (map file_records fs)) < 2 ^ 31" and gi: "gc_inputs (gj_gc j) = map file_number fs"
    and wo: "writes_ok (insert n0 ?I) (w_writes w)" using r by (simp_all add: gc_ready_def n0_def)
  have inp': "list_all (input_file lib j ?w) fs"
    using inp by (simp add: list_all_iff input_file_def on_disk_def mutex_Unlock_def w_storage_def)
  have "fs \<noteq> []" using some by auto
  then have bi: "BuildIterator j ?w = Some (Inr (BlobFileMergeIterator_new ?its ?lt), ?w)"
    using open_inputs_ok [OF inp'] gi cp by (simp add: BuildIterator_def copying_def)
  have "file_good lib (fs ! i) \<and> (\<exists>it. Iter_SeekToFirst lib (?its ! i) = Some it \<and> iter_at lib (fs ! i) (file_records (fs ! i)) it)"
    if i: "i < length fs" for i
  proof -
    have "input_file lib j w (fs ! i)" using inp i by (simp add: list_all_length)
    then have "file_good lib (fs ! i)" "length (file_records (fs ! i)) < 2 ^ 64" by (simp_all add: input_file_def on_disk_def)
    then show ?thesis using iter_at_seek i by simp
  qed
  then obtain mi where mi: "Merge_SeekToFirst lib (BlobFileMergeIterator_new ?its ?lt) = Some mi"
    "walking lib fs (map file_records fs) mi" "mi_current mi \<noteq> None"
    using walking_seek [OF sw _ some, of ?its lib] by auto
  have v: "Merge_Valid mi" using mi(2,3) by (auto elim: walking_step)
  let ?st = "iter_moved \<lparr>gl_job = j, gl_world = ?w, gl_iter = mi, gl_out = None, gl_file_size = 0,
       gl_last_key = [], gl_fresh = False, gl_status = OK\<rparr> mi"
  have "gathering lib fs j n0 [] ?st"
    unfolding gathering_moved
    using r by (simp add: gathering_def gathered_def fresh_covered_def gc_ready_def copying_def n0_def mutex_Unlock_def w_fileset_def same_job_def)
  moreover have "walking lib fs (map file_records fs) (gl_iter ?st)" "gl_world ?st = ?w" using mi(2) by (simp_all add: iter_moved_def)
  moreover have "writes_ok ?I (w_writes ?w)" using wo by (auto simp: writes_ok_def mutex_Unlock_def)
  ultimately obtain st' where st': "gc_loop lib ?st = Some st'" "evolved ?w (gl_world st')" "Merge_status (gl_iter st') = OK"
    "gl_status st' = OK \<longrightarrow> (\<exists>items'. gathering lib fs j n0 items' st' \<and> length items' \<le> length (concat (map file_records fs)) \<and>
       (\<forall>x \<in> sources lib fs. covered (w_base (gl_world st')) items' x))"
    using gc_loop_ok [OF cp, of "map file_records fs" ?st n0 "[]"] unfolding unvisited_all by auto
  have dr: "DoRunGC lib j ?w = gc_loop_end st'" using bi mi(1) v st'(1) by (simp add: DoRunGC_def)
  show ?thesis
  proof (cases "gl_status st' = OK")
    case False
    then have "DoRunGC lib j ?w = Some (gl_status st', gl_job st', gl_world st')" using dr st'(3) by (simp add: gc_loop_end_def)
    then show ?thesis using st'(2) False by blast
  next
    case True
    then obtain items where g: "gathering lib fs j n0 items st'" and len: "length items < 2 ^ 31"
      and cov: "\<forall>x \<in> sources lib fs. covered (w_base (gl_world st')) items x"
      using st'(4) cnt by auto
    have ga: "gathered lib fs j n0 items st'" and sub: "set items \<subseteq> sources lib fs" using g by (simp_all add: gathering_def gathered_def)
    have sj: "same_job (j\<lparr>gj_batches := gj_batches (gl_job st')\<rparr>) (gl_job st')" using ga by (simp add: gathered_def)
    have nb: "gj_builders (gl_job st') = []" using gathered_job(6) [OF ga] cp by (simp add: copying_def)
    show ?thesis
    proof (cases "gl_out st'")
      case None
      then have e: "items = []" "gj_batches (gl_job st') = []" using ga by (simp_all add: gathered_def)
      have "DoRunGC lib j ?w = Some (OK, gl_job st', gl_world st')" using dr st'(3) True None by (simp add: gc_loop_end_def)
      moreover have "same_job (j\<lparr>gj_batches := [], gj_builders := gj_builders (gl_job st')\<rparr>) (gl_job st')"
        using sj e(2) nb by (cases j; cases "gl_job st'") (simp add: same_job_def)
      ultimately show ?thesis
        using st'(2) cov e nb by (intro exI [of _ OK] exI [of _ "gl_job st'"] exI [of _ "gl_world st'"]) (auto intro!: exI [of _ "[]"])
    next
      case (Some out)
      obtain b where out: "out = (n0, b)" using ga Some by (cases out) (simp add: gathered_def)
      obtain outs where o: "bb_opts b = gj_opts j" "building lib (gc_header j) (map snd items) (map (gc_ctx n0) items) outs b"
        "gj_batches (gl_job st') = map (ctx_batch (gj_cf j)) outs" using ga Some out by (auto simp: gathered_def)
      have bs: "bb_status b = OK" using o(2) by (simp add: building_def written_def split: if_splits)
      let ?j = "(gl_job st')\<lparr>gj_builders := gj_builders (gl_job st') @ [(n0, b)]\<rparr>"
      have "DoRunGC lib j ?w = Some (OK, ?j, gl_world st')" using dr st'(3) True Some out bs by (simp add: gc_loop_end_def Let_def)
      moreover have "same_job (j\<lparr>gj_batches := map (ctx_batch (gj_cf j)) outs, gj_builders := gj_builders ?j\<rparr>) ?j"
        using sj o(3) by (cases j; cases "gl_job st'") (simp add: same_job_def)
      moreover have "gj_builders ?j = [(n0, b)]" using nb by simp
      ultimately show ?thesis
        using st'(2) cov sub len o(1,2) by blast
    qed
  qed
qed

section \<open>Edits keep files in their place\<close>

lemma AddBlobFile_placed: "AddBlobFile f bs = Some bs' \<Longrightarrow> n \<noteq> fm_number f \<Longrightarrow> placed bs' n = placed bs n"
  by (auto simp: AddBlobFile_def Let_def placed_def FindFile_def map_of_emplace split: if_splits)

lemma MarkFileObsolete_placed: "MarkFileObsolete k q bs = Some (b, bs') \<Longrightarrow> placed bs' n = placed bs n"
  by (auto simp: MarkFileObsolete_def MarkFileObsoleteLocked_def placed_def FindFile_def map_of_al_modify FileStateTransit_def Let_def
      split: option.splits if_splits)

lemma CFE_Apply_added_placed:
  "CFE_Apply_added del fs bs = Some bs' \<Longrightarrow> n \<notin> fm_number ` snd ` set fs \<Longrightarrow> placed bs' n = placed bs n"
proof (induction del fs bs rule: CFE_Apply_added.induct)
  case (2 del k f fs bs)
  then show ?case using AddBlobFile_placed [of f bs _ n] by (cases "AddBlobFile f bs") (auto split: if_splits)
qed simp

lemma CFE_Apply_deleted_placed: "CFE_Apply_deleted added fs bs = Some (s, bs') \<Longrightarrow> placed bs' n = placed bs n"
proof (induction added fs bs rule: CFE_Apply_deleted.induct)
  case (2 added k q fs bs)
  then show ?case using MarkFileObsolete_placed [of k q bs] by (auto split: if_splits option.splits)
qed simp

lemma CFE_Apply_placed:
  assumes "CFE_Apply ce bs = Some (s, bs')" "n \<notin> fm_number ` snd ` set (ce_added ce)"
  shows "placed bs' n = placed bs n"
proof -
  obtain b1 where b1: "CFE_Apply_added (ce_deleted ce) (ce_added ce) bs = Some b1" using assms(1) by (auto simp: CFE_Apply_def split: option.splits)
  obtain s2 b2 where b2: "CFE_Apply_deleted (ce_added ce) (ce_deleted ce) b1 = Some (s2, b2)"
    using assms(1) b1 by (auto simp: CFE_Apply_def split: option.splits)
  have "bs' = b2 \<or> bs' = ComputeGCScore b2" using assms(1) b1 b2 by (auto simp: CFE_Apply_def split: if_splits)
  moreover have "placed (ComputeGCScore b2) n = placed b2 n" by (simp add: placed_def FindFile_def ComputeGCScore_def)
  ultimately show ?thesis using CFE_Apply_added_placed [OF b1 assms(2)] CFE_Apply_deleted_placed [OF b2, of n] by auto
qed

lemma LogAndApply_placed:
  assumes la: "LogAndApply e fs = Some (s, fs')" and bs: "GetBlobStorage fs (ve_cf e) = Some bs"
  shows "\<exists>bs'. GetBlobStorage fs' (ve_cf e) = Some bs' \<and> (\<forall>n. n \<notin> fm_number ` set (ve_added e) \<longrightarrow> placed bs' n = placed bs n)"
proof -
  let ?e = "SetNextFileNumber (fs_next_file_number fs) e"
  obtain s1 ec where ae: "AddEdit ?e EditCollector_new = (s1, ec)" by (cases "AddEdit ?e EditCollector_new")
  obtain s2 ec' where se: "Seal (GetBlobStorage fs) ec = (s2, ec')" by (cases "Seal (GetBlobStorage fs) ec")
  show ?thesis
  proof (cases "s1 = OK \<and> s2 = OK")
    case False
    then show ?thesis using la bs ae se by (auto simp: LogAndApply_def Let_def split: if_splits)
  next
    case True
    then have cfs: "ec_cfs ec' = [(ve_cf e, edit_batch ?e)]"
      using AddEdit_new_cases [OF ae] se by (auto simp: Seal_def Let_def SetNextFileNumber_def split: if_splits)
    obtain s3 f3 where a3: "AddRecord (VersionEdit_EncodeTo [] ?e) fs = Some (s3, f3)"
      using la True ae se by (auto simp: LogAndApply_def Let_def split: option.splits)
    obtain s4 f4 where a4: "SyncTitanManifest f3 = (s4, f4)" by (cases "SyncTitanManifest f3")
    have cols: "fs_columns f3 = fs_columns fs" "fs_columns f4 = fs_columns fs"
      using AddRecord_columns [OF a3] next_io_columns [of f3] a4 by (simp_all add: SyncTitanManifest_def)
    have col: "map_of (fs_columns fs) (ve_cf e) = Some bs" using bs by (simp add: GetBlobStorage_def)
    have added: "fm_number ` snd ` set (ce_added (edit_batch ?e)) = fm_number ` set (ve_added e)"
      by (auto simp: edit_batch_def SetNextFileNumber_def image_iff)
    have "\<exists>bs'. map_of cols' (ve_cf e) = Some bs' \<and> (\<forall>n. n \<notin> fm_number ` set (ve_added e) \<longrightarrow> placed bs' n = placed bs n)"
      if ap: "Apply ec' (fs_columns fs) = Some (s5, cols')" for s5 cols'
    proof (cases "CFE_Apply (edit_batch ?e) bs")
      case (Some r)
      obtain s6 b6 where r: "r = (s6, b6)" by (cases r)
      have "cols' = al_modify (ve_cf e) (\<lambda>_. b6) (fs_columns fs) \<or> cols' = fs_columns fs"
        using ap cfs col Some r by (auto simp: Apply_def Let_def split: if_splits)
      moreover have "placed b6 n = placed bs n" if "n \<notin> fm_number ` set (ve_added e)" for n
        using CFE_Apply_placed [of "edit_batch ?e" bs s6 b6 n] Some r that unfolding added by simp
      ultimately show ?thesis using col by (auto simp: map_of_al_modify)
    qed (use ap cfs col in \<open>auto simp: Apply_def split: if_splits\<close>)
    then show ?thesis
      using la True ae se a3 a4 cols col by (auto simp: LogAndApply_def Let_def GetBlobStorage_def split: if_splits)
  qed
qed

text \<open>An edit of a file set in order.\<close>

lemma LogAndApply_kept:
  assumes inv: "fileset_inv fs" and man: "fs_manifest fs \<noteq> None" and col: "GetBlobStorage fs (ve_cf e) = Some bs"
    and fit: "\<And>f. f \<in> set (ve_added e) \<Longrightarrow> addable bs f"
  obtains s fs' bs' where "LogAndApply e fs = Some (s, fs')" "fileset_inv fs'" "fs_manifest fs' \<noteq> None" "GetBlobStorage fs' (ve_cf e) = Some bs'"
    "\<And>n. n \<notin> fm_number ` set (ve_added e) \<Longrightarrow> placed bs' n = placed bs n"
    "s = OK \<Longrightarrow> live bs' = batch_live (edit_batch e) (live bs)" "storage_inv bs'"
proof -
  have col': "map_of (fs_columns fs) (ve_cf e) = Some bs" using col by (simp add: GetBlobStorage_def)
  have bi: "storage_inv bs" using inv col' by (force simp: fileset_inv_def list_all_iff dest: map_of_SomeD)
  obtain s fs' where l: "LogAndApply e fs = Some (s, fs')" "s \<noteq> OK \<Longrightarrow> fs_columns fs' = fs_columns fs"
    "s = OK \<Longrightarrow> \<exists>bs'. fs_columns fs' = al_modify (ve_cf e) (\<lambda>_. bs') (fs_columns fs) \<and> storage_inv bs' \<and>
       live bs' = batch_live (edit_batch e) (live bs) \<and> store_conf bs' = store_conf bs \<and>
       manifest_entries fs' = manifest_entries fs @
         [Rec (VersionEdit_EncodeTo [] (SetNextFileNumber (fs_next_file_number fs) e))]"
    "fs_manifest fs' = fs_manifest fs"
    by (rule LogAndApply_cases [OF inv man col' fit]) (assumption, (rule that; (assumption | blast)))
  obtain bs' where p: "GetBlobStorage fs' (ve_cf e) = Some bs'" "\<And>n. n \<notin> fm_number ` set (ve_added e) \<Longrightarrow> placed bs' n = placed bs n"
    using LogAndApply_placed [OF l(1) col] by blast
  show thesis
  proof (cases "s = OK")
    case False
    then have c: "fs_columns fs' = fs_columns fs" using l(2) by simp
    then have "bs' = bs" using p(1) col by (simp add: GetBlobStorage_def)
    then show thesis using that [OF l(1) _ _ p] False c inv man l(4) bi by (simp add: fileset_inv_def)
  next
    case True
    then obtain b where b: "fs_columns fs' = al_modify (ve_cf e) (\<lambda>_. b) (fs_columns fs)" "storage_inv b" "live b = batch_live (edit_batch e) (live bs)"
      using l(3) by blast
    have "b = bs'" using p(1) col' unfolding GetBlobStorage_def b(1) by (simp add: map_of_al_modify)
    moreover have "fileset_inv fs'" using fileset_inv_modify [OF inv b(2)] b(1) by (simp add: fileset_inv_def)
    ultimately show thesis using that [OF l(1) _ _ p] b man l(4) by simp
  qed
qed

section \<open>Between the phases\<close>

text \<open>The file set and the caches in order.\<close>

definition in_order :: "u32 \<Rightarrow> World \<Rightarrow> bool" where
  "in_order cf w \<longleftrightarrow> fileset_inv (w_fileset w) \<and> fs_manifest (w_fileset w) \<noteq> None \<and> w_cache w = None \<and> w_storage w cf \<noteq> None"

lemma w_storage_columns: "w_storage w cf = map_of (fs_columns (w_fileset w)) cf"
  by (simp add: w_storage_def db_storage_def GetBlobStorage_def w_fileset_def)

lemma in_order_inv: "in_order cf w \<Longrightarrow> w_storage w cf = Some bs \<Longrightarrow> storage_inv bs"
  by (force simp: in_order_def w_storage_columns fileset_inv_def list_all_iff dest: map_of_SomeD)

lemma in_order_number: "in_order cf w \<Longrightarrow> w_storage w cf = Some bs \<Longrightarrow> FindFile bs n = Some m \<Longrightarrow> fm_number m = n"
  using in_order_inv by (force simp: storage_inv_def FindFile_def list_all_iff dest: map_of_SomeD)

lemma same_readsI:
  assumes "in_order cf w" "w_cache w' = None" "w_prefix w' = w_prefix w"
    and "\<And>n. n \<notin> N \<Longrightarrow> w_files w' n = w_files w n \<and> w_readers w' n = w_readers w n"
    and "w_storage w cf = Some bs" "w_storage w' cf = Some bs'" "\<And>n. n \<notin> N \<Longrightarrow> placed bs' n = placed bs n"
  shows "same_reads cf N w w'"
  using assms in_order_number [OF assms(1,5)] by (auto simp: same_reads_def in_order_def placed_def)

lemma same_reads_join: "same_reads cf N u v \<Longrightarrow> same_reads cf M v w \<Longrightarrow> same_reads cf (N \<union> M) u w"
  unfolding same_reads_def by auto

lemma same_reads_mono: "same_reads cf N u w \<Longrightarrow> N \<subseteq> K \<Longrightarrow> same_reads cf K u w"
  unfolding same_reads_def by blast

lemma same_reads_trans: "same_reads cf N u v \<Longrightarrow> same_reads cf M v w \<Longrightarrow> N \<subseteq> K \<Longrightarrow> M \<subseteq> K \<Longrightarrow> same_reads cf K u w"
  using same_reads_mono [OF same_reads_join] by blast

lemma steady_storage: "steady w w' \<Longrightarrow> w_storage w' cf = w_storage w cf"
  by (simp add: steady_def w_storage_columns)

lemma steady_in_order: "steady w w' \<Longrightarrow> in_order cf w \<Longrightarrow> in_order cf w'"
  using steady_storage [of w w' cf] by (simp add: steady_def in_order_def fileset_inv_def)

lemma steady_same_reads: "steady w w' \<Longrightarrow> in_order cf w \<Longrightarrow> same_reads cf {} w w'"
proof -
  assume s: "steady w w'" and o: "in_order cf w"
  show ?thesis using steady_storage [OF s, of cf] s o in_order_number [OF o] by (auto simp: same_reads_def steady_def in_order_def)
qed

lemma on_disk_same:
  assumes d: "on_disk lib cf f w" and s: "same_reads cf N w w'" and n: "file_number f \<notin> N"
  shows "on_disk lib cf f w'"
proof -
  obtain bs m where m: "w_storage w cf = Some bs" "FindFile bs (file_number f) = Some m" "fm_number m = file_number f"
    "fm_size m = of_nat (length (file_data lib f))" using d by (auto simp: on_disk_def)
  moreover obtain bs' where bs': "w_storage w' cf = Some bs'"
    "map_option (\<lambda>m. (fm_number m, fm_size m)) (FindFile bs' (file_number f)) = map_option (\<lambda>m. (fm_number m, fm_size m)) (FindFile bs (file_number f))"
    using s n m(1) by (auto simp: same_reads_def)
  ultimately obtain m' where "FindFile bs' (file_number f) = Some m'" "fm_number m' = file_number f"
    "fm_size m' = of_nat (length (file_data lib f))" by auto
  then show ?thesis using d s n bs'(1) by (auto simp: on_disk_def same_reads_def)
qed

lemma unlocked [simp]:
  "w_mutex (mutex_Unlock w) = False" "in_order cf (mutex_Unlock w) = in_order cf w" "w_base (mutex_Unlock w) = w_base w"
  "w_writes (mutex_Unlock w) = w_writes w" "w_readers (mutex_Unlock w) = w_readers w" "w_files (mutex_Unlock w) = w_files w"
  "w_storage (mutex_Unlock w) = w_storage w" "w_cache (mutex_Unlock w) = w_cache w" "w_prefix (mutex_Unlock w) = w_prefix w"
  "w_fileset (mutex_Unlock w) = w_fileset w"
  by (simp_all add: mutex_Unlock_def in_order_def w_storage_def w_fileset_def fun_eq_iff)

lemma relocked [simp]:
  "in_order cf (w\<lparr>w_mutex := b\<rparr>) = in_order cf w" "w_storage (w\<lparr>w_mutex := b\<rparr>) = w_storage w" "w_fileset (w\<lparr>w_mutex := b\<rparr>) = w_fileset w"
  by (simp_all add: in_order_def w_storage_def w_fileset_def fun_eq_iff)

lemma same_reads_unlocked [simp]:
  "same_reads cf N (mutex_Unlock w) w' = same_reads cf N w w'" "same_reads cf N w (mutex_Unlock w') = same_reads cf N w w'"
  "same_reads cf N (w\<lparr>w_mutex := b\<rparr>) w' = same_reads cf N w w'" "same_reads cf N w (w'\<lparr>w_mutex := b\<rparr>) = same_reads cf N w w'"
  by (simp_all add: same_reads_def w_storage_def mutex_Unlock_def)

lemma locked: "\<not> w_mutex w \<Longrightarrow> mutex_Lock w = Some (w\<lparr>w_mutex := True\<rparr>)"
  by (simp add: mutex_Lock_def)

section \<open>Installing the output\<close>

definition move_batch :: "BlobLib \<Rightarrow> u32 \<Rightarrow> merge_file \<Rightarrow> (BlobIndex \<times> BlobRecord) list \<Rightarrow> nat \<Rightarrow> WriteBatch \<times> WriteCallback" where
  "move_batch lib cf f items i =
     ([PutBlobIndexOp cf (rec_key (snd (items ! i))) (BlobIndex_EncodeTo [] (file_index lib f i))],
      \<lparr>cb_key = rec_key (snd (items ! i)), cb_blob_index = fst (items ! i), cb_new_blob_index = file_index lib f i, cb_read_bytes = 0\<rparr>)"

definition move_batches :: "BlobLib \<Rightarrow> u32 \<Rightarrow> merge_file \<Rightarrow> (BlobIndex \<times> BlobRecord) list \<Rightarrow> (WriteBatch \<times> WriteCallback) list" where
  "move_batches lib cf f items = map (move_batch lib cf f items) [0..<length items]"

lemma handled_batches:
  "map (ctx_batch cf) (handled hdr (file_es lib t dict (map snd items)) (map (gc_ctx n) items)) =
   move_batches lib cf ((t, dict, hdr), map snd items, n) items"
  by (auto simp: handled_def move_batches_def move_batch_def ctx_batch_def gc_ctx_def set_handle_def file_index_def Let_def
      InternalKey_def PutFixed64_def)

lemma world_edit:
  assumes w: "in_order (ve_cf e) w" "w_storage w (ve_cf e) = Some bs" and fit: "\<And>f. f \<in> set (ve_added e) \<Longrightarrow> addable bs f"
  obtains s fs' bs' where "LogAndApply e (w_fileset w) = Some (s, fs')" "in_order (ve_cf e) (set_fileset fs' w)"
    "same_reads (ve_cf e) (fm_number ` set (ve_added e)) w (set_fileset fs' w)"
    "GetBlobStorage fs' (ve_cf e) = Some bs'" "s = OK \<Longrightarrow> live bs' = batch_live (edit_batch e) (live bs)"
proof -
  have inv: "fileset_inv (w_fileset w)" "fs_manifest (w_fileset w) \<noteq> None" "GetBlobStorage (w_fileset w) (ve_cf e) = Some bs"
    using w by (simp_all add: in_order_def w_storage_columns GetBlobStorage_def)
  obtain s fs' bs' where l: "LogAndApply e (w_fileset w) = Some (s, fs')" "fileset_inv fs'" "fs_manifest fs' \<noteq> None"
    "GetBlobStorage fs' (ve_cf e) = Some bs'" "\<And>n. n \<notin> fm_number ` set (ve_added e) \<Longrightarrow> placed bs' n = placed bs n"
    "s = OK \<Longrightarrow> live bs' = batch_live (edit_batch e) (live bs)"
    by (rule LogAndApply_kept [OF inv fit]) (assumption, (rule that; (assumption | blast)))
  have st: "w_storage (set_fileset fs' w) (ve_cf e) = Some bs'"
    using l(4) by (simp add: set_fileset_def w_storage_def db_storage_def)
  have "in_order (ve_cf e) (set_fileset fs' w)" using l(2,3) st w(1) by (simp add: in_order_def set_fileset_def w_fileset_def)
  moreover have "same_reads (ve_cf e) (fm_number ` set (ve_added e)) w (set_fileset fs' w)"
    by (rule same_readsI [OF w(1) _ _ _ w(2) st l(5)]) (use w(1) in \<open>simp_all add: set_fileset_def in_order_def\<close>)
  ultimately show thesis using that l(1,4,6) by blast
qed

text \<open>The edit that adds finished files.\<close>

lemma sync_files_ok:
  "list_all (\<lambda>x. wf_io (snd (snd x)) = []) files \<Longrightarrow>
   sync_files files e w = (Inr (e\<lparr>ve_added := ve_added e @ map fst files\<rparr>),
     w\<lparr>w_files := fold (\<lambda>x m. m(fst (snd x) \<mapsto> wf_data (snd (snd x)))) files (w_files w)\<rparr>)"
  by (induction files arbitrary: e w) (auto simp: wf_next_def VersionEdit_AddBlobFile_def split: prod.splits)

lemma fold_files_other:
  "n \<notin> (fst \<circ> snd) ` set files \<Longrightarrow> fold (\<lambda>x m. m(fst (snd x) \<mapsto> wf_data (snd (snd x)))) files m n = m n"
  by (induction files arbitrary: m) auto

lemma fold_files_at:
  assumes "x \<in> set files" "distinct (map (fst \<circ> snd) files)"
  shows "fold (\<lambda>x m. m(fst (snd x) \<mapsto> wf_data (snd (snd x)))) files m (fst (snd x)) = Some (wf_data (snd (snd x)))"
  using assms by (induction files arbitrary: m) (auto simp: fold_files_other)

lemma BatchFinishFiles_many:
  assumes w: "in_order cf w" "\<not> w_mutex w" "w_storage w cf = Some bs"
    and f: "\<And>x. x \<in> set files \<Longrightarrow> fst (snd x) = fm_number (fst x) \<and> wf_io (snd (snd x)) = [] \<and> addable bs (fst x)"
      "distinct (map (fm_number \<circ> fst) files)"
  defines "N \<equiv> (fm_number \<circ> fst) ` set files"
  obtains s w' where "BatchFinishFiles cf files w = Some (s, w')" "in_order cf w'" "\<not> w_mutex w'" "same_reads cf N w w'"
    "w_base w' = w_base w" "w_writes w' = w_writes w" "w_readers w' = w_readers w"
    "\<And>x. s = OK \<Longrightarrow> x \<in> set files \<Longrightarrow> w_files w' (fm_number (fst x)) = Some (wf_data (snd (snd x))) \<and>
       (\<exists>bs'. w_storage w' cf = Some bs' \<and> FindFile bs' (fm_number (fst x)) = Some (fst x))"
proof -
  let ?e = "(SetColumnFamilyID cf VersionEdit_new)\<lparr>ve_added := map fst files\<rparr>"
  let ?files = "fold (\<lambda>x m. m(fst (snd x) \<mapsto> wf_data (snd (snd x)))) files (w_files w)"
  let ?w1 = "w\<lparr>w_files := ?files\<rparr>"
  have sy: "sync_files files (SetColumnFamilyID cf VersionEdit_new) w = (Inr ?e, ?w1)"
    using sync_files_ok [of files] f(1) by (simp add: list_all_iff SetColumnFamilyID_def VersionEdit_new_def)
  have e: "ve_cf ?e = cf" "ve_added ?e = map fst files" "ve_deleted ?e = []" by (simp_all add: SetColumnFamilyID_def VersionEdit_new_def)
  have other: "n \<notin> N \<Longrightarrow> ?files n = w_files w n" for n
    using fold_files_other [of n files "w_files w"] f(1) by (auto simp: N_def)
  obtain sd w2 where d: "dir_Fsync ?w1 = (sd, w2)" by (cases "dir_Fsync ?w1")
  then have w2: "w2 = w\<lparr>w_files := ?files, w_dir_io := w_dir_io w2\<rparr>" by (auto simp: dir_Fsync_def split: list.splits)
  have w2f: "w_storage w2 cf = Some bs" "in_order cf w2" "w_fileset w2 = w_fileset w" "w_mutex w2 = w_mutex w" "w_base w2 = w_base w"
    "w_writes w2 = w_writes w" "w_readers w2 = w_readers w" "w_files w2 = ?files" "w_cache w2 = w_cache w" "w_prefix w2 = w_prefix w"
    using w by (subst w2, simp add: w_storage_def in_order_def w_fileset_def)+
  have r2: "same_reads cf N w w2"
    by (rule same_readsI [OF w(1) _ _ _ w(3) w2f(1)]) (use w2f w(1) other in \<open>auto simp: in_order_def\<close>)
  show thesis
  proof (cases "sd = OK")
    case False
    then have "BatchFinishFiles cf files w = Some (sd, w2)" using sy d by (simp add: BatchFinishFiles_def)
    then show thesis using that r2 w2f w(2) False by auto
  next
    case True
    let ?w3 = "w2\<lparr>w_mutex := True\<rparr>"
    have w3: "in_order cf ?w3" "w_storage ?w3 cf = Some bs" using w2f(1,2) by (simp_all add: in_order_def w_storage_def w_fileset_def)
    have "addable bs m" if "m \<in> set (ve_added ?e)" for m using that f(1) e by auto
    then obtain s fs' bs' where l: "LogAndApply ?e (w_fileset ?w3) = Some (s, fs')" "in_order cf (set_fileset fs' ?w3)"
      "same_reads cf (fm_number ` set (map fst files)) ?w3 (set_fileset fs' ?w3)"
      "GetBlobStorage fs' cf = Some bs'" "s = OK \<Longrightarrow> live bs' = batch_live (edit_batch ?e) (live bs)"
      using world_edit [of ?e ?w3 bs] w3 unfolding e by blast
    let ?w4 = "mutex_Unlock (erase_pending (map (fst \<circ> snd) files) (SetBGError s (set_fileset fs' ?w3)))"
    have w4: "in_order cf ?w4 = in_order cf (set_fileset fs' ?w3)" "same_reads cf M u ?w4 = same_reads cf M u (set_fileset fs' ?w3)"
      "w_base ?w4 = w_base w" "w_writes ?w4 = w_writes w" "w_readers ?w4 = w_readers w" "w_files ?w4 = ?files" "w_storage ?w4 cf = Some bs'" for M u
      using w2f l(4)
      by (simp_all add: erase_pending_def SetBGError_def set_fileset_def in_order_def same_reads_def w_storage_def w_fileset_def db_storage_def mutex_Unlock_def)
    have "BatchFinishFiles cf files w = Some (s, ?w4)"
      using sy d True l(1) w(2) w2f(4) by (simp add: BatchFinishFiles_def mutex_Lock_def w_fileset_def)
    moreover have "same_reads cf N w ?w4"
    proof -
      have "fm_number ` set (map fst files) = N" by (simp add: N_def image_comp)
      moreover have "same_reads cf N w ?w3" using r2 by simp
      ultimately show ?thesis unfolding w4(2) using same_reads_trans [OF _ l(3)] by blast
    qed
    moreover have "w_files ?w4 (fm_number (fst x)) = Some (wf_data (snd (snd x))) \<and>
        (\<exists>bs'. w_storage ?w4 cf = Some bs' \<and> FindFile bs' (fm_number (fst x)) = Some (fst x))"
      if s: "s = OK" and x: "x \<in> set files" for x
    proof -
      have "?files (fst (snd x)) = Some (wf_data (snd (snd x)))"
        by (rule fold_files_at [OF x]) (use f in \<open>simp add: distinct_map inj_on_def\<close>)
      moreover have "map_of (numbered (map fst files)) (fm_number (fst x)) = Some (fst x)"
        using x f(2) by (intro map_of_is_SomeI) (auto simp: comp_def)
      then have "live bs' (fm_number (fst x)) = Some (fst x)"
        using l(5) [OF s] e(2,3) by (simp add: batch_live_def edit_batch_def)
      then have "FindFile bs' (fm_number (fst x)) = Some (fst x)" by (auto simp: live_def FindFile_def split: option.splits if_splits)
      ultimately show ?thesis using w4(6,7) f(1) [OF x] by simp
    qed
    ultimately show thesis using that [of s ?w4] l(2) w4 by simp
  qed
qed

lemma BatchFinishFiles_ok:
  assumes w: "in_order cf w" "\<not> w_mutex w" "w_storage w cf = Some bs" "bs_levels bs \<noteq> []"
    and f: "\<And>x. x \<in> set files \<Longrightarrow> fst (snd x) = n0 \<and> fm_number (fst x) = n0 \<and> wf_io (snd (snd x)) = [] \<and> fm_level (fst x) = 0 \<and> \<not> is_obsolete (fst x)"
      "length files \<le> 1"
  obtains s w' where "BatchFinishFiles cf files w = Some (s, w')" "in_order cf w'" "\<not> w_mutex w'" "same_reads cf {n0} w w'"
    "w_base w' = w_base w" "w_writes w' = w_writes w" "w_readers w' = w_readers w"
    "\<And>x. s = OK \<Longrightarrow> files = [x] \<Longrightarrow> w_files w' n0 = Some (wf_data (snd (snd x))) \<and>
       (\<exists>bs'. w_storage w' cf = Some bs' \<and> FindFile bs' n0 = Some (fst x))"
proof -
  have f': "fst (snd x) = fm_number (fst x) \<and> wf_io (snd (snd x)) = [] \<and> addable bs (fst x)" if "x \<in> set files" for x
    using f(1) [OF that] w(4) by (simp add: addable_def)
  have d: "distinct (map (fm_number \<circ> fst) files)" using f(2) by (cases files) auto
  obtain s w' where r: "BatchFinishFiles cf files w = Some (s, w')" "in_order cf w'" "\<not> w_mutex w'" "same_reads cf ((fm_number \<circ> fst) ` set files) w w'"
    "w_base w' = w_base w" "w_writes w' = w_writes w" "w_readers w' = w_readers w"
    "\<And>x. s = OK \<Longrightarrow> x \<in> set files \<Longrightarrow> w_files w' (fm_number (fst x)) = Some (wf_data (snd (snd x))) \<and>
       (\<exists>bs'. w_storage w' cf = Some bs' \<and> FindFile bs' (fm_number (fst x)) = Some (fst x))"
    by (rule BatchFinishFiles_many [OF w(1-3) f' d]) (assumption, (rule that; (assumption | blast)))
  have "same_reads cf {n0} w w'" by (rule same_reads_mono [OF r(4)]) (use f(1) in auto)
  with r show thesis using f(1) that by simp
qed

lemma gc_output_meta_ok:
  obtains m where "gc_output_meta n b = Some m" "fm_number m = n" "fm_size m = of_nat (length (wf_data (bb_file b)))" "fm_level m = 0"
    "\<not> is_obsolete m"
proof -
  obtain st where "transit GCOutput StInit = Some st" "st \<noteq> Obsolete" by (simp add: transit_def)
  then show thesis using that by (simp add: gc_output_meta_def FileStateTransit_def BlobFileMeta_new_def is_obsolete_def GetFileSize_def)
qed

lemma sourcesI: "f \<in> set fs \<Longrightarrow> i < length (file_records f) \<Longrightarrow> (file_index lib f i, file_records f ! i) \<in> sources lib fs"
  unfolding sources_def by blast

lemma sourcesD: "x \<in> sources lib fs \<Longrightarrow> \<exists>f i. f \<in> set fs \<and> i < length (file_records f) \<and> x = (file_index lib f i, file_records f ! i)"
  unfolding sources_def by blast

text \<open>The output as a blob file.\<close>

lemma built_file_good:
  assumes lib: "lib_sound lib" and opts: "buildable lib opts kVersion2" and len: "length recs < 2 ^ 31"
    and recs: "\<And>r. r \<in> set recs \<Longrightarrow> BlobRecord_fits r \<and>
      length (enc_record (EncodeRecord (lib_compression lib (case dict of None \<Rightarrow> [] | Some d \<Rightarrow> d)) (co_compression opts) r)) < 2 ^ 32"
    and dict: "dict \<noteq> None \<longleftrightarrow> co_max_dict_bytes opts > 0" "\<And>d. dict = Some d \<Longrightarrow> length d < 2 ^ 32"
  shows "file_good lib ((co_compression opts, dict, built_header opts kVersion2), recs, n)"
proof -
  let ?cl = "lib_compression lib (case dict of None \<Rightarrow> [] | Some d \<Rightarrow> d)" and ?t = "co_compression opts"
  let ?es = "file_es lib ?t dict recs"
  have "length (enc_bytes e) \<le> 2 ^ 32 + 8" if e: "e \<in> set ?es" for e
  proof -
    obtain x where x: "x \<in> set recs" "e = EncodeRecord ?cl ?t x" using e by (auto simp: file_es_def)
    have "length (enc_header e) = 9" unfolding x(2) by (simp add: EncodeRecord_def length_enc_header kRecordHeaderSize_def)
    then show ?thesis using recs [OF x(1)] by (simp add: x(2) enc_bytes_def)
  qed
  then have "length (blob_file lib dict (built_header opts kVersion2) ?es) < 2 ^ 64"
    by (intro blob_file_small [OF lib built_header_wf [OF opts]] dict(2)) (use len in \<open>simp_all add: file_es_def\<close>)
  moreover have "hd_flags (built_header opts kVersion2) AND kHasUncompressionDictionary \<noteq> 0 \<longleftrightarrow> dict \<noteq> None" "dict \<noteq> None \<Longrightarrow> lib_zstd lib"
    using dict(1) opts by (auto simp: built_header_def buildable_def)
  ultimately show ?thesis
    using lib opts built_header_wf [OF opts] recs
    by (auto simp: file_good_def good_file_def list_all_iff file_es_def built_header_def)
qed

lemma output_good:
  assumes r: "gc_ready lib fs j w" and items: "set items \<subseteq> sources lib fs" "length items < 2 ^ 31"
    and dict: "dict \<noteq> None \<longleftrightarrow> co_max_dict_bytes (gj_opts j) > 0" "\<And>d. dict = Some d \<Longrightarrow> length d < 2 ^ 32"
  shows "file_good lib ((co_compression (gj_opts j), dict, gc_header j), map snd items, n)"
proof (rule built_file_good [OF _ _ _ _ dict])
  show "lib_sound lib" "buildable lib (gj_opts j) kVersion2" using r by (simp_all add: gc_ready_def copying_def)
  show "length (map snd items) < 2 ^ 31" using items(2) by simp
  fix y assume "y \<in> set (map snd items)"
  then obtain x where y: "y = snd x" and x: "x \<in> sources lib fs" using items(1) by auto
  obtain f i where f: "f \<in> set fs" "i < length (file_records f)" "snd x = file_records f ! i" using sourcesD [OF x] by auto
  have "file_good lib f" using r f(1) by (auto simp: gc_ready_def list_all_iff input_file_def on_disk_def)
  then have "BlobRecord_fits y" using f by (auto simp: y file_good_def good_file_def list_all_length split: prod.splits)
  moreover have "length (enc_record (EncodeRecord (lib_compression lib d) (co_compression (gj_opts j)) y)) < 2 ^ 32" for d
    using r x by (auto simp: y gc_ready_def)
  ultimately show "BlobRecord_fits y \<and>
      length (enc_record (EncodeRecord (lib_compression lib (case dict of None \<Rightarrow> [] | Some d \<Rightarrow> d)) (co_compression (gj_opts j)) y)) < 2 ^ 32" by blast
qed

text \<open>Installing the output of a run.\<close>

lemma install_ok:
  assumes r: "gc_ready lib fs j w0" and items: "set items \<subseteq> sources lib fs" "length items < 2 ^ 31"
    and w: "in_order (gj_cf j) w" "\<not> w_mutex w" "w_storage w (gj_cf j) = Some bs" "bs_levels bs \<noteq> []" "w_readers w n0 = None"
    and j1: "same_job (j\<lparr>gj_batches := map (ctx_batch (gj_cf j)) outs, gj_builders := gj_builders j1\<rparr>) j1"
    and b: "gj_builders j1 = [] \<and> items = [] \<and> outs = [] \<or>
        (\<exists>b. gj_builders j1 = [(n0, b)] \<and> bb_opts b = gj_opts j \<and>
           building lib (gc_header j) (map snd items) (map (gc_ctx n0) items) outs b)"
  obtains s j2 w' fo where "InstallOutputBlobFiles lib j1 w = Some (s, j2, w')" "in_order (gj_cf j) w'" "\<not> w_mutex w'"
    "same_reads (gj_cf j) {n0} w w'" "w_base w' = w_base w" "w_writes w' = w_writes w"
    "s = OK \<Longrightarrow> gj_batches j2 = move_batches lib (gj_cf j) fo items \<and> file_records fo = map snd items \<and> file_number fo = n0 \<and>
       (items \<noteq> [] \<longrightarrow> on_disk lib (gj_cf j) fo w') \<and> gj_cf j2 = gj_cf j \<and> gj_offload j2 = gj_offload j \<and>
       gj_use_bitmap j2 = gj_use_bitmap j \<and> gc_inputs (gj_gc j2) = gc_inputs (gj_gc j)"
proof -
  let ?cf = "gj_cf j"
  note jf = same_jobD [OF j1, simplified]
  have cp: "copying lib fs j" using r by (simp add: gc_ready_def)
  then have lib: "lib_sound lib" and key: "\<And>x. x \<in> set items \<Longrightarrow> rec_key (snd x) \<noteq> []" using items(1) by (auto simp: copying_def)
  have outputs: "gc_inputs (fold (\<lambda>f. AddOutputFile (g f)) xs gc) = gc_inputs gc" for g xs gc
    by (induction xs arbitrary: gc) (simp_all add: AddOutputFile_def)
  show thesis
    using b
  proof
    assume e: "gj_builders j1 = [] \<and> items = [] \<and> outs = []"
    obtain s w' where bf: "BatchFinishFiles ?cf [] w = Some (s, w')" "in_order ?cf w'" "\<not> w_mutex w'" "same_reads ?cf {n0} w w'"
      "w_base w' = w_base w" "w_writes w' = w_writes w"
      by (rule BatchFinishFiles_ok [OF w(1-4), of "[]" n0]) auto
    let ?j2 = "if s = OK then j1\<lparr>gj_gc := gj_gc j1\<rparr> else j1"
    have "InstallOutputBlobFiles lib j1 w = Some (s, ?j2, w')" using e bf(1) jf(3) by (simp add: InstallOutputBlobFiles_def)
    then show thesis
      by (rule that [of s ?j2 w' "((co_compression (gj_opts j), None, gc_header j), [], n0)"])
        (use bf e jf in \<open>auto simp: move_batches_def\<close>)
  next
    assume "\<exists>b. gj_builders j1 = [(n0, b)] \<and> bb_opts b = gj_opts j \<and>
           building lib (gc_header j) (map snd items) (map (gc_ctx n0) items) outs b"
    then obtain b where bl: "gj_builders j1 = [(n0, b)]" "bb_opts b = gj_opts j"
      "building lib (gc_header j) (map snd items) (map (gc_ctx n0) items) outs b" by blast
    obtain b' new dict where fin: "Builder_Finish lib b = Some ((OK, b'), new)"
      "wf_data (bb_file b') = blob_file lib dict (gc_header j) (file_es lib (co_compression (gj_opts j)) dict (map snd items))"
      "outs @ new = handled (gc_header j) (file_es lib (co_compression (gj_opts j)) dict (map snd items)) (map (gc_ctx n0) items)"
      "dict \<noteq> None \<longleftrightarrow> co_max_dict_bytes (gj_opts j) > 0" "\<And>d. dict = Some d \<Longrightarrow> length d < 2 ^ 32" "wf_io (bb_file b') = []"
      by (rule Builder_Finish_building [OF lib bl(3), unfolded bl(2), folded file_es_def]) (rule that; (assumption | simp))
    let ?fo = "((co_compression (gj_opts j), dict, gc_header j), map snd items, n0)"
    have ck: "\<exists>k. rc_key c = InternalKey k 1 kTypeValue \<and> k \<noteq> []" if "c \<in> set new" for c
    proof -
      have "c \<in> set (outs @ new)" using that by simp
      then obtain i where "i < length items" "c = set_handle (nth_handle (gc_header j) (file_es lib (co_compression (gj_opts j)) dict (map snd items)) i) (gc_ctx n0 (items ! i))"
        unfolding fin(3) by (auto simp: handled_def)
      then show ?thesis using key [of "items ! i"] by (auto simp: set_handle_def gc_ctx_def)
    qed
    let ?j1 = "j1\<lparr>gj_batches := gj_batches j1 @ map (ctx_batch (gj_cf j1)) new\<rparr>"
    have bw: "BatchWriteNewIndices new OK j1 = Some (OK, ?j1)" by (rule BatchWriteNewIndices_contexts [OF ck])
    have mb: "gj_batches ?j1 = move_batches lib ?cf ?fo items"
      using jf(3,5) handled_batches [of ?cf "gc_header j" lib "co_compression (gj_opts j)" dict items n0] unfolding fin(3) [symmetric] by simp
    obtain m where m: "gc_output_meta n0 b' = Some m" "fm_number m = n0" "fm_size m = of_nat (length (wf_data (bb_file b')))" "fm_level m = 0"
      "\<not> is_obsolete m" by (rule gc_output_meta_ok)
    let ?files = "[(m, n0, bb_file b')]"
    let ?jm = "count_metrics (\<lambda>m. m\<lparr>gm_num_new_files := gm_num_new_files m + 1\<rparr>) ?j1"
    have fb: "finish_builders lib (gj_builders j1) [] j1 = Some (OK, ?files, ?jm)" using bl(1) fin(1) bw m(1) by simp
    obtain s w' where bf: "BatchFinishFiles ?cf ?files w = Some (s, w')" "in_order ?cf w'" "\<not> w_mutex w'" "same_reads ?cf {n0} w w'"
      "w_base w' = w_base w" "w_writes w' = w_writes w" "w_readers w' = w_readers w"
      "s = OK \<Longrightarrow> w_files w' n0 = Some (wf_data (bb_file b')) \<and> (\<exists>bs'. w_storage w' ?cf = Some bs' \<and> FindFile bs' n0 = Some m)"
      by (rule BatchFinishFiles_ok [OF w(1-4), of ?files n0]) (use m fin(6) in auto)
    let ?j2 = "if s = OK then ?jm\<lparr>gj_gc := fold (\<lambda>f. AddOutputFile (fm_number (fst f))) ?files (gj_gc ?jm)\<rparr> else ?jm"
    have "gj_cf ?jm = ?cf" using jf(3) by (simp add: count_metrics_def)
    then have io: "InstallOutputBlobFiles lib j1 w = Some (s, ?j2, w')" using fb bf(1) by (simp add: InstallOutputBlobFiles_def)
    have od: "on_disk lib ?cf ?fo w'" if "s = OK"
      using bf(7) bf(8) [OF that] w(5) m fin(2) output_good [OF r items fin(4,5), of n0]
      by (auto simp: on_disk_def file_data_def)
    show thesis
      by (rule that [OF io bf(2-6), of ?fo]) (use od mb jf in \<open>auto simp: count_metrics_def AddOutputFile_def\<close>)
  qed
qed

section \<open>Writing back\<close>

lemma drop_account_ok:
  assumes "storage_inv bs"
  shows "\<exists>bs'. drop_account False is p bs = Some bs' \<and> storage_inv bs' \<and> (\<forall>n. placed bs' n = placed bs n)"
proof (cases "FindFile bs (fst p)")
  case None
  then show ?thesis using assms by (auto simp: drop_account_def split: prod.splits)
next
  case (Some f)
  obtain k sz where p: "p = (k, sz)" by (cases p)
  obtain ok' g where g: "UpdateLiveDataSize (- sz) f = (ok', g)" by (cases "UpdateLiveDataSize (- sz) f")
  then have core: "same_core f g" by (auto simp: UpdateLiveDataSize_def same_core_def is_obsolete_def Let_def split: if_splits)
  let ?bs = "ComputeGCScore (add_ratio g (put_file k g (sub_ratio f bs)))"
  have "FindFile (sub_ratio f bs) k = Some f" using Some p by (simp add: FindFile_def sub_ratio_def)
  then have "storage_inv ?bs" using assms put_file_inv [OF _ _ core] by simp
  moreover have "placed ?bs n = placed bs n" for n
    using Some p core
    by (auto simp: placed_def FindFile_def add_ratio_def sub_ratio_def put_file_def map_of_al_modify same_core_def)
  ultimately show ?thesis using Some p g by (simp add: drop_account_def)
qed

lemma drop_accounts_ok:
  "storage_inv bs \<Longrightarrow> \<exists>bs'. opt_fold (drop_account False is) ps bs = Some bs' \<and> storage_inv bs' \<and> (\<forall>n. placed bs' n = placed bs n)"
proof (induction ps arbitrary: bs)
  case (Cons p ps)
  obtain b1 where b1: "drop_account False is p bs = Some b1" "storage_inv b1" "\<forall>n. placed b1 n = placed bs n"
    using drop_account_ok [OF Cons.prems] by blast
  then show ?case using Cons.IH [of b1] by simp
qed simp

lemma account_dropped_ok:
  assumes "in_order (gj_cf j) w" "\<not> gj_use_bitmap j"
  obtains w' where "account_dropped j d w = Some w'" "in_order (gj_cf j) w'" "same_reads (gj_cf j) {} w w'" "w_base w' = w_base w"
    "w_writes w' = w_writes w" "w_mutex w' = w_mutex w"
proof -
  obtain bs where bs: "w_storage w (gj_cf j) = Some bs" using assms by (auto simp: in_order_def)
  obtain bs' where b: "opt_fold (drop_account False (dr_indexes d)) (dr_sizes d) bs = Some bs'" "storage_inv bs'" "\<And>n. placed bs' n = placed bs n"
    using drop_accounts_ok [OF in_order_inv [OF assms(1) bs]] by blast
  let ?w = "w\<lparr>w_db := db_set_storage (gj_cf j) bs' (w_db w)\<rparr>"
  have cols: "fs_columns (w_fileset ?w) = al_modify (gj_cf j) (\<lambda>_. bs') (fs_columns (w_fileset w))"
    by (simp add: db_set_storage_def w_fileset_def)
  have st: "w_storage ?w (gj_cf j) = Some bs'" using bs by (simp add: w_storage_columns cols map_of_al_modify)
  have "fileset_inv (w_fileset ?w)"
    using fileset_inv_modify [of "w_fileset w" bs' "gj_cf j"] assms(1) b(2) by (simp add: in_order_def fileset_inv_def cols)
  then have "in_order (gj_cf j) ?w" using assms(1) st by (simp add: in_order_def w_fileset_def db_set_storage_def)
  moreover have "same_reads (gj_cf j) {} w ?w"
    by (rule same_readsI [OF assms(1) _ _ _ bs st]) (use assms(1) b(3) in \<open>simp_all add: in_order_def\<close>)
  ultimately show thesis by (intro that [of ?w]) (simp_all add: account_dropped_def bs b(1) assms(2))
qed

lemma write_back_ok:
  assumes B: "\<And>bt. bt \<in> set (gj_batches j) \<Longrightarrow> batch_ok I bt"
    and w: "in_order (gj_cf j) w" "\<not> w_mutex w" "\<not> gj_use_bitmap j" "\<not> gj_offload j" "writes_ok I (w_writes w)"
  obtains s j' w' dn where "RewriteValidKeyToLSM j w = Some (s, j', w')" "same_job j j'" "in_order (gj_cf j) w'" "\<not> w_mutex w'"
    "same_reads (gj_cf j) {} w w'" "w_writes w = dn @ w_writes w'" "no_new_refs I (w_base w) (w_base w')"
    "moved (set (gj_batches j)) (apply_writes (concat dn) (w_base w)) (w_base w')"
    "s = OK \<Longrightarrow> \<forall>bt \<in> set (gj_batches j). \<not> points_to (w_base w' (cb_key (snd bt))) (cb_blob_index (snd bt))"
proof -
  let ?B = "set (gj_batches j)" and ?cf = "gj_cf j"
  obtain s1 d1 j1 w1 where rl: "rewrite_loop (gj_batches j) OK \<lparr>dr_sizes = [], dr_indexes = []\<rparr> j w = (s1, d1, j1, w1)"
    by (metis prod.exhaust)
  have "moved ?B (w_base w) (w_base w)" by (simp add: moved_def)
  note rr = rewrite_loop_relocated [OF B subset_refl w(4) this w(5) rl]
  then obtain dn1 where r1: "steady w w1" "no_new_refs I (w_base w) (w_base w1)" "w_writes w = dn1 @ w_writes w1"
    "moved ?B (apply_writes (concat dn1) (w_base w)) (w_base w1)" "same_job j j1"
    "s1 = OK \<or> IsBusy s1 \<Longrightarrow> \<forall>bt \<in> ?B. \<not> points_to (w_base w1 (cb_key (snd bt))) (cb_blob_index (snd bt))"
    by (auto simp: relocated_def)
  have o1: "in_order ?cf w1" "\<not> w_mutex w1" "same_reads ?cf {} w w1"
    using steady_in_order [OF r1(1) w(1)] steady_same_reads [OF r1(1) w(1)] r1(1) w(2) by (simp_all add: steady_def)
  show thesis
  proof (cases "s1 \<noteq> OK \<and> \<not> IsBusy s1")
    case True
    then have "RewriteValidKeyToLSM j w = Some (s1, j1, w1)" using rl by (simp add: RewriteValidKeyToLSM_def)
    then show thesis using that r1 o1 True by blast
  next
    case False
    let ?w2 = "w1\<lparr>w_mutex := True\<rparr>"
    have o2: "in_order (gj_cf j1) ?w2" "\<not> gj_use_bitmap j1"
      using o1(1) same_jobD [OF r1(5)] w(3) by (simp_all add: in_order_def w_storage_def w_fileset_def)
    obtain w3 where w3: "account_dropped j1 d1 ?w2 = Some w3" "in_order ?cf w3" "same_reads ?cf {} ?w2 w3" "w_base w3 = w_base w1"
      "w_writes w3 = w_writes w1"
      by (rule account_dropped_ok [OF o2, of d1]) (use same_jobD(3) [OF r1(5)] in auto)
    obtain s4 w4 where f: "FlushWAL (mutex_Unlock w3) = (s4, w4)" by (cases "FlushWAL (mutex_Unlock w3)")
    then have bs: "base_status (others (mutex_Unlock w3)) = (s4, w4)" by (simp add: FlushWAL_def)
    have e: "evolved (mutex_Unlock w3) w4"
      using others_evolved [of "mutex_Unlock w3"] base_status_evolved [OF bs] evolved_same evolved_trans by blast
    then obtain dn2 where dn2: "steady (mutex_Unlock w3) w4" "w_writes w1 = dn2 @ w_writes w4" "w_base w4 = apply_writes (concat dn2) (w_base w1)"
      using w3(4,5) by (auto simp: evolved_def)
    have wo: "writes_ok I dn2" using w(5) r1(3) dn2(2) by (simp add: writes_ok_append)
    have nn: "no_new_refs I (w_base w1) (w_base w4)" unfolding dn2(3) by (rule writes_no_new_refs [OF wo])
    have run: "RewriteValidKeyToLSM j w = Some (s4, j1, w4)"
      using rl False w3(1) f locked [OF o1(2)] by (auto simp: RewriteValidKeyToLSM_def)
    show thesis
    proof (rule that [OF run r1(5)])
      show "in_order ?cf w4" "\<not> w_mutex w4" using steady_in_order [OF dn2(1)] w3(2) dn2(1) by (simp_all add: steady_def)
      have "same_reads ?cf {} w w3" using same_reads_trans [OF o1(3), of "{}" w3] w3(3) by simp
      moreover have "same_reads ?cf {} w3 w4" using steady_same_reads [OF dn2(1), of ?cf] w3(2) by simp
      ultimately show "same_reads ?cf {} w w4" using same_reads_trans by blast
      show "w_writes w = (dn1 @ dn2) @ w_writes w4" using r1(3) dn2(2) by simp
      show "no_new_refs I (w_base w) (w_base w4)" by (rule no_new_refs_trans [OF r1(2) nn])
      show "moved ?B (apply_writes (concat (dn1 @ dn2)) (w_base w)) (w_base w4)" using moved_writes [OF r1(4), of "concat dn2"] dn2(3) by simp
      show "\<forall>bt \<in> ?B. \<not> points_to (w_base w4 (cb_key (snd bt))) (cb_blob_index (snd bt))"
        using r1(6) False no_new_refs_dead [OF nn] B unfolding batch_ok_def by blast
    qed
  qed
qed

section \<open>What readers see\<close>

text \<open>A read while nobody else writes and nothing fails.\<close>

definition Get_now :: "BlobLib \<Rightarrow> u32 \<Rightarrow> bytes \<Rightarrow> World \<Rightarrow> (status \<times> bytes) option" where
  "Get_now lib cf key w = map_option fst (Titan_GetImpl lib cf key (mutex_Unlock (w\<lparr>w_writes := [], w_base_io := []\<rparr>)))"

lemma Get_now_entry:
  assumes "in_order cf w"
  shows "Get_now lib cf k w = (case w_base w k of None \<Rightarrow> Some (NotFound [], []) | Some e \<Rightarrow> entry_result lib cf e w)"
proof -
  let ?w = "w\<lparr>w_writes := [], w_base_io := []\<rparr>"
  have "same_reads cf {} w ?w"
    using in_order_number [OF assms] assms by (auto simp: same_reads_def in_order_def w_storage_def)
  then have "entry_result lib cf e ?w = entry_result lib cf e w" for e by (rule entry_result_same) simp
  moreover have "others (mutex_Unlock ?w) = mutex_Unlock ?w" "base_status (mutex_Unlock ?w) = (OK, mutex_Unlock ?w)"
    by (simp_all add: others_def base_status_def mutex_Unlock_def)
  ultimately show ?thesis
    by (auto simp: Get_now_def Titan_GetImpl_def base_GetImpl_def base_read_def entry_result_def split: option.splits)
qed

text \<open>
  The batches move records of the inputs to files that hold the same records.
\<close>

definition moves :: "BlobLib \<Rightarrow> merge_file list \<Rightarrow> u32 \<Rightarrow> World \<Rightarrow> (WriteBatch \<times> WriteCallback) set \<Rightarrow> bool" where
  "moves lib fs cf w B \<longleftrightarrow> (\<forall>bt \<in> B. \<exists>x \<in> sources lib fs. \<exists>fo i. cb_blob_index (snd bt) = fst x \<and>
     batch_entry bt = Some (BlobIndex_EncodeTo [] (file_index lib fo i), True) \<and> on_disk lib cf fo w \<and>
     i < length (file_records fo) \<and> file_records fo ! i = snd x)"

definition gc_effect :: "BlobLib \<Rightarrow> merge_file list \<Rightarrow> u32 \<Rightarrow> u64 \<Rightarrow> (bytes \<times> base_entry option) list list \<Rightarrow> World \<Rightarrow> World \<Rightarrow> bool" where
  "gc_effect lib fs cf n0 dn w w' \<longleftrightarrow> in_order cf w' \<and> same_reads cf {n0} w w' \<and> w_writes w = dn @ w_writes w' \<and>
     (\<exists>B. moves lib fs cf w' B \<and> moved B (apply_writes (concat dn) (w_base w)) (w_base w'))"

lemma gc_ready_order:
  assumes "gc_ready lib fs j w"
  shows "in_order (gj_cf j) w" "fs_next_file_number (w_fileset w) \<notin> file_number ` set fs"
    "\<And>f. f \<in> set fs \<Longrightarrow> on_disk lib (gj_cf j) f w"
proof -
  show d: "on_disk lib (gj_cf j) f w" if "f \<in> set fs" for f
    using assms that by (auto simp: gc_ready_def list_all_iff input_file_def)
  show "in_order (gj_cf j) w" using assms by (auto simp: gc_ready_def in_order_def)
  show "fs_next_file_number (w_fileset w) \<notin> file_number ` set fs"
  proof
    assume "fs_next_file_number (w_fileset w) \<in> file_number ` set fs"
    then obtain f where "f \<in> set fs" "file_number f = fs_next_file_number (w_fileset w)" by auto
    then show False using d [of f] assms by (auto simp: gc_ready_def on_disk_def)
  qed
qed

lemma file_index_entry: "entry_index (BlobIndex_EncodeTo [] (file_index lib f i), True) = Some (file_index lib f i)"
proof -
  have "bi_old_file_number (file_index lib f i) = 0" "bi_old_handle (file_index lib f i) = BlobHandle_zero"
    by (simp_all add: file_index_def BlobIndex_zero_def split: prod.splits)
  then show ?thesis by (simp add: entry_index_def BlobIndex_Decode_Encode)
qed

lemma BlobIndex_eq_refl [simp]: "BlobIndex_eq bi bi"
  by (simp add: BlobIndex_eq_def BlobHandle_eq_def)

lemma effect_view:
  assumes r: "gc_ready lib fs j w" and ef: "gc_effect lib fs (gj_cf j) (fs_next_file_number (w_fileset w)) dn w w'"
  shows "Get_now lib (gj_cf j) k w' = Get_now lib (gj_cf j) k (w\<lparr>w_base := apply_writes (concat dn) (w_base w)\<rparr>)"
proof -
  let ?cf = "gj_cf j" and ?n0 = "fs_next_file_number (w_fileset w)" and ?m = "apply_writes (concat dn) (w_base w)"
  let ?u = "w\<lparr>w_base := apply_writes (concat dn) (w_base w)\<rparr>"
  note o = gc_ready_order [OF r]
  have ou: "in_order ?cf ?u" using o(1) by (simp add: in_order_def w_storage_def w_fileset_def)
  have uw: "same_reads ?cf {} w ?u"
    using in_order_number [OF o(1)] o(1) by (auto simp: same_reads_def in_order_def w_storage_def)
  have eu: "entry_result lib ?cf e ?u = entry_result lib ?cf e w" for e by (rule entry_result_same [OF uw]) simp
  obtain B where e: "in_order ?cf w'" "same_reads ?cf {?n0} w w'" "w_writes w = dn @ w_writes w'" "moves lib fs ?cf w' B" "moved B ?m (w_base w')"
    using ef by (auto simp: gc_effect_def)
  have cache: "w_cache w = None" "w_cache w' = None" using o(1) e(1) by (simp_all add: in_order_def)
  from e(5) consider (same) "w_base w' k = ?m k"
    | (bt) bt where "bt \<in> B" "points_to (?m k) (cb_blob_index (snd bt))" "w_base w' k = batch_entry bt" unfolding moved_def by blast
  then show ?thesis
  proof cases
    case same
    have "writes_ok {?n0} dn" using r e(3) by (auto simp: gc_ready_def writes_ok_def)
    from writes_no_new_refs [OF this, of "w_base w"] have "\<not> refers (?m k) ?n0"
      using r unfolding no_new_refs_def gc_ready_def by (metis singletonI)
    then have "entry_result lib ?cf x w' = entry_result lib ?cf x w" if "?m k = Some x" for x
      by (intro entry_result_same [OF e(2)]) (use that in simp)
    then show ?thesis unfolding Get_now_entry [OF e(1)] Get_now_entry [OF ou] same eu by (simp split: option.splits)
  next
    case bt
    obtain x fo i where x: "x \<in> sources lib fs" "cb_blob_index (snd bt) = fst x" "on_disk lib ?cf fo w'" "i < length (file_records fo)"
      "batch_entry bt = Some (BlobIndex_EncodeTo [] (file_index lib fo i), True)" "file_records fo ! i = snd x"
      using e(4) bt(1) unfolding moves_def by blast
    obtain f l where f: "f \<in> set fs" "l < length (file_records f)" "x = (file_index lib f l, file_records f ! l)" using sourcesD [OF x(1)] by blast
    obtain y bi where y: "?m k = Some y" "entry_index y = Some bi" "BlobIndex_eq (file_index lib f l) bi"
      using bt(2) x(2) f(3) by (auto simp: points_to_def)
    have "entry_result lib ?cf y w = Some (OK, rec_value (snd x))"
      using entry_result_record [OF o(3) [OF f(1)] cache(1) f(2) y(2,3)] f(3) by simp
    moreover have "entry_result lib ?cf (BlobIndex_EncodeTo [] (file_index lib fo i), True) w' = Some (OK, rec_value (snd x))"
      using entry_result_record [OF x(3) cache(2) x(4) file_index_entry] x(6) by simp
    ultimately show ?thesis unfolding Get_now_entry [OF e(1)] Get_now_entry [OF ou] eu bt(3) x(5) using y(1) by simp
  qed
qed

lemma move_batches_ok:
  assumes "n0 \<notin> I" "file_number fo = n0" "set items \<subseteq> sources lib fs" "file_number ` set fs \<subseteq> I" "bt \<in> set (move_batches lib cf fo items)"
  shows "batch_ok I bt"
proof -
  obtain i where i: "i < length items" "bt = move_batch lib cf fo items i" using assms(5) by (auto simp: move_batches_def)
  have "items ! i \<in> sources lib fs" using assms(3) i(1) by auto
  then obtain f l where f: "f \<in> set fs" "fst (items ! i) = file_index lib f l" using sourcesD by fastforce
  have n: "bi_file_number (file_index lib f l) = file_number f" for f l by (auto simp: file_index_def split: prod.splits)
  have "batch_entry bt = Some (BlobIndex_EncodeTo [] (file_index lib fo i), True)" by (simp add: i(2) move_batch_def)
  moreover have "bi_file_number (cb_blob_index (snd bt)) \<in> I" using f assms(4) n by (auto simp: i(2) move_batch_def)
  ultimately show ?thesis using assms(1,2) n file_index_entry by (auto simp: batch_ok_def refers_def)
qed

lemma move_batches_move:
  assumes "set items \<subseteq> sources lib fs" "file_records fo = map snd items" "items \<noteq> [] \<Longrightarrow> on_disk lib cf fo w"
  shows "moves lib fs cf w (set (move_batches lib cf fo items))"
  unfolding moves_def
proof
  fix bt assume "bt \<in> set (move_batches lib cf fo items)"
  then obtain i where i: "i < length items" "bt = move_batch lib cf fo items i" by (auto simp: move_batches_def)
  then have "items \<noteq> []" by auto
  then show "\<exists>x \<in> sources lib fs. \<exists>fo i. cb_blob_index (snd bt) = fst x \<and>
     batch_entry bt = Some (BlobIndex_EncodeTo [] (file_index lib fo i), True) \<and> on_disk lib cf fo w \<and>
     i < length (file_records fo) \<and> file_records fo ! i = snd x"
    using assms i by (intro bexI [of _ "items ! i"] exI [of _ fo] exI [of _ i]) (auto simp: move_batch_def)
qed

section \<open>The whole collection\<close>

lemma delete_inputs_ok:
  assumes w: "in_order (gj_cf j) w"
  obtains s j' w' where "DeleteInputBlobFiles j w = Some (s, j', w')" "in_order (gj_cf j) w'" "same_reads (gj_cf j) {} w w'"
    "w_base w' = w_base w" "w_writes w' = w_writes w"
proof -
  let ?ns = "filter (\<lambda>n. \<not> input_obsolete j w n) (gc_inputs (gj_gc j))"
  let ?e = "fold (\<lambda>n. VersionEdit_DeleteBlobFile n (tb_sequence (w_db w))) ?ns (SetColumnFamilyID (gj_cf j) VersionEdit_new)"
  have fold: "ve_cf (fold (\<lambda>n. VersionEdit_DeleteBlobFile n q) ns e) = ve_cf e \<and>
      ve_added (fold (\<lambda>n. VersionEdit_DeleteBlobFile n q) ns e) = ve_added e" for q ns e
    by (induction ns arbitrary: e) (simp_all add: VersionEdit_DeleteBlobFile_def)
  have e: "ve_cf ?e = gj_cf j" "ve_added ?e = []" unfolding fold [THEN conjunct1] fold [THEN conjunct2]
    by (simp_all add: SetColumnFamilyID_def VersionEdit_new_def)
  obtain bs where bs: "w_storage w (gj_cf j) = Some bs" using w by (auto simp: in_order_def)
  obtain s fs' where l: "LogAndApply ?e (w_fileset w) = Some (s, fs')" "in_order (gj_cf j) (set_fileset fs' w)"
    "same_reads (gj_cf j) {} w (set_fileset fs' w)"
    by (rule world_edit [of ?e w bs, unfolded e]) (use w bs in \<open>auto intro: that\<close>)
  show thesis
    by (rule that [OF _ l(2,3)]) (use l(1) in \<open>simp_all add: DeleteInputBlobFiles_def Let_def set_fileset_def\<close>)
qed

lemma effect_step:
  assumes ef: "gc_effect lib fs cf n0 dn w w1" and s: "in_order cf w2" "same_reads cf {} w1 w2" "w_base w2 = w_base w1" "w_writes w2 = w_writes w1"
  shows "gc_effect lib fs cf n0 dn w w2"
proof -
  have "moves lib fs cf w2 B" if "moves lib fs cf w1 B" for B
    using that on_disk_same [OF _ s(2)] unfolding moves_def by (meson empty_iff)
  moreover have "same_reads cf {n0} w w2" using same_reads_trans [OF _ s(2)] ef by (auto simp: gc_effect_def)
  ultimately show ?thesis using ef s unfolding gc_effect_def by auto
qed

lemma effect_unlocked:
  "gc_effect lib fs cf n0 dn w (w1\<lparr>w_mutex := b\<rparr>) = gc_effect lib fs cf n0 dn w w1"
proof -
  have "in_order cf (w1\<lparr>w_mutex := b\<rparr>) = in_order cf w1" "\<And>f. on_disk lib cf f (w1\<lparr>w_mutex := b\<rparr>) = on_disk lib cf f w1"
    by (simp_all add: in_order_def on_disk_def w_storage_def w_fileset_def)
  then show ?thesis by (simp add: gc_effect_def moves_def)
qed

lemma unmoved_effect:
  assumes "in_order cf w1" "same_reads cf {n0} w w1" "w_writes w = dn @ w_writes w1" "w_base w1 = apply_writes (concat dn) (w_base w)"
  shows "gc_effect lib fs cf n0 dn w w1"
  using assms by (auto simp: gc_effect_def moves_def moved_def intro!: exI [of _ "{}"])

lemma file_index_number [simp]: "bi_file_number (file_index lib f l) = file_number f"
  by (simp add: file_index_def split: prod.splits)

text \<open>Nothing refers to the inputs when all copied records were moved.\<close>

lemma inputs_unreferenced:
  assumes r: "gc_ready lib fs j w" and cov: "\<And>x. x \<in> sources lib fs \<Longrightarrow> covered m1 items x"
    and nn: "no_new_refs (file_number ` set fs) (w_base w) m1" "no_new_refs (file_number ` set fs) m1 m"
    and gone: "\<And>x. x \<in> set items \<Longrightarrow> \<not> points_to (m (rec_key (snd x))) (fst x)"
    and n: "n \<in> file_number ` set fs"
  shows "\<not> refers (m k) n"
proof
  let ?I = "file_number ` set fs"
  assume rf: "refers (m k) n"
  have "m k = w_base w k" using no_new_refs_trans [OF nn] rf n unfolding no_new_refs_def by metis
  then obtain x where x: "x \<in> sources lib fs" "rec_key (snd x) = k" "points_to (m k) (fst x)"
    using r n rf unfolding gc_ready_def by metis
  have xn: "bi_file_number (fst x) \<in> ?I" using sourcesD [OF x(1)] by (metis file_index_number fst_conv imageI)
  show False
  proof (cases "points_to (m1 k) (fst x)")
    case True
    then obtain y where y: "y \<in> set items" "rec_key (snd y) = k" "BlobIndex_eq (fst y) (fst x)" using cov [OF x(1)] x(2) by (auto simp: covered_def)
    have "points_to (m k) (fst y)" using x(3) y(3) by (auto simp: points_to_def BlobIndex_eq_def BlobHandle_eq_def)
    then show False using gone [OF y(1)] y(2) by simp
  qed (use no_new_refs_dead [OF nn(2) xn] x(3) in blast)
qed

lemma finish_ok:
  assumes r: "gc_ready lib fs j w" and ev: "evolved (mutex_Unlock w) w1"
  defines "n0 \<equiv> fs_next_file_number (w_fileset w)"
  assumes items: "set items \<subseteq> sources lib fs" "length items < 2 ^ 31" "\<And>x. x \<in> sources lib fs \<Longrightarrow> covered (w_base w1) items x"
    and j1: "same_job (j\<lparr>gj_batches := map (ctx_batch (gj_cf j)) outs, gj_builders := gj_builders j1\<rparr>) j1"
    and b: "gj_builders j1 = [] \<and> items = [] \<and> outs = [] \<or>
        (\<exists>b. gj_builders j1 = [(n0, b)] \<and> bb_opts b = gj_opts j \<and>
           building lib (gc_header j) (map snd items) (map (gc_ctx n0) items) outs b)"
  shows "\<exists>s j' w' dn. GCJob_Finish lib j1 (w1\<lparr>w_mutex := True\<rparr>) = Some (s, j', w') \<and> gc_effect lib fs (gj_cf j) n0 dn w w' \<and>
    (s = OK \<longrightarrow> (\<forall>k. \<forall>n \<in> file_number ` set fs. \<not> refers (w_base w' k) n))"
proof -
  let ?cf = "gj_cf j" and ?u1 = "mutex_Unlock (w1\<lparr>w_mutex := True\<rparr>)" and ?I = "file_number ` set fs"
  note o = gc_ready_order [OF r, folded n0_def]
  obtain dn1 where d1: "steady (mutex_Unlock w) w1" "w_writes w = dn1 @ w_writes w1" "w_base w1 = apply_writes (concat dn1) (w_base w)"
    using ev by (auto simp: evolved_def)
  have wo: "writes_ok ?I (w_writes w)" using r by (auto simp: gc_ready_def writes_ok_def)
  have wo1: "writes_ok ?I dn1" "writes_ok ?I (w_writes w1)" using wo unfolding d1(2) by (simp_all add: writes_ok_append)
  obtain bs where bs: "w_storage w ?cf = Some bs" "bs_levels bs \<noteq> []" using r by (auto simp: gc_ready_def)
  have u1: "in_order ?cf ?u1" "w_storage ?u1 ?cf = Some bs" "w_readers ?u1 n0 = None" "w_base ?u1 = w_base w1" "w_writes ?u1 = w_writes w1"
  proof -
    have "w_readers w n0 = None" using r by (simp add: gc_ready_def n0_def)
    then show "w_readers ?u1 n0 = None" using d1(1) by (simp add: steady_def)
    show "in_order ?cf ?u1" using steady_in_order [OF d1(1)] o(1) by simp
    show "w_storage ?u1 ?cf = Some bs" using steady_storage [OF d1(1), of ?cf] bs(1) by simp
  qed simp_all
  have r1: "same_reads ?cf {} w ?u1" using steady_same_reads [OF d1(1)] o(1) by simp
  have um: "\<not> w_mutex ?u1" by simp
  obtain s2 j2 w2 fo where in2: "InstallOutputBlobFiles lib j1 ?u1 = Some (s2, j2, w2)" "in_order ?cf w2" "\<not> w_mutex w2"
    "same_reads ?cf {n0} ?u1 w2" "w_base w2 = w_base ?u1" "w_writes w2 = w_writes ?u1"
    and ok2: "s2 = OK \<Longrightarrow> gj_batches j2 = move_batches lib ?cf fo items \<and> file_records fo = map snd items \<and> file_number fo = n0 \<and>
       (items \<noteq> [] \<longrightarrow> on_disk lib ?cf fo w2) \<and> gj_cf j2 = ?cf \<and> gj_offload j2 = gj_offload j \<and>
       gj_use_bitmap j2 = gj_use_bitmap j \<and> gc_inputs (gj_gc j2) = gc_inputs (gj_gc j)"
    by (rule install_ok [OF r items(1,2) u1(1) um u1(2) bs(2) u1(3) j1 b]) (rule that; assumption)
  have r2: "same_reads ?cf {n0} w w2" using same_reads_trans [OF r1 in2(4)] by simp
  have off: "\<not> gj_offload j1" "\<not> gj_offload j" "\<not> gj_use_bitmap j"
    using r same_jobD(7) [OF j1] by (simp_all add: gc_ready_def copying_def)
  show ?thesis
  proof (cases "s2 = OK")
    case False
    then have "GCJob_Finish lib j1 (w1\<lparr>w_mutex := True\<rparr>) = Some (s2, j2, w2\<lparr>w_mutex := True\<rparr>)"
      using in2(1) off(1) locked [OF in2(3)] by (simp add: GCJob_Finish_def)
    moreover have "gc_effect lib fs ?cf n0 dn1 w (w2\<lparr>w_mutex := True\<rparr>)"
      unfolding effect_unlocked by (rule unmoved_effect [OF in2(2) r2]) (use d1 in2(5,6) in simp_all)
    ultimately show ?thesis using False by blast
  next
    case True
    note ok = ok2 [OF True]
    have bo: "batch_ok ?I bt" if "bt \<in> set (gj_batches j2)" for bt
      by (rule move_batches_ok [OF o(2) _ items(1) subset_refl]) (use ok that in auto)
    obtain s3 j3 w3 dn3 where wb: "RewriteValidKeyToLSM j2 w2 = Some (s3, j3, w3)" "same_job j2 j3" "in_order ?cf w3" "\<not> w_mutex w3"
      "same_reads ?cf {} w2 w3" "w_writes w2 = dn3 @ w_writes w3" "no_new_refs ?I (w_base w2) (w_base w3)"
      "moved (set (gj_batches j2)) (apply_writes (concat dn3) (w_base w2)) (w_base w3)"
      and gone: "s3 = OK \<Longrightarrow> \<forall>bt \<in> set (gj_batches j2). \<not> points_to (w_base w3 (cb_key (snd bt))) (cb_blob_index (snd bt))"
    proof -
      have cf2: "gj_cf j2 = ?cf" and flags: "\<not> gj_use_bitmap j2" "\<not> gj_offload j2" using ok off by auto
      have o2: "in_order (gj_cf j2) w2" and wo2: "writes_ok ?I (w_writes w2)" using in2(2,6) wo1(2) cf2 by simp_all
      show thesis by (rule write_back_ok [OF bo o2 in2(3) flags wo2, unfolded cf2]) (assumption, (rule that; assumption))
    qed
    let ?dn = "dn1 @ dn3"
    have ef3: "gc_effect lib fs ?cf n0 ?dn w w3"
      unfolding gc_effect_def
    proof (intro conjI exI)
      show "in_order ?cf w3" by (rule wb(3))
      show "same_reads ?cf {n0} w w3" using same_reads_trans [OF r2 wb(5)] by simp
      show "w_writes w = ?dn @ w_writes w3" using d1(2) in2(6) wb(6) by simp
      show "moved (set (gj_batches j2)) (apply_writes (concat ?dn) (w_base w)) (w_base w3)" using wb(8) in2(5) d1(3) by simp
      show "moves lib fs ?cf w3 (set (gj_batches j2))"
        using move_batches_move [OF items(1), of fo ?cf w3] ok on_disk_same [OF _ wb(5)] by auto
    qed
    have nr: "\<forall>k. \<forall>n \<in> ?I. \<not> refers (w_base w3 k) n" if s3: "s3 = OK"
    proof (intro allI ballI)
      fix k n assume n: "n \<in> ?I"
      show "\<not> refers (w_base w3 k) n"
      proof (rule inputs_unreferenced [OF r items(3) _ _ _ n])
        show "no_new_refs ?I (w_base w) (w_base w1)" unfolding d1(3) by (rule writes_no_new_refs [OF wo1(1)])
        show "no_new_refs ?I (w_base w1) (w_base w3)" using wb(7) in2(5) by simp
        fix x assume "x \<in> set items"
        then obtain i where "i < length items" "x = items ! i" by (auto simp: in_set_conv_nth)
        then show "\<not> points_to (w_base w3 (rec_key (snd x))) (fst x)"
          using gone [OF s3] ok by (auto simp: move_batches_def move_batch_def)
      qed
    qed
    obtain gone4 w4 where g4: "IsDropped (w3\<lparr>w_mutex := True\<rparr>) = (gone4, w4)" by (cases "IsDropped (w3\<lparr>w_mutex := True\<rparr>)")
    note e4 = IsDropped_evolved [OF g4]
    have w3m: "in_order ?cf (w3\<lparr>w_mutex := True\<rparr>)" using wb(3) by (simp add: in_order_def w_storage_def w_fileset_def)
    have s4: "in_order ?cf w4" "same_reads ?cf {} w3 w4" "w_base w4 = w_base w3" "w_writes w4 = w_writes w3"
      using e4 steady_in_order [of _ w4 ?cf] steady_same_reads [of "w3\<lparr>w_mutex := True\<rparr>" w4 ?cf] w3m by auto
    have ef4: "gc_effect lib fs ?cf n0 ?dn w w4" by (rule effect_step [OF ef3 s4])
    have fin: "GCJob_Finish lib j1 (w1\<lparr>w_mutex := True\<rparr>) =
        (if s3 \<noteq> OK then Some (s3, j3, w3\<lparr>w_mutex := True\<rparr>) else if gone4 then Some (s3, j3, w4) else DeleteInputBlobFiles j3 w4)"
      using in2(1) off(1) locked [OF wb(4)] True wb(1) g4 by (simp add: GCJob_Finish_def)
    have cf3: "gj_cf j3 = ?cf" using same_jobD(3) [OF wb(2)] ok by simp
    obtain s5 j5 w5 where d5: "DeleteInputBlobFiles j3 w4 = Some (s5, j5, w5)" "in_order ?cf w5" "same_reads ?cf {} w4 w5"
      "w_base w5 = w_base w4" "w_writes w5 = w_writes w4"
      by (rule delete_inputs_ok [of j3 w4]) (use s4(1) cf3 in auto)
    have ef5: "gc_effect lib fs ?cf n0 ?dn w w5" by (rule effect_step [OF ef4 d5(2-5)])
    consider "s3 \<noteq> OK" | "s3 = OK" "gone4" | "s3 = OK" "\<not> gone4" by blast
    then show ?thesis
    proof cases
      case 1
      then show ?thesis using fin ef3 by (intro exI [of _ s3] exI [of _ j3] exI [of _ "w3\<lparr>w_mutex := True\<rparr>"] exI [of _ ?dn]) (simp add: effect_unlocked)
    next
      case 2
      then show ?thesis using fin ef4 nr s4(3) by auto
    next
      case 3
      then show ?thesis using fin ef5 nr s4(3) d5(1,4) by auto
    qed
  qed
qed

section \<open>Properties\<close>


text \<open>A database with one blob file of two records, one of them live, and a writer.\<close>

definition demo_gc_file :: merge_file where
  "demo_gc_file = ((0, None, BlobFileHeader_default), demo_recs, 1)"

definition demo_gc_meta :: BlobFileMeta where
  "demo_gc_meta = (BlobFileMeta_new 1 (of_nat (length (file_data demo_lib demo_gc_file))) 2 0 [1] [3])\<lparr>fm_state := BeingGC\<rparr>"

definition demo_gc_world :: World where
  "demo_gc_world = \<lparr>w_db = demo_db demo_gc_meta False, w_files = [1 \<mapsto> file_data demo_lib demo_gc_file], w_readers = Map.empty,
     w_prefix = (\<lambda>_. []), w_cache = None,
     w_base = [[1] \<mapsto> (BlobIndex_EncodeTo [] (file_index demo_lib demo_gc_file 0), True), [3] \<mapsto> ([9], False)],
     w_writes = [[([5], Some ([6], False))]], w_base_io = [], w_new_files = [], w_dir_io = [], w_pending = [], w_mutex = True,
     w_bg_error = OK, w_shutdown = [], w_dropped = []\<rparr>"

definition demo_gc_job :: GCJob where
  "demo_gc_job = GCJob_new \<lparr>gc_inputs = [1], gc_outputs = [], gc_options = demo_options, gc_trigger_next = False\<rparr>
     (demo_builder_options\<lparr>co_use_bitmap := False\<rparr>) 0 (\<lambda>_. of_nat (length (file_data demo_lib demo_gc_file))) False"

lemma demo_gc_good: "file_good demo_lib demo_gc_file"
  using demo_good_file [of demo_recs] by (simp add: file_good_def demo_gc_file_def)

lemma demo_gc_on_disk: "on_disk demo_lib 0 demo_gc_file demo_gc_world"
proof -
  have n: "file_number demo_gc_file = 1" by (simp add: demo_gc_file_def)
  show ?thesis
    unfolding on_disk_def n using demo_gc_good
    by (simp add: demo_gc_world_def w_storage_def demo_gc_meta_def BlobFileMeta_new_def)
qed

lemma demo_gc_sources: "x \<in> sources demo_lib [demo_gc_file] \<Longrightarrow>
    x = (file_index demo_lib demo_gc_file 0, \<lparr>rec_key = [1], rec_value = [2]\<rparr>) \<or> snd x = \<lparr>rec_key = [3], rec_value = [4]\<rparr>"
  by (auto dest!: sourcesD simp: demo_gc_file_def demo_recs_def less_Suc_eq)

lemma demo_gc_ready: "gc_ready demo_lib [demo_gc_file] demo_gc_job demo_gc_world"
proof -
  let ?o = "demo_builder_options\<lparr>co_use_bitmap := False\<rparr>"
  let ?x = "(file_index demo_lib demo_gc_file 0, \<lparr>rec_key = [1], rec_value = [2]\<rparr>)"
  have f: "file_number demo_gc_file = 1" "file_records demo_gc_file = demo_recs" by (simp_all add: demo_gc_file_def)
  have j: "gj_opts demo_gc_job = ?o" "gj_cf demo_gc_job = 0" "gj_builders demo_gc_job = []" "gj_batches demo_gc_job = []"
    "\<not> gj_use_bitmap demo_gc_job" "\<not> gj_offload demo_gc_job" "gc_inputs (gj_gc demo_gc_job) = [1]"
    "gj_input_size demo_gc_job 1 = of_nat (length (file_data demo_lib demo_gc_file))"
    by (simp_all add: demo_gc_job_def GCJob_new_def)
  have o: "co_target_size ?o > 0" "co_blob_run_mode ?o \<noteq> kFallback" "co_less ?o = bytes_less" "co_compression ?o = 0"
    by (simp_all add: demo_builder_options_def demo_options_def TitanCFOptions.extend_def)
  have bu: "buildable demo_lib ?o kVersion2" by (simp add: buildable_def demo_lib_def)
  have keys: "rec_key (snd x) \<noteq> []" if "x \<in> sources demo_lib [demo_gc_file]" for x using demo_gc_sources [OF that] by auto
  have enc: "length (enc_record (EncodeRecord (lib_compression demo_lib d) 0 (snd x))) < 2 ^ 32" if "x \<in> sources demo_lib [demo_gc_file]" for x d
    using demo_gc_sources [OF that] length_EncodeVarint32_max [of 1]
    by (auto simp: EncodeRecord_def EncodeSlice_def Compress_def Let_def BlobRecord_EncodeTo_def PutLengthPrefixedSlice_def PutVarint32_def)
  have inp: "list_all (input_file demo_lib demo_gc_job demo_gc_world) [demo_gc_file]"
    using demo_gc_on_disk f j by (simp add: input_file_def demo_recs_def)
  have st: "w_storage demo_gc_world 0 = Some (demo_storage demo_gc_meta)" "bs_levels (demo_storage demo_gc_meta) \<noteq> []"
    "FindFile (demo_storage demo_gc_meta) 8 = None" "fs_next_file_number (w_fileset demo_gc_world) = 8" "fs_manifest (w_fileset demo_gc_world) \<noteq> None"
    by (simp_all add: demo_gc_world_def w_storage_def w_fileset_def demo_db_def demo_fileset_def db_storage_def GetBlobStorage_def
        demo_storage_def demo_gc_meta_def BlobFileMeta_new_def FindFile_def)
  have "storage_inv (demo_storage demo_gc_meta)"
    by (rule demo_storage_inv) (simp_all add: demo_gc_meta_def BlobFileMeta_new_def is_obsolete_def)
  then have inv: "fileset_inv (w_fileset demo_gc_world)" by (simp add: fileset_inv_def demo_gc_world_def w_fileset_def demo_db_def demo_fileset_def)
  have w: "w_mutex demo_gc_world" "w_cache demo_gc_world = None" "w_new_files demo_gc_world = []" "w_readers demo_gc_world = Map.empty"
    "w_base demo_gc_world = [[1] \<mapsto> (BlobIndex_EncodeTo [] (file_index demo_lib demo_gc_file 0), True), [3] \<mapsto> ([9], False)]"
    "w_writes demo_gc_world = [[([5], Some ([6], False))]]" by (simp_all add: demo_gc_world_def)
  have src: "?x \<in> sources demo_lib [demo_gc_file]"
    using sourcesI [of demo_gc_file "[demo_gc_file]" 0 demo_lib] f by (simp add: demo_recs_def)
  have plain: "entry_index ([9], False) = None" by (simp add: entry_index_def)
  have "refers (w_base demo_gc_world k) n \<Longrightarrow> k = [1] \<and> n = 1" for k n
    unfolding w(5) by (auto simp: refers_def file_index_entry f(1) plain split: if_splits)
  moreover have "points_to (w_base demo_gc_world [1]) (fst ?x)"
    unfolding w(5) by (simp add: points_to_def file_index_entry)
  ultimately have refs: "\<not> refers (w_base demo_gc_world k) 8 \<and>
      (\<forall>n \<in> file_number ` set [demo_gc_file]. refers (w_base demo_gc_world k) n \<longrightarrow>
         (\<exists>x \<in> sources demo_lib [demo_gc_file]. rec_key (snd x) = k \<and> points_to (w_base demo_gc_world k) (fst x)))" for k
    using src by force
  have wo: "writes_ok (insert 8 (file_number ` set [demo_gc_file])) (w_writes demo_gc_world)"
    by (simp add: w(6) writes_ok_def refers_def entry_index_def)
  have cp: "copying demo_lib [demo_gc_file] demo_gc_job"
    using demo_lib_sound bu o j keys by (simp add: copying_def)
  show ?thesis
    unfolding gc_ready_def st(4) j(1,2,7) o(3,4)
    using cp bytes_less_strict_weak inp w inv st refs wo enc f by (simp add: demo_recs_def)
qed


end
