(* ===== verification/Titan_WriteBack.thy ===== *)
theory Titan_WriteBack
  imports Titan_GCJob
begin

text \<open>
  Write-backs that are not checked when they are written.  A collection on the accelerator writes an index that
  carries the place its value was moved from; the reader of a memtable (\<open>memtable.cc\<close>) and the
  compaction (\<open>compaction_iterator.cc\<close>) decide later whether it holds.  A failed assertion has the value
  \<open>None\<close>.
\<close>

unbundle bit_operations_syntax

section \<open>Blob indexes as the base database reads them\<close>

abbreviation kTypeDeletion :: byte where "kTypeDeletion \<equiv> 0"

abbreviation kTypeMerge :: byte where "kTypeMerge \<equiv> 2"

abbreviation kTypeSingleDeletion :: byte where "kTypeSingleDeletion \<equiv> 7"

abbreviation kTypeRangeDeletion :: byte where "kTypeRangeDeletion \<equiv> 0xF"

abbreviation kTypeBlobIndex :: byte where "kTypeBlobIndex \<equiv> 0x11"

record blob_index_type =
  it_file_no :: u64
  it_off :: u64
  it_size :: u64
  it_no :: u64

definition get_fields :: "bytes \<Rightarrow> (blob_index_type \<times> bytes) option" where
  "get_fields src =
     (case GetVarint64 src of
        None \<Rightarrow> None
      | Some (n, src) \<Rightarrow>
          (case GetVarint64 src of
             None \<Rightarrow> None
           | Some (off, src) \<Rightarrow>
               (case GetVarint64 src of
                  None \<Rightarrow> None
                | Some (sz, src) \<Rightarrow>
                    (case GetVarint64 src of
                       None \<Rightarrow> None
                     | Some (i, src) \<Rightarrow> Some (\<lparr>it_file_no = n, it_off = off, it_size = sz, it_no = i\<rparr>, src)))))"

definition get_index :: "bytes \<Rightarrow> (blob_index_type \<times> bytes) option" where
  "get_index src =
     (case GetChar src of
        None \<Rightarrow> None
      | Some (type, src) \<Rightarrow> if type \<noteq> 1 then None else get_fields src)"

definition put_index :: "blob_index_type \<Rightarrow> bytes" where
  "put_index i = PutVarint64 (PutVarint64 (PutVarint64 (PutVarint64 [1] (it_file_no i)) (it_off i)) (it_size i)) (it_no i)"

section \<open>Compaction\<close>

text \<open>
  \<open>CheckBlobIndex\<close>: no result when the newer index is not a write-back, otherwise the index that stays.
\<close>

definition CheckBlobIndex :: "bytes \<Rightarrow> bytes \<Rightarrow> bytes option option" where
  "CheckBlobIndex prev cur =
     (case get_index prev of
        None \<Rightarrow> None
      | Some (prev_new, prev) \<Rightarrow>
          if prev = [] then Some None
          else
            (case get_fields prev of
               None \<Rightarrow> None
             | Some (prev_old, _) \<Rightarrow>
                 (case get_index cur of
                    None \<Rightarrow> None
                  | Some (cur_new, _) \<Rightarrow>
                      Some (Some (put_index
                        (if it_file_no prev_old = it_file_no cur_new \<and> it_off prev_old = it_off cur_new
                         then prev_new else cur_new))))))"

record kv_type =
  kv_key :: bytes
  kv_value :: bytes
  kv_user_key :: bytes

definition user_eq :: "(bytes \<Rightarrow> bytes \<Rightarrow> bool) \<Rightarrow> bytes \<Rightarrow> bytes \<Rightarrow> bool" where
  "user_eq lt a b \<longleftrightarrow> \<not> lt a b \<and> \<not> lt b a"

text \<open>One round of \<open>Preprocess\<close>; the end of the list is the back of the queue.\<close>

definition Preprocess_kv :: "(bytes \<Rightarrow> bytes \<Rightarrow> bool) \<Rightarrow> bytes \<times> bytes \<Rightarrow> kv_type list \<Rightarrow> kv_type list option" where
  "Preprocess_kv lt p q =
     (let (k, v) = p in
      case ParseInternalKey k of
        Some (Inr (user_key, _, type)) \<Rightarrow>
          (let kv = \<lparr>kv_key = k, kv_value = v, kv_user_key = user_key\<rparr> in
           if type \<noteq> kTypeValue \<and> type \<noteq> kTypeBlobIndex then None
           else if q = [] then Some [kv]
           else
             (let pre = last q in
              if \<not> user_eq lt user_key (kv_user_key pre) then Some (q @ [kv])
              else
                (case ParseInternalKey (kv_key pre) of
                   Some (Inr (_, _, pre_type)) \<Rightarrow>
                     if pre_type = kTypeValue then Some q
                     else if pre_type = kTypeBlobIndex then
                       (if type = kTypeValue then Some (butlast q @ [kv])
                        else
                          (case CheckBlobIndex (kv_value pre) v of
                             None \<Rightarrow> None
                           | Some None \<Rightarrow> Some q
                           | Some (Some res) \<Rightarrow> Some (butlast q @ [pre\<lparr>kv_value := res\<rparr>])))
                     else None
                 | _ \<Rightarrow> None)))
      | _ \<Rightarrow> None)"

definition Preprocess :: "(bytes \<Rightarrow> bytes \<Rightarrow> bool) \<Rightarrow> (bytes \<times> bytes) list \<Rightarrow> kv_type list option" where
  "Preprocess lt input = opt_fold (Preprocess_kv lt) input []"

text \<open>\<open>NextFromCache\<close>: the entry the iterator stands on, or the end, and the new offset.\<close>

definition NextFromCache :: "kv_type list \<Rightarrow> u64 \<Rightarrow> kv_type option \<times> u64" where
  "NextFromCache q off = (if unat off < length q then (Some (q ! unat off), off + 1) else (None, off))"

section \<open>Memtables\<close>

text \<open>
  What \<open>SaveValue\<close> fills in.  \<open>None\<close> for a flag is a null pointer.  There is no merge operator and
  no read callback, and values are not updated in place.
\<close>

record Saver =
  sv_status :: status
  sv_found_final_value :: bool
  sv_value :: bytes
  sv_pending_check :: "bool option"
  sv_is_blob_index :: "bool option"

definition SaverCheckIsGCWriteBack :: "bytes \<Rightarrow> bool option" where
  "SaverCheckIsGCWriteBack v = map_option (\<lambda>(_, rest). rest \<noteq> []) (get_index v)"

definition save_value :: "byte \<Rightarrow> bytes \<Rightarrow> Saver \<Rightarrow> Saver option" where
  "save_value type v s =
     (case sv_pending_check s of
        None \<Rightarrow> Some (s\<lparr>sv_value := v\<rparr>)
      | Some pending \<Rightarrow>
          if type = kTypeBlobIndex then
            (if \<not> pending then
               map_option (\<lambda>b. s\<lparr>sv_value := v, sv_pending_check := Some b\<rparr>) (SaverCheckIsGCWriteBack v)
             else Some (s\<lparr>sv_pending_check := Some False\<rparr>))
          else Some (s\<lparr>sv_value := v, sv_pending_check := Some False\<rparr>))"

text \<open>\<open>SaveValue\<close> on an entry (sequence, type, value) of the key: whether to go on.\<close>

definition SaveValue :: "u64 \<Rightarrow> u64 \<times> byte \<times> bytes \<Rightarrow> Saver \<Rightarrow> (bool \<times> Saver) option" where
  "SaveValue max_covering_tombstone_seq e s =
     (let (seq, type, v) = e;
          type = (if (type = kTypeValue \<or> type = kTypeMerge \<or> type = kTypeBlobIndex) \<and> max_covering_tombstone_seq > seq
                  then kTypeRangeDeletion else type) in
      if type = kTypeBlobIndex \<and> sv_is_blob_index s = None then
        Some (False, s\<lparr>sv_status := NotSupported ''Encounter unsupported blob value. Please open DB with ROCKSDB_NAMESPACE::blob_db::BlobDB instead.'',
                       sv_found_final_value := True\<rparr>)
      else if type = kTypeBlobIndex \<or> type = kTypeValue then
        map_option (\<lambda>s. (sv_pending_check s = Some True,
            s\<lparr>sv_found_final_value := True, sv_is_blob_index := map_option (\<lambda>_. type = kTypeBlobIndex) (sv_is_blob_index s)\<rparr>))
          (save_value type v (s\<lparr>sv_status := OK\<rparr>))
      else if type = kTypeDeletion \<or> type = 0x14 \<or> type = kTypeSingleDeletion \<or> type = kTypeRangeDeletion then
        Some (False, s\<lparr>sv_status := NotFound [], sv_found_final_value := True\<rparr>)
      else if type = kTypeMerge then
        Some (False, s\<lparr>sv_status := InvalidArgument ''merge_operator is not properly initialized.'', sv_found_final_value := True\<rparr>)
      else Some (False, s\<lparr>sv_status := Corruption ''Corrupted value not expected.''\<rparr>))"

text \<open>\<open>MemTableRep::Get\<close> over the entries of the key, the newest first.\<close>

fun GetFromTable :: "u64 \<Rightarrow> (u64 \<times> byte \<times> bytes) list \<Rightarrow> Saver \<Rightarrow> Saver option" where
  "GetFromTable tomb [] s = Some s"
| "GetFromTable tomb (e # es) s =
     (case SaveValue tomb e s of
        None \<Rightarrow> None
      | Some (go_on, s) \<Rightarrow> if go_on then GetFromTable tomb es s else Some s)"

definition MemTable_Get :: "u64 \<Rightarrow> (u64 \<times> byte \<times> bytes) list \<Rightarrow> Saver \<Rightarrow> (bool \<times> Saver) option" where
  "MemTable_Get tomb es s =
     map_option (\<lambda>s. (sv_found_final_value s, s)) (GetFromTable tomb es (s\<lparr>sv_found_final_value := False\<rparr>))"

text \<open>The immutable memtables, the newest first, are searched without the flag.\<close>

fun imm_Get :: "u64 \<Rightarrow> (u64 \<times> byte \<times> bytes) list list \<Rightarrow> Saver \<Rightarrow> (bool \<times> Saver) option" where
  "imm_Get tomb [] s = Some (False, s)"
| "imm_Get tomb (es # ess) s =
     (case MemTable_Get tomb es s of
        None \<Rightarrow> None
      | Some (found, s) \<Rightarrow>
          if found then Some (True, s)
          else if sv_status s \<noteq> OK \<and> \<not> IsNotFound (sv_status s) then Some (False, s)
          else imm_Get tomb ess s)"

text \<open>\<open>DBImpl::GetImpl\<close> after the super version is taken; \<open>ver\<close> is what the table files give.\<close>

definition levels_GetImpl :: "u64 \<Rightarrow> (u64 \<times> byte \<times> bytes) list \<Rightarrow> (u64 \<times> byte \<times> bytes) list list \<Rightarrow>
    status \<times> bytes \<times> bool \<Rightarrow> (status \<times> bytes \<times> bool) option" where
  "levels_GetImpl tomb mem imm ver =
     (case MemTable_Get tomb mem \<lparr>sv_status = OK, sv_found_final_value = False, sv_value = [], sv_pending_check = Some False,
               sv_is_blob_index = Some False\<rparr> of
        None \<Rightarrow> None
      | Some (found, s) \<Rightarrow>
          if found then Some (sv_status s, sv_value s, sv_is_blob_index s = Some True)
          else if sv_status s \<noteq> OK then Some (sv_status s, sv_value s, sv_is_blob_index s = Some True)
          else
            (case imm_Get tomb imm (s\<lparr>sv_pending_check := None\<rparr>) of
               None \<Rightarrow> None
             | Some (found, s) \<Rightarrow>
                 if found \<or> sv_status s \<noteq> OK then Some (sv_status s, sv_value s, sv_is_blob_index s = Some True)
                 else Some ver))"

section \<open>What versions mean\<close>

text \<open>
  A user writes an inline value or, after the separation, an index; a write-back holds when the
  entry before it is the one it was moved from.
\<close>

datatype entry = Inline bytes | Blob u64 BlobHandle

datatype version = Put entry | WriteBack u64 BlobHandle u64 BlobHandle

fun version_step :: "entry option \<Rightarrow> version \<Rightarrow> entry option" where
  "version_step c (Put e) = Some e"
| "version_step c (WriteBack n h old_n old_h) =
     (case c of
        Some (Blob m g) \<Rightarrow> if m = old_n \<and> bh_offset g = bh_offset old_h then Some (Blob n h) else c
      | _ \<Rightarrow> c)"

definition replay_versions :: "entry option \<Rightarrow> version list \<Rightarrow> entry option" where
  "replay_versions c vs = foldl version_step c vs"

text \<open>How a version is stored.\<close>

fun version_type :: "version \<Rightarrow> byte" where
  "version_type (Put (Inline v)) = kTypeValue"
| "version_type _ = kTypeBlobIndex"

fun version_value :: "version \<Rightarrow> bytes" where
  "version_value (Put (Inline v)) = v"
| "version_value (Put (Blob n h)) = BlobIndex_EncodeTo [] (BlobIndex_zero\<lparr>bi_file_number := n, bi_handle := h\<rparr>)"
| "version_value (WriteBack n h old_n old_h) =
     BlobIndex_EncodeTo [] \<lparr>bi_file_number = n, bi_handle = h, bi_old_file_number = old_n, bi_old_handle = old_h\<rparr>"

fun version_fits :: "version \<Rightarrow> bool" where
  "version_fits (WriteBack n h old_n old_h) = (old_n \<noteq> 0)"
| "version_fits _ = True"

definition version_kv :: "bytes \<Rightarrow> u64 \<times> version \<Rightarrow> bytes \<times> bytes" where
  "version_kv uk x = (InternalKey uk (fst x) (version_type (snd x)), version_value (snd x))"

text \<open>
  Versions, the newest first, that compaction can resolve: below an index of a user or below a
  resolved write-back there is no inline value, and write-backs are not stacked.
\<close>

definition no_inline :: "version list \<Rightarrow> bool" where
  "no_inline vs \<longleftrightarrow> (\<forall>v. Put (Inline v) \<notin> set vs)"

fun resolvable :: "version list \<Rightarrow> bool" where
  "resolvable [] = False"
| "resolvable (Put (Inline v) # vs) = True"
| "resolvable (Put (Blob n h) # vs) = no_inline vs"
| "resolvable (WriteBack n h m g # []) = True"
| "resolvable (WriteBack n h m g # Put (Inline v) # vs) = True"
| "resolvable (WriteBack n h m g # Put (Blob a b) # vs) = no_inline vs"
| "resolvable (WriteBack n h m g # WriteBack a b c d # vs) = False"

section \<open>Encodings\<close>

lemma ParseInternalKey_Internal:
  assumes seq: "seq < 2 ^ 56" and t: "t = kTypeValue \<or> t = kTypeBlobIndex"
  shows "ParseInternalKey (InternalKey uk seq t) = Some (Inr (uk, seq, t))"
proof -
  let ?p = "push_bit 8 seq OR (ucast t :: u64)"
  have high: "\<not> bit seq n" if "56 \<le> n" for n
  proof
    assume b: "bit seq n"
    have "seq = take_bit 56 seq" using seq by (simp add: word_unat_eq_iff unsigned_take_bit_eq take_bit_nat_eq_self word_less_nat_alt)
    then show False using b that by (metis bit_take_bit_iff not_le)
  qed
  then have low: "bit seq n \<Longrightarrow> n < 56" for n using not_le by blast
  have "(ucast ?p :: byte) = t" by (rule bit_word_eqI) (auto simp: bit_simps)
  moreover have "drop_bit 8 ?p = seq"
    by (rule bit_word_eqI) (use low in \<open>auto simp: bit_simps dest: bit_imp_le_length\<close>)
  moreover have "DecodeFixed64 (EncodeFixed64 v) = v" for v using DecodeFixed64_Encode [of v "[]"] by simp
  ultimately show ?thesis
    using t by (auto simp: ParseInternalKey_def InternalKey_def PutFixed64_def PackSequenceAndType_def IsExtendedValueType_def)
qed

definition index_fields :: "u64 \<Rightarrow> BlobHandle \<Rightarrow> blob_index_type" where
  "index_fields n h = \<lparr>it_file_no = n, it_off = bh_offset h, it_size = bh_size h, it_no = bh_index h\<rparr>"

lemma get_fields_put: "get_fields (EncodeVarint64 n @ BlobHandle_EncodeTo [] h @ rest) = Some (index_fields n h, rest)"
  by (simp add: get_fields_def BlobHandle_EncodeTo_def PutVarint64_def GetVarint64_Encode index_fields_def)

lemma get_index_value:
  "get_index (version_value (Put (Blob n h))) = Some (index_fields n h, [])"
  "m \<noteq> 0 \<Longrightarrow> get_index (version_value (WriteBack n h m g)) = Some (index_fields n h, EncodeVarint64 m @ BlobHandle_EncodeTo [] g)"
proof -
  have "version_value (Put (Blob n h)) = 1 # EncodeVarint64 n @ BlobHandle_EncodeTo [] h @ []"
    by (simp add: BlobIndex_EncodeTo_def BlobIndex_zero_def kBlobRecord_def BlobHandle_EncodeTo_append [of "_ # _"] PutVarint64_def)
  then show "get_index (version_value (Put (Blob n h))) = Some (index_fields n h, [])"
    by (simp only: get_index_def GetChar_def list.case option.case prod.case get_fields_put) simp
  assume "m \<noteq> 0"
  then have "version_value (WriteBack n h m g) =
      1 # EncodeVarint64 n @ BlobHandle_EncodeTo [] h @ EncodeVarint64 m @ BlobHandle_EncodeTo [] g"
    by (simp add: BlobIndex_EncodeTo_def kBlobRecord_def BlobHandle_EncodeTo_append [of "_ # _"] PutVarint64_def word_gt_0)
  then show "get_index (version_value (WriteBack n h m g)) = Some (index_fields n h, EncodeVarint64 m @ BlobHandle_EncodeTo [] g)"
    by (simp only: get_index_def GetChar_def list.case option.case prod.case get_fields_put) simp
qed

lemma put_index_value: "put_index (index_fields n h) = version_value (Put (Blob n h))"
  by (simp add: put_index_def index_fields_def BlobIndex_EncodeTo_def BlobIndex_zero_def kBlobRecord_def BlobHandle_EncodeTo_def PutVarint64_def)

text \<open>The place a version points to.\<close>

fun place :: "version \<Rightarrow> (u64 \<times> BlobHandle) option" where
  "place (Put (Inline v)) = None"
| "place (Put (Blob n h)) = Some (n, h)"
| "place (WriteBack n h m g) = Some (n, h)"

lemma get_index_place:
  assumes "place v = Some (a, b)" "version_fits v"
  shows "\<exists>rest. get_index (version_value v) = Some (index_fields a b, rest)"
proof (cases v)
  case (Put e)
  then show ?thesis using assms get_index_value(1) by (cases e) auto
next
  case (WriteBack n h m g)
  then show ?thesis using assms get_index_value(2) [of m n h g] by auto
qed

lemma CheckBlobIndex_plain: "CheckBlobIndex (version_value (Put (Blob n h))) cur = Some None"
  unfolding CheckBlobIndex_def get_index_value(1) by simp

lemma CheckBlobIndex_write_back:
  assumes "m \<noteq> 0" "place v = Some (a, b)" "version_fits v"
  shows "CheckBlobIndex (version_value (WriteBack n h m g)) (version_value v) =
    Some (Some (version_value (Put (if m = a \<and> bh_offset g = bh_offset b then Blob n h else Blob a b))))"
proof -
  obtain rest where r: "get_index (version_value v) = Some (index_fields a b, rest)" using get_index_place [OF assms(2,3)] by blast
  have f: "get_fields (EncodeVarint64 m @ BlobHandle_EncodeTo [] g) = Some (index_fields m g, [])" using get_fields_put [of m g "[]"] by simp
  have e: "EncodeVarint64 m @ BlobHandle_EncodeTo [] g \<noteq> []" using varint64.put_nonempty [of m] by simp
  have c: "it_file_no (index_fields m g) = it_file_no (index_fields a b) \<and> it_off (index_fields m g) = it_off (index_fields a b) \<longleftrightarrow>
      m = a \<and> bh_offset g = bh_offset b" by (simp add: index_fields_def)
  show ?thesis
    unfolding CheckBlobIndex_def get_index_value(2) [OF assms(1)] option.case prod.case if_not_P [OF e] f r c
    by (simp add: put_index_value del: version_value.simps)
qed

section \<open>Resolving the versions of a key\<close>

text \<open>The version that stays of a newer and an older one.\<close>

fun absorb :: "u64 \<times> version \<Rightarrow> u64 \<times> version \<Rightarrow> u64 \<times> version" where
  "absorb (s, Put (Inline x)) c = (s, Put (Inline x))"
| "absorb (s, v) (s', Put (Inline y)) = (s', Put (Inline y))"
| "absorb (s, Put (Blob n h)) c = (s, Put (Blob n h))"
| "absorb (s, WriteBack n h m g) (s', c) =
     (case place c of None \<Rightarrow> (s, WriteBack n h m g)
      | Some (a, b) \<Rightarrow> (s, Put (if m = a \<and> bh_offset g = bh_offset b then Blob n h else Blob a b)))"

definition kv_of :: "bytes \<Rightarrow> u64 \<times> version \<Rightarrow> kv_type" where
  "kv_of uk x = \<lparr>kv_key = fst (version_kv uk x), kv_value = snd (version_kv uk x), kv_user_key = uk\<rparr>"

abbreviation stored :: "u64 \<times> version \<Rightarrow> bool" where
  "stored x \<equiv> version_fits (snd x) \<and> fst x < 2 ^ 56"

lemma version_type_cases: "version_type v = kTypeValue \<or> version_type v = kTypeBlobIndex"
  by (cases v rule: version_type.cases) simp_all

lemma version_parse: "stored x \<Longrightarrow> ParseInternalKey (InternalKey uk (fst x) (version_type (snd x))) = Some (Inr (uk, fst x, version_type (snd x)))"
  using ParseInternalKey_Internal version_type_cases by blast

lemma Preprocess_first:
  assumes "stored x" "q = [] \<or> \<not> user_eq lt uk (kv_user_key (last q))"
  shows "Preprocess_kv lt (version_kv uk x) q = Some (q @ [kv_of uk x])"
  using assms version_type_cases [of "snd x"] version_parse [OF assms(1), of uk]
  by (auto simp: Preprocess_kv_def version_kv_def kv_of_def Let_def)

lemma Preprocess_same:
  assumes x: "stored x" and c: "stored c" and irr: "\<not> lt uk uk"
  shows "Preprocess_kv lt (version_kv uk c) (q @ [kv_of uk x]) = Some (q @ [kv_of uk (absorb x c)])"
proof -
  note px = version_parse [OF x, of uk] and pc = version_parse [OF c, of uk]
  have eq: "user_eq lt uk uk" using irr by (simp add: user_eq_def)
  have step: "Preprocess_kv lt (version_kv uk c) (q @ [kv_of uk x]) =
     (if version_type (snd x) = kTypeValue then Some (q @ [kv_of uk x])
      else if version_type (snd c) = kTypeValue then Some (q @ [kv_of uk c])
      else
        (case CheckBlobIndex (version_value (snd x)) (version_value (snd c)) of
           None \<Rightarrow> None
         | Some None \<Rightarrow> Some (q @ [kv_of uk x])
         | Some (Some res) \<Rightarrow> Some (q @ [(kv_of uk x)\<lparr>kv_value := res\<rparr>])))"
    using version_type_cases [of "snd x"] version_type_cases [of "snd c"] px pc eq
    by (auto simp: Preprocess_kv_def version_kv_def kv_of_def Let_def split: option.splits)
  obtain s v s' v' where xc: "x = (s, v)" "c = (s', v')" by (cases x; cases c)
  show ?thesis
  proof (cases "version_type v = kTypeValue \<or> version_type v' = kTypeValue")
    case True
    then show ?thesis using step unfolding xc by (cases v rule: version_type.cases; cases v' rule: version_type.cases) auto
  next
    case False
    then obtain a b where pl: "place v' = Some (a, b)" by (cases v' rule: version_type.cases) auto
    show ?thesis
    proof (cases v)
      case (Put e)
      then obtain n h where v: "v = Put (Blob n h)" using False by (cases e) auto
      have "absorb (s, v) (s', v') = (s, v)" using pl v by (cases v' rule: version_type.cases) auto
      then show ?thesis using step False v unfolding xc by (simp add: CheckBlobIndex_plain del: version_value.simps)
    next
      case (WriteBack n h m g)
      then have m: "m \<noteq> 0" and f: "version_fits v'" using x c xc by auto
      let ?e = "if m = a \<and> bh_offset g = bh_offset b then Blob n h else Blob a b"
      have "absorb (s, v) (s', v') = (s, Put ?e)" using pl WriteBack by (cases v' rule: version_type.cases) auto
      moreover have "(kv_of uk (s, v))\<lparr>kv_value := version_value (Put ?e)\<rparr> = kv_of uk (s, Put ?e)"
        by (simp add: kv_of_def version_kv_def WriteBack)
      moreover have "CheckBlobIndex (version_value v) (version_value v') = Some (Some (version_value (Put ?e)))"
        unfolding WriteBack by (rule CheckBlobIndex_write_back [OF m pl f])
      ultimately show ?thesis using step False unfolding xc by simp
    qed
  qed
qed

lemma absorb_stored: "stored x \<Longrightarrow> stored c \<Longrightarrow> stored (absorb x c) \<and> fst (absorb x c) \<in> {fst x, fst c}"
  by (cases "(x, c)" rule: absorb.cases) (auto split: option.splits)

lemma Preprocess_group:
  assumes "\<not> lt uk uk" "list_all stored xs" "stored x"
  shows "opt_fold (Preprocess_kv lt) (map (version_kv uk) xs) (q @ [kv_of uk x]) = Some (q @ [kv_of uk (foldl absorb x xs)]) \<and>
    fst (foldl absorb x xs) \<in> fst ` set (x # xs)"
  using assms(2,3)
proof (induction xs arbitrary: x)
  case (Cons c xs)
  then have s: "stored (absorb x c)" "fst (absorb x c) \<in> {fst x, fst c}" using absorb_stored [of x c] by auto
  have "list_all stored xs" using Cons.prems(1) by simp
  note ih = Cons.IH [OF this s(1)]
  have "Preprocess_kv lt (version_kv uk c) (q @ [kv_of uk x]) = Some (q @ [kv_of uk (absorb x c)])"
    using Preprocess_same [of x c lt uk q] Cons.prems assms(1) by simp
  moreover have "fst ` set (absorb x c # xs) \<subseteq> fst ` set (x # c # xs)" using s(2) by auto
  then have "fst (foldl absorb (absorb x c) xs) \<in> fst ` set (x # c # xs)" using ih by blast
  ultimately show ?case using ih by simp
qed simp

lemma absorb_inline: "foldl absorb (s, Put (Inline x)) xs = (s, Put (Inline x))"
  by (induction xs) auto

lemma absorb_blob: "no_inline (map snd xs) \<Longrightarrow> foldl absorb (s, Put (Blob n h)) xs = (s, Put (Blob n h))"
proof (induction xs)
  case (Cons c xs)
  obtain s' v where c: "c = (s', v)" by (cases c)
  have "absorb (s, Put (Blob n h)) c = (s, Put (Blob n h))"
    using Cons.prems by (cases v rule: version_type.cases) (auto simp: c no_inline_def)
  then show ?case using Cons by (simp add: no_inline_def)
qed simp

lemma replay_versions_append: "replay_versions c (xs @ ys) = replay_versions (replay_versions c xs) ys"
  by (simp add: replay_versions_def)

lemma absorb_replay:
  assumes "resolvable (map snd (x # xs))"
  shows "replay_versions c [snd (foldl absorb x xs)] = replay_versions c (rev (map snd (x # xs)))"
proof -
  obtain s v where x: "x = (s, v)" by (cases x)
  show ?thesis
  proof (cases v)
    case (Put e)
    then show ?thesis using assms absorb_inline absorb_blob by (cases e) (auto simp: x replay_versions_append replay_versions_def)
  next
    case wb: (WriteBack n h m g)
    show ?thesis
    proof (cases xs)
      case (Cons y ys)
      obtain s' v' where y: "y = (s', v')" by (cases y)
      obtain e where v': "v' = Put e" using assms by (cases v') (auto simp: x wb Cons y)
      then show ?thesis
        using assms absorb_inline absorb_blob
        by (cases e) (auto simp: x wb Cons y replay_versions_append replay_versions_def no_inline_def)
    qed (simp add: x replay_versions_def)
  qed
qed

section \<open>Properties\<close>

abbreviation group_kvs :: "bytes \<times> (u64 \<times> version) list \<Rightarrow> (bytes \<times> bytes) list" where
  "group_kvs g \<equiv> map (version_kv (fst g)) (snd g)"

definition resolved :: "bytes \<times> (u64 \<times> version) list \<Rightarrow> kv_type \<Rightarrow> bool" where
  "resolved g kv \<longleftrightarrow> (\<exists>s v. s \<in> fst ` set (snd g) \<and> kv = kv_of (fst g) (s, v) \<and>
     (\<forall>c. replay_versions c [v] = replay_versions c (rev (map snd (snd g)))))"

definition group_ok :: "(bytes \<Rightarrow> bytes \<Rightarrow> bool) \<Rightarrow> bytes \<times> (u64 \<times> version) list \<Rightarrow> bool" where
  "group_ok lt g \<longleftrightarrow> resolvable (map snd (snd g)) \<and> list_all stored (snd g) \<and> \<not> lt (fst g) (fst g)"

fun keys_apart :: "(bytes \<Rightarrow> bytes \<Rightarrow> bool) \<Rightarrow> (bytes \<times> (u64 \<times> version) list) list \<Rightarrow> bool" where
  "keys_apart lt (g # h # gs) = (\<not> user_eq lt (fst h) (fst g) \<and> keys_apart lt (h # gs))"
| "keys_apart lt gs = True"

lemma resolved_key: "resolved g kv \<Longrightarrow> kv_user_key kv = fst g"
  by (auto simp: resolved_def kv_of_def)

lemma opt_fold_append: "opt_fold f (xs @ ys) s = (case opt_fold f xs s of None \<Rightarrow> None | Some s \<Rightarrow> opt_fold f ys s)"
  by (induction xs arbitrary: s) (auto split: option.splits)

lemma Preprocess_one_group:
  assumes "group_ok lt g" "q = [] \<or> \<not> user_eq lt (fst g) (kv_user_key (last q))"
  shows "\<exists>kv. opt_fold (Preprocess_kv lt) (group_kvs g) q = Some (q @ [kv]) \<and> resolved g kv"
proof -
  obtain uk vs where g: "g = (uk, vs)" by (cases g)
  obtain x xs where vs: "vs = x # xs" using assms(1) by (cases vs) (auto simp: group_ok_def g)
  have ok: "stored x" "list_all stored xs" "\<not> lt uk uk" "resolvable (map snd (x # xs))" using assms(1) by (auto simp: group_ok_def g vs)
  have f: "Preprocess_kv lt (version_kv uk x) q = Some (q @ [kv_of uk x])" using Preprocess_first [OF ok(1)] assms(2) g by simp
  let ?y = "foldl absorb x xs"
  have gr: "opt_fold (Preprocess_kv lt) (map (version_kv uk) xs) (q @ [kv_of uk x]) = Some (q @ [kv_of uk ?y])" "fst ?y \<in> fst ` set (x # xs)"
    using Preprocess_group [of lt uk xs x q] ok by auto
  have "resolved g (kv_of uk ?y)"
    unfolding resolved_def using gr absorb_replay [OF ok(4)] by (intro exI [of _ "fst ?y"] exI [of _ "snd ?y"]) (simp add: g vs)
  then show ?thesis using f gr by (simp add: g vs)
qed

lemma Preprocess_groups:
  "list_all (group_ok lt) gs \<Longrightarrow> keys_apart lt gs \<Longrightarrow>
   (gs \<noteq> [] \<Longrightarrow> q = [] \<or> \<not> user_eq lt (fst (hd gs)) (kv_user_key (last q))) \<Longrightarrow>
   \<exists>q'. opt_fold (Preprocess_kv lt) (concat (map group_kvs gs)) q = Some (q @ q') \<and> list_all2 resolved gs q'"
proof (induction gs arbitrary: q)
  case (Cons g gs)
  obtain kv where kv: "opt_fold (Preprocess_kv lt) (group_kvs g) q = Some (q @ [kv])" "resolved g kv"
    using Preprocess_one_group [of lt g q] Cons.prems by auto
  have "list_all (group_ok lt) gs" "keys_apart lt gs" "gs \<noteq> [] \<Longrightarrow> \<not> user_eq lt (fst (hd gs)) (kv_user_key (last (q @ [kv])))"
    using Cons.prems(1,2) resolved_key [OF kv(2)] by (cases gs; auto)+
  then obtain q' where "opt_fold (Preprocess_kv lt) (concat (map group_kvs gs)) (q @ [kv]) = Some ((q @ [kv]) @ q')" "list_all2 resolved gs q'"
    using Cons.IH [of "q @ [kv]"] by blast
  then show ?case using kv by (intro exI [of _ "kv # q'"]) (simp add: opt_fold_append)
qed simp


abbreviation demo_handle :: "u64 \<Rightarrow> BlobHandle" where
  "demo_handle off \<equiv> \<lparr>bh_offset = off, bh_size = 20, bh_index = 0\<rparr>"

definition demo_group1 :: "bytes \<times> (u64 \<times> version) list" where
  "demo_group1 = ([1], [(9, WriteBack 5 (demo_handle 12) 2 (demo_handle 40)), (7, Put (Blob 2 (demo_handle 40))), (3, Put (Blob 1 (demo_handle 12)))])"

definition demo_group2 :: "bytes \<times> (u64 \<times> version) list" where
  "demo_group2 = ([2], [(8, WriteBack 5 (demo_handle 32) 2 (demo_handle 60)), (6, Put (Inline [7]))])"


text \<open>C37: Compaction loses writes outside of that.  An index that a user has written gives way to an older inline
  value, and of two stacked write-backs the lower one is not checked, so that a write of a user below them is lost.\<close>

theorem preprocess_loses_writes:
  assumes "s1 < 2 ^ 56" "s2 < 2 ^ 56" "s3 < 2 ^ 56" "\<not> lt uk uk" "a \<noteq> 0" "b \<noteq> 0" "m \<noteq> a"
  shows "Preprocess lt [version_kv uk (s1, Put (Blob n h)), version_kv uk (s2, Put (Inline x))] = Some [kv_of uk (s2, Put (Inline x))] \<and>
    replay_versions c [Put (Inline x), Put (Blob n h)] = Some (Blob n h) \<and>
    Preprocess lt [version_kv uk (s1, WriteBack d h b g), version_kv uk (s2, WriteBack b g a f), version_kv uk (s3, Put (Blob m e))] =
      Some [kv_of uk (s1, Put (Blob d h))] \<and>
    (m \<noteq> b \<longrightarrow> replay_versions c [Put (Blob m e), WriteBack b g a f, WriteBack d h b g] = Some (Blob m e))"
proof -
  let ?q = "\<lambda>x xs. opt_fold (Preprocess_kv lt) (map (version_kv uk) xs) [kv_of uk x]"
  have one: "Preprocess lt (version_kv uk x # map (version_kv uk) xs) = Some [kv_of uk (foldl absorb x xs)]"
    if "stored x" "list_all stored xs" for x xs
    using Preprocess_first [of x "[]" lt uk] Preprocess_group [of lt uk xs x "[]"] that assms(4) by (simp add: Preprocess_def)
  show ?thesis
    using one [of "(s1, Put (Blob n h))" "[(s2, Put (Inline x))]"]
      one [of "(s1, WriteBack d h b g)" "[(s2, WriteBack b g a f), (s3, Put (Blob m e))]"] assms
    by (simp add: replay_versions_def)
qed

theorem preprocess_loses_writes_witness:
  "Preprocess bytes_less [version_kv [1] (9, Put (Blob 3 (demo_handle 12))), version_kv [1] (4, Put (Inline [7]))] =
     Some [kv_of [1] (4, Put (Inline [7]))]"
  using preprocess_loses_writes [of 9 4 1 bytes_less "[1]" 1 2 5 3 "demo_handle 12" "[7]"] by simp



end
