(* ===== verification/Titan_Kernel.thy ===== *)
theory Titan_Kernel
  imports Titan_BlobFile
begin

text \<open>
  The collection kernel of the accelerator (\<open>hardware/kernel/src\<close>) and the driver's view of its
  results (\<open>hadware_gc_driver.cc\<close>).  A pointer into a buffer is the rest of the buffer; reading past the end of a
  buffer and writing past a local array have the value \<open>None\<close>.  The device memory for the output is
  not cleared, \<open>old\<close> is what it held before.
\<close>

unbundle bit_operations_syntax

section \<open>Coding\<close>

definition k_EncodeFixed32 :: "u32 \<Rightarrow> bytes" where
  "k_EncodeFixed32 v = map (\<lambda>i. ucast ((drop_bit (8 * i) v AND (256 - 1)) OR 256)) [0..<4]"

definition k_EncodeFixed64 :: "u64 \<Rightarrow> bytes" where
  "k_EncodeFixed64 v = map (\<lambda>i. ucast ((drop_bit (8 * i) v AND (256 - 1)) OR 256)) [0..<8]"

definition k_DecodeFixed32 :: "bytes \<Rightarrow> u32" where
  "k_DecodeFixed32 input = fold (\<lambda>i result. result OR push_bit (8 * i) (ucast (byte_at input i))) [0..<4] 0"

definition k_EncodeVarint32 :: "u32 \<Rightarrow> bytes" where
  "k_EncodeVarint32 v =
     (if v < 2 ^ 7 then [ucast v]
      else if v < 2 ^ 14 then [ucast (v OR 128), ucast (drop_bit 7 v)]
      else if v < 2 ^ 21 then [ucast (v OR 128), ucast (drop_bit 7 v OR 128), ucast (drop_bit 14 v)]
      else if v < 2 ^ 28 then
        [ucast (v OR 128), ucast (drop_bit 7 v OR 128), ucast (drop_bit 14 v OR 128), ucast (drop_bit 21 v)]
      else
        [ucast (v OR 128), ucast (drop_bit 7 v OR 128), ucast (drop_bit 14 v OR 128), ucast (drop_bit 21 v OR 128),
         ucast (drop_bit 28 v)])"

function k_EncodeVarint64 :: "u64 \<Rightarrow> bytes" where
  "k_EncodeVarint64 v = (if v \<ge> 128 then ucast (v AND (128 - 1) OR 128) # k_EncodeVarint64 (drop_bit 7 v) else [ucast v])"
  by pat_completeness auto
termination
proof (relation "measure unat")
  fix v :: u64 assume "v \<ge> 128"
  then have "unat v > 0" by (auto simp: word_le_nat_alt)
  then show "(drop_bit 7 v, v) \<in> measure unat" by (simp add: unat_drop_bit_div)
qed simp

declare k_EncodeVarint64.simps [simp del]

text \<open>
  \<open>DecodeVarint32\<close> with the limit five bytes ahead: \<open>value\<close> keeps what it had when the fifth byte
  is not the last one.
\<close>

function k_varint32_loop :: "nat \<Rightarrow> u32 \<Rightarrow> bytes \<Rightarrow> u32 \<Rightarrow> nat \<Rightarrow> (u32 \<times> nat) option" where
  "k_varint32_loop shift result p v offset =
     (if shift > 28 then Some (v, offset)
      else
        (case p of
           [] \<Rightarrow> None
         | b # p \<Rightarrow>
             (let byt = (ucast b :: u32) in
              if byt AND 128 \<noteq> 0
              then k_varint32_loop (shift + 7) (result OR push_bit shift (byt AND 127)) p v (offset + 1)
              else Some (result OR push_bit shift byt, offset + 1))))"
  by pat_completeness auto
termination by (relation "measure (\<lambda>(shift, _). 35 - shift)") auto

definition k_DecodeVarint32 :: "bytes \<Rightarrow> u32 \<Rightarrow> nat \<Rightarrow> (u32 \<times> nat) option" where
  "k_DecodeVarint32 p v offset = k_varint32_loop 0 0 p v offset"

text \<open>\<open>cap\<close> is the size of the array the value goes to.\<close>

definition k_DecodeVarint32AndValue :: "nat \<Rightarrow> bytes \<Rightarrow> (bytes \<times> u32 \<times> nat) option" where
  "k_DecodeVarint32AndValue cap data =
     (case k_DecodeVarint32 data 0 0 of
        None \<Rightarrow> None
      | Some (len, offset) \<Rightarrow>
          (let data = drop offset data in
           if unat len > cap \<or> unat len > length data then None
           else Some (take (unat len) data, len, offset + unat len)))"

definition k_EncodeVarint32AndValue :: "bytes \<Rightarrow> u32 \<Rightarrow> bytes" where
  "k_EncodeVarint32AndValue key key_size = k_EncodeVarint32 key_size @ take (unat key_size) key"

section \<open>File format\<close>

abbreviation MAX_KEY_LENGTH :: nat where "MAX_KEY_LENGTH \<equiv> 64"

abbreviation MAX_VALUE_LENGTH :: nat where "MAX_VALUE_LENGTH \<equiv> 8192"

definition k_DecodeHeader :: "bytes \<Rightarrow> nat \<Rightarrow> (bool \<times> nat) option" where
  "k_DecodeHeader data cur_offset =
     (let data = drop cur_offset data in
      if length data < 12 then None
      else
        (let head_buf = take 12 data; version = k_DecodeFixed32 (drop 4 head_buf) in
         Some (if k_DecodeFixed32 head_buf \<noteq> kHeaderMagicNumber then (False, cur_offset)
               else if version \<noteq> kVersion1 \<and> version \<noteq> kVersion2 then (False, cur_offset)
               else if version = kVersion2 then
                 (if k_DecodeFixed32 (drop 8 head_buf) AND NOT kHasUncompressionDictionary \<noteq> 0 then (False, cur_offset)
                  else (True, cur_offset + 12))
               else (True, cur_offset + 8))))"

definition k_EncodeHeader :: bytes where
  "k_EncodeHeader = k_EncodeFixed32 kHeaderMagicNumber @ k_EncodeFixed32 kVersion2 @ k_EncodeFixed32 0"

text \<open>The footer after the padding to a multiple of 4096 bytes, with what the memory holds behind the two varints.\<close>

definition k_EncodeFooter :: "(nat \<Rightarrow> byte) \<Rightarrow> bytes \<Rightarrow> bytes" where
  "k_EncodeFooter old data =
     (let align_padding = (length data + 32) mod 4096;
          align_padding = (if align_padding > 0 then 4096 - align_padding else 0);
          data = data @ map old [length data..<length data + align_padding];
          var = k_EncodeVarint64 0 @ k_EncodeVarint64 0;
          footer = var @ map old [length data + length var..<length data + 20] @ k_EncodeFixed64 kFooterMagicNumber
      in data @ footer @ k_EncodeFixed32 (Crc32c 0 footer))"

definition CheckValid :: "u64 \<Rightarrow> bytes \<Rightarrow> bool option" where
  "CheckValid offset bitmap =
     (let byt = unat (drop_bit 3 offset); bt = 7 - unat (offset AND 7) in
      if byt < length bitmap then Some ((ucast (bitmap ! byt) :: u64) AND push_bit bt 1 = 0) else None)"

text \<open>\<open>GetKV\<close>: the key and the value with their sizes, and the new offset.\<close>

definition GetKV :: "bytes \<Rightarrow> nat \<Rightarrow> bool \<Rightarrow> u32 \<Rightarrow> u32 \<Rightarrow> ((bytes \<times> u32 \<times> bytes \<times> u32) \<times> nat) option" where
  "GetKV data cur_offset valid key_size value_size =
     (let data = drop (cur_offset + 9) data; cur_offset = cur_offset + 9 in
      if valid then
        (case k_DecodeVarint32AndValue MAX_KEY_LENGTH data of
           None \<Rightarrow> None
         | Some (key, key_size, key_offset) \<Rightarrow>
             (case k_DecodeVarint32AndValue MAX_VALUE_LENGTH (drop key_offset data) of
                None \<Rightarrow> None
              | Some (v, value_size, value_offset) \<Rightarrow>
                  Some ((key, key_size, v, value_size), cur_offset + key_offset + value_offset)))
      else
        (case k_DecodeVarint32 data key_size 0 of
           None \<Rightarrow> None
         | Some (key_size, key_offset) \<Rightarrow>
             (let key_offset = key_offset + unat key_size in
              case k_DecodeVarint32 (drop key_offset data) value_size 0 of
                None \<Rightarrow> None
              | Some (value_size, value_offset) \<Rightarrow>
                  (let value_offset = value_offset + unat value_size
                   in Some (([], key_size, [], value_size), cur_offset + key_offset + value_offset)))))"

definition PutOutputData :: "bytes \<Rightarrow> u32 \<Rightarrow> bytes \<Rightarrow> u32 \<Rightarrow> bytes \<Rightarrow> bytes" where
  "PutOutputData key key_size v value_size data =
     (let body = k_EncodeVarint32AndValue key key_size @ k_EncodeVarint32AndValue v value_size;
          tail = k_EncodeFixed32 (of_nat (length body)) @ [0]
      in data @ k_EncodeFixed32 (Crc32c 0 (tail @ body)) @ tail @ body)"

definition PutOutputKey :: "bytes \<Rightarrow> u32 \<Rightarrow> nat \<Rightarrow> nat \<Rightarrow> nat \<Rightarrow> nat \<Rightarrow> bytes \<Rightarrow> bytes" where
  "PutOutputKey key key_size new_data_offset original_file original_data_offset entry_size data =
     data @ k_EncodeVarint32 key_size @ take (unat key_size) key @ k_EncodeFixed32 (of_nat new_data_offset) @
       k_EncodeFixed32 (of_nat original_file) @ k_EncodeFixed32 (of_nat original_data_offset) @ k_EncodeFixed32 (of_nat entry_size)"

section \<open>Kernel\<close>

record KernelOut =
  ko_data :: bytes
  ko_keys :: bytes
  ko_num :: nat

text \<open>The loop over the entries of input \<open>i\<close>, \<open>n\<close> of them from the \<open>j\<close>-th on.\<close>

fun kernel_entries :: "nat \<Rightarrow> nat \<Rightarrow> bytes \<Rightarrow> bytes \<Rightarrow> nat \<Rightarrow> nat \<Rightarrow> u32 \<Rightarrow> u32 \<Rightarrow> KernelOut \<Rightarrow> KernelOut option" where
  "kernel_entries 0 i input bitmap j cur kl vl ko = Some ko"
| "kernel_entries (Suc n) i input bitmap j cur kl vl ko =
     (case CheckValid (of_nat j) bitmap of
        None \<Rightarrow> None
      | Some valid \<Rightarrow>
          (case GetKV input cur valid kl vl of
             None \<Rightarrow> None
           | Some ((key, kl, v, vl), cur') \<Rightarrow>
               kernel_entries n i input bitmap (j + 1) cur' kl vl
                 (if valid
                  then ko\<lparr>ko_keys := PutOutputKey key kl (length (ko_data ko)) i cur (cur' - cur) (ko_keys ko),
                          ko_data := PutOutputData key kl v vl (ko_data ko), ko_num := ko_num ko + 1\<rparr>
                  else ko)))"

text \<open>The loop over the inputs: their lengths, the lengths of the bitmaps and the numbers of entries.\<close>

fun kernel_files :: "(nat \<times> nat \<times> nat) list \<Rightarrow> nat \<Rightarrow> bytes \<Rightarrow> bytes \<Rightarrow> KernelOut \<Rightarrow> KernelOut option" where
  "kernel_files [] i input bitmap ko = Some ko"
| "kernel_files ((data_length, bitmap_length, entry_num) # fs) i input bitmap ko =
     (case k_DecodeHeader input 0 of
        None \<Rightarrow> None
      | Some (_, cur) \<Rightarrow>
          (case kernel_entries entry_num i input bitmap 0 cur 0 0 ko of
             None \<Rightarrow> None
           | Some ko \<Rightarrow> kernel_files fs (i + 1) (drop data_length input) (drop bitmap_length bitmap) ko))"

text \<open>The output file, the keys and (entries, size of the data, size of the keys).\<close>

definition gcKernel :: "(nat \<Rightarrow> byte) \<Rightarrow> bytes \<Rightarrow> bytes \<Rightarrow> (nat \<times> nat \<times> nat) list \<Rightarrow> (bytes \<times> bytes \<times> nat \<times> nat \<times> nat) option" where
  "gcKernel old input_datas input_bitmaps fs =
     map_option (\<lambda>ko. let data = k_EncodeFooter old (ko_data ko) in (data, ko_keys ko, ko_num ko, length data, length (ko_keys ko)))
       (kernel_files fs 0 input_datas input_bitmaps \<lparr>ko_data = k_EncodeHeader, ko_keys = [], ko_num = 0\<rparr>)"

section \<open>Driver\<close>

definition GetOutputKey :: "bytes \<Rightarrow> ((bytes \<times> u32 list) \<times> bytes) option" where
  "GetOutputKey data =
     (case GetVarint32Ptr data of
        None \<Rightarrow> None
      | Some (key_size, data) \<Rightarrow>
          if length data < unat key_size + 16 then None
          else
            (let d = drop (unat key_size) data in
             Some ((take (unat key_size) data,
                    [DecodeFixed32 d, DecodeFixed32 (drop 4 d), DecodeFixed32 (drop 8 d), DecodeFixed32 (drop 12 d)]),
                   drop 16 d)))"

fun rewrite_keys :: "nat \<Rightarrow> bytes \<Rightarrow> (bytes \<times> u32 list) list option" where
  "rewrite_keys 0 data = Some []"
| "rewrite_keys (Suc n) data =
     (case GetOutputKey data of
        None \<Rightarrow> None
      | Some (k, data) \<Rightarrow> map_option ((#) k) (rewrite_keys n data))"

text \<open>The size of the buffer of an input: whole mebibytes and more than the file.\<close>

definition input_buffer_size :: "nat \<Rightarrow> nat" where
  "input_buffer_size file_size = (file_size div 2 ^ 20 + 1) * 2 ^ 20"

text \<open>
  The reads of an input, 128 MiB each and one more than the buffer has full parts: the last of them
  must not be empty, or the process exits.
\<close>

definition read_whole :: "bytes \<Rightarrow> bool" where
  "read_whole f \<longleftrightarrow> length f > input_buffer_size (length f) div 2 ^ 27 * 2 ^ 27"

text \<open>What the driver copies of a bitmap.\<close>

definition bitmap_bytes :: "BitMap \<Rightarrow> bytes option" where
  "bitmap_bytes bm =
     (case bits bm of
        None \<Rightarrow> if byte_size bm = 0 then Some [] else None
      | Some bs \<Rightarrow> if unat (byte_size bm) \<le> length bs then Some (take (unat (byte_size bm)) bs) else None)"

text \<open>
  \<open>run_gc_kernel\<close>: the files with what the buffers hold behind them, the bitmaps in a cleared
  buffer, and the keys the driver reads back.  The buffer of the output is as large as that of the
  inputs, the one of the keys has \<open>OUTPUT_KEY_SIZE\<close> bytes for every entry.
\<close>

abbreviation OUTPUT_KEY_SIZE :: nat where "OUTPUT_KEY_SIZE \<equiv> 44"

definition run_gc_kernel :: "(nat \<Rightarrow> byte) \<Rightarrow> (nat \<Rightarrow> byte) \<Rightarrow> bytes list \<Rightarrow> BitMap list \<Rightarrow> nat list \<Rightarrow>
    ((bytes \<times> u32 list) list \<times> nat list \<times> bytes) option" where
  "run_gc_kernel junk old inputs bitmaps entries =
     (let buffers = map (\<lambda>f. f @ map junk [length f..<input_buffer_size (length f)]) inputs in
      if \<not> list_all read_whole inputs then None
      else case those (map bitmap_bytes bitmaps) of
        None \<Rightarrow> None
      | Some bms \<Rightarrow>
          (let size = length (concat bms) in
           case gcKernel old (concat buffers) (concat bms @ replicate (input_buffer_size size - size) 0)
                  (zip (map length buffers) (zip (map length bms) entries)) of
             None \<Rightarrow> None
           | Some (data, keys, num, dlen, klen) \<Rightarrow>
               if length data > sum_list (map length buffers) \<or> length keys > input_buffer_size (sum_list entries * OUTPUT_KEY_SIZE)
               then None
               else map_option (\<lambda>ks. (ks, [num, dlen, klen], data)) (rewrite_keys num keys)))"

record DriverCUs =
  cu_queue :: "byte list"

definition get_free_cu_index :: "DriverCUs \<Rightarrow> (status \<times> byte option) \<times> DriverCUs" where
  "get_free_cu_index d =
     (case cu_queue d of
        [] \<Rightarrow> ((Busy [], None), d)
      | i # is \<Rightarrow> ((OK, Some i), d\<lparr>cu_queue := is\<rparr>))"

definition set_free_cu_index :: "byte \<Rightarrow> DriverCUs \<Rightarrow> DriverCUs" where
  "set_free_cu_index i d = d\<lparr>cu_queue := cu_queue d @ [i]\<rparr>"

section \<open>The kernel's coding agrees with the host's\<close>

lemma low_byte: "(ucast (((x :: 'a :: len word) AND 255) OR 256) :: byte) = ucast (x AND 255)"
proof (rule bit_word_eqI)
  fix n assume "n < LENGTH(8)"
  then have "n < 8" by simp
  then have "\<not> bit (push_bit 8 1 :: 'a word) n" unfolding bit_push_bit_iff by linarith
  moreover have "(push_bit 8 1 :: 'a word) = 256" by (simp add: push_bit_eq_mult)
  ultimately have "\<not> bit (256 :: 'a word) n" by simp
  then show "bit (ucast ((x AND 255) OR 256) :: byte) n = bit (ucast (x AND 255) :: byte) n"
    unfolding bit_ucast_iff bit_or_iff by auto
qed

lemma k_EncodeFixed: "k_EncodeFixed32 v = EncodeFixed32 v" "k_EncodeFixed64 w = EncodeFixed64 w"
  by (simp_all add: k_EncodeFixed32_def k_EncodeFixed64_def EncodeFixed32_def EncodeFixed64_def low_byte upt_rec numeral_eq_Suc del: upt_Suc)

lemma k_DecodeFixed: "k_DecodeFixed32 input = DecodeFixed32 input"
  by (simp add: k_DecodeFixed32_def DecodeFixed32_def upt_rec numeral_eq_Suc or.assoc del: upt_Suc)

lemma k_EncodeVarint: "k_EncodeVarint32 v = EncodeVarint32 v"
  unfolding k_EncodeVarint32_def EncodeVarint32_def ..

lemma k_varint32_loop_get:
  "GetVarint32PtrFallback_loop shift result p = Some (x, rest) \<Longrightarrow>
   k_varint32_loop shift result p v off = Some (x, off + (length p - length rest)) \<and> length rest < length p"
proof (induction shift result p arbitrary: off rule: GetVarint32PtrFallback_loop.induct)
  case (2 shift result b p)
  show ?case
  proof (cases "(ucast b :: u32) AND 128 \<noteq> 0")
    case True
    then have "GetVarint32PtrFallback_loop (shift + 7) (result OR push_bit shift (ucast b AND 127)) p = Some (x, rest)" "shift \<le> 28"
      using 2(2) by (auto simp: Let_def split: if_splits)
    then have ih: "k_varint32_loop (shift + 7) (result OR push_bit shift (ucast b AND 127)) p v (off + 1) = Some (x, off + 1 + (length p - length rest))"
      "length rest < length p" using 2(1) [of "ucast b" "off + 1"] True by auto
    then show ?thesis using True \<open>shift \<le> 28\<close> by (subst k_varint32_loop.simps) (simp add: Let_def del: k_varint32_loop.simps)
  next
    case False
    then show ?thesis using 2(2) by (subst k_varint32_loop.simps) (auto simp: Let_def simp del: k_varint32_loop.simps split: if_splits)
  qed
qed simp

lemma k_DecodeVarint32_Encode: "k_DecodeVarint32 (EncodeVarint32 x @ rest) v 0 = Some (x, length (EncodeVarint32 x))"
  using k_varint32_loop_get [OF GetVarint32PtrFallback_Encode, of x rest v 0] by (simp add: k_DecodeVarint32_def del: k_varint32_loop.simps)

declare k_varint32_loop.simps [simp del]

section \<open>Records\<close>

abbreviation plain_record :: "BlobLib \<Rightarrow> BlobRecord \<Rightarrow> BlobEncoder" where
  "plain_record lib r \<equiv> EncodeRecord (lib_compression lib []) kNoCompression r"

text \<open>A record that fits into the arrays of the kernel.\<close>

definition kernel_fits :: "BlobRecord \<Rightarrow> bool" where
  "kernel_fits r \<longleftrightarrow> length (rec_key r) \<le> MAX_KEY_LENGTH \<and> length (rec_value r) \<le> MAX_VALUE_LENGTH"

lemma kernel_fits_unat:
  assumes "kernel_fits r"
  shows "unat (of_nat (length (rec_key r)) :: u32) = length (rec_key r)" "unat (of_nat (length (rec_value r)) :: u32) = length (rec_value r)"
  using assms by (simp_all add: kernel_fits_def unsigned_of_nat take_bit_nat_eq_self)

lemma plain_record_bytes:
  "enc_record (plain_record lib r) = EncodeVarint32 (of_nat (length (rec_key r))) @ rec_key r @ EncodeVarint32 (of_nat (length (rec_value r))) @ rec_value r"
  "length (enc_header (plain_record lib r)) = 9"
  by (simp_all add: EncodeRecord_def EncodeSlice_def Compress_def Let_def BlobRecord_EncodeTo_def PutLengthPrefixedSlice_def PutVarint32_def
      length_enc_header kRecordHeaderSize_def)

lemma k_value:
  assumes "length x \<le> cap" "length x < 2 ^ 32"
  shows "k_DecodeVarint32AndValue cap (EncodeVarint32 (of_nat (length x)) @ x @ rest) =
    Some (x, of_nat (length x), length (EncodeVarint32 (of_nat (length x))) + length x)"
proof -
  have "unat (of_nat (length x) :: u32) = length x" using assms(2) by (simp add: unsigned_of_nat take_bit_nat_eq_self)
  then show ?thesis using assms(1) by (simp add: k_DecodeVarint32AndValue_def k_DecodeVarint32_Encode)
qed

lemma GetKV_record:
  assumes "kernel_fits r" "data = a @ enc_bytes (plain_record lib r) @ rest" "cur = length a"
  obtains key v where "GetKV data cur valid kl vl =
      Some ((key, of_nat (length (rec_key r)), v, of_nat (length (rec_value r))), cur + length (enc_bytes (plain_record lib r)))"
    "valid \<Longrightarrow> key = rec_key r \<and> v = rec_value r"
proof -
  let ?k = "EncodeVarint32 (of_nat (length (rec_key r)))" and ?v = "EncodeVarint32 (of_nat (length (rec_value r)))"
  have d: "drop (cur + 9) data = ?k @ rec_key r @ ?v @ rec_value r @ rest"
    using assms(2,3) plain_record_bytes [of lib r] by (simp add: enc_bytes_def)
  have l: "length (enc_bytes (plain_record lib r)) = 9 + (length ?k + length (rec_key r)) + (length ?v + length (rec_value r))"
    using plain_record_bytes [of lib r] by (simp add: enc_bytes_def)
  have dv: "drop (length ?k + length (rec_key r)) (?k @ rec_key r @ ?v @ rec_value r @ rest) = ?v @ rec_value r @ rest" by simp
  note u = kernel_fits_unat [OF assms(1)]
  show thesis
  proof (cases valid)
    case True
    have "GetKV data cur valid kl vl = Some ((rec_key r, of_nat (length (rec_key r)), rec_value r, of_nat (length (rec_value r))),
        cur + length (enc_bytes (plain_record lib r)))"
      using True k_value [of "rec_key r" MAX_KEY_LENGTH "?v @ rec_value r @ rest"] k_value [of "rec_value r" MAX_VALUE_LENGTH rest] assms(1)
      unfolding GetKV_def d Let_def l by (simp add: kernel_fits_def)
    then show thesis using that by blast
  next
    case False
    then have "GetKV data cur valid kl vl = Some (([], of_nat (length (rec_key r)), [], of_nat (length (rec_value r))),
        cur + length (enc_bytes (plain_record lib r)))"
      unfolding GetKV_def d Let_def l by (simp add: k_DecodeVarint32_Encode u)
    then show thesis using that False by blast
  qed
qed

lemma PutOutputData_record:
  assumes "kernel_fits r"
  shows "PutOutputData (rec_key r) (of_nat (length (rec_key r))) (rec_value r) (of_nat (length (rec_value r))) data =
    data @ enc_bytes (plain_record lib r)"
proof -
  note u = kernel_fits_unat [OF assms]
  let ?b = "EncodeVarint32 (of_nat (length (rec_key r))) @ rec_key r @ EncodeVarint32 (of_nat (length (rec_value r))) @ rec_value r"
  let ?t = "EncodeFixed32 (of_nat (length ?b)) @ [0]"
  have "enc_bytes (plain_record lib r) = EncodeFixed32 (Extend (Value ?t) ?b) @ ?t @ ?b"
    by (simp add: enc_bytes_def EncodeRecord_def EncodeSlice_def Compress_def Let_def BlobRecord_EncodeTo_def PutLengthPrefixedSlice_def PutVarint32_def)
  moreover have "Extend (Value ?t) ?b = Crc32c 0 (?t @ ?b)" unfolding Crc32c_kernel Value_def Extend_append ..
  ultimately show ?thesis
    unfolding PutOutputData_def k_EncodeVarint32AndValue_def k_EncodeVarint k_EncodeFixed Let_def u by simp
qed

section \<open>Inputs\<close>

text \<open>A blob file as the kernel gets it: header, records, the rest of the file, and the bitmap.\<close>

record KernelInput =
  ki_hdr :: BlobFileHeader
  ki_recs :: "BlobRecord list"
  ki_tail :: bytes
  ki_bitmap :: BitMap

abbreviation ki_encs :: "BlobLib \<Rightarrow> KernelInput \<Rightarrow> BlobEncoder list" where
  "ki_encs lib ki \<equiv> map (plain_record lib) (ki_recs ki)"

definition ki_file :: "BlobLib \<Rightarrow> KernelInput \<Rightarrow> bytes" where
  "ki_file lib ki = lay (ki_hdr ki) (ki_encs lib ki) @ ki_tail ki"

text \<open>At least four bytes follow the header, as in any file with a footer.\<close>

definition ki_ok :: "BlobLib \<Rightarrow> KernelInput \<Rightarrow> bool" where
  "ki_ok lib ki \<longleftrightarrow> BlobFileHeader_wf (ki_hdr ki) \<and> 4 \<le> length (ki_tail ki) \<and> list_all kernel_fits (ki_recs ki) \<and>
     BitMap_wf (ki_bitmap ki) \<and> length (ki_recs ki) \<le> unat (valid_bits (ki_bitmap ki)) \<and> length (ki_file lib ki) < 2 ^ 32 \<and> read_whole (ki_file lib ki)"

definition marked_live :: "BitMap \<Rightarrow> nat \<Rightarrow> bool" where
  "marked_live bm j \<longleftrightarrow> GetBit bm (of_nat j) = Some (OK, Some 0)"

text \<open>The live records of the \<open>i\<close>-th input with their old places.\<close>

definition live_items :: "BlobLib \<Rightarrow> nat \<times> KernelInput \<Rightarrow> (BlobRecord \<times> nat \<times> BlobHandle) list" where
  "live_items lib ik = (case ik of (i, ki) \<Rightarrow>
     map (\<lambda>j. (ki_recs ki ! j, i, nth_handle (ki_hdr ki) (ki_encs lib ki) j))
       (filter (marked_live (ki_bitmap ki)) [0..<length (ki_recs ki)]))"

lemma BitMap_wf_bytes:
  assumes "BitMap_wf bm"
  obtains bs where "bits bm = Some bs" "bitmap_bytes bm = Some bs" "length bs = Suc (unat (valid_bits bm) div 8)"
  using BitMap_wf_length [OF assms] assms that
  by (auto simp: bitmap_bytes_def BitMap_wf_def unat_byte_count)

lemma CheckValid_bitmap:
  assumes "BitMap_wf bm" "bitmap_bytes bm = Some bs" "j \<le> unat (valid_bits bm)"
  shows "CheckValid (of_nat j) (bs @ rest) = Some (marked_live bm j)"
proof -
  have "j < 2 ^ 64" using assms(3) unat_lt_u64 [of "valid_bits bm"] by simp
  then have j: "unat (of_nat j :: u64) = j" by (rule unat_of_nat_u64)
  obtain bs' where b: "bits bm = Some bs'" "bitmap_bytes bm = Some bs'" "length bs' = Suc (unat (valid_bits bm) div 8)"
    using BitMap_wf_bytes [OF assms(1)] .
  then have bs: "bits bm = Some bs" "length bs = Suc (unat (valid_bits bm) div 8)" using assms(2) by simp_all
  have i: "unat (drop_bit 3 (of_nat j :: u64)) < length bs"
    using assms(3) unfolding unat_drop_3 j bs(2) by (simp add: div_le_mono less_Suc_eq_le)
  have "\<not> (of_nat j :: u64) > valid_bits bm" using assms(3) by (simp add: word_less_nat_alt j)
  then show ?thesis
    using i bs(1) by (simp add: CheckValid_def marked_live_def GetBit_def load8_def Let_def nth_append)
qed

lemma k_DecodeHeader_lay:
  assumes "BlobFileHeader_wf hdr" "4 \<le> length rest"
  shows "k_DecodeHeader (BlobFileHeader_EncodeTo [] hdr @ rest) 0 = Some (True, length (BlobFileHeader_EncodeTo [] hdr))"
proof -
  have d: "DecodeFixed32 (EncodeFixed32 x @ y) = x" for x y by (rule DecodeFixed32_Encode)
  show ?thesis using assms
    by (auto simp: BlobFileHeader_wf_def k_DecodeHeader_def BlobFileHeader_EncodeTo_def PutFixed32_def Let_def k_DecodeFixed d
        d [of _ "[]", unfolded append_Nil2])
qed

section \<open>What the kernel writes\<close>

abbreviation out_hdr :: BlobFileHeader where
  "out_hdr \<equiv> \<lparr>hd_version = kVersion2, hd_flags = 0\<rparr>"

definition key_entry :: "BlobRecord \<Rightarrow> nat \<Rightarrow> BlobHandle \<Rightarrow> nat \<Rightarrow> bytes \<times> u32 list" where
  "key_entry r i h off = (rec_key r, [of_nat off, of_nat i, ucast (bh_offset h), ucast (bh_size h)])"

definition key_bytes :: "bytes \<times> u32 list \<Rightarrow> bytes" where
  "key_bytes e = EncodeVarint32 (of_nat (length (fst e))) @ fst e @ concat (map EncodeFixed32 (snd e))"

definition emit :: "BlobLib \<Rightarrow> BlobRecord \<times> nat \<times> BlobHandle \<Rightarrow> KernelOut \<Rightarrow> KernelOut" where
  "emit lib x ko = (case x of (r, i, h) \<Rightarrow>
     \<lparr>ko_data = ko_data ko @ enc_bytes (plain_record lib r), ko_keys = ko_keys ko @ key_bytes (key_entry r i h (length (ko_data ko))),
      ko_num = ko_num ko + 1\<rparr>)"

lemma ucast_of_nat: "(ucast (of_nat n :: u64) :: u32) = of_nat n"
  by (rule bit_word_eqI) (simp add: bit_simps)

lemma emit_step:
  assumes "kernel_fits r"
  shows "ko\<lparr>ko_keys := PutOutputKey (rec_key r) (of_nat (length (rec_key r))) (length (ko_data ko)) i (length a) (length (enc_bytes (plain_record lib r))) (ko_keys ko),
      ko_data := PutOutputData (rec_key r) (of_nat (length (rec_key r))) (rec_value r) (of_nat (length (rec_value r))) (ko_data ko),
      ko_num := ko_num ko + 1\<rparr> =
    emit lib (r, i, \<lparr>bh_offset = of_nat (length a), bh_size = of_nat (length (enc_bytes (plain_record lib r))), bh_index = x\<rparr>) ko"
  using PutOutputData_record [OF assms] kernel_fits_unat [OF assms]
  by (simp add: emit_def PutOutputKey_def key_bytes_def key_entry_def k_EncodeVarint k_EncodeFixed ucast_of_nat)

lemma lay_split:
  "j < length es \<Longrightarrow> lay hdr es = lay hdr (take j es) @ enc_bytes (es ! j) @ concat (map enc_bytes (drop (Suc j) es))"
  by (subst id_take_nth_drop [of j es]) (simp_all add: lay_def)

lemma kernel_entries_emit:
  assumes ok: "ki_ok lib ki" and bm: "bitmap_bytes (ki_bitmap ki) = Some bs" and j: "j + n = length (ki_recs ki)"
  shows "kernel_entries n i (ki_file lib ki @ rest) (bs @ rest') j (length (lay (ki_hdr ki) (take j (ki_encs lib ki)))) kl vl ko =
    Some (fold (emit lib) (map (\<lambda>j. (ki_recs ki ! j, i, nth_handle (ki_hdr ki) (ki_encs lib ki) j))
       (filter (marked_live (ki_bitmap ki)) [j..<length (ki_recs ki)])) ko)"
  using j
proof (induction n arbitrary: j kl vl ko)
  case (Suc n)
  let ?es = "ki_encs lib ki" and ?r = "ki_recs ki ! j" and ?v = "marked_live (ki_bitmap ki) j"
  let ?a = "lay (ki_hdr ki) (take j ?es)" and ?e = "plain_record lib (ki_recs ki ! j)"
  have j: "j < length (ki_recs ki)" and fits: "kernel_fits ?r"
    using Suc.prems ok by (auto simp: ki_ok_def list_all_length)
  then have c: "CheckValid (of_nat j) (bs @ rest') = Some ?v"
    using CheckValid_bitmap [OF _ bm] ok by (simp add: ki_ok_def)
  have data: "ki_file lib ki @ rest = ?a @ enc_bytes ?e @ (concat (map enc_bytes (drop (Suc j) ?es)) @ ki_tail ki @ rest)"
    using j by (simp add: ki_file_def lay_split [of j ?es])
  obtain key v where g: "GetKV (ki_file lib ki @ rest) (length ?a) ?v kl vl =
      Some ((key, of_nat (length (rec_key ?r)), v, of_nat (length (rec_value ?r))), length ?a + length (enc_bytes ?e))"
    "?v \<Longrightarrow> key = rec_key ?r \<and> v = rec_value ?r"
    using GetKV_record [OF fits data refl, where valid = ?v and kl = kl and vl = vl] by blast
  have nxt: "length ?a + length (enc_bytes ?e) = length (lay (ki_hdr ki) (take (Suc j) ?es))"
    using j by (simp add: take_Suc_conv_app_nth lay_snoc)
  have h: "nth_handle (ki_hdr ki) ?es j = \<lparr>bh_offset = of_nat (length ?a), bh_size = of_nat (length (enc_bytes ?e)), bh_index = of_nat j\<rparr>"
    using j by (simp add: nth_handle_def)
  have ih: "kernel_entries n i (ki_file lib ki @ rest) (bs @ rest') (j + 1) (length ?a + length (enc_bytes ?e)) kl' vl' ko' =
      Some (fold (emit lib) (map (\<lambda>j. (ki_recs ki ! j, i, nth_handle (ki_hdr ki) ?es j))
        (filter (marked_live (ki_bitmap ki)) [j + 1..<length (ki_recs ki)])) ko')" for kl' vl' ko'
    using Suc.IH [of "j + 1" kl' vl' ko'] Suc.prems unfolding nxt by simp
  have up: "[j..<length (ki_recs ki)] = j # [j + 1..<length (ki_recs ki)]" using j by (simp add: upt_conv_Cons)
  show ?case
  proof (cases ?v)
    case True
    then show ?thesis
      using g(2) emit_step [OF fits, of ko i ?a lib "of_nat j"] unfolding kernel_entries.simps c g(1) option.case prod.case ih up
      by (simp add: h)
  next
    case False
    then show ?thesis unfolding kernel_entries.simps c g(1) option.case prod.case ih up by simp
  qed
qed simp

definition driver_buffer :: "(nat \<Rightarrow> byte) \<Rightarrow> bytes \<Rightarrow> bytes" where
  "driver_buffer junk f = f @ map junk [length f..<input_buffer_size (length f)]"

lemma kernel_files_emit:
  assumes "list_all (ki_ok lib) kis" "those (map (\<lambda>ki. bitmap_bytes (ki_bitmap ki)) kis) = Some bms"
  shows "kernel_files (zip (map (\<lambda>ki. length (driver_buffer junk (ki_file lib ki))) kis) (zip (map length bms) (map (length \<circ> ki_recs) kis))) i
      (concat (map (\<lambda>ki. driver_buffer junk (ki_file lib ki)) kis)) (concat bms @ rest') ko =
    Some (fold (emit lib) (concat (map (live_items lib) (enumerate i kis))) ko)"
  using assms
proof (induction kis arbitrary: i bms ko)
  case (Cons ki kis)
  obtain bs bms' where bms: "bms = bs # bms'" "bitmap_bytes (ki_bitmap ki) = Some bs" "those (map (\<lambda>ki. bitmap_bytes (ki_bitmap ki)) kis) = Some bms'"
    using Cons.prems(2) by (auto split: option.splits)
  have ok: "ki_ok lib ki" "list_all (ki_ok lib) kis" using Cons.prems(1) by simp_all
  let ?buf = "driver_buffer junk (ki_file lib ki)" and ?more = "concat (map (\<lambda>ki. driver_buffer junk (ki_file lib ki)) kis)"
  let ?h = "BlobFileHeader_EncodeTo [] (ki_hdr ki)"
  have "ki_file lib ki = ?h @ concat (map enc_bytes (ki_encs lib ki)) @ ki_tail ki" by (simp add: ki_file_def lay_def)
  then have "k_DecodeHeader (?buf @ ?more) 0 = Some (True, length ?h)"
    using k_DecodeHeader_lay [of "ki_hdr ki" "concat (map enc_bytes (ki_encs lib ki)) @ ki_tail ki @ r" for r] ok(1)
    by (simp add: ki_ok_def driver_buffer_def)
  moreover have "length ?h = length (lay (ki_hdr ki) (take 0 (ki_encs lib ki)))" by (simp add: lay_def)
  moreover note kernel_entries_emit [OF ok(1) bms(2), of 0 "length (ki_recs ki)" i "map junk [length (ki_file lib ki)..<input_buffer_size (length (ki_file lib ki))] @ ?more"
      "concat bms' @ rest'" 0 0 ko]
  ultimately have "kernel_files ((length ?buf, length bs, length (ki_recs ki)) # fs) i (?buf @ ?more) (bs @ concat bms' @ rest') ko =
      kernel_files fs (i + 1) ?more (concat bms' @ rest') (fold (emit lib) (live_items lib (i, ki)) ko)" for fs
    by (simp add: driver_buffer_def live_items_def)
  then show ?case using Cons.IH [OF ok(2) bms(3)] by (simp add: bms(1) enumerate_simps)
qed simp

section \<open>Reading the results back\<close>

definition out_file :: "BlobLib \<Rightarrow> (BlobRecord \<times> 'a) list \<Rightarrow> bytes" where
  "out_file lib its = lay out_hdr (map (plain_record lib \<circ> fst) its)"

definition out_keys :: "BlobLib \<Rightarrow> (BlobRecord \<times> nat \<times> BlobHandle) list \<Rightarrow> (bytes \<times> u32 list) list" where
  "out_keys lib its = map (\<lambda>t. case its ! t of (r, i, h) \<Rightarrow> key_entry r i h (length (out_file lib (take t its)))) [0..<length its]"

lemma k_EncodeHeader_lay: "k_EncodeHeader = out_file lib []"
  by (simp add: k_EncodeHeader_def out_file_def lay_def BlobFileHeader_EncodeTo_def PutFixed32_def k_EncodeFixed Let_def)

lemma fold_emit:
  "fold (emit lib) its \<lparr>ko_data = k_EncodeHeader, ko_keys = [], ko_num = 0\<rparr> =
    \<lparr>ko_data = out_file lib its, ko_keys = concat (map key_bytes (out_keys lib its)), ko_num = length its\<rparr>"
proof (induction its rule: rev_induct)
  case (snoc x its)
  obtain r i h where x: "x = (r, i, h)" by (cases x)
  have "out_keys lib (its @ [x]) = out_keys lib its @ [key_entry r i h (length (out_file lib its))]"
    by (auto simp: out_keys_def nth_append x intro!: map_cong)
  then show ?case using snoc by (simp add: emit_def x out_file_def lay_snoc)
qed (simp add: k_EncodeHeader_lay out_keys_def)

lemma GetOutputKey_bytes:
  assumes "length k < 2 ^ 32" "length ws = 4"
  shows "GetOutputKey (key_bytes (k, ws) @ rest) = Some ((k, ws), rest)"
proof -
  obtain a b c d where ws: "ws = [a, b, c, d]" using assms(2) by (auto simp: numeral_eq_Suc length_Suc_conv)
  have u: "unat (of_nat (length k) :: u32) = length k" using assms(1) by (simp add: unsigned_of_nat take_bit_nat_eq_self)
  have g: "GetVarint32Ptr (key_bytes (k, ws) @ rest) = Some (of_nat (length k), k @ concat (map EncodeFixed32 ws) @ rest)"
    by (simp add: key_bytes_def GetVarint32_Encode [unfolded GetVarint32_def])
  show ?thesis unfolding GetOutputKey_def g by (simp add: u ws DecodeFixed32_Encode)
qed

lemma rewrite_keys_bytes:
  "list_all (\<lambda>e. length (fst e) < 2 ^ 32 \<and> length (snd e) = 4) es \<Longrightarrow> rewrite_keys (length es) (concat (map key_bytes es)) = Some es"
  by (induction es) (auto simp: GetOutputKey_bytes)

lemma padded_mod: "((a :: nat) + (if a mod 4096 > 0 then 4096 - a mod 4096 else 0)) mod 4096 = 0"
proof -
  define q m where "q = a div 4096" and "m = a mod 4096"
  then have a: "a = 4096 * q + m" and m: "m < 4096" by simp_all
  then have "a + (4096 - m) = 4096 * (q + 1)" by simp
  then have "(a + (4096 - m)) mod 4096 = 0" by (metis mod_mult_self1_is_0)
  then show ?thesis by (simp add: m_def)
qed

lemma k_EncodeFooter_parts:
  obtains pad footer where "k_EncodeFooter old data = (data @ pad) @ footer" "length footer = kEncodedLength"
    "footer_into footer = Some (Inr \<lparr>blk_offset = 0, blk_size = 0\<rparr>)" "length pad < 4096" "length (k_EncodeFooter old data) mod 4096 = 0"
proof -
  let ?m = "(length data + 32) mod 4096"
  define pad where "pad = map old [length data..<length data + (if ?m > 0 then 4096 - ?m else 0)]"
  define junk where "junk = map old [length (data @ pad) + 2..<length (data @ pad) + 20]"
  define head where "head = [0, 0] @ junk @ EncodeFixed64 kFooterMagicNumber"
  define footer where "footer = head @ EncodeFixed32 (Value head)"
  have e: "k_EncodeFooter old data = (data @ pad) @ footer"
    by (simp add: k_EncodeFooter_def Let_def k_EncodeVarint64.simps pad_def junk_def head_def footer_def k_EncodeFixed Crc32c_kernel Value_def)
  have j: "length junk = 18" by (simp add: junk_def)
  have b: "BlockHandle_DecodeFrom ([0, 0] @ x) = Inr (\<lparr>blk_offset = 0, blk_size = 0\<rparr>, x)" for x
    using BlockHandle_Decode_Encode [of "\<lparr>blk_offset = 0, blk_size = 0\<rparr>" x]
    by (simp add: BlockHandle_EncodeTo_def PutVarint64Varint64_def EncodeVarint64.simps)
  have f: "footer_into footer = Some (Inr \<lparr>blk_offset = 0, blk_size = 0\<rparr>)"
    using b j by (simp add: footer_into_def BlobFileFooter_DecodeFrom_def footer_def head_def GetFixed64_Encode
        GetFixed32_Encode [of _ "[]", unfolded append_Nil2])
  have l: "length footer = 32" "length pad < 4096" by (simp_all add: footer_def head_def j pad_def)
  have "length (k_EncodeFooter old data) = length data + 32 + (if ?m > 0 then 4096 - ?m else 0)" unfolding e using l(1) by (simp add: pad_def)
  then have "length (k_EncodeFooter old data) mod 4096 = 0" using padded_mod by (simp only:)
  with e f l show thesis using that by simp
qed

lemma live_items_handle:
  assumes "ki_ok lib ki" "(r, i', h) \<in> set (live_items lib (i, ki))"
  shows "kernel_fits r" "bh_size h = of_nat (length (enc_bytes (plain_record lib r)))" "length (enc_bytes (plain_record lib r)) < 2 ^ 32"
    "unat (bh_offset h) < 2 ^ 32"
proof -
  obtain j where j: "j < length (ki_recs ki)" "r = ki_recs ki ! j" "h = nth_handle (ki_hdr ki) (ki_encs lib ki) j"
    using assms(2) by (auto simp: live_items_def)
  then show "kernel_fits r" "bh_size h = of_nat (length (enc_bytes (plain_record lib r)))"
    using assms(1) by (simp_all add: ki_ok_def list_all_length nth_handle_def)
  let ?a = "lay (ki_hdr ki) (take j (ki_encs lib ki))"
  have "length (ki_file lib ki) \<ge> length ?a + length (enc_bytes (plain_record lib r))"
    using j(1,2) by (simp add: ki_file_def lay_split [of j "ki_encs lib ki"])
  then have l: "length ?a < 2 ^ 32" "length (enc_bytes (plain_record lib r)) < 2 ^ 32" using assms(1) unfolding ki_ok_def by linarith+
  then show "length (enc_bytes (plain_record lib r)) < 2 ^ 32" "unat (bh_offset h) < 2 ^ 32"
    using unat_of_nat_u64 [of "length ?a"] by (simp_all add: j(3) nth_handle_def)
qed

lemma ucast_back: "unat (x :: u64) < 2 ^ 32 \<Longrightarrow> ucast (ucast x :: u32) = x"
  by (rule word_unat_eq_iff [THEN iffD2]) (simp add: unsigned_ucast_eq unsigned_take_bit_eq take_bit_nat_eq_self)

definition all_live :: "BlobLib \<Rightarrow> KernelInput list \<Rightarrow> (BlobRecord \<times> nat \<times> BlobHandle) list" where
  "all_live lib kis = concat (map (live_items lib) (enumerate 0 kis))"

lemma all_live_item:
  assumes "list_all (ki_ok lib) kis" "(r, i, h) \<in> set (all_live lib kis)"
  shows "kernel_fits r" "bh_size h = of_nat (length (enc_bytes (plain_record lib r)))" "length (enc_bytes (plain_record lib r)) < 2 ^ 32"
    "unat (bh_offset h) < 2 ^ 32"
proof -
  obtain k ki where "(k, ki) \<in> set (enumerate 0 kis)" and m: "(r, i, h) \<in> set (live_items lib (k, ki))"
    using assms(2) by (auto simp: all_live_def)
  then have "ki_ok lib ki" using assms(1) by (auto simp: in_set_enumerate_eq list_all_length)
  from live_items_handle [OF this m] show "kernel_fits r" "bh_size h = of_nat (length (enc_bytes (plain_record lib r)))"
    "length (enc_bytes (plain_record lib r)) < 2 ^ 32" "unat (bh_offset h) < 2 ^ 32" by blast+
qed

text \<open>The output and the keys fit into their buffers.\<close>

definition kernel_room :: "BlobLib \<Rightarrow> KernelInput list \<Rightarrow> bool" where
  "kernel_room lib kis \<longleftrightarrow>
     length (out_file lib (all_live lib kis)) + 4128 \<le> sum_list (map (\<lambda>ki. input_buffer_size (length (ki_file lib ki))) kis) \<and>
     length (concat (map key_bytes (out_keys lib (all_live lib kis)))) \<le> input_buffer_size (sum_list (map (length \<circ> ki_recs) kis) * OUTPUT_KEY_SIZE)"

lemma length_driver_buffer: "length (driver_buffer junk f) = input_buffer_size (length f)"
proof -
  have "length f \<le> (length f div 2 ^ 20 + 1) * 2 ^ 20" using dividend_less_div_times [of "2 ^ 20" "length f"] by simp
  then show ?thesis by (simp add: driver_buffer_def input_buffer_size_def)
qed

lemma run_gc_kernel_all_live:
  assumes ok: "list_all (ki_ok lib) kis" and room: "kernel_room lib kis"
  shows "\<exists>n. run_gc_kernel junk old (map (ki_file lib) kis) (map ki_bitmap kis) (map (length \<circ> ki_recs) kis) =
    Some (out_keys lib (all_live lib kis), [length (all_live lib kis), length (k_EncodeFooter old (out_file lib (all_live lib kis))), n],
      k_EncodeFooter old (out_file lib (all_live lib kis)))"
proof -
  let ?its = "all_live lib kis" and ?data = "k_EncodeFooter old (out_file lib (all_live lib kis))"
  let ?keys = "concat (map key_bytes (out_keys lib ?its))" and ?buf = "\<lambda>ki. driver_buffer junk (ki_file lib ki)"
  have "\<exists>bms. those (map (\<lambda>ki. bitmap_bytes (ki_bitmap ki)) kis) = Some bms"
    using ok by (induction kis) (auto simp: ki_ok_def elim!: BitMap_wf_bytes)
  then obtain bms where bms: "those (map (\<lambda>ki. bitmap_bytes (ki_bitmap ki)) kis) = Some bms" by blast
  let ?rest = "replicate (input_buffer_size (length (concat bms)) - length (concat bms)) 0"
  have "list_all (\<lambda>e. length (fst e) < 2 ^ 32 \<and> length (snd e) = 4) (out_keys lib ?its)"
    using all_live_item(1) [OF ok] by (fastforce simp: out_keys_def list_all_iff key_entry_def kernel_fits_def in_set_conv_nth split: prod.splits)
  then have k: "rewrite_keys (length ?its) ?keys = Some (out_keys lib ?its)"
    using rewrite_keys_bytes [of "out_keys lib ?its"] by (simp add: out_keys_def)
  have g: "gcKernel old (concat (map ?buf kis)) (concat bms @ ?rest)
      (zip (map (length \<circ> ?buf) kis) (zip (map length bms) (map (length \<circ> ki_recs) kis))) =
      Some (?data, ?keys, length ?its, length ?data, length ?keys)"
    using kernel_files_emit [OF ok bms, of junk 0 ?rest "\<lparr>ko_data = k_EncodeHeader, ko_keys = [], ko_num = 0\<rparr>"]
    unfolding gcKernel_def fold_emit all_live_def [symmetric] by (simp add: Let_def comp_def)
  have "length ?data \<le> length (out_file lib ?its) + 4128" by (rule k_EncodeFooter_parts [of old "out_file lib ?its"]) simp
  then have "length ?data \<le> sum_list (map (length \<circ> ?buf) kis)" "length ?keys \<le> input_buffer_size (sum_list (map (length \<circ> ki_recs) kis) * OUTPUT_KEY_SIZE)"
    using room by (simp_all add: kernel_room_def length_driver_buffer comp_def)
  moreover have "list_all read_whole (map (ki_file lib) kis)" using ok by (simp add: list_all_iff ki_ok_def)
  ultimately show ?thesis
    using g k bms unfolding run_gc_kernel_def driver_buffer_def [symmetric] Let_def by (simp add: comp_def)
qed

text \<open>
  The accelerator collects like the host: on well-formed inputs the kernel and the driver return,
  for exactly the records whose bit is clear and in their order, the key with the new offset, the
  input, the old offset and the size, and the file they write is a whole number of 4096-byte pages,
  opens as a blob file and holds each of these records at its new offset.
\<close>

lemma kernel_collects:
  assumes lib: "lib_sound lib" and ok: "list_all (ki_ok lib) kis" and room: "kernel_room lib kis"
    and size: "length (out_file lib (all_live lib kis)) < 2 ^ 32"
  shows "\<exists>ks data n rd.
    run_gc_kernel junk old (map (ki_file lib) kis) (map ki_bitmap kis) (map (length \<circ> ki_recs) kis) =
      Some (ks, [length (all_live lib kis), length data, n], data) \<and>
    length data mod 4096 = 0 \<and> length ks = length (all_live lib kis) \<and>
    BlobFileReader_Open lib pre (read_only data) (of_nat (length data)) = Some (Inr rd) \<and>
    (\<forall>t < length (all_live lib kis). case all_live lib kis ! t of (r, i, h) \<Rightarrow>
       \<exists>off oo sz. ks ! t = (rec_key r, [off, of_nat i, oo, sz]) \<and> ucast oo = bh_offset h \<and> ucast sz = bh_size h \<and>
         ReadRecord lib \<lparr>bh_offset = ucast off, bh_size = ucast sz, bh_index = of_nat t\<rparr> rd =
           Some (Inr (r, BlobRecord_EncodeTo [] r), rd))"
proof -
  let ?its = "all_live lib kis" and ?data = "k_EncodeFooter old (out_file lib (all_live lib kis))"
  obtain pad footer where f: "?data = (out_file lib ?its @ pad) @ footer" "length footer = kEncodedLength"
    "footer_into footer = Some (Inr \<lparr>blk_offset = 0, blk_size = 0\<rparr>)" "length pad < 4096" "length ?data mod 4096 = 0"
    by (rule k_EncodeFooter_parts)
  have len: "length ?data < 2 ^ 64" using f(1,2,4) size by simp
  let ?rd = "\<lparr>rd_file = read_only ?data, rd_dict = None, rd_cache_prefix = pre\<rparr>"
  have "ReadHeader (read_only ?data) = (Inr out_hdr, read_only ?data)"
    using ReadHeader_lay [of out_hdr] unfolding f(1) by (simp add: out_file_def lay_def BlobFileHeader_wf_def)
  from Reader_Open_footer [OF f(1,2,3) len this] have op: "BlobFileReader_Open lib pre (read_only ?data) (of_nat (length ?data)) = Some (Inr ?rd)"
    by simp
  have "\<exists>off oo sz. out_keys lib ?its ! t = (rec_key r, [off, of_nat i, oo, sz]) \<and> ucast oo = bh_offset h \<and> ucast sz = bh_size h \<and>
      ReadRecord lib \<lparr>bh_offset = ucast off, bh_size = ucast sz, bh_index = of_nat t\<rparr> ?rd = Some (Inr (r, BlobRecord_EncodeTo [] r), ?rd)"
    if t: "t < length ?its" and x: "?its ! t = (r, i, h)" for t r i h
  proof -
    have "(r, i, h) \<in> set ?its" using t x by (metis nth_mem)
    note it = all_live_item [OF ok this]
    let ?a = "out_file lib (take t ?its)" and ?e = "plain_record lib r"
    have sp: "out_file lib ?its = ?a @ enc_bytes ?e @ concat (map enc_bytes (drop (Suc t) (map (plain_record lib \<circ> fst) ?its)))"
      using t lay_split [of t "map (plain_record lib \<circ> fst) ?its" out_hdr] by (simp add: out_file_def x take_map)
    then have a: "length ?a < 2 ^ 32" using size by simp
    have off: "(ucast (of_nat (length ?a) :: u32) :: u64) = of_nat (length ?a)"
      using a ucast_back [of "of_nat (length ?a)"] by (simp add: ucast_of_nat unat_of_nat_u64)
    have fits: "BlobRecord_fits r" using it(1) by (simp add: kernel_fits_def BlobRecord_fits_def)
    have er: "length (enc_record ?e) < 2 ^ 32" using it(3) by (simp add: enc_bytes_def)
    have d: "?data = ?a @ enc_bytes ?e @ concat (map enc_bytes (drop (Suc t) (map (plain_record lib \<circ> fst) ?its))) @ pad @ footer"
      by (subst f(1)) (simp add: sp)
    have sz: "ucast (ucast (bh_size h) :: u32) = bh_size h" using ucast_back [of "bh_size h"] it(2,3) by (simp add: unat_of_nat_u64)
    have "ReadRecord lib \<lparr>bh_offset = ucast (of_nat (length ?a) :: u32), bh_size = ucast (ucast (bh_size h) :: u32), bh_index = of_nat t\<rparr> ?rd =
        Some (Inr (r, BlobRecord_EncodeTo [] r), ?rd)"
      by (rule ReadRecord_at [OF _ fits _ er d len]) (use lib it(2) off sz in \<open>simp_all add: lib_sound_def\<close>)
    moreover have "out_keys lib ?its ! t = (rec_key r, [of_nat (length ?a), of_nat i, ucast (bh_offset h), ucast (bh_size h)])"
      using t x by (simp add: out_keys_def key_entry_def)
    ultimately show ?thesis using ucast_back [OF it(4)] sz by blast
  qed
  then show ?thesis
    using run_gc_kernel_all_live [OF ok room, of junk old] f(5) op
    by (fastforce simp: out_keys_def split: prod.splits)
qed

definition demo_input :: KernelInput where
  "demo_input = \<lparr>ki_hdr = out_hdr, ki_recs = [\<lparr>rec_key = [1], rec_value = [2]\<rparr>, \<lparr>rec_key = [3], rec_value = [4, 5]\<rparr>],
     ki_tail = [0, 0, 0, 0], ki_bitmap = \<lparr>valid_bits = 2, byte_size = 1, bits = Some [128]\<rparr>\<rparr>"

lemma demo_input_live: "marked_live (ki_bitmap demo_input) 0 = False" "marked_live (ki_bitmap demo_input) (Suc 0) = True"
  by code_simp+

lemma demo_record_length: "length (enc_bytes (plain_record lib \<lparr>rec_key = [a], rec_value = v\<rparr>)) \<le> 20 + length v"
  using plain_record_bytes [of lib "\<lparr>rec_key = [a], rec_value = v\<rparr>"] by (simp add: enc_bytes_def EncodeVarint32_def)

lemma demo_header_length: "length (BlobFileHeader_EncodeTo [] out_hdr) = 12"
  by (simp add: length_BlobFileHeader BlobFileHeader_wf_def BlobFileHeader_size_def)

lemma demo_input_ok: "ki_ok demo_lib demo_input"
proof -
  have "length (ki_file demo_lib demo_input) \<le> 12 + 21 + 22 + 4"
    using demo_record_length [of demo_lib 1 "[2]"] demo_record_length [of demo_lib 3 "[4, 5]"] demo_header_length
    by (simp add: ki_file_def demo_input_def lay_def)
  moreover have "ki_file demo_lib demo_input \<noteq> []" by (simp add: ki_file_def demo_input_def)
  ultimately have "read_whole (ki_file demo_lib demo_input)" "length (ki_file demo_lib demo_input) < 2 ^ 32"
    by (simp_all add: read_whole_def input_buffer_size_def)
  then show ?thesis by (simp add: ki_ok_def demo_input_def BlobFileHeader_wf_def kernel_fits_def BitMap_wf_def)
qed

lemma demo_all_live:
  obtains h where "all_live demo_lib [demo_input] = [(\<lparr>rec_key = [3], rec_value = [4, 5]\<rparr>, 0, h)]"
proof -
  have "ki_recs demo_input = [\<lparr>rec_key = [1], rec_value = [2]\<rparr>, \<lparr>rec_key = [3], rec_value = [4, 5]\<rparr>]" by (simp add: demo_input_def)
  with that demo_input_live show thesis by (simp add: all_live_def live_items_def)
qed

end
