(* ===== verification/Titan_Hardware.thy ===== *)
theory Titan_Hardware
  imports Titan_Kernel Titan_GCJob
begin

text \<open>
  A collection on the accelerator from end to end: the job of \<open>blob_gc_job.cc\<close> on the driver and the
  kernel of \<open>Titan_Kernel\<close>.
\<close>

text \<open>
  The driver as the job sees it: the statistics are the bytes read, the time of the reads, the time
  of the kernel, the bytes written and the time of the write.
\<close>

definition kernel_driver :: "(nat \<Rightarrow> byte) \<Rightarrow> (nat \<Rightarrow> byte) \<Rightarrow> (nat \<Rightarrow> u64) \<Rightarrow> bool \<Rightarrow> HardwareGC" where
  "kernel_driver junk old time free =
     \<lparr>hw_free_cu = free,
      hw_run = (\<lambda>inputs bitmaps entries.
        map_option (\<lambda>(ks, meta, data).
            (ks, [of_nat (sum_list (map length inputs)), time 0, time 1, of_nat (length data), time 2], map of_nat meta @ [0], data))
          (run_gc_kernel junk old inputs bitmaps (map unat entries)))\<rparr>"

text \<open>The input \<open>ki\<close> under the number \<open>n\<close>: in the storage and on disk.\<close>

definition hardware_input :: "BlobLib \<Rightarrow> World \<Rightarrow> BlobStorage \<Rightarrow> u64 \<Rightarrow> KernelInput \<Rightarrow> bool" where
  "hardware_input lib w bs n ki \<longleftrightarrow>
     w_files w n = Some (ki_file lib ki) \<and> list_all (\<lambda>r. rec_key r \<noteq> []) (ki_recs ki) \<and>
     (case FindFile bs n of
        None \<Rightarrow> False
      | Some f \<Rightarrow> \<not> is_obsolete f \<and> fm_entries f = of_nat (length (ki_recs ki)) \<and>
          CopyInvalidEntryIndexesTo f BitMap_default = Some (OK, ki_bitmap ki))"

lemma hardware_inputs_ok:
  "list_all2 (hardware_input lib w bs) ns kis \<Longrightarrow>
   hardware_inputs bs ns = Some (Inr (map (\<lambda>ki. (ki_bitmap ki, of_nat (length (ki_recs ki)))) kis))"
  by (induction rule: list_all2_induct) (auto simp: hardware_input_def copy_bitmap_def split: option.splits)

section \<open>The batches\<close>

definition hardware_batch :: "u64 \<Rightarrow> u32 \<Rightarrow> u64 list \<Rightarrow> nat \<times> bytes \<times> u32 list \<Rightarrow> WriteBatch \<times> WriteCallback" where
  "hardware_batch n cf ns e = (case e of (t, key, index_meta) \<Rightarrow>
     case hardware_index n ns (of_nat t) index_meta of
       None \<Rightarrow> undefined
     | Some (origin, new) \<Rightarrow>
         (snd (WriteBatch_PutBlobIndex [] cf key (BlobIndex_EncodeTo [] new)),
          \<lparr>cb_key = key, cb_blob_index = origin, cb_new_blob_index = new, cb_read_bytes = 0\<rparr>))"

lemma hardware_batches_ok:
  assumes "\<And>e. e \<in> set ks \<Longrightarrow> fst e \<noteq> [] \<and> length (snd e) = 4 \<and> unat (snd e ! 1) < length (gc_inputs (gj_gc j))"
  shows "\<exists>rng'. hardware_batches n ks (of_nat t) rng j =
    Some (OK, rng', j\<lparr>gj_batches := gj_batches j @ map (hardware_batch n (gj_cf j) (gc_inputs (gj_gc j))) (enumerate t ks)\<rparr>)"
  using assms
proof (induction ks arbitrary: t rng j)
  case (Cons e ks)
  obtain key meta where e: "e = (key, meta)" by (cases e)
  obtain a b where r: "rng = (a, b)" by (cases rng)
  let ?ns = "gc_inputs (gj_gc j)"
  obtain og nw where x: "hardware_index n ?ns (of_nat t) meta = Some (og, nw)" "key \<noteq> []"
    using Cons.prems [of e] by (auto simp: e hardware_index_def Let_def)
  let ?j = "j\<lparr>gj_batches := gj_batches j @ [hardware_batch n (gj_cf j) ?ns (t, e)]\<rparr>"
  have "\<exists>rng'. hardware_batches n ks (of_nat (Suc t)) rng2 ?j = Some (OK, rng',
      ?j\<lparr>gj_batches := gj_batches ?j @ map (hardware_batch n (gj_cf ?j) (gc_inputs (gj_gc ?j))) (enumerate (Suc t) ks)\<rparr>)" for rng2
    using Cons.IH [of ?j "Suc t" rng2] Cons.prems by simp
  moreover let ?lt = "co_less (gj_opts j)" and ?p = "if a = [] then (key, key) else (a, b)"
  have "hardware_batches n (e # ks) (of_nat t) rng j = hardware_batches n ks (of_nat (Suc t))
      (if ?lt key (fst ?p) then key else fst ?p, if ?lt (snd ?p) key then key else snd ?p) ?j"
    using x by (simp add: e r hardware_batch_def WriteCallback_new_def WriteBatch_PutBlobIndex_def Let_def case_prod_unfold add.commute)
  ultimately show ?case by simp
qed simp

lemma all_live_input:
  assumes "(r, i, h) \<in> set (all_live lib kis)"
  shows "i < length kis" "r \<in> set (ki_recs (kis ! i))"
  using assms by (auto simp: all_live_def live_items_def in_set_enumerate_eq)

lemma hardware_contents:
  assumes "list_all2 (hardware_input lib w bs) ns kis" "list_all (ki_ok lib) kis"
  shows "map (\<lambda>n. case w_files w n of None \<Rightarrow> [] | Some data \<Rightarrow> data) ns = map (ki_file lib) kis"
    "map (\<lambda>ki. unat (of_nat (length (ki_recs ki)) :: u64)) kis = map (length \<circ> ki_recs) kis"
proof -
  show "map (\<lambda>n. case w_files w n of None \<Rightarrow> [] | Some data \<Rightarrow> data) ns = map (ki_file lib) kis"
    using assms(1) by (induction rule: list_all2_induct) (simp_all add: hardware_input_def)
  have "unat (of_nat (length (ki_recs ki)) :: u64) = length (ki_recs ki)" if "ki \<in> set kis" for ki
    using assms(2) that unat_lt_u64 [of "valid_bits (ki_bitmap ki)"] by (intro unat_of_nat_u64) (fastforce simp: list_all_iff ki_ok_def)
  then show "map (\<lambda>ki. unat (of_nat (length (ki_recs ki)) :: u64)) kis = map (length \<circ> ki_recs) kis" by simp
qed

text \<open>What the kernel gives back for the live records: their keys, old and new places, and a file that holds them.\<close>

definition kernel_answers :: "BlobLib \<Rightarrow> KernelInput list \<Rightarrow> (bytes \<times> u32 list) list \<Rightarrow> BlobFileReader \<Rightarrow> bool" where
  "kernel_answers lib kis ks rd \<longleftrightarrow> length ks = length (all_live lib kis) \<and>
     (\<forall>t < length (all_live lib kis). case all_live lib kis ! t of (r, i, h) \<Rightarrow>
        \<exists>off oo sz. ks ! t = (rec_key r, [off, of_nat i, oo, sz]) \<and> ucast oo = bh_offset h \<and> ucast sz = bh_size h \<and>
          Titan_BlobFile.ReadRecord lib \<lparr>bh_offset = ucast off, bh_size = ucast sz, bh_index = of_nat t\<rparr> rd = Some (Inr (r, BlobRecord_EncodeTo [] r), rd))"

lemma kernel_answersE:
  assumes "kernel_answers lib kis ks rd" "t < length (all_live lib kis)" "length kis < 2 ^ 32"
  obtains r i h off oo sz where "all_live lib kis ! t = (r, i, h)" "i < length kis" "r \<in> set (ki_recs (kis ! i))" "unat (of_nat i :: u32) = i"
    "ks ! t = (rec_key r, [off, of_nat i, oo, sz])" "ucast oo = bh_offset h" "ucast sz = bh_size h"
    "Titan_BlobFile.ReadRecord lib \<lparr>bh_offset = ucast off, bh_size = ucast sz, bh_index = of_nat t\<rparr> rd = Some (Inr (r, BlobRecord_EncodeTo [] r), rd)"
proof -
  obtain r i h where x: "all_live lib kis ! t = (r, i, h)" by (cases "all_live lib kis ! t")
  then have i: "i < length kis" "r \<in> set (ki_recs (kis ! i))" using all_live_input [of r i h lib kis] assms(2) by (metis nth_mem)+
  moreover from i(1) have "unat (of_nat i :: u32) = i" using assms(3) by (simp add: unsigned_of_nat take_bit_nat_eq_self)
  ultimately show thesis using assms(1,2) x that by (fastforce simp: kernel_answers_def)
qed

lemma kernel_answers_keys:
  assumes k: "kernel_answers lib kis ks rd" "length kis < 2 ^ 32" and inp: "list_all2 (hardware_input lib w bs) ns kis" and e: "e \<in> set ks"
  shows "fst e \<noteq> [] \<and> length (snd e) = 4 \<and> unat (snd e ! 1) < length ns"
proof -
  obtain t where t: "t < length (all_live lib kis)" "e = ks ! t" using e k(1) by (auto simp: in_set_conv_nth kernel_answers_def)
  obtain r i h off oo sz where a: "i < length kis" "r \<in> set (ki_recs (kis ! i))" "unat (of_nat i :: u32) = i" "ks ! t = (rec_key r, [off, of_nat i, oo, sz])"
    by (rule kernel_answersE [OF k(1) t(1) k(2)])
  have "rec_key r \<noteq> []" "length ns = length kis" using inp a(1,2) by (auto simp: list_all2_conv_all_nth hardware_input_def list_all_iff)
  then show ?thesis using a t(2) by simp
qed

lemma hardware_batch_refers:
  assumes k: "kernel_answers lib kis ks rd" "length kis < 2 ^ 32" and len: "length ns = length kis" and t: "t < length (all_live lib kis)"
  shows "case all_live lib kis ! t of (r, i, h) \<Rightarrow>
       let b = map (hardware_batch n cf ns) (enumerate 0 ks) ! t; cb = snd b; new = cb_new_blob_index cb; origin = cb_blob_index cb in
       fst b = snd (WriteBatch_PutBlobIndex [] cf (rec_key r) (BlobIndex_EncodeTo [] new)) \<and> cb_key cb = rec_key r \<and>
       bi_file_number new = n \<and> Titan_BlobFile.ReadRecord lib (bi_handle new) rd = Some (Inr (r, BlobRecord_EncodeTo [] r), rd) \<and>
       bi_file_number origin = ns ! i \<and> bh_offset (bi_handle origin) = bh_offset h \<and> bh_size (bi_handle origin) = bh_size h"
proof -
  obtain r i h off oo sz where a: "all_live lib kis ! t = (r, i, h)" "i < length kis" "unat (of_nat i :: u32) = i"
    "ks ! t = (rec_key r, [off, of_nat i, oo, sz])" "ucast oo = bh_offset h" "ucast sz = bh_size h"
    "Titan_BlobFile.ReadRecord lib \<lparr>bh_offset = ucast off, bh_size = ucast sz, bh_index = of_nat t\<rparr> rd = Some (Inr (r, BlobRecord_EncodeTo [] r), rd)"
    by (rule kernel_answersE [OF k(1) t k(2)])
  have "map (hardware_batch n cf ns) (enumerate 0 ks) ! t = hardware_batch n cf ns (t, ks ! t)"
    using t k(1) by (simp add: nth_enumerate_eq kernel_answers_def)
  then show ?thesis using a len by (simp add: hardware_batch_def hardware_index_def Let_def)
qed

text \<open>C5: a collection on the accelerator, from the job through the driver to the kernel and back, on
  inputs that are in the storage and on disk.  It succeeds, writes one file that opens as a blob
  file, and adds one write-back for every record whose bit is clear, in their order: it replaces the index
  of the record's old place by one that reads the same record in the new file.
\<close>

theorem hardware_gc_collects:
  assumes lib: "lib_sound lib" and ok: "list_all (ki_ok lib) kis" and room: "kernel_room lib kis"
    and size: "length (out_file lib (all_live lib kis)) < 2 ^ 32" "length kis < 2 ^ 32" "kis \<noteq> []"
    and w: "\<not> w_mutex w" "w_storage w (gj_cf j) = Some bs" and inp: "list_all2 (hardware_input lib w bs) (gc_inputs (gj_gc j)) kis"
  shows "\<exists>j' w' bts f data rd.
    DoRunGCOnHardware lib (kernel_driver junk old time True) j w = Some (OK, j', w') \<and>
    gj_hardware_file j' = Some f \<and> fm_entries f = of_nat (length (all_live lib kis)) \<and> w_files w' (fm_number f) = Some data \<and>
    BlobFileReader_Open lib pre (read_only data) (fm_size f) = Some (Inr rd) \<and>
    gj_batches j' = gj_batches j @ bts \<and> length bts = length (all_live lib kis) \<and>
    (\<forall>t < length (all_live lib kis). case all_live lib kis ! t of (r, i, h) \<Rightarrow>
       let cb = snd (bts ! t); new = cb_new_blob_index cb; origin = cb_blob_index cb in
       fst (bts ! t) = snd (WriteBatch_PutBlobIndex [] (gj_cf j) (rec_key r) (BlobIndex_EncodeTo [] new)) \<and> cb_key cb = rec_key r \<and>
       bi_file_number new = fm_number f \<and> Titan_BlobFile.ReadRecord lib (bi_handle new) rd = Some (Inr (r, BlobRecord_EncodeTo [] r), rd) \<and>
       bi_file_number origin = gc_inputs (gj_gc j) ! i \<and> bh_offset (bi_handle origin) = bh_offset h \<and> bh_size (bi_handle origin) = bh_size h)"
proof -
  let ?its = "all_live lib kis" and ?ns = "gc_inputs (gj_gc j)"
  obtain ks data m rd where k:
    "run_gc_kernel junk old (map (ki_file lib) kis) (map ki_bitmap kis) (map (length \<circ> ki_recs) kis) = Some (ks, [length ?its, length data, m], data)"
    "BlobFileReader_Open lib pre (read_only data) (of_nat (length data)) = Some (Inr rd)" "kernel_answers lib kis ks rd"
    using kernel_collects [OF lib ok room size(1), of junk old pre] unfolding kernel_answers_def by blast
  have len: "length ?ns = length kis" using inp by (rule list_all2_lengthD)
  obtain n fs where n: "NewFileNumber (w_fileset w) = (n, fs)" by (cases "NewFileNumber (w_fileset w)")
  have "\<exists>rng. hardware_batches n ks (of_nat 0) ([], []) j =
      Some (OK, rng, j\<lparr>gj_batches := gj_batches j @ map (hardware_batch n (gj_cf j) ?ns) (enumerate 0 ks)\<rparr>)"
    by (rule hardware_batches_ok) (rule kernel_answers_keys [OF k(3) size(2) inp])
  then obtain rng where b: "hardware_batches n ks 0 ([], []) j =
      Some (OK, rng, j\<lparr>gj_batches := gj_batches j @ map (hardware_batch n (gj_cf j) ?ns) (enumerate 0 ks)\<rparr>)" by auto
  define f where "f = (BlobFileMeta_new n (of_nat (length data)) (of_nat (length ?its)) 0 (fst rng) (snd rng))
      \<lparr>fm_live := of_nat (length data), fm_state := PendingGC\<rparr>"
  let ?w = "mutex_Unlock (w\<lparr>w_mutex := True\<rparr>)" and ?bts = "map (hardware_batch n (gj_cf j) ?ns) (enumerate 0 ks)"
  let ?hw = "kernel_driver junk old time True" and ?xs = "map (\<lambda>ki. (ki_bitmap ki, of_nat (length (ki_recs ki)) :: u64)) kis"
  have xs: "map fst ?xs = map ki_bitmap kis" "map unat (map snd ?xs) = map (length \<circ> ki_recs) kis"
    using hardware_contents(2) [OF inp ok] by (simp_all only: map_map comp_def fst_conv snd_conv)
  have hr: "\<exists>st. hw_run ?hw (map (ki_file lib) kis) (map fst ?xs) (map snd ?xs) =
      Some (ks, st, map of_nat [length ?its, length data, m] @ [0], data) \<and> length st = 5"
    unfolding kernel_driver_def HardwareGC.select_convs xs k(1) by simp
  have n': "NewFileNumber (w_fileset ?w) = (n, fs)" using n by (simp add: mutex_Unlock_def w_fileset_def)
  have c': "map (\<lambda>n. case w_files (set_fileset fs ?w) n of None \<Rightarrow> [] | Some data \<Rightarrow> data) ?ns = map (ki_file lib) kis"
    using hardware_contents(1) [OF inp ok] by (simp add: set_fileset_def mutex_Unlock_def)
  have "\<exists>j' w'. kernel_run ?hw ?xs j ?w = Some (OK, j', w') \<and> gj_hardware_file j' = Some f \<and> gj_batches j' = gj_batches j @ ?bts \<and>
      w_files w' n = Some data"
    using hr b unfolding kernel_run_def n' Let_def prod.case c'
    by (auto simp: FileStateTransit_def transit_def BlobFileMeta_new_def f_def split: prod.splits)
  then obtain j' w' where kr: "kernel_run ?hw ?xs j ?w = Some (OK, j', w')" "gj_hardware_file j' = Some f"
    "gj_batches j' = gj_batches j @ ?bts" "w_files w' n = Some data" by blast
  have dr: "DoRunGCOnHardware lib ?hw j w = Some (OK, j', w')"
    using w size(3) len hardware_inputs_ok [OF inp] kr(1) by (auto simp: DoRunGCOnHardware_def kernel_driver_def mutex_Lock_def w_storage_def)
  have f: "fm_number f = n" "fm_entries f = of_nat (length ?its)" "fm_size f = of_nat (length data)" by (simp_all add: f_def BlobFileMeta_new_def)
  have wf: "w_files w' (fm_number f) = Some data" "BlobFileReader_Open lib pre (read_only data) (fm_size f) = Some (Inr rd)" "length ?bts = length ?its"
    using kr(4) k(2,3) f by (simp_all add: kernel_answers_def)
  have all: "case ?its ! t of (r, i, h) \<Rightarrow>
       let cb = snd (?bts ! t); new = cb_new_blob_index cb; origin = cb_blob_index cb in
       fst (?bts ! t) = snd (WriteBatch_PutBlobIndex [] (gj_cf j) (rec_key r) (BlobIndex_EncodeTo [] new)) \<and> cb_key cb = rec_key r \<and>
       bi_file_number new = fm_number f \<and> Titan_BlobFile.ReadRecord lib (bi_handle new) rd = Some (Inr (r, BlobRecord_EncodeTo [] r), rd) \<and>
       bi_file_number origin = ?ns ! i \<and> bh_offset (bi_handle origin) = bh_offset h \<and> bh_size (bi_handle origin) = bh_size h"
    if t: "t < length ?its" for t
    using hardware_batch_refers [OF k(3) size(2) len t, of n "gj_cf j"] unfolding Let_def f(1) .
  show ?thesis
    by (intro exI conjI, rule dr, rule kr(2), rule f(2), rule wf(1), rule wf(2), rule kr(3), rule wf(3)) (use all in blast)
qed

definition demo_hw_meta :: BlobFileMeta where
  "demo_hw_meta = (BlobFileMeta_new 1 100 2 0 [1] [3])\<lparr>fm_state := BeingGC, fm_invalid := Some (ki_bitmap demo_input)\<rparr>"

definition demo_hw_world :: World where
  "demo_hw_world = \<lparr>w_db = demo_db demo_hw_meta True, w_files = [1 \<mapsto> ki_file demo_lib demo_input], w_readers = Map.empty,
     w_prefix = (\<lambda>_. []), w_cache = None, w_base = Map.empty, w_writes = [], w_base_io = [], w_new_files = [], w_dir_io = [],
     w_pending = [], w_mutex = False, w_bg_error = OK, w_shutdown = [], w_dropped = []\<rparr>"

definition demo_hw_job :: GCJob where
  "demo_hw_job = GCJob_new \<lparr>gc_inputs = [1], gc_outputs = [], gc_options = demo_options, gc_trigger_next = False\<rparr>
     demo_builder_options 0 (\<lambda>_. 100) True"

lemma demo_hw_input: "hardware_input demo_lib demo_hw_world (demo_storage demo_hw_meta) 1 demo_input"
  by (simp add: hardware_input_def demo_hw_world_def demo_storage_def demo_hw_meta_def BlobFileMeta_new_def FindFile_def demo_input_def
      is_obsolete_def CopyInvalidEntryIndexesTo_def CopyTo_def BitMap_default_def Let_def)

theorem hardware_gc_collects_witness:
  "\<exists>j' w' wb cb data sz rd.
     DoRunGCOnHardware demo_lib (kernel_driver (\<lambda>_. 0) (\<lambda>_. 7) (\<lambda>_. 1) True) demo_hw_job demo_hw_world = Some (OK, j', w') \<and>
     gj_batches j' = [(wb, cb)] \<and> w_files w' (bi_file_number (cb_new_blob_index cb)) = Some data \<and>
     BlobFileReader_Open demo_lib [] (read_only data) sz = Some (Inr rd) \<and>
     Titan_BlobFile.ReadRecord demo_lib (bi_handle (cb_new_blob_index cb)) rd =
       Some (Inr (\<lparr>rec_key = [3], rec_value = [4, 5]\<rparr>, BlobRecord_EncodeTo [] \<lparr>rec_key = [3], rec_value = [4, 5]\<rparr>), rd)"
proof -
  obtain h where x: "all_live demo_lib [demo_input] = [(\<lparr>rec_key = [3], rec_value = [4, 5]\<rparr>, 0, h)]" by (rule demo_all_live)
  have l: "length (out_file demo_lib (all_live demo_lib [demo_input])) \<le> 34"
    using demo_record_length [of demo_lib 3 "[4, 5]"] demo_header_length by (simp add: x out_file_def lay_def)
  have big: "2 ^ 20 \<le> input_buffer_size n" for n by (simp add: input_buffer_size_def)
  have "length (concat (map key_bytes (out_keys demo_lib (all_live demo_lib [demo_input])))) \<le> 5 + 1 + 16"
    using length_EncodeVarint32_max [of 1] by (simp add: x out_keys_def key_entry_def key_bytes_def)
  then have room: "kernel_room demo_lib [demo_input]"
    using l big [of "length (ki_file demo_lib demo_input)"] big [of "length (ki_recs demo_input) * OUTPUT_KEY_SIZE"]
    by (simp add: kernel_room_def)
  have j: "gc_inputs (gj_gc demo_hw_job) = [1]" "gj_cf demo_hw_job = 0" "gj_batches demo_hw_job = []"
    by (simp_all add: demo_hw_job_def GCJob_new_def)
  have w: "\<not> w_mutex demo_hw_world" "w_storage demo_hw_world 0 = Some (demo_storage demo_hw_meta)"
    by (simp_all add: demo_hw_world_def w_storage_def demo_db_def db_storage_def GetBlobStorage_def demo_fileset_def)
  have hyps: "list_all (ki_ok demo_lib) [demo_input]" "length (out_file demo_lib (all_live demo_lib [demo_input])) < 2 ^ 32"
    "length [demo_input] < 2 ^ 32" "[demo_input] \<noteq> []" "w_storage demo_hw_world (gj_cf demo_hw_job) = Some (demo_storage demo_hw_meta)"
    "list_all2 (hardware_input demo_lib demo_hw_world (demo_storage demo_hw_meta)) (gc_inputs (gj_gc demo_hw_job)) [demo_input]"
    using demo_input_ok l w demo_hw_input by (simp_all add: j)
  let ?hw = "kernel_driver (\<lambda>_. 0) (\<lambda>_. 7) (\<lambda>_. 1) True" and ?r = "\<lparr>rec_key = [3], rec_value = [4, 5]\<rparr> :: BlobRecord"
  note c = hardware_gc_collects [OF demo_lib_sound hyps(1) room hyps(2-4) w(1) hyps(5,6), of "\<lambda>_. 0" "\<lambda>_. 7" "\<lambda>_. 1" "[]"]
  show ?thesis
    using c unfolding x j Let_def
    apply (elim exE conjE)
    subgoal premises p for j' w' bts f data rd
    proof -
      obtain wb cb where b: "bts = [(wb, cb)]" using p(7) by (auto simp: length_Suc_conv)
      have q: "gj_batches j' = [(wb, cb)]" "w_files w' (bi_file_number (cb_new_blob_index cb)) = Some data"
        "Titan_BlobFile.ReadRecord demo_lib (bi_handle (cb_new_blob_index cb)) rd = Some (Inr (?r, BlobRecord_EncodeTo [] ?r), rd)"
        using p(4,6) spec [OF p(8), of 0] by (simp_all add: b)
      show ?thesis by (intro exI conjI) (rule p(1), rule q(1), rule q(2), rule p(5), rule q(3))
    qed
    done
qed

end
