(* ===== verification/Titan_GCErrors.thy ===== *)
theory Titan_GCErrors
  imports Titan_GCJob
begin

text \<open>
  Error paths of \<open>BlobGCJob::BuildIterator\<close> with the bitmap (\<open>blob_gc_job.cc\<close>): a file that cannot be
  opened, and a return between locking and unlocking the mutex.
\<close>

lemma open_inputs_prefix:
  assumes "\<And>x. x \<in> set ns \<Longrightarrow> \<exists>f. NewBlobFileReader x w = Inr f" "NewBlobFileReader n w = Inl s"
  shows "\<exists>its. open_inputs j (ns @ n # ms) w = (s, its) \<and> map it_file_number its = ns"
  using assms by (induction ns) (fastforce simp: BlobFileIterator_new_def Let_def)+

lemma set_bitmaps_numbers:
  assumes "\<And>x. x \<in> it_file_number ` set its \<Longrightarrow> \<exists>bm. copy_bitmap bs x = Some (Inr bm)"
  shows "\<exists>its'. set_bitmaps bs its = Some (Inr its') \<and> map it_file_number its' = map it_file_number its"
  using assms by (induction its) (fastforce simp: SetBitMap_def)+

lemma fold_delete_files:
  "ve_deleted (fold (\<lambda>n. VersionEdit_DeleteBlobFile n q) ns e) = ve_deleted e @ map (\<lambda>n. (n, q)) ns"
  by (induction ns arbitrary: e) (simp_all add: VersionEdit_DeleteBlobFile_def)


definition demo_error_meta :: "u64 \<Rightarrow> BlobFileMeta" where
  "demo_error_meta n = (BlobFileMeta_new n 100 2 0 [1] [3])\<lparr>fm_state := BeingGC\<rparr>"

definition demo_error_storage :: BlobStorage where
  "demo_error_storage = (demo_storage (demo_error_meta 1))\<lparr>bs_files := [(1, demo_error_meta 1), (2, demo_error_meta 2)]\<rparr>"

definition demo_error_world :: World where
  "demo_error_world = \<lparr>w_db = (demo_db (demo_error_meta 1) True)\<lparr>tb_fileset := (demo_fileset [])\<lparr>fs_columns := [(0, demo_error_storage)]\<rparr>\<rparr>,
     w_files = [1 \<mapsto> []], w_readers = Map.empty, w_prefix = (\<lambda>_. []), w_cache = None, w_base = Map.empty, w_writes = [], w_base_io = [],
     w_new_files = [], w_dir_io = [], w_pending = [], w_mutex = False, w_bg_error = OK, w_shutdown = [], w_dropped = []\<rparr>"

definition demo_error_job :: GCJob where
  "demo_error_job = GCJob_new \<lparr>gc_inputs = [1, 2], gc_outputs = [], gc_options = demo_options, gc_trigger_next = False\<rparr>
     (demo_builder_options\<lparr>co_use_bitmap := True\<rparr>) 0 (\<lambda>_. 100) False"


text \<open>A return of \<open>BuildIterator\<close> after locking leaves the mutex locked, and the background thread waits for it forever.\<close>

lemma early_return_keeps_mutex:
  assumes "gj_use_bitmap j" "\<not> gj_offload j" "gc_inputs (gj_gc j) \<noteq> []" "w_storage w (gj_cf j) = None"
  shows "BackgroundGC_run lib hw j w = None"
  using assms
  by (simp add: BackgroundGC_run_def GCJob_Run_def DoRunGC_def BuildIterator_def mutex_Lock_def mutex_Unlock_def w_storage_def case_prod_unfold Let_def)

end
