(* ===== verification/Titan_TableBuilder.thy ===== *)
theory Titan_TableBuilder
  imports Titan_GCSafe Titan_WriteBack
begin

text \<open>
  The table builder of flushes and compactions (\<open>table_builder.cc\<close>, \<open>table_builder.h\<close>): values that
  are large enough go to blob files, the table of the base database gets their index.  Statistics and log
  messages are not modelled.  A null pointer has the value \<open>None\<close>.
\<close>

section \<open>Model\<close>

text \<open>
  The builder of the base database: the entries of the table, and the outcomes of the coming
  additions and of its end, an empty list stands for success.
\<close>

record BaseBuilder =
  ba_entries :: "(bytes \<times> bytes) list"
  ba_status :: status
  ba_io :: "status list"
  ba_closed :: bool

definition base_Add :: "bytes \<Rightarrow> bytes \<Rightarrow> BaseBuilder \<Rightarrow> BaseBuilder" where
  "base_Add key v b =
     (if ba_status b \<noteq> OK then b
      else
        (case ba_io b of
           [] \<Rightarrow> b\<lparr>ba_entries := ba_entries b @ [(key, v)]\<rparr>
         | s # ss \<Rightarrow> b\<lparr>ba_io := ss, ba_status := s, ba_entries := (if s = OK then ba_entries b @ [(key, v)] else ba_entries b)\<rparr>))"

text \<open>\<open>tt_handle\<close> is the number of \<open>blob_handle_\<close>, its file is that of the blob file builder.\<close>

record TableBuilder =
  tt_status :: status
  tt_cf :: u32
  tt_opts :: BuilderOptions
  tt_base :: BaseBuilder
  tt_handle :: "u64 option"
  tt_builder :: "BlobFileBuilder option"
  tt_finished :: "finished list"
  tt_prefetchers :: "u64 \<rightharpoonup> BlobFilePrefetcher"
  tt_target_level :: int
  tt_merge_level :: int
  tt_bytes_read :: u64
  tt_bytes_written :: u64
  tt_relocated :: u64
  tt_error_reads :: u64

definition TableBuilder_new :: "u32 \<Rightarrow> BuilderOptions \<Rightarrow> BaseBuilder \<Rightarrow> int \<Rightarrow> int \<Rightarrow> TableBuilder" where
  "TableBuilder_new cf opts base merge_level target_level =
     \<lparr>tt_status = OK, tt_cf = cf, tt_opts = opts, tt_base = base, tt_handle = None, tt_builder = None, tt_finished = [],
      tt_prefetchers = Map.empty, tt_target_level = target_level, tt_merge_level = merge_level, tt_bytes_read = 0, tt_bytes_written = 0,
      tt_relocated = 0, tt_error_reads = 0\<rparr>"

definition table_status :: "TableBuilder \<Rightarrow> status" where
  "table_status t =
     (let s = tt_status t;
          s = (if s = OK then ba_status (tt_base t) else s)
      in case tt_builder t of Some b \<Rightarrow> if s = OK then bb_status b else s | None \<Rightarrow> s)"

definition builder_unbuffered :: "TableBuilder \<Rightarrow> bool" where
  "builder_unbuffered t = (case tt_builder t of None \<Rightarrow> True | Some b \<Rightarrow> \<not> bb_buffered b)"

type_synonym parsed_key = "bytes \<times> u64 \<times> byte"

definition append_key :: "parsed_key \<Rightarrow> bytes" where
  "append_key ikey = (case ikey of (user_key, seq, type) \<Rightarrow> InternalKey user_key seq type)"

definition NewCachedRecordContext :: "parsed_key \<Rightarrow> bytes \<Rightarrow> BlobRecordContext" where
  "NewCachedRecordContext ikey v =
     \<lparr>rc_key = append_key ikey, rc_original_blob_index = BlobIndex_zero, rc_new_blob_index = BlobIndex_zero, rc_has_value = True, rc_value = v\<rparr>"

definition to_base :: "bytes \<Rightarrow> bytes \<Rightarrow> TableBuilder \<Rightarrow> TableBuilder" where
  "to_base key v t = t\<lparr>tt_base := base_Add key v (tt_base t)\<rparr>"

definition AddBase :: "bytes \<Rightarrow> parsed_key \<Rightarrow> bytes \<Rightarrow> TableBuilder \<Rightarrow> TableBuilder" where
  "AddBase key parsedKey v t =
     (if builder_unbuffered t then to_base key v t
      else t\<lparr>tt_builder := map_option (AddSmall (NewCachedRecordContext parsedKey v)) (tt_builder t)\<rparr>)"

text \<open>\<open>None\<close>: a type of the key outside of \<open>ValueType\<close>.\<close>

fun AddBlobResultsToBase :: "BlobRecordContext list \<Rightarrow> TableBuilder \<Rightarrow> TableBuilder option" where
  "AddBlobResultsToBase [] t = Some t"
| "AddBlobResultsToBase (ctx # contexts) t =
     (case ParseInternalKey (rc_key ctx) of
        None \<Rightarrow> None
      | Some (Inl s) \<Rightarrow> Some (t\<lparr>tt_status := s\<rparr>)
      | Some (Inr (user_key, seq, _)) \<Rightarrow>
          (let t = t\<lparr>tt_status := OK\<rparr> in
           AddBlobResultsToBase contexts
             (if rc_has_value ctx then to_base (rc_key ctx) (rc_value ctx) t
              else to_base (append_key (user_key, seq, kTypeBlobIndex)) (BlobIndex_EncodeTo [] (rc_new_blob_index ctx))
                     (t\<lparr>tt_bytes_written := tt_bytes_written t + bh_size (bi_handle (rc_new_blob_index ctx))\<rparr>))))"

definition FinishBlobFile :: "BlobLib \<Rightarrow> TableBuilder \<Rightarrow> World \<Rightarrow> (TableBuilder \<times> World) option" where
  "FinishBlobFile lib t w =
     (case tt_builder t of
        None \<Rightarrow> Some (t, w)
      | Some b \<Rightarrow>
          (case Builder_Finish lib b of
             None \<Rightarrow> None
           | Some ((s, b), contexts) \<Rightarrow>
               (case AddBlobResultsToBase contexts (t\<lparr>tt_builder := Some b\<rparr>) of
                  None \<Rightarrow> None
                | Some t \<Rightarrow>
                    (case tt_handle t of
                       None \<Rightarrow> None
                     | Some n \<Rightarrow>
                         if s = OK \<and> table_status t = OK then
                           map_option (\<lambda>f. (t\<lparr>tt_finished := tt_finished t @ [(f, n, bb_file b)], tt_handle := None, tt_builder := None,
                                             tt_relocated := 0\<rparr>, w))
                             (FileStateTransit FlushOrCompactionOutput
                               (BlobFileMeta_new n (GetFileSize (bb_file b)) (bb_entries b) (of_int (tt_target_level t)) (bb_smallest b) (bb_largest b)))
                         else map_option (\<lambda>(s, w). (t\<lparr>tt_status := s, tt_handle := None\<rparr>, w)) (BatchDeleteFiles [n] w)))))"

definition blob_context :: "u64 \<Rightarrow> parsed_key \<Rightarrow> BlobRecordContext" where
  "blob_context n ikey =
     \<lparr>rc_key = append_key ikey, rc_original_blob_index = BlobIndex_zero, rc_new_blob_index = BlobIndex_zero\<lparr>bi_file_number := n\<rparr>,
      rc_has_value = False, rc_value = []\<rparr>"

text \<open>The first part of \<open>AddBlob\<close>: the file the value goes to.\<close>

definition ensure_blob_file :: "BlobLib \<Rightarrow> TableBuilder \<Rightarrow> World \<Rightarrow> (TableBuilder \<times> World) option" where
  "ensure_blob_file lib t w =
     (case tt_builder t of
        Some b \<Rightarrow> Some (t, w)
      | None \<Rightarrow>
          (case NewFile w of
             None \<Rightarrow> None
           | Some (Inl s, w) \<Rightarrow> Some (t\<lparr>tt_status := s\<rparr>, w)
           | Some (Inr (n, file), w) \<Rightarrow>
               map_option (\<lambda>b. (t\<lparr>tt_status := OK, tt_handle := Some n, tt_builder := Some b\<rparr>, w))
                 (BlobFileBuilder_new lib (tt_opts t) file kVersion2)))"

definition AddBlob :: "BlobLib \<Rightarrow> parsed_key \<Rightarrow> bytes \<Rightarrow> TableBuilder \<Rightarrow> World \<Rightarrow> (TableBuilder \<times> World) option" where
  "AddBlob lib ikey v t w =
     (if table_status t \<noteq> OK then Some (t, w)
      else
        (let created = (tt_builder t = None) in
         case ensure_blob_file lib t w of
           None \<Rightarrow> None
         | Some (t, w) \<Rightarrow>
             if created \<and> tt_status t \<noteq> OK then Some (t, w)
             else
               (case (tt_handle t, tt_builder t) of
                  (Some n, Some b) \<Rightarrow>
                    (let t = t\<lparr>tt_bytes_written := tt_bytes_written t + of_nat (length (fst ikey) + length v)\<rparr> in
                     case Builder_Add lib \<lparr>rec_key = fst ikey, rec_value = v\<rparr> (blob_context n ikey) b of
                       None \<Rightarrow> None
                     | Some (b, contexts) \<Rightarrow>
                         (let t = t\<lparr>tt_builder := Some b\<rparr> in
                          case (if GetFileSize (bb_file b) \<ge> co_target_size (tt_opts t) then FinishBlobFile lib t w else Some (t, w)) of
                            None \<Rightarrow> None
                          | Some (t, w) \<Rightarrow> map_option (\<lambda>t. (t, w)) (AddBlobResultsToBase contexts t)))
                | _ \<Rightarrow> None)))"

definition ShouldMerge :: "BlobFileMeta option \<Rightarrow> TableBuilder \<Rightarrow> bool" where
  "ShouldMerge file t =
     (case file of None \<Rightarrow> False | Some f \<Rightarrow> sint (fm_level f) < tt_target_level t \<or> fm_state f = ToMerge)"

definition Table_GetBlobRecord :: "BlobLib \<Rightarrow> BlobIndex \<Rightarrow> TableBuilder \<Rightarrow> World \<Rightarrow> ((status + BlobRecord) \<times> TableBuilder \<times> World) option" where
  "Table_GetBlobRecord lib index t w =
     (let n = bi_file_number index in
      case (case tt_prefetchers t n of
              Some pf \<Rightarrow> Some (Inr pf, w)
            | None \<Rightarrow> (case w_storage w (tt_cf t) of None \<Rightarrow> None | Some bs \<Rightarrow> Storage_NewPrefetcher lib bs n w)) of
        None \<Rightarrow> None
      | Some (Inl s, w) \<Rightarrow> Some (Inl s, t, w)
      | Some (Inr pf, w) \<Rightarrow>
          map_option (\<lambda>(r, pf, cache). (r, t\<lparr>tt_prefetchers := (tt_prefetchers t)(n \<mapsto> pf)\<rparr>, w\<lparr>w_cache := cache\<rparr>))
            (Prefetcher_Get lib (bi_handle index) pf (w_cache w)))"

definition Table_Add :: "BlobLib \<Rightarrow> bytes \<Rightarrow> bytes \<Rightarrow> TableBuilder \<Rightarrow> World \<Rightarrow> (TableBuilder \<times> World) option" where
  "Table_Add lib key v t w =
     (if table_status t \<noteq> OK then Some (t, w)
      else
        (case ParseInternalKey key of
           None \<Rightarrow> None
         | Some (Inl s) \<Rightarrow> Some (t\<lparr>tt_status := s\<rparr>, w)
         | Some (Inr (user_key, seq, type)) \<Rightarrow>
             (let t = t\<lparr>tt_status := OK\<rparr>; ikey = (user_key, seq, type); mode = co_blob_run_mode (tt_opts t) in
              if type = kTypeBlobIndex \<and> mode = kFallback then
                (case BlobIndex_DecodeFrom BlobIndex_zero v of
                   Inl s \<Rightarrow> Some (t\<lparr>tt_status := s\<rparr>, w)
                 | Inr (index, _) \<Rightarrow>
                     (case Table_GetBlobRecord lib index t w of
                        None \<Rightarrow> None
                      | Some (r, t, w) \<Rightarrow>
                          if tt_builder t \<noteq> None then None
                          else
                            (case r of
                               Inr record \<Rightarrow>
                                 Some ((to_base (append_key (user_key, seq, kTypeValue)) (rec_value record) t)
                                   \<lparr>tt_bytes_read := tt_bytes_read t + of_nat (length (rec_key record) + length (rec_value record))\<rparr>, w)
                             | Inl _ \<Rightarrow> Some (to_base key v t, w))))
              else if type = kTypeValue \<and> mode = kNormal then
                (if of_nat (length v) < co_min_blob_size (tt_opts t) then Some (AddBase key ikey v t, w)
                 else AddBlob lib ikey v t w)
              else if type = kTypeBlobIndex \<and> co_level_merge (tt_opts t) \<and> tt_target_level t \<ge> tt_merge_level t \<and> mode = kNormal then
                (case BlobIndex_DecodeFrom BlobIndex_zero v of
                   Inl s \<Rightarrow> Some (t\<lparr>tt_status := s\<rparr>, w)
                 | Inr (index, _) \<Rightarrow>
                     (case w_storage w (tt_cf t) of
                        None \<Rightarrow> None
                      | Some bs \<Rightarrow>
                          if \<not> ShouldMerge (FindFile bs (bi_file_number index)) t then Some (AddBase key ikey v t, w)
                          else
                            (case Table_GetBlobRecord lib index t w of
                               None \<Rightarrow> None
                             | Some (Inl _, t, w) \<Rightarrow> Some (AddBase key ikey v (t\<lparr>tt_error_reads := tt_error_reads t + 1\<rparr>), w)
                             | Some (Inr record, t, w) \<Rightarrow>
                                 map_option (\<lambda>(t, w). (if table_status t = OK then t else AddBase key ikey v t, w))
                                   (AddBlob lib ikey (rec_value record) (t\<lparr>tt_relocated := tt_relocated t + 1\<rparr>) w))))
              else Some (AddBase key ikey v t, w))))"

definition base_Finish :: "BaseBuilder \<Rightarrow> BaseBuilder" where
  "base_Finish b =
     (case (if ba_status b = OK then ba_io b else []) of
        [] \<Rightarrow> b\<lparr>ba_closed := True\<rparr>
      | s # ss \<Rightarrow> b\<lparr>ba_io := ss, ba_status := s, ba_closed := True\<rparr>)"

definition base_Abandon :: "BaseBuilder \<Rightarrow> BaseBuilder" where
  "base_Abandon b = b\<lparr>ba_closed := True\<rparr>"

definition Table_Finish :: "BlobLib \<Rightarrow> TableBuilder \<Rightarrow> World \<Rightarrow> (status \<times> TableBuilder \<times> World) option" where
  "Table_Finish lib t w =
     (case FinishBlobFile lib t w of
        None \<Rightarrow> None
      | Some (t, w) \<Rightarrow>
          (let t = t\<lparr>tt_base := base_Finish (tt_base t)\<rparr> in
           map_option (\<lambda>(s, w). (let t = t\<lparr>tt_status := s\<rparr> in (table_status t, t, w))) (BatchFinishFiles (tt_cf t) (tt_finished t) w)))"

definition Table_Abandon :: "TableBuilder \<Rightarrow> World \<Rightarrow> (TableBuilder \<times> World) option" where
  "Table_Abandon t w =
     (let t = t\<lparr>tt_base := base_Abandon (tt_base t)\<rparr> in
      case tt_builder t of
        None \<Rightarrow> Some (t, w)
      | Some b \<Rightarrow>
          (case tt_handle t of
             None \<Rightarrow> None
           | Some n \<Rightarrow> map_option (\<lambda>(s, w). (t\<lparr>tt_status := s, tt_handle := None\<rparr>, w)) (BatchDeleteFiles [n] w)))"

definition Table_NumEntries :: "TableBuilder \<Rightarrow> u64" where
  "Table_NumEntries t =
     (case tt_builder t of
        Some b \<Rightarrow> if bb_buffered b then bb_entries b + of_nat (length (bb_samples b)) else of_nat (length (ba_entries (tt_base t)))
      | None \<Rightarrow> of_nat (length (ba_entries (tt_base t))))"

text \<open>A blob file that could not be finished leaves a builder without a handle, and abandoning the table then uses the handle.\<close>

lemma abandon_after_failed_finish:
  assumes "FinishBlobFile lib t w = Some (t', w')" "tt_builder t' \<noteq> None"
  shows "Table_Abandon t' w'' = None" "FinishBlobFile lib t' w'' = None"
proof -
  have "tt_handle t' = None"
    using assms by (auto simp: FinishBlobFile_def split: option.splits prod.splits if_splits)
  moreover have "tt_handle u' = tt_handle u" if "AddBlobResultsToBase cs u = Some u'" for cs u u'
    using that by (induction cs u rule: AddBlobResultsToBase.induct) (auto simp: to_base_def Let_def split: option.splits sum.splits if_splits)
  ultimately show "Table_Abandon t' w'' = None" "FinishBlobFile lib t' w'' = None"
    using assms(2) by (fastforce simp: Table_Abandon_def FinishBlobFile_def Let_def split: option.splits prod.splits)+
qed

section \<open>Separating values\<close>

text \<open>An entry a user has written: its key, sequence number and value.\<close>

type_synonym user_entry = "bytes \<times> u64 \<times> bytes"

fun table_add_all :: "BlobLib \<Rightarrow> user_entry list \<Rightarrow> TableBuilder \<Rightarrow> World \<Rightarrow> (TableBuilder \<times> World) option" where
  "table_add_all lib [] t w = Some (t, w)"
| "table_add_all lib ((k, seq, v) # xs) t w =
     (case Table_Add lib (InternalKey k seq kTypeValue) v t w of
        None \<Rightarrow> None
      | Some (t, w) \<Rightarrow> table_add_all lib xs t w)"

definition rec_of :: "user_entry \<Rightarrow> BlobRecord" where
  "rec_of x = \<lparr>rec_key = fst x, rec_value = snd (snd x)\<rparr>"

definition entry_ok :: "BlobLib \<Rightarrow> BuilderOptions \<Rightarrow> user_entry \<Rightarrow> bool" where
  "entry_ok lib opts x \<longleftrightarrow> fst (snd x) < 2 ^ 56 \<and> BlobRecord_fits (rec_of x) \<and>
     length (enc_record (EncodeRecord (lib_compression lib []) (co_compression opts) (rec_of x))) < 2 ^ 32"

text \<open>A blob file of a table, without a dictionary.\<close>

definition table_file :: "BuilderOptions \<Rightarrow> u64 \<times> user_entry list \<Rightarrow> merge_file" where
  "table_file opts c = ((co_compression opts, None, built_header opts kVersion2), map rec_of (snd c), fst c)"

text \<open>What the table has for an entry: the value, or the index of its record in one of the files.\<close>

definition separated :: "BlobLib \<Rightarrow> BuilderOptions \<Rightarrow> (u64 \<times> user_entry list) list \<Rightarrow> user_entry \<Rightarrow> bytes \<times> bytes \<Rightarrow> bool" where
  "separated lib opts cs x e = (case x of (k, seq, v) \<Rightarrow>
     if of_nat (length v) < co_min_blob_size opts then e = (InternalKey k seq kTypeValue, v)
     else \<exists>c \<in> set cs. \<exists>i < length (snd c).
       e = (InternalKey k seq kTypeBlobIndex, BlobIndex_EncodeTo [] (file_index lib (table_file opts c) i)) \<and> rec_of (snd c ! i) = rec_of x)"

definition grown :: "BlobLib \<Rightarrow> BuilderOptions \<Rightarrow> (u64 \<times> user_entry list) list \<Rightarrow> (u64 \<times> user_entry list) list \<Rightarrow> bool" where
  "grown lib opts cs cs' \<longleftrightarrow> (\<forall>c \<in> set cs. \<exists>c' \<in> set cs'. fst c' = fst c \<and> (\<exists>ys. snd c' = snd c @ ys))"

lemma grown_trans:
  assumes "grown lib opts a b" "grown lib opts b c"
  shows "grown lib opts a c"
  unfolding grown_def
proof
  fix x assume "x \<in> set a"
  then obtain y ys where y: "y \<in> set b" "fst y = fst x" "snd y = snd x @ ys" using assms(1) by (auto simp: grown_def)
  then obtain z zs where "z \<in> set c" "fst z = fst y" "snd z = snd y @ zs" using assms(2) unfolding grown_def by blast
  then show "\<exists>z \<in> set c. fst z = fst x \<and> (\<exists>ys. snd z = snd x @ ys)" using y by auto
qed

lemma file_index_append:
  "i < length (snd c) \<Longrightarrow> fst c' = fst c \<Longrightarrow> snd c' = snd c @ ys \<Longrightarrow> file_index lib (table_file opts c') i = file_index lib (table_file opts c) i"
  by (simp add: file_index_def table_file_def file_es_def nth_handle_append)

lemma separated_grown:
  assumes "separated lib opts cs x e" "grown lib opts cs cs'"
  shows "separated lib opts cs' x e"
proof -
  obtain k seq v where x: "x = (k, seq, v)" by (cases x)
  show ?thesis
  proof (cases "of_nat (length v) < co_min_blob_size opts")
    case True
    then show ?thesis using assms(1) by (simp add: separated_def x)
  next
    case False
    then obtain c i where c: "c \<in> set cs" "i < length (snd c)" "rec_of (snd c ! i) = rec_of x"
      "e = (InternalKey k seq kTypeBlobIndex, BlobIndex_EncodeTo [] (file_index lib (table_file opts c) i))"
      using assms(1) by (auto simp: separated_def x)
    obtain c' ys where c': "c' \<in> set cs'" "fst c' = fst c" "snd c' = snd c @ ys" using assms(2) c(1) by (auto simp: grown_def)
    have "i < length (snd c')" "rec_of (snd c' ! i) = rec_of x" using c(2,3) c'(3) by (simp_all add: nth_append)
    then show ?thesis using False c' c(4) file_index_append [OF c(2) c'(2,3), of lib opts]
      by (auto simp: separated_def x intro!: bexI [of _ c'] exI [of _ i])
  qed
qed

text \<open>A finished file, and the builder while \<open>m\<close> entries have been added: \<open>cs\<close> are the finished files, \<open>cur\<close> is the open one.\<close>

definition table_finished :: "BlobLib \<Rightarrow> BuilderOptions \<Rightarrow> int \<Rightarrow> u64 \<times> user_entry list \<Rightarrow> finished \<Rightarrow> bool" where
  "table_finished lib opts lvl c x \<longleftrightarrow> (case x of (m, n, file) \<Rightarrow>
     n = fst c \<and> fm_number m = n \<and> wf_io file = [] \<and> wf_data file = file_data lib (table_file opts c) \<and>
     fm_size m = of_nat (length (wf_data file)) \<and> fm_level m = of_int lvl \<and> \<not> is_obsolete m \<and> file_good lib (table_file opts c))"

definition table_ctx :: "u64 \<Rightarrow> user_entry \<Rightarrow> BlobRecordContext" where
  "table_ctx n x = blob_context n (fst x, fst (snd x), kTypeValue)"

definition table_open :: "BlobLib \<Rightarrow> BuilderOptions \<Rightarrow> nat \<Rightarrow> (u64 \<times> user_entry list) option \<Rightarrow> TableBuilder \<Rightarrow> bool" where
  "table_open lib opts m cur t \<longleftrightarrow> (case cur of
     None \<Rightarrow> tt_builder t = None
   | Some (n, ys) \<Rightarrow> tt_handle t = Some n \<and> list_all (entry_ok lib opts) ys \<and> length ys \<le> m \<and>
       (\<exists>b outs. tt_builder t = Some b \<and> bb_opts b = opts \<and>
          building lib (built_header opts kVersion2) (map rec_of ys) (map (table_ctx n) ys) outs b))"

definition cur_files :: "(u64 \<times> user_entry list) list \<Rightarrow> (u64 \<times> user_entry list) option \<Rightarrow> (u64 \<times> user_entry list) list" where
  "cur_files cs cur = cs @ (case cur of None \<Rightarrow> [] | Some c \<Rightarrow> [c])"

definition tabling :: "BlobLib \<Rightarrow> TableBuilder \<Rightarrow> World \<Rightarrow> nat \<Rightarrow> (u64 \<times> user_entry list) list \<Rightarrow> (u64 \<times> user_entry list) option \<Rightarrow>
    TableBuilder \<Rightarrow> World \<Rightarrow> bool" where
  "tabling lib t0 w0 m cs cur t w \<longleftrightarrow>
     tt_opts t = tt_opts t0 \<and> tt_cf t = tt_cf t0 \<and> tt_target_level t = tt_target_level t0 \<and>
     tt_status t = OK \<and> ba_status (tt_base t) = OK \<and> ba_io (tt_base t) = [] \<and>
     list_all2 (table_finished lib (tt_opts t0) (tt_target_level t0)) cs (tt_finished t) \<and> table_open lib (tt_opts t0) m cur t \<and>
     map fst (cur_files cs cur) = map (\<lambda>i. fs_next_file_number (w_fileset w0) + of_nat i) [0..<length (cur_files cs cur)] \<and>
     fs_next_file_number (w_fileset w) = fs_next_file_number (w_fileset w0) + of_nat (length (cur_files cs cur)) \<and>
     length (cur_files cs cur) \<le> m \<and> steady w0 w \<and> \<not> w_mutex w \<and> w_new_files w = [] \<and>
     w_dir_io w = w_dir_io w0 \<and> fs_io (w_fileset w) = fs_io (w_fileset w0)"

lemma NewFile_ok:
  assumes "\<not> w_mutex w" "w_new_files w = []"
  obtains w' where "NewFile w = Some (Inr (fs_next_file_number (w_fileset w), \<lparr>wf_data = [], wf_io = []\<rparr>), w')" "steady w w'" "\<not> w_mutex w'"
    "w_new_files w' = []" "fs_next_file_number (w_fileset w') = fs_next_file_number (w_fileset w) + 1"
    "w_dir_io w' = w_dir_io w" "fs_io (w_fileset w') = fs_io (w_fileset w)"
proof -
  let ?n = "fs_next_file_number (w_fileset w)"
  let ?w1 = "set_fileset ((w_fileset w)\<lparr>fs_next_file_number := ?n + 1\<rparr>) w"
  let ?w2 = "mutex_Unlock (?w1\<lparr>w_mutex := True, w_pending := List.insert ?n (w_pending ?w1)\<rparr>)"
  have "NewFile w = Some (Inr (?n, \<lparr>wf_data = [], wf_io = []\<rparr>), ?w2)"
    using assms by (simp add: NewFile_def NewFileNumber_def mutex_Lock_def set_fileset_def)
  moreover have "steady w ?w2" using assms by (simp add: steady_def mutex_Unlock_def set_fileset_def w_fileset_def)
  ultimately show thesis using that assms by (simp add: mutex_Unlock_def set_fileset_def w_fileset_def)
qed

text \<open>Without a dictionary a builder is never buffered, and gives back the context of each record at once.\<close>

lemma building_plain:
  assumes "building lib hdr recs ctxs outs b" "co_max_dict_bytes (bb_opts b) = 0"
  shows "\<not> bb_buffered b" "outs = handled hdr (file_es lib (co_compression (bb_opts b)) None recs) ctxs" "bb_status b = OK"
    "length ctxs = length recs"
proof -
  have nb: "\<not> bb_buffered b" using assms by (auto simp: building_def)
  then have "bb_dict b = None" using assms by (auto simp: building_def)
  then have e: "encoded lib b recs = file_es lib (co_compression (bb_opts b)) None recs" by (simp add: encoded_def file_es_def dict_of_def)
  show "\<not> bb_buffered b" "outs = handled hdr (file_es lib (co_compression (bb_opts b)) None recs) ctxs" "bb_status b = OK"
    "length ctxs = length recs"
    using nb assms(1) e by (simp_all add: building_def written_def)
qed

lemma Builder_Finish_status: "Builder_Finish lib b = Some ((s, b'), out) \<Longrightarrow> bb_status b' = s"
  by (auto simp: Builder_Finish_def Let_def split: if_splits option.splits prod.splits)

lemma FinishBlobFile_tabling:
  assumes lib: "lib_sound lib" and opts: "buildable lib (tt_opts t0) kVersion2" "co_max_dict_bytes (tt_opts t0) = 0" and m: "m < 2 ^ 31"
    and t: "tabling lib t0 w0 m cs (Some c) t w"
  obtains t' where "FinishBlobFile lib t w = Some (t', w)" "tabling lib t0 w0 m (cs @ [c]) None t' w" "tt_base t' = tt_base t"
proof -
  let ?o = "tt_opts t0" and ?h = "built_header (tt_opts t0) kVersion2"
  obtain n ys where c: "c = (n, ys)" by (cases c)
  obtain b outs where b: "tt_handle t = Some n" "list_all (entry_ok lib ?o) ys" "length ys \<le> m" "tt_builder t = Some b" "bb_opts b = ?o"
    "building lib ?h (map rec_of ys) (map (table_ctx n) ys) outs b"
    using t by (auto simp: tabling_def table_open_def c)
  obtain b' new dict where fin: "Builder_Finish lib b = Some ((OK, b'), new)"
    "wf_data (bb_file b') = blob_file lib dict ?h (file_es lib (co_compression ?o) dict (map rec_of ys))"
    "outs @ new = handled ?h (file_es lib (co_compression ?o) dict (map rec_of ys)) (map (table_ctx n) ys)"
    "dict \<noteq> None \<longleftrightarrow> co_max_dict_bytes ?o > 0" "wf_io (bb_file b') = []"
    by (rule Builder_Finish_building [OF lib b(6), unfolded b(5), folded file_es_def]) (rule that; (assumption | simp))
  have dict: "dict = None" using fin(4) opts(2) by simp
  have new: "new = []" using fin(3) building_plain(2) [OF b(6)] opts(2) by (simp add: dict b(5))
  have st: "bb_status b' = OK" using fin(1) Builder_Finish_status by blast
  have good: "file_good lib (table_file ?o c)"
    unfolding table_file_def c fst_conv snd_conv
    by (rule built_file_good [OF lib opts(1)]) (use b(2,3) m opts(2) in \<open>auto simp: list_all_iff entry_ok_def\<close>)
  let ?m = "(BlobFileMeta_new n (GetFileSize (bb_file b')) (bb_entries b') (of_int (tt_target_level t)) (bb_smallest b') (bb_largest b'))\<lparr>fm_state := PendingLSM\<rparr>"
  have fs: "FileStateTransit FlushOrCompactionOutput
      (BlobFileMeta_new n (GetFileSize (bb_file b')) (bb_entries b') (of_int (tt_target_level t)) (bb_smallest b') (bb_largest b')) = Some ?m"
    by (simp add: FileStateTransit_def transit_def BlobFileMeta_new_def)
  let ?t = "t\<lparr>tt_builder := None, tt_finished := tt_finished t @ [(?m, n, bb_file b')], tt_handle := None, tt_relocated := 0\<rparr>"
  have "table_status (t\<lparr>tt_builder := Some b'\<rparr>) = OK" using t st by (simp add: tabling_def table_status_def Let_def)
  then have "FinishBlobFile lib t w = Some (?t, w)"
    using b(1,4) fin(1) fs by (simp add: FinishBlobFile_def new)
  moreover have "table_finished lib ?o (tt_target_level t0) c (?m, n, bb_file b')"
    using fin(2,5) good t by (simp add: table_finished_def c file_data_def table_file_def dict GetFileSize_def BlobFileMeta_new_def is_obsolete_def tabling_def)
  then have "tabling lib t0 w0 m (cs @ [c]) None ?t w"
    using t by (simp add: tabling_def table_open_def cur_files_def list_all2_appendI)
  ultimately show thesis using that [of ?t] by simp
qed

lemma ensure_tabling:
  assumes opts: "buildable lib (tt_opts t0) kVersion2" and t: "tabling lib t0 w0 m cs cur t w"
  shows "\<exists>t' w' n ys. ensure_blob_file lib t w = Some (t', w') \<and> tabling lib t0 w0 (m + 1) cs (Some (n, ys)) t' w' \<and> length ys \<le> m \<and>
    grown lib (tt_opts t0) (cur_files cs cur) (cur_files cs (Some (n, ys))) \<and> tt_base t' = tt_base t"
proof (cases cur)
  case (Some c)
  obtain n ys where c: "c = (n, ys)" by (cases c)
  then have "tt_builder t \<noteq> None" using t Some by (auto simp: tabling_def table_open_def)
  then have "ensure_blob_file lib t w = Some (t, w)" by (auto simp: ensure_blob_file_def)
  moreover have "tabling lib t0 w0 (m + 1) cs (Some (n, ys)) t w" "length ys \<le> m"
    using t unfolding Some c by (auto simp: tabling_def table_open_def)
  moreover have "grown lib (tt_opts t0) (cur_files cs cur) (cur_files cs (Some (n, ys)))"
    unfolding Some c grown_def by (metis append_Nil2)
  ultimately show ?thesis by blast
next
  case None
  let ?n = "fs_next_file_number (w_fileset w)"
  have w: "\<not> w_mutex w" "w_new_files w = []" "tt_builder t = None" "tt_opts t = tt_opts t0" "steady w0 w"
    using t None by (simp_all add: tabling_def table_open_def)
  obtain w' where w': "NewFile w = Some (Inr (?n, \<lparr>wf_data = [], wf_io = []\<rparr>), w')" "steady w w'" "\<not> w_mutex w'"
    "w_new_files w' = []" "fs_next_file_number (w_fileset w') = ?n + 1" "w_dir_io w' = w_dir_io w" "fs_io (w_fileset w') = fs_io (w_fileset w)"
    by (rule NewFile_ok [OF w(1,2)])
  obtain b where b: "BlobFileBuilder_new lib (tt_opts t0) \<lparr>wf_data = [], wf_io = []\<rparr> kVersion2 = Some b"
    "building lib (built_header (tt_opts t0) kVersion2) [] [] [] b" "bb_opts b = tt_opts t0"
    by (rule BlobFileBuilder_new_building [OF opts])
  let ?t = "t\<lparr>tt_status := OK, tt_handle := Some ?n, tt_builder := Some b\<rparr>"
  have "ensure_blob_file lib t w = Some (?t, w')" using w w' b(1) by (simp add: ensure_blob_file_def)
  moreover have "tabling lib t0 w0 (m + 1) cs (Some (?n, [])) ?t w'"
    using t w' b(2,3) steady_trans [OF w(5) w'(2)] None by (auto simp: tabling_def table_open_def cur_files_def)
  moreover have "grown lib (tt_opts t0) (cur_files cs cur) (cur_files cs (Some (?n, [])))"
    using None by (auto simp: grown_def cur_files_def)
  ultimately show ?thesis by fastforce
qed

lemma Builder_Add_plain:
  assumes lib: "lib_sound lib" and b: "building lib hdr recs ctxs outs b" "co_max_dict_bytes (bb_opts b) = 0" and c: "\<not> rc_has_value c"
  obtains b' where "Builder_Add lib r c b = Some (b', [set_handle (nth_handle hdr (file_es lib (co_compression (bb_opts b)) None (recs @ [r])) (length recs)) c])"
    "building lib hdr (recs @ [r]) (ctxs @ [c]) (handled hdr (file_es lib (co_compression (bb_opts b)) None (recs @ [r])) (ctxs @ [c])) b'" "bb_opts b' = bb_opts b"
proof -
  let ?t = "co_compression (bb_opts b)"
  obtain b' new where b': "Builder_Add lib r c b = Some (b', new)" "building lib hdr (recs @ [r]) (ctxs @ [c]) (outs @ new) b'" "bb_opts b' = bb_opts b"
    by (rule Builder_Add_building [OF lib b(1) c])
  have o: "outs = handled hdr (file_es lib ?t None recs) ctxs" "length ctxs = length recs" using building_plain [OF b] by simp_all
  have o': "outs @ new = handled hdr (file_es lib ?t None (recs @ [r])) (ctxs @ [c])" using building_plain(2) [OF b'(2)] b(2) b'(3) by simp
  have "length ctxs = length (file_es lib ?t None recs)" using o(2) by (simp add: file_es_def)
  from handled_snoc [OF this] have "new = [set_handle (nth_handle hdr (file_es lib ?t None (recs @ [r])) (length recs)) c]"
    using o o' by (simp add: file_es_def)
  with b' o' show thesis using that by metis
qed

lemma table_open_to_base [simp]: "table_open lib opts m cur (to_base key v (t\<lparr>tt_bytes_written := x\<rparr>)) = table_open lib opts m cur t"
  unfolding table_open_def to_base_def by (cases cur) auto

lemma to_base_tabling:
  assumes "tabling lib t0 w0 m cs cur t w"
  shows "tabling lib t0 w0 m cs cur (to_base key v (t\<lparr>tt_bytes_written := x\<rparr>)) w"
    "ba_entries (tt_base (to_base key v (t\<lparr>tt_bytes_written := x\<rparr>))) = ba_entries (tt_base t) @ [(key, v)]"
proof -
  show "tabling lib t0 w0 m cs cur (to_base key v (t\<lparr>tt_bytes_written := x\<rparr>)) w"
    using assms unfolding tabling_def table_open_to_base by (simp add: to_base_def base_Add_def)
  show "ba_entries (tt_base (to_base key v (t\<lparr>tt_bytes_written := x\<rparr>))) = ba_entries (tt_base t) @ [(key, v)]"
    using assms by (simp add: tabling_def to_base_def base_Add_def)
qed

text \<open>Adding a large value.\<close>

lemma AddBlob_tabling:
  assumes lib: "lib_sound lib" and opts: "buildable lib (tt_opts t0) kVersion2" "co_max_dict_bytes (tt_opts t0) = 0" and m: "m + 1 < 2 ^ 31"
    and t: "tabling lib t0 w0 m cs cur t w" and x: "entry_ok lib (tt_opts t0) (k, seq, v)"
  shows "\<exists>t' w' cs' cur' c i. AddBlob lib (k, seq, kTypeValue) v t w = Some (t', w') \<and> tabling lib t0 w0 (m + 1) cs' cur' t' w' \<and>
    grown lib (tt_opts t0) (cur_files cs cur) (cur_files cs' cur') \<and> c \<in> set (cur_files cs' cur') \<and> i < length (snd c) \<and>
    rec_of (snd c ! i) = rec_of (k, seq, v) \<and>
    ba_entries (tt_base t') = ba_entries (tt_base t) @
      [(InternalKey k seq kTypeBlobIndex, BlobIndex_EncodeTo [] (file_index lib (table_file (tt_opts t0) c) i))]"
proof -
  let ?o = "tt_opts t0" and ?h = "built_header (tt_opts t0) kVersion2" and ?x = "(k, seq, v)"
  obtain t1 w1 n ys where e: "ensure_blob_file lib t w = Some (t1, w1)" "tabling lib t0 w0 (m + 1) cs (Some (n, ys)) t1 w1" "length ys \<le> m"
    "grown lib ?o (cur_files cs cur) (cur_files cs (Some (n, ys)))" "tt_base t1 = tt_base t"
    using ensure_tabling [OF opts(1) t] by blast
  obtain b outs where b: "tt_handle t1 = Some n" "list_all (entry_ok lib ?o) ys" "tt_builder t1 = Some b" "bb_opts b = ?o"
    "building lib ?h (map rec_of ys) (map (table_ctx n) ys) outs b" and t1: "tt_status t1 = OK" "tt_opts t1 = ?o"
    using e(2) by (auto simp: tabling_def table_open_def)
  let ?c = "(n, ys @ [?x])" and ?es = "file_es lib (co_compression ?o) None (map rec_of (ys @ [?x]))"
  obtain b' where b': "Builder_Add lib (rec_of ?x) (table_ctx n ?x) b = Some (b', [set_handle (nth_handle ?h ?es (length ys)) (table_ctx n ?x)])"
    "building lib ?h (map rec_of (ys @ [?x])) (map (table_ctx n) (ys @ [?x])) (handled ?h ?es (map (table_ctx n) (ys @ [?x]))) b'" "bb_opts b' = ?o"
    by (rule Builder_Add_plain [OF lib b(5), of "table_ctx n ?x" "rec_of ?x"]) (use b(4) opts(2) in \<open>simp_all add: table_ctx_def blob_context_def\<close>)
  let ?t2 = "t1\<lparr>tt_bytes_written := tt_bytes_written t1 + of_nat (length k + length v), tt_builder := Some b'\<rparr>"
  have t2: "tabling lib t0 w0 (m + 1) cs (Some ?c) ?t2 w1"
    using e(2,3) b(1,2) b'(2,3) x by (auto simp: tabling_def table_open_def cur_files_def)
  obtain t3 cs' cur' where t3: "(if GetFileSize (bb_file b') \<ge> co_target_size ?o then FinishBlobFile lib ?t2 w1 else Some (?t2, w1)) = Some (t3, w1)"
    "tabling lib t0 w0 (m + 1) cs' cur' t3 w1" "tt_base t3 = tt_base t1" "cur_files cs' cur' = cs @ [?c]"
  proof (cases "GetFileSize (bb_file b') \<ge> co_target_size ?o")
    case True
    obtain t' where "FinishBlobFile lib ?t2 w1 = Some (t', w1)" "tabling lib t0 w0 (m + 1) (cs @ [?c]) None t' w1" "tt_base t' = tt_base ?t2"
      by (rule FinishBlobFile_tabling [OF lib opts m t2])
    then show thesis using that [of t' "cs @ [?c]" None] True by (simp add: cur_files_def)
  next
    case False
    then show thesis using that [of ?t2 cs "Some ?c"] t2 by (simp add: cur_files_def)
  qed
  let ?ix = "BlobIndex_EncodeTo [] (file_index lib (table_file ?o ?c) (length ys))"
  let ?t4 = "to_base (InternalKey k seq kTypeBlobIndex) ?ix
      (t3\<lparr>tt_bytes_written := tt_bytes_written t3 + bh_size (bi_handle (file_index lib (table_file ?o ?c) (length ys)))\<rparr>)"
  have ix: "rc_new_blob_index (set_handle (nth_handle ?h ?es (length ys)) (table_ctx n ?x)) = file_index lib (table_file ?o ?c) (length ys)"
    by (simp add: set_handle_def table_ctx_def blob_context_def file_index_def table_file_def)
  have "ParseInternalKey (InternalKey k seq kTypeValue) = Some (Inr (k, seq, kTypeValue))"
    using x by (intro ParseInternalKey_Internal) (simp_all add: entry_ok_def)
  then have key: "ParseInternalKey (rc_key (set_handle (nth_handle ?h ?es (length ys)) (table_ctx n ?x))) = Some (Inr (k, seq, kTypeValue))"
    "rc_has_value (set_handle (nth_handle ?h ?es (length ys)) (table_ctx n ?x)) = False"
    by (simp_all add: set_handle_def table_ctx_def blob_context_def append_key_def)
  have t3s: "t3\<lparr>tt_status := OK\<rparr> = t3" using t3(2) by (simp add: tabling_def)
  have ar: "AddBlobResultsToBase [set_handle (nth_handle ?h ?es (length ys)) (table_ctx n ?x)] t3 = Some ?t4"
    unfolding AddBlobResultsToBase.simps key(1) option.case sum.case prod.case Let_def ix t3s key(2) append_key_def by simp
  have "table_status t = OK"
    using t b(4,5) building_plain(3) opts(2) by (auto simp: tabling_def table_open_def table_status_def split: option.splits)
  then have "AddBlob lib (k, seq, kTypeValue) v t w = Some (?t4, w1)"
    using e(1) t1 b(1,3) b'(1) t3(1) ar by (simp add: AddBlob_def rec_of_def table_ctx_def del: of_nat_add)
  moreover have "tabling lib t0 w0 (m + 1) cs' cur' ?t4 w1" by (rule to_base_tabling(1) [OF t3(2)])
  moreover have "grown lib ?o (cur_files cs cur) (cur_files cs' cur')"
    unfolding t3(4) by (rule grown_trans [OF e(4)]) (auto simp: grown_def cur_files_def)
  moreover have "ba_entries (tt_base ?t4) = ba_entries (tt_base t) @ [(InternalKey k seq kTypeBlobIndex, ?ix)]"
    using to_base_tabling(2) [OF t3(2)] t3(3) e(5) by simp
  moreover have "?c \<in> set (cur_files cs' cur')" "length ys < length (snd ?c)" "rec_of (snd ?c ! length ys) = rec_of ?x" by (simp_all add: t3(4))
  ultimately show ?thesis by blast
qed

lemma AddBase_tabling:
  assumes "co_max_dict_bytes (tt_opts t0) = 0" "tabling lib t0 w0 m cs cur t w"
  shows "tabling lib t0 w0 (m + 1) cs cur (AddBase key ikey v t) w"
    "ba_entries (tt_base (AddBase key ikey v t)) = ba_entries (tt_base t) @ [(key, v)]" "table_status t = OK"
proof -
  have b: "builder_unbuffered t" "table_status t = OK"
    using assms building_plain(1,3)
    by (fastforce simp: tabling_def table_open_def builder_unbuffered_def table_status_def Let_def split: option.splits prod.splits)+
  have a: "AddBase key ikey v t = to_base key v (t\<lparr>tt_bytes_written := tt_bytes_written t\<rparr>)" using b(1) by (simp add: AddBase_def)
  have "tabling lib t0 w0 (m + 1) cs cur t w" using assms(2) by (auto simp: tabling_def table_open_def split: option.splits)
  then show "tabling lib t0 w0 (m + 1) cs cur (AddBase key ikey v t) w" unfolding a by (rule to_base_tabling)
  show "ba_entries (tt_base (AddBase key ikey v t)) = ba_entries (tt_base t) @ [(key, v)]" unfolding a by (rule to_base_tabling [OF assms(2)])
  show "table_status t = OK" by (rule b)
qed

lemma Table_Add_tabling:
  assumes lib: "lib_sound lib" and opts: "buildable lib (tt_opts t0) kVersion2" "co_max_dict_bytes (tt_opts t0) = 0" "co_blob_run_mode (tt_opts t0) = kNormal"
    and m: "m + 1 < 2 ^ 31" and t: "tabling lib t0 w0 m cs cur t w" and x: "entry_ok lib (tt_opts t0) (k, seq, v)"
  shows "\<exists>t' w' cs' cur' e. Table_Add lib (InternalKey k seq kTypeValue) v t w = Some (t', w') \<and> tabling lib t0 w0 (m + 1) cs' cur' t' w' \<and>
    grown lib (tt_opts t0) (cur_files cs cur) (cur_files cs' cur') \<and> ba_entries (tt_base t') = ba_entries (tt_base t) @ [e] \<and>
    separated lib (tt_opts t0) (cur_files cs' cur') (k, seq, v) e"
proof -
  let ?o = "tt_opts t0" and ?k = "InternalKey k seq kTypeValue"
  have p: "ParseInternalKey ?k = Some (Inr (k, seq, kTypeValue))" using x by (intro ParseInternalKey_Internal) (simp_all add: entry_ok_def)
  have ts: "t\<lparr>tt_status := OK\<rparr> = t" "tt_opts t = ?o" using t by (simp_all add: tabling_def)
  note small = AddBase_tabling [OF opts(2) t]
  have add: "Table_Add lib ?k v t w = (if of_nat (length v) < co_min_blob_size ?o then Some (AddBase ?k (k, seq, kTypeValue) v t, w)
      else AddBlob lib (k, seq, kTypeValue) v t w)"
    using small(3) ts opts(3) by (simp add: Table_Add_def p)
  show ?thesis
  proof (cases "of_nat (length v) < co_min_blob_size ?o")
    case True
    then have "separated lib ?o (cur_files cs cur) (k, seq, v) (?k, v)" by (simp add: separated_def)
    moreover have "grown lib ?o (cur_files cs cur) (cur_files cs cur)" by (force simp: grown_def)
    moreover have "Table_Add lib ?k v t w = Some (AddBase ?k (k, seq, kTypeValue) v t, w)" using add True by simp
    ultimately show ?thesis using small(1,2) [of ?k "(k, seq, kTypeValue)" v] by blast
  next
    case False
    obtain t' w' cs' cur' c i where a: "AddBlob lib (k, seq, kTypeValue) v t w = Some (t', w')" "tabling lib t0 w0 (m + 1) cs' cur' t' w'"
      "grown lib ?o (cur_files cs cur) (cur_files cs' cur')" "c \<in> set (cur_files cs' cur')" "i < length (snd c)" "rec_of (snd c ! i) = rec_of (k, seq, v)"
      "ba_entries (tt_base t') = ba_entries (tt_base t) @ [(InternalKey k seq kTypeBlobIndex, BlobIndex_EncodeTo [] (file_index lib (table_file ?o c) i))]"
      using AddBlob_tabling [OF lib opts(1,2) m t x] by blast
    have "separated lib ?o (cur_files cs' cur') (k, seq, v) (InternalKey k seq kTypeBlobIndex, BlobIndex_EncodeTo [] (file_index lib (table_file ?o c) i))"
      using False a(4-6) by (auto simp: separated_def intro!: bexI [of _ c] exI [of _ i])
    moreover have "Table_Add lib ?k v t w = Some (t', w')" using add False a(1) by simp
    ultimately show ?thesis using a(2,3,7) by blast
  qed
qed

lemma table_add_all_tabling:
  assumes lib: "lib_sound lib" and opts: "buildable lib (tt_opts t0) kVersion2" "co_max_dict_bytes (tt_opts t0) = 0" "co_blob_run_mode (tt_opts t0) = kNormal"
    and m: "m + length xs < 2 ^ 31" and t: "tabling lib t0 w0 m cs cur t w" and x: "list_all (entry_ok lib (tt_opts t0)) xs"
    and s: "list_all2 (separated lib (tt_opts t0) (cur_files cs cur)) ys (ba_entries (tt_base t))"
  shows "\<exists>t' w' cs' cur'. table_add_all lib xs t w = Some (t', w') \<and> tabling lib t0 w0 (m + length xs) cs' cur' t' w' \<and>
    list_all2 (separated lib (tt_opts t0) (cur_files cs' cur')) (ys @ xs) (ba_entries (tt_base t'))"
  using m t x s
proof (induction xs arbitrary: m cs cur t w ys)
  case Nil
  then show ?case by (metis add_0_right append_Nil2 list.size(3) table_add_all.simps(1))
next
  case (Cons x xs)
  let ?o = "tt_opts t0"
  obtain k seq v where x: "x = (k, seq, v)" by (cases x)
  have m: "m + 1 < 2 ^ 31" "m + 1 + length xs < 2 ^ 31" and ok: "entry_ok lib ?o (k, seq, v)" "list_all (entry_ok lib ?o) xs"
    using Cons.prems(1,3) x by simp_all
  obtain t1 w1 cs1 cur1 e where a: "Table_Add lib (InternalKey k seq kTypeValue) v t w = Some (t1, w1)" "tabling lib t0 w0 (m + 1) cs1 cur1 t1 w1"
    "grown lib ?o (cur_files cs cur) (cur_files cs1 cur1)" "ba_entries (tt_base t1) = ba_entries (tt_base t) @ [e]"
    "separated lib ?o (cur_files cs1 cur1) (k, seq, v) e"
    using Table_Add_tabling [OF lib opts m(1) Cons.prems(2) ok(1)] by blast
  have "list_all2 (separated lib ?o (cur_files cs1 cur1)) ys (ba_entries (tt_base t))"
    using Cons.prems(4) separated_grown [OF _ a(3)] by (rule list_all2_mono)
  then have "list_all2 (separated lib ?o (cur_files cs1 cur1)) (ys @ [x]) (ba_entries (tt_base t1))"
    unfolding a(4) x using a(5) by (intro list_all2_appendI) simp_all
  from Cons.IH [OF m(2) a(2) ok(2) this] show ?case using a(1) by (simp add: x)
qed

section \<open>Installing the files of a table\<close>

text \<open>An edit that only adds fresh files succeeds when no operation on the manifest fails.\<close>

lemma LogAndApply_adds:
  assumes io: "fs_io fs = []" and e: "ve_deleted e = []" "distinct (map fm_number (ve_added e))"
    and fresh: "\<And>f. f \<in> set (ve_added e) \<Longrightarrow> FindFile bs (fm_number f) = None" and col: "GetBlobStorage fs (ve_cf e) = Some bs"
    and r: "LogAndApply e fs = Some (s, fs')" and inv: "fileset_inv fs" and fit: "\<And>f. f \<in> set (ve_added e) \<Longrightarrow> addable bs f"
  shows "s = OK"
proof -
  let ?e = "SetNextFileNumber (fs_next_file_number fs) e"
  have e': "ve_deleted ?e = []" "ve_added ?e = ve_added e" "ve_cf ?e = ve_cf e" "ve_has_next ?e" "edit_batch ?e = edit_batch e"
    using e(1) by (simp_all add: SetNextFileNumber_def edit_batch_def)
  have "add_files (ve_added e) CFEditCollector_new = (OK, CFEditCollector_new\<lparr>ce_added := ce_added CFEditCollector_new @ numbered (ve_added e)\<rparr>)"
    using e(2) by (subst add_files_OK) (simp add: CFEditCollector_new_def)
  then obtain ec where ec: "AddEdit ?e EditCollector_new = (OK, ec)"
    using e' by (simp add: AddEdit_def EditCollector_new_def cf_collector_def Let_def)
  note c = AddEdit_new_cases [OF ec refl, unfolded e']
  have "CFE_Seal_added bs xs = OK" if "\<And>p. p \<in> set xs \<Longrightarrow> FindFile bs (fst p) = None" for xs
    using that by (induction xs) fastforce+
  then have "CFE_Seal_added bs (numbered (ve_added e)) = OK" using fresh by force
  then have seal: "CFE_Seal (edit_batch e) bs = OK" using e(1) by (simp add: CFE_Seal_def edit_batch_def)
  then have se: "Seal (GetBlobStorage fs) ec = (OK, ec\<lparr>ec_sealed := True\<rparr>)" using c col by (simp add: Seal_def)
  have bi: "storage_inv bs" using inv col by (force simp: fileset_inv_def GetBlobStorage_def list_all_iff dest: map_of_SomeD)
  have "addable bs (snd p)" if "p \<in> set (ce_added (edit_batch e))" for p using that fit by (auto simp: edit_batch_def)
  then obtain bs' where ap: "CFE_Apply (edit_batch e) bs = Some (OK, bs')" using CFE_Apply_ok [OF bi _ seal] c by blast
  have "map_of (fs_columns fs) (ve_cf e) = Some bs" using col by (simp add: GetBlobStorage_def)
  then have "Apply (ec\<lparr>ec_sealed := True\<rparr>) (fs_columns fs) = Some (OK, al_modify (ve_cf e) (\<lambda>_. bs') (fs_columns fs))"
    using c ap by (simp add: Apply_def)
  then show ?thesis
    using r io by (auto simp: LogAndApply_def ec se AddRecord_def SyncTitanManifest_def next_io_def Let_def split: option.splits)
qed

lemma BatchFinishFiles_adds:
  assumes w: "w_dir_io w = []" "fs_io (w_fileset w) = []" "in_order cf w" "\<not> w_mutex w" "w_storage w cf = Some bs"
    and f: "\<And>x. x \<in> set files \<Longrightarrow> wf_io (snd (snd x)) = [] \<and> addable bs (fst x) \<and> FindFile bs (fm_number (fst x)) = None"
      "distinct (map (fm_number \<circ> fst) files)"
    and r: "BatchFinishFiles cf files w = Some (s, w')"
  shows "s = OK"
proof -
  let ?e = "(SetColumnFamilyID cf VersionEdit_new)\<lparr>ve_added := map fst files\<rparr>"
  let ?w1 = "w\<lparr>w_files := fold (\<lambda>x m. m(fst (snd x) \<mapsto> wf_data (snd (snd x)))) files (w_files w)\<rparr>"
  have sy: "sync_files files (SetColumnFamilyID cf VersionEdit_new) w = (Inr ?e, ?w1)"
    using sync_files_ok [of files] f(1) by (simp add: list_all_iff SetColumnFamilyID_def VersionEdit_new_def)
  have e: "ve_cf ?e = cf" "ve_added ?e = map fst files" "ve_deleted ?e = []" by (simp_all add: SetColumnFamilyID_def VersionEdit_new_def)
  have fw: "w_fileset (?w1\<lparr>w_mutex := True\<rparr>) = w_fileset w" by (simp add: w_fileset_def)
  obtain fs' where l: "LogAndApply ?e (w_fileset w) = Some (s, fs')"
    using r sy w(1,4) fw by (auto simp: BatchFinishFiles_def dir_Fsync_def mutex_Lock_def)
  have col: "GetBlobStorage (w_fileset w) (ve_cf ?e) = Some bs" using w(5) unfolding e by (simp add: w_storage_columns GetBlobStorage_def)
  show ?thesis
    by (rule LogAndApply_adds [OF w(2) e(3) _ _ col l]) (use f w(3) e(2) in \<open>auto simp: in_order_def comp_def\<close>)
qed

lemma numbers_distinct: "l < 2 ^ 31 \<Longrightarrow> distinct (map (\<lambda>i. (n :: u64) + of_nat i) [0..<l])"
proof -
  assume l: "l < 2 ^ 31"
  have small: "unat (of_nat i :: u64) = i" if "i < l" for i
    by (rule unat_of_nat_u64, rule less_trans [OF that], rule less_trans [OF l]) simp
  have "i = j" if "i < l" "j < l" "(of_nat i :: u64) = of_nat j" for i j
    using small [OF that(1)] small [OF that(2)] that(3) by metis
  then show ?thesis by (auto simp: distinct_map inj_on_def)
qed

text \<open>What a reader gets for an entry of the table.\<close>

definition reads_as :: "BlobLib \<Rightarrow> u32 \<Rightarrow> BuilderOptions \<Rightarrow> World \<Rightarrow> user_entry \<Rightarrow> bytes \<times> bytes \<Rightarrow> bool" where
  "reads_as lib cf opts w x e = (case x of (k, seq, v) \<Rightarrow>
     if of_nat (length v) < co_min_blob_size opts then e = (InternalKey k seq kTypeValue, v)
     else fst e = InternalKey k seq kTypeBlobIndex \<and> entry_result lib cf (snd e, True) w = Some (OK, v))"

lemma separated_reads:
  assumes disk: "\<And>c. c \<in> set cs \<Longrightarrow> on_disk lib cf (table_file opts c) w" and cache: "w_cache w = None" and sx: "separated lib opts cs x e"
  shows "reads_as lib cf opts w x e"
proof -
  obtain k seq v where x: "x = (k, seq, v)" by (cases x)
  show ?thesis
  proof (cases "of_nat (length v) < co_min_blob_size opts")
    case True
    then show ?thesis using sx by (simp add: separated_def reads_as_def x)
  next
    case False
    then obtain c i where c: "c \<in> set cs" "i < length (snd c)" "rec_of (snd c ! i) = rec_of x"
      "e = (InternalKey k seq kTypeBlobIndex, BlobIndex_EncodeTo [] (file_index lib (table_file opts c) i))"
      using sx by (auto simp: separated_def x)
    have "file_records (table_file opts c) = map rec_of (snd c)" by (simp add: table_file_def)
    then have "entry_result lib cf (BlobIndex_EncodeTo [] (file_index lib (table_file opts c) i), True) w = Some (OK, v)"
      using entry_result_record [OF disk [OF c(1)] cache, of i] file_index_entry c(2,3) by (simp add: x rec_of_def)
    then show ?thesis using False c(4) by (simp add: reads_as_def x)
  qed
qed

lemma finish_tabling:
  assumes lib: "lib_sound lib" and opts: "buildable lib (tt_opts t0) kVersion2" "co_max_dict_bytes (tt_opts t0) = 0" and m: "m < 2 ^ 31"
    and t: "tabling lib t0 w0 m cs cur t w"
  obtains t' where "FinishBlobFile lib t w = Some (t', w)" "tabling lib t0 w0 m (cur_files cs cur) None t' w" "tt_base t' = tt_base t"
proof (cases cur)
  case None
  then have "FinishBlobFile lib t w = Some (t, w)" using t by (simp add: FinishBlobFile_def tabling_def table_open_def)
  then show thesis using that t None by (simp add: cur_files_def)
next
  case (Some c)
  have "tabling lib t0 w0 m cs (Some c) t w" using t Some by simp
  then obtain t' where "FinishBlobFile lib t w = Some (t', w)" "tabling lib t0 w0 m (cs @ [c]) None t' w" "tt_base t' = tt_base t"
    by (rule FinishBlobFile_tabling [OF lib opts m])
  then show thesis using that Some by (simp add: cur_files_def)
qed

text \<open>The finished files: their numbers are consecutive, and the storage can take them.\<close>

lemma finished_files:
  assumes f: "list_all2 (table_finished lib opts level) cs files" and nums: "map fst cs = map (\<lambda>i. n0 + of_nat i) [0..<length cs]"
    and m: "length cs \<le> m" "m < 2 ^ 31" and lvl: "0 \<le> level" "level < 2 ^ 31" "nat level < length (bs_levels bs)"
  shows "\<And>c. c \<in> set cs \<Longrightarrow> (\<exists>i < m. fst c = n0 + of_nat i) \<and> (\<exists>x \<in> set files. table_finished lib opts level c x)"
    and "\<And>x. x \<in> set files \<Longrightarrow> fst (snd x) = fm_number (fst x) \<and> wf_io (snd (snd x)) = [] \<and> addable bs (fst x) \<and>
      (\<exists>i < m. fm_number (fst x) = n0 + of_nat i)"
    and "distinct (map (fm_number \<circ> fst) files)"
proof -
  have same: "map (fm_number \<circ> fst) files = map fst cs"
    using f by (induction rule: list_all2_induct) (auto simp: table_finished_def)
  have num: "\<exists>i < m. fst c = n0 + of_nat i" if "c \<in> set cs" for c
  proof -
    have "fst c \<in> set (map (\<lambda>i. n0 + of_nat i) [0..<length cs])" unfolding nums [symmetric] using that by simp
    then obtain i where "i < length cs" "fst c = n0 + of_nat i" by auto
    then show ?thesis using m(1) by (meson less_le_trans)
  qed
  have "\<exists>x \<in> set files. table_finished lib opts level c x" if "c \<in> set cs" for c
    using f that unfolding list_all2_conv_all_nth in_set_conv_nth Bex_def by metis
  with num show "\<And>c. c \<in> set cs \<Longrightarrow> (\<exists>i < m. fst c = n0 + of_nat i) \<and> (\<exists>x \<in> set files. table_finished lib opts level c x)" by blast
  have "(of_int level :: u32) = of_nat (nat level)" using lvl(1) by simp
  then have level: "unat (of_int level :: u32) = nat level" using lvl(2) by (simp add: unsigned_of_nat take_bit_nat_eq_self)
  show "fst (snd x) = fm_number (fst x) \<and> wf_io (snd (snd x)) = [] \<and> addable bs (fst x) \<and> (\<exists>i < m. fm_number (fst x) = n0 + of_nat i)"
    if x: "x \<in> set files" for x
  proof -
    obtain k where k: "k < length files" "x = files ! k" using x by (auto simp: in_set_conv_nth)
    define c where "c = cs ! k"
    have c: "c \<in> set cs" "table_finished lib opts level c x" using f k by (simp_all add: c_def list_all2_conv_all_nth)
    from c(2) have "fm_number (fst x) = fst c" by (auto simp: table_finished_def split: prod.splits)
    moreover have "fst (snd x) = fm_number (fst x) \<and> wf_io (snd (snd x)) = [] \<and> addable bs (fst x)"
      using c(2) lvl(3) level by (auto simp: table_finished_def addable_def split: prod.splits)
    ultimately show ?thesis using num [OF c(1)] by simp
  qed
  have "distinct (map (\<lambda>i. n0 + of_nat i) [0..<length cs])" using m by (intro numbers_distinct) simp
  then show "distinct (map (fm_number \<circ> fst) files)" unfolding same nums .
qed

text \<open>The numbers of the files are new and their operations succeed.\<close>

definition nothing_fails :: "World \<Rightarrow> BlobStorage \<Rightarrow> nat \<Rightarrow> bool" where
  "nothing_fails w bs n \<longleftrightarrow> w_dir_io w = [] \<and> fs_io (w_fileset w) = [] \<and>
     (\<forall>i < n. FindFile bs (fs_next_file_number (w_fileset w) + of_nat i) = None)"

text \<open>C2: a flush separates values and loses none.  The entries of a memtable, added to a new table builder
  in their order, end up in the table in the same order: a value below the threshold as it is, any other
  as an index which, once the builder has finished, is read back as the value.  Finishing returns, and
  succeeds when no operation fails.\<close>

theorem flush_separates_values:
  assumes lib: "lib_sound lib" and opts: "buildable lib opts kVersion2" "co_max_dict_bytes opts = 0" "co_blob_run_mode opts = kNormal"
    and xs: "list_all (entry_ok lib opts) xs" "length xs < 2 ^ 31"
    and base: "ba_status base = OK" "ba_io base = []" "ba_entries base = []"
    and w: "in_order cf w" "\<not> w_mutex w" "w_new_files w = []" "w_storage w cf = Some bs"
      "\<And>i. i < length xs \<Longrightarrow> w_readers w (fs_next_file_number (w_fileset w) + of_nat i) = None"
    and lvl: "0 \<le> level" "level < 2 ^ 31" "nat level < length (bs_levels bs)"
  shows "\<exists>t1 w1 s t2 w2.
    table_add_all lib xs (TableBuilder_new cf opts base merge_level level) w = Some (t1, w1) \<and>
    Table_Finish lib t1 w1 = Some (s, t2, w2) \<and> in_order cf w2 \<and> (nothing_fails w bs (length xs) \<longrightarrow> s = OK) \<and>
    (s = OK \<longrightarrow> list_all2 (reads_as lib cf opts w2) xs (ba_entries (tt_base t2)))"
proof -
  let ?t0 = "TableBuilder_new cf opts base merge_level level" and ?n0 = "fs_next_file_number (w_fileset w)"
  have t0: "tt_opts ?t0 = opts" "tt_cf ?t0 = cf" "tt_target_level ?t0 = level" "tt_base ?t0 = base" by (simp_all add: TableBuilder_new_def)
  have "tabling lib ?t0 w 0 [] None ?t0 w"
    using base w by (simp add: tabling_def table_open_def cur_files_def TableBuilder_new_def)
  moreover have "list_all2 (separated lib (tt_opts ?t0) (cur_files [] None)) [] (ba_entries (tt_base ?t0))" using base t0 by simp
  ultimately obtain t1 w1 cs cur where a: "table_add_all lib xs ?t0 w = Some (t1, w1)" "tabling lib ?t0 w (length xs) cs cur t1 w1"
    "list_all2 (separated lib opts (cur_files cs cur)) xs (ba_entries (tt_base t1))"
    using table_add_all_tabling [OF lib, of ?t0 0 xs w "[]" None ?t0 w "[]"] opts xs t0 by auto
  obtain tf where tf: "FinishBlobFile lib t1 w1 = Some (tf, w1)" "tabling lib ?t0 w (length xs) (cur_files cs cur) None tf w1" "tt_base tf = tt_base t1"
    using finish_tabling [OF lib _ _ xs(2) a(2)] opts t0 by metis
  let ?cs = "cur_files cs cur" and ?files = "tt_finished tf"
  have T: "list_all2 (table_finished lib opts level) ?cs ?files" "map fst ?cs = map (\<lambda>i. ?n0 + of_nat i) [0..<length ?cs]"
    "length ?cs \<le> length xs" "steady w w1" "\<not> w_mutex w1" "tt_cf tf = cf" "tt_builder tf = None" "ba_status (tt_base tf) = OK" "ba_io (tt_base tf) = []"
    "w_dir_io w1 = w_dir_io w" "fs_io (w_fileset w1) = fs_io (w_fileset w)"
    using tf(2) t0 by (simp_all add: tabling_def cur_files_def table_open_def)
  have w1: "in_order cf w1" "w_storage w1 cf = Some bs" "w_readers w1 = w_readers w"
    using steady_in_order [OF T(4) w(1)] steady_storage [OF T(4)] w(4) T(4) by (simp_all add: steady_def)
  note ff = finished_files [OF T(1,2,3) xs(2) lvl]
  have fin: "fst (snd x) = fm_number (fst x) \<and> wf_io (snd (snd x)) = [] \<and> addable bs (fst x)" if "x \<in> set ?files" for x
    using ff(2) [OF that] by blast
  obtain s w2 where bf: "BatchFinishFiles cf ?files w1 = Some (s, w2)" "in_order cf w2" "w_readers w2 = w_readers w1"
    "\<And>x. s = OK \<Longrightarrow> x \<in> set ?files \<Longrightarrow> w_files w2 (fm_number (fst x)) = Some (wf_data (snd (snd x))) \<and>
       (\<exists>bs'. w_storage w2 cf = Some bs' \<and> FindFile bs' (fm_number (fst x)) = Some (fst x))"
    by (rule BatchFinishFiles_many [OF w1(1) T(5) w1(2) fin ff(3)]) (assumption, (rule that; (assumption | blast)))
  let ?t2 = "tf\<lparr>tt_base := base_Finish (tt_base tf), tt_status := s\<rparr>"
  have "table_status ?t2 = s" using T(7-9) by (simp add: table_status_def base_Finish_def Let_def)
  then have "Table_Finish lib t1 w1 = Some (s, ?t2, w2)" using tf(1) bf(1) T(6) by (simp add: Table_Finish_def Let_def)
  moreover have "s = OK" if "nothing_fails w bs (length xs)"
  proof (rule BatchFinishFiles_adds [OF _ _ w1(1) T(5) w1(2) _ ff(3) bf(1)])
    show "w_dir_io w1 = []" "fs_io (w_fileset w1) = []" using that T(10,11) by (simp_all add: nothing_fails_def)
    show "wf_io (snd (snd x)) = [] \<and> addable bs (fst x) \<and> FindFile bs (fm_number (fst x)) = None" if "x \<in> set ?files" for x
      using ff(2) [OF that] \<open>nothing_fails w bs (length xs)\<close> by (auto simp: nothing_fails_def)
  qed
  moreover have "list_all2 (reads_as lib cf opts w2) xs (ba_entries (tt_base ?t2))" if s: "s = OK"
  proof -
    have disk: "on_disk lib cf (table_file opts c) w2" if c: "c \<in> set ?cs" for c
    proof -
      obtain x where x: "x \<in> set ?files" "table_finished lib opts level c x" using ff(1) [OF c] by blast
      then show ?thesis
        using bf(4) [OF s x(1)] ff(1) [OF c] bf(3) w1(3) w(5)
        by (auto simp: table_finished_def on_disk_def table_file_def split: prod.splits)
    qed
    have "w_cache w2 = None" using bf(2) by (simp add: in_order_def)
    from separated_reads [OF disk this] a(3) tf(3) T(9) show ?thesis by (auto simp: base_Finish_def elim: list_all2_mono)
  qed
  ultimately show ?thesis using a(1) bf(2) by blast
qed

definition demo_flush :: "user_entry list" where
  "demo_flush = [([1], 5, [7]), ([2], 6, [8, 9])]"

definition demo_flush_options :: BuilderOptions where
  "demo_flush_options = demo_builder_options\<lparr>co_max_dict_bytes := 0, co_min_blob_size := 2, co_blob_run_mode := kNormal, co_compression := 0\<rparr>"

definition demo_base :: BaseBuilder where
  "demo_base = \<lparr>ba_entries = [], ba_status = OK, ba_io = [], ba_closed = False\<rparr>"

definition demo_flush_world :: World where
  "demo_flush_world = demo_gc_world\<lparr>w_mutex := False\<rparr>"

theorem flush_separates_values_witness:
  "\<exists>t1 w1 t2 w2 ix.
     table_add_all demo_lib demo_flush (TableBuilder_new 0 demo_flush_options demo_base 5 0) demo_flush_world = Some (t1, w1) \<and>
     Table_Finish demo_lib t1 w1 = Some (OK, t2, w2) \<and>
     ba_entries (tt_base t2) = [(InternalKey [1] 5 kTypeValue, [7]), (InternalKey [2] 6 kTypeBlobIndex, ix)] \<and>
     entry_result demo_lib 0 (ix, True) w2 = Some (OK, [8, 9])"
proof -
  let ?w = demo_flush_world and ?o = demo_flush_options and ?bs = "demo_storage demo_gc_meta"
  have o: "buildable demo_lib ?o kVersion2" "co_max_dict_bytes ?o = 0" "co_blob_run_mode ?o = kNormal" "co_min_blob_size ?o = 2" "co_compression ?o = 0"
    by (simp_all add: demo_flush_options_def buildable_def)
  have "length (enc_record (EncodeRecord cl 0 r)) < 2 ^ 32" if "BlobRecord_fits r" "length (rec_key r) = 1" "length (rec_value r) \<le> 2" for r cl
    using that
    by (simp add: EncodeRecord_def EncodeSlice_def Compress_def Let_def BlobRecord_EncodeTo_def PutLengthPrefixedSlice_def
        PutVarint32_def EncodeVarint32_def)
  then have ok: "list_all (entry_ok demo_lib ?o) demo_flush"
    by (simp add: entry_ok_def o(5) demo_flush_def BlobRecord_fits_def rec_of_def)
  have w: "in_order 0 ?w" "\<not> w_mutex ?w" "w_new_files ?w = []" "w_storage ?w 0 = Some ?bs" "w_readers ?w = Map.empty"
    using gc_ready_order(1) [OF demo_gc_ready]
    by (simp_all add: demo_flush_world_def demo_gc_job_def GCJob_new_def in_order_def w_storage_def w_fileset_def demo_gc_world_def)
  have "FindFile ?bs (8 + of_nat i) = None" if "i < 2" for i
    using that by (cases i) (auto simp: demo_gc_meta_def BlobFileMeta_new_def)
  then have nf: "nothing_fails ?w ?bs (length demo_flush)"
    by (simp add: nothing_fails_def demo_flush_def demo_flush_world_def w_fileset_def demo_gc_world_def demo_db_def demo_fileset_def)
  have lv: "nat 0 < length (bs_levels ?bs)" by (simp add: demo_storage_def BlobStorage_new_def)
  obtain t1 w1 s t2 w2 where r: "table_add_all demo_lib demo_flush (TableBuilder_new 0 ?o demo_base 5 0) ?w = Some (t1, w1)"
      "Table_Finish demo_lib t1 w1 = Some (s, t2, w2)" "nothing_fails ?w ?bs (length demo_flush) \<longrightarrow> s = OK"
      "s = OK \<longrightarrow> list_all2 (reads_as demo_lib 0 ?o w2) demo_flush (ba_entries (tt_base t2))"
    using flush_separates_values [OF demo_lib_sound o(1-3) ok, of demo_base 0 ?w ?bs 0 5] w lv
    by (auto simp: demo_base_def demo_flush_def)
  have s: "s = OK" using r(3) nf by simp
  then obtain e1 e2 where e: "ba_entries (tt_base t2) = [e1, e2]"
      "reads_as demo_lib 0 ?o w2 ([1], 5, [7]) e1" "reads_as demo_lib 0 ?o w2 ([2], 6, [8, 9]) e2"
    using r(4) by (auto simp: demo_flush_def list_all2_Cons1)
  have "e1 = (InternalKey [1] 5 kTypeValue, [7])" using e(2) by (simp add: reads_as_def o(4))
  moreover have "fst e2 = InternalKey [2] 6 kTypeBlobIndex \<and> entry_result demo_lib 0 (snd e2, True) w2 = Some (OK, [8, 9])"
    using e(3) by (simp add: reads_as_def o(4))
  ultimately show ?thesis using r(1,2) s e(1) by (metis prod.collapse)
qed

end
