(* ===== verification/Titan_DBIter.thy ===== *)
theory Titan_DBIter
  imports Titan_GCSafe
begin

text \<open>
  The iterator of users (\<open>db_iter.h\<close>, \<open>NewIteratorImpl\<close> in \<open>db_impl.cc\<close>).  It moves over the
  entries of the base database and reads the value of an index from a blob file.  A failing assertion and a null pointer have
  the value \<open>None\<close>; log messages, clocks and counters are left out.
\<close>

section \<open>Iterator of the base database\<close>

text \<open>
  The iterator of the base database stands on an entry of a snapshot, or on none.  The outcomes of the coming moves
  are a list, an empty list stands for success.
\<close>

record BaseIter =
  bt_entries :: "(bytes \<times> base_entry) list"
  bt_pos :: "nat option"
  bt_status :: status
  bt_io :: "status list"

definition bt_move :: "nat option \<Rightarrow> BaseIter \<Rightarrow> BaseIter" where
  "bt_move p b =
     (case bt_io b of
        [] \<Rightarrow> b\<lparr>bt_pos := p, bt_status := OK\<rparr>
      | s # ss \<Rightarrow> b\<lparr>bt_pos := (if s = OK then p else None), bt_status := s, bt_io := ss\<rparr>)"

definition bt_at :: "nat \<Rightarrow> BaseIter \<Rightarrow> nat option" where
  "bt_at i b = (if i < length (bt_entries b) then Some i else None)"

definition bt_before :: "nat \<Rightarrow> nat option" where
  "bt_before i = (if i = 0 then None else Some (i - 1))"

definition bt_SeekToFirst :: "BaseIter \<Rightarrow> BaseIter" where
  "bt_SeekToFirst b = bt_move (bt_at 0 b) b"

definition bt_SeekToLast :: "BaseIter \<Rightarrow> BaseIter" where
  "bt_SeekToLast b = bt_move (bt_before (length (bt_entries b))) b"

definition bt_Seek :: "(bytes \<Rightarrow> bytes \<Rightarrow> bool) \<Rightarrow> bytes \<Rightarrow> BaseIter \<Rightarrow> BaseIter" where
  "bt_Seek lt target b = bt_move (bt_at (length (takeWhile (\<lambda>x. lt (fst x) target) (bt_entries b))) b) b"

definition bt_SeekForPrev :: "(bytes \<Rightarrow> bytes \<Rightarrow> bool) \<Rightarrow> bytes \<Rightarrow> BaseIter \<Rightarrow> BaseIter" where
  "bt_SeekForPrev lt target b = bt_move (bt_before (length (takeWhile (\<lambda>x. \<not> lt target (fst x)) (bt_entries b)))) b"

definition bt_Next :: "BaseIter \<Rightarrow> BaseIter" where
  "bt_Next b = (case bt_pos b of None \<Rightarrow> b | Some i \<Rightarrow> bt_move (bt_at (Suc i) b) b)"

definition bt_Prev :: "BaseIter \<Rightarrow> BaseIter" where
  "bt_Prev b = (case bt_pos b of None \<Rightarrow> b | Some i \<Rightarrow> bt_move (bt_before i) b)"

definition bt_entry :: "BaseIter \<Rightarrow> (bytes \<times> base_entry) option" where
  "bt_entry b = (case bt_pos b of None \<Rightarrow> None | Some i \<Rightarrow> Some (bt_entries b ! i))"

section \<open>Iterator of the database\<close>

text \<open>\<open>storage_\<close> is a pointer to the storage of the column family \<open>di_cf\<close>.\<close>

record DBIterator =
  di_status :: status
  di_record :: BlobRecord
  di_key_only :: bool
  di_cf :: u32
  di_iter :: BaseIter
  di_files :: "u64 \<rightharpoonup> BlobFilePrefetcher"

definition DBIterator_new :: "bool \<Rightarrow> u32 \<Rightarrow> BaseIter \<Rightarrow> DBIterator" where
  "DBIterator_new key_only cf iter =
     \<lparr>di_status = OK, di_record = \<lparr>rec_key = [], rec_value = []\<rparr>, di_key_only = key_only, di_cf = cf, di_iter = iter, di_files = Map.empty\<rparr>"

definition DBIter_Valid :: "DBIterator \<Rightarrow> bool" where
  "DBIter_Valid it = (bt_pos (di_iter it) \<noteq> None \<and> di_status it = OK)"

definition DBIter_status :: "DBIterator \<Rightarrow> status" where
  "DBIter_status it = (if di_status it = OK then bt_status (di_iter it) else di_status it)"

definition ShouldGetBlobValue :: "DBIterator \<Rightarrow> bool \<times> DBIterator" where
  "ShouldGetBlobValue it =
     (case bt_entry (di_iter it) of
        None \<Rightarrow> (False, it\<lparr>di_status := bt_status (di_iter it)\<rparr>)
      | Some (k, v, is_blob) \<Rightarrow>
          if \<not> is_blob \<or> di_key_only it then (False, it\<lparr>di_status := bt_status (di_iter it)\<rparr>) else (True, it))"

definition GetBlobValue :: "BlobLib \<Rightarrow> DBIterator \<Rightarrow> World \<Rightarrow> (DBIterator \<times> World) option" where
  "GetBlobValue lib it w =
     (if bt_status (di_iter it) \<noteq> OK then None
      else
        (case bt_entry (di_iter it) of
           None \<Rightarrow> None
         | Some (k, v, is_blob) \<Rightarrow>
             (case DecodeInto (BlobIndex_DecodeFrom BlobIndex_zero) v False of
                Inl s \<Rightarrow> Some (it\<lparr>di_status := s\<rparr>, w)
              | Inr index \<Rightarrow>
                  (let n = bi_file_number index in
                   case (case di_files it n of
                           Some pf \<Rightarrow> Some (Inr pf, w)
                         | None \<Rightarrow> (case w_storage w (di_cf it) of None \<Rightarrow> None | Some bs \<Rightarrow> Storage_NewPrefetcher lib bs n w)) of
                     None \<Rightarrow> None
                   | Some (Inl s, w) \<Rightarrow> Some (it\<lparr>di_status := s\<rparr>, w)
                   | Some (Inr pf, w) \<Rightarrow>
                       map_option (\<lambda>(r, pf, cache).
                           (let it = it\<lparr>di_files := (di_files it)(n \<mapsto> pf)\<rparr> in
                            case r of Inl s \<Rightarrow> it\<lparr>di_status := s\<rparr> | Inr record \<Rightarrow> it\<lparr>di_status := OK, di_record := record\<rparr>,
                            w\<lparr>w_cache := cache\<rparr>))
                         (Prefetcher_Get lib (bi_handle index) pf (w_cache w))))))"

text \<open>The common end of all moves.\<close>

definition DBIter_settle :: "BlobLib \<Rightarrow> DBIterator \<Rightarrow> World \<Rightarrow> (DBIterator \<times> World) option" where
  "DBIter_settle lib it w = (let (b, it) = ShouldGetBlobValue it in if b then GetBlobValue lib it w else Some (it, w))"

definition DBIter_SeekToFirst :: "BlobLib \<Rightarrow> DBIterator \<Rightarrow> World \<Rightarrow> (DBIterator \<times> World) option" where
  "DBIter_SeekToFirst lib it w = DBIter_settle lib (it\<lparr>di_iter := bt_SeekToFirst (di_iter it)\<rparr>) w"

definition DBIter_SeekToLast :: "BlobLib \<Rightarrow> DBIterator \<Rightarrow> World \<Rightarrow> (DBIterator \<times> World) option" where
  "DBIter_SeekToLast lib it w = DBIter_settle lib (it\<lparr>di_iter := bt_SeekToLast (di_iter it)\<rparr>) w"

definition DBIter_Seek :: "BlobLib \<Rightarrow> (bytes \<Rightarrow> bytes \<Rightarrow> bool) \<Rightarrow> bytes \<Rightarrow> DBIterator \<Rightarrow> World \<Rightarrow> (DBIterator \<times> World) option" where
  "DBIter_Seek lib lt target it w = DBIter_settle lib (it\<lparr>di_iter := bt_Seek lt target (di_iter it)\<rparr>) w"

definition DBIter_SeekForPrev :: "BlobLib \<Rightarrow> (bytes \<Rightarrow> bytes \<Rightarrow> bool) \<Rightarrow> bytes \<Rightarrow> DBIterator \<Rightarrow> World \<Rightarrow> (DBIterator \<times> World) option" where
  "DBIter_SeekForPrev lib lt target it w = DBIter_settle lib (it\<lparr>di_iter := bt_SeekForPrev lt target (di_iter it)\<rparr>) w"

definition DBIter_Next :: "BlobLib \<Rightarrow> DBIterator \<Rightarrow> World \<Rightarrow> (DBIterator \<times> World) option" where
  "DBIter_Next lib it w =
     (if \<not> DBIter_Valid it then None else DBIter_settle lib (it\<lparr>di_iter := bt_Next (di_iter it)\<rparr>) w)"

definition DBIter_Prev :: "BlobLib \<Rightarrow> DBIterator \<Rightarrow> World \<Rightarrow> (DBIterator \<times> World) option" where
  "DBIter_Prev lib it w =
     (if \<not> DBIter_Valid it then None else DBIter_settle lib (it\<lparr>di_iter := bt_Prev (di_iter it)\<rparr>) w)"

definition DBIter_key :: "DBIterator \<Rightarrow> bytes option" where
  "DBIter_key it = (if DBIter_Valid it then map_option fst (bt_entry (di_iter it)) else None)"

definition DBIter_value :: "DBIterator \<Rightarrow> bytes option" where
  "DBIter_value it =
     (if \<not> DBIter_Valid it \<or> di_key_only it then None
      else map_option (\<lambda>(k, v, is_blob). if \<not> is_blob then v else rec_value (di_record it)) (bt_entry (di_iter it)))"

text \<open>The base database gives an iterator over the entries \<open>es\<close> of the snapshot; \<open>Inl\<close> is the null pointer.\<close>

definition NewIteratorImpl :: "bool \<Rightarrow> u32 \<Rightarrow> (bytes \<times> base_entry) list \<Rightarrow> World \<Rightarrow> ((unit + DBIterator) \<times> World) option" where
  "NewIteratorImpl key_only cf es w =
     (case mutex_Lock w of
        None \<Rightarrow> None
      | Some w \<Rightarrow>
          (let storage = w_storage w cf; w = mutex_Unlock w in
           Some (case storage of None \<Rightarrow> Inl ()
                 | Some _ \<Rightarrow> Inr (DBIterator_new key_only cf \<lparr>bt_entries = es, bt_pos = None, bt_status = OK, bt_io = []\<rparr>), w)))"

section \<open>What an iterator shows\<close>

text \<open>Other threads leave the blob files that the snapshot needs where they are.\<close>

definition still :: "BlobLib \<Rightarrow> u32 \<Rightarrow> World \<Rightarrow> World \<Rightarrow> bool" where
  "still lib cf w w' \<longleftrightarrow> w_cache w' = w_cache w \<and> w_prefix w' = w_prefix w \<and> (\<forall>f. on_disk lib cf f w \<longrightarrow> on_disk lib cf f w')"

lemma still_refl [simp]: "still lib cf w w"
  by (simp add: still_def)

lemma still_trans: "still lib cf w w' \<Longrightarrow> still lib cf w' w'' \<Longrightarrow> still lib cf w w''"
  by (auto simp: still_def)

lemma stillD: "still lib cf w w' \<Longrightarrow> on_disk lib cf f w \<Longrightarrow> on_disk lib cf f w'"
  unfolding still_def by blast

lemma on_disk_reader_unique:
  assumes "on_disk lib cf f w" "on_disk lib cf f' w" "file_number f' = file_number f"
  shows "file_reader lib f' pre = file_reader lib f pre"
proof -
  have "file_data lib f' = file_data lib f" "file_good lib f" "file_good lib f'" using assms by (auto simp: on_disk_def)
  then show ?thesis using file_reader_opens [of lib f pre] file_reader_opens [of lib f' pre] by simp
qed

lemma NewPrefetcher_reads:
  assumes d: "on_disk lib cf f w" and bs: "w_storage w cf = Some bs"
  obtains pf w' where "Storage_NewPrefetcher lib bs (file_number f) w = Some (Inr pf, w')" "still lib cf w w'"
    "pf_reader pf = file_reader lib f (w_prefix w (file_number f))"
proof -
  let ?n = "file_number f" and ?rd = "file_reader lib f (w_prefix w (file_number f))"
  obtain m where m: "FindFile bs ?n = Some m" "fm_number m = ?n" "fm_size m = of_nat (length (file_data lib f))"
    using d bs by (auto simp: on_disk_def)
  have g: "file_good lib f" "w_files w ?n = Some (file_data lib f)" using d by (simp_all add: on_disk_def)
  let ?w = "w\<lparr>w_readers := (w_readers w)(?n \<mapsto> ?rd)\<rparr>"
  have "on_disk lib cf f' ?w" if f': "on_disk lib cf f' w" for f'
  proof (cases "file_number f' = ?n")
    case True
    then have "file_reader lib f' (w_prefix w ?n) = ?rd" by (rule on_disk_reader_unique [OF d f'])
    with True f' show ?thesis unfolding on_disk_def by (simp add: w_storage_def)
  qed (use f' in \<open>simp add: on_disk_def w_storage_def\<close>)
  then have "still lib cf w ?w" by (simp add: still_def)
  moreover have "Cache_FindFile lib ?n (fm_size m) w = Some (Inr ?rd, if w_readers w ?n = None then ?w else w)"
    using d g file_reader_opens [OF g(1)] by (auto simp: Cache_FindFile_def NewRandomAccessFile_def m(3) on_disk_def split: option.splits)
  ultimately show thesis
    using that m(1,2) by (cases "w_readers w ?n") (auto simp: Storage_NewPrefetcher_def Cache_NewPrefetcher_def)
qed

definition readable :: "BlobLib \<Rightarrow> u32 \<Rightarrow> World \<Rightarrow> base_entry \<Rightarrow> bool" where
  "readable lib cf w e \<longleftrightarrow> (snd e \<longrightarrow> (\<exists>f i bi. on_disk lib cf f w \<and> i < length (file_records f) \<and>
     DecodeInto (BlobIndex_DecodeFrom BlobIndex_zero) (fst e) False = Inr bi \<and> BlobIndex_eq (file_index lib f i) bi))"

text \<open>The iterator in the middle of a snapshot.\<close>

definition files_ok :: "BlobLib \<Rightarrow> World \<Rightarrow> DBIterator \<Rightarrow> bool" where
  "files_ok lib w it \<longleftrightarrow> (\<forall>n pf. di_files it n = Some pf \<longrightarrow>
     (\<exists>f. on_disk lib (di_cf it) f w \<and> file_number f = n \<and> pf_reader pf = file_reader lib f (w_prefix w n)))"

lemma files_ok_update [simp]:
  "files_ok lib w (it\<lparr>di_status := s\<rparr>) = files_ok lib w it" "files_ok lib w (it\<lparr>di_iter := b\<rparr>) = files_ok lib w it"
  by (simp_all add: files_ok_def)

lemma Prefetcher_Get_reader:
  assumes "Reader_Get lib h (pf_reader pf) cache = Some (r, rd, cache')"
  obtains pf' where "Prefetcher_Get lib h pf cache = Some (r, pf', cache')" "pf_reader pf' = rd"
  using assms that
  by (cases "bh_offset h = pf_last_offset pf"; cases "bh_offset h + bh_size h > pf_readahead_limit pf") (auto simp: Prefetcher_Get_def Let_def)

lemma files_ok_still: "files_ok lib w it \<Longrightarrow> still lib (di_cf it) w w' \<Longrightarrow> files_ok lib w' it"
  unfolding files_ok_def still_def by metis

lemma files_ok_insert:
  assumes "files_ok lib w it" "on_disk lib (di_cf it) f w" "pf_reader pf = file_reader lib f (w_prefix w (file_number f))"
  shows "files_ok lib w (it\<lparr>di_files := (di_files it)(file_number f \<mapsto> pf), di_status := s, di_record := r\<rparr>)"
  unfolding files_ok_def
proof (intro allI impI)
  fix n q assume "di_files (it\<lparr>di_files := (di_files it)(file_number f \<mapsto> pf), di_status := s, di_record := r\<rparr>) n = Some q"
  then consider "n = file_number f" "q = pf" | "di_files it n = Some q" by (cases "n = file_number f") simp_all
  then show "\<exists>g. on_disk lib (di_cf (it\<lparr>di_files := (di_files it)(file_number f \<mapsto> pf), di_status := s, di_record := r\<rparr>)) g w \<and>
      file_number g = n \<and> pf_reader q = file_reader lib g (w_prefix w n)"
  proof cases
    case 1
    then show ?thesis by (intro exI [of _ f]) (simp add: assms)
  next
    case 2
    then obtain g where "on_disk lib (di_cf it) g w" "file_number g = n" "pf_reader q = file_reader lib g (w_prefix w n)"
      using assms(1) unfolding files_ok_def by blast
    then show ?thesis by (intro exI [of _ g]) simp
  qed
qed

lemma GetBlobValue_reads:
  assumes f: "on_disk lib (di_cf it) f w" "i < length (file_records f)" and cache: "w_cache w = None" and ok: "files_ok lib w it"
    and b: "bt_status (di_iter it) = OK" "bt_entry (di_iter it) = Some (k, v, True)"
    and v: "DecodeInto (BlobIndex_DecodeFrom BlobIndex_zero) v False = Inr bi" "BlobIndex_eq (file_index lib f i) bi"
  obtains it' w' where "GetBlobValue lib it w = Some (it', w')" "still lib (di_cf it) w w'" "files_ok lib w' it'" "di_status it' = OK"
    "di_record it' = file_records f ! i" "di_iter it' = di_iter it" "di_cf it' = di_cf it" "di_key_only it' = di_key_only it"
proof -
  let ?n = "file_number f" and ?rd = "file_reader lib f (w_prefix w (file_number f))"
  have n: "bi_file_number bi = ?n" "BlobHandle_eq (bi_handle (file_index lib f i)) (bi_handle bi)"
    using v(2) by (auto simp: BlobIndex_eq_def file_index_def split: prod.splits)
  obtain bs where bs: "w_storage w (di_cf it) = Some bs" using f(1) by (auto simp: on_disk_def)
  obtain pf w1 where pf: "(case di_files it ?n of Some pf \<Rightarrow> Some (Inr pf, w)
      | None \<Rightarrow> (case w_storage w (di_cf it) of None \<Rightarrow> None | Some bs \<Rightarrow> Storage_NewPrefetcher lib bs ?n w)) = Some (Inr pf, w1)"
    "still lib (di_cf it) w w1" "pf_reader pf = ?rd"
  proof (cases "di_files it ?n")
    case None
    obtain pf w1 where p: "Storage_NewPrefetcher lib bs ?n w = Some (Inr pf, w1)" "still lib (di_cf it) w w1" "pf_reader pf = ?rd"
      by (rule NewPrefetcher_reads [OF f(1) bs])
    show thesis by (rule that [OF _ p(2,3)]) (simp add: None bs p(1))
  next
    case (Some pf)
    then obtain f' where "on_disk lib (di_cf it) f' w" "file_number f' = ?n" "pf_reader pf = file_reader lib f' (w_prefix w ?n)"
      using ok unfolding files_ok_def by blast
    with on_disk_reader_unique [OF f(1)] have "pf_reader pf = ?rd" by metis
    then show thesis using that Some by simp
  qed
  have c1: "w_cache w1 = None" "w_prefix w1 = w_prefix w" using pf(2) cache by (simp_all add: still_def)
  then have "Reader_Get lib (bi_handle bi) (pf_reader pf) (w_cache w1) = Some (Inr (file_records f ! i), ?rd, None)"
    using file_reader_reads [OF _ f(2) n(2)] f(1) by (simp add: Reader_Get_def on_disk_def pf(3))
  then obtain pf' where pf': "Prefetcher_Get lib (bi_handle bi) pf (w_cache w1) = Some (Inr (file_records f ! i), pf', None)" "pf_reader pf' = ?rd"
    by (rule Prefetcher_Get_reader)
  let ?it = "it\<lparr>di_files := (di_files it)(?n \<mapsto> pf'), di_status := OK, di_record := file_records f ! i\<rparr>"
  have w1: "w1\<lparr>w_cache := None\<rparr> = w1" using c1(1) by simp
  have "GetBlobValue lib it w = Some (?it, w1)"
    using b v(1) pf(1) pf'(1) by (simp add: GetBlobValue_def n(1) Let_def w1)
  moreover have "files_ok lib w1 ?it"
    by (rule files_ok_insert [OF files_ok_still [OF ok pf(2)] stillD [OF pf(2) f(1)]]) (simp add: pf'(2) c1(2))
  ultimately show thesis by (rule that [OF _ pf(2)]) simp_all
qed

text \<open>An entry as the iterator shows it, and the iterator of a snapshot \<open>es\<close>, made in the world \<open>w0\<close>, at a position.\<close>

definition shown :: "BlobLib \<Rightarrow> u32 \<Rightarrow> World \<Rightarrow> bytes \<times> base_entry \<Rightarrow> bytes option \<times> bytes option" where
  "shown lib cf w0 x = (Some (fst x), map_option snd (entry_result lib cf (snd x) w0))"

definition iterating :: "BlobLib \<Rightarrow> u32 \<Rightarrow> World \<Rightarrow> (bytes \<times> base_entry) list \<Rightarrow> DBIterator \<Rightarrow> World \<Rightarrow> bool" where
  "iterating lib cf w0 es it w \<longleftrightarrow> di_cf it = cf \<and> \<not> di_key_only it \<and> bt_entries (di_iter it) = es \<and> bt_io (di_iter it) = [] \<and>
     files_ok lib w it \<and> still lib cf w0 w \<and> w_cache w0 = None \<and> (\<forall>x \<in> set es. readable lib cf w0 (snd x))"

definition placed_at :: "BlobLib \<Rightarrow> u32 \<Rightarrow> World \<Rightarrow> (bytes \<times> base_entry) list \<Rightarrow> nat option \<Rightarrow> DBIterator \<times> World \<Rightarrow> bool" where
  "placed_at lib cf w0 es p s \<longleftrightarrow> (case s of (it, w) \<Rightarrow>
     iterating lib cf w0 es it w \<and> bt_pos (di_iter it) = p \<and> DBIter_status it = OK \<and>
     (case p of None \<Rightarrow> \<not> DBIter_Valid it
      | Some i \<Rightarrow> i < length es \<and> DBIter_Valid it \<and> (DBIter_key it, DBIter_value it) = shown lib cf w0 (es ! i)))"

lemma DBIter_settle_placed:
  assumes it: "iterating lib cf w0 es it w" and p: "bt_pos (di_iter it) = p" "bt_status (di_iter it) = OK" "\<And>i. p = Some i \<Longrightarrow> i < length es"
  shows "\<exists>s. DBIter_settle lib it w = Some s \<and> placed_at lib cf w0 es p s"
proof (cases p)
  case None
  then have "DBIter_settle lib it w = Some (it\<lparr>di_status := OK\<rparr>, w)"
    using p by (simp add: DBIter_settle_def ShouldGetBlobValue_def bt_entry_def)
  then show ?thesis
    using it p None by (simp add: placed_at_def iterating_def DBIter_Valid_def DBIter_status_def)
next
  case (Some i)
  obtain k v blob where e: "es ! i = (k, v, blob)" by (metis prod.exhaust)
  have b: "bt_entry (di_iter it) = Some (k, v, blob)" using it p(1) Some e by (simp add: bt_entry_def iterating_def)
  have i: "i < length es" "\<not> di_key_only it" using p(3) Some it by (simp_all add: iterating_def)
  show ?thesis
  proof (cases blob)
    case False
    then have "DBIter_settle lib it w = Some (it\<lparr>di_status := OK\<rparr>, w)" using b p(2) by (simp add: DBIter_settle_def ShouldGetBlobValue_def)
    moreover have "entry_result lib cf (v, False) w0 = Some (OK, v)" by (simp add: entry_result_def read_entry_def)
    ultimately show ?thesis
      using it p Some e b i False
      by (simp add: placed_at_def iterating_def DBIter_Valid_def DBIter_status_def DBIter_key_def DBIter_value_def shown_def)
  next
    case True
    have "readable lib cf w0 (v, True)" using it i(1) e True by (auto simp: iterating_def dest!: bspec [OF _ nth_mem])
    then obtain f j bi where f: "on_disk lib cf f w0" "j < length (file_records f)"
      "DecodeInto (BlobIndex_DecodeFrom BlobIndex_zero) v False = Inr bi" "BlobIndex_eq (file_index lib f j) bi"
      unfolding readable_def by auto
    have c: "di_cf it = cf" "w_cache w0 = None" "w_cache w = None" "still lib cf w0 w" using it by (simp_all add: iterating_def still_def)
    have ei: "entry_index (v, True) = Some bi" using f(3) by (auto simp: entry_index_def DecodeInto_def split: sum.splits if_splits)
    have er: "entry_result lib cf (v, True) w0 = Some (OK, rec_value (file_records f ! j))"
      by (rule entry_result_record [OF f(1) c(2) f(2) ei f(4)])
    have fw: "on_disk lib (di_cf it) f w" using stillD [OF c(4) f(1)] c(1) by simp
    obtain it' w' where g: "GetBlobValue lib it w = Some (it', w')" "still lib (di_cf it) w w'" "files_ok lib w' it'" "di_status it' = OK"
      "di_record it' = file_records f ! j" "di_iter it' = di_iter it" "di_cf it' = di_cf it" "di_key_only it' = di_key_only it"
      by (rule GetBlobValue_reads [OF fw f(2) c(3) _ p(2) _ f(3,4)]) (use it b True in \<open>simp_all add: iterating_def\<close>)
    have "DBIter_settle lib it w = Some (it', w')" using b True i(2) g(1) by (simp add: DBIter_settle_def ShouldGetBlobValue_def)
    moreover have "still lib cf w0 w'" using still_trans [OF c(4)] g(2) c(1) by simp
    ultimately show ?thesis
      using it p Some e b i True g er
      by (simp add: placed_at_def iterating_def DBIter_Valid_def DBIter_status_def DBIter_key_def DBIter_value_def shown_def)
  qed
qed

text \<open>Between two moves other threads take the world to another one.\<close>

definition undisturbed :: "BlobLib \<Rightarrow> u32 \<Rightarrow> (World \<Rightarrow> World) \<Rightarrow> bool" where
  "undisturbed lib cf env \<longleftrightarrow> (\<forall>w. still lib cf w (env w))"

lemma moved_placed:
  assumes it: "iterating lib cf w0 es it w" and env: "undisturbed lib cf env" and p: "\<And>i. p = Some i \<Longrightarrow> i < length es"
  shows "\<exists>s. DBIter_settle lib (it\<lparr>di_iter := bt_move p (di_iter it)\<rparr>) (env w) = Some s \<and> placed_at lib cf w0 es p s"
proof (rule DBIter_settle_placed)
  have s: "still lib cf w (env w)" using env by (simp add: undisturbed_def)
  have "files_ok lib (env w) it" using it files_ok_still [of lib w it "env w"] s by (simp add: iterating_def)
  then show "iterating lib cf w0 es (it\<lparr>di_iter := bt_move p (di_iter it)\<rparr>) (env w)"
    using it still_trans [OF _ s] by (simp add: iterating_def bt_move_def)
qed (use it p in \<open>simp_all add: bt_move_def iterating_def\<close>)

definition left_forward :: "BlobLib \<Rightarrow> u32 \<Rightarrow> (World \<Rightarrow> World) \<Rightarrow> World \<Rightarrow> (bytes \<times> base_entry) list \<Rightarrow> DBIterator \<times> World \<Rightarrow>
    (bytes option \<times> bytes option) list \<Rightarrow> bool" where
  "left_forward lib cf env w0 es s rs \<longleftrightarrow> undisturbed lib cf env \<and>
     (\<exists>i \<le> length es. placed_at lib cf w0 es (if i < length es then Some i else None) s \<and> rs = map (shown lib cf w0) (drop i es))"

definition left_backward :: "BlobLib \<Rightarrow> u32 \<Rightarrow> (World \<Rightarrow> World) \<Rightarrow> World \<Rightarrow> (bytes \<times> base_entry) list \<Rightarrow> DBIterator \<times> World \<Rightarrow>
    (bytes option \<times> bytes option) list \<Rightarrow> bool" where
  "left_backward lib cf env w0 es s rs \<longleftrightarrow> undisturbed lib cf env \<and>
     (\<exists>i \<le> length es. placed_at lib cf w0 es (bt_before i) s \<and> rs = map (shown lib cf w0) (rev (take i es)))"

abbreviation iter_shows :: "DBIterator \<times> World \<Rightarrow> bytes option \<times> bytes option" where
  "iter_shows s \<equiv> (DBIter_key (fst s), DBIter_value (fst s))"

interpretation forward: cursor "\<lambda>s. DBIter_Next lib (fst s) (env (snd s))" "\<lambda>s. DBIter_Valid (fst s)" iter_shows "left_forward lib cf env w0 es"
  for lib cf env w0 es
proof
  fix lib cf env w0 es s r rs
  assume "left_forward lib cf env w0 es s (r # rs)"
  then obtain i where j: "placed_at lib cf w0 es (if i < length es then Some i else None) s" "r # rs = map (shown lib cf w0) (drop i es)"
    and env: "undisturbed lib cf env" by (auto simp: left_forward_def)
  have "i < length es" using j(2) by (cases "i < length es") auto
  then have i: "i < length es" "placed_at lib cf w0 es (Some i) s" "r = shown lib cf w0 (es ! i)" "rs = map (shown lib cf w0) (drop (Suc i) es)"
    using j Cons_nth_drop_Suc [of i es, symmetric] by simp_all
  obtain it w where s: "s = (it, w)" by (cases s)
  have it: "iterating lib cf w0 es it w" "DBIter_Valid it" "bt_pos (di_iter it) = Some i" using i(2) by (simp_all add: placed_at_def s)
  have "k < length es" if "bt_at (Suc i) (di_iter it) = Some k" for k using that it(1) by (auto simp: bt_at_def iterating_def split: if_splits)
  from moved_placed [OF it(1) env this]
  obtain s' where "DBIter_settle lib (it\<lparr>di_iter := bt_move (bt_at (Suc i) (di_iter it)) (di_iter it)\<rparr>) (env w) = Some s'"
    "placed_at lib cf w0 es (bt_at (Suc i) (di_iter it)) s'" by blast
  then have "DBIter_Next lib it (env w) = Some s' \<and> left_forward lib cf env w0 es s' rs"
    using it i(1,4) env by (auto simp: DBIter_Next_def bt_Next_def left_forward_def bt_at_def iterating_def intro!: exI [of _ "Suc i"] split: if_splits)
  then show "DBIter_Valid (fst s) \<and> iter_shows s = r \<and> (\<exists>s'. DBIter_Next lib (fst s) (env (snd s)) = Some s' \<and> left_forward lib cf env w0 es s' rs)"
    using i(2,3) by (simp add: placed_at_def s)
next
  show "left_forward lib cf env w0 es s [] \<Longrightarrow> \<not> DBIter_Valid (fst s)" for lib cf env w0 es s
    by (auto simp: left_forward_def placed_at_def split: if_splits)
qed

interpretation backward: cursor "\<lambda>s. DBIter_Prev lib (fst s) (env (snd s))" "\<lambda>s. DBIter_Valid (fst s)" iter_shows "left_backward lib cf env w0 es"
  for lib cf env w0 es
proof
  fix lib cf env w0 es s r rs
  assume "left_backward lib cf env w0 es s (r # rs)"
  then obtain j where j: "j \<le> length es" "placed_at lib cf w0 es (bt_before j) s" "r # rs = map (shown lib cf w0) (rev (take j es))"
    and env: "undisturbed lib cf env" by (auto simp: left_backward_def)
  then obtain i where ji: "j = Suc i" by (cases j) auto
  then have i: "i < length es" "placed_at lib cf w0 es (Some i) s" "r = shown lib cf w0 (es ! i)" "rs = map (shown lib cf w0) (rev (take i es))"
    using j by (simp_all add: bt_before_def take_Suc_conv_app_nth)
  obtain it w where s: "s = (it, w)" by (cases s)
  have it: "iterating lib cf w0 es it w" "DBIter_Valid it" "bt_pos (di_iter it) = Some i" using i(2) by (simp_all add: placed_at_def s)
  have "k < length es" if "bt_before i = Some k" for k using that i(1) by (auto simp: bt_before_def split: if_splits)
  from moved_placed [OF it(1) env this]
  obtain s' where "DBIter_settle lib (it\<lparr>di_iter := bt_move (bt_before i) (di_iter it)\<rparr>) (env w) = Some s'" "placed_at lib cf w0 es (bt_before i) s'"
    by blast
  then have "DBIter_Prev lib it (env w) = Some s' \<and> left_backward lib cf env w0 es s' rs"
    using it i(1,4) env by (auto simp: DBIter_Prev_def bt_Prev_def left_backward_def intro!: exI [of _ i])
  then show "DBIter_Valid (fst s) \<and> iter_shows s = r \<and> (\<exists>s'. DBIter_Prev lib (fst s) (env (snd s)) = Some s' \<and> left_backward lib cf env w0 es s' rs)"
    using i(2,3) by (simp add: placed_at_def s)
next
  show "left_backward lib cf env w0 es s [] \<Longrightarrow> \<not> DBIter_Valid (fst s)" for lib cf env w0 es s
    by (auto simp: left_backward_def placed_at_def bt_before_def split: if_splits)
qed

section \<open>Properties\<close>

text \<open>A key with what \<open>Get\<close> returns for it.\<close>

definition got :: "BlobLib \<Rightarrow> u32 \<Rightarrow> World \<Rightarrow> bytes \<times> base_entry \<Rightarrow> bytes option \<times> bytes option" where
  "got lib cf w x = (Some (fst x), map_option snd (Get_now lib cf (fst x) w))"

definition forward_all :: "BlobLib \<Rightarrow> (World \<Rightarrow> World) \<Rightarrow> nat \<Rightarrow> DBIterator \<times> World \<Rightarrow> (bytes option \<times> bytes option) list option" where
  "forward_all lib env = collect (\<lambda>s. DBIter_Next lib (fst s) (env (snd s))) (\<lambda>s. DBIter_Valid (fst s)) iter_shows"

definition backward_all :: "BlobLib \<Rightarrow> (World \<Rightarrow> World) \<Rightarrow> nat \<Rightarrow> DBIterator \<times> World \<Rightarrow> (bytes option \<times> bytes option) list option" where
  "backward_all lib env = collect (\<lambda>s. DBIter_Prev lib (fst s) (env (snd s))) (\<lambda>s. DBIter_Valid (fst s)) iter_shows"

lemma seek_forward:
  assumes it: "iterating lib cf w es it w" and env: "undisturbed lib cf env" and i: "i \<le> length es"
  shows "\<exists>s. DBIter_settle lib (it\<lparr>di_iter := bt_move (bt_at i (di_iter it)) (di_iter it)\<rparr>) w = Some s \<and>
    forward_all lib env (Suc (length es)) s = Some (map (shown lib cf w) (drop i es))"
proof -
  have p: "bt_at i (di_iter it) = (if i < length es then Some i else None)" using it by (simp add: bt_at_def iterating_def)
  have "undisturbed lib cf (\<lambda>w. w)" by (simp add: undisturbed_def)
  from moved_placed [OF it this, of "bt_at i (di_iter it)"] obtain s
    where s: "DBIter_settle lib (it\<lparr>di_iter := bt_move (bt_at i (di_iter it)) (di_iter it)\<rparr>) w = Some s"
      "placed_at lib cf w es (bt_at i (di_iter it)) s" unfolding p by (metis option.distinct(1) option.inject)
  then have "left_forward lib cf env w es s (map (shown lib cf w) (drop i es))" unfolding left_forward_def p using env i by blast
  then have "forward_all lib env (Suc (length es)) s = Some (map (shown lib cf w) (drop i es))"
    unfolding forward_all_def by (rule forward.collect_all) simp
  with s(1) show ?thesis by blast
qed

lemma seek_backward:
  assumes it: "iterating lib cf w es it w" and env: "undisturbed lib cf env" and i: "i \<le> length es"
  shows "\<exists>s. DBIter_settle lib (it\<lparr>di_iter := bt_move (bt_before i) (di_iter it)\<rparr>) w = Some s \<and>
    backward_all lib env (Suc (length es)) s = Some (map (shown lib cf w) (rev (take i es)))"
proof -
  have "undisturbed lib cf (\<lambda>w. w)" by (simp add: undisturbed_def)
  moreover have "k < length es" if "bt_before i = Some k" for k using that i by (auto simp: bt_before_def split: if_splits)
  ultimately obtain s where s: "DBIter_settle lib (it\<lparr>di_iter := bt_move (bt_before i) (di_iter it)\<rparr>) w = Some s" "placed_at lib cf w es (bt_before i) s"
    using moved_placed [OF it, of "\<lambda>w. w" "bt_before i"] by blast
  then have "left_backward lib cf env w es s (map (shown lib cf w) (rev (take i es)))" unfolding left_backward_def using env i by blast
  then have "backward_all lib env (Suc (length es)) s = Some (map (shown lib cf w) (rev (take i es)))"
    unfolding backward_all_def by (rule backward.collect_all) simp
  with s(1) show ?thesis by blast
qed

lemma readable_result:
  assumes r: "readable lib cf w e" and c: "w_cache w = None"
  shows "\<exists>v. entry_result lib cf e w = Some (OK, v)"
proof (cases "snd e")
  case True
  then obtain f i bi where f: "on_disk lib cf f w" "i < length (file_records f)"
    "DecodeInto (BlobIndex_DecodeFrom BlobIndex_zero) (fst e) False = Inr bi" "BlobIndex_eq (file_index lib f i) bi"
    using r unfolding readable_def by blast
  have "entry_index e = Some bi" using True f(3) by (auto simp: entry_index_def DecodeInto_def split: sum.splits if_splits)
  then show ?thesis using entry_result_record [OF f(1) c f(2) _ f(4)] by blast
qed (cases e, simp add: entry_result_def read_entry_def)


lemma file_index_decodes:
  "DecodeInto (BlobIndex_DecodeFrom BlobIndex_zero) (BlobIndex_EncodeTo [] (file_index lib f i)) False = Inr (file_index lib f i)"
proof -
  have "bi_old_file_number (file_index lib f i) = 0" "bi_old_handle (file_index lib f i) = BlobHandle_zero"
    by (simp_all add: file_index_def BlobIndex_zero_def split: prod.splits)
  then show ?thesis by (simp add: DecodeInto_def BlobIndex_Decode_Encode)
qed

definition demo_iter_world :: World where
  "demo_iter_world = demo_gc_world\<lparr>w_mutex := False\<rparr>"

definition demo_entries :: "(bytes \<times> base_entry) list" where
  "demo_entries = [([1], BlobIndex_EncodeTo [] (file_index demo_lib demo_gc_file 0), True), ([3], [9], False)]"


end
