(* ===== verification/Titan_Filter.thy ===== *)
theory Titan_Filter
  imports Titan_DBIter
begin

text \<open>
  The compaction filter (\<open>compaction_filter.h\<close>): the filter of the user is called with the value in place of
  its blob index.  The filter of the user is a parameter.  A failing assertion has the value \<open>None\<close>, and so has reading
  beyond the known memory.
\<close>

section \<open>Model\<close>

datatype Decision = kKeep | kRemove | kChangeValue | kRemoveAndSkipUntil | kChangeBlobIndex | kIOError | kUndetermined

datatype FilterValueType = kValue | kMergeOperand | kBlobIndex

text \<open>A decision with the new value and the key to skip to.\<close>

type_synonym filter_result = "Decision \<times> bytes \<times> bytes"

type_synonym user_filter = "int \<Rightarrow> bytes \<Rightarrow> u64 \<Rightarrow> FilterValueType \<Rightarrow> bytes \<Rightarrow> filter_result"

record CompactionFilter =
  cp_cf :: u32
  cp_original :: user_filter
  cp_skip_value :: bool

text \<open>\<open>Slice(const char*)\<close>: the bytes up to the first zero, in the slice \<open>v\<close> or in the memory \<open>behind\<close> it.\<close>

definition c_str :: "bytes \<Rightarrow> bytes \<Rightarrow> bytes option" where
  "c_str v behind = (if 0 \<in> set (v @ behind) then Some (takeWhile (\<lambda>b. b \<noteq> 0) (v @ behind)) else None)"

definition locked_bg_error :: "status \<Rightarrow> World \<Rightarrow> World option" where
  "locked_bg_error s w = map_option (\<lambda>w. mutex_Unlock (SetBGError s w)) (mutex_Lock w)"

definition kept :: filter_result where
  "kept = (kKeep, [], [])"

definition FilterV3 :: "BlobLib \<Rightarrow> CompactionFilter \<Rightarrow> bytes \<Rightarrow> int \<Rightarrow> bytes \<Rightarrow> u64 \<Rightarrow> FilterValueType \<Rightarrow> bytes \<Rightarrow> World \<Rightarrow>
    (filter_result \<times> World) option" where
  "FilterV3 lib cf behind level key seqno value_type v w =
     (if cp_skip_value cf then Some (cp_original cf level key seqno value_type [], w)
      else if value_type \<noteq> kBlobIndex then Some (cp_original cf level key seqno value_type v, w)
      else
        (case c_str v behind of
           None \<Rightarrow> None
         | Some original_value \<Rightarrow>
             (case BlobIndex_DecodeFrom BlobIndex_zero original_value of
                Inl s \<Rightarrow> map_option (\<lambda>w. (kept, w)) (locked_bg_error s w)
              | Inr (blob_index, _) \<Rightarrow>
                  (case w_storage w (cp_cf cf) of
                     None \<Rightarrow> None
                   | Some bs \<Rightarrow>
                       (case Storage_Get lib bs blob_index w of
                          None \<Rightarrow> None
                        | Some (Inl s, w) \<Rightarrow>
                            if IsCorruption s then Some (kept, w) else map_option (\<lambda>w. (kept, w)) (locked_bg_error s w)
                        | Some (Inr record, w) \<Rightarrow>
                            (let (decision, new_value, skip_until) = cp_original cf level key seqno kValue (rec_value record) in
                             if decision = kChangeValue then
                               map_option (\<lambda>w. ((kKeep, new_value, skip_until), w))
                                 (locked_bg_error (NotSupported ''It would be a problem if it change the value whereas the value_type is still kBlobIndex.'') w)
                             else Some ((decision, new_value, skip_until), w)))))))"

text \<open>The factory: the filter of the user is given, or made by a factory of the user, which may give none.\<close>

definition CreateCompactionFilter :: "user_filter option \<Rightarrow> user_filter option option \<Rightarrow> bool \<Rightarrow> u32 \<Rightarrow> World \<Rightarrow> CompactionFilter option option" where
  "CreateCompactionFilter original_filter from_factory skip_value cf w =
     (if original_filter = None \<and> from_factory = None then None
      else
        (case mutex_Lock w of
           None \<Rightarrow> None
         | Some w \<Rightarrow>
             (case w_storage w cf of
                None \<Rightarrow> None
              | Some _ \<Rightarrow>
                  Some (case (case original_filter of Some f \<Rightarrow> Some f | None \<Rightarrow> Option.bind from_factory id) of
                          None \<Rightarrow> None
                        | Some f \<Rightarrow> Some \<lparr>cp_cf = cf, cp_original = f, cp_skip_value = skip_value\<rparr>))))"

section \<open>Zero bytes in an index\<close>

lemma varint_zero_byte: "0 \<in> set (EncodeVarint64 x) \<longleftrightarrow> x = 0"
proof (induction x rule: EncodeVarint64.induct)
  case (1 v)
  show ?case
  proof (cases "v \<ge> 128")
    case True
    have "bit (ucast ((v AND 127) OR 128) :: byte) 7" by (simp add: bit_simps)
    then have "(ucast ((v AND 127) OR 128) :: byte) \<noteq> 0" by auto
    moreover have "drop_bit 7 v \<noteq> 0"
    proof
      assume "drop_bit 7 v = 0"
      then have "unat v div 128 = 0" by (simp add: unat_drop_bit_7 [symmetric])
      then show False using True by (simp add: word_le_nat_alt)
    qed
    ultimately show ?thesis using 1 [OF True] True by (subst EncodeVarint64.simps) auto
  next
    case False
    have "(ucast v :: byte) = 0 \<longleftrightarrow> v = 0"
    proof
      assume "(ucast v :: byte) = 0"
      then have "unat (ucast v :: byte) = 0" by simp
      then have "unat v mod 256 = 0" by (simp add: unsigned_ucast_eq take_bit_eq_mod)
      moreover have "unat v < 128" using False by (simp add: word_le_nat_alt not_le)
      ultimately show "v = 0" by (simp add: unat_eq_0)
    qed simp
    then show ?thesis using False by (subst EncodeVarint64.simps) auto
  qed
qed

lemma takeWhile_until: "x \<notin> set v \<Longrightarrow> takeWhile (\<lambda>b. b \<noteq> x) (v @ x # rest) = v"
  by (induction v) auto

lemma c_str_terminated: "0 \<notin> set v \<Longrightarrow> c_str v (0 # behind) = Some v"
  by (simp add: c_str_def takeWhile_until)

lemma c_str_cut: "0 \<notin> set v \<Longrightarrow> c_str (v @ 0 # rest) behind = Some v"
  by (simp add: c_str_def takeWhile_until)

lemma index_user_form:
  "bi_old_file_number bi = 0 \<Longrightarrow> BlobIndex_EncodeTo [] bi = [kBlobRecord] @ EncodeVarint64 (bi_file_number bi) @
     EncodeVarint64 (bh_offset (bi_handle bi)) @ EncodeVarint64 (bh_size (bi_handle bi)) @ EncodeVarint64 (bh_index (bi_handle bi))"
  by (simp add: BlobIndex_EncodeTo_def BlobHandle_EncodeTo_def PutVarint64_def Let_def)

text \<open>An index whose numbers are not zero.\<close>

definition no_zero :: "BlobIndex \<Rightarrow> bool" where
  "no_zero bi \<longleftrightarrow> bi_file_number bi \<noteq> 0 \<and> bh_offset (bi_handle bi) \<noteq> 0 \<and> bh_size (bi_handle bi) \<noteq> 0"

lemma GetVarint64_Nil: "GetVarint64 [] = None"
  by (simp add: GetVarint64_def GetVarint64Ptr_loop.simps)

lemma cut_index_fails:
  "BlobIndex_DecodeFrom BlobIndex_zero ([kBlobRecord] @ EncodeVarint64 n @ EncodeVarint64 off @ EncodeVarint64 sz) =
     Inl (Corruption ''BlobIndex2: Corruption: BlobHandle'')"
  using GetVarint64_Encode [of sz "[]"]
  by (simp add: BlobIndex_DecodeFrom_def GetChar_def BlobHandle_DecodeFrom_def GetVarint64_Encode GetVarint64_Nil)

lemma Storage_Get_reads:
  assumes f: "on_disk lib cf f w" "i < length (file_records f)" and cache: "w_cache w = None" and bs: "w_storage w cf = Some bs"
    and bi: "BlobIndex_eq (file_index lib f i) bi"
  obtains w' where "Storage_Get lib bs bi w = Some (Inr (file_records f ! i), w')" "w_mutex w' = w_mutex w" "w_bg_error w' = w_bg_error w"
    "w_base w' = w_base w"
proof -
  let ?n = "file_number f" and ?rd = "file_reader lib f (w_prefix w (file_number f))"
  have n: "bi_file_number bi = ?n" "BlobHandle_eq (bi_handle (file_index lib f i)) (bi_handle bi)"
    using bi by (auto simp: BlobIndex_eq_def file_index_def split: prod.splits)
  obtain m where m: "FindFile bs ?n = Some m" "fm_number m = ?n" "fm_size m = of_nat (length (file_data lib f))"
    using f(1) bs by (auto simp: on_disk_def)
  have g: "file_good lib f" "w_files w ?n = Some (file_data lib f)" using f(1) by (simp_all add: on_disk_def)
  let ?w = "w\<lparr>w_readers := (w_readers w)(?n \<mapsto> ?rd)\<rparr>"
  have "Cache_FindFile lib ?n (fm_size m) w = Some (Inr ?rd, if w_readers w ?n = None then ?w else w)"
    using f(1) g file_reader_opens [OF g(1)] by (auto simp: Cache_FindFile_def NewRandomAccessFile_def m(3) on_disk_def split: option.splits)
  moreover have "Reader_Get lib (bi_handle bi) ?rd None = Some (Inr (file_records f ! i), ?rd, None)"
    using file_reader_reads [OF g(1) f(2) n(2)] by (simp add: Reader_Get_def)
  ultimately have "\<exists>w'. Cache_Get lib ?n (fm_size m) (bi_handle bi) w = Some (Inr (file_records f ! i), w') \<and> w_mutex w' = w_mutex w \<and>
      w_bg_error w' = w_bg_error w \<and> w_base w' = w_base w"
    using cache by (cases "w_readers w ?n") (simp_all add: Cache_Get_def)
  then show thesis using that m(1,2) n(1) by (auto simp: Storage_Get_def)
qed

section \<open>Properties\<close>

text \<open>C18: the user's filter sees the value.  For an index of which no number is zero, with a zero byte behind it in memory, the
  filter decides as the user's filter does on the value that is read; only a change of the value is refused, and stops writes.\<close>

theorem filter_sees_value:
  assumes f: "on_disk lib (cp_cf cf) f w" "i < length (file_records f)" and cache: "w_cache w = None" and m: "\<not> w_mutex w"
    and nz: "no_zero (file_index lib f i)" "bh_index (bi_handle (file_index lib f i)) \<noteq> 0" and skip: "\<not> cp_skip_value cf"
    and orig: "cp_original cf level key seqno kValue (rec_value (file_records f ! i)) = (d, nv, su)"
  shows "\<exists>w'. FilterV3 lib cf (0 # behind) level key seqno kBlobIndex (BlobIndex_EncodeTo [] (file_index lib f i)) w =
      Some ((if d = kChangeValue then kKeep else d, nv, su), w') \<and> w_base w' = w_base w \<and> \<not> w_mutex w' \<and>
    (if d = kChangeValue then w_bg_error w' \<noteq> OK else w_bg_error w' = w_bg_error w)"
proof -
  let ?bi = "file_index lib f i"
  obtain bs where bs: "w_storage w (cp_cf cf) = Some bs" using f(1) by (auto simp: on_disk_def)
  have old: "bi_old_file_number ?bi = 0" by (simp add: file_index_def BlobIndex_zero_def split: prod.splits)
  have "(0 :: byte) \<notin> set (BlobIndex_EncodeTo [] ?bi)"
    using nz by (simp add: index_user_form [OF old] no_zero_def varint_zero_byte kBlobRecord_def)
  then have cs: "c_str (BlobIndex_EncodeTo [] ?bi) (0 # behind) = Some (BlobIndex_EncodeTo [] ?bi)" by (rule c_str_terminated)
  obtain rest where dec: "BlobIndex_DecodeFrom BlobIndex_zero (BlobIndex_EncodeTo [] ?bi) = Inr (?bi, rest)"
    using file_index_decodes [of lib f i] by (auto simp: DecodeInto_def split: sum.splits if_splits)
  have "BlobIndex_eq ?bi ?bi" by (simp add: BlobIndex_eq_def BlobHandle_eq_def)
  from Storage_Get_reads [OF f cache bs this] obtain w' where g: "Storage_Get lib bs ?bi w = Some (Inr (file_records f ! i), w')"
    "w_mutex w' = w_mutex w" "w_bg_error w' = w_bg_error w" "w_base w' = w_base w" .
  show ?thesis
    using skip cs dec bs g orig m
    by (auto simp: FilterV3_def locked_bg_error_def mutex_Lock_def mutex_Unlock_def SetBGError_def)
qed

definition demo_filter :: CompactionFilter where
  "demo_filter = \<lparr>cp_cf = 0, cp_original = (\<lambda>level key seqno type v. (if v = [4] then kRemove else kKeep, [], [])), cp_skip_value = False\<rparr>"

lemma demo_second_index: "no_zero (file_index demo_lib demo_gc_file 1)" "bh_index (bi_handle (file_index demo_lib demo_gc_file 1)) = 1"
proof -
  let ?es = "file_es demo_lib 0 None demo_recs"
  have es: "length ?es = 2" by (simp add: file_es_def demo_recs_def)
  have "good_file demo_lib 0 None BlobFileHeader_default demo_recs" by (rule demo_good_file) simp
  then have len: "length (blob_file demo_lib None BlobFileHeader_default ?es) < 2 ^ 64" by (simp add: good_file_def)
  have ne: "enc_bytes (?es ! k) \<noteq> []" if "k < 2" for k using es_nonempty [of "?es ! k" demo_lib 0 None demo_recs] that es by (auto simp: enc_bytes_def)
  have "length (BlobFileHeader_EncodeTo [] BlobFileHeader_default) > 0"
    by (subst length_BlobFileHeader) (simp_all add: BlobFileHeader_wf_def BlobFileHeader_default_def BlobFileHeader_size_def)
  then have pos: "0 < length (lay BlobFileHeader_default (take 1 ?es))" "0 < length (enc_bytes (?es ! 1))"
    using ne [of 1] by (simp_all add: lay_def)
  have "length (lay BlobFileHeader_default (take 1 ?es)) < 2 ^ 64" "length (enc_bytes (?es ! 1)) < 2 ^ 64"
    using blob_file_nth [of 1 ?es demo_lib None BlobFileHeader_default] es len by auto
  then show "no_zero (file_index demo_lib demo_gc_file 1)" "bh_index (bi_handle (file_index demo_lib demo_gc_file 1)) = 1"
    using pos unat_of_nat_u64
    by (auto simp: no_zero_def file_index_def demo_gc_file_def nth_handle_def BlobIndex_zero_def dest!: arg_cong [of _ _ unat])
qed

theorem filter_sees_value_witness:
  "\<exists>w'. FilterV3 demo_lib demo_filter [0] 3 [3] 7 kBlobIndex (BlobIndex_EncodeTo [] (file_index demo_lib demo_gc_file 1)) demo_iter_world =
     Some ((kRemove, [], []), w')"
proof -
  let ?w = demo_iter_world
  have d: "on_disk demo_lib (cp_cf demo_filter) demo_gc_file ?w"
    using demo_gc_on_disk by (simp add: on_disk_def demo_iter_world_def w_storage_def demo_filter_def)
  have r: "1 < length (file_records demo_gc_file)" "rec_value (file_records demo_gc_file ! 1) = [4]" by (simp_all add: demo_gc_file_def demo_recs_def)
  have w: "w_cache ?w = None" "\<not> w_mutex ?w" by (simp_all add: demo_iter_world_def demo_gc_world_def)
  have o: "cp_original demo_filter 3 [3] 7 kValue (rec_value (file_records demo_gc_file ! 1)) = (kRemove, [], [])" "\<not> cp_skip_value demo_filter"
    unfolding r(2) by (simp_all add: demo_filter_def)
  show ?thesis using filter_sees_value [OF d r(1) w demo_second_index(1) _ o(2,1), of "[]"] demo_second_index(2) by auto
qed

text \<open>The index of the first record of a file stops the database.  Its number of the record is zero, the index is cut off there
  and cannot be decoded: the user's filter is not called, the entry stays, and no user can write any more.\<close>

theorem filter_first_record_fails:
  assumes nz: "no_zero bi" "bi_old_file_number bi = 0" and first: "bh_index (bi_handle bi) = 0" and cf: "\<not> cp_skip_value cf" and w: "\<not> w_mutex w"
  shows "\<exists>w'. FilterV3 lib cf behind level key seqno kBlobIndex (BlobIndex_EncodeTo [] bi) w = Some (kept, w') \<and>
    Titan_Put c k v w' = (Corruption ''BlobIndex2: Corruption: BlobHandle'', w') \<and> w_base w' = w_base w"
proof -
  let ?e = "[kBlobRecord] @ EncodeVarint64 (bi_file_number bi) @ EncodeVarint64 (bh_offset (bi_handle bi)) @ EncodeVarint64 (bh_size (bi_handle bi))"
  have "EncodeVarint64 0 = [0 :: byte]" by (subst EncodeVarint64.simps) simp
  then have e: "BlobIndex_EncodeTo [] bi = ?e @ 0 # []" by (simp add: index_user_form [OF nz(2)] first)
  have "(0 :: byte) \<notin> set ?e" using nz(1) by (simp add: no_zero_def varint_zero_byte kBlobRecord_def)
  then have "c_str (BlobIndex_EncodeTo [] bi) behind = Some ?e" unfolding e by (rule c_str_cut)
  then show ?thesis
    using cf w cut_index_fails [of "bi_file_number bi" "bh_offset (bi_handle bi)" "bh_size (bi_handle bi)"]
    by (simp add: FilterV3_def locked_bg_error_def mutex_Lock_def mutex_Unlock_def SetBGError_def Titan_Put_def)
qed

definition demo_first_index :: BlobIndex where
  "demo_first_index = BlobIndex_zero\<lparr>bi_file_number := 3, bi_handle := \<lparr>bh_offset = 8, bh_size = 40, bh_index = 0\<rparr>\<rparr>"

theorem filter_first_record_fails_witness:
  "\<exists>w'. FilterV3 demo_lib demo_filter [] 3 [1] 7 kBlobIndex (BlobIndex_EncodeTo [] demo_first_index) demo_iter_world = Some (kept, w') \<and>
     fst (Titan_Put 0 [1] [1] w') \<noteq> OK"
proof -
  have "no_zero demo_first_index" "bi_old_file_number demo_first_index = 0" "bh_index (bi_handle demo_first_index) = 0"
    "\<not> cp_skip_value demo_filter" "\<not> w_mutex demo_iter_world"
    by (simp_all add: no_zero_def demo_first_index_def BlobIndex_zero_def demo_filter_def demo_iter_world_def)
  from filter_first_record_fails [OF this, of demo_lib "[]" 3 "[1]" 7 0 "[1]" "[1]"] show ?thesis by auto
qed

end
