(* ===== verification/Titan_Checkpoint.thy ===== *)
theory Titan_Checkpoint
  imports Titan_Recovery
begin

text \<open>
  Checkpoints (\<open>titan_checkpoint_impl.cc\<close>), the switch that keeps blob files from being deleted
  (\<open>DisableFileDeletions\<close>, \<open>EnableFileDeletions\<close>, \<open>GetAllTitanFiles\<close> in \<open>db_impl.cc\<close>) and the deletion of
  obsolete files (\<open>db_impl_files.cc\<close>).  Names of files are written without the slash in front of
  them.  A failing assertion has the value \<open>None\<close>; log messages are left out.
\<close>

section \<open>State\<close>

text \<open>
  The file set of the database, the number of reasons not to delete files, the private and the final directory
  of the checkpoint, and the outcomes of the coming operations; an empty list stands for success.
\<close>

record TitanFiles =
  tf_set :: BlobFileSet
  tf_disabled :: int
  tf_private :: "Disk option"
  tf_target :: "Disk option"
  tf_io :: "status list"

definition tf_next :: "TitanFiles \<Rightarrow> status \<times> TitanFiles" where
  "tf_next t = (case tf_io t of [] \<Rightarrow> (OK, t) | s # ss \<Rightarrow> (s, t\<lparr>tf_io := ss\<rparr>))"

lemma tf_next_Nil [simp]: "tf_io t = [] \<Longrightarrow> tf_next t = (OK, t)"
  by (simp add: tf_next_def)

section \<open>Deletion of files\<close>

definition DisableFileDeletions :: "TitanFiles \<Rightarrow> status \<times> TitanFiles" where
  "DisableFileDeletions t =
     (let (s, t) = tf_next t in if s \<noteq> OK then (s, t) else (OK, t\<lparr>tf_disabled := tf_disabled t + 1\<rparr>))"

definition EnableFileDeletions :: "bool \<Rightarrow> TitanFiles \<Rightarrow> status \<times> TitanFiles" where
  "EnableFileDeletions force t =
     (let (s, t) = tf_next t in
      if s \<noteq> OK then (s, t)
      else if force then (OK, t\<lparr>tf_disabled := 0\<rparr>)
      else if tf_disabled t > 0 then (OK, t\<lparr>tf_disabled := tf_disabled t - 1\<rparr>)
      else (OK, t))"

text \<open>
  Every candidate is deleted, a failure leaves its file; the status that is returned stays \<open>OK\<close>.  The candidates are
  taken in the order they are collected in, the code sorts them by name.
\<close>

definition delete_blob :: "u64 \<Rightarrow> TitanFiles \<Rightarrow> TitanFiles" where
  "delete_blob n t =
     (let (s, t) = tf_next t; fs = tf_set t; d = fs_disk fs in
      if s \<noteq> OK then t
      else t\<lparr>tf_set := fs\<lparr>fs_disk := d\<lparr>dk_children := removeAll (BlobFileN n) (dk_children d)\<rparr>\<rparr>\<rparr>)"

definition delete_manifest :: "string \<Rightarrow> TitanFiles \<Rightarrow> TitanFiles" where
  "delete_manifest name t =
     (let (s, t) = tf_next t; fs = tf_set t; d = fs_disk fs in
      if s \<noteq> OK then t
      else t\<lparr>tf_set := fs\<lparr>fs_disk := d\<lparr>dk_manifests := (dk_manifests d)(name := None),
        dk_children := filter (\<lambda>f. case f of DescriptorN n \<Rightarrow> DescriptorFileName n \<noteq> name | _ \<Rightarrow> True) (dk_children d)\<rparr>\<rparr>\<rparr>)"

definition PurgeObsoleteFilesImpl :: "u64 \<Rightarrow> TitanFiles \<Rightarrow> (status \<times> TitanFiles) option" where
  "PurgeObsoleteFilesImpl oldest_sequence t =
     (if tf_disabled t > 0 then Some (OK, t)
      else
        (case FileSet_GetObsoleteFiles oldest_sequence (tf_set t) of
           None \<Rightarrow> None
         | Some ((blobs, manifests), fs) \<Rightarrow>
             Some (OK, fold delete_manifest (remdups manifests) (fold delete_blob (remdups blobs) (t\<lparr>tf_set := fs\<rparr>)))))"

definition GetAllTitanFiles :: "TitanFiles \<Rightarrow> (status + FileName list \<times> VersionEdit list) \<times> TitanFiles" where
  "GetAllTitanFiles t =
     (let (s, t) = DisableFileDeletions t in
      if s \<noteq> OK then (Inl s, t)
      else
        (let ((blobs, _), edits) = FileSet_GetAllFiles (tf_set t);
             files = map BlobFileN blobs @ [DescriptorN (fs_manifest_file_number (tf_set t)), OtherN ''CURRENT''];
             (s, t) = EnableFileDeletions False t in
         (if s \<noteq> OK then Inl s else Inr (files, edits), t)))"

section \<open>Checkpoint\<close>

text \<open>Operations on the private directory.\<close>

definition in_private :: "(Disk \<Rightarrow> Disk) \<Rightarrow> TitanFiles \<Rightarrow> TitanFiles" where
  "in_private f t = t\<lparr>tf_private := map_option f (tf_private t)\<rparr>"

definition blob_exists :: "u64 \<Rightarrow> TitanFiles \<Rightarrow> bool" where
  "blob_exists n t \<longleftrightarrow> BlobFileN n \<in> set (dk_children (fs_disk (tf_set t)))"

text \<open>A hard link or a copy of a blob file.\<close>

definition take_blob :: "u64 \<Rightarrow> TitanFiles \<Rightarrow> status \<times> TitanFiles" where
  "take_blob n t =
     (let (s, t) = tf_next t in
      if s \<noteq> OK then (s, t)
      else if \<not> blob_exists n t then (IOError ''No such file or directory'', t)
      else (OK, in_private (\<lambda>d. d\<lparr>dk_children := dk_children d @ [BlobFileN n]\<rparr>) t))"

fun add_records :: "string \<Rightarrow> VersionEdit list \<Rightarrow> TitanFiles \<Rightarrow> status \<times> TitanFiles" where
  "add_records name [] t = (OK, t)"
| "add_records name (edit # edits) t =
     (let (s, t) = tf_next t in
      if s \<noteq> OK then (s, t)
      else add_records name edits
             (in_private (\<lambda>d. d\<lparr>dk_manifests := (dk_manifests d)(name \<mapsto>
                (case dk_manifests d name of Some es \<Rightarrow> es | None \<Rightarrow> []) @ [Rec (VersionEdit_EncodeTo [] edit)])\<rparr>) t))"

definition CreateTitanManifest :: "string \<Rightarrow> u64 \<Rightarrow> VersionEdit list \<Rightarrow> TitanFiles \<Rightarrow> status \<times> TitanFiles" where
  "CreateTitanManifest name number edits t =
     (let (s, t) = tf_next t in
      if s \<noteq> OK then (s, t)
      else
        (let t = in_private (\<lambda>d. d\<lparr>dk_manifests := (dk_manifests d)(name \<mapsto> []), dk_children := dk_children d @ [DescriptorN number]\<rparr>) t;
             (s, t) = add_records name edits t in
         if s \<noteq> OK then (s, t) else tf_next t))"

text \<open>
  The loop over the files.  The status is the one of the file before; what is found on the way is the name of the
  manifest and whether there is a \<open>CURRENT\<close> file.
\<close>

fun checkpoint_loop :: "VersionEdit list \<Rightarrow> FileName list \<Rightarrow> status \<Rightarrow> bool \<Rightarrow> string option \<times> bool \<Rightarrow> TitanFiles \<Rightarrow>
    (status \<times> string option \<times> bool) \<times> TitanFiles" where
  "checkpoint_loop edits [] s same_fs found t = ((s, found), t)"
| "checkpoint_loop edits (OtherN name # files) s same_fs (manifest_fname, current) t =
     (if name \<noteq> ''CURRENT'' then ((Corruption ''Can't parse file name. This is very bad'', manifest_fname, current), t)
      else checkpoint_loop edits files s same_fs (manifest_fname, True) t)"
| "checkpoint_loop edits (DescriptorN number # files) s same_fs (manifest_fname, current) t =
     (let name = DescriptorFileName number; (s, t) = CreateTitanManifest name number edits t in
      checkpoint_loop edits files s same_fs (Some name, current) t)"
| "checkpoint_loop edits (BlobFileN n # files) s same_fs found t =
     (let ((s, same_fs), t) =
            (if same_fs
             then (let (s, t) = take_blob n t in ((if IsNotSupported s then (OK, False) else (s, True)), t))
             else ((s, False), t));
          (s, t) = (if \<not> same_fs then take_blob n t else (s, t)) in
      checkpoint_loop edits files s same_fs found t)"

text \<open>The status of writing \<open>CURRENT\<close> is dropped.\<close>

definition CreateCustomCheckpoint :: "TitanFiles \<Rightarrow> status \<times> TitanFiles" where
  "CreateCustomCheckpoint t =
     (case GetAllTitanFiles t of
        (Inl s, t) \<Rightarrow> (s, t)
      | (Inr (files, edits), t) \<Rightarrow>
          (let ((s, manifest_fname, current), t) = checkpoint_loop edits files OK True (None, False) t in
           (s, case manifest_fname of
                 Some name \<Rightarrow>
                   if s = OK \<and> current then
                     (let (s', t) = tf_next t in
                      if s' \<noteq> OK then t else in_private (\<lambda>d. d\<lparr>dk_current := Some (name @ [CHR 0x0A])\<rparr>) t)
                   else t
               | None \<Rightarrow> t)))"

text \<open>The deletions in the staging directory are taken as one operation, and their errors are dropped.\<close>

definition CleanStagingDirectory :: "TitanFiles \<Rightarrow> TitanFiles" where
  "CleanStagingDirectory t =
     (if tf_private t = None then t else (let (s, t) = tf_next t in if s \<noteq> OK then t else t\<lparr>tf_private := None\<rparr>))"

definition empty_disk :: Disk where
  "empty_disk = \<lparr>dk_current = None, dk_manifests = Map.empty, dk_children = []\<rparr>"

definition CreateDir :: "TitanFiles \<Rightarrow> status \<times> TitanFiles" where
  "CreateDir t =
     (let (s, t) = tf_next t in
      if s \<noteq> OK then (s, t)
      else if tf_private t \<noteq> None then (IOError ''File exists'', t)
      else (OK, t\<lparr>tf_private := Some empty_disk\<rparr>))"

definition checkpoint_install :: "TitanFiles \<Rightarrow> status \<times> TitanFiles" where
  "checkpoint_install t =
     (let (s, t) = tf_next t in
      if s \<noteq> OK then (s, t)
      else
        (let t = t\<lparr>tf_target := tf_private t, tf_private := None\<rparr>; (s, t) = tf_next t in if s \<noteq> OK then (s, t) else tf_next t))"

text \<open>The staging directory has its name once the base database has made its checkpoint; before that, cleaning up does nothing.\<close>

definition CreateCheckpoint :: "TitanFiles \<Rightarrow> (status \<times> TitanFiles) option" where
  "CreateCheckpoint t =
     (let (s, t) = tf_next t in
      if s \<noteq> OK then Some (s, t)
      else if tf_target t \<noteq> None then Some (InvalidArgument ''TitanDB checkpoint directory exists'', t)
      else
        (let (s, t) = DisableFileDeletions t;
             disabled_file_deletions = (s = OK);
             (s, t) = (if s = OK then tf_next t else (s, t));
             named = (s = OK);
             (s, t) = (if s = OK then CreateDir (CleanStagingDirectory t) else (s, t));
             (s, t) = (if s = OK then CreateCustomCheckpoint t else (s, t));
             (ss, t) = (if disabled_file_deletions then EnableFileDeletions False t else (OK, t)) in
         if ss \<noteq> OK then None
         else
           (let (s, t) = (if s = OK then checkpoint_install t else (s, t)) in
            Some (s, if s = OK \<or> \<not> named then t else CleanStagingDirectory t))))"

section \<open>What a checkpoint holds\<close>

text \<open>The blob files of all column families, and the edits of their manifest.\<close>

definition all_blobs :: "BlobFileSet \<Rightarrow> u64 list" where
  "all_blobs fs = concat (map (\<lambda>c. map fst (bs_files (snd c))) (fs_columns fs))"

definition all_edits :: "BlobFileSet \<Rightarrow> VersionEdit list" where
  "all_edits fs = SetNextFileNumber (fs_next_file_number fs) VersionEdit_new # map (files_edit (\<lambda>_. True)) (fs_columns fs)"

lemma GetAllFiles_all: "FileSet_GetAllFiles fs = ((all_blobs fs, DescriptorFileName (fs_manifest_file_number fs)), all_edits fs)"
proof -
  have "foldl (\<lambda>e p. VersionEdit_AddBlobFile (snd p) e) e xs = e\<lparr>ve_added := ve_added e @ map snd xs\<rparr>" for xs :: "(u64 \<times> BlobFileMeta) list" and e
    by (induction xs arbitrary: e) (simp_all add: VersionEdit_AddBlobFile_def)
  then show ?thesis
    by (simp add: FileSet_GetAllFiles_def all_blobs_def all_edits_def GetAllFiles_def files_edit_def SetColumnFamilyID_def VersionEdit_new_def)
qed

text \<open>The files that are taken, when \<open>os\<close> are the outcomes of the first links.\<close>

definition taken :: "u64 list \<Rightarrow> status list \<Rightarrow> u64 list" where
  "taken ns os = map fst (filter (\<lambda>x. snd x = OK) (zip ns (os @ replicate (length ns - length os) OK)))"

lemma taken_simps [simp]:
  "taken [] os = []" "taken (n # ns) [] = n # taken ns []" "taken (n # ns) (oc # os) = (if oc = OK then [n] else []) @ taken ns os"
  by (simp_all add: taken_def)

lemma taken_all [simp]: "taken ns [] = ns"
  by (induction ns) simp_all

definition with_blobs :: "u64 list \<Rightarrow> Disk \<Rightarrow> Disk" where
  "with_blobs ns d = d\<lparr>dk_children := dk_children d @ map BlobFileN ns\<rparr>"

lemma checkpoint_loop_blobs:
  assumes "tf_private t = Some d" "\<forall>n \<in> set ns. blob_exists n t" "length (tf_io t) \<le> length ns" "list_all (\<lambda>s. \<not> IsNotSupported s) (tf_io t)"
  shows "\<exists>s'. checkpoint_loop edits (map BlobFileN ns @ rest) s True found t =
    checkpoint_loop edits rest s' True found (t\<lparr>tf_io := [], tf_private := Some (with_blobs (taken ns (tf_io t)) d)\<rparr>)"
  using assms
proof (induction ns arbitrary: t d s)
  case Nil
  then have "t\<lparr>tf_io := [], tf_private := Some (with_blobs (taken [] (tf_io t)) d)\<rparr> = t" by (simp add: with_blobs_def)
  then show ?case by (metis append_Nil list.simps(8))
next
  case (Cons n ns)
  let ?s = "fst (tf_next t)" and ?t = "snd (take_blob n t)"
  have io: "tf_io (snd (tf_next t)) = tl (tf_io t)" "\<not> IsNotSupported ?s" "?s = (case tf_io t of [] \<Rightarrow> OK | oc # _ \<Rightarrow> oc)"
    using Cons.prems(4) by (auto simp: tf_next_def split: list.splits)
  have keep: "tf_set (snd (tf_next t)) = tf_set t" "tf_private (snd (tf_next t)) = Some d"
    using Cons.prems(1) by (auto simp: tf_next_def split: list.splits)
  let ?d = "if ?s = OK then with_blobs [n] d else d"
  have tb: "take_blob n t = (?s, snd (tf_next t)\<lparr>tf_private := Some ?d\<rparr>)"
    using Cons.prems(2) keep by (cases "tf_next t") (auto simp: take_blob_def blob_exists_def in_private_def with_blobs_def)
  have "checkpoint_loop edits (map BlobFileN (n # ns) @ rest) s True found t =
      checkpoint_loop edits (map BlobFileN ns @ rest) ?s True found (snd (tf_next t)\<lparr>tf_private := Some ?d\<rparr>)"
    using io(2) tb by simp
  moreover have "\<exists>s'. checkpoint_loop edits (map BlobFileN ns @ rest) ?s True found (snd (tf_next t)\<lparr>tf_private := Some ?d\<rparr>) =
      checkpoint_loop edits rest s' True found
        (snd (tf_next t)\<lparr>tf_private := Some ?d, tf_io := [], tf_private := Some (with_blobs (taken ns (tl (tf_io t))) ?d)\<rparr>)"
    using Cons.IH [of "snd (tf_next t)\<lparr>tf_private := Some ?d\<rparr>" ?d ?s] Cons.prems io(1) keep
    by (cases "tf_io t") (auto simp: blob_exists_def)
  moreover have "snd (tf_next t)\<lparr>tf_private := Some ?d, tf_io := [], tf_private := Some (with_blobs (taken ns (tl (tf_io t))) ?d)\<rparr> =
      t\<lparr>tf_io := [], tf_private := Some (with_blobs (taken (n # ns) (tf_io t)) d)\<rparr>"
    by (cases "tf_io t") (auto simp: tf_next_def with_blobs_def)
  ultimately show ?case by metis
qed

lemma add_records_ok:
  "tf_io t = [] \<Longrightarrow> tf_private t = Some d \<Longrightarrow> dk_manifests d name = Some es \<Longrightarrow>
   add_records name edits t = (OK, t\<lparr>tf_private := Some (d\<lparr>dk_manifests := (dk_manifests d)(name \<mapsto> es @ manifest_of edits)\<rparr>)\<rparr>)"
proof (induction edits arbitrary: t d es)
  case Nil
  then have d: "d\<lparr>dk_manifests := (dk_manifests d)(name \<mapsto> es)\<rparr> = d" by (simp add: fun_upd_idem)
  have "t\<lparr>tf_private := Some d\<rparr> = t" using Nil(2) by simp
  then show ?case by (simp only: add_records.simps list.map append_Nil2 d)
qed (simp add: in_private_def)

text \<open>The final directory.\<close>

definition checkpoint_disk :: "BlobFileSet \<Rightarrow> u64 list \<Rightarrow> Disk" where
  "checkpoint_disk fs ns = (let name = DescriptorFileName (fs_manifest_file_number fs) in
     \<lparr>dk_current = Some (name @ [CHR 0x0A]), dk_manifests = [name \<mapsto> manifest_of (all_edits fs)],
      dk_children = map BlobFileN ns @ [DescriptorN (fs_manifest_file_number fs)]\<rparr>)"

lemma CreateCustomCheckpoint_links:
  assumes t: "tf_private t = Some empty_disk" "\<forall>n \<in> set (all_blobs (tf_set t)). blob_exists n t" "0 \<le> tf_disabled t"
    and io: "tf_io t = (if os = [] then [] else OK # OK # os)" "length os \<le> length (all_blobs (tf_set t))" "list_all (\<lambda>s. \<not> IsNotSupported s) os"
  shows "CreateCustomCheckpoint t = (OK, t\<lparr>tf_io := [], tf_private := Some (checkpoint_disk (tf_set t) (taken (all_blobs (tf_set t)) os))\<rparr>)"
proof -
  let ?fs = "tf_set t" and ?u = "t\<lparr>tf_io := os\<rparr>"
  let ?files = "map BlobFileN (all_blobs ?fs) @ [DescriptorN (fs_manifest_file_number ?fs), OtherN ''CURRENT'']"
  have g: "GetAllTitanFiles t = (Inr (?files, all_edits ?fs), ?u)"
    using t(3) io(1)
    by (cases "os = []") (simp_all add: GetAllTitanFiles_def DisableFileDeletions_def EnableFileDeletions_def tf_next_def GetAllFiles_all Let_def)
  have u: "tf_private ?u = Some empty_disk" "\<forall>n \<in> set (all_blobs ?fs). blob_exists n ?u" "length (tf_io ?u) \<le> length (all_blobs ?fs)"
    "list_all (\<lambda>s. \<not> IsNotSupported s) (tf_io ?u)" using t io by (simp_all add: blob_exists_def)
  obtain s' where l: "checkpoint_loop (all_edits ?fs) ?files OK True (None, False) ?u =
      checkpoint_loop (all_edits ?fs) [DescriptorN (fs_manifest_file_number ?fs), OtherN ''CURRENT''] s' True (None, False)
        (?u\<lparr>tf_io := [], tf_private := Some (with_blobs (taken (all_blobs ?fs) (tf_io ?u)) empty_disk)\<rparr>)"
    using checkpoint_loop_blobs [OF u] by blast
  show ?thesis
    by (simp add: CreateCustomCheckpoint_def g l CreateTitanManifest_def in_private_def add_records_ok [where es = "[]"] Let_def
        checkpoint_disk_def with_blobs_def empty_disk_def)
qed

lemma CreateCheckpoint_links:
  assumes t: "tf_target t = None" "tf_private t = None" "\<forall>n \<in> set (all_blobs (tf_set t)). blob_exists n t" "0 \<le> tf_disabled t"
    and io: "tf_io t = (if os = [] then [] else replicate 6 OK @ os)" "length os \<le> length (all_blobs (tf_set t))"
      "list_all (\<lambda>s. \<not> IsNotSupported s) os"
  shows "CreateCheckpoint t = Some (OK, t\<lparr>tf_io := [], tf_target := Some (checkpoint_disk (tf_set t) (taken (all_blobs (tf_set t)) os))\<rparr>)"
proof -
  let ?t = "t\<lparr>tf_disabled := tf_disabled t + 1, tf_private := Some empty_disk, tf_io := (if os = [] then [] else OK # OK # os)\<rparr>"
  have six: "replicate 6 OK @ os = OK # OK # OK # OK # OK # OK # os" by (simp add: numeral_eq_Suc)
  have c: "CreateCustomCheckpoint ?t =
      (OK, ?t\<lparr>tf_io := [], tf_private := Some (checkpoint_disk (tf_set ?t) (taken (all_blobs (tf_set ?t)) os))\<rparr>)"
    by (rule CreateCustomCheckpoint_links) (use t io in \<open>simp_all add: blob_exists_def\<close>)
  show ?thesis
    using t(1,2,4) io(1) c unfolding six
    by (cases t; cases "os = []")
      (simp_all add: CreateCheckpoint_def DisableFileDeletions_def EnableFileDeletions_def CleanStagingDirectory_def
        CreateDir_def checkpoint_install_def tf_next_def Let_def)
qed

text \<open>A restart on the directory of a checkpoint.\<close>

lemma checkpoint_recovers:
  assumes inv: "fileset_inv fs" and fits: "list_all VersionEdit_fits (all_edits fs)"
    and restart: "fs_disk fs2 = checkpoint_disk fs ns" "fs_io fs2 = []" "fresh_columns (fs_columns fs2)"
      "map fst (fs_columns fs2) = map fst (fs_columns fs)" "levels_fit (map VersionEdit_persistent (all_edits fs)) (fs_columns fs2)"
  obtains fs3 where "Recover fs2 = Some (OK, fs3)" "fs_next_file_number fs3 = fs_next_file_number fs + 1"
    "\<And>cf bs n. map_of (fs_columns fs) cf = Some bs \<Longrightarrow> \<exists>bs'. map_of (fs_columns fs3) cf = Some bs' \<and>
       live bs' n = map_option persisted (FindFile bs n) \<and> obsolete_at bs' = Map.empty"
    "\<And>cf bs n. map_of (fs_columns fs) cf = Some bs \<Longrightarrow> FindFile bs n \<noteq> None \<Longrightarrow>
       BlobFileN n \<in> set (dk_children (fs_disk fs3)) \<longleftrightarrow> n \<in> set ns"
proof -
  let ?es = "map VersionEdit_persistent (all_edits fs)"
  have es: "?es = first_edit (fs_next_file_number fs) # map (VersionEdit_persistent \<circ> files_edit (\<lambda>_. True)) (fs_columns fs)"
    by (simp add: all_edits_def first_edit_def)
  have cols: "distinct (map fst (fs_columns fs))" "list_all (\<lambda>c. storage_inv (snd c)) (fs_columns fs)"
    using inv by (simp_all add: fileset_inv_def)
  note h = files_history [OF cols, of "fs_next_file_number fs" "\<lambda>_. True", folded es]
  have hist: "history ?es cf n = map_option persisted (FindFile bs n)" if "map_of (fs_columns fs) cf = Some bs" for cf bs n
    unfolding es files_history_live [OF cols that] by (simp add: FindFile_def)
  let ?name = "DescriptorFileName (fs_manifest_file_number fs)"
  have d: "dk_current (fs_disk fs2) = Some (?name @ [CHR 0x0A])" "dk_manifests (fs_disk fs2) ?name = Some (manifest_of (all_edits fs))"
    "set (dk_children (fs_disk fs2)) = BlobFileN ` set ns \<union> {DescriptorN (fs_manifest_file_number fs)}"
    by (simp_all add: restart(1) checkpoint_disk_def Let_def)
  have nx: "list_ex ve_has_next (all_edits fs)" by (simp add: all_edits_def SetNextFileNumber_def)
  obtain fs3 where r: "Recover fs2 = Some (OK, fs3)" "map fst (fs_columns fs3) = map fst (fs_columns fs2)"
    "\<And>cf bs. map_of (fs_columns fs3) cf = Some bs \<Longrightarrow> storage_inv bs \<and> live bs = history ?es cf \<and> obsolete_at bs = Map.empty"
    "fs_next_file_number fs3 = next_of ?es + 1"
    "\<And>n. BlobFileN n \<in> set (dk_children (fs_disk fs3)) \<longleftrightarrow> BlobFileN n \<in> set (dk_children (fs_disk fs2)) \<and>
       (n = next_of ?es \<or> (\<exists>cf \<in> fst ` set (fs_columns fs2). history ?es cf n \<noteq> None))"
    by (rule Recover_ok [OF restart(2) d(1,2) refl fits nx h [THEN conjunct1] restart(3,5)]) (rule that; (assumption | blast))
  have keys: "fst ` set (fs_columns fs3) = fst ` set (fs_columns fs)" "fst ` set (fs_columns fs2) = fst ` set (fs_columns fs)"
    using r(2) restart(4) by (metis list.set_map)+
  show thesis
  proof (rule that [OF r(1)])
    show "fs_next_file_number fs3 = fs_next_file_number fs + 1" using r(4) h by simp
    fix cf bs n assume bs: "map_of (fs_columns fs) cf = Some bs"
    then have cf: "cf \<in> fst ` set (fs_columns fs)" by (metis domI dom_map_of_conv_image_fst)
    then obtain bs' where bs': "map_of (fs_columns fs3) cf = Some bs'" using keys(1) by (metis domD dom_map_of_conv_image_fst)
    then show "\<exists>bs'. map_of (fs_columns fs3) cf = Some bs' \<and> live bs' n = map_option persisted (FindFile bs n) \<and> obsolete_at bs' = Map.empty"
      using r(3) [OF bs'] hist [OF bs] by auto
    assume "FindFile bs n \<noteq> None"
    then have "history ?es cf n \<noteq> None" using hist [OF bs] by simp
    then have "\<exists>cf \<in> fst ` set (fs_columns fs2). history ?es cf n \<noteq> None" using cf unfolding keys(2) by blast
    then show "BlobFileN n \<in> set (dk_children (fs_disk fs3)) \<longleftrightarrow> n \<in> set ns" using r(5) d(3) by auto
  qed
qed

text \<open>What a user needs to open a checkpoint: fresh storages of the same column families.\<close>

definition reopened :: "BlobFileSet \<Rightarrow> Disk \<Rightarrow> BlobFileSet \<Rightarrow> bool" where
  "reopened fs d fs2 \<longleftrightarrow> fs_disk fs2 = d \<and> fs_io fs2 = [] \<and> fresh_columns (fs_columns fs2) \<and> map fst (fs_columns fs2) = map fst (fs_columns fs) \<and>
     levels_fit (map VersionEdit_persistent (all_edits fs)) (fs_columns fs2)"

section \<open>Properties\<close>

text \<open>C22: a checkpoint can be opened.  When no operation fails, a checkpoint of a consistent file set whose files are all on
  disk succeeds and leaves the database as it was, with deletions allowed as before; a database opened on it recovers, every
  column family has all its files, those that wait for deletion included, and all of them are there.\<close>

theorem checkpoint_opens:
  assumes "fileset_inv (tf_set t)" "tf_target t = None" "tf_private t = None" "tf_io t = []" "0 \<le> tf_disabled t"
    and "\<forall>n \<in> set (all_blobs (tf_set t)). blob_exists n t" and "list_all VersionEdit_fits (all_edits (tf_set t))"
  shows "\<exists>d. CreateCheckpoint t = Some (OK, t\<lparr>tf_target := Some d\<rparr>) \<and>
    (\<forall>fs2. reopened (tf_set t) d fs2 \<longrightarrow> (\<exists>fs3. Recover fs2 = Some (OK, fs3) \<and>
       fs_next_file_number fs3 = fs_next_file_number (tf_set t) + 1 \<and>
       (\<forall>cf bs n. map_of (fs_columns (tf_set t)) cf = Some bs \<longrightarrow>
          (\<exists>bs'. map_of (fs_columns fs3) cf = Some bs' \<and> live bs' n = map_option persisted (FindFile bs n)) \<and>
          (FindFile bs n \<noteq> None \<longrightarrow> BlobFileN n \<in> set (dk_children (fs_disk fs3))))))"
proof -
  let ?fs = "tf_set t" and ?d = "checkpoint_disk (tf_set t) (all_blobs (tf_set t))"
  have "CreateCheckpoint t = Some (OK, t\<lparr>tf_target := Some ?d\<rparr>)"
    using CreateCheckpoint_links [of t "[]"] assms by simp
  moreover have "\<exists>fs3. Recover fs2 = Some (OK, fs3) \<and> fs_next_file_number fs3 = fs_next_file_number ?fs + 1 \<and>
       (\<forall>cf bs n. map_of (fs_columns ?fs) cf = Some bs \<longrightarrow>
          (\<exists>bs'. map_of (fs_columns fs3) cf = Some bs' \<and> live bs' n = map_option persisted (FindFile bs n)) \<and>
          (FindFile bs n \<noteq> None \<longrightarrow> BlobFileN n \<in> set (dk_children (fs_disk fs3))))"
    if reop: "reopened ?fs ?d fs2" for fs2
  proof -
    have re: "fs_disk fs2 = ?d" "fs_io fs2 = []" "fresh_columns (fs_columns fs2)" "map fst (fs_columns fs2) = map fst (fs_columns ?fs)"
      "levels_fit (map VersionEdit_persistent (all_edits ?fs)) (fs_columns fs2)" using reop by (simp_all add: reopened_def)
    obtain fs3 where r: "Recover fs2 = Some (OK, fs3)" "fs_next_file_number fs3 = fs_next_file_number ?fs + 1"
      "\<And>cf bs n. map_of (fs_columns ?fs) cf = Some bs \<Longrightarrow> \<exists>bs'. map_of (fs_columns fs3) cf = Some bs' \<and>
         live bs' n = map_option persisted (FindFile bs n) \<and> obsolete_at bs' = Map.empty"
      "\<And>cf bs n. map_of (fs_columns ?fs) cf = Some bs \<Longrightarrow> FindFile bs n \<noteq> None \<Longrightarrow>
         BlobFileN n \<in> set (dk_children (fs_disk fs3)) \<longleftrightarrow> n \<in> set (all_blobs ?fs)"
      by (rule checkpoint_recovers [OF assms(1,7) re]) (rule that; (assumption | blast))
    have "n \<in> set (all_blobs ?fs)" if "map_of (fs_columns ?fs) cf = Some bs" "FindFile bs n \<noteq> None" for cf bs n
      using map_of_SomeD [OF that(1)] that(2) by (force simp: all_blobs_def FindFile_def dest: map_of_SomeD)
    with r show ?thesis by blast
  qed
  ultimately show ?thesis by blast
qed

text \<open>A database with one blob file.\<close>

definition demo_files :: "BlobStorage \<Rightarrow> status list \<Rightarrow> TitanFiles" where
  "demo_files bs io = \<lparr>tf_set = (demo_fileset [])\<lparr>fs_columns := [(0, bs)]\<rparr>, tf_disabled = 0, tf_private = None, tf_target = None, tf_io = io\<rparr>"

lemma demo_files_ok:
  obtains bs where "fileset_inv (tf_set (demo_files bs io))" "all_blobs (tf_set (demo_files bs io)) = [3]" "blob_exists 3 (demo_files bs io)"
    "list_all VersionEdit_fits (all_edits (tf_set (demo_files bs io)))" "FindFile bs 3 = Some (BlobFileMeta_new 3 4 1 0 [] [])"
    "\<And>d. reopened (tf_set (demo_files bs io)) d ((demo_fileset [])\<lparr>fs_disk := d\<rparr>)"
proof -
  let ?m = "BlobFileMeta_new 3 4 1 0 [] []" and ?s = "BlobStorage_new demo_options 0 None"
  have i: "storage_inv ?s" by (simp add: BlobStorage_new_inv)
  have a: "addable ?s ?m" "live ?s (fm_number ?m) = None" "obsolete_at ?s (fm_number ?m) = None"
    by (simp_all add: addable_def BlobStorage_new_def demo_options_def BlobFileMeta_new_def is_obsolete_def live_def obsolete_at_def)
  obtain bs where b: "storage_inv bs" "bs_files bs = bs_files ?s @ [(fm_number ?m, ?m)]" by (rule AddBlobFile_ok [OF i a])
  then have bs: "bs_files bs = [(3, ?m)]" by (simp add: BlobStorage_new_def BlobFileMeta_new_def)
  let ?fs = "tf_set (demo_files bs io)"
  have es: "all_edits ?fs = [SetNextFileNumber 8 VersionEdit_new, files_edit (\<lambda>_. True) (0, bs)]"
    by (simp add: all_edits_def demo_files_def demo_fileset_def)
  have "list_all VersionEdit_fits (all_edits ?fs)"
    unfolding es by (simp add: VersionEdit_fits_def files_edit_def bs BlobFileMeta_fits_def BlobFileMeta_new_def SetNextFileNumber_def VersionEdit_new_def)
  moreover have "reopened ?fs d ((demo_fileset [])\<lparr>fs_disk := d\<rparr>)" for d
    unfolding reopened_def es using demo_fresh [of "[]"]
    by (simp add: demo_files_def demo_fileset_def levels_fit_def VersionEdit_persistent_def files_edit_def bs SetNextFileNumber_def VersionEdit_new_def
        addable_def BlobFileMeta_persistent_def BlobFileMeta_default_def BlobFileMeta_new_def is_obsolete_def BlobStorage_new_def demo_options_def)
  ultimately show thesis
    using b(1) by (intro that [of bs]) (simp_all add: fileset_inv_def demo_files_def all_blobs_def bs blob_exists_def demo_fileset_def FindFile_def)
qed

theorem checkpoint_opens_witness:
  "\<exists>bs d fs3. CreateCheckpoint (demo_files bs []) = Some (OK, (demo_files bs [])\<lparr>tf_target := Some d\<rparr>) \<and>
     Recover ((demo_fileset [])\<lparr>fs_disk := d\<rparr>) = Some (OK, fs3) \<and> BlobFileN 3 \<in> set (dk_children (fs_disk fs3))"
proof -
  obtain bs where bs: "fileset_inv (tf_set (demo_files bs []))" "all_blobs (tf_set (demo_files bs [])) = [3]" "blob_exists 3 (demo_files bs [])"
    "list_all VersionEdit_fits (all_edits (tf_set (demo_files bs [])))" "FindFile bs 3 = Some (BlobFileMeta_new 3 4 1 0 [] [])"
    "\<And>d. reopened (tf_set (demo_files bs [])) d ((demo_fileset [])\<lparr>fs_disk := d\<rparr>)" by (rule demo_files_ok [of "[]"]) (rule that; (assumption | blast))
  let ?t = "demo_files bs []"
  have t: "tf_target ?t = None" "tf_private ?t = None" "tf_io ?t = []" "0 \<le> tf_disabled ?t" "map_of (fs_columns (tf_set ?t)) 0 = Some bs"
    by (simp_all add: demo_files_def)
  have "\<forall>n \<in> set (all_blobs (tf_set ?t)). blob_exists n ?t" using bs(2,3) by simp
  from checkpoint_opens [OF bs(1) t(1-4) this bs(4)] bs(5,6) t(5) show ?thesis by blast
qed

text \<open>C40: a checkpoint can lack files.  Links of blob files may fail in any way but for one that asks for a copy; as the status of
  one file is replaced by that of the next, the checkpoint succeeds all the same.  Its manifest lists the files whose links failed,
  a database opened on it takes them for live, and they are not there.\<close>

theorem checkpoint_loses_files:
  assumes t: "fileset_inv (tf_set t)" "tf_target t = None" "tf_private t = None" "0 \<le> tf_disabled t" "\<forall>n \<in> set (all_blobs (tf_set t)). blob_exists n t"
    and fits: "list_all VersionEdit_fits (all_edits (tf_set t))" and io: "tf_io t = replicate 6 OK @ os" "os \<noteq> []"
      "length os \<le> length (all_blobs (tf_set t))" "list_all (\<lambda>s. \<not> IsNotSupported s) os"
    and n: "n \<notin> set (taken (all_blobs (tf_set t)) os)" "map_of (fs_columns (tf_set t)) cf = Some bs" "FindFile bs n = Some m"
  shows "\<exists>d. CreateCheckpoint t = Some (OK, t\<lparr>tf_io := [], tf_target := Some d\<rparr>) \<and>
    (\<forall>fs2. reopened (tf_set t) d fs2 \<longrightarrow> (\<exists>fs3 bs'. Recover fs2 = Some (OK, fs3) \<and> map_of (fs_columns fs3) cf = Some bs' \<and>
       live bs' n = Some (persisted m) \<and> BlobFileN n \<notin> set (dk_children (fs_disk fs3))))"
proof -
  let ?fs = "tf_set t" and ?d = "checkpoint_disk (tf_set t) (taken (all_blobs (tf_set t)) os)"
  have "CreateCheckpoint t = Some (OK, t\<lparr>tf_io := [], tf_target := Some ?d\<rparr>)"
    using CreateCheckpoint_links [OF t(2,3,5,4) _ io(3,4)] io(1,2) by simp
  moreover have "\<exists>fs3 bs'. Recover fs2 = Some (OK, fs3) \<and> map_of (fs_columns fs3) cf = Some bs' \<and>
      live bs' n = Some (persisted m) \<and> BlobFileN n \<notin> set (dk_children (fs_disk fs3))" if reop: "reopened ?fs ?d fs2" for fs2
  proof -
    have re: "fs_disk fs2 = ?d" "fs_io fs2 = []" "fresh_columns (fs_columns fs2)" "map fst (fs_columns fs2) = map fst (fs_columns ?fs)"
      "levels_fit (map VersionEdit_persistent (all_edits ?fs)) (fs_columns fs2)" using reop by (simp_all add: reopened_def)
    obtain fs3 where r: "Recover fs2 = Some (OK, fs3)"
      "\<And>cf bs n. map_of (fs_columns ?fs) cf = Some bs \<Longrightarrow> \<exists>bs'. map_of (fs_columns fs3) cf = Some bs' \<and>
         live bs' n = map_option persisted (FindFile bs n) \<and> obsolete_at bs' = Map.empty"
      "\<And>cf bs n. map_of (fs_columns ?fs) cf = Some bs \<Longrightarrow> FindFile bs n \<noteq> None \<Longrightarrow>
         BlobFileN n \<in> set (dk_children (fs_disk fs3)) \<longleftrightarrow> n \<in> set (taken (all_blobs ?fs) os)"
      by (rule checkpoint_recovers [OF t(1) fits re]) (rule that; (assumption | blast))
    obtain bs' where "map_of (fs_columns fs3) cf = Some bs'" "live bs' n = Some (persisted m)" using r(2) [OF n(2), of n] n(3) by auto
    moreover have "BlobFileN n \<notin> set (dk_children (fs_disk fs3))" using r(3) [OF n(2), of n] n(1,3) by simp
    ultimately show ?thesis using r(1) by blast
  qed
  ultimately show ?thesis by blast
qed

theorem checkpoint_loses_files_witness:
  "\<exists>bs d fs3 bs' m. CreateCheckpoint (demo_files bs (replicate 6 OK @ [IOError ''link''])) =
       Some (OK, (demo_files bs [])\<lparr>tf_target := Some d\<rparr>) \<and>
     Recover ((demo_fileset [])\<lparr>fs_disk := d\<rparr>) = Some (OK, fs3) \<and> map_of (fs_columns fs3) 0 = Some bs' \<and>
     live bs' 3 = Some m \<and> BlobFileN 3 \<notin> set (dk_children (fs_disk fs3))"
proof -
  let ?io = "replicate 6 OK @ [IOError ''link'']"
  obtain bs where bs: "fileset_inv (tf_set (demo_files bs ?io))" "all_blobs (tf_set (demo_files bs ?io)) = [3]" "blob_exists 3 (demo_files bs ?io)"
    "list_all VersionEdit_fits (all_edits (tf_set (demo_files bs ?io)))" "FindFile bs 3 = Some (BlobFileMeta_new 3 4 1 0 [] [])"
    "\<And>d. reopened (tf_set (demo_files bs ?io)) d ((demo_fileset [])\<lparr>fs_disk := d\<rparr>)" by (rule demo_files_ok [of ?io]) (rule that; (assumption | blast))
  let ?t = "demo_files bs ?io"
  have t: "tf_target ?t = None" "tf_private ?t = None" "0 \<le> tf_disabled ?t" "map_of (fs_columns (tf_set ?t)) 0 = Some bs" "tf_io ?t = ?io"
    by (simp_all add: demo_files_def)
  have e: "\<forall>n \<in> set (all_blobs (tf_set ?t)). blob_exists n ?t" using bs(2,3) by simp
  have l: "length [IOError ''link''] \<le> length (all_blobs (tf_set ?t))" "list_all (\<lambda>s. \<not> IsNotSupported s) [IOError ''link'']"
    "3 \<notin> set (taken (all_blobs (tf_set ?t)) [IOError ''link''])" by (simp_all add: bs(2))
  have c: "?t\<lparr>tf_io := [], tf_target := Some d\<rparr> = (demo_files bs [])\<lparr>tf_target := Some d\<rparr>" for d by (simp add: demo_files_def)
  from checkpoint_loses_files [OF bs(1) t(1-3) e bs(4) t(5) _ l t(4) bs(5)] bs(6) show ?thesis unfolding c by blast
qed

end
