(* ===== verification/Titan_Open.thy ===== *)
theory Titan_Open
  imports Titan_TableBuilder Titan_Checkpoint
begin

text \<open>
  Opening and closing the database, its column families, their options and table factories (\<open>db.cc\<close>,
  \<open>db_impl.cc\<close>, \<open>options.cc\<close>, \<open>table_factory.cc\<close>, \<open>base_db_listener.cc\<close>), and the book-keeping of column
  families in the base database that these rely on.  Table factories are shared between the base database
  and \<open>cf_info_\<close>: they are objects of a store, and a pointer to one is its position.  The outcomes of file
  operations and of the base database are inputs, an empty list stands for success.  A failing assertion,
  and a wait that does not end, have the value \<open>None\<close>.
\<close>

section \<open>Options\<close>

datatype CollectorFactory = UserCollector nat | BlobFileSizeCollectorFactory | BlobValidationCollectorFactory

datatype TableFactoryPtr = UserTableFactory nat | TitanFactoryAt nat

text \<open>Filters and factories of the user are numbered objects.\<close>

datatype FilterFactory =
    UserFilterFactory nat
  | TitanCompactionFilterFactory "nat option" "FilterFactory option" bool string

text \<open>
  The part of \<open>ColumnFamilyOptions\<close> that the code reads or replaces; the number of levels and the comparator
  are with the Titan options.
\<close>

record ColumnFamilyOptions =
  cn_disable_auto_compactions :: bool
  cn_dynamic_level_bytes :: bool
  cn_collectors :: "CollectorFactory list"
  cn_table_factory :: TableFactoryPtr
  cn_filter :: "nat option"
  cn_filter_factory :: "FilterFactory option"

record TitanCFDescriptor =
  ds_name :: string
  ds_options :: BuilderOptions
  ds_base :: ColumnFamilyOptions

record TitanDBOptions =
  do_dirname :: string
  do_disable_background_gc :: bool
  do_max_background_gc :: int
  do_purge_period :: u32
  do_stats_dump_period :: u32
  do_info_log :: bool
  do_statistics :: bool
  do_compaction_preprocess :: bool

record ImmutableTitanCFOptions =
  im_min_blob_size :: u64
  im_compression :: ctype
  im_target_size :: u64
  im_max_gc_batch_size :: u64
  im_min_gc_batch_size :: u64
  im_discardable_ratio :: dbl
  im_merge_small_file_threshold :: u64
  im_level_merge :: bool
  im_skip_value :: bool
  im_use_bitmap :: bool
  im_gc_offload :: bool

definition ImmutableTitanCFOptions_new :: "BuilderOptions \<Rightarrow> ImmutableTitanCFOptions" where
  "ImmutableTitanCFOptions_new opts =
     \<lparr>im_min_blob_size = co_min_blob_size opts, im_compression = co_compression opts, im_target_size = co_target_size opts,
      im_max_gc_batch_size = co_max_gc_batch_size opts, im_min_gc_batch_size = co_min_gc_batch_size opts,
      im_discardable_ratio = co_discardable_ratio opts, im_merge_small_file_threshold = co_merge_small_file_threshold opts,
      im_level_merge = co_level_merge opts, im_skip_value = co_skip_value opts, im_use_bitmap = co_use_bitmap opts,
      im_gc_offload = co_gc_offload opts\<rparr>"

text \<open>
  The constructor of \<open>TitanCFOptions\<close> from its parts: a member that is not in the list of initializers has
  its default.  The number of levels and the comparator come with the options of the base database.
\<close>

definition TitanCFOptions_join ::
    "nat \<Rightarrow> (bytes \<Rightarrow> bytes \<Rightarrow> bool) \<Rightarrow> ImmutableTitanCFOptions \<Rightarrow> TitanBlobRunMode \<Rightarrow> BuilderOptions" where
  "TitanCFOptions_join num_levels cmp im mode =
     \<lparr>co_min_blob_size = im_min_blob_size im, co_compression = im_compression im, co_target_size = im_target_size im,
      co_max_gc_batch_size = im_max_gc_batch_size im, co_min_gc_batch_size = im_min_gc_batch_size im,
      co_discardable_ratio = im_discardable_ratio im, co_merge_small_file_threshold = im_merge_small_file_threshold im,
      co_blob_run_mode = mode, co_level_merge = False, co_range_merge = False, co_max_sorted_runs = 20,
      co_skip_value = im_skip_value im, co_use_bitmap = False, co_gc_offload = False, co_num_levels = num_levels,
      co_less = cmp, co_max_dict_bytes = 0, co_zstd_max_train_bytes = 0\<rparr>"

definition blob_run_mode_string_map :: "(string \<times> TitanBlobRunMode) list" where
  "blob_run_mode_string_map = [(''kNormal'', kNormal), (''kReadOnly'', kReadOnly), (''kFallback'', kFallback)]"

definition blob_run_mode_to_string :: "(TitanBlobRunMode \<times> string) list" where
  "blob_run_mode_to_string = [(kNormal, ''kNormal''), (kReadOnly, ''kReadOnly''), (kFallback, ''kFallback'')]"

section \<open>State\<close>

record TitanTableFactory =
  fy_cf_options :: BuilderOptions
  fy_blob_run_mode :: TitanBlobRunMode
  fy_base_factory :: TableFactoryPtr

definition TitanTableFactory_new :: "TitanCFDescriptor \<Rightarrow> TitanTableFactory" where
  "TitanTableFactory_new desc =
     \<lparr>fy_cf_options = ds_options desc, fy_blob_run_mode = co_blob_run_mode (ds_options desc),
      fy_base_factory = cn_table_factory (ds_base desc)\<rparr>"

record TitanColumnFamilyInfo =
  ci_name :: string
  ci_immutable :: ImmutableTitanCFOptions
  ci_blob_run_mode :: TitanBlobRunMode
  ci_base_table_factory :: TableFactoryPtr
  ci_titan_table_factory :: nat

text \<open>A column family of the base database; a dropped one stays while handles refer to it.\<close>

record BaseCF =
  bc_name :: string
  bc_options :: ColumnFamilyOptions
  bc_num_levels :: nat
  bc_less :: "bytes \<Rightarrow> bytes \<Rightarrow> bool"
  bc_dropped :: bool

record BaseDB =
  bd_cfs :: "(u32 \<times> BaseCF) list"
  bd_max_cf :: u32

text \<open>
  \<open>ti_core\<close> has the blob file set, the scheduler and \<open>initialized_\<close>; its predicate \<open>tb_use_bitmap\<close> is the
  option of the column family in \<open>ti_cf_info\<close>.  \<open>ti_base\<close> is \<open>db_\<close>.
\<close>

record TitanDBImpl =
  ti_options :: TitanDBOptions
  ti_core :: TitanDB
  ti_cf_info :: "(u32 \<times> TitanColumnFamilyInfo) list"
  ti_factories :: "TitanTableFactory list"
  ti_base :: "BaseDB option"
  ti_directory :: bool
  ti_lock :: bool
  ti_listener :: bool
  ti_driver :: bool
  ti_thread_pool :: "int option"
  ti_thread_purge :: bool
  ti_thread_dump :: bool
  ti_io :: "status list"

definition ti_next :: "TitanDBImpl \<Rightarrow> status \<times> TitanDBImpl" where
  "ti_next t = (case ti_io t of [] \<Rightarrow> (OK, t) | s # ss \<Rightarrow> (s, t\<lparr>ti_io := ss\<rparr>))"

definition use_bitmap_of :: "(u32 \<times> TitanColumnFamilyInfo) list \<Rightarrow> u32 \<Rightarrow> bool" where
  "use_bitmap_of infos cf = (case map_of infos cf of Some i \<Rightarrow> im_use_bitmap (ci_immutable i) | None \<Rightarrow> False)"

definition set_cf_info :: "(u32 \<times> TitanColumnFamilyInfo) list \<Rightarrow> TitanDBImpl \<Rightarrow> TitanDBImpl" where
  "set_cf_info infos t = t\<lparr>ti_cf_info := infos, ti_core := (ti_core t)\<lparr>tb_use_bitmap := use_bitmap_of infos\<rparr>\<rparr>"

definition ti_fileset :: "TitanDBImpl \<Rightarrow> BlobFileSet" where
  "ti_fileset t = tb_fileset (ti_core t)"

definition ti_set_fileset :: "BlobFileSet \<Rightarrow> TitanDBImpl \<Rightarrow> TitanDBImpl" where
  "ti_set_fileset fs t = t\<lparr>ti_core := (ti_core t)\<lparr>tb_fileset := fs\<rparr>\<rparr>"

definition ti_set_sched :: "Scheduler \<Rightarrow> TitanDBImpl \<Rightarrow> TitanDBImpl" where
  "ti_set_sched sc t = t\<lparr>ti_core := (ti_core t)\<lparr>tb_sched := sc\<rparr>\<rparr>"

text \<open>The constructor; the file set is made when the database is opened, from what is on \<open>disk\<close>.\<close>

definition TitanDBImpl_new :: "TitanDBOptions \<Rightarrow> string \<Rightarrow> BlobFileSet \<Rightarrow> u64 \<Rightarrow> status list \<Rightarrow> TitanDBImpl" where
  "TitanDBImpl_new options dbname disk sequence io =
     (let options = (if do_dirname options = [] then options\<lparr>do_dirname := dbname @ ''/titandb''\<rparr> else options) in
      \<lparr>ti_options = options,
       ti_core = \<lparr>tb_fileset = disk, tb_sched = Scheduler_new (do_disable_background_gc options) (do_max_background_gc options),
                  tb_initialized = False, tb_use_bitmap = use_bitmap_of [], tb_sequence = sequence\<rparr>,
       ti_cf_info = [], ti_factories = [], ti_base = None, ti_directory = False, ti_lock = False, ti_listener = False,
       ti_driver = False, ti_thread_pool = None, ti_thread_purge = False, ti_thread_dump = False, ti_io = io\<rparr>)"

definition StartBackgroundTasks :: "TitanDBImpl \<Rightarrow> TitanDBImpl" where
  "StartBackgroundTasks t =
     (let t = (if \<not> ti_thread_purge t \<and> do_purge_period (ti_options t) > 0 then t\<lparr>ti_thread_purge := True\<rparr> else t)
      in if \<not> ti_thread_dump t \<and> do_stats_dump_period (ti_options t) > 0 then t\<lparr>ti_thread_dump := True\<rparr> else t)"

fun ValidateOptions :: "TitanCFDescriptor list \<Rightarrow> status" where
  "ValidateOptions [] = OK"
| "ValidateOptions (cf # cfs) =
     (if co_level_merge (ds_options cf) \<and> \<not> cn_dynamic_level_bytes (ds_base cf)
      then InvalidArgument ''Require enabling level_compaction_dynamic_level_bytes for level_merge''
      else ValidateOptions cfs)"

section \<open>Descriptors for the base database\<close>

text \<open>What the base database gets in place of the options of the user; \<open>addr\<close> is the new table factory.\<close>

definition base_cf_options :: "nat \<Rightarrow> TitanCFDescriptor \<Rightarrow> ColumnFamilyOptions" where
  "base_cf_options addr desc =
     (let o1 = ds_base desc;
          o2 = o1\<lparr>cn_collectors := cn_collectors o1 @ [BlobFileSizeCollectorFactory] @
                    (if co_use_bitmap (ds_options desc) then [BlobValidationCollectorFactory] else []),
                 cn_table_factory := TitanFactoryAt addr\<rparr>
      in if cn_filter o2 \<noteq> None \<or> cn_filter_factory o2 \<noteq> None
         then o2\<lparr>cn_filter := None,
                 cn_filter_factory := Some (TitanCompactionFilterFactory (cn_filter o2) (cn_filter_factory o2)
                                              (co_skip_value (ds_options desc)) (ds_name desc))\<rparr>
         else o2)"

text \<open>One factory for every descriptor, put behind those that there are.\<close>

definition base_descriptors :: "nat \<Rightarrow> TitanCFDescriptor list \<Rightarrow> (string \<times> BaseCF) list" where
  "base_descriptors addr descs =
     map (\<lambda>(i, desc). (ds_name desc,
            \<lparr>bc_name = ds_name desc, bc_options = base_cf_options (addr + i) desc, bc_num_levels = co_num_levels (ds_options desc),
             bc_less = co_less (ds_options desc), bc_dropped = False\<rparr>)) (List.enumerate 0 descs)"

definition disable_compactions :: "bool \<Rightarrow> BaseCF \<Rightarrow> BaseCF" where
  "disable_compactions b cf = cf\<lparr>bc_options := (bc_options cf)\<lparr>cn_disable_auto_compactions := b\<rparr>\<rparr>"

definition cf_info_of :: "nat \<Rightarrow> TitanCFDescriptor \<Rightarrow> TitanColumnFamilyInfo" where
  "cf_info_of addr desc =
     \<lparr>ci_name = ds_name desc, ci_immutable = ImmutableTitanCFOptions_new (ds_options desc),
      ci_blob_run_mode = co_blob_run_mode (ds_options desc), ci_base_table_factory = cn_table_factory (ds_base desc),
      ci_titan_table_factory = addr\<rparr>"

definition emplace_cf_infos ::
    "nat \<Rightarrow> u32 list \<Rightarrow> TitanCFDescriptor list \<Rightarrow> (u32 \<times> TitanColumnFamilyInfo) list \<Rightarrow> (u32 \<times> TitanColumnFamilyInfo) list" where
  "emplace_cf_infos addr ids descs infos =
     foldl (\<lambda>infos (cf, info). emplace cf info infos) infos
       (zip ids (map (\<lambda>(i, desc). cf_info_of (addr + i) desc) (List.enumerate 0 descs)))"

definition storage_options :: "u32 list \<Rightarrow> TitanCFDescriptor list \<Rightarrow> (u32 \<times> TitanCFOptions) list" where
  "storage_options ids descs = zip ids (map (\<lambda>desc. TitanCFOptions.truncate (ds_options desc)) descs)"

section \<open>Column families of the base database\<close>

definition base_next_id :: "BaseDB \<Rightarrow> u32 \<times> BaseDB" where
  "base_next_id b = (bd_max_cf b + 1, b\<lparr>bd_max_cf := bd_max_cf b + 1\<rparr>)"

definition base_cf_exists :: "string \<Rightarrow> BaseDB \<Rightarrow> bool" where
  "base_cf_exists name b \<longleftrightarrow> (\<exists>c \<in> set (bd_cfs b). bc_name (snd c) = name \<and> \<not> bc_dropped (snd c))"

text \<open>
  \<open>CreateColumnFamilyImpl\<close>: the outcomes are those of the checks of the options, of logging the edit, and of
  making directories.  When only the last fails, the column family exists and there is no handle.
\<close>

definition CreateColumnFamilyImpl :: "string \<times> BaseCF \<Rightarrow> BaseDB \<Rightarrow> status list \<Rightarrow> (status + u32) \<times> BaseDB \<times> status list" where
  "CreateColumnFamilyImpl desc b io =
     (let nxt = (\<lambda>io. case io of [] \<Rightarrow> (OK, []) | s # ss \<Rightarrow> (s, ss));
          (s, io) = nxt io in
      if s \<noteq> OK then (Inl s, b, io)
      else if base_cf_exists (fst desc) b then (Inl (InvalidArgument ''Column family already exists''), b, io)
      else
        (let (new_id, b) = base_next_id b; (s, io) = nxt io in
         if s \<noteq> OK then (Inl s, b, io)
         else
           (let b = b\<lparr>bd_cfs := bd_cfs b @ [(new_id, snd desc)]\<rparr>; (s, io) = nxt io in
            if s \<noteq> OK then (Inl s, b, io) else (Inr new_id, b, io))))"

fun base_create_loop :: "(string \<times> BaseCF) list \<Rightarrow> BaseDB \<Rightarrow> status list \<Rightarrow> status \<times> u32 list \<times> BaseDB \<times> status list" where
  "base_create_loop [] b io = (OK, [], b, io)"
| "base_create_loop (d # ds) b io =
     (case CreateColumnFamilyImpl d b io of
        (Inl s, b, io) \<Rightarrow> (s, [], b, io)
      | (Inr cf, b, io) \<Rightarrow> (case base_create_loop ds b io of (s, ids, b, io) \<Rightarrow> (s, cf # ids, b, io)))"

text \<open>\<open>WriteOptionsFile\<close> after at least one success.\<close>

definition base_persist :: "bool \<Rightarrow> status \<Rightarrow> status list \<Rightarrow> status \<times> status list" where
  "base_persist success_once s io =
     (if \<not> success_once then (s, io)
      else (case io of [] \<Rightarrow> (s, []) | p # io \<Rightarrow> (if s = OK \<and> p \<noteq> OK then p else s, io)))"

definition base_CreateColumnFamilies :: "(string \<times> BaseCF) list \<Rightarrow> BaseDB \<Rightarrow> status list \<Rightarrow> status \<times> u32 list \<times> BaseDB \<times> status list" where
  "base_CreateColumnFamilies descs b io =
     (let (s, ids, b, io) = base_create_loop descs b io;
          (s, io) = base_persist (ids \<noteq> []) s io
      in (s, ids, b, io))"

text \<open>\<open>DropColumnFamilyImpl\<close>; the outcome is that of logging the edit.\<close>

definition DropColumnFamilyImpl :: "u32 \<Rightarrow> BaseDB \<Rightarrow> status list \<Rightarrow> status \<times> BaseDB \<times> status list" where
  "DropColumnFamilyImpl cf b io =
     (if cf = 0 then (InvalidArgument ''Can't drop default column family'', b, io)
      else if (\<exists>c. map_of (bd_cfs b) cf = Some c \<and> bc_dropped c)
      then (InvalidArgument ''Column family already dropped!'', b, io)
      else
        (let (s, io) = (case io of [] \<Rightarrow> (OK, []) | s # ss \<Rightarrow> (s, ss)) in
         if s \<noteq> OK then (s, b, io)
         else (OK, b\<lparr>bd_cfs := al_modify cf (\<lambda>c. c\<lparr>bc_dropped := True\<rparr>) (bd_cfs b)\<rparr>, io)))"

fun base_drop_loop :: "u32 list \<Rightarrow> BaseDB \<Rightarrow> status list \<Rightarrow> bool \<times> status \<times> BaseDB \<times> status list" where
  "base_drop_loop [] b io = (False, OK, b, io)"
| "base_drop_loop (cf # ids) b io =
     (case DropColumnFamilyImpl cf b io of
        (s, b, io) \<Rightarrow>
          if s \<noteq> OK then (False, s, b, io)
          else (case base_drop_loop ids b io of (_, s, b, io) \<Rightarrow> (True, s, b, io)))"

definition base_DropColumnFamilies :: "u32 list \<Rightarrow> BaseDB \<Rightarrow> status list \<Rightarrow> status \<times> BaseDB \<times> status list" where
  "base_DropColumnFamilies ids b io =
     (let (success_once, s, b, io) = base_drop_loop ids b io;
          (s, io) = base_persist success_once s io
      in (s, b, io))"

text \<open>A handle of the user: its column family, and whether it is the one \<open>DefaultColumnFamily()\<close> gives.\<close>

record CFHandle =
  ch_id :: u32
  ch_default :: bool

definition base_DestroyColumnFamilyHandle :: "CFHandle \<Rightarrow> status" where
  "base_DestroyColumnFamilyHandle h =
     (if ch_default h then InvalidArgument ''Cannot destroy the handle returned by DefaultColumnFamily()'' else OK)"

text \<open>\<open>EnableAutoCompaction\<close>: the last error is returned, the others are still tried.\<close>

fun EnableAutoCompaction :: "u32 list \<Rightarrow> BaseDB \<Rightarrow> status list \<Rightarrow> status \<times> BaseDB \<times> status list" where
  "EnableAutoCompaction [] b io = (OK, b, io)"
| "EnableAutoCompaction (cf # ids) b io =
     (let (s, io) = (case io of [] \<Rightarrow> (OK, []) | s # ss \<Rightarrow> (s, ss));
          b = (if s = OK then b\<lparr>bd_cfs := al_modify cf (disable_compactions False) (bd_cfs b)\<rparr> else b);
          (s', b, io) = EnableAutoCompaction ids b io
      in (if s' \<noteq> OK then s' else s, b, io))"

section \<open>Open\<close>

definition open_log :: "TitanDBImpl \<Rightarrow> status \<times> TitanDBImpl" where
  "open_log t =
     (if do_info_log (ti_options t) then (OK, t)
      else (let (s, t) = ti_next t
            in (s, if s = OK then t\<lparr>ti_options := (ti_options t)\<lparr>do_info_log := True\<rparr>\<rparr> else t)))"

text \<open>The two directories, the log and the lock.\<close>

definition open_dirs :: "TitanDBImpl \<Rightarrow> status \<times> TitanDBImpl" where
  "open_dirs t =
     (let (s, t) = ti_next t in
      if s \<noteq> OK then (s, t)
      else
        (let (s, t) = open_log t in
         if s \<noteq> OK then (s, t)
         else
           (let (s, t) = ti_next t in
            if s \<noteq> OK then (s, t)
            else
              (let (s, t) = ti_next t in
               if s \<noteq> OK then (s, t)
               else
                 (let t = t\<lparr>ti_directory := True\<rparr>; (s, t) = ti_next t
                  in (s, if s = OK then t\<lparr>ti_lock := True\<rparr> else t))))))"

text \<open>\<open>new BlobFileSet\<close>; \<open>manifest_file_number_\<close> has no initial value.\<close>

definition BlobFileSet_new :: "BlobFileSet \<Rightarrow> BlobFileSet" where
  "BlobFileSet_new disk =
     disk\<lparr>fs_columns := [], fs_obsolete_columns := [], fs_obsolete_manifests := [], fs_manifest := None, fs_next_file_number := 1\<rparr>"

text \<open>From the file set to the thread pool; \<open>None\<close> when the accelerator is wanted without bitmaps.\<close>

definition open_setup :: "TitanCFDescriptor list \<Rightarrow> TitanDBImpl \<Rightarrow> TitanDBImpl option" where
  "open_setup descs t =
     (case descs of
        [] \<Rightarrow> None
      | d # _ \<Rightarrow>
          (let t = (ti_set_fileset (BlobFileSet_new (ti_fileset t)) t)\<lparr>ti_listener := True\<rparr> in
           if co_gc_offload (ds_options d) \<and> \<not> co_use_bitmap (ds_options d) then None
           else
             (let t = (if co_gc_offload (ds_options d)
                       then t\<lparr>ti_driver := True, ti_options := (ti_options t)\<lparr>do_compaction_preprocess := True\<rparr>\<rparr> else t);
                  t = t\<lparr>ti_factories := ti_factories t @ map TitanTableFactory_new descs\<rparr>
              in Some (if \<not> do_disable_background_gc (ti_options t) \<and> do_max_background_gc (ti_options t) > 0
                       then t\<lparr>ti_thread_pool := Some (do_max_background_gc (ti_options t))\<rparr> else t))))"

text \<open>
  \<open>DB::Open\<close> is \<open>open_base\<close>: an error, or the ids of the handles and the highest id ever used.  \<open>tables\<close> has for
  every column family the outcomes of its flush and of reading the properties of its tables.
\<close>

type_synonym open_base = "(string \<times> BaseCF) list \<Rightarrow> status + u32 list \<times> u32"
type_synonym cf_tables = "u32 \<Rightarrow> status \<times> (status + user_properties option list)"

text \<open>What follows once the base database is open.\<close>

definition open_titan :: "cf_tables \<Rightarrow> TitanCFDescriptor list \<Rightarrow> u32 list \<Rightarrow> TitanDBImpl \<Rightarrow> (status \<times> TitanDBImpl) option" where
  "open_titan tables descs ids t =
     (case Titan_FileSet.Open (do_statistics (ti_options t)) (storage_options ids descs) (ti_fileset t) of
        None \<Rightarrow> None
      | Some (s, fs) \<Rightarrow>
          (let t = ti_set_fileset fs t in
           if s \<noteq> OK then Some (s, t)
           else
             (case InitializeGC (map (\<lambda>cf. \<lparr>cg_id = cf, cg_flush = fst (tables cf), cg_tables = snd (tables cf)\<rparr>) ids) (ti_core t) of
                None \<Rightarrow> None
              | Some (_, core) \<Rightarrow>
                  (let t = t\<lparr>ti_core := core\<lparr>tb_initialized := True\<rparr>\<rparr>;
                       with_compaction = map fst (filter (\<lambda>(cf, d). \<not> cn_disable_auto_compactions (ds_base d)) (zip ids descs)) in
                   case ti_base t of
                     None \<Rightarrow> None
                   | Some b \<Rightarrow>
                       (let (s, b, io) = EnableAutoCompaction with_compaction b (ti_io t);
                            t = t\<lparr>ti_base := Some b, ti_io := io\<rparr>
                        in Some (s, if s \<noteq> OK then t else StartBackgroundTasks t))))))"

definition OpenImpl :: "open_base \<Rightarrow> cf_tables \<Rightarrow> TitanCFDescriptor list \<Rightarrow> TitanDBImpl \<Rightarrow> (status \<times> u32 list \<times> TitanDBImpl) option" where
  "OpenImpl open_base tables descs t =
     (let s = ValidateOptions descs in
      if s \<noteq> OK then Some (s, [], t)
      else
        (let (s, t) = open_dirs t in
         if s \<noteq> OK then Some (s, [], t)
         else
           (let addr = length (ti_factories t); base_descs = map (\<lambda>(n, c). (n, disable_compactions True c)) (base_descriptors addr descs) in
            case open_setup descs t of
              None \<Rightarrow> None
            | Some t \<Rightarrow>
                (case open_base base_descs of
                   Inl s \<Rightarrow> Some (s, [], t\<lparr>ti_base := None\<rparr>)
                 | Inr (ids, max_cf) \<Rightarrow>
                     if length ids \<noteq> length descs then None
                     else
                       (let t = t\<lparr>ti_base := Some \<lparr>bd_cfs = zip ids (map snd base_descs), bd_max_cf = max_cf\<rparr>\<rparr>;
                            t = set_cf_info (emplace_cf_infos addr ids descs (ti_cf_info t)) t
                        in map_option (\<lambda>(s, t). (s, ids, t)) (open_titan tables descs ids t))))))"

text \<open>\<open>Open\<close> with a vector for the handles: after an error everything is given back.\<close>

definition TitanDBImpl_Open :: "open_base \<Rightarrow> cf_tables \<Rightarrow> TitanCFDescriptor list \<Rightarrow> TitanDBImpl \<Rightarrow> (status \<times> u32 list \<times> TitanDBImpl) option" where
  "TitanDBImpl_Open open_base tables descs t =
     (case OpenImpl open_base tables descs t of
        None \<Rightarrow> None
      | Some (s, handles, t) \<Rightarrow>
          if s = OK then Some (s, handles, t)
          else Some (s, [], t\<lparr>ti_base := None, ti_lock := False\<rparr>))"

section \<open>Close\<close>

text \<open>
  The thread pool is joined, so the scheduler is the one after the last job; \<open>thread_dump_stats_\<close> is left running.
\<close>

definition CloseImpl :: "TitanDBImpl \<Rightarrow> TitanDBImpl option" where
  "CloseImpl t =
     (let t = ti_set_sched (CloseImpl_begin (tb_sched (ti_core t))) t in
      if CloseImpl_ready (tb_sched (ti_core t)) then Some (t\<lparr>ti_thread_purge := False\<rparr>) else None)"

definition TitanDBImpl_Close :: "TitanDBImpl \<Rightarrow> (status \<times> TitanDBImpl) option" where
  "TitanDBImpl_Close t =
     (case CloseImpl t of
        None \<Rightarrow> None
      | Some t \<Rightarrow>
          (let (s, t) = (case ti_base t of
                           None \<Rightarrow> (OK, t)
                         | Some _ \<Rightarrow> (let (s, t) = ti_next t in (s, t\<lparr>ti_base := None\<rparr>)))
           in Some (s, t\<lparr>ti_lock := False\<rparr>)))"

text \<open>\<open>TitanDB::Open\<close>: an object whose opening failed is deleted, which closes it.\<close>

definition TitanDB_Open ::
    "open_base \<Rightarrow> cf_tables \<Rightarrow> TitanDBOptions \<Rightarrow> string \<Rightarrow> BlobFileSet \<Rightarrow> u64 \<Rightarrow> status list \<Rightarrow> TitanCFDescriptor list \<Rightarrow>
     (status \<times> u32 list \<times> TitanDBImpl option) option" where
  "TitanDB_Open open_base tables options dbname disk sequence io descs =
     (case TitanDBImpl_Open open_base tables descs (TitanDBImpl_new options dbname disk sequence io) of
        None \<Rightarrow> None
      | Some (s, handles, t) \<Rightarrow>
          if s = OK then Some (s, handles, Some t)
          else map_option (\<lambda>_. (s, handles, None)) (TitanDBImpl_Close t))"

section \<open>Creating and dropping column families\<close>

text \<open>The assertion on the number of handles comes before the status is looked at.\<close>

definition CreateColumnFamilies :: "TitanCFDescriptor list \<Rightarrow> TitanDBImpl \<Rightarrow> (status \<times> u32 list \<times> TitanDBImpl) option" where
  "CreateColumnFamilies descs t =
     (let addr = length (ti_factories t);
          t = t\<lparr>ti_factories := ti_factories t @ map TitanTableFactory_new descs\<rparr> in
      case ti_base t of
        None \<Rightarrow> None
      | Some b \<Rightarrow>
          (let (s, handles, b, io) = base_CreateColumnFamilies (base_descriptors addr descs) b (ti_io t);
               t = t\<lparr>ti_base := Some b, ti_io := io\<rparr> in
           if length handles \<noteq> length descs then None
           else if s \<noteq> OK then Some (s, handles, t)
           else
             (let t = set_cf_info (emplace_cf_infos addr handles descs (ti_cf_info t)) t
              in Some (OK, handles,
                   ti_set_fileset (AddColumnFamilies (do_statistics (ti_options t)) (storage_options handles descs) (ti_fileset t)) t))))"

text \<open>One thread runs the whole of it; \<open>None\<close> when it has to wait for a collection.\<close>

definition TitanDBImpl_DropColumnFamilies :: "u32 list \<Rightarrow> TitanDBImpl \<Rightarrow> (status \<times> TitanDBImpl) option" where
  "TitanDBImpl_DropColumnFamilies handles t =
     (case Drop_proceed (Drop_enter (tb_sched (ti_core t))) of
        None \<Rightarrow> None
      | Some sc \<Rightarrow>
          (case ti_base t of
             None \<Rightarrow> None
           | Some b \<Rightarrow>
               (let (s, b, io) = base_DropColumnFamilies handles b (ti_io t);
                    t = (ti_set_sched (snd (Drop_leave (s = OK) sc)) t)\<lparr>ti_base := Some b, ti_io := io\<rparr> in
                if s \<noteq> OK then Some (s, t)
                else map_option (\<lambda>(s, fs). (s, ti_set_fileset fs t))
                       (DropColumnFamilies handles (tb_sequence (ti_core t)) (ti_fileset t)))))"

definition DestroyColumnFamilyHandle :: "CFHandle option \<Rightarrow> TitanDBImpl \<Rightarrow> (status \<times> TitanDBImpl) option" where
  "DestroyColumnFamilyHandle column_family t =
     (case column_family of
        None \<Rightarrow> Some (InvalidArgument ''Column family handle is nullptr.'', t)
      | Some h \<Rightarrow>
          (let s = base_DestroyColumnFamilyHandle h in
           if s \<noteq> OK then Some (s, t)
           else
             (let (destroy_status, fs) = MaybeDestroyColumnFamily (ch_id h) (ti_fileset t);
                  t = ti_set_fileset fs t in
              if destroy_status \<noteq> OK then Some (OK, t)
              else if map_of (ti_cf_info t) (ch_id h) = None then None
              else Some (OK, set_cf_info (al_erase (ch_id h) (ti_cf_info t)) t))))"

section \<open>Changing and reading options\<close>

text \<open>The base database's own options have an outcome only.\<close>

definition factory_SetBlobRunMode :: "TitanBlobRunMode \<Rightarrow> nat \<Rightarrow> TitanDBImpl \<Rightarrow> TitanDBImpl" where
  "factory_SetBlobRunMode mode addr t =
     t\<lparr>ti_factories := (ti_factories t)[addr := (ti_factories t ! addr)\<lparr>fy_blob_run_mode := mode\<rparr>]\<rparr>"

definition set_run_mode :: "u32 \<Rightarrow> TitanBlobRunMode \<Rightarrow> TitanDBImpl \<Rightarrow> TitanDBImpl option" where
  "set_run_mode cf mode t =
     (case map_of (ti_cf_info t) cf of
        None \<Rightarrow> None
      | Some info \<Rightarrow>
          (let t = factory_SetBlobRunMode mode (ci_titan_table_factory info) t;
               t = set_cf_info (al_modify cf (\<lambda>i. i\<lparr>ci_blob_run_mode := mode\<rparr>) (ti_cf_info t)) t;
               fs = ti_fileset t
           in Some (ti_set_fileset (fs\<lparr>fs_columns := al_modify cf (SetBlobRunMode mode) (fs_columns fs)\<rparr>) t)))"

definition SetOptions :: "u32 \<Rightarrow> (string \<times> string) list \<Rightarrow> TitanDBImpl \<Rightarrow> (status \<times> TitanDBImpl) option" where
  "SetOptions cf new_options t =
     (let p = map_of new_options ''blob_run_mode'';
          mode = (case p of None \<Rightarrow> Some None | Some str \<Rightarrow> map_option Some (map_of blob_run_mode_string_map str));
          opts = al_erase ''blob_run_mode'' new_options in
      case mode of
        None \<Rightarrow> Some (InvalidArgument (''No blob_run_mode defined for '' @ the p), t)
      | Some mode \<Rightarrow>
          (let (s, t) = (if opts = [] then (OK, t) else ti_next t) in
           if s \<noteq> OK then Some (s, t)
           else (case mode of
                   None \<Rightarrow> Some (OK, t)
                 | Some m \<Rightarrow> map_option (\<lambda>t. (OK, t)) (set_run_mode cf m t))))"

text \<open>The table factory that \<open>GetOptions\<close> reports is that of the user.\<close>

definition GetOptions :: "u32 \<Rightarrow> TitanDBImpl \<Rightarrow> (BaseCF \<times> TableFactoryPtr option) option" where
  "GetOptions cf t =
     (case ti_base t of
        None \<Rightarrow> None
      | Some b \<Rightarrow>
          map_option (\<lambda>c. (c, map_option ci_base_table_factory (map_of (ti_cf_info t) cf))) (map_of (bd_cfs b) cf))"

definition GetTitanOptions :: "u32 \<Rightarrow> TitanDBImpl \<Rightarrow> (BuilderOptions \<times> TableFactoryPtr option) option" where
  "GetTitanOptions cf t =
     (case (GetOptions cf t, map_of (ti_cf_info t) cf) of
        (Some (c, factory), Some info) \<Rightarrow>
          Some (TitanCFOptions_join (bc_num_levels c) (bc_less c) (ci_immutable info) (ci_blob_run_mode info), factory)
      | _ \<Rightarrow> None)"

section \<open>Table factory and listener\<close>

text \<open>A plain builder of the base database (\<open>Inl\<close>) until everything is initialized.\<close>

definition NewTableBuilder :: "nat \<Rightarrow> u32 \<Rightarrow> int \<Rightarrow> BaseBuilder \<Rightarrow> TitanDBImpl \<Rightarrow> BaseBuilder + TableBuilder" where
  "NewTableBuilder addr cf level_at_creation base_builder t =
     (if \<not> tb_initialized (ti_core t) then Inl base_builder
      else
        (let f = ti_factories t ! addr
         in Inr (TableBuilder_new cf ((fy_cf_options f)\<lparr>co_blob_run_mode := fy_blob_run_mode f\<rparr>) base_builder 1 level_at_creation)))"

text \<open>What the base database does for a new table of one of its column families.\<close>

definition base_NewTableBuilder :: "u32 \<Rightarrow> int \<Rightarrow> BaseBuilder \<Rightarrow> TitanDBImpl \<Rightarrow> (BaseBuilder + TableBuilder) option" where
  "base_NewTableBuilder cf level_at_creation base_builder t =
     (case ti_base t of
        None \<Rightarrow> None
      | Some b \<Rightarrow>
          (case map_of (bd_cfs b) cf of
             None \<Rightarrow> None
           | Some c \<Rightarrow>
               (case cn_table_factory (bc_options c) of
                  UserTableFactory _ \<Rightarrow> Some (Inl base_builder)
                | TitanFactoryAt addr \<Rightarrow> Some (NewTableBuilder addr cf level_at_creation base_builder t))))"

definition Listener_OnFlushCompleted :: "user_properties option \<Rightarrow> u32 \<Rightarrow> TitanDBImpl \<Rightarrow> TitanDBImpl option" where
  "Listener_OnFlushCompleted props cf t =
     (if tb_initialized (ti_core t)
      then map_option (\<lambda>core. t\<lparr>ti_core := core\<rparr>) (OnFlushCompleted props cf (ti_core t)) else Some t)"

definition Listener_OnCompactionCompleted :: "CompactionJobInfo \<Rightarrow> TitanDBImpl \<Rightarrow> TitanDBImpl option" where
  "Listener_OnCompactionCompleted job t =
     (if tb_initialized (ti_core t)
      then map_option (\<lambda>core. t\<lparr>ti_core := core\<rparr>) (OnCompactionCompleted job (ti_core t)) else Some t)"

text \<open>\<open>CompactFiles\<close> reports a compaction that succeeded itself.\<close>

definition CompactFiles :: "status \<Rightarrow> status \<Rightarrow> CompactionJobInfo \<Rightarrow> TitanDBImpl \<Rightarrow> (status \<times> TitanDBImpl) option" where
  "CompactFiles bg_error s job t =
     (if bg_error \<noteq> OK then Some (bg_error, t)
      else if s \<noteq> OK then Some (s, t)
      else map_option (\<lambda>core. (s, t\<lparr>ti_core := core\<rparr>)) (OnCompactionCompleted job (ti_core t)))"

end
