(* ===== verification/Titan_DeleteRange.thy ===== *)
theory Titan_DeleteRange
  imports Titan_GCJob
begin

text \<open>
  Deletion of whole tables in ranges of keys (\<open>TitanDBImpl::DeleteFilesInRanges\<close>): Titan reads the
  properties of the tables that lie within the ranges, lets the base database delete tables within
  the ranges, and takes the bytes the read tables refer to off the live bytes of the blob files.
  The tables are chosen twice, by Titan and by the base database (\<open>DBImpl::DeleteFilesInRanges\<close>),
  from the levels of a version (\<open>db/version_set.cc\<close>).  The comparator of the column family is a
  strict order and has no timestamps; a table is known by its file number.  Reading properties and
  writing the manifest of the base database have their outcomes as inputs.
\<close>

section \<open>Levels of tables\<close>

definition ExtractUserKey :: "bytes \<Rightarrow> bytes" where
  "ExtractUserKey internal_key = take (length internal_key - 8) internal_key"

definition ExtractInternalKeyFooter :: "bytes \<Rightarrow> u64" where
  "ExtractInternalKeyFooter internal_key = DecodeFixed64 (drop (length internal_key - 8) internal_key)"

abbreviation kTypeRangeDeletion :: byte where "kTypeRangeDeletion \<equiv> 0xF"
abbreviation kValueTypeForSeek :: byte where "kValueTypeForSeek \<equiv> 0x14"

definition kRangeTombstoneSentinel :: u64 where
  "kRangeTombstoneSentinel = PackSequenceAndType kMaxSequenceNumber kTypeRangeDeletion"

definition SetMinPossibleForUserKey :: "bytes \<Rightarrow> bytes" where
  "SetMinPossibleForUserKey user_key = InternalKey user_key kMaxSequenceNumber kValueTypeForSeek"

definition SetMaxPossibleForUserKey :: "bytes \<Rightarrow> bytes" where
  "SetMaxPossibleForUserKey user_key = InternalKey user_key 0 0"

text \<open>A comparator as the three-way result of its strict order.\<close>

definition cmp3 :: "('a \<Rightarrow> 'a \<Rightarrow> bool) \<Rightarrow> 'a \<Rightarrow> 'a \<Rightarrow> int" where
  "cmp3 lt a b = (if lt a b then - 1 else if lt b a then 1 else 0)"

definition InternalKey_Compare :: "(bytes \<Rightarrow> bytes \<Rightarrow> bool) \<Rightarrow> bytes \<Rightarrow> bytes \<Rightarrow> int" where
  "InternalKey_Compare lt akey bkey =
     (let r = cmp3 lt (ExtractUserKey akey) (ExtractUserKey bkey) in
      if r = 0 then
        (let anum = ExtractInternalKeyFooter akey; bnum = ExtractInternalKeyFooter bkey
         in if anum > bnum then - 1 else if anum < bnum then 1 else r)
      else r)"

definition sstableKeyCompare :: "(bytes \<Rightarrow> bytes \<Rightarrow> bool) \<Rightarrow> bytes \<Rightarrow> bytes \<Rightarrow> int" where
  "sstableKeyCompare lt a b =
     (let c = cmp3 lt (ExtractUserKey a) (ExtractUserKey b) in
      if c \<noteq> 0 then c
      else if ExtractInternalKeyFooter a = kRangeTombstoneSentinel then
        (if ExtractInternalKeyFooter b \<noteq> kRangeTombstoneSentinel then - 1 else 0)
      else if ExtractInternalKeyFooter b = kRangeTombstoneSentinel then 1
      else 0)"

record FileMetaData =
  sf_number :: u64
  sf_smallest :: bytes
  sf_largest :: bytes
  sf_being_compacted :: bool

record SstVersion =
  vn_files :: "FileMetaData list list"
  vn_less :: "bytes \<Rightarrow> bytes \<Rightarrow> bool"
  vn_refs :: nat

fun UpdateNumNonEmptyLevels :: "'a list list \<Rightarrow> nat \<Rightarrow> nat" where
  "UpdateNumNonEmptyLevels files 0 = 0"
| "UpdateNumNonEmptyLevels files (Suc i) = (if files ! i \<noteq> [] then Suc i else UpdateNumNonEmptyLevels files i)"

definition num_non_empty_levels :: "SstVersion \<Rightarrow> nat" where
  "num_non_empty_levels v = UpdateNumNonEmptyLevels (vn_files v) (length (vn_files v))"

text \<open>
  \<open>std::lower_bound\<close> and \<open>std::upper_bound\<close> halve a range of positions: \<open>before i\<close> says that the
  element at \<open>i\<close> is in front of the bound.
\<close>

function bound :: "(nat \<Rightarrow> bool) \<Rightarrow> nat \<Rightarrow> nat \<Rightarrow> nat" where
  "bound before first len =
     (if len = 0 then first
      else (let half = len div 2; middle = first + half in
            if before middle then bound before (Suc middle) (len - half - 1)
            else bound before first half))"
  by pat_completeness auto
termination by (relation "measure (\<lambda>(before, first, len). len)") auto

declare bound.simps [simp del]

definition FindFileInRange ::
    "(bytes \<Rightarrow> bytes \<Rightarrow> bool) \<Rightarrow> FileMetaData list \<Rightarrow> bytes \<Rightarrow> nat \<Rightarrow> nat \<Rightarrow> nat" where
  "FindFileInRange lt files key left right =
     bound (\<lambda>i. InternalKey_Compare lt (sf_largest (files ! i)) key < 0) left (right - left)"

definition AfterFile :: "(bytes \<Rightarrow> bytes \<Rightarrow> bool) \<Rightarrow> bytes option \<Rightarrow> FileMetaData \<Rightarrow> bool" where
  "AfterFile lt user_key f =
     (case user_key of None \<Rightarrow> False | Some k \<Rightarrow> cmp3 lt k (ExtractUserKey (sf_largest f)) > 0)"

definition BeforeFile :: "(bytes \<Rightarrow> bytes \<Rightarrow> bool) \<Rightarrow> bytes option \<Rightarrow> FileMetaData \<Rightarrow> bool" where
  "BeforeFile lt user_key f =
     (case user_key of None \<Rightarrow> False | Some k \<Rightarrow> cmp3 lt k (ExtractUserKey (sf_smallest f)) < 0)"

definition SomeFileOverlapsRange ::
    "(bytes \<Rightarrow> bytes \<Rightarrow> bool) \<Rightarrow> bool \<Rightarrow> FileMetaData list \<Rightarrow> bytes option \<Rightarrow> bytes option \<Rightarrow> bool" where
  "SomeFileOverlapsRange lt disjoint_sorted_files files smallest_user_key largest_user_key =
     (if \<not> disjoint_sorted_files then
        list_ex (\<lambda>f. \<not> (AfterFile lt smallest_user_key f \<or> BeforeFile lt largest_user_key f)) files
      else
        (let index = (case smallest_user_key of
               None \<Rightarrow> 0
             | Some k \<Rightarrow> FindFileInRange lt files (SetMinPossibleForUserKey k) 0 (length files))
         in if index \<ge> length files then False
            else \<not> BeforeFile lt largest_user_key (files ! index)))"

definition OverlapInLevel :: "SstVersion \<Rightarrow> nat \<Rightarrow> bytes option \<Rightarrow> bytes option \<Rightarrow> bool" where
  "OverlapInLevel v level smallest_user_key largest_user_key =
     (if level \<ge> num_non_empty_levels v then False
      else SomeFileOverlapsRange (vn_less v) (level > 0) (vn_files v ! level) smallest_user_key largest_user_key)"

text \<open>The cut at both ends is moved inwards while it parts two tables that share a user key.\<close>

function clean_start :: "(bytes \<Rightarrow> bytes \<Rightarrow> bool) \<Rightarrow> FileMetaData list \<Rightarrow> nat \<Rightarrow> nat" where
  "clean_start lt files start_index =
     (if start_index < length files \<and>
         sstableKeyCompare lt (sf_largest (files ! (start_index - 1))) (sf_smallest (files ! start_index)) = 0
      then clean_start lt files (Suc start_index) else start_index)"
  by pat_completeness auto
termination by (relation "measure (\<lambda>(lt, files, start_index). length files - start_index)") auto

fun clean_end :: "(bytes \<Rightarrow> bytes \<Rightarrow> bool) \<Rightarrow> FileMetaData list \<Rightarrow> nat \<Rightarrow> nat \<Rightarrow> nat" where
  "clean_end lt files start_index end_index =
     (if end_index > start_index \<and>
         sstableKeyCompare lt (sf_largest (files ! (end_index - 1))) (sf_smallest (files ! end_index)) = 0
      then clean_end lt files start_index (end_index - 1) else end_index)"

declare clean_start.simps [simp del] clean_end.simps [simp del]

text \<open>
  The search with \<open>hint_index = -1\<close> and without \<open>next_smallest\<close>.  Its assertions on the order of the
  two indexes always hold (\<open>search_indexes\<close> below).
\<close>

definition search_start :: "(bytes \<Rightarrow> bytes \<Rightarrow> bool) \<Rightarrow> bool \<Rightarrow> FileMetaData list \<Rightarrow> bytes option \<Rightarrow> nat" where
  "search_start lt within_interval files first_key =
     (case first_key of
        None \<Rightarrow> 0
      | Some k \<Rightarrow>
          (let start_index = bound (\<lambda>i. sstableKeyCompare lt
                 (if within_interval then sf_smallest (files ! i) else sf_largest (files ! i)) k < 0) 0 (length files)
           in if start_index > 0 \<and> within_interval then clean_start lt files start_index else start_index))"

definition search_end :: "(bytes \<Rightarrow> bytes \<Rightarrow> bool) \<Rightarrow> bool \<Rightarrow> FileMetaData list \<Rightarrow> nat \<Rightarrow> bytes option \<Rightarrow> nat" where
  "search_end lt within_interval files start_index last_key =
     (case last_key of
        None \<Rightarrow> length files
      | Some k \<Rightarrow>
          (let end_index = bound (\<lambda>i. \<not> sstableKeyCompare lt k
                 (if within_interval then sf_largest (files ! i) else sf_smallest (files ! i)) < 0)
                 start_index (length files - start_index)
           in if end_index < length files \<and> within_interval then clean_end lt files start_index end_index
              else end_index))"

definition GetOverlappingInputsRangeBinarySearch ::
    "(bytes \<Rightarrow> bytes \<Rightarrow> bool) \<Rightarrow> bool \<Rightarrow> FileMetaData list \<Rightarrow> bytes option \<Rightarrow> bytes option \<Rightarrow> FileMetaData list" where
  "GetOverlappingInputsRangeBinarySearch lt within_interval files first_key last_key =
     (let start_index = search_start lt within_interval files first_key;
          end_index = search_end lt within_interval files start_index last_key
      in take (end_index - start_index) (drop start_index files))"

definition GetCleanInputsWithinInterval ::
    "SstVersion \<Rightarrow> nat \<Rightarrow> bytes option \<Rightarrow> bytes option \<Rightarrow> FileMetaData list" where
  "GetCleanInputsWithinInterval v level first_key last_key =
     (if level \<ge> num_non_empty_levels v \<or> level = 0 \<or> vn_files v ! level = [] then []
      else GetOverlappingInputsRangeBinarySearch (vn_less v) True (vn_files v ! level) first_key last_key)"

section \<open>Deletion in the base database\<close>

type_synonym key_range = "bytes option \<times> bytes option"

text \<open>The files of a level that both loops look at, and the guard on the end of the range.\<close>

definition level_inputs :: "SstVersion \<Rightarrow> key_range \<Rightarrow> nat \<Rightarrow> FileMetaData list" where
  "level_inputs v rng level =
     (if vn_files v ! level = [] \<or> \<not> OverlapInLevel v level (fst rng) (snd rng) then []
      else GetCleanInputsWithinInterval v level
             (map_option SetMinPossibleForUserKey (fst rng)) (map_option SetMaxPossibleForUserKey (snd rng)))"

definition ends_at_limit :: "SstVersion \<Rightarrow> bool \<Rightarrow> key_range \<Rightarrow> FileMetaData \<Rightarrow> bool" where
  "ends_at_limit v include_end rng f =
     (\<not> include_end \<and>
      (case snd rng of None \<Rightarrow> False | Some e \<Rightarrow> cmp3 (vn_less v) (ExtractUserKey (sf_largest f)) e = 0))"

text \<open>
  The edit is the list of deleted tables with their levels.  The mark \<open>being_compacted\<close> that a deleted
  table carries until the mutex is released is its membership in the edit.
\<close>

definition delete_file ::
    "SstVersion \<Rightarrow> bool \<Rightarrow> key_range \<Rightarrow> nat \<Rightarrow> FileMetaData \<Rightarrow> (nat \<times> u64) list \<Rightarrow> (nat \<times> u64) list" where
  "delete_file v include_end rng level f edit =
     (if sf_being_compacted f then edit
      else if sf_number f \<in> snd ` set edit then edit
      else if ends_at_limit v include_end rng f then edit
      else edit @ [(level, sf_number f)])"

definition deleted_files :: "SstVersion \<Rightarrow> bool \<Rightarrow> key_range list \<Rightarrow> (nat \<times> u64) list" where
  "deleted_files v include_end ranges =
     fold (\<lambda>rng edit. fold (\<lambda>level edit. fold (delete_file v include_end rng level) (level_inputs v rng level) edit)
             [1..<length (vn_files v)] edit) ranges []"

definition apply_deletions :: "(nat \<times> u64) list \<Rightarrow> SstVersion \<Rightarrow> SstVersion" where
  "apply_deletions edit v =
     v\<lparr>vn_files := map (\<lambda>level. filter (\<lambda>f. (level, sf_number f) \<notin> set edit) (vn_files v ! level))
                     [0..<length (vn_files v)]\<rparr>"

definition base_DeleteFilesInRanges ::
    "key_range list \<Rightarrow> bool \<Rightarrow> status \<Rightarrow> SstVersion \<Rightarrow> status \<times> SstVersion" where
  "base_DeleteFilesInRanges ranges include_end applied v =
     (let edit = deleted_files v include_end ranges in
      if edit = [] then (OK, v)
      else if applied = OK then (applied, apply_deletions edit v)
      else (applied, v))"

section \<open>Deletion in Titan\<close>

text \<open>A loop that may return early, with a status.\<close>

fun sum_fold :: "('a \<Rightarrow> 's \<Rightarrow> 'e + 's) \<Rightarrow> 'a list \<Rightarrow> 's \<Rightarrow> 'e + 's" where
  "sum_fold f [] s = Inr s"
| "sum_fold f (x # xs) s = (case f x s of Inl e \<Rightarrow> Inl e | Inr s' \<Rightarrow> sum_fold f xs s')"

type_synonym properties_collection = "(u64 \<times> user_properties) list"

definition collect_file ::
    "(FileMetaData \<Rightarrow> status \<times> user_properties option) \<Rightarrow> SstVersion \<Rightarrow> bool \<Rightarrow> key_range \<Rightarrow>
     FileMetaData \<Rightarrow> properties_collection \<Rightarrow> status + properties_collection" where
  "collect_file read v include_end rng f props =
     (if sf_being_compacted f then Inr props
      else if ends_at_limit v include_end rng f then Inr props
      else if sf_number f \<in> fst ` set props then Inr props
      else (case read f of
              (s, Some p) \<Rightarrow> if s = OK then Inr (props @ [(sf_number f, p)]) else Inl s
            | (s, None) \<Rightarrow> Inl s))"

definition collect_properties ::
    "(FileMetaData \<Rightarrow> status \<times> user_properties option) \<Rightarrow> SstVersion \<Rightarrow> bool \<Rightarrow> key_range list \<Rightarrow>
     status + properties_collection" where
  "collect_properties read v include_end ranges =
     sum_fold (\<lambda>rng. sum_fold (\<lambda>level. sum_fold (collect_file read v include_end rng) (level_inputs v rng level))
                 [1..<num_non_empty_levels v]) ranges []"

definition extract_diff :: "u64 \<times> user_properties \<Rightarrow> (u64 \<times> u64) list \<Rightarrow> (u64 \<times> u64) list option" where
  "extract_diff prop diff =
     (let (s, diff) = ExtractGCStatsFromTableProperty (Some (snd prop)) False diff
      in if s \<noteq> OK then None else Some diff)"

text \<open>The loop over the differences keeps the storage and the edit.\<close>

definition range_file ::
    "TitanCFOptions \<Rightarrow> u64 \<Rightarrow> u64 \<times> u64 \<Rightarrow> BlobStorage \<times> VersionEdit \<Rightarrow> (BlobStorage \<times> VersionEdit) option" where
  "range_file opts sequence file_size st =
     (let (file_number, delta) = file_size; (bs, edit) = st in
      case FindFile bs file_number of
        None \<Rightarrow> Some st
      | Some f \<Rightarrow>
          if is_obsolete f then Some st
          else
            (let (ok, g) = UpdateLiveDataSize delta f in
             if \<not> ok then None
             else
               (let bs = (if GetDiscardableRatioLevel f \<noteq> GetDiscardableRatioLevel g
                          then sub_ratio f (add_ratio g bs) else bs);
                    finish = (\<lambda>g edit bs. Some (put_file file_number g
                       (bs\<lparr>bs_stats := SubStats LIVE_BLOB_SIZE (- delta) (bs_stats bs)\<rparr>), edit))
                in if \<not> co_level_merge opts then finish g edit bs
                   else if NoLiveData g then finish g (VersionEdit_DeleteBlobFile (fm_number g) sequence edit) bs
                   else if dbl_less (co_discardable_ratio opts) (GetDiscardableRatio g)
                   then (case FileStateTransit NeedMerge g of None \<Rightarrow> None | Some g \<Rightarrow> finish g edit bs)
                   else finish g edit bs)))"

definition range_account :: "u32 \<Rightarrow> (u64 \<times> u64) list \<Rightarrow> TitanDB \<Rightarrow> (status \<times> TitanDB) option" where
  "range_account cf_id diff db =
     (case db_storage db cf_id of
        None \<Rightarrow> Some (NotFound (''Column family id: '' @ nat_digits (unat cf_id) @ '' not Found.''), db)
      | Some bs \<Rightarrow>
          (let opts = cf_options bs in
           case opt_fold (range_file opts (tb_sequence db)) diff (bs, VersionEdit_new) of
             None \<Rightarrow> None
           | Some (bs, edit) \<Rightarrow>
               (let db = db_set_storage cf_id bs db in
                if co_level_merge opts then
                  map_option (\<lambda>(_, fs). (OK, db\<lparr>tb_fileset := fs\<rparr>)) (LogAndApply edit (tb_fileset db))
                else
                  (let db = db_set_storage cf_id (ComputeGCScore bs) db
                   in Some (OK, db\<lparr>tb_sched := MaybeScheduleGC (AddToGCQueue cf_id (tb_sched db))\<rparr>)))))"

text \<open>
  The whole operation.  The version is referenced while the properties are read; an early return keeps
  the reference.  Between the reading and the deletion the mutex of the base database is free:
  \<open>meanwhile\<close> is what compactions do to the current version there.
\<close>

definition DeleteFilesInRanges ::
    "(FileMetaData \<Rightarrow> status \<times> user_properties option) \<Rightarrow> (SstVersion \<Rightarrow> SstVersion) \<Rightarrow> status \<Rightarrow>
     u32 \<Rightarrow> key_range list \<Rightarrow> bool \<Rightarrow> SstVersion \<Rightarrow> TitanDB \<Rightarrow> (status \<times> SstVersion \<times> TitanDB) option" where
  "DeleteFilesInRanges read meanwhile applied cf_id ranges include_end v db =
     (let v = v\<lparr>vn_refs := Suc (vn_refs v)\<rparr> in
      case collect_properties read v include_end ranges of
        Inl s \<Rightarrow> Some (s, v, db)
      | Inr props \<Rightarrow>
          (let v = v\<lparr>vn_refs := vn_refs v - 1\<rparr> in
           case opt_fold extract_diff props [] of
             None \<Rightarrow> None
           | Some diff \<Rightarrow>
               (let (s, v) = base_DeleteFilesInRanges ranges include_end applied (meanwhile v) in
                if s \<noteq> OK then Some (s, v, db)
                else map_option (\<lambda>(s, db). (s, v, db)) (range_account cf_id diff db))))"

definition TitanDBImpl_DeleteBlobFilesInRanges ::
    "u32 \<Rightarrow> key_range list \<Rightarrow> bool \<Rightarrow> TitanDB \<Rightarrow> (status \<times> TitanDB) option" where
  "TitanDBImpl_DeleteBlobFilesInRanges cf_id ranges include_end db =
     map_option (\<lambda>(s, fs). (s, db\<lparr>tb_fileset := fs\<rparr>))
       (DeleteBlobFilesInRanges cf_id ranges include_end (tb_sequence db) (tb_fileset db))"

section \<open>Bounds and cuts\<close>

lemma bound_between: "first \<le> bound before first len \<and> bound before first len \<le> first + len"
proof (induction before first len rule: bound.induct)
  case (1 before first len)
  show ?case
  proof (cases "len = 0")
    case True
    then show ?thesis by (simp add: bound.simps)
  next
    case False
    then show ?thesis using 1(1) [OF False refl refl] 1(2) [OF False refl refl]
      by (auto simp: bound.simps [of before first len] Let_def)
  qed
qed

text \<open>The halving search finds the border of a predicate that holds on a prefix.\<close>

lemma bound_border:
  assumes "\<And>i j. first \<le> i \<Longrightarrow> i \<le> j \<Longrightarrow> j < first + len \<Longrightarrow> before j \<Longrightarrow> before i" "first \<le> i" "i < first + len"
  shows "before i \<longleftrightarrow> i < bound before first len"
  using assms
proof (induction before first len rule: bound.induct)
  case (1 before first len)
  let ?m = "first + len div 2"
  have len: "len \<noteq> 0" using "1.prems"(2,3) by simp
  have mono: "before k" if "before ?m" "first \<le> k" "k \<le> ?m" for k using "1.prems"(1) [OF that(2,3)] that(1) len by simp
  have anti: "\<not> before k" if "\<not> before ?m" "?m \<le> k" "k < first + len" for k using "1.prems"(1) [of ?m k] that by auto
  show ?case
  proof (cases "before ?m")
    case True
    have b: "bound before first len = bound before (Suc ?m) (len - len div 2 - 1)"
      using len True by (simp add: bound.simps [of before first len] Let_def)
    show ?thesis
    proof (cases "i \<le> ?m")
      case True
      then show ?thesis using b mono [OF \<open>before ?m\<close> "1.prems"(2)] bound_between [of "Suc ?m" before "len - len div 2 - 1"] by simp
    next
      case False
      then have "Suc ?m \<le> i" "i < Suc ?m + (len - len div 2 - 1)" using "1.prems"(3) by simp_all
      moreover have "before j" if "Suc ?m \<le> j" "j \<le> k" "k < Suc ?m + (len - len div 2 - 1)" "before k" for j k
        using "1.prems"(1) [of j k] that by simp
      ultimately show ?thesis unfolding b using "1.IH"(1) [OF len refl refl True] by blast
    qed
  next
    case False
    have b: "bound before first len = bound before first (len div 2)"
      using len False by (simp add: bound.simps [of before first len] Let_def)
    show ?thesis
    proof (cases "i < ?m")
      case True
      have "before j" if "first \<le> j" "j \<le> k" "k < first + len div 2" "before k" for j k
        using "1.prems"(1) [of j k] that by simp
      then show ?thesis unfolding b using "1.IH"(2) [OF len refl refl False] "1.prems"(2) True by blast
    next
      case g: False
      then show ?thesis using b anti [OF False _ "1.prems"(3)] bound_between [of first before "len div 2"] by simp
    qed
  qed
qed

lemma clean_start_ge: "start \<le> clean_start lt files start \<and> (start \<le> length files \<longrightarrow> clean_start lt files start \<le> length files)"
  by (induction lt files start rule: clean_start.induct) (subst (1 2) clean_start.simps, auto)

lemma clean_end_le: "clean_end lt files start e \<le> e \<and> (start \<le> e \<longrightarrow> start \<le> clean_end lt files start e)"
  by (induction lt files start e rule: clean_end.induct) (subst (1 2) clean_end.simps, auto)

lemma search_indexes:
  "search_start lt w files b \<le> length files"
  "start \<le> length files \<Longrightarrow> start \<le> search_end lt w files start e \<and> search_end lt w files start e \<le> length files"
proof -
  show "search_start lt w files b \<le> length files"
    using bound_between [of 0 _ "length files"] clean_start_ge
    by (auto simp: search_start_def Let_def split: option.splits)
  assume s: "start \<le> length files"
  have b: "start \<le> bound p start (length files - start) \<and> bound p start (length files - start) \<le> length files" for p
    using bound_between [of start p "length files - start"] s by simp
  then have "start \<le> clean_end lt files start (bound p start (length files - start)) \<and>
      clean_end lt files start (bound p start (length files - start)) \<le> length files" for p
    using clean_end_le [of lt files start] order_trans by blast
  with b s show "start \<le> search_end lt w files start e \<and> search_end lt w files start e \<le> length files"
    by (simp add: search_end_def Let_def split: option.splits)
qed

lemma level_inputs_subset: "set (level_inputs v rng l) \<subseteq> set (vn_files v ! l)"
  by (auto simp: level_inputs_def GetCleanInputsWithinInterval_def GetOverlappingInputsRangeBinarySearch_def Let_def
      dest: in_set_takeD in_set_dropD)

lemma level_inputs_empty: "num_non_empty_levels v \<le> l \<Longrightarrow> level_inputs v rng l = []"
  by (simp add: level_inputs_def OverlapInLevel_def)

lemma num_non_empty_levels_le: "num_non_empty_levels v \<le> length (vn_files v)"
proof -
  have "UpdateNumNonEmptyLevels fs n \<le> n" for fs :: "FileMetaData list list" and n by (induction n) auto
  then show ?thesis by (simp add: num_non_empty_levels_def)
qed

section \<open>Titan and the base database choose the same tables\<close>

text \<open>The tables both loops look at, in order, with their range and their level.\<close>

definition range_items :: "SstVersion \<Rightarrow> nat \<Rightarrow> key_range list \<Rightarrow> (key_range \<times> nat \<times> FileMetaData) list" where
  "range_items v levels ranges =
     concat (map (\<lambda>rng. concat (map (\<lambda>l. map (\<lambda>f. (rng, l, f)) (level_inputs v rng l)) [1..<levels])) ranges)"

lemma fold_concat: "fold f (concat (map g xs)) = fold (\<lambda>x. fold f (g x)) xs"
  by (induction xs) auto

lemma sum_fold_append: "sum_fold f (xs @ ys) s = (case sum_fold f xs s of Inl e \<Rightarrow> Inl e | Inr s' \<Rightarrow> sum_fold f ys s')"
  by (induction xs arbitrary: s) (auto split: sum.splits)

lemma sum_fold_concat: "sum_fold f (concat (map g xs)) = sum_fold (\<lambda>x. sum_fold f (g x)) xs"
  by (induction xs) (auto simp: fun_eq_iff sum_fold_append split: sum.splits)

lemma sum_fold_map: "sum_fold f (map g xs) = sum_fold (\<lambda>x. f (g x)) xs"
  by (induction xs) (auto simp: fun_eq_iff split: sum.splits)

lemma range_items_levels: "range_items v (length (vn_files v)) ranges = range_items v (num_non_empty_levels v) ranges"
proof -
  have "concat (map g [1..<n]) = concat (map g [1..<m])" if "m \<le> n" "\<And>l. m \<le> l \<Longrightarrow> g l = []"
    for g :: "nat \<Rightarrow> (key_range \<times> nat \<times> FileMetaData) list" and m n
    using that by (induction n rule: dec_induct) auto
  from this [OF num_non_empty_levels_le] show ?thesis by (simp add: range_items_def level_inputs_empty)
qed

lemma deleted_files_items:
  "deleted_files v include_end ranges =
     fold (\<lambda>(rng, l, f). delete_file v include_end rng l f) (range_items v (length (vn_files v)) ranges) []"
  by (simp add: deleted_files_def range_items_def fold_concat fold_map comp_def)

lemma collect_properties_items:
  "collect_properties read v include_end ranges =
     sum_fold (\<lambda>(rng, l, f). collect_file read v include_end rng f) (range_items v (length (vn_files v)) ranges) []"
  by (simp add: collect_properties_def range_items_levels) (simp add: range_items_def sum_fold_concat sum_fold_map)

lemma range_items_file:
  "(rng, l, f) \<in> set (range_items v levels ranges) \<longleftrightarrow> rng \<in> set ranges \<and> l \<in> {1..<levels} \<and> f \<in> set (level_inputs v rng l)"
  by (force simp: range_items_def)

text \<open>The properties of all tables can be read and were written by the collectors.\<close>

definition tables_readable ::
    "(u64 \<Rightarrow> (bytes \<times> EntryType) list) \<Rightarrow> (FileMetaData \<Rightarrow> status \<times> user_properties option) \<Rightarrow> SstVersion \<Rightarrow> bool" where
  "tables_readable tables read v \<longleftrightarrow>
     (\<forall>f \<in> set (concat (vn_files v)). read f = (OK, Some (table_properties (tables (sf_number f)))) \<and>
        table_fits (tables (sf_number f)))"

abbreviation table_props :: "(u64 \<Rightarrow> (bytes \<times> EntryType) list) \<Rightarrow> u64 \<Rightarrow> u64 \<times> user_properties" where
  "table_props tables k \<equiv> (k, table_properties (tables k))"

lemma collect_items_ok:
  assumes "\<forall>(rng, l, f) \<in> set items. read f = (OK, Some (table_properties (tables (sf_number f))))"
  shows "sum_fold (\<lambda>(rng, l, f). collect_file read v include_end rng f) items (map (table_props tables) (map snd edit)) =
    Inr (map (table_props tables) (map snd (fold (\<lambda>(rng, l, f). delete_file v include_end rng l f) items edit)))"
  using assms
proof (induction items arbitrary: edit)
  case (Cons x items)
  obtain rng l f where x: "x = (rng, l, f)" by (cases x)
  have "collect_file read v include_end rng f (map (table_props tables) (map snd edit)) =
      Inr (map (table_props tables) (map snd (delete_file v include_end rng l f edit)))"
    using Cons.prems by (auto simp: x collect_file_def delete_file_def image_iff)
  then show ?case using Cons.IH Cons.prems by (simp add: x)
qed simp

lemma level_inputs_in_version:
  "1 \<le> l \<Longrightarrow> l < length (vn_files v) \<Longrightarrow> f \<in> set (level_inputs v rng l) \<Longrightarrow> f \<in> set (concat (vn_files v))"
  using level_inputs_subset [of v rng l] nth_mem [of l "vn_files v"] by auto

lemma same_tables_chosen:
  assumes "tables_readable tables read v"
  shows "collect_properties read v include_end ranges =
    Inr (map (table_props tables) (map snd (deleted_files v include_end ranges)))"
proof -
  have "\<forall>(rng, l, f) \<in> set (range_items v (length (vn_files v)) ranges). read f = (OK, Some (table_properties (tables (sf_number f))))"
    using assms level_inputs_in_version by (fastforce simp: range_items_file tables_readable_def)
  from collect_items_ok [OF this, where edit = "[]"] show ?thesis
    by (simp add: collect_properties_items deleted_files_items)
qed

text \<open>What is deleted: tables of the levels below the first, each once.\<close>

lemma delete_items_ok:
  assumes "distinct (map snd edit)" "\<forall>(l, k) \<in> set edit. P l k" "\<forall>(rng, l, f) \<in> set items. \<not> sf_being_compacted f \<longrightarrow>
      \<not> ends_at_limit v include_end rng f \<longrightarrow> P l (sf_number f)"
  shows "distinct (map snd (fold (\<lambda>(rng, l, f). delete_file v include_end rng l f) items edit)) \<and>
    (\<forall>(l, k) \<in> set (fold (\<lambda>(rng, l, f). delete_file v include_end rng l f) items edit). P l k)"
  using assms
proof (induction items arbitrary: edit)
  case (Cons x items)
  obtain rng l f where x: "x = (rng, l, f)" by (cases x)
  let ?e = "delete_file v include_end rng l f edit"
  have "distinct (map snd ?e)" "\<forall>(l, k) \<in> set ?e. P l k" using Cons.prems by (auto simp: x delete_file_def)
  then show ?case using Cons.IH [of ?e] Cons.prems(3) by (simp add: x)
qed simp

lemma deleted_files_ok:
  assumes "\<And>rng l f. rng \<in> set ranges \<Longrightarrow> 1 \<le> l \<Longrightarrow> l < length (vn_files v) \<Longrightarrow> f \<in> set (level_inputs v rng l) \<Longrightarrow>
      \<not> sf_being_compacted f \<Longrightarrow> \<not> ends_at_limit v include_end rng f \<Longrightarrow> P l (sf_number f)"
  shows "distinct (map snd (deleted_files v include_end ranges))" "(l, k) \<in> set (deleted_files v include_end ranges) \<Longrightarrow> P l k"
proof -
  have "\<forall>(rng, l, f) \<in> set (range_items v (length (vn_files v)) ranges). \<not> sf_being_compacted f \<longrightarrow>
      \<not> ends_at_limit v include_end rng f \<longrightarrow> P l (sf_number f)"
    using assms by (auto simp: range_items_file)
  from delete_items_ok [of "[]" P, OF _ _ this]
  show "distinct (map snd (deleted_files v include_end ranges))" "(l, k) \<in> set (deleted_files v include_end ranges) \<Longrightarrow> P l k"
    by (auto simp: deleted_files_items)
qed

section \<open>Live bytes\<close>

definition table_refs :: "(u64 \<Rightarrow> (bytes \<times> EntryType) list) \<Rightarrow> u64 list \<Rightarrow> BlobIndex list" where
  "table_refs tables ks = concat (map (\<lambda>k. blob_refs (tables k)) ks)"

definition version_numbers :: "SstVersion \<Rightarrow> u64 list" where
  "version_numbers v = map sf_number (concat (vn_files v))"

abbreviation version_refs :: "(u64 \<Rightarrow> (bytes \<times> EntryType) list) \<Rightarrow> SstVersion \<Rightarrow> BlobIndex list" where
  "version_refs tables v \<equiv> table_refs tables (version_numbers v)"

lemma extract_diffs_ok:
  assumes "list_all (\<lambda>k. table_fits (tables k)) ks" "smap_wf diff"
  shows "\<exists>diff'. opt_fold extract_diff (map (table_props tables) ks) diff = Some diff' \<and> smap_wf diff' \<and>
    (\<forall>n. diff_val diff' n = diff_val diff n - refs_size (table_refs tables ks) n)"
  using assms
proof (induction ks arbitrary: diff)
  case Nil
  then show ?case by (simp add: table_refs_def refs_size_def refs_to_def)
next
  case (Cons k ks)
  have "table_fits (tables k)" using Cons.prems(1) by simp
  then obtain d where d: "ExtractGCStatsFromTableProperty (Some (table_properties (tables k))) False diff = (OK, d)"
    "\<And>n. diff_val d n = diff_val diff n - refs_size (blob_refs (tables k)) n" "smap_wf d"
    by (rule Extract_sizes [where to_add = False and diff = diff]) (use Cons.prems(2) that in simp)
  obtain d' where d': "opt_fold extract_diff (map (table_props tables) ks) d = Some d'" "smap_wf d'"
    "\<And>n. diff_val d' n = diff_val d n - refs_size (table_refs tables ks) n"
    using Cons.IH [OF _ d(3)] Cons.prems(1) by auto
  have "extract_diff (table_props tables k) diff = Some d" using d(1) by (simp add: extract_diff_def)
  moreover have "table_refs tables (k # ks) = blob_refs (tables k) @ table_refs tables ks" by (simp add: table_refs_def)
  ultimately show ?case using d' d(2) by (simp add: refs_size_append algebra_simps)
qed

text \<open>A round of the loop when level merge is off.\<close>

definition range_accounted :: "u64 \<Rightarrow> BlobFileMeta \<Rightarrow> BlobFileMeta" where
  "range_accounted delta f = (if is_obsolete f then f else f\<lparr>fm_live := fm_live f + delta\<rparr>)"

interpretation range_loop: file_loop "range_file opts q" fst "\<lambda>st. FindFile (fst st)"
  "\<lambda>st. storage_inv (fst st)"
  "\<lambda>x old. \<not> co_level_merge opts \<and> (case old of None \<Rightarrow> True | Some f \<Rightarrow> \<not> is_obsolete f \<longrightarrow> 0 \<le> sint (fm_live f + snd x))"
  "\<lambda>x old new. new = map_option (range_accounted (snd x)) old"
  for opts q
proof (unfold_locales, goal_cases)
  case (1 st x)
  obtain n d bs e where x: "x = (n, d)" "st = (bs, e)" by (cases x, cases st)
  show ?case
  proof (cases "\<exists>f. FindFile bs n = Some f \<and> \<not> is_obsolete f")
    case False
    then have "range_file opts q x st = Some st" by (auto simp: x range_file_def split: option.splits)
    then show ?thesis using 1(1) False
      by (intro exI [of _ st] exI [of _ "FindFile bs n"]) (cases "FindFile bs n"; auto simp: x range_accounted_def)
  next
    case True
    then obtain f where f: "FindFile bs n = Some f" "\<not> is_obsolete f" by auto
    let ?g = "range_accounted d f"
    let ?b = "if GetDiscardableRatioLevel f \<noteq> GetDiscardableRatioLevel ?g then sub_ratio f (add_ratio ?g bs) else bs"
    let ?b' = "?b\<lparr>bs_stats := SubStats LIVE_BLOB_SIZE (- d) (bs_stats ?b)\<rparr>"
    have "range_file opts q x st = Some (put_file n ?g ?b', e)"
      using 1(2) f by (simp add: x range_file_def UpdateLiveDataSize_def range_accounted_def not_less Let_def)
    moreover have look: "FindFile ?b' = FindFile bs" by simp
    have "storage_inv ?b" using 1(1) by (simp add: x)
    then have "storage_inv ?b'" by (rule ratio_inv)
    then have "storage_inv (put_file n ?g ?b')"
      by (rule put_file_inv [where f = f]) (use f look in \<open>simp_all add: range_accounted_def same_core_def is_obsolete_def\<close>)
    ultimately show ?thesis using f look
      by (intro exI [of _ "(put_file n ?g ?b', e)"] exI [of _ "Some ?g"]) (auto simp: x FindFile_put_file fun_eq_iff)
  qed
qed

definition live_covers :: "(u64 \<Rightarrow> (bytes \<times> EntryType) list) \<Rightarrow> u64 list \<Rightarrow> BlobStorage \<Rightarrow> bool" where
  "live_covers tables ks bs \<longleftrightarrow>
     (\<forall>n f. FindFile bs n = Some f \<longrightarrow> \<not> is_obsolete f \<longrightarrow> 0 \<le> sint (fm_live f - refs_size (table_refs tables ks) n))"

lemma range_account_ok:
  assumes st: "db_storage db cf = Some bs" "storage_inv bs" "\<not> co_level_merge (bs_opts bs)"
    and diff: "smap_wf diff" "\<And>n. diff_val diff n = - refs_size (table_refs tables ks) n" and covers: "live_covers tables ks bs"
  obtains bs' where "range_account cf diff db = Some (OK, (db_set_storage cf bs' db)\<lparr>tb_sched := MaybeScheduleGC (AddToGCQueue cf (tb_sched db))\<rparr>)"
    "storage_inv bs'" "scores_fresh bs'"
    "\<And>n. FindFile bs' n = map_option (range_accounted (- refs_size (table_refs tables ks) n)) (FindFile bs n)"
proof -
  let ?opts = "cf_options bs"
  have nl: "\<not> co_level_merge ?opts" using st(3) by (simp add: cf_options_def)
  have dv: "snd x = - refs_size (table_refs tables ks) (fst x)" if "x \<in> set diff" for x
    using diff_val_in [OF diff(1) that] diff(2) by simp
  have "case FindFile bs (fst x) of None \<Rightarrow> True | Some f \<Rightarrow> \<not> is_obsolete f \<longrightarrow> 0 \<le> sint (fm_live f + snd x)"
    if "x \<in> set diff" for x using covers by (simp add: live_covers_def dv [OF that] split: option.splits)
  with st(2) nl smap_wf_distinct [OF diff(1)] obtain b e where b: "opt_fold (range_file ?opts (tb_sequence db)) diff (bs, VersionEdit_new) = Some (b, e)"
    "storage_inv b" "\<forall>x \<in> set diff. FindFile b (fst x) = map_option (range_accounted (snd x)) (FindFile bs (fst x))"
    "\<forall>k. k \<notin> fst ` set diff \<longrightarrow> FindFile b k = FindFile bs k"
    using range_loop.loop_ok [of "(bs, VersionEdit_new)" diff ?opts "tb_sequence db"] by auto
  have "FindFile b n = map_option (range_accounted (- refs_size (table_refs tables ks) n)) (FindFile bs n)" for n
  proof (cases "n \<in> fst ` set diff")
    case True
    then obtain x where x: "x \<in> set diff" "n = fst x" by blast
    with b(3) dv [OF x(1)] show ?thesis by simp
  next
    case False
    then have "diff_val diff n = 0" by (simp add: diff_val_def map_of_eq_None_iff [THEN iffD2])
    then have "range_accounted (- refs_size (table_refs tables ks) n) = id" using diff(2) [of n] by (auto simp: range_accounted_def fun_eq_iff)
    with b(4) False show ?thesis by (simp add: option.map_id)
  qed
  moreover have "FindFile (ComputeGCScore b) = FindFile b" by (simp add: FindFile_def fun_eq_iff)
  moreover have "scores_fresh (ComputeGCScore b)" by (simp add: scores_fresh_def ComputeGCScore_def)
  moreover have "range_account cf diff db = Some (OK, (db_set_storage cf (ComputeGCScore b) db)\<lparr>tb_sched := MaybeScheduleGC (AddToGCQueue cf (tb_sched db))\<rparr>)"
    using st(1) b(1) nl by (simp add: range_account_def Let_def db_set_storage_twice)
  ultimately show thesis using that [of "ComputeGCScore b"] b(2) by simp
qed

section \<open>The tables that are left\<close>

lemma level_unique:
  assumes "distinct (map g (concat ys))" "i < length ys" "j < length ys" "a \<in> set (ys ! i)" "b \<in> set (ys ! j)" "g a = g b"
  shows "i = j"
  using assms
proof (induction ys rule: rev_induct)
  case (snoc y ys)
  have disj: "g ` set (concat ys) \<inter> g ` set y = {}" using snoc.prems(1) by auto
  have mem: "c \<in> set (concat ys)" if "c \<in> set (ys ! k)" "k < length ys" for c k using that nth_mem by auto
  show ?case
    using snoc disj mem [of a i] mem [of b j] by (auto simp: nth_append less_Suc_eq split: if_splits)
qed simp

lemma distinct_filter_levels:
  assumes "distinct (map g (concat ys))"
  shows "distinct (map g (concat (map (\<lambda>l. filter (P l) (ys ! l)) [0..<length ys])))"
  using assms
proof (induction ys rule: rev_induct)
  case (snoc y ys)
  let ?f = "\<lambda>ys. concat (map (\<lambda>l. filter (P l) (ys ! l)) [0..<length ys])"
  have e: "?f (ys @ [y]) = ?f ys @ filter (P (length ys)) y"
    by (simp add: nth_append) (rule arg_cong [where f = concat], simp)
  have "set (?f ys) \<subseteq> set (concat ys)" using nth_mem by fastforce
  then show ?case unfolding e using snoc by (fastforce simp: distinct_map_filter)
qed simp

lemma version_numbers_deleted:
  assumes numbers: "distinct (version_numbers v)"
    and edit: "\<And>l k. (l, k) \<in> set edit \<Longrightarrow> l < length (vn_files v) \<and> k \<in> sf_number ` set (vn_files v ! l)"
  shows "distinct (version_numbers (apply_deletions edit v))"
    "set (version_numbers (apply_deletions edit v)) = set (version_numbers v) - snd ` set edit"
    "snd ` set edit \<subseteq> set (version_numbers v)"
proof -
  let ?fs = "vn_files v"
  show "distinct (version_numbers (apply_deletions edit v))"
    using distinct_filter_levels [OF numbers [unfolded version_numbers_def]] by (simp add: version_numbers_def apply_deletions_def)
  have mem: "k \<in> set (version_numbers v) \<longleftrightarrow> (\<exists>l < length ?fs. k \<in> sf_number ` set (?fs ! l))" for k
    by (auto simp: version_numbers_def in_set_conv_nth [of _ ?fs] image_iff) (metis nth_mem)+
  then show "snd ` set edit \<subseteq> set (version_numbers v)" using edit by fastforce
  have key: "sf_number f \<in> snd ` set edit \<longleftrightarrow> (l, sf_number f) \<in> set edit" if "l < length ?fs" "f \<in> set (?fs ! l)" for l f
    using level_unique [OF numbers [unfolded version_numbers_def] that(1) _ that(2)] edit by force
  have "k \<in> set (version_numbers (apply_deletions edit v)) \<longleftrightarrow>
      (\<exists>l < length ?fs. \<exists>f \<in> set (?fs ! l). (l, sf_number f) \<notin> set edit \<and> k = sf_number f)" for k
    by (auto simp: version_numbers_def apply_deletions_def image_iff)
  then show "set (version_numbers (apply_deletions edit v)) = set (version_numbers v) - snd ` set edit"
    using key unfolding set_eq_iff Diff_iff mem image_iff by metis
qed

lemma refs_size_tables:
  "distinct ks \<Longrightarrow> refs_size (table_refs tables ks) n = (\<Sum>k \<in> set ks. refs_size (blob_refs (tables k)) n)"
proof (induction ks)
  case Nil
  then show ?case by (simp add: table_refs_def refs_size_def refs_to_def)
next
  case (Cons k ks)
  then show ?case by (simp add: table_refs_def refs_size_append)
qed

lemma deleted_files_in:
  "(l, k) \<in> set (deleted_files v include_end ranges) \<Longrightarrow> l < length (vn_files v) \<and> k \<in> sf_number ` set (vn_files v ! l)"
  by (rule deleted_files_ok(2) [where P = "\<lambda>l k. l < length (vn_files v) \<and> k \<in> sf_number ` set (vn_files v ! l)"])
    (use level_inputs_subset in blast)

lemma deleted_files_distinct: "distinct (map snd (deleted_files v include_end ranges))"
  by (rule deleted_files_ok(1) [where P = "\<lambda>_ _. True"]) simp

lemma refs_size_deleted:
  assumes "distinct (version_numbers v)"
  shows "refs_size (version_refs tables (apply_deletions (deleted_files v include_end ranges) v)) n =
    refs_size (version_refs tables v) n - refs_size (table_refs tables (map snd (deleted_files v include_end ranges))) n"
proof -
  note d = version_numbers_deleted [OF assms deleted_files_in]
  show ?thesis
    using d(3) by (simp add: refs_size_tables [OF assms] refs_size_tables [OF d(1)] refs_size_tables [OF deleted_files_distinct]
        d(2) sum_diff image_image)
qed

lemma apply_deletions_nil: "apply_deletions [] v = v"
  by (simp add: apply_deletions_def map_nth)

lemma chosen_refs [simp]:
  "deleted_files (v\<lparr>vn_refs := r\<rparr>) include_end ranges = deleted_files v include_end ranges"
proof -
  have "level_inputs (v\<lparr>vn_refs := r\<rparr>) rng l = level_inputs v rng l" for rng l
    by (simp add: level_inputs_def OverlapInLevel_def GetCleanInputsWithinInterval_def num_non_empty_levels_def)
  moreover have "delete_file (v\<lparr>vn_refs := r\<rparr>) include_end rng = delete_file v include_end rng" for rng
    by (simp add: delete_file_def ends_at_limit_def fun_eq_iff split: option.splits)
  ultimately show ?thesis by (simp add: deleted_files_def)
qed

lemma base_deletes: "base_DeleteFilesInRanges ranges include_end OK v = (OK, apply_deletions (deleted_files v include_end ranges) v)"
  by (simp add: base_DeleteFilesInRanges_def Let_def apply_deletions_nil)

text \<open>C10: When the properties of the tables can be read and no compaction comes in between, the
  deletion of tables in ranges succeeds, Titan accounts for exactly the tables the base database
  deletes, and live bytes that were exact stay exact: every blob file that is not obsolete loses the
  bytes the deleted tables referred to, so a file whose live bytes were those the tables of the column
  family refer to still has that, for the tables that are left.  The storage stays consistent, scores
  are fresh and the column family is queued.\<close>

theorem range_deletion_keeps_live_exact:
  assumes read: "tables_readable tables read v" and numbers: "distinct (version_numbers v)"
    and st: "db_storage db cf = Some bs" "storage_inv bs" "\<not> co_level_merge (bs_opts bs)"
    and covers: "live_covers tables (map snd (deleted_files v include_end ranges)) bs"
  shows "\<exists>v' bs'. DeleteFilesInRanges read id OK cf ranges include_end v db =
        Some (OK, v', (db_set_storage cf bs' db)\<lparr>tb_sched := MaybeScheduleGC (AddToGCQueue cf (tb_sched db))\<rparr>) \<and>
      v' = apply_deletions (deleted_files v include_end ranges) v \<and> storage_inv bs' \<and> scores_fresh bs' \<and>
      (\<forall>n. rel_option (\<lambda>f f'. if is_obsolete f then f' = f
              else f' = f\<lparr>fm_live := fm_live f'\<rparr> \<and>
                (fm_live f = refs_size (version_refs tables v) n \<longrightarrow> fm_live f' = refs_size (version_refs tables v') n))
            (FindFile bs n) (FindFile bs' n))"
proof -
  let ?ks = "map snd (deleted_files v include_end ranges)" and ?v = "apply_deletions (deleted_files v include_end ranges) v"
  have read': "tables_readable tables read (v\<lparr>vn_refs := r\<rparr>)" for r using read by (simp add: tables_readable_def)
  have "k \<in> sf_number ` set (concat (vn_files v))" if "k \<in> set ?ks" for k using that deleted_files_in nth_mem by fastforce
  then have "list_all (\<lambda>k. table_fits (tables k)) ?ks" using read by (force simp: list_all_iff tables_readable_def)
  then obtain diff where diff: "opt_fold extract_diff (map (table_props tables) ?ks) [] = Some diff" "smap_wf diff"
    "\<And>n. diff_val diff n = - refs_size (table_refs tables ?ks) n"
    using extract_diffs_ok [of tables ?ks "[]"] by (auto simp: diff_val_def)
  obtain bs' where bs': "range_account cf diff db = Some (OK, (db_set_storage cf bs' db)\<lparr>tb_sched := MaybeScheduleGC (AddToGCQueue cf (tb_sched db))\<rparr>)"
    "storage_inv bs'" "scores_fresh bs'" "\<And>n. FindFile bs' n = map_option (range_accounted (- refs_size (table_refs tables ?ks) n)) (FindFile bs n)"
    by (rule range_account_ok [OF st diff(2,3) covers]) (rule that; (assumption | simp))
  have "DeleteFilesInRanges read id OK cf ranges include_end v db =
      Some (OK, ?v, (db_set_storage cf bs' db)\<lparr>tb_sched := MaybeScheduleGC (AddToGCQueue cf (tb_sched db))\<rparr>)"
    using diff(1) bs'(1) by (simp add: DeleteFilesInRanges_def Let_def same_tables_chosen [OF read'] base_deletes)
  moreover have "rel_option (\<lambda>f f'. if is_obsolete f then f' = f else f' = f\<lparr>fm_live := fm_live f'\<rparr> \<and>
      (fm_live f = refs_size (version_refs tables v) n \<longrightarrow> fm_live f' = refs_size (version_refs tables ?v) n))
      (FindFile bs n) (FindFile bs' n)" for n
    by (cases "FindFile bs n") (simp_all add: bs'(4) range_accounted_def refs_size_deleted [OF numbers])
  ultimately show ?thesis using bs'(2,3) by blast
qed

definition demo_sst :: FileMetaData where
  "demo_sst = \<lparr>sf_number = 9, sf_smallest = InternalKey [1] 5 1, sf_largest = InternalKey [3] 4 1, sf_being_compacted = False\<rparr>"

definition demo_version :: SstVersion where
  "demo_version = \<lparr>vn_files = [[], [demo_sst]], vn_less = bytes_less, vn_refs = 1\<rparr>"

lemma demo_deleted: "deleted_files demo_version True [(Some [0], Some [5])] = [(1, 9)]"
  by code_simp

theorem range_deletion_keeps_live_exact_witness:
  "\<exists>v' bs'. DeleteFilesInRanges (\<lambda>f. (OK, Some (table_properties demo_table))) id OK 0 [(Some [0], Some [5])] True
        demo_version (demo_db (demo_live_file\<lparr>fm_live := 40\<rparr>) False) =
      Some (OK, v', (db_set_storage 0 bs' (demo_db (demo_live_file\<lparr>fm_live := 40\<rparr>) False))
        \<lparr>tb_sched := MaybeScheduleGC (AddToGCQueue 0 (tb_sched (demo_db (demo_live_file\<lparr>fm_live := 40\<rparr>) False)))\<rparr>) \<and>
     vn_files v' = [[], []] \<and> FindFile bs' 3 = Some (demo_live_file\<lparr>fm_live := 0\<rparr>)"
proof -
  let ?read = "\<lambda>f. (OK, Some (table_properties demo_table))" and ?tables = "\<lambda>_ :: u64. demo_table"
  let ?f = "demo_live_file\<lparr>fm_live := 40\<rparr>"
  have read: "tables_readable ?tables ?read demo_version" by (simp add: tables_readable_def table_fits_def demo_table_def)
  have numbers: "distinct (version_numbers demo_version)" by (simp add: version_numbers_def demo_version_def)
  have st: "db_storage (demo_db ?f False) 0 = Some (demo_storage ?f)" "\<not> co_level_merge (bs_opts (demo_storage ?f))"
    by (simp_all add: demo_options_def)
  have inv: "storage_inv (demo_storage ?f)"
    by (rule demo_storage_inv) (simp_all add: demo_live_file_def BlobFileMeta_new_def is_obsolete_def)
  have refs: "refs_size (table_refs ?tables [9]) 3 = 40"
    by (simp add: table_refs_def refs_size_def refs_to_def demo_index_def)
  have n: "fm_number demo_live_file = 3" "\<not> is_obsolete ?f" by (simp_all add: demo_live_file_def BlobFileMeta_new_def is_obsolete_def)
  have covers: "live_covers ?tables (map snd (deleted_files demo_version True [(Some [0], Some [5])])) (demo_storage ?f)"
    using refs n by (simp add: live_covers_def demo_deleted)
  obtain v' bs' where r: "DeleteFilesInRanges ?read id OK 0 [(Some [0], Some [5])] True demo_version (demo_db ?f False) =
      Some (OK, v', (db_set_storage 0 bs' (demo_db ?f False))
        \<lparr>tb_sched := MaybeScheduleGC (AddToGCQueue 0 (tb_sched (demo_db ?f False)))\<rparr>)"
    "v' = apply_deletions (deleted_files demo_version True [(Some [0], Some [5])]) demo_version"
    "\<forall>n. rel_option (\<lambda>f f'. if is_obsolete f then f' = f else f' = f\<lparr>fm_live := fm_live f'\<rparr> \<and>
      (fm_live f = refs_size (version_refs ?tables demo_version) n \<longrightarrow> fm_live f' = refs_size (version_refs ?tables v') n))
      (FindFile (demo_storage ?f) n) (FindFile bs' n)"
    using range_deletion_keeps_live_exact [OF read numbers st(1) inv st(2) covers] by blast
  have "vn_files v' = [[], []]" "version_numbers v' = []" "version_numbers demo_version = [9]"
    by (simp_all add: r(2) [unfolded demo_deleted] apply_deletions_def demo_version_def demo_sst_def version_numbers_def upt_rec)
  moreover have "refs_size (table_refs ?tables []) 3 = 0" by (simp add: table_refs_def refs_size_def refs_to_def)
  ultimately have "FindFile bs' 3 = Some (demo_live_file\<lparr>fm_live := 0\<rparr>)"
    using spec [OF r(3), of 3] refs n by (cases "FindFile bs' 3") auto
  with r(1) \<open>vn_files v' = [[], []]\<close> show ?thesis by blast
qed

section \<open>Nothing outside the ranges is deleted\<close>

definition weak_order :: "('a \<Rightarrow> 'a \<Rightarrow> bool) \<Rightarrow> bool" where
  "weak_order lt \<longleftrightarrow> (\<forall>a. \<not> lt a a) \<and> (\<forall>a b c. lt a b \<longrightarrow> lt b c \<longrightarrow> lt a c) \<and> (\<forall>a b c. lt a c \<longrightarrow> lt a b \<or> lt b c)"

text \<open>Tables of a level below the first are disjoint and in order; they may share a user key.\<close>

definition level_sorted :: "(bytes \<Rightarrow> bytes \<Rightarrow> bool) \<Rightarrow> FileMetaData list \<Rightarrow> bool" where
  "level_sorted lt files \<longleftrightarrow>
     list_all (\<lambda>f. sstableKeyCompare lt (sf_smallest f) (sf_largest f) \<le> 0) files \<and>
     sorted_wrt (\<lambda>f g. sstableKeyCompare lt (sf_largest f) (sf_smallest g) \<le> 0) files"

lemma sstableKeyCompare_swap: "weak_order lt \<Longrightarrow> sstableKeyCompare lt b a = - sstableKeyCompare lt a b"
  unfolding weak_order_def by (auto simp: sstableKeyCompare_def cmp3_def Let_def)

lemma sstableKeyCompare_chain:
  assumes "weak_order lt" "sstableKeyCompare lt a b \<le> 0" "sstableKeyCompare lt b c < 0"
  shows "sstableKeyCompare lt a c < 0"
proof -
  let ?a = "ExtractUserKey a" and ?b = "ExtractUserKey b" and ?c = "ExtractUserKey c"
  have t: "lt ?a ?b \<Longrightarrow> lt ?b ?c \<Longrightarrow> lt ?a ?c" "lt ?c ?a \<Longrightarrow> lt ?c ?b \<or> lt ?b ?a" "lt ?b ?c \<Longrightarrow> lt ?b ?a \<or> lt ?a ?c"
    "lt ?a ?b \<Longrightarrow> lt ?a ?c \<or> lt ?c ?b" "lt ?c ?b \<Longrightarrow> \<not> lt ?b ?c" "lt ?b ?a \<Longrightarrow> \<not> lt ?a ?b" "lt ?c ?a \<Longrightarrow> \<not> lt ?a ?c"
    using assms(1) unfolding weak_order_def by metis+
  show ?thesis using assms(2,3) t by (auto simp: sstableKeyCompare_def cmp3_def Let_def split: if_splits)
qed

lemma sstableKeyCompare_trans:
  assumes "weak_order lt"
  shows "sstableKeyCompare lt a b < 0 \<Longrightarrow> sstableKeyCompare lt b c \<le> 0 \<Longrightarrow> sstableKeyCompare lt a c < 0"
    "sstableKeyCompare lt a b \<le> 0 \<Longrightarrow> sstableKeyCompare lt b c \<le> 0 \<Longrightarrow> sstableKeyCompare lt a c \<le> 0"
  using sstableKeyCompare_chain [OF assms, of c a b] sstableKeyCompare_chain [OF assms, of b c a]
    sstableKeyCompare_swap [OF assms, of a c] sstableKeyCompare_swap [OF assms, of b c] sstableKeyCompare_swap [OF assms, of a b]
  by linarith+

lemma level_sorted_ends:
  assumes "weak_order lt" "level_sorted lt files" "j \<le> k" "k < length files"
  shows "sstableKeyCompare lt (sf_smallest (files ! j)) (sf_smallest (files ! k)) \<le> 0"
    "sstableKeyCompare lt (sf_largest (files ! j)) (sf_largest (files ! k)) \<le> 0"
proof -
  have refl: "sstableKeyCompare lt x x \<le> 0" for x using sstableKeyCompare_swap [OF assms(1), of x x] by simp
  have own: "sstableKeyCompare lt (sf_smallest (files ! i)) (sf_largest (files ! i)) \<le> 0" if "i < length files" for i
    using assms(2) that by (auto simp: level_sorted_def list_all_length)
  have next_: "sstableKeyCompare lt (sf_largest (files ! j)) (sf_smallest (files ! k)) \<le> 0" if "j \<noteq> k"
    using assms that by (auto simp: level_sorted_def sorted_wrt_iff_nth_less)
  have "j < length files" using assms(3,4) by simp
  then show "sstableKeyCompare lt (sf_smallest (files ! j)) (sf_smallest (files ! k)) \<le> 0"
    "sstableKeyCompare lt (sf_largest (files ! j)) (sf_largest (files ! k)) \<le> 0"
    using refl next_ own [of j] own [OF assms(4)] sstableKeyCompare_trans(2) [OF assms(1)] by metis+
qed

lemma user_keys_in_order: "\<not> sstableKeyCompare lt a b < 0 \<Longrightarrow> \<not> lt (ExtractUserKey a) (ExtractUserKey b)"
  by (auto simp: sstableKeyCompare_def cmp3_def Let_def split: if_splits)

lemma ExtractUserKey_possible [simp]:
  "ExtractUserKey (SetMinPossibleForUserKey k) = k" "ExtractUserKey (SetMaxPossibleForUserKey k) = k"
  by (simp_all add: ExtractUserKey_def SetMinPossibleForUserKey_def SetMaxPossibleForUserKey_def InternalKey_def PutFixed64_def)

lemma search_start_within:
  assumes "weak_order lt" "level_sorted lt files" "search_start lt True files (Some b) \<le> i" "i < length files"
  shows "\<not> lt (ExtractUserKey (sf_smallest (files ! i))) (ExtractUserKey b)"
proof (rule user_keys_in_order)
  let ?p = "\<lambda>i. sstableKeyCompare lt (sf_smallest (files ! i)) b < 0"
  have "?p j" if "j \<le> k" "k < length files" "?p k" for j k
    by (rule sstableKeyCompare_chain [OF assms(1) level_sorted_ends(1) [OF assms(1,2) that(1,2)] that(3)])
  then have "?p i \<longleftrightarrow> i < bound ?p 0 (length files)" using bound_border [of 0 "length files" ?p i] assms(4) by auto
  moreover have "bound ?p 0 (length files) \<le> i"
    using assms(3) clean_start_ge [of "bound ?p 0 (length files)" lt files] by (auto simp: search_start_def Let_def split: if_splits)
  ultimately show "\<not> ?p i" by simp
qed

lemma search_end_within:
  assumes "weak_order lt" "level_sorted lt files" "start \<le> length files" "start \<le> i" "i < search_end lt True files start (Some e)"
  shows "\<not> lt (ExtractUserKey e) (ExtractUserKey (sf_largest (files ! i)))"
proof (rule user_keys_in_order)
  let ?p = "\<lambda>i. \<not> sstableKeyCompare lt e (sf_largest (files ! i)) < 0"
  let ?b = "bound ?p start (length files - start)"
  have "?p j" if "j \<le> k" "k < length files" "?p k" for j k
    using that(3) sstableKeyCompare_trans(1) [OF assms(1) _ level_sorted_ends(2) [OF assms(1,2) that(1,2)]] by blast
  moreover have i: "i < length files" using search_indexes(2) [OF assms(3)] assms(5) less_le_trans by blast
  ultimately have "?p i \<longleftrightarrow> i < ?b" using bound_border [of start "length files - start" ?p i] assms(3,4) by auto
  moreover have "search_end lt True files start (Some e) \<le> ?b"
    using clean_end_le [of lt files start ?b] by (simp add: search_end_def Let_def)
  ultimately show "?p i" using assms(5) by simp
qed

definition within_range :: "SstVersion \<Rightarrow> bool \<Rightarrow> key_range \<Rightarrow> FileMetaData \<Rightarrow> bool" where
  "within_range v include_end rng f \<longleftrightarrow>
     (case fst rng of None \<Rightarrow> True | Some b \<Rightarrow> \<not> vn_less v (ExtractUserKey (sf_smallest f)) b) \<and>
     (case snd rng of None \<Rightarrow> True
      | Some e \<Rightarrow> if include_end then \<not> vn_less v e (ExtractUserKey (sf_largest f))
                 else vn_less v (ExtractUserKey (sf_largest f)) e)"

lemma level_inputs_within:
  assumes order: "weak_order (vn_less v)" and sorted: "level_sorted (vn_less v) (vn_files v ! l)"
    and f: "f \<in> set (level_inputs v rng l)" and limit: "\<not> ends_at_limit v include_end rng f"
  shows "within_range v include_end rng f"
proof -
  let ?fs = "vn_files v ! l" and ?b = "map_option SetMinPossibleForUserKey (fst rng)" and ?e = "map_option SetMaxPossibleForUserKey (snd rng)"
  let ?s = "search_start (vn_less v) True ?fs ?b"
  let ?t = "search_end (vn_less v) True ?fs ?s ?e"
  have "f \<in> set (take (?t - ?s) (drop ?s ?fs))"
    using f by (auto simp: level_inputs_def GetCleanInputsWithinInterval_def GetOverlappingInputsRangeBinarySearch_def Let_def split: if_splits)
  then obtain j where "j < length (take (?t - ?s) (drop ?s ?fs))" "f = take (?t - ?s) (drop ?s ?fs) ! j"
    by (metis in_set_conv_nth)
  then obtain i where i: "?s \<le> i" "i < ?t" "i < length ?fs" "f = ?fs ! i"
    by (intro that [of "?s + j"]) auto
  have lo: "\<not> vn_less v (ExtractUserKey (sf_smallest f)) b" if "fst rng = Some b" for b
    using search_start_within [OF order sorted, of "SetMinPossibleForUserKey b" i] i that by simp
  have hi: "\<not> vn_less v e (ExtractUserKey (sf_largest f))" if "snd rng = Some e" for e
    using search_end_within [OF order sorted search_indexes(1) i(1), of "SetMaxPossibleForUserKey e"] i(2,4) that by simp
  show ?thesis using lo hi limit by (auto simp: within_range_def ends_at_limit_def cmp3_def split: option.splits if_splits)
qed

lemma deleted_files_within:
  assumes "weak_order (vn_less v)" "\<And>l. 1 \<le> l \<Longrightarrow> l < length (vn_files v) \<Longrightarrow> level_sorted (vn_less v) (vn_files v ! l)"
    and "(l, k) \<in> set (deleted_files v include_end ranges)"
  shows "1 \<le> l \<and> (\<exists>rng \<in> set ranges. \<exists>f \<in> set (vn_files v ! l). sf_number f = k \<and> \<not> sf_being_compacted f \<and> within_range v include_end rng f)"
  by (rule deleted_files_ok(2) [OF _ assms(3)]) (use level_inputs_within [OF assms(1,2)] level_inputs_subset in blast)

text \<open>C11: Whatever the outcomes of reading properties and writing manifests are, the deletion of
  tables in ranges removes a table only from a level below the first, only when no compaction uses it, and
  only when all of its keys lie within one of the ranges (below its end when the end is excluded).\<close>

theorem range_deletion_within:
  assumes order: "weak_order (vn_less v)"
    and sorted: "\<And>l. 1 \<le> l \<Longrightarrow> l < length (vn_files v) \<Longrightarrow> level_sorted (vn_less v) (vn_files v ! l)"
    and numbers: "distinct (version_numbers v)"
    and run: "DeleteFilesInRanges read id applied cf ranges include_end v db = Some (s, v', db')"
    and f: "l < length (vn_files v)" "f \<in> set (vn_files v ! l)" "f \<notin> set (vn_files v' ! l)"
  shows "1 \<le> l \<and> \<not> sf_being_compacted f \<and> (\<exists>rng \<in> set ranges. within_range v include_end rng f)"
proof -
  let ?edit = "deleted_files v include_end ranges"
  have "vn_files v' = vn_files v \<or> vn_files v' = vn_files (apply_deletions ?edit v)"
    using run by (auto simp: DeleteFilesInRanges_def base_DeleteFilesInRanges_def Let_def split: sum.splits option.splits if_splits)
  then have "(l, sf_number f) \<in> set ?edit" using f by (auto simp: apply_deletions_def)
  from deleted_files_within [OF order sorted this] obtain rng g where g: "1 \<le> l" "rng \<in> set ranges"
    "g \<in> set (vn_files v ! l)" "sf_number g = sf_number f" "\<not> sf_being_compacted g" "within_range v include_end rng g" by blast
  have "f \<in> set (concat (vn_files v))" "g \<in> set (concat (vn_files v))" using f(1,2) g(3) nth_mem by auto
  then have "g = f" using numbers g(4) by (auto simp: version_numbers_def distinct_map dest: inj_onD)
  with g show ?thesis by blast
qed

theorem range_deletion_within_witness:
  "\<exists>v' db'. DeleteFilesInRanges (\<lambda>f. (OK, Some [])) id OK 0 [(Some [0], Some [5])] True demo_version (demo_db demo_live_file False) =
      Some (OK, v', db') \<and> demo_sst \<notin> set (vn_files v' ! 1) \<and>
     \<not> bytes_less (ExtractUserKey (sf_smallest demo_sst)) [0] \<and> \<not> bytes_less [5] (ExtractUserKey (sf_largest demo_sst))"
proof -
  let ?read = "\<lambda>f :: FileMetaData. (OK, Some [])" and ?r = "[(Some [0], Some [5])]" and ?db = "demo_db demo_live_file False"
  have "collect_properties ?read (demo_version\<lparr>vn_refs := Suc (vn_refs demo_version)\<rparr>) True ?r = Inr [(9, [])]" by code_simp
  moreover have "opt_fold extract_diff [(9, [])] [] = Some []" by (simp add: extract_diff_def ExtractGCStatsFromTableProperty_def)
  moreover obtain db' where "range_account 0 [] ?db = Some (OK, db')"
    by (simp add: range_account_def Let_def cf_options_def demo_options_def)
  ultimately have run: "DeleteFilesInRanges ?read id OK 0 ?r True demo_version ?db = Some (OK, apply_deletions [(1, 9)] demo_version, db')"
    by (simp add: DeleteFilesInRanges_def Let_def base_deletes demo_deleted)
  have sorted: "level_sorted (vn_less demo_version) (vn_files demo_version ! l)" if "1 \<le> l" "l < length (vn_files demo_version)" for l
  proof -
    have "level_sorted bytes_less [demo_sst]" by code_simp
    moreover have "l = 1" using that by (simp add: demo_version_def)
    ultimately show ?thesis by (simp add: demo_version_def)
  qed
  have gone: "demo_sst \<in> set (vn_files demo_version ! 1)" "demo_sst \<notin> set (vn_files (apply_deletions [(1, 9)] demo_version) ! 1)"
    by (simp_all add: apply_deletions_def demo_version_def demo_sst_def)
  have "weak_order (vn_less demo_version)" unfolding weak_order_def demo_version_def
    using bytes_less_trans bytes_less_total by (auto, metis)
  from range_deletion_within [OF this sorted _ run _ gone]
  have "within_range demo_version True (Some [0], Some [5]) demo_sst" by (simp add: version_numbers_def demo_version_def)
  with run gone(2) show ?thesis by (auto simp: within_range_def demo_version_def)
qed

end
