(* ===== verification/Titan_Confs.thy ===== *)
theory Titan_Confs
  imports Titan_Open Titan_DeleteRange
begin

text \<open>
  What no operation on blob files changes of a storage: its options, its run mode and whether it is destroyed.
  A loop over files keeps them when its body does; adding and deleting files, the handlers of flushes and
  compactions, the deletion of ranges, the start of collections, recovery and purging do.
\<close>

section \<open>One storage\<close>

definition bs_conf :: "BlobStorage \<Rightarrow> TitanCFOptions \<times> TitanBlobRunMode \<times> bool" where
  "bs_conf bs = (bs_opts bs, bs_run_mode bs, bs_destroyed bs)"

lemma bs_conf_updates [simp]:
  "bs_conf (bs\<lparr>bs_files := fl\<rparr>) = bs_conf bs" "bs_conf (bs\<lparr>bs_ranges := r\<rparr>) = bs_conf bs" "bs_conf (bs\<lparr>bs_levels := l\<rparr>) = bs_conf bs"
  "bs_conf (bs\<lparr>bs_stats := st\<rparr>) = bs_conf bs" "bs_conf (bs\<lparr>bs_obsolete := ob\<rparr>) = bs_conf bs" "bs_conf (bs\<lparr>bs_gc_score := g\<rparr>) = bs_conf bs"
  by (simp_all add: bs_conf_def)

lemma bs_conf_helpers [simp]:
  "bs_conf (ComputeGCScore bs) = bs_conf bs" "bs_conf (put_file n f bs) = bs_conf bs" "bs_conf (add_ratio f bs) = bs_conf bs"
  "bs_conf (sub_ratio f bs) = bs_conf bs" "bs_conf (ratio_after f bs) = bs_conf bs"
  by (simp_all add: ComputeGCScore_def put_file_def add_ratio_def sub_ratio_def ratio_after_def)

lemma AddBlobFile_conf: "AddBlobFile f bs = Some bs' \<Longrightarrow> bs_conf bs' = bs_conf bs"
  by (auto simp: AddBlobFile_def Let_def split: if_splits)

lemma MarkFileObsolete_conf: "MarkFileObsolete n q bs = Some (found, bs') \<Longrightarrow> bs_conf bs' = bs_conf bs"
  by (auto simp: MarkFileObsolete_def MarkFileObsoleteLocked_def Let_def split: option.splits if_splits)

lemma RemoveFile_conf: "RemoveFile n bs = (found, bs') \<Longrightarrow> bs_conf bs' = bs_conf bs"
  by (auto simp: RemoveFile_def Let_def split: option.splits)

lemma GetObsoleteFiles_loop_conf: "GetObsoleteFiles_loop oldest es bs = Some (kept, names, bs') \<Longrightarrow> bs_conf bs' = bs_conf bs"
proof (induction oldest es bs arbitrary: kept names bs' rule: GetObsoleteFiles_loop.induct)
  case (2 oldest n q es bs)
  then show ?case using RemoveFile_conf by (fastforce split: if_splits option.splits prod.splits)
qed simp

lemma GetObsoleteFiles_conf: "GetObsoleteFiles oldest bs = Some (names, bs') \<Longrightarrow> bs_conf bs' = bs_conf bs"
  by (auto simp: GetObsoleteFiles_def dest: GetObsoleteFiles_loop_conf split: option.splits)

lemma CFE_Apply_added_conf: "CFE_Apply_added del fl bs = Some bs' \<Longrightarrow> bs_conf bs' = bs_conf bs"
proof (induction fl arbitrary: bs)
  case (Cons p fl)
  then show ?case by (cases p) (auto split: if_splits option.splits simp: AddBlobFile_conf)
qed simp

lemma CFE_Apply_deleted_conf: "CFE_Apply_deleted added fl bs = Some (s, bs') \<Longrightarrow> bs_conf bs' = bs_conf bs"
proof (induction fl arbitrary: bs)
  case (Cons p fl)
  then show ?case by (cases p) (auto split: if_splits option.splits prod.splits simp: MarkFileObsolete_conf)
qed simp

lemma CFE_Apply_conf: "CFE_Apply ce bs = Some (s, bs') \<Longrightarrow> bs_conf bs' = bs_conf bs"
  by (auto simp: CFE_Apply_def CFE_Apply_added_conf CFE_Apply_deleted_conf split: option.splits if_splits)

lemma InitializeAllFiles_conf: "InitializeAllFiles bs = Some bs' \<Longrightarrow> bs_conf bs' = bs_conf bs"
  by (auto simp: InitializeAllFiles_def)

section \<open>Loops over files\<close>

locale conf_loop =
  fixes view :: "'s \<Rightarrow> BlobStorage" and step :: "'a \<Rightarrow> 's \<Rightarrow> 's option"
  assumes step_conf: "step x s = Some s' \<Longrightarrow> bs_conf (view s') = bs_conf (view s)"
begin

lemma loop_conf: "opt_fold step xs s = Some s' \<Longrightarrow> bs_conf (view s') = bs_conf (view s)"
  by (induction xs arbitrary: s) (auto simp: step_conf split: option.splits)

end

definition merge_mark :: "u64 \<Rightarrow> BlobStorage \<Rightarrow> BlobStorage option" where
  "merge_mark n bs = (case FindFile bs n of None \<Rightarrow> None | Some f \<Rightarrow> map_option (\<lambda>f. put_file n f bs) (FileStateTransit NeedMerge f))"

interpretation flush_conf: conf_loop "\<lambda>bs. bs" flush_file
  by unfold_locales (auto simp: flush_file_def Let_def split: option.splits if_splits prod.splits)

interpretation init_conf: conf_loop "\<lambda>bs. bs" init_file
  by unfold_locales (auto simp: init_file_def Let_def split: option.splits if_splits)

interpretation validate_conf: conf_loop "\<lambda>bs. bs" "validate_file valid"
  by unfold_locales (auto simp: validate_file_def Let_def split: option.splits if_splits prod.splits)

interpretation merge_conf: conf_loop "\<lambda>bs. bs" merge_mark
  by unfold_locales (auto simp: merge_mark_def split: option.splits)

interpretation compaction_conf: conf_loop cs_storage "compaction_file opts runs q"
  by unfold_locales
    (auto simp: compaction_file_def compaction_pending_file_def compaction_normal_file_def Let_def split: option.splits if_splits prod.splits)

interpretation range_conf: conf_loop fst "range_file opts q"
  by unfold_locales (auto simp: range_file_def Let_def split: option.splits if_splits prod.splits)

lemma mark_runs_conf: "mark_runs k ends open_files bs = Some bs' \<Longrightarrow> bs_conf bs' = bs_conf bs"
proof (induction k ends open_files bs arbitrary: bs' rule: mark_runs.induct)
  case (2 k f smallest ends open_files bs)
  then show ?case
    by (auto simp: Let_def merge_conf.loop_conf [unfolded merge_mark_def [abs_def]] split: if_splits option.splits)
qed simp

lemma MarkFileIfNeedMerge_conf: "MarkFileIfNeedMerge fl k bs = Some bs' \<Longrightarrow> bs_conf bs' = bs_conf bs"
  by (auto simp: MarkFileIfNeedMerge_def Let_def dest: mark_runs_conf split: if_splits)

section \<open>All storages\<close>

text \<open>The same column families in the same order, each with its configuration.\<close>

definition conf_at :: "(u32 \<times> BlobStorage) list \<Rightarrow> u32 \<Rightarrow> (TitanCFOptions \<times> TitanBlobRunMode \<times> bool) option" where
  "conf_at cols cf = map_option bs_conf (map_of cols cf)"

definition same_confs :: "(u32 \<times> BlobStorage) list \<Rightarrow> (u32 \<times> BlobStorage) list \<Rightarrow> bool" where
  "same_confs cols cols' \<longleftrightarrow> map fst cols' = map fst cols \<and> conf_at cols' = conf_at cols"

lemma same_confs_refl [simp]: "same_confs cols cols"
  by (simp add: same_confs_def)

lemma same_confs_trans: "same_confs a b \<Longrightarrow> same_confs b c \<Longrightarrow> same_confs a c"
  by (simp add: same_confs_def)

lemma same_confs_modify:
  "map_of cols cf = Some bs \<Longrightarrow> bs_conf bs' = bs_conf bs \<Longrightarrow> same_confs cols (al_modify cf (\<lambda>_. bs') cols)"
  by (auto simp: same_confs_def conf_at_def fun_eq_iff map_of_al_modify)

lemma Apply_cfs_confs: "Apply_cfs cfs cols = Some (s, cols') \<Longrightarrow> same_confs cols cols'"
proof (induction cfs cols arbitrary: cols' rule: Apply_cfs.induct)
  case (2 cf ce cfs cols)
  show ?case
  proof (cases "map_of cols cf")
    case None
    then show ?thesis using 2 by simp
  next
    case (Some bs)
    then obtain s1 bs1 where a: "CFE_Apply ce bs = Some (s1, bs1)" using 2(3) by (auto split: option.splits)
    have m: "same_confs cols (al_modify cf (\<lambda>_. bs1) cols)" by (rule same_confs_modify [OF Some CFE_Apply_conf [OF a]])
    show ?thesis
    proof (cases "s1 = OK")
      case True
      then show ?thesis using 2(2) [OF Some a refl refl] 2(3) Some a same_confs_trans [OF m] by simp
    qed (use 2(3) Some a m in simp)
  qed
qed simp

lemma Apply_confs: "Apply ec cols = Some (s, cols') \<Longrightarrow> same_confs cols cols'"
  by (auto simp: Apply_def dest: Apply_cfs_confs split: if_splits)

lemma SyncTitanManifest_columns: "fs_columns (snd (SyncTitanManifest fs)) = fs_columns fs"
  by (simp add: SyncTitanManifest_def next_io_columns)

lemma LogAndApply_confs:
  assumes "LogAndApply e fs = Some (s, fs')"
  shows "same_confs (fs_columns fs) (fs_columns fs')"
proof -
  have sync: "fs_columns x' = fs_columns x" if "SyncTitanManifest x = (r, x')" for x r x'
    using SyncTitanManifest_columns [of x] that by simp
  show ?thesis using assms
    by (auto simp: LogAndApply_def Let_def sync dest!: AddRecord_columns Apply_confs split: prod.splits if_splits option.splits)
qed

section \<open>Recovery\<close>

lemma WriteSnapshot_cfs_columns: "WriteSnapshot_cfs cols fs = Some (s, fs') \<Longrightarrow> fs_columns fs' = fs_columns fs"
proof (induction cols arbitrary: fs)
  case (Cons c cols)
  then show ?case by (auto split: option.splits if_splits dest!: AddRecord_columns)
qed simp

lemma WriteSnapshot_columns: "WriteSnapshot fs = Some (s, fs') \<Longrightarrow> fs_columns fs' = fs_columns fs"
  by (auto simp: WriteSnapshot_def split: option.splits if_splits dest!: AddRecord_columns WriteSnapshot_cfs_columns)

lemma SetCurrentFile_columns: "fs_columns (snd (SetCurrentFile n fs)) = fs_columns fs"
  using next_io_columns [of fs] by (auto simp: SetCurrentFile_def split: prod.splits)

lemma OpenManifest_columns:
  assumes "OpenManifest n fs = Some (s, fs')"
  shows "fs_columns fs' = fs_columns fs"
proof -
  obtain s1 f1 where n: "next_io fs = (s1, f1)" by fastforce
  have c1: "fs_columns f1 = fs_columns fs" using next_io_columns [of fs] n by simp
  show ?thesis
  proof (cases "s1 = OK")
    case True
    let ?f = "f1\<lparr>fs_disk := (fs_disk f1)\<lparr>dk_manifests := (dk_manifests (fs_disk f1))(DescriptorFileName n \<mapsto> []),
        dk_children := dk_children (fs_disk f1) @ [DescriptorN n]\<rparr>, fs_manifest := Some (DescriptorFileName n)\<rparr>"
    obtain s2 f2 where w: "WriteSnapshot ?f = Some (s2, f2)" using assms n True by (auto simp: OpenManifest_def Let_def split: option.splits)
    have c2: "fs_columns f2 = fs_columns fs" using WriteSnapshot_columns [OF w] c1 by simp
    obtain s3 f3 where y: "(if s2 = OK then SyncTitanManifest f2 else (s2, f2)) = (s3, f3)" by fastforce
    have c3: "fs_columns f3 = fs_columns fs" using SyncTitanManifest_columns [of f2] y c2 by (auto split: if_splits)
    obtain s4 f4 where z: "SetCurrentFile n f3 = (s4, f4)" by fastforce
    have c4: "fs_columns f4 = fs_columns fs" using SetCurrentFile_columns [of n f3] z c3 by simp
    show ?thesis using assms n True w y z c3 c4 by (auto simp: OpenManifest_def Let_def split: if_splits)
  qed (use assms n c1 in \<open>auto simp: OpenManifest_def\<close>)
qed

lemma purge_columns_confs: "purge_columns cols = Some (alive, cols') \<Longrightarrow> same_confs cols cols'"
proof (induction cols arbitrary: alive cols')
  case (Cons c cols)
  obtain cf bs where c: "c = (cf, bs)" by fastforce
  obtain names bs1 alive1 cols1 where p: "GetObsoleteFiles kMaxSequenceNumber bs = Some (names, bs1)" "purge_columns cols = Some (alive1, cols1)"
    "cols' = (cf, bs1) # cols1" using Cons.prems by (auto simp: c split: option.splits prod.splits)
  from Cons.IH [OF p(2)] GetObsoleteFiles_conf [OF p(1)] show ?case
    by (auto simp: c p(3) same_confs_def conf_at_def fun_eq_iff)
qed simp

lemma delete_dead_columns: "fs_columns (delete_dead alive fl fs) = fs_columns fs"
proof (induction alive fl fs rule: delete_dead.induct)
  case (2 alive f fl fs)
  then show ?case using next_io_columns [of fs] by (auto simp: Let_def split: prod.splits)
qed simp

lemma Recover_purge_confs: "Recover_purge fs = Some (s, fs') \<Longrightarrow> same_confs (fs_columns fs) (fs_columns fs')"
proof -
  assume r: "Recover_purge fs = Some (s, fs')"
  let ?f = "fs\<lparr>fs_next_file_number := fs_next_file_number fs + 1\<rparr>"
  obtain s1 f1 where o1: "OpenManifest (fs_next_file_number fs) ?f = Some (s1, f1)"
    using r by (auto simp: Recover_purge_def NewFileNumber_def split: option.splits)
  have c1: "fs_columns f1 = fs_columns fs" using OpenManifest_columns [OF o1] by simp
  show ?thesis
  proof (cases "s1 = OK")
    case True
    obtain alive cols where p: "purge_columns (fs_columns f1) = Some (alive, cols)"
      using r o1 True by (auto simp: Recover_purge_def NewFileNumber_def split: option.splits)
    have "fs_columns fs' = cols"
      using r o1 True p next_io_columns [of "f1\<lparr>fs_columns := cols\<rparr>"]
      by (auto simp: Recover_purge_def NewFileNumber_def delete_dead_columns Let_def split: prod.splits)
    then show ?thesis using purge_columns_confs [OF p] c1 by simp
  qed (use r o1 c1 in \<open>auto simp: Recover_purge_def NewFileNumber_def\<close>)
qed

lemma Recover_apply_confs: "Recover_apply ec fs = Some (s, fs') \<Longrightarrow> same_confs (fs_columns fs) (fs_columns fs')"
  by (auto simp: Recover_apply_def Let_def dest!: Apply_confs split: prod.splits if_splits option.splits sum.splits)

lemma Recover_open_columns:
  assumes "Recover_open fs = (r, fs')"
  shows "fs_columns fs' = fs_columns fs"
proof -
  obtain s1 f1 where n1: "next_io fs = (s1, f1)" by fastforce
  obtain s2 f2 where n2: "next_io f1 = (s2, f2)" by fastforce
  have "fs_columns f1 = fs_columns fs" "fs_columns f2 = fs_columns fs"
    using next_io_columns [of fs] next_io_columns [of f1] n1 n2 by simp_all
  then show ?thesis using assms n1 n2 by (auto simp: Recover_open_def split: if_splits option.splits)
qed

lemma Recover_confs: "Recover fs = Some (s, fs') \<Longrightarrow> same_confs (fs_columns fs) (fs_columns fs')"
  by (auto simp: Recover_def dest!: Recover_open_columns Recover_apply_confs Recover_purge_confs
      intro: same_confs_trans split: prod.splits sum.splits option.splits if_splits)

lemma Open_confs:
  assumes "Titan_FileSet.Open st cfs fs = Some (s, fs')"
  shows "same_confs (fs_columns (AddColumnFamilies st cfs fs)) (fs_columns fs')"
proof -
  obtain s1 f1 where n: "next_io (AddColumnFamilies st cfs fs) = (s1, f1)" by fastforce
  have c: "fs_columns f1 = fs_columns (AddColumnFamilies st cfs fs)" using next_io_columns [of "AddColumnFamilies st cfs fs"] n by simp
  show ?thesis using assms n c
    by (auto simp: Titan_FileSet.Open_def Let_def NewFileNumber_def dest!: Recover_confs OpenManifest_columns split: if_splits)
qed

section \<open>Dropping and purging\<close>

lemma DropColumnFamilies_confs: "DropColumnFamilies cfs q fs = Some (s, fs') \<Longrightarrow> same_confs (fs_columns fs) (fs_columns fs')"
proof (induction cfs q fs rule: DropColumnFamilies.induct)
  case (2 cf cfs q fs)
  show ?case
  proof (cases "map_of (fs_columns fs) cf")
    case (Some bs)
    obtain s1 f1 where l: "LogAndApply (drop_edit cf bs q) fs = Some (s1, f1)" using 2(2) Some by (auto split: option.splits)
    have m: "same_confs (fs_columns fs) (fs_columns f1)" by (rule LogAndApply_confs [OF l])
    show ?thesis
    proof (cases "s1 = OK")
      case True
      then show ?thesis using 2(1) [OF Some l] 2(2) Some l same_confs_trans [OF m] by simp
    qed (use 2(2) Some l m in simp)
  qed (use 2(2) in simp)
qed simp

text \<open>Purging forgets storages, but only destroyed ones.\<close>

lemma collect_obsolete_confs:
  "collect_obsolete dropped oldest cols = Some (names, cols') \<Longrightarrow> distinct (map fst cols) \<Longrightarrow>
   distinct (map fst cols') \<and> fst ` set cols' \<subseteq> fst ` set cols \<and>
   (\<forall>cf. conf_at cols' cf = conf_at cols cf \<or> conf_at cols' cf = None \<and> (\<exists>opts mode. conf_at cols cf = Some (opts, mode, True)))"
proof (induction dropped oldest cols arbitrary: names cols' rule: collect_obsolete.induct)
  case (2 dropped oldest cf bs cols)
  show ?case
  proof (cases "cf \<in> set dropped")
    case True
    then obtain names1 cols1 where c: "collect_obsolete dropped oldest cols = Some (names1, cols1)" "cols' = (cf, bs) # cols1"
      using 2(3) by auto
    from 2(1) [OF True c(1)] 2(4) show ?thesis by (auto simp: c(2) conf_at_def)
  next
    case False
    then obtain names0 bs0 names1 cols1 where c: "GetObsoleteFiles oldest bs = Some (names0, bs0)" "collect_obsolete dropped oldest cols = Some (names1, cols1)"
      "cols' = (if MaybeRemove bs0 then cols1 else (cf, bs0) # cols1)" using 2(3) by (auto split: option.splits prod.splits)
    have k: "bs_conf bs0 = bs_conf bs" by (rule GetObsoleteFiles_conf [OF c(1)])
    have ih: "distinct (map fst cols1)" "fst ` set cols1 \<subseteq> fst ` set cols"
      "\<And>k. conf_at cols1 k = conf_at cols k \<or> conf_at cols1 k = None \<and> (\<exists>opts mode. conf_at cols k = Some (opts, mode, True))"
      using 2(2) [OF False c(2)] 2(4) by auto
    have nin: "map_of cols1 cf = None" using ih(2) 2(4) by (auto simp: map_of_eq_None_iff)
    have "conf_at cols' j = conf_at ((cf, bs) # cols) j \<or>
        conf_at cols' j = None \<and> (\<exists>opts mode. conf_at ((cf, bs) # cols) j = Some (opts, mode, True))" for j
      using ih(3) [of j] k nin by (cases "j = cf") (auto simp: c(3) conf_at_def MaybeRemove_def bs_conf_def)
    then show ?thesis using ih(1,2) 2(4) by (auto simp: c(3))
  qed
qed simp

section \<open>Handlers\<close>

lemma db_set_storage_confs:
  "db_storage db cf = Some bs \<Longrightarrow> bs_conf bs' = bs_conf bs \<Longrightarrow>
   same_confs (fs_columns (tb_fileset db)) (fs_columns (tb_fileset (db_set_storage cf bs' db)))"
  by (simp add: db_storage_def GetBlobStorage_def db_set_storage_def same_confs_modify)

lemma db_set_storage_same [simp]:
  "tb_use_bitmap (db_set_storage cf bs db) = tb_use_bitmap db" "tb_initialized (db_set_storage cf bs db) = tb_initialized db"
  by (simp_all add: db_set_storage_def)

definition db_keeps :: "TitanDB \<Rightarrow> TitanDB \<Rightarrow> bool" where
  "db_keeps db db' \<longleftrightarrow> same_confs (fs_columns (tb_fileset db)) (fs_columns (tb_fileset db')) \<and>
     tb_use_bitmap db' = tb_use_bitmap db \<and> tb_initialized db' = tb_initialized db"

lemma db_keeps_refl: "db_keeps db db"
  by (simp add: db_keeps_def)

lemma db_keeps_trans: "db_keeps a b \<Longrightarrow> db_keeps b c \<Longrightarrow> db_keeps a c"
  by (auto simp: db_keeps_def intro: same_confs_trans)

lemma db_keeps_storage:
  "db_storage db cf = Some bs \<Longrightarrow> bs_conf bs' = bs_conf bs \<Longrightarrow> db_keeps db (db_set_storage cf bs' db)"
  by (simp add: db_keeps_def db_set_storage_confs)

lemma OnFlushCompleted_keeps: "OnFlushCompleted props cf db = Some db' \<Longrightarrow> db_keeps db db'"
  by (auto simp: OnFlushCompleted_def Let_def intro!: db_keeps_storage flush_conf.loop_conf split: if_splits prod.splits option.splits)

lemma compaction_bitmaps_keeps: "compaction_bitmaps job db = Some (found, db') \<Longrightarrow> db_keeps db db'"
  by (auto simp: compaction_bitmaps_def db_keeps_def intro!: db_set_storage_confs validate_conf.loop_conf split: option.splits)

lemma InitializeGC_cfs_keeps: "InitializeGC_cfs cfs db = Some (s, db') \<Longrightarrow> db_keeps db db'"
proof (induction cfs arbitrary: db)
  case (Cons cf cfs)
  show ?case
  proof (cases "\<exists>tables diff. cg_flush cf = OK \<and> cg_tables cf = Inr tables \<and> init_diff tables [] = (OK, diff)")
    case True
    then obtain tables diff where t: "cg_flush cf = OK" "cg_tables cf = Inr tables" "init_diff tables [] = (OK, diff)" by blast
    obtain bs b1 b2 where b: "db_storage db (cg_id cf) = Some bs" "opt_fold init_file diff bs = Some b1" "InitializeAllFiles b1 = Some b2"
      "InitializeGC_cfs cfs (db_set_storage (cg_id cf) b2 db) = Some (s, db')" using Cons.prems t by (auto split: option.splits)
    have "bs_conf b2 = bs_conf bs" using InitializeAllFiles_conf [OF b(3)] init_conf.loop_conf [OF b(2)] by simp
    from db_keeps_trans [OF db_keeps_storage [OF b(1) this] Cons.IH [OF b(4)]] show ?thesis .
  next
    case False
    then show ?thesis using Cons.prems db_keeps_refl [of db] by (auto split: if_splits sum.splits prod.splits)
  qed
qed (simp add: db_keeps_refl)

lemma InitializeGC_keeps: "InitializeGC cfs db = Some (s, db') \<Longrightarrow> db_keeps db db'"
  by (auto simp: InitializeGC_def db_keeps_def split: if_splits option.splits dest!: InitializeGC_cfs_keeps)

lemma compaction_account_keeps:
  assumes "compaction_account job diff db = Some db'"
  shows "db_keeps db db'"
proof (cases "db_storage db (cj_cf_id job)")
  case None
  then show ?thesis using assms by (simp add: compaction_account_def db_keeps_def)
next
  case (Some bs)
  let ?opts = "cf_options bs" and ?runs = "co_level_merge (cf_options bs) \<and> co_range_merge (cf_options bs) \<and>
      int (co_num_levels (cf_options bs)) - 1 = cj_output_level job"
  obtain cs where cs: "opt_fold (compaction_file ?opts ?runs (tb_sequence db)) diff \<lparr>cs_storage = bs, cs_edit = VersionEdit_new, cs_candidates = []\<rparr> = Some cs"
    using assms Some by (auto simp: compaction_account_def Let_def split: option.splits)
  have k: "bs_conf (cs_storage cs) = bs_conf bs" using compaction_conf.loop_conf [OF cs] by simp
  let ?db1 = "db_set_storage (cj_cf_id job) (cs_storage cs) db"
  have k1: "db_keeps db ?db1" by (rule db_keeps_storage [OF Some k])
  show ?thesis
  proof (cases "co_level_merge ?opts")
    case False
    have "db_keeps db (db_set_storage (cj_cf_id job) (ComputeGCScore (cs_storage cs)) ?db1)"
      by (rule db_keeps_trans [OF k1 db_keeps_storage [where bs = "cs_storage cs"]])
        (use Some in \<open>simp_all add: db_storage_def db_set_storage_def GetBlobStorage_def map_of_al_modify\<close>)
    then show ?thesis using assms Some cs False by (auto simp: compaction_account_def Let_def db_keeps_def)
  next
    case True
    obtain s2 fs2 where l: "LogAndApply (cs_edit cs) (tb_fileset ?db1) = Some (s2, fs2)"
      using assms Some cs True by (auto simp: compaction_account_def Let_def split: option.splits)
    let ?db2 = "?db1\<lparr>tb_fileset := fs2\<rparr>"
    have k2: "db_keeps ?db1 ?db2" using LogAndApply_confs [OF l] by (simp add: db_keeps_def)
    obtain b3 b4 where b: "db_storage ?db2 (cj_cf_id job) = Some b3"
      "MarkFileIfNeedMerge (cs_candidates cs) (co_max_sorted_runs ?opts) b3 = Some b4" "db' = db_set_storage (cj_cf_id job) b4 ?db2"
      using assms Some cs True l by (auto simp: compaction_account_def Let_def split: option.splits)
    have "db_keeps ?db2 db'" unfolding b(3) by (rule db_keeps_storage [OF b(1) MarkFileIfNeedMerge_conf [OF b(2)]])
    with db_keeps_trans [OF k1 db_keeps_trans [OF k2]] show ?thesis by blast
  qed
qed

lemma OnCompactionCompleted_keeps: "OnCompactionCompleted job db = Some db' \<Longrightarrow> db_keeps db db'"
  by (auto simp: OnCompactionCompleted_def intro: db_keeps_refl compaction_bitmaps_keeps compaction_account_keeps
      db_keeps_trans [OF compaction_bitmaps_keeps compaction_account_keeps] split: if_splits option.splits)

lemma range_account_keeps:
  assumes "range_account cf diff db = Some (s, db')"
  shows "db_keeps db db'"
proof (cases "db_storage db cf")
  case None
  then show ?thesis using assms by (simp add: range_account_def db_keeps_refl)
next
  case (Some bs)
  obtain b e where b: "opt_fold (range_file (cf_options bs) (tb_sequence db)) diff (bs, VersionEdit_new) = Some (b, e)"
    using assms Some by (auto simp: range_account_def Let_def split: option.splits)
  have k: "bs_conf b = bs_conf bs" using range_conf.loop_conf [OF b] by simp
  let ?db1 = "db_set_storage cf b db"
  show ?thesis
  proof (cases "co_level_merge (cf_options bs)")
    case True
    then obtain s2 fs2 where l: "LogAndApply e (tb_fileset ?db1) = Some (s2, fs2)" "db' = ?db1\<lparr>tb_fileset := fs2\<rparr>"
      using assms Some b by (auto simp: range_account_def Let_def)
    have "db_keeps ?db1 db'" using LogAndApply_confs [OF l(1)] by (simp add: l(2) db_keeps_def)
    with db_keeps_storage [OF Some k] show ?thesis by (rule db_keeps_trans)
  next
    case False
    have "db_keeps db (db_set_storage cf (ComputeGCScore b) db)" by (rule db_keeps_storage [OF Some]) (simp add: k)
    then show ?thesis using assms Some b False by (auto simp: range_account_def Let_def db_keeps_def db_set_storage_twice)
  qed
qed

lemma DeleteFilesInRanges_keeps:
  "DeleteFilesInRanges read meanwhile applied cf ranges include_end v db = Some (s, v', db') \<Longrightarrow> db_keeps db db'"
  by (auto simp: DeleteFilesInRanges_def Let_def intro: db_keeps_refl range_account_keeps split: sum.splits option.splits prod.splits if_splits)

lemma DeleteBlobFilesInRanges_keeps:
  "TitanDBImpl_DeleteBlobFilesInRanges cf ranges include_end db = Some (s, db') \<Longrightarrow> db_keeps db db'"
  by (auto simp: TitanDBImpl_DeleteBlobFilesInRanges_def DeleteBlobFilesInRanges_def db_keeps_def dest: LogAndApply_confs split: option.splits)

end
