(* ===== verification/Titan_Lifecycle.thy ===== *)
theory Titan_Lifecycle
  imports Titan_Confs
begin

text \<open>
  The column families of an open database through its life: the base database, \<open>cf_info_\<close>, the table factories and
  the blob file set agree on them after every sequence of creations, drops, destructions, changes of options,
  flushes, compactions, edits of the manifest and purges.
\<close>

section \<open>Consistency\<close>

text \<open>A known column family: its factory is the one the base database uses, and the three run modes are one.\<close>

definition info_ok ::
    "BaseDB \<Rightarrow> TitanTableFactory list \<Rightarrow> (u32 \<times> BlobStorage) list \<Rightarrow> u32 \<Rightarrow> TitanColumnFamilyInfo \<Rightarrow> bool" where
  "info_ok b facts cols cf info \<longleftrightarrow>
     (\<exists>c. map_of (bd_cfs b) cf = Some c \<and> cn_table_factory (bc_options c) = TitanFactoryAt (ci_titan_table_factory info)) \<and>
     ci_titan_table_factory info < length facts \<and>
     fy_blob_run_mode (facts ! ci_titan_table_factory info) = ci_blob_run_mode info \<and>
     (\<exists>opts. conf_at cols cf = Some (opts, ci_blob_run_mode info, False))"

definition cf_wf ::
    "BaseDB \<Rightarrow> (u32 \<times> TitanColumnFamilyInfo) list \<Rightarrow> TitanTableFactory list \<Rightarrow> (u32 \<times> BlobStorage) list \<Rightarrow> bool" where
  "cf_wf b infos facts cols \<longleftrightarrow>
     distinct (map fst (bd_cfs b)) \<and> distinct (map fst infos) \<and> distinct (map fst cols) \<and>
     (\<forall>cf \<in> fst ` set (bd_cfs b). cf \<le> bd_max_cf b) \<and> fst ` set cols \<subseteq> fst ` set (bd_cfs b) \<and>
     (\<forall>cf info. map_of infos cf = Some info \<longrightarrow> info_ok b facts cols cf info) \<and>
     (\<forall>cf cf' i i'. map_of infos cf = Some i \<longrightarrow> map_of infos cf' = Some i' \<longrightarrow>
        ci_titan_table_factory i = ci_titan_table_factory i' \<longrightarrow> cf = cf') \<and>
     (\<forall>cf opts mode. conf_at cols cf = Some (opts, mode, False) \<longrightarrow> map_of infos cf \<noteq> None)"

definition db_ok :: "TitanDBImpl \<Rightarrow> bool" where
  "db_ok t \<longleftrightarrow> tb_initialized (ti_core t) \<and> tb_use_bitmap (ti_core t) = use_bitmap_of (ti_cf_info t) \<and>
     (\<exists>b. ti_base t = Some b \<and> cf_wf b (ti_cf_info t) (ti_factories t) (fs_columns (ti_fileset t)))"

lemma cf_wfI:
  assumes "distinct (map fst (bd_cfs b))" "distinct (map fst infos)" "distinct (map fst cols)"
    and "\<And>cf. cf \<in> fst ` set (bd_cfs b) \<Longrightarrow> cf \<le> bd_max_cf b" "fst ` set cols \<subseteq> fst ` set (bd_cfs b)"
    and "\<And>cf info. map_of infos cf = Some info \<Longrightarrow> info_ok b facts cols cf info"
    and "\<And>cf cf' i i'. map_of infos cf = Some i \<Longrightarrow> map_of infos cf' = Some i' \<Longrightarrow> ci_titan_table_factory i = ci_titan_table_factory i' \<Longrightarrow> cf = cf'"
    and "\<And>cf opts mode. conf_at cols cf = Some (opts, mode, False) \<Longrightarrow> map_of infos cf \<noteq> None"
  shows "cf_wf b infos facts cols"
  unfolding cf_wf_def by (intro conjI ballI allI impI; (fact assms | rule assms; assumption))

lemma cf_wfD:
  assumes "cf_wf b infos facts cols"
  shows "distinct (map fst (bd_cfs b))" "distinct (map fst infos)" "distinct (map fst cols)"
    and "\<And>cf. cf \<in> fst ` set (bd_cfs b) \<Longrightarrow> cf \<le> bd_max_cf b" "fst ` set cols \<subseteq> fst ` set (bd_cfs b)"
    and "\<And>cf info. map_of infos cf = Some info \<Longrightarrow> info_ok b facts cols cf info"
    and "\<And>cf cf' i i'. map_of infos cf = Some i \<Longrightarrow> map_of infos cf' = Some i' \<Longrightarrow> ci_titan_table_factory i = ci_titan_table_factory i' \<Longrightarrow> cf = cf'"
    and "\<And>cf opts mode. conf_at cols cf = Some (opts, mode, False) \<Longrightarrow> map_of infos cf \<noteq> None"
  using assms unfolding cf_wf_def by blast+

lemma info_okE:
  assumes "info_ok b facts cols cf info"
  obtains c opts where "map_of (bd_cfs b) cf = Some c" "cn_table_factory (bc_options c) = TitanFactoryAt (ci_titan_table_factory info)"
    "ci_titan_table_factory info < length facts" "fy_blob_run_mode (facts ! ci_titan_table_factory info) = ci_blob_run_mode info"
    "conf_at cols cf = Some (opts, ci_blob_run_mode info, False)"
  using assms by (auto simp: info_ok_def)

section \<open>What keeps it\<close>

definition bc_view :: "BaseCF \<Rightarrow> TableFactoryPtr \<times> nat \<times> (bytes \<Rightarrow> bytes \<Rightarrow> bool)" where
  "bc_view c = (cn_table_factory (bc_options c), bc_num_levels c, bc_less c)"

definition base_keeps :: "BaseDB \<Rightarrow> BaseDB \<Rightarrow> bool" where
  "base_keeps b b' \<longleftrightarrow> map fst (bd_cfs b') = map fst (bd_cfs b) \<and> bd_max_cf b' = bd_max_cf b \<and>
     (\<forall>cf. map_option bc_view (map_of (bd_cfs b') cf) = map_option bc_view (map_of (bd_cfs b) cf))"

lemma base_keeps_refl: "base_keeps b b"
  by (simp add: base_keeps_def)

lemma base_keeps_trans: "base_keeps a b \<Longrightarrow> base_keeps b c \<Longrightarrow> base_keeps a c"
  by (simp add: base_keeps_def)

lemma base_keeps_modify:
  "(\<And>c. bc_view (f c) = bc_view c) \<Longrightarrow> base_keeps b (b\<lparr>bd_cfs := al_modify cf f (bd_cfs b)\<rparr>)"
  by (auto simp: base_keeps_def map_of_al_modify option.map_comp comp_def)

lemma info_ok_keeps:
  assumes "info_ok b facts cols cf info" "base_keeps b b'" "conf_at cols' cf = conf_at cols cf"
  shows "info_ok b' facts cols' cf info"
proof -
  obtain c where "map_of (bd_cfs b) cf = Some c" "cn_table_factory (bc_options c) = TitanFactoryAt (ci_titan_table_factory info)"
    using assms(1) by (auto simp: info_ok_def)
  moreover have "map_option bc_view (map_of (bd_cfs b') cf) = map_option bc_view (map_of (bd_cfs b) cf)" using assms(2) by (simp add: base_keeps_def)
  ultimately show ?thesis using assms(1,3) by (auto simp: info_ok_def bc_view_def)
qed

lemma cf_wf_keeps:
  assumes wf: "cf_wf b infos facts cols" and b: "base_keeps b b'" and c: "same_confs cols cols'"
  shows "cf_wf b' infos facts cols'"
proof -
  have b1: "map fst (bd_cfs b') = map fst (bd_cfs b)" "bd_max_cf b' = bd_max_cf b" and c1: "map fst cols' = map fst cols" "conf_at cols' = conf_at cols"
    using b c by (simp_all add: base_keeps_def same_confs_def)
  have e: "fst ` set (bd_cfs b') = fst ` set (bd_cfs b)" "fst ` set cols' = fst ` set cols"
    using b1(1) c1(1) by (metis list.set_map)+
  show ?thesis
  proof (rule cf_wfI)
    show "info_ok b' facts cols' cf info" if "map_of infos cf = Some info" for cf info
      using info_ok_keeps [OF cf_wfD(6) [OF wf that] b] by (simp add: c1)
    show "map_of infos cf \<noteq> None" if "conf_at cols' cf = Some (opts, mode, False)" for cf opts mode
      by (rule cf_wfD(8) [OF wf that [unfolded c1(2)]])
  qed (use cf_wfD(1-5,7) [OF wf] in \<open>simp_all only: b1 c1 e\<close>)
qed

lemma cf_wf_factories: "cf_wf b infos facts cols \<Longrightarrow> cf_wf b infos (facts @ fs) cols"
proof (rule cf_wfI)
  assume wf: "cf_wf b infos facts cols"
  show "info_ok b (facts @ fs) cols cf info" if "map_of infos cf = Some info" for cf info
    using cf_wfD(6) [OF wf that] by (simp add: info_ok_def nth_append)
qed (fact cf_wfD)+

text \<open>Purging.\<close>

lemma cf_wf_purge:
  assumes wf: "cf_wf b infos facts cols" and c: "collect_obsolete dropped oldest cols = Some (names, cols')"
  shows "cf_wf b infos facts cols'"
proof -
  note k = collect_obsolete_confs [OF c cf_wfD(3) [OF wf]]
  have fates: "conf_at cols' cf = conf_at cols cf \<or> conf_at cols' cf = None \<and> (\<exists>opts mode. conf_at cols cf = Some (opts, mode, True))" for cf
    using k by blast
  show ?thesis
  proof (rule cf_wfI)
    show "info_ok b facts cols' cf info" if i: "map_of infos cf = Some info" for cf info
    proof -
      obtain opts where "conf_at cols cf = Some (opts, ci_blob_run_mode info, False)" by (rule info_okE [OF cf_wfD(6) [OF wf i]])
      then have "conf_at cols' cf = conf_at cols cf" using fates [of cf] by auto
      from info_ok_keeps [OF cf_wfD(6) [OF wf i] base_keeps_refl this] show ?thesis .
    qed
    show "map_of infos cf \<noteq> None" if "conf_at cols' cf = Some (opts, mode, False)" for cf opts mode
    proof (rule cf_wfD(8) [OF wf])
      show "conf_at cols cf = Some (opts, mode, False)" using fates [of cf] that by auto
    qed
    show "fst ` set cols' \<subseteq> fst ` set (bd_cfs b)" using k cf_wfD(5) [OF wf] by blast
    show "distinct (map fst cols')" using k by blast
  qed (fact cf_wfD(1,2) [OF wf] | rule cf_wfD(4) [OF wf], assumption | rule cf_wfD(7) [OF wf], assumption+)+
qed

text \<open>Destroying a handle.\<close>

lemma cf_wf_destroy:
  assumes wf: "cf_wf b infos facts cols" and gone: "\<And>opts mode. conf_at cols' cf \<noteq> Some (opts, mode, False)"
    and same: "\<And>k. k \<noteq> cf \<Longrightarrow> conf_at cols' k = conf_at cols k" and ids: "distinct (map fst cols')" "fst ` set cols' \<subseteq> fst ` set cols"
  shows "cf_wf b (al_erase cf infos) facts cols'"
proof (rule cf_wfI)
  have er: "k \<noteq> cf \<and> map_of infos k = Some i" if "map_of (al_erase cf infos) k = Some i" for k i
    using that by (auto simp: map_of_al_erase split: if_splits)
  show "info_ok b facts cols' k info" if "map_of (al_erase cf infos) k = Some info" for k info
    using er [OF that] by (intro info_ok_keeps [OF cf_wfD(6) [OF wf] base_keeps_refl]) (simp_all add: same)
  show "map_of (al_erase cf infos) k \<noteq> None" if "conf_at cols' k = Some (opts, mode, False)" for k opts mode
  proof -
    have k: "k \<noteq> cf" using that gone by blast
    then have "conf_at cols k = Some (opts, mode, False)" using that same by simp
    then have "map_of infos k \<noteq> None" by (rule cf_wfD(8) [OF wf])
    with k show ?thesis by (simp add: map_of_al_erase)
  qed
  show "k = k'" if "map_of (al_erase cf infos) k = Some i" "map_of (al_erase cf infos) k' = Some i'"
      "ci_titan_table_factory i = ci_titan_table_factory i'" for k k' i i'
    by (rule cf_wfD(7) [OF wf]) (use er [OF that(1)] er [OF that(2)] that(3) in blast)+
  show "fst ` set cols' \<subseteq> fst ` set (bd_cfs b)" using ids(2) cf_wfD(5) [OF wf] by blast
  show "distinct (map fst (al_erase cf infos))" by (rule distinct_al_erase [OF cf_wfD(2) [OF wf]])
qed (fact ids(1) cf_wfD(1) [OF wf] | rule cf_wfD(4) [OF wf], assumption)+

text \<open>Setting the run mode.\<close>

lemma cf_wf_set_mode:
  assumes wf: "cf_wf b infos facts cols" and i: "map_of infos cf = Some info"
  shows "cf_wf b (al_modify cf (\<lambda>i. i\<lparr>ci_blob_run_mode := mode\<rparr>) infos)
    (facts[ci_titan_table_factory info := (facts ! ci_titan_table_factory info)\<lparr>fy_blob_run_mode := mode\<rparr>])
    (al_modify cf (SetBlobRunMode mode) cols)"
    (is "cf_wf b ?infos ?facts ?cols")
proof (rule cf_wfI)
  have conf: "conf_at ?cols k = (if k = cf then map_option (\<lambda>(opts, _, d). (opts, mode, d)) (conf_at cols cf) else conf_at cols k)" for k
    by (auto simp: conf_at_def map_of_al_modify SetBlobRunMode_def bs_conf_def option.map_comp comp_def)
  have new: "\<exists>i. map_of infos k = Some i \<and> i' = (if k = cf then i\<lparr>ci_blob_run_mode := mode\<rparr> else i)" if "map_of ?infos k = Some i'" for k i'
    using that by (auto simp: map_of_al_modify split: if_splits)
  show "info_ok b ?facts ?cols k i'" if k: "map_of ?infos k = Some i'" for k i'
  proof -
    obtain j where j: "map_of infos k = Some j" "i' = (if k = cf then j\<lparr>ci_blob_run_mode := mode\<rparr> else j)" using new [OF k] by blast
    obtain c opts where c: "map_of (bd_cfs b) k = Some c" "cn_table_factory (bc_options c) = TitanFactoryAt (ci_titan_table_factory j)"
      "ci_titan_table_factory j < length facts" "fy_blob_run_mode (facts ! ci_titan_table_factory j) = ci_blob_run_mode j"
      "conf_at cols k = Some (opts, ci_blob_run_mode j, False)" by (rule info_okE [OF cf_wfD(6) [OF wf j(1)]])
    show ?thesis
    proof (cases "k = cf")
      case True
      then show ?thesis using c j i conf [of k] by (auto simp: info_ok_def)
    next
      case False
      then have "ci_titan_table_factory j \<noteq> ci_titan_table_factory info" using cf_wfD(7) [OF wf j(1) i] by blast
      then show ?thesis using c j False conf [of k] by (auto simp: info_ok_def)
    qed
  qed
  show "k = k'" if m: "map_of ?infos k = Some i1" "map_of ?infos k' = Some i2" "ci_titan_table_factory i1 = ci_titan_table_factory i2" for k k' i1 i2
  proof -
    obtain j1 j2 where "map_of infos k = Some j1" "map_of infos k' = Some j2" "ci_titan_table_factory j1 = ci_titan_table_factory j2"
      using new [OF m(1)] new [OF m(2)] m(3) by (auto split: if_splits)
    then show ?thesis by (rule cf_wfD(7) [OF wf])
  qed
  show "map_of ?infos k \<noteq> None" if "conf_at ?cols k = Some (opts, m, False)" for k opts m
  proof -
    have "\<exists>opts m. conf_at cols k = Some (opts, m, False)" using that conf [of k] by (auto split: if_splits)
    then have "map_of infos k \<noteq> None" using cf_wfD(8) [OF wf] by blast
    then show ?thesis by (auto simp: map_of_al_modify)
  qed
qed (use cf_wfD(1-5) [OF wf] in simp_all)

section \<open>New column families\<close>

lemma foldl_emplace:
  assumes "distinct (map fst xs @ ks)" "length ks = length vs"
  shows "foldl (\<lambda>xs (k, v). emplace k (g k v) xs) xs (zip ks vs) = xs @ zip ks (map2 g ks vs)"
  using assms(2,1)
proof (induction ks vs arbitrary: xs rule: list_induct2)
  case (Cons k ks v vs)
  have "emplace k (g k v) xs = xs @ [(k, g k v)]" using Cons.prems by (auto simp: emplace_def)
  then show ?case using Cons.IH [of "xs @ [(k, g k v)]"] Cons.prems by auto
qed simp

lemma AddColumnFamilies_new:
  assumes "distinct (map fst (fs_columns fs) @ ids)" "length ids = length descs"
  shows "fs_columns (AddColumnFamilies st (storage_options ids descs) fs) = fs_columns fs @
    zip ids (map2 (\<lambda>cf opts. BlobStorage_new opts cf (if st then Some (\<lambda>_. 0) else None)) ids (map (\<lambda>d. TitanCFOptions.truncate (ds_options d)) descs))"
  (is "_ = _ @ zip ids (map2 ?g ids ?vs)")
proof -
  have "fs_columns (AddColumnFamilies st (storage_options ids descs) fs) = foldl (\<lambda>xs (k, v). emplace k (?g k v) xs) (fs_columns fs) (zip ids ?vs)"
    unfolding AddColumnFamilies_def storage_options_def by simp
  also have "\<dots> = fs_columns fs @ zip ids (map2 ?g ids ?vs)" by (rule foldl_emplace [OF assms(1)]) (simp add: assms(2))
  finally show ?thesis .
qed

lemma emplace_cf_infos_new:
  assumes "distinct (map fst infos @ ids)" "length ids = length descs"
  shows "emplace_cf_infos addr ids descs infos = infos @ zip ids (map (\<lambda>(i, d). cf_info_of (addr + i) d) (List.enumerate 0 descs))"
proof -
  have "map2 (\<lambda>k v. v) ks vs = vs" if "length ks = length vs" for ks :: "u32 list" and vs :: "TitanColumnFamilyInfo list"
    using that by (induction ks vs rule: list_induct2) auto
  moreover let ?vs = "map (\<lambda>(i, d). cf_info_of (addr + i) d) (List.enumerate 0 descs)"
  have "emplace_cf_infos addr ids descs infos = infos @ zip ids (map2 (\<lambda>k v. v) ids ?vs)"
    unfolding emplace_cf_infos_def by (rule foldl_emplace [OF assms(1)]) (simp add: assms(2))
  ultimately show ?thesis using assms(2) by simp
qed

lemma map_of_append_zip:
  assumes "distinct (map fst xs @ ks)" "length ks = length vs"
  shows "map_of (xs @ zip ks vs) k = Some v \<longleftrightarrow> map_of xs k = Some v \<or> (\<exists>i < length ks. k = ks ! i \<and> v = vs ! i)"
proof -
  have z: "map_of (zip ks vs) k = Some v \<longleftrightarrow> (\<exists>i < length ks. k = ks ! i \<and> v = vs ! i)"
    using assms by (auto simp: map_of_zip_nth set_zip dest!: map_of_SomeD)
  show ?thesis
  proof (cases "map_of (zip ks vs) k")
    case None
    then show ?thesis using z by (auto simp: map_add_def split: option.splits)
  next
    case (Some w)
    then have "k \<in> set ks" by (metis in_set_zipE map_of_SomeD)
    then have "map_of xs k = None" using assms(1) by (auto simp: map_of_eq_None_iff)
    then show ?thesis using Some z by (auto simp: map_add_def)
  qed
qed

lemma conf_at_Some: "conf_at cols cf = Some x \<longleftrightarrow> (\<exists>bs. map_of cols cf = Some bs \<and> x = bs_conf bs)"
  by (auto simp: conf_at_def)

text \<open>Column families of the base database that Titan does not know.\<close>

lemma cf_wf_more_base:
  assumes wf: "cf_wf b infos facts cols" and ids: "distinct ids"
    and fresh: "\<And>cf. cf \<in> set ids \<Longrightarrow> cf \<notin> fst ` set (bd_cfs b) \<and> cf \<le> mx" and mx: "bd_max_cf b \<le> mx" and len: "length cs = length ids"
  shows "cf_wf \<lparr>bd_cfs = bd_cfs b @ zip ids cs, bd_max_cf = mx\<rparr> infos facts cols" (is "cf_wf ?b _ _ _")
proof (rule cf_wfI)
  show "info_ok ?b facts cols cf info" if "map_of infos cf = Some info" for cf info
  proof -
    have i: "info_ok b facts cols cf info" by (rule cf_wfD(6) [OF wf that])
    then obtain c where "map_of (bd_cfs b) cf = Some c" by (rule info_okE)
    then have "map_of (bd_cfs ?b) cf = map_of (bd_cfs b) cf" by (simp add: map_add_def)
    with i show ?thesis by (simp add: info_ok_def)
  qed
  have e: "fst ` set (bd_cfs ?b) = fst ` set (bd_cfs b) \<union> set ids"
    using len by (simp add: image_Un set_map [symmetric] del: set_map)
  show "cf \<le> bd_max_cf ?b" if "cf \<in> fst ` set (bd_cfs ?b)" for cf
    using that [unfolded e]
  proof
    assume "cf \<in> fst ` set (bd_cfs b)"
    from order_trans [OF cf_wfD(4) [OF wf this] mx] show ?thesis by simp
  qed (use fresh in simp)
  show "fst ` set cols \<subseteq> fst ` set (bd_cfs ?b)" using cf_wfD(5) [OF wf] e by blast
  have "set ids \<inter> fst ` set (bd_cfs b) = {}" using fresh by blast
  then show "distinct (map fst (bd_cfs ?b))" using cf_wfD(1) [OF wf] ids len by (simp add: Int_commute)
qed (fact cf_wfD [OF wf] | rule cf_wfD [OF wf], assumption+)+

text \<open>The base database, the factories, the storages and \<open>cf_info_\<close> get one entry each for every new column family.\<close>

lemma cf_wf_install:
  assumes wf: "cf_wf b infos facts cols" and len: "length ids = length descs" and ids: "distinct ids"
    and fresh: "\<And>cf. cf \<in> set ids \<Longrightarrow> cf \<notin> fst ` set (bd_cfs b) \<and> cf \<le> mx" and mx: "bd_max_cf b \<le> mx"
    and new: "length cs = length ids" "\<And>i. i < length ids \<Longrightarrow> cn_table_factory (bc_options (cs ! i)) = TitanFactoryAt (length facts + i)"
    and st: "length bs = length ids" "\<And>i. i < length ids \<Longrightarrow> \<exists>opts. bs_conf (bs ! i) = (opts, co_blob_run_mode (ds_options (descs ! i)), False)"
  shows "cf_wf \<lparr>bd_cfs = bd_cfs b @ zip ids cs, bd_max_cf = mx\<rparr> (emplace_cf_infos (length facts) ids descs infos)
    (facts @ map TitanTableFactory_new descs) (cols @ zip ids bs)"
    (is "cf_wf ?b ?infos ?facts ?cols")
proof -
  have ib: "fst ` set infos \<subseteq> fst ` set (bd_cfs b)"
  proof
    fix cf assume "cf \<in> fst ` set infos"
    then obtain info where "map_of infos cf = Some info" by (metis map_of_eq_None_iff not_None_eq)
    then obtain c where "map_of (bd_cfs b) cf = Some c" by (rule info_okE [OF cf_wfD(6) [OF wf]])
    then show "cf \<in> fst ` set (bd_cfs b)" by (force dest: map_of_SomeD)
  qed
  have d: "distinct (map fst (bd_cfs b) @ ids)" "distinct (map fst infos @ ids)" "distinct (map fst cols @ ids)"
  proof -
    have "set ids \<inter> fst ` set (bd_cfs b) = {}" using fresh by blast
    moreover from this have "set ids \<inter> fst ` set infos = {}" "set ids \<inter> fst ` set cols = {}" using ib cf_wfD(5) [OF wf] by blast+
    ultimately show "distinct (map fst (bd_cfs b) @ ids)" "distinct (map fst infos @ ids)" "distinct (map fst cols @ ids)"
      using cf_wfD(1-3) [OF wf] ids by (simp_all add: Int_commute)
  qed
  let ?new = "map (\<lambda>(i, d). cf_info_of (length facts + i) d) (List.enumerate 0 descs)"
  have infos: "?infos = infos @ zip ids ?new" by (rule emplace_cf_infos_new [OF d(2) len])
  have nth: "?new ! i = cf_info_of (length facts + i) (descs ! i)" if "i < length ids" for i
    using that len by (simp add: nth_enumerate_eq)
  have mi: "map_of ?infos cf = Some info \<longleftrightarrow> map_of infos cf = Some info \<or>
      (\<exists>i < length ids. cf = ids ! i \<and> info = cf_info_of (length facts + i) (descs ! i))" for cf info
    unfolding infos by (subst map_of_append_zip [OF d(2)]) (use len nth in auto)
  have mb: "map_of (bd_cfs ?b) cf = Some c \<longleftrightarrow> map_of (bd_cfs b) cf = Some c \<or> (\<exists>i < length ids. cf = ids ! i \<and> c = cs ! i)" for cf c
    using map_of_append_zip [OF d(1)] new(1) by simp
  have mc: "map_of ?cols cf = Some s \<longleftrightarrow> map_of cols cf = Some s \<or> (\<exists>i < length ids. cf = ids ! i \<and> s = bs ! i)" for cf s
    by (rule map_of_append_zip [OF d(3)]) (use st(1) in simp)
  have conf: "conf_at ?cols cf = Some x \<longleftrightarrow> conf_at cols cf = Some x \<or> (\<exists>i < length ids. cf = ids ! i \<and> x = bs_conf (bs ! i))" for cf x
    unfolding conf_at_Some mc by blast
  show ?thesis
  proof (rule cf_wfI)
    show "info_ok ?b ?facts ?cols cf info" if m: "map_of ?infos cf = Some info" for cf info
      using m [unfolded mi]
    proof
      assume "map_of infos cf = Some info"
      from cf_wfD(6) [OF wf this] show ?thesis by (auto simp: info_ok_def conf nth_append mb [simplified])
    next
      assume "\<exists>i < length ids. cf = ids ! i \<and> info = cf_info_of (length facts + i) (descs ! i)"
      then obtain i where i: "i < length ids" "cf = ids ! i" "info = cf_info_of (length facts + i) (descs ! i)" by blast
      have "map_of (bd_cfs ?b) cf = Some (cs ! i)" unfolding mb using i by (intro disjI2 exI [of _ i]) simp
      moreover obtain opts where "bs_conf (bs ! i) = (opts, co_blob_run_mode (ds_options (descs ! i)), False)" using st(2) [OF i(1)] by blast
      then have "conf_at ?cols cf = Some (opts, co_blob_run_mode (ds_options (descs ! i)), False)"
        unfolding conf using i by (intro disjI2 exI [of _ i]) simp
      ultimately show ?thesis using i new(2) len by (simp add: info_ok_def cf_info_of_def nth_append TitanTableFactory_new_def)
    qed
    have old: "ci_titan_table_factory i < length facts" if "map_of infos cf = Some i" for cf i
      by (rule info_okE [OF cf_wfD(6) [OF wf that]])
    have fac: "map_of infos k = Some j \<and> ci_titan_table_factory j < length facts \<or>
        (\<exists>n < length ids. k = ids ! n \<and> ci_titan_table_factory j = length facts + n)" if "map_of ?infos k = Some j" for k j
      using that [unfolded mi] old by (auto simp: cf_info_of_def)
    show "cf = cf'" if m: "map_of ?infos cf = Some i" "map_of ?infos cf' = Some i'" "ci_titan_table_factory i = ci_titan_table_factory i'" for cf cf' i i'
      using fac [OF m(1)] fac [OF m(2)] m(3) cf_wfD(7) [OF wf, of cf i cf' i'] by auto
    show "map_of ?infos cf \<noteq> None" if "conf_at ?cols cf = Some (opts, mode, False)" for cf opts mode
      using that [unfolded conf] mi [of cf] cf_wfD(8) [OF wf, of cf] by (metis option.distinct(1) option.exhaust)
    show "cf \<le> bd_max_cf ?b" if "cf \<in> fst ` set (bd_cfs ?b)" for cf
    proof -
      have "cf \<in> fst ` set (bd_cfs b) \<or> cf \<in> set ids" using that by (auto dest!: set_zip_leftD)
      then show ?thesis
      proof
        assume "cf \<in> fst ` set (bd_cfs b)"
        from order_trans [OF cf_wfD(4) [OF wf this] mx] show ?thesis by simp
      qed (use fresh in simp)
    qed
    show "fst ` set ?cols \<subseteq> fst ` set (bd_cfs ?b)"
      using cf_wfD(5) [OF wf] new(1) st(1) by (auto simp: image_Un set_map [symmetric] simp del: set_map)
  qed (use d new(1) st(1) len infos in simp_all)
qed

section \<open>The base database\<close>

lemma DropColumnFamilyImpl_keeps: "DropColumnFamilyImpl cf b io = (s, b', io') \<Longrightarrow> base_keeps b b'"
  by (auto simp: DropColumnFamilyImpl_def bc_view_def intro: base_keeps_refl base_keeps_modify split: if_splits list.splits)

lemma base_drop_loop_keeps: "base_drop_loop ids b io = (ok1, s, b', io') \<Longrightarrow> base_keeps b b'"
proof (induction ids arbitrary: b io ok1)
  case (Cons cf ids)
  obtain s1 b1 io1 where d: "DropColumnFamilyImpl cf b io = (s1, b1, io1)" by (cases "DropColumnFamilyImpl cf b io") auto
  obtain ok2 s2 b2 io2 where l: "base_drop_loop ids b1 io1 = (ok2, s2, b2, io2)" by (cases "base_drop_loop ids b1 io1") auto
  show ?case
  proof (cases "s1 = OK")
    case True
    then have "s2 = s \<and> b2 = b' \<and> io2 = io'" using Cons.prems d l by simp
    then have "base_keeps b1 b'" using Cons.IH l by blast
    with DropColumnFamilyImpl_keeps [OF d] show ?thesis by (rule base_keeps_trans)
  qed (use Cons.prems d DropColumnFamilyImpl_keeps [OF d] in auto)
qed (simp add: base_keeps_refl)

lemma base_DropColumnFamilies_keeps: "base_DropColumnFamilies ids b io = (s, b', io') \<Longrightarrow> base_keeps b b'"
  by (auto simp: base_DropColumnFamilies_def dest: base_drop_loop_keeps split: prod.splits)

lemma EnableAutoCompaction_keeps: "EnableAutoCompaction ids b io = (s, b', io') \<Longrightarrow> base_keeps b b'"
proof (induction ids arbitrary: b io s)
  case (Cons cf ids)
  let ?b = "\<lambda>s. if s = OK then b\<lparr>bd_cfs := al_modify cf (disable_compactions False) (bd_cfs b)\<rparr> else b"
  have k: "base_keeps b (?b s)" for s
    by (auto intro: base_keeps_refl base_keeps_modify simp: disable_compactions_def bc_view_def)
  obtain s1 io1 where n: "(case io of [] \<Rightarrow> (OK, []) | s # ss \<Rightarrow> (s, ss)) = (s1, io1)" by fastforce
  obtain s2 b2 io2 where e: "EnableAutoCompaction ids (?b s1) io1 = (s2, b2, io2)" by (cases "EnableAutoCompaction ids (?b s1) io1") auto
  have "b' = b2" using Cons.prems n e by (simp add: Let_def)
  then show ?case using base_keeps_trans [OF k Cons.IH] e Cons.prems n by (auto simp: Let_def)
qed (simp add: base_keeps_refl)

text \<open>No column family is dropped.\<close>

definition base_live :: "BaseDB \<Rightarrow> bool" where
  "base_live b \<longleftrightarrow> list_all (\<lambda>c. \<not> bc_dropped (snd c)) (bd_cfs b)"

lemma EnableAutoCompaction_live: "base_live b \<Longrightarrow> EnableAutoCompaction ids b io = (s, b', io') \<Longrightarrow> base_live b'"
proof (induction ids arbitrary: b io s)
  case (Cons cf ids)
  let ?b = "\<lambda>s. if s = OK then b\<lparr>bd_cfs := al_modify cf (disable_compactions False) (bd_cfs b)\<rparr> else b"
  have k: "base_live (?b s)" for s using Cons.prems(1) by (auto simp: base_live_def list_all_iff al_modify_def disable_compactions_def)
  obtain s1 io1 where n: "(case io of [] \<Rightarrow> (OK, []) | s # ss \<Rightarrow> (s, ss)) = (s1, io1)" by fastforce
  obtain s2 b2 io2 where e: "EnableAutoCompaction ids (?b s1) io1 = (s2, b2, io2)" by (cases "EnableAutoCompaction ids (?b s1) io1") auto
  have "b' = b2" "io' = io2" using Cons.prems(2) n e by (simp_all add: Let_def)
  then show ?case using Cons.IH [OF k] e by blast
qed simp

text \<open>A creation of column families that gives a handle for each of them.\<close>

lemma CreateColumnFamilyImpl_new:
  assumes "CreateColumnFamilyImpl d b io = (Inr cf, b', io')"
  shows "cf = bd_max_cf b + 1" "b' = \<lparr>bd_cfs = bd_cfs b @ [(cf, snd d)], bd_max_cf = cf\<rparr>"
  using assms by (cases b; auto simp: CreateColumnFamilyImpl_def base_next_id_def Let_def split: list.splits if_splits)+

lemma base_create_loop_full:
  assumes "base_create_loop ds b io = (s, ids, b', io')" "length ids = length ds" "unat (bd_max_cf b) + length ds < 2 ^ 32"
  shows "s = OK \<and> b' = \<lparr>bd_cfs = bd_cfs b @ zip ids (map snd ds), bd_max_cf = bd_max_cf b'\<rparr> \<and> distinct ids \<and>
    (\<forall>cf \<in> set ids. bd_max_cf b < cf \<and> cf \<le> bd_max_cf b') \<and> bd_max_cf b \<le> bd_max_cf b'"
  using assms
proof (induction ds arbitrary: b io ids)
  case (Cons d ds)
  obtain r b1 io1 where c: "CreateColumnFamilyImpl d b io = (r, b1, io1)" by (cases "CreateColumnFamilyImpl d b io") auto
  then obtain cf where r: "r = Inr cf" using Cons.prems(1,2) by (cases r) auto
  obtain s2 ids2 b2 io2 where l: "base_create_loop ds b1 io1 = (s2, ids2, b2, io2)" by (cases "base_create_loop ds b1 io1") auto
  have eq: "s2 = s" "ids = cf # ids2" "b2 = b'" "io2 = io'" using Cons.prems(1) c r l by auto
  note n = CreateColumnFamilyImpl_new [OF c [unfolded r]]
  have u: "unat cf = unat (bd_max_cf b) + 1" using Cons.prems(3) by (simp add: n(1) unat_word_ariths)
  then have lt: "bd_max_cf b < cf" by (simp add: word_less_nat_alt)
  have "s2 = OK \<and> b2 = \<lparr>bd_cfs = bd_cfs b1 @ zip ids2 (map snd ds), bd_max_cf = bd_max_cf b2\<rparr> \<and> distinct ids2 \<and>
    (\<forall>cf \<in> set ids2. bd_max_cf b1 < cf \<and> cf \<le> bd_max_cf b2) \<and> bd_max_cf b1 \<le> bd_max_cf b2"
    using Cons.IH [of b1 io1 ids2] l eq Cons.prems(2,3) u by (simp add: n(2))
  then show ?case using lt unfolding eq n(2) by (auto simp: eq(3) [symmetric])
qed simp

section \<open>Operations\<close>

lemma ti_simps [simp]:
  "ti_fileset (ti_set_fileset fs t) = fs" "ti_cf_info (ti_set_fileset fs t) = ti_cf_info t" "ti_factories (ti_set_fileset fs t) = ti_factories t"
  "ti_base (ti_set_fileset fs t) = ti_base t" "ti_options (ti_set_fileset fs t) = ti_options t" "ti_io (ti_set_fileset fs t) = ti_io t"
  "ti_lock (ti_set_fileset fs t) = ti_lock t"
  "ti_fileset (set_cf_info infos t) = ti_fileset t" "ti_cf_info (set_cf_info infos t) = infos" "ti_factories (set_cf_info infos t) = ti_factories t"
  "ti_base (set_cf_info infos t) = ti_base t" "ti_options (set_cf_info infos t) = ti_options t" "ti_io (set_cf_info infos t) = ti_io t"
  "ti_lock (set_cf_info infos t) = ti_lock t"
  "ti_fileset (ti_set_sched sc t) = ti_fileset t" "ti_cf_info (ti_set_sched sc t) = ti_cf_info t" "ti_factories (ti_set_sched sc t) = ti_factories t"
  "ti_base (ti_set_sched sc t) = ti_base t"
  "ti_fileset (t\<lparr>ti_base := b\<rparr>) = ti_fileset t" "ti_fileset (t\<lparr>ti_io := io\<rparr>) = ti_fileset t" "ti_fileset (t\<lparr>ti_factories := facts\<rparr>) = ti_fileset t"
  "ti_fileset (t\<lparr>ti_core := core\<rparr>) = tb_fileset core"
  by (simp_all add: ti_fileset_def ti_set_fileset_def set_cf_info_def ti_set_sched_def)

lemma core_simps [simp]:
  "tb_initialized (ti_core (ti_set_fileset fs t)) = tb_initialized (ti_core t)" "tb_use_bitmap (ti_core (ti_set_fileset fs t)) = tb_use_bitmap (ti_core t)"
  "tb_initialized (ti_core (set_cf_info infos t)) = tb_initialized (ti_core t)" "tb_use_bitmap (ti_core (set_cf_info infos t)) = use_bitmap_of infos"
  "tb_initialized (ti_core (ti_set_sched sc t)) = tb_initialized (ti_core t)" "tb_use_bitmap (ti_core (ti_set_sched sc t)) = tb_use_bitmap (ti_core t)"
  "tb_sequence (ti_core (set_cf_info infos t)) = tb_sequence (ti_core t)"
  by (simp_all add: ti_set_fileset_def set_cf_info_def ti_set_sched_def)

lemma db_okE:
  assumes "db_ok t"
  obtains b where "ti_base t = Some b" "cf_wf b (ti_cf_info t) (ti_factories t) (fs_columns (ti_fileset t))"
    "tb_initialized (ti_core t)" "tb_use_bitmap (ti_core t) = use_bitmap_of (ti_cf_info t)"
  using assms by (auto simp: db_ok_def)

lemma db_ok_fileset: "db_ok t \<Longrightarrow> same_confs (fs_columns (ti_fileset t)) (fs_columns fs) \<Longrightarrow> db_ok (ti_set_fileset fs t)"
  by (auto simp: db_ok_def intro: cf_wf_keeps [OF _ base_keeps_refl])

lemma db_ok_core: "db_ok t \<Longrightarrow> db_keeps (ti_core t) core \<Longrightarrow> db_ok (t\<lparr>ti_core := core\<rparr>)"
  by (auto simp: db_ok_def db_keeps_def ti_fileset_def intro: cf_wf_keeps [OF _ base_keeps_refl])

lemma base_descriptors_nth:
  "i < length descs \<Longrightarrow> cn_table_factory (bc_options (snd (base_descriptors addr descs ! i))) = TitanFactoryAt (addr + i)"
  by (simp add: base_descriptors_def nth_enumerate_eq base_cf_options_def Let_def)

lemma length_base_descriptors [simp]: "length (base_descriptors addr descs) = length descs"
  by (simp add: base_descriptors_def)

lemma new_storages_conf:
  assumes "i < length ids" "length ids = length descs"
  shows "\<exists>opts. bs_conf (map2 (\<lambda>cf opts. BlobStorage_new opts cf st) ids (map (\<lambda>d. TitanCFOptions.truncate (ds_options d)) descs) ! i) =
    (opts, co_blob_run_mode (ds_options (descs ! i)), False)"
  using assms by (simp add: bs_conf_def BlobStorage_new_def TitanCFOptions.truncate_def)

lemma CreateColumnFamilies_ok:
  assumes ok: "db_ok t" and b: "ti_base t = Some b" and room: "unat (bd_max_cf b) + length descs < 2 ^ 32"
    and c: "CreateColumnFamilies descs t = Some (s, hs, t')"
  shows "db_ok t'"
proof -
  have wf: "cf_wf b (ti_cf_info t) (ti_factories t) (fs_columns (ti_fileset t))" using ok b by (simp add: db_ok_def)
  have core: "tb_initialized (ti_core t)" "tb_use_bitmap (ti_core t) = use_bitmap_of (ti_cf_info t)" 
    using ok by (simp_all add: db_ok_def)
  let ?ds = "base_descriptors (length (ti_factories t)) descs"
  obtain s1 ids b1 io1 where l: "base_create_loop ?ds b (ti_io t) = (s1, ids, b1, io1)" by (cases "base_create_loop ?ds b (ti_io t)") auto
  obtain s2 io2 where p: "base_persist (ids \<noteq> []) s1 io1 = (s2, io2)" by fastforce
  have cr: "base_CreateColumnFamilies ?ds b (ti_io t) = (s2, ids, b1, io2)" by (simp add: base_CreateColumnFamilies_def l p)
  have len: "length ids = length descs" using c b cr by (auto simp: CreateColumnFamilies_def Let_def split: if_splits)
  have full: "b1 = \<lparr>bd_cfs = bd_cfs b @ zip ids (map snd ?ds), bd_max_cf = bd_max_cf b1\<rparr>" "distinct ids"
    "\<And>cf. cf \<in> set ids \<Longrightarrow> bd_max_cf b < cf \<and> cf \<le> bd_max_cf b1" "bd_max_cf b \<le> bd_max_cf b1"
    using base_create_loop_full [OF l] len room by auto
  have fresh: "cf \<notin> fst ` set (bd_cfs b) \<and> cf \<le> bd_max_cf b1" if "cf \<in> set ids" for cf
    using full(3) [OF that] cf_wfD(4) [OF wf, of cf] by (auto simp: not_le [symmetric])
  show ?thesis
  proof (cases "s2 = OK")
    case True
    let ?st = "if do_statistics (ti_options t) then Some (\<lambda>_. 0) else None"
    let ?bs = "map2 (\<lambda>cf opts. BlobStorage_new opts cf ?st) ids (map (\<lambda>d. TitanCFOptions.truncate (ds_options d)) descs)"
    have "cf_wf b1 (emplace_cf_infos (length (ti_factories t)) ids descs (ti_cf_info t)) (ti_factories t @ map TitanTableFactory_new descs)
        (fs_columns (ti_fileset t) @ zip ids ?bs)"
      by (subst full(1), rule cf_wf_install [OF wf len full(2) fresh full(4)])
        (use len base_descriptors_nth new_storages_conf [OF _ len] in auto)
    moreover have "distinct (map fst (fs_columns (ti_fileset t)) @ ids)"
      using cf_wfD(3,5) [OF wf] full(2) fresh by (auto simp: image_iff subset_iff)
    note AddColumnFamilies_new [OF this len]
    ultimately show ?thesis using c b cr len True core by (auto simp: CreateColumnFamilies_def db_ok_def)
  next
    case False
    have "cf_wf b1 (ti_cf_info t) (ti_factories t) (fs_columns (ti_fileset t))"
      by (subst full(1), rule cf_wf_more_base [OF wf full(2) fresh full(4)]) (use len in simp_all)
    then show ?thesis using c b cr len False core by (auto simp: CreateColumnFamilies_def db_ok_def cf_wf_factories)
  qed
qed

lemma DropColumnFamilies_ok:
  assumes ok: "db_ok t" and d: "TitanDBImpl_DropColumnFamilies hs t = Some (s, t')"
  shows "db_ok t'"
proof -
  obtain b where b: "ti_base t = Some b" by (rule db_okE [OF ok])
  obtain sc where sc: "Drop_proceed (Drop_enter (tb_sched (ti_core t))) = Some sc"
    using d by (auto simp: TitanDBImpl_DropColumnFamilies_def split: option.splits)
  obtain s1 b1 io1 where r: "base_DropColumnFamilies hs b (ti_io t) = (s1, b1, io1)" by (cases "base_DropColumnFamilies hs b (ti_io t)") auto
  let ?t = "(ti_set_sched (snd (Drop_leave (s1 = OK) sc)) t)\<lparr>ti_base := Some b1, ti_io := io1\<rparr>"
  have "cf_wf b1 (ti_cf_info t) (ti_factories t) (fs_columns (ti_fileset t))"
    using ok b by (auto simp: db_ok_def intro: cf_wf_keeps [OF _ base_DropColumnFamilies_keeps [OF r] same_confs_refl])
  then have t: "db_ok ?t" using ok by (simp add: db_ok_def)
  show ?thesis
  proof (cases "s1 = OK")
    case True
    then obtain fs where f: "DropColumnFamilies hs (tb_sequence (ti_core ?t)) (ti_fileset ?t) = Some (s, fs)" "t' = ti_set_fileset fs ?t"
      using d b sc r by (auto simp: TitanDBImpl_DropColumnFamilies_def)
    show ?thesis unfolding f(2) by (rule db_ok_fileset [OF t DropColumnFamilies_confs [OF f(1)]])
  next
    case False
    then show ?thesis using d b sc r t by (simp add: TitanDBImpl_DropColumnFamilies_def)
  qed
qed

text \<open>The storages after \<open>MaybeDestroyColumnFamily\<close>: the one of the column family is destroyed or gone.\<close>

lemma MaybeDestroy_confs:
  assumes "MaybeDestroyColumnFamily cf fs = (s, fs')" "distinct (map fst (fs_columns fs))"
  shows "conf_at (fs_columns fs') cf \<noteq> Some (opts, mode, False)" "k \<noteq> cf \<Longrightarrow> conf_at (fs_columns fs') k = conf_at (fs_columns fs) k"
    "distinct (map fst (fs_columns fs'))" "fst ` set (fs_columns fs') \<subseteq> fst ` set (fs_columns fs)" "s \<noteq> OK \<Longrightarrow> fs_columns fs' = fs_columns fs"
proof -
  have sub: "fst ` set (al_erase cf xs) \<subseteq> fst ` set xs" for xs :: "(u32 \<times> BlobStorage) list" by (auto simp: al_erase_def)
  note d = MaybeDestroyColumnFamily_def Let_def conf_at_def map_of_al_erase map_of_al_modify MarkDestroyed_def bs_conf_def
  show "conf_at (fs_columns fs') cf \<noteq> Some (opts, mode, False)" "s \<noteq> OK \<Longrightarrow> fs_columns fs' = fs_columns fs"
    using assms(1) by (auto simp: d split: option.splits if_splits)
  show "conf_at (fs_columns fs') k = conf_at (fs_columns fs) k" if "k \<noteq> cf"
    using assms(1) that by (auto simp: d split: option.splits if_splits)
  show "distinct (map fst (fs_columns fs'))" using assms by (auto simp: d distinct_al_erase split: option.splits if_splits)
  show "fst ` set (fs_columns fs') \<subseteq> fst ` set (fs_columns fs)"
  proof -
    have "fs_columns fs' = fs_columns fs \<or> fs_columns fs' = al_erase cf (fs_columns fs) \<or> (\<exists>f. fs_columns fs' = al_modify cf f (fs_columns fs))"
      using assms(1) by (auto simp: MaybeDestroyColumnFamily_def Let_def split: option.splits if_splits)
    then show ?thesis by (elim disjE exE) (simp_all add: sub)
  qed
qed

lemma DestroyColumnFamilyHandle_ok:
  assumes ok: "db_ok t" and d: "DestroyColumnFamilyHandle h t = Some (s, t')"
  shows "db_ok t'"
proof (cases "\<exists>h'. h = Some h' \<and> base_DestroyColumnFamilyHandle h' = OK")
  case True
  then obtain h' where h: "h = Some h'" "base_DestroyColumnFamilyHandle h' = OK" by blast
  obtain s1 fs where m: "MaybeDestroyColumnFamily (ch_id h') (ti_fileset t) = (s1, fs)" by fastforce
  obtain b where b: "ti_base t = Some b" "cf_wf b (ti_cf_info t) (ti_factories t) (fs_columns (ti_fileset t))" by (rule db_okE [OF ok])
  note c = MaybeDestroy_confs [OF m cf_wfD(3) [OF b(2)]]
  show ?thesis
  proof (cases "s1 = OK")
    case True
    have "cf_wf b (al_erase (ch_id h') (ti_cf_info t)) (ti_factories t) (fs_columns fs)"
      by (rule cf_wf_destroy [OF b(2) c(1) c(2) c(3) c(4)])
    then show ?thesis using d h m True ok b(1) by (auto simp: DestroyColumnFamilyHandle_def Let_def db_ok_def split: if_splits)
  next
    case False
    have "db_ok (ti_set_fileset fs t)" by (rule db_ok_fileset [OF ok]) (simp add: c(5) [OF False])
    then show ?thesis using d h m False by (simp add: DestroyColumnFamilyHandle_def)
  qed
next
  case False
  then show ?thesis using d ok by (auto simp: DestroyColumnFamilyHandle_def Let_def split: option.splits if_splits)
qed

lemma set_run_mode_ok:
  assumes ok: "db_ok t" and m: "set_run_mode cf mode t = Some t'"
  shows "db_ok t'"
proof -
  obtain b where b: "ti_base t = Some b" "cf_wf b (ti_cf_info t) (ti_factories t) (fs_columns (ti_fileset t))" by (rule db_okE [OF ok])
  obtain info where i: "map_of (ti_cf_info t) cf = Some info" using m by (auto simp: set_run_mode_def split: option.splits)
  from cf_wf_set_mode [OF b(2) i, of mode] show ?thesis
    using m i b(1) ok by (auto simp: set_run_mode_def Let_def factory_SetBlobRunMode_def db_ok_def set_cf_info_def ti_set_fileset_def ti_fileset_def)
qed

lemma ti_next_ok: "db_ok t \<Longrightarrow> db_ok (snd (ti_next t))"
  by (auto simp: ti_next_def db_ok_def split: list.splits)

lemma SetOptions_ok:
  assumes "db_ok t" "SetOptions cf opts t = Some (s, t')"
  shows "db_ok t'"
proof -
  obtain s1 t1 where n: "(if al_erase ''blob_run_mode'' opts = [] then (OK, t) else ti_next t) = (s1, t1)" by fastforce
  have t1: "db_ok t1" using ti_next_ok [OF assms(1)] assms(1) n by (auto split: if_splits)
  show ?thesis
    using assms n t1 set_run_mode_ok [OF t1] by (auto simp: SetOptions_def Let_def split: option.splits if_splits)
qed

lemma purge_ok:
  assumes "db_ok t" "FileSet_GetObsoleteFiles oldest (ti_fileset t) = Some (names, fs)"
  shows "db_ok (ti_set_fileset fs t)"
proof -
  obtain nums cols where c: "collect_obsolete (fs_obsolete_columns (ti_fileset t)) oldest (fs_columns (ti_fileset t)) = Some (nums, cols)" "fs_columns fs = cols"
    using assms(2) by (auto simp: FileSet_GetObsoleteFiles_def split: option.splits)
  then show ?thesis using assms(1) by (auto simp: db_ok_def intro: cf_wf_purge)
qed

section \<open>Opening\<close>

lemma open_dirs_same:
  "open_dirs t = (s, t') \<Longrightarrow> ti_factories t' = ti_factories t \<and> ti_cf_info t' = ti_cf_info t \<and> ti_core t' = ti_core t"
  by (auto simp: open_dirs_def open_log_def ti_next_def Let_def split: if_splits list.splits)

lemma open_setup_same:
  assumes "open_setup descs t = Some t'"
  shows "ti_factories t' = ti_factories t @ map TitanTableFactory_new descs \<and> ti_cf_info t' = ti_cf_info t \<and>
    ti_fileset t' = BlobFileSet_new (ti_fileset t) \<and> ti_io t' = ti_io t \<and> ti_lock t' = ti_lock t"
  using assms by (auto simp: open_setup_def Let_def ti_fileset_def ti_set_fileset_def split: list.splits if_splits)

lemma StartBackgroundTasks_same [simp]:
  "ti_core (StartBackgroundTasks t) = ti_core t" "ti_cf_info (StartBackgroundTasks t) = ti_cf_info t"
  "ti_factories (StartBackgroundTasks t) = ti_factories t" "ti_base (StartBackgroundTasks t) = ti_base t"
  "ti_fileset (StartBackgroundTasks t) = ti_fileset t" "ti_lock (StartBackgroundTasks t) = ti_lock t"
  by (simp_all add: StartBackgroundTasks_def Let_def ti_fileset_def)

text \<open>What the base database promises of the handles it opens.\<close>

definition base_opens :: "open_base \<Rightarrow> bool" where
  "base_opens ob \<longleftrightarrow> (\<forall>ds. ob ds \<noteq> Inl OK \<and> (\<forall>ids mx. ob ds = Inr (ids, mx) \<longrightarrow> distinct ids \<and> (\<forall>cf \<in> set ids. cf \<le> mx)))"

lemma open_titan_ok:
  assumes o1: "open_titan tables descs ids t = Some (OK, t')" and b: "ti_base t = Some b" and bm: "tb_use_bitmap (ti_core t) = use_bitmap_of (ti_cf_info t)"
    and wf: "cf_wf b (ti_cf_info t) (ti_factories t) (fs_columns (AddColumnFamilies (do_statistics (ti_options t)) (storage_options ids descs) (ti_fileset t)))"
  obtains b' where "db_ok t'" "ti_base t' = Some b'" "base_keeps b b'" "ti_cf_info t' = ti_cf_info t" "ti_factories t' = ti_factories t" "ti_lock t' = ti_lock t"
    "base_live b \<Longrightarrow> base_live b'"
proof -
  obtain fs where f: "Titan_FileSet.Open (do_statistics (ti_options t)) (storage_options ids descs) (ti_fileset t) = Some (OK, fs)"
    using o1 by (auto simp: open_titan_def Let_def split: option.splits if_splits)
  let ?t1 = "ti_set_fileset fs t" and ?starts = "map (\<lambda>cf. \<lparr>cg_id = cf, cg_flush = fst (tables cf), cg_tables = snd (tables cf)\<rparr>) ids"
  obtain s2 core where g: "InitializeGC ?starts (ti_core ?t1) = Some (s2, core)"
    using o1 f by (auto simp: open_titan_def Let_def split: option.splits)
  let ?on = "map fst (filter (\<lambda>(cf, d). \<not> cn_disable_auto_compactions (ds_base d)) (zip ids descs))"
  obtain s3 b3 io3 where e: "EnableAutoCompaction ?on b (ti_io t) = (s3, b3, io3)" by (cases "EnableAutoCompaction ?on b (ti_io t)") auto
  have k: "same_confs (fs_columns (AddColumnFamilies (do_statistics (ti_options t)) (storage_options ids descs) (ti_fileset t))) (fs_columns (tb_fileset core))"
    using same_confs_trans [OF Open_confs [OF f]] InitializeGC_keeps [OF g] by (simp add: db_keeps_def ti_set_fileset_def)
  have wf': "cf_wf b3 (ti_cf_info t) (ti_factories t) (fs_columns (tb_fileset core))"
    by (rule cf_wf_keeps [OF wf EnableAutoCompaction_keeps [OF e] k])
  have t': "t' = StartBackgroundTasks (?t1\<lparr>ti_core := core\<lparr>tb_initialized := True\<rparr>, ti_base := Some b3, ti_io := io3\<rparr>)"
    using o1 f g e b by (simp add: open_titan_def Let_def split: if_splits)
  have "tb_use_bitmap core = use_bitmap_of (ti_cf_info t)" using InitializeGC_keeps [OF g] bm by (simp add: db_keeps_def)
  then show thesis using that [of b3] wf' EnableAutoCompaction_keeps [OF e] EnableAutoCompaction_live [OF _ e] by (simp add: t' db_ok_def)
qed

lemma open_dirs_lock: "open_dirs t = (OK, t') \<Longrightarrow> ti_lock t'"
  by (auto simp: open_dirs_def Let_def split: if_splits prod.splits)

text \<open>The base database as it was opened: every column family with the options of its descriptor.\<close>

definition opened_base :: "u32 list \<Rightarrow> TitanCFDescriptor list \<Rightarrow> u32 \<Rightarrow> BaseDB" where
  "opened_base ids descs mx =
     \<lparr>bd_cfs = zip ids (map (\<lambda>d. disable_compactions True (snd d)) (base_descriptors 0 descs)), bd_max_cf = mx\<rparr>"

lemma Open_facts:
  assumes op: "TitanDBImpl_Open ob tables descs (TitanDBImpl_new options dbname disk q io) = Some (OK, ids, t')" and ob: "base_opens ob"
  obtains mx b' where "db_ok t'" "length ids = length descs" "distinct ids" "ti_base t' = Some b'" "base_keeps (opened_base ids descs mx) b'"
    "ti_cf_info t' = zip ids (map (\<lambda>(i, d). cf_info_of i d) (List.enumerate 0 descs))" "ti_factories t' = map TitanTableFactory_new descs" "ti_lock t'" "base_live b'"
proof -
  let ?t0 = "TitanDBImpl_new options dbname disk q io"
  have o1: "OpenImpl ob tables descs ?t0 = Some (OK, ids, t')"
    using op by (auto simp: TitanDBImpl_Open_def split: option.splits if_splits)
  obtain s1 t1 where d: "open_dirs ?t0 = (s1, t1)" by fastforce
  have t1: "s1 = OK" "ti_factories t1 = []" "ti_cf_info t1 = []" "ti_core t1 = ti_core ?t0"
    using o1 d open_dirs_same [OF d] by (auto simp: OpenImpl_def Let_def TitanDBImpl_new_def split: if_splits)
  have v: "ValidateOptions descs = OK" using o1 by (auto simp: OpenImpl_def Let_def split: if_splits)
  obtain t2 where s: "open_setup descs t1 = Some t2" using o1 d t1 v by (auto simp: OpenImpl_def Let_def split: option.splits)
  note t2 = open_setup_same [OF s]
  let ?ds = "map (\<lambda>(n, c). (n, disable_compactions True c)) (base_descriptors 0 descs)"
  have "ob ?ds \<noteq> Inl OK" using ob by (simp add: base_opens_def)
  then obtain hs mx where h: "ob ?ds = Inr (hs, mx)" using o1 d t1 v s by (auto simp: OpenImpl_def Let_def split: sum.splits)
  have len: "length hs = length descs" using o1 d t1 v s h by (auto simp: OpenImpl_def Let_def split: if_splits)
  let ?t3 = "set_cf_info (emplace_cf_infos 0 hs descs (ti_cf_info t2)) (t2\<lparr>ti_base := Some (opened_base hs descs mx)\<rparr>)"
  have o3: "open_titan tables descs hs ?t3 = Some (OK, t')" "ids = hs" 
    using o1 d t1 v s h len by (auto simp: OpenImpl_def Let_def opened_base_def comp_def case_prod_unfold)
  have hs: "distinct hs" "\<And>cf. cf \<in> set hs \<Longrightarrow> cf \<le> mx" using ob h by (auto simp: base_opens_def)
  let ?st = "if do_statistics (ti_options ?t3) then Some (\<lambda>_. 0) else None"
  let ?bs = "map2 (\<lambda>cf opts. BlobStorage_new opts cf ?st) hs (map (\<lambda>d. TitanCFOptions.truncate (ds_options d)) descs)"
  let ?cs = "map (\<lambda>d. disable_compactions True (snd d)) (base_descriptors 0 descs)"
  have e: "cf_wf \<lparr>bd_cfs = [], bd_max_cf = 0\<rparr> [] [] []" by (simp add: cf_wf_def conf_at_def)
  have "cn_table_factory (bc_options (?cs ! i)) = TitanFactoryAt i" if "i < length hs" for i
    using base_descriptors_nth [of i descs 0] that len by (simp add: disable_compactions_def)
  then have wf: "cf_wf (opened_base hs descs mx) (emplace_cf_infos 0 hs descs []) (map TitanTableFactory_new descs) (zip hs ?bs)"
    using cf_wf_install [OF e len hs(1), of mx ?cs ?bs] hs len new_storages_conf [OF _ len] by (simp add: opened_base_def)
  have cols: "fs_columns (AddColumnFamilies (do_statistics (ti_options ?t3)) (storage_options hs descs) (ti_fileset ?t3)) = zip hs ?bs"
    using AddColumnFamilies_new [of "ti_fileset ?t3" hs descs] hs(1) len t2 by (simp add: BlobFileSet_new_def)
  have infos: "emplace_cf_infos 0 hs descs [] = zip hs (map (\<lambda>(i, d). cf_info_of i d) (List.enumerate 0 descs))"
    using emplace_cf_infos_new [of "[]" hs descs 0] hs(1) len by simp
  have t3: "ti_cf_info ?t3 = emplace_cf_infos 0 hs descs []" "ti_factories ?t3 = map TitanTableFactory_new descs" "ti_base ?t3 = Some (opened_base hs descs mx)"
    "ti_lock ?t3" using t1 t2 open_dirs_lock d by simp_all
  obtain b' where r: "db_ok t'" "ti_base t' = Some b'" "base_keeps (opened_base hs descs mx) b'" "ti_cf_info t' = ti_cf_info ?t3"
    "ti_factories t' = ti_factories ?t3" "ti_lock t' = ti_lock ?t3" "base_live (opened_base hs descs mx) \<Longrightarrow> base_live b'"
    by (rule open_titan_ok [OF o3(1) t3(3)]) (use wf cols t3(1,2) in simp_all)
  have live: "base_live (opened_base hs descs mx)"
    by (auto simp: base_live_def opened_base_def list_all_iff base_descriptors_def disable_compactions_def dest!: set_zip_rightD)
  show thesis
    by (rule that [OF r(1) _ _ r(2) r(3) [folded o3(2)]]) (use r t3 infos hs(1) len o3(2) live in simp_all)
qed

section \<open>Steps\<close>

text \<open>
  What happens to an open database.  An edit of the manifest stands for finished blob files and collections.  A compaction is reported for a column family that is known: for any other \<open>cf_info_[id]\<close>
  would add an empty entry.  Ids of column families are 32 bits wide and are not used again.
\<close>

inductive db_step :: "TitanDBImpl \<Rightarrow> TitanDBImpl \<Rightarrow> bool" where
  Create: "ti_base t = Some b \<Longrightarrow> unat (bd_max_cf b) + length descs < 2 ^ 32 \<Longrightarrow> CreateColumnFamilies descs t = Some (s, hs, t') \<Longrightarrow> db_step t t'"
| Drop: "TitanDBImpl_DropColumnFamilies hs t = Some (s, t') \<Longrightarrow> db_step t t'"
| Destroy: "DestroyColumnFamilyHandle h t = Some (s, t') \<Longrightarrow> db_step t t'"
| Set: "SetOptions cf opts t = Some (s, t') \<Longrightarrow> db_step t t'"
| Flush: "Listener_OnFlushCompleted props cf t = Some t' \<Longrightarrow> db_step t t'"
| Compaction: "map_of (ti_cf_info t) (cj_cf_id job) \<noteq> None \<Longrightarrow> Listener_OnCompactionCompleted job t = Some t' \<Longrightarrow> db_step t t'"
| Files: "map_of (ti_cf_info t) (cj_cf_id job) \<noteq> None \<Longrightarrow> CompactFiles bg_error st job t = Some (s, t') \<Longrightarrow> db_step t t'"
| Tables: "DeleteFilesInRanges read meanwhile applied cf ranges include_end v (ti_core t) = Some (s, v', core) \<Longrightarrow> db_step t (t\<lparr>ti_core := core\<rparr>)"
| Blobs: "TitanDBImpl_DeleteBlobFilesInRanges cf ranges include_end (ti_core t) = Some (s, core) \<Longrightarrow> db_step t (t\<lparr>ti_core := core\<rparr>)"
| Edit: "LogAndApply e (ti_fileset t) = Some (s, fs) \<Longrightarrow> db_step t (ti_set_fileset fs t)"
| Purge: "FileSet_GetObsoleteFiles oldest (ti_fileset t) = Some (names, fs) \<Longrightarrow> db_step t (ti_set_fileset fs t)"

inductive db_reach :: "TitanDBImpl \<Rightarrow> bool" where
  Opened: "TitanDBImpl_Open ob tables descs (TitanDBImpl_new options dbname disk q io) = Some (OK, ids, t) \<Longrightarrow> base_opens ob \<Longrightarrow> db_reach t"
| Step: "db_reach t \<Longrightarrow> db_step t t' \<Longrightarrow> db_reach t'"

inductive_cases db_stepE: "db_step t t'"

lemma db_step_ok:
  assumes "db_step t t'" "db_ok t"
  shows "db_ok t'"
  using assms
proof (induction rule: db_step.induct)
  case (Flush props cf t t')
  then show ?case by (auto simp: Listener_OnFlushCompleted_def intro: db_ok_core OnFlushCompleted_keeps split: if_splits)
next
  case (Compaction t job t')
  then show ?case by (auto simp: Listener_OnCompactionCompleted_def intro: db_ok_core OnCompactionCompleted_keeps split: if_splits)
next
  case (Files t job bg_error st s t')
  then show ?case by (auto simp: CompactFiles_def intro: db_ok_core OnCompactionCompleted_keeps split: if_splits)
next
  case (Edit e t s fs)
  then show ?case by (auto intro: db_ok_fileset LogAndApply_confs)
qed (auto intro: CreateColumnFamilies_ok DropColumnFamilies_ok DestroyColumnFamilyHandle_ok SetOptions_ok purge_ok
    db_ok_core DeleteFilesInRanges_keeps DeleteBlobFilesInRanges_keeps)

lemma db_reach_ok: "db_reach t \<Longrightarrow> db_ok t"
proof (induction rule: db_reach.induct)
  case (Opened ob tables descs options dbname disk q io ids t)
  then show ?case by (rule Open_facts)
qed (rule db_step_ok)

end
