(* ===== verification/Titan_Database.thy ===== *)
theory Titan_Database
  imports Titan_Lifecycle
begin

text \<open>
  Properties of opening, closing and configuring the database and its column families, on the model of
  \<open>Titan_Open\<close> and the invariant of \<open>Titan_Lifecycle\<close>.
\<close>

section \<open>Reading an opened database\<close>

lemma map_of_opened_base:
  assumes "i < length ids" "distinct ids" "length ids = length descs"
  shows "\<exists>c. map_of (bd_cfs (opened_base ids descs mx)) (ids ! i) = Some c \<and>
    bc_view c = (TitanFactoryAt i, co_num_levels (ds_options (descs ! i)), co_less (ds_options (descs ! i)))"
  using assms base_descriptors_nth [of i descs 0]
  by (simp add: opened_base_def map_of_zip_nth bc_view_def disable_compactions_def base_descriptors_def nth_enumerate_eq)

lemma base_keeps_view:
  assumes "base_keeps b b'" "map_of (bd_cfs b) cf = Some c"
  obtains c' where "map_of (bd_cfs b') cf = Some c'" "bc_view c' = bc_view c"
  using assms by (force simp: base_keeps_def dest: spec [where x = cf])

lemma opened_cf:
  assumes "base_keeps (opened_base ids descs mx) b'" "i < length descs" "distinct ids" "length ids = length descs"
  obtains c where "map_of (bd_cfs b') (ids ! i) = Some c" "cn_table_factory (bc_options c) = TitanFactoryAt i"
    "bc_num_levels c = co_num_levels (ds_options (descs ! i))" "bc_less c = co_less (ds_options (descs ! i))"
proof -
  obtain c where c: "map_of (bd_cfs (opened_base ids descs mx)) (ids ! i) = Some c"
    "bc_view c = (TitanFactoryAt i, co_num_levels (ds_options (descs ! i)), co_less (ds_options (descs ! i)))"
    using map_of_opened_base [of i ids descs mx] assms(2-4) by auto
  obtain c' where "map_of (bd_cfs b') (ids ! i) = Some c'" "bc_view c' = bc_view c" by (rule base_keeps_view [OF assms(1) c(1)])
  with c(2) show thesis by (intro that [of c']) (simp_all add: bc_view_def)
qed

lemma map_of_opened_infos:
  assumes "i < length descs" "distinct ids" "length ids = length descs"
  shows "map_of (zip ids (map (\<lambda>(i, d). cf_info_of i d) (List.enumerate 0 descs))) (ids ! i) = Some (cf_info_of i (descs ! i))"
  using assms by (simp add: map_of_zip_nth nth_enumerate_eq)

section \<open>An open without failures\<close>

lemma EnableAutoCompaction_clean: "\<exists>b'. EnableAutoCompaction ids b [] = (OK, b', [])"
proof (induction ids arbitrary: b)
  case (Cons cf ids)
  from Cons [of "b\<lparr>bd_cfs := al_modify cf (disable_compactions False) (bd_cfs b)\<rparr>"] show ?case by auto
qed simp

lemma open_dirs_clean: "ti_io t = [] \<Longrightarrow> open_dirs t = (OK, t\<lparr>ti_options := (ti_options t)\<lparr>do_info_log := True\<rparr>, ti_directory := True, ti_lock := True\<rparr>)"
  by (cases t; cases "ti_options t") (simp add: open_dirs_def open_log_def ti_next_def Let_def)

lemma open_setup_clean:
  assumes "descs \<noteq> []" "co_gc_offload (ds_options (hd descs)) \<longrightarrow> co_use_bitmap (ds_options (hd descs))"
  obtains t' where "open_setup descs t = Some t'" "ti_fileset t' = BlobFileSet_new (ti_fileset t)" "ti_io t' = ti_io t"
    "ti_factories t' = ti_factories t @ map TitanTableFactory_new descs" "ti_cf_info t' = ti_cf_info t"
    "tb_sched (ti_core t') = tb_sched (ti_core t)" "tb_initialized (ti_core t') = tb_initialized (ti_core t)"
    "do_statistics (ti_options t') = do_statistics (ti_options t)"
  using assms by (cases descs) (auto simp: open_setup_def Let_def ti_fileset_def ti_set_fileset_def)

lemma open_clean:
  assumes desc: "ValidateOptions descs = OK" "descs \<noteq> []" "co_gc_offload (ds_options (hd descs)) \<longrightarrow> co_use_bitmap (ds_options (hd descs))"
    and ids: "length ids = length descs"
    and fs: "Titan_FileSet.Open (do_statistics options) (storage_options ids descs) (BlobFileSet_new disk) = Some (OK, fs)"
    and g: "\<And>core. \<not> tb_initialized core \<Longrightarrow> tb_fileset core = fs \<Longrightarrow> \<exists>s core'. InitializeGC
      (map (\<lambda>cf. \<lparr>cg_id = cf, cg_flush = fst (tables cf), cg_tables = snd (tables cf)\<rparr>) ids) core = Some (s, core') \<and> P core core'"
  shows "\<exists>t core core'. TitanDBImpl_Open (\<lambda>_. Inr (ids, mx)) tables descs (TitanDBImpl_new options dbname disk q []) = Some (OK, ids, t) \<and>
    P core core' \<and> ti_core t = core'\<lparr>tb_initialized := True\<rparr> \<and> tb_fileset core = fs \<and>
    tb_sched core = Scheduler_new (do_disable_background_gc options) (do_max_background_gc options)"
proof -
  let ?t0 = "TitanDBImpl_new options dbname disk q []"
  let ?t1 = "?t0\<lparr>ti_options := (ti_options ?t0)\<lparr>do_info_log := True\<rparr>, ti_directory := True, ti_lock := True\<rparr>"
  have d: "open_dirs ?t0 = (OK, ?t1)" by (rule open_dirs_clean) (simp add: TitanDBImpl_new_def Let_def)
  obtain t2 where t2: "open_setup descs ?t1 = Some t2" "ti_fileset t2 = BlobFileSet_new (ti_fileset ?t1)" "ti_io t2 = ti_io ?t1"
    "ti_factories t2 = ti_factories ?t1 @ map TitanTableFactory_new descs" "ti_cf_info t2 = ti_cf_info ?t1"
    "tb_sched (ti_core t2) = tb_sched (ti_core ?t1)" "tb_initialized (ti_core t2) = tb_initialized (ti_core ?t1)"
    "do_statistics (ti_options t2) = do_statistics (ti_options ?t1)" by (rule open_setup_clean [OF desc(2,3)])
  have new: "ti_factories ?t1 = []" "ti_cf_info ?t1 = []" "ti_io ?t1 = []" "\<not> tb_initialized (ti_core ?t1)" "ti_fileset ?t1 = disk"
    "do_statistics (ti_options ?t1) = do_statistics options"
    "tb_sched (ti_core ?t1) = Scheduler_new (do_disable_background_gc options) (do_max_background_gc options)"
    by (simp_all add: TitanDBImpl_new_def Let_def ti_fileset_def)
  let ?t3 = "set_cf_info (emplace_cf_infos 0 ids descs (ti_cf_info t2)) (t2\<lparr>ti_base := Some (opened_base ids descs mx)\<rparr>)"
  let ?core = "ti_core (ti_set_fileset fs ?t3)"
  have core: "\<not> tb_initialized ?core" "tb_fileset ?core = fs" "tb_sched ?core = tb_sched (ti_core ?t1)"
    using t2(6,7) new(4) by (simp_all add: ti_set_fileset_def set_cf_info_def)
  obtain s core' where s: "InitializeGC (map (\<lambda>cf. \<lparr>cg_id = cf, cg_flush = fst (tables cf), cg_tables = snd (tables cf)\<rparr>) ids) ?core = Some (s, core')" "P ?core core'"
    using g [OF core(1,2)] by blast
  let ?on = "map fst (filter (\<lambda>(cf, d). \<not> cn_disable_auto_compactions (ds_base d)) (zip ids descs))"
  obtain b' where e: "EnableAutoCompaction ?on (opened_base ids descs mx) [] = (OK, b', [])" using EnableAutoCompaction_clean by blast
  let ?t4 = "(ti_set_fileset fs ?t3)\<lparr>ti_core := core'\<lparr>tb_initialized := True\<rparr>, ti_base := Some b', ti_io := []\<rparr>"
  have "open_titan tables descs ids ?t3 = Some (OK, StartBackgroundTasks ?t4)"
    using fs s(1) e t2 new by (simp add: open_titan_def Let_def)
  then have "OpenImpl (\<lambda>_. Inr (ids, mx)) tables descs ?t0 = Some (OK, ids, StartBackgroundTasks ?t4)"
    using desc d t2 new ids by (simp add: OpenImpl_def Let_def opened_base_def comp_def case_prod_unfold)
  then have "TitanDBImpl_Open (\<lambda>_. Inr (ids, mx)) tables descs ?t0 = Some (OK, ids, StartBackgroundTasks ?t4)"
    by (simp add: TitanDBImpl_Open_def)
  then show ?thesis using s(2) core new(7) by (intro exI [of _ "StartBackgroundTasks ?t4"] exI [of _ ?core] exI [of _ core']) simp
qed

section \<open>An example\<close>

definition demo_builder_options :: BuilderOptions where
  "demo_builder_options =
     \<lparr>co_min_blob_size = 0, co_compression = 0, co_target_size = 256, co_max_gc_batch_size = 1000, co_min_gc_batch_size = 100,
      co_discardable_ratio = Fin (1 / 2), co_merge_small_file_threshold = 8, co_blob_run_mode = kNormal, co_level_merge = False,
      co_range_merge = False, co_max_sorted_runs = 20, co_skip_value = False, co_use_bitmap = True, co_gc_offload = True, co_num_levels = 2,
      co_less = bytes_less, co_max_dict_bytes = 0, co_zstd_max_train_bytes = 0\<rparr>"

definition demo_descriptor :: TitanCFDescriptor where
  "demo_descriptor =
     \<lparr>ds_name = ''default'', ds_options = demo_builder_options,
      ds_base = \<lparr>cn_disable_auto_compactions = False, cn_dynamic_level_bytes = False, cn_collectors = [], cn_table_factory = UserTableFactory 7,
                 cn_filter = None, cn_filter_factory = Some (UserFilterFactory 3)\<rparr>\<rparr>"

definition demo_db_options :: TitanDBOptions where
  "demo_db_options =
     \<lparr>do_dirname = [], do_disable_background_gc = False, do_max_background_gc = 1, do_purge_period = 10, do_stats_dump_period = 600,
      do_info_log = False, do_statistics = False, do_compaction_preprocess = False\<rparr>"

definition demo_new_disk :: BlobFileSet where
  "demo_new_disk =
     \<lparr>fs_columns = [], fs_obsolete_columns = [], fs_obsolete_manifests = [], fs_manifest = None, fs_next_file_number = 0, fs_manifest_file_number = 0,
      fs_disk = \<lparr>dk_current = None, dk_manifests = Map.empty, dk_children = []\<rparr>, fs_io = []\<rparr>"

definition demo_tables :: "status \<Rightarrow> cf_tables" where
  "demo_tables s = (\<lambda>_. (s, Inr []))"

definition demo_base :: open_base where
  "demo_base = (\<lambda>_. Inr ([0], 0))"

lemma demo_base_opens: "base_opens demo_base"
  by (simp add: base_opens_def demo_base_def)

definition demo_object :: TitanDBImpl where
  "demo_object = TitanDBImpl_new demo_db_options ''db'' demo_new_disk 5 []"

lemma demo_descriptor_valid:
  "ValidateOptions [demo_descriptor] = OK" "co_gc_offload (ds_options demo_descriptor) \<longrightarrow> co_use_bitmap (ds_options demo_descriptor)"
  by (simp_all add: demo_descriptor_def demo_builder_options_def)

lemma demo_fileset_opens:
  obtains fs where "Titan_FileSet.Open False (storage_options [0] [demo_descriptor]) (BlobFileSet_new demo_new_disk) = Some (OK, fs)"
    "fs_columns fs = [(0, BlobStorage_new (TitanCFOptions.truncate demo_builder_options) 0 None)]"
proof -
  let ?a = "AddColumnFamilies False (storage_options [0] [demo_descriptor]) (BlobFileSet_new demo_new_disk)"
  have a: "fs_columns ?a = [(0, BlobStorage_new (TitanCFOptions.truncate demo_builder_options) 0 None)]" "fs_io ?a = []" "dk_current (fs_disk ?a) = None"
    by (simp_all add: AddColumnFamilies_def storage_options_def BlobFileSet_new_def demo_new_disk_def emplace_def demo_descriptor_def)
  obtain fs where "OpenManifest (fs_next_file_number ?a) (?a\<lparr>fs_next_file_number := fs_next_file_number ?a + 1\<rparr>) = Some (OK, fs)"
    "fs_columns fs = fs_columns ?a" using OpenManifest_ok [of "?a\<lparr>fs_next_file_number := fs_next_file_number ?a + 1\<rparr>"] a(2) by auto
  then show thesis using a by (intro that [of fs]) (simp_all add: Titan_FileSet.Open_def NewFileNumber_def)
qed

lemma demo_opens:
  obtains t where "TitanDBImpl_Open demo_base (demo_tables OK) [demo_descriptor] demo_object = Some (OK, [0], t)"
    "fs_columns (ti_fileset t) = [(0, ComputeGCScore (BlobStorage_new (TitanCFOptions.truncate demo_builder_options) 0 None))]"
proof -
  let ?bs = "BlobStorage_new (TitanCFOptions.truncate demo_builder_options) 0 None" and ?start = "\<lparr>cg_id = 0, cg_flush = OK, cg_tables = Inr []\<rparr>"
  obtain fs where fs: "Titan_FileSet.Open False (storage_options [0] [demo_descriptor]) (BlobFileSet_new demo_new_disk) = Some (OK, fs)"
    "fs_columns fs = [(0, ?bs)]" by (rule demo_fileset_opens)
  have bs: "ComputeGCScore (?bs\<lparr>bs_files := []\<rparr>) = ComputeGCScore ?bs" by (simp add: BlobStorage_new_def)
  have "\<exists>s core'. InitializeGC [?start] core = Some (s, core') \<and> fs_columns (tb_fileset core') = [(0, ComputeGCScore ?bs)]"
    if "\<not> tb_initialized core" "tb_fileset core = fs" for core
    using that fs(2) bs
    by (simp add: InitializeGC_def db_storage_def GetBlobStorage_def InitializeAllFiles_def db_set_storage_def al_modify_def BlobStorage_new_def)
  then obtain t core' where "TitanDBImpl_Open (\<lambda>_. Inr ([0], 0)) (demo_tables OK) [demo_descriptor] demo_object = Some (OK, [0], t)"
    "ti_core t = core'\<lparr>tb_initialized := True\<rparr>" "fs_columns (tb_fileset core') = [(0, ComputeGCScore ?bs)]"
    using open_clean [of "[demo_descriptor]" "[0]" demo_db_options demo_new_disk fs "demo_tables OK"
        "\<lambda>core core'. fs_columns (tb_fileset core') = [(0, ComputeGCScore ?bs)]" 0 "''db''" 5] demo_descriptor_valid fs(1)
    by (auto simp: demo_object_def demo_tables_def demo_db_options_def)
  then show thesis by (intro that [of t]) (simp_all add: demo_base_def ti_fileset_def)
qed

lemma demo_reached:
  obtains t b c where "db_reach t" "ti_base t = Some b" "map_of (bd_cfs b) 0 = Some c" "\<not> bc_dropped c" "map_of (ti_cf_info t) 0 = Some (cf_info_of 0 demo_descriptor)"
    "GetBlobStorage (ti_fileset t) 0 = Some (ComputeGCScore (BlobStorage_new (TitanCFOptions.truncate demo_builder_options) 0 None))"
proof -
  obtain t where t: "TitanDBImpl_Open demo_base (demo_tables OK) [demo_descriptor] demo_object = Some (OK, [0], t)"
    "fs_columns (ti_fileset t) = [(0, ComputeGCScore (BlobStorage_new (TitanCFOptions.truncate demo_builder_options) 0 None))]" by (rule demo_opens)
  have o1: "TitanDBImpl_Open demo_base (demo_tables OK) [demo_descriptor] (TitanDBImpl_new demo_db_options ''db'' demo_new_disk 5 []) = Some (OK, [0], t)"
    using t(1) by (simp add: demo_object_def)
  obtain mx b where f: "ti_base t = Some b" "base_keeps (opened_base [0] [demo_descriptor] mx) b"
    "ti_cf_info t = zip [0] (map (\<lambda>(i, d). cf_info_of i d) (List.enumerate 0 [demo_descriptor]))" "base_live b" by (rule Open_facts [OF o1 demo_base_opens])
  obtain c where c: "map_of (bd_cfs b) ([0] ! 0) = Some c" by (rule opened_cf [OF f(2), of 0]) simp_all
  then have "\<not> bc_dropped c" using f(4) by (auto simp: base_live_def list_all_iff dest!: map_of_SomeD)
  then show thesis
    by (intro that [of t b c, OF db_reach.Opened [OF o1 demo_base_opens]]) (use f(1,3) c t(2) in \<open>simp_all add: GetBlobStorage_def\<close>)
qed

section \<open>Properties\<close>



text \<open>C20: opening is all or nothing.  When the base database keeps its promise, an open that succeeds holds the lock, has a handle
  for every descriptor, and new tables of each column family are built with the options of its own descriptor; one that fails
  leaves no handle, no base database and no lock behind.\<close>

theorem open_all_or_nothing:
  assumes op: "TitanDBImpl_Open ob tables descs (TitanDBImpl_new options dbname disk q io) = Some (s, ids, t)" and ob: "base_opens ob"
  shows "if s = OK then length ids = length descs \<and> distinct ids \<and> ti_lock t \<and> tb_initialized (ti_core t) \<and>
      (\<forall>i < length descs. \<forall>level base.
         base_NewTableBuilder (ids ! i) level base t = Some (Inr (TableBuilder_new (ids ! i) (ds_options (descs ! i)) base 1 level)))
    else ids = [] \<and> ti_base t = None \<and> \<not> ti_lock t"
proof (cases "s = OK")
  case True
  obtain mx b where f: "db_ok t" "length ids = length descs" "distinct ids" "ti_base t = Some b" "base_keeps (opened_base ids descs mx) b"
    "ti_factories t = map TitanTableFactory_new descs" "ti_lock t" by (rule Open_facts [OF op [unfolded True] ob])
  have init: "tb_initialized (ti_core t)" using f(1) by (simp add: db_ok_def)
  have "base_NewTableBuilder (ids ! i) level base t = Some (Inr (TableBuilder_new (ids ! i) (ds_options (descs ! i)) base 1 level))"
    if i: "i < length descs" for i level base
  proof -
    obtain c where "map_of (bd_cfs b) (ids ! i) = Some c" "cn_table_factory (bc_options c) = TitanFactoryAt i"
      by (rule opened_cf [OF f(5) i f(3,2)])
    then show ?thesis using f(4,6) init i by (simp add: base_NewTableBuilder_def NewTableBuilder_def Let_def TitanTableFactory_new_def)
  qed
  with True f init show ?thesis by simp
qed (use op in \<open>auto simp: TitanDBImpl_Open_def split: option.splits if_splits\<close>)

theorem open_all_or_nothing_witness:
  "\<exists>t. TitanDBImpl_Open demo_base (demo_tables OK) [demo_descriptor] (TitanDBImpl_new demo_db_options ''db'' demo_new_disk 5 []) = Some (OK, [0], t) \<and>
     ti_lock t \<and> tb_initialized (ti_core t)"
proof -
  obtain t where "TitanDBImpl_Open demo_base (demo_tables OK) [demo_descriptor] (TitanDBImpl_new demo_db_options ''db'' demo_new_disk 5 []) = Some (OK, [0], t)"
    by (rule demo_opens [unfolded demo_object_def])
  from open_all_or_nothing [OF this demo_base_opens] this show ?thesis by simp
qed

text \<open>C21: a new run mode takes effect.  After \<open>SetOptions\<close> has set the run mode of a column family of a reachable
  database, new tables of the column family are built in that mode, its storage and the reported options have it, and the
  tables and storages of other column families are as before.\<close>

theorem run_mode_takes_effect:
  assumes reach: "db_reach t" and set: "SetOptions cf opts t = Some (OK, t')"
    and str: "map_of opts ''blob_run_mode'' = Some str" "map_of blob_run_mode_string_map str = Some mode"
  shows "(\<forall>level base. \<exists>tb. base_NewTableBuilder cf level base t' = Some (Inr tb) \<and> co_blob_run_mode (tt_opts tb) = mode) \<and>
    (\<exists>bs. GetBlobStorage (ti_fileset t') cf = Some bs \<and> co_blob_run_mode (cf_options bs) = mode) \<and>
    (\<exists>o1 f. GetTitanOptions cf t' = Some (o1, f) \<and> co_blob_run_mode o1 = mode) \<and>
    (\<forall>k. k \<noteq> cf \<longrightarrow> map_of (ti_cf_info t) k \<noteq> None \<longrightarrow> GetBlobStorage (ti_fileset t') k = GetBlobStorage (ti_fileset t) k \<and>
       (\<forall>level base. base_NewTableBuilder k level base t' = base_NewTableBuilder k level base t))"
proof -
  have ok: "db_ok t" by (rule db_reach_ok [OF reach])
  obtain s1 t1 where n: "(if al_erase ''blob_run_mode'' opts = [] then (OK, t) else ti_next t) = (s1, t1)" by fastforce
  have t1: "ti_core t1 = ti_core t" "ti_cf_info t1 = ti_cf_info t" "ti_factories t1 = ti_factories t" "ti_base t1 = ti_base t"
    using n by (auto simp: ti_next_def split: if_splits list.splits)
  have m: "set_run_mode cf mode t1 = Some t'" using set n str by (auto simp: SetOptions_def Let_def split: if_splits)
  obtain info where i: "map_of (ti_cf_info t) cf = Some info" using m t1 by (auto simp: set_run_mode_def split: option.splits)
  obtain b where b: "ti_base t = Some b" and wf: "cf_wf b (ti_cf_info t) (ti_factories t) (fs_columns (ti_fileset t))" by (rule db_okE [OF ok])
  let ?a = "ci_titan_table_factory info"
  have t': "ti_base t' = Some b" "ti_factories t' = (ti_factories t)[?a := (ti_factories t ! ?a)\<lparr>fy_blob_run_mode := mode\<rparr>]"
    "ti_cf_info t' = al_modify cf (\<lambda>i. i\<lparr>ci_blob_run_mode := mode\<rparr>) (ti_cf_info t)" "tb_initialized (ti_core t') = tb_initialized (ti_core t)"
    "fs_columns (ti_fileset t') = al_modify cf (SetBlobRunMode mode) (fs_columns (ti_fileset t))"
    using m i t1 b by (auto simp: set_run_mode_def Let_def factory_SetBlobRunMode_def ti_fileset_def set_cf_info_def ti_set_fileset_def)
  have init: "tb_initialized (ti_core t)" using ok by (simp add: db_ok_def)
  obtain c opts' where c: "map_of (bd_cfs b) cf = Some c" "cn_table_factory (bc_options c) = TitanFactoryAt ?a" "?a < length (ti_factories t)"
    "conf_at (fs_columns (ti_fileset t)) cf = Some (opts', ci_blob_run_mode info, False)" by (rule info_okE [OF cf_wfD(6) [OF wf i]])
  have "\<exists>tb. base_NewTableBuilder cf level base t' = Some (Inr tb) \<and> co_blob_run_mode (tt_opts tb) = mode" for level base
    using c t' init by (simp add: base_NewTableBuilder_def NewTableBuilder_def Let_def TableBuilder_new_def)
  moreover have "\<exists>bs. GetBlobStorage (ti_fileset t') cf = Some bs \<and> co_blob_run_mode (cf_options bs) = mode"
    using c(4) by (auto simp: GetBlobStorage_def t' map_of_al_modify conf_at_Some SetBlobRunMode_def cf_options_def)
  moreover have "\<exists>o1 f. GetTitanOptions cf t' = Some (o1, f) \<and> co_blob_run_mode o1 = mode"
    using c(1) i by (simp add: GetTitanOptions_def GetOptions_def t' map_of_al_modify TitanCFOptions_join_def)
  moreover have "GetBlobStorage (ti_fileset t') k = GetBlobStorage (ti_fileset t) k" if "k \<noteq> cf" for k
    using that by (simp add: GetBlobStorage_def t' map_of_al_modify)
  moreover have "base_NewTableBuilder k level base t' = base_NewTableBuilder k level base t"
    if k: "k \<noteq> cf" "map_of (ti_cf_info t) k \<noteq> None" for k level base
  proof -
    obtain j where j: "map_of (ti_cf_info t) k = Some j" using k(2) by blast
    have "ci_titan_table_factory j \<noteq> ?a" using cf_wfD(7) [OF wf j i] k(1) by blast
    moreover obtain d where "map_of (bd_cfs b) k = Some d" "cn_table_factory (bc_options d) = TitanFactoryAt (ci_titan_table_factory j)"
      by (rule info_okE [OF cf_wfD(6) [OF wf j]])
    ultimately show ?thesis by (simp add: base_NewTableBuilder_def NewTableBuilder_def t' b)
  qed
  ultimately show ?thesis by blast
qed

theorem run_mode_takes_effect_witness:
  "\<exists>t t' bs. db_reach t \<and> SetOptions 0 [(''blob_run_mode'', ''kFallback'')] t = Some (OK, t') \<and>
     GetBlobStorage (ti_fileset t') 0 = Some bs \<and> co_blob_run_mode (cf_options bs) = kFallback"
proof -
  obtain t where t: "db_reach t" "map_of (ti_cf_info t) 0 = Some (cf_info_of 0 demo_descriptor)" by (rule demo_reached)
  have "\<exists>t'. SetOptions 0 [(''blob_run_mode'', ''kFallback'')] t = Some (OK, t')"
    using t(2) by (simp add: SetOptions_def al_erase_def blob_run_mode_string_map_def set_run_mode_def Let_def)
  then obtain t' where t': "SetOptions 0 [(''blob_run_mode'', ''kFallback'')] t = Some (OK, t')" by blast
  from run_mode_takes_effect [OF t(1) t', of "''kFallback''" kFallback] t(1) t' show ?thesis by (auto simp: blob_run_mode_string_map_def)
qed

text \<open>the reported options are not the options.  For every column family an opened database was given, \<open>GetTitanOptions\<close>
  reports the table factory of the user and the options of the descriptor, but level merge, range merge, bitmaps and the
  accelerator are always reported as disabled, and the number of sorted runs and the options of the dictionary as their
  defaults.\<close>

theorem reported_options_lost:
  assumes "TitanDBImpl_Open ob tables descs (TitanDBImpl_new options dbname disk q io) = Some (OK, ids, t)" "base_opens ob" "i < length descs"
  shows "GetTitanOptions (ids ! i) t = Some ((ds_options (descs ! i))\<lparr>co_level_merge := False, co_range_merge := False, co_max_sorted_runs := 20,
      co_use_bitmap := False, co_gc_offload := False, co_max_dict_bytes := 0, co_zstd_max_train_bytes := 0\<rparr>,
    Some (cn_table_factory (ds_base (descs ! i))))"
proof -
  obtain mx b where f: "length ids = length descs" "distinct ids" "ti_base t = Some b" "base_keeps (opened_base ids descs mx) b"
    "ti_cf_info t = zip ids (map (\<lambda>(i, d). cf_info_of i d) (List.enumerate 0 descs))" by (rule Open_facts [OF assms(1,2)])
  have info: "map_of (ti_cf_info t) (ids ! i) = Some (cf_info_of i (descs ! i))" unfolding f(5) by (rule map_of_opened_infos [OF assms(3) f(2,1)])
  obtain c where c: "map_of (bd_cfs b) (ids ! i) = Some c" "bc_num_levels c = co_num_levels (ds_options (descs ! i))"
    "bc_less c = co_less (ds_options (descs ! i))" by (rule opened_cf [OF f(4) assms(3) f(2,1)])
  show ?thesis
    using c f(3) info
    by (cases "ds_options (descs ! i)")
      (simp add: GetTitanOptions_def GetOptions_def TitanCFOptions_join_def cf_info_of_def ImmutableTitanCFOptions_new_def)
qed

theorem reported_options_lost_witness:
  "\<exists>t opts f. TitanDBImpl_Open demo_base (demo_tables OK) [demo_descriptor] (TitanDBImpl_new demo_db_options ''db'' demo_new_disk 5 []) = Some (OK, [0], t) \<and>
     GetTitanOptions 0 t = Some (opts, f) \<and> co_use_bitmap demo_builder_options \<and> \<not> co_use_bitmap opts"
proof -
  obtain t where "TitanDBImpl_Open demo_base (demo_tables OK) [demo_descriptor] (TitanDBImpl_new demo_db_options ''db'' demo_new_disk 5 []) = Some (OK, [0], t)"
    by (rule demo_opens [unfolded demo_object_def])
  from reported_options_lost [OF this demo_base_opens, of 0] this show ?thesis by (simp add: demo_builder_options_def)
qed

text \<open>C31: a failed start of collections goes unnoticed.  When the flush of the first column family fails at the end of an
  open in which nothing else fails, the open succeeds all the same and the database counts as initialized: its file set is
  the one recovery left, no file of which has got its live bytes or its state, and no collection is queued.\<close>

theorem initialize_failure_ignored:
  assumes desc: "ValidateOptions descs = OK" "descs \<noteq> []" "co_gc_offload (ds_options (hd descs)) \<longrightarrow> co_use_bitmap (ds_options (hd descs))"
    and ids: "length ids = length descs" and flush: "fst (tables (hd ids)) \<noteq> OK"
    and fs: "Titan_FileSet.Open (do_statistics options) (storage_options ids descs) (BlobFileSet_new disk) = Some (OK, fs)"
  shows "\<exists>t. TitanDBImpl_Open (\<lambda>_. Inr (ids, mx)) tables descs (TitanDBImpl_new options dbname disk q []) = Some (OK, ids, t) \<and>
    tb_initialized (ti_core t) \<and> ti_fileset t = fs \<and> sc_queue (tb_sched (ti_core t)) = [] \<and> sc_pool (tb_sched (ti_core t)) = 0"
proof -
  have "InitializeGC (map (\<lambda>cf. \<lparr>cg_id = cf, cg_flush = fst (tables cf), cg_tables = snd (tables cf)\<rparr>) ids) core = Some (fst (tables (hd ids)), core)"
    if "\<not> tb_initialized core" for core
    using flush that ids desc(2) by (cases ids) (auto simp: InitializeGC_def)
  then show ?thesis
    using open_clean [OF desc ids fs, of tables "\<lambda>core core'. core' = core" mx dbname q]
    by (auto simp: Scheduler_new_def ti_fileset_def)
qed

theorem initialize_failure_ignored_witness:
  "\<exists>t. TitanDBImpl_Open (\<lambda>_. Inr ([0], 0)) (demo_tables (IOError [])) [demo_descriptor] (TitanDBImpl_new demo_db_options ''db'' demo_new_disk 5 []) = Some (OK, [0], t) \<and>
     tb_initialized (ti_core t) \<and> sc_queue (tb_sched (ti_core t)) = []"
proof -
  obtain fs where fs: "Titan_FileSet.Open (do_statistics demo_db_options) (storage_options [0] [demo_descriptor]) (BlobFileSet_new demo_new_disk) = Some (OK, fs)"
    by (rule demo_fileset_opens) (simp add: demo_db_options_def)
  from initialize_failure_ignored [OF demo_descriptor_valid(1) _ _ _ _ fs, of "demo_tables (IOError [])" 0 "''db''" 5] demo_descriptor_valid(2) show ?thesis
    by (auto simp: demo_tables_def)
qed

lemma ve_cf_foldl: "ve_cf (foldl (\<lambda>e p. VersionEdit_AddBlobFile (f p) e) e xs) = ve_cf e"
  by (induction xs arbitrary: e) (simp_all add: VersionEdit_AddBlobFile_def)

text \<open>C32: destroying a handle forgets the blob files.  When a handle of a column family that was never dropped is destroyed and
  no file of the column family waits for deletion, its storage is removed although its files are live and the base database
  still has the column family: a checkpoint has no edit with its files any more, and the report of its next flush fails.\<close>

theorem destroyed_handle_forgets_files:
  assumes reach: "db_reach t" and base: "ti_base t = Some b" "map_of (bd_cfs b) cf = Some c" "\<not> bc_dropped c"
    and info: "map_of (ti_cf_info t) cf = Some info" and bs: "GetBlobStorage (ti_fileset t) cf = Some bs" "bs_obsolete bs = []"
  shows "\<exists>t'. DestroyColumnFamilyHandle (Some \<lparr>ch_id = cf, ch_default = False\<rparr>) t = Some (OK, t') \<and> ti_base t' = Some b \<and>
    GetBlobStorage (ti_fileset t') cf = None \<and> (\<forall>e \<in> set (snd (FileSet_GetAllFiles (ti_fileset t'))). ve_added e = [] \<or> ve_cf e \<noteq> cf) \<and>
    (\<forall>props. OnFlushCompleted props cf (ti_core t') = None)"
proof -
  let ?fs = "ti_fileset t"
  let ?fs' = "?fs\<lparr>fs_obsolete_columns := removeAll cf (fs_obsolete_columns ?fs), fs_columns := al_erase cf (fs_columns ?fs)\<rparr>"
  let ?t' = "set_cf_info (al_erase cf (ti_cf_info t)) (ti_set_fileset ?fs' t)"
  have m: "MaybeDestroyColumnFamily cf ?fs = (OK, ?fs')"
    using bs by (simp add: MaybeDestroyColumnFamily_def GetBlobStorage_def MaybeRemove_def MarkDestroyed_def)
  have d: "DestroyColumnFamilyHandle (Some \<lparr>ch_id = cf, ch_default = False\<rparr>) t = Some (OK, ?t')"
    using m info by (simp add: DestroyColumnFamilyHandle_def base_DestroyColumnFamilyHandle_def)
  have gone: "GetBlobStorage (ti_fileset ?t') cf = None" by (simp add: GetBlobStorage_def map_of_al_erase)
  have "ve_added e = [] \<or> ve_cf e \<noteq> cf" if "e \<in> set (snd (FileSet_GetAllFiles (ti_fileset ?t')))" for e
    using that by (auto simp: FileSet_GetAllFiles_def ve_cf_foldl SetColumnFamilyID_def SetNextFileNumber_def VersionEdit_new_def al_erase_def)
  moreover have "OnFlushCompleted props cf (ti_core ?t') = None" for props
    using gone by (auto simp: OnFlushCompleted_def db_storage_def ti_fileset_def Let_def split: prod.splits)
  ultimately show ?thesis using d gone base(1) by (intro exI [of _ ?t']) simp
qed

theorem destroyed_handle_forgets_files_witness:
  "\<exists>t t'. db_reach t \<and> DestroyColumnFamilyHandle (Some \<lparr>ch_id = 0, ch_default = False\<rparr>) t = Some (OK, t') \<and>
     GetBlobStorage (ti_fileset t) 0 \<noteq> None \<and> GetBlobStorage (ti_fileset t') 0 = None"
proof -
  let ?bs = "ComputeGCScore (BlobStorage_new (TitanCFOptions.truncate demo_builder_options) 0 None)"
  obtain t b c where t: "db_reach t" "ti_base t = Some b" "map_of (bd_cfs b) 0 = Some c" "\<not> bc_dropped c"
    "map_of (ti_cf_info t) 0 = Some (cf_info_of 0 demo_descriptor)" "GetBlobStorage (ti_fileset t) 0 = Some ?bs" by (rule demo_reached)
  have "bs_obsolete ?bs = []" by (simp add: BlobStorage_new_def)
  from destroyed_handle_forgets_files [OF t this] t(1,6) show ?thesis by blast
qed

end
