(* ===== verification/Titan_Seek.thy ===== *)
theory Titan_Seek
  imports Titan_Iterator
begin

text \<open>
  Looking for the record at an offset of a blob file (\<open>IterateForPrev\<close>): the loop over the headers of the
  records ends whatever the file holds, as long as offsets and record sizes cannot wrap around.
\<close>

lemma unat_step:
  fixes d :: u64
  assumes "x < off" "unat off + 2 ^ 33 \<le> 2 ^ 64" "unat d \<le> 2 ^ 33" "0 < d"
  shows "unat (x + d) = unat x + unat d" "x < x + d"
proof -
  have u: "unat x < unat off" "0 < unat d" using assms(1,4) by (simp_all add: word_less_nat_alt)
  then have s: "unat x + unat d < 2 ^ 64" using assms(2,3) by linarith
  then show e: "unat (x + d) = unat x + unat d" by (simp add: unat_word_ariths)
  then show "x < x + d" using u(2) by (simp add: word_less_nat_alt)
qed

lemma record_step:
  "unat (of_nat kRecordHeaderSize + ucast (n :: u32) :: u64) = kRecordHeaderSize + unat n"
  using unsigned_less [of n, where ?'a = nat] by (simp add: unat_word_ariths unat_ucast_u32_u64 kRecordHeaderSize_def)

lemma prev_loop_returns:
  assumes "unat off + 2 ^ 33 \<le> 2 ^ 64"
  shows "\<exists>found st it'. prev_loop off step_len it = Some (found, st, it') \<and> (if found then off \<le> it_offset it' \<and>
    (it_offset it' = it_offset it \<and> st = step_len \<or> it_offset it' - st < off) else it_offset it' < off)"
  using assms
proof (induction "unat off - unat (it_offset it)" arbitrary: step_len it rule: less_induct)
  case less
  show ?case
  proof (cases "it_offset it < off")
    case True
    obtain s hdr f1 where r: "file_Read (it_offset it) (of_nat kRecordHeaderSize) (it_file it) = ((s, hdr), f1)" by (metis surj_pair)
    show ?thesis
    proof (cases "\<exists>d rest. s = OK \<and> DecodeHeader hdr = Inr (d, rest)")
      case False
      then have "\<exists>it'. prev_loop off step_len it = Some (False, step_len, it') \<and> it_offset it' = it_offset it"
        using True r by (subst prev_loop.simps) (auto simp: Let_def split: sum.splits)
      then show ?thesis using True by (metis (no_types, lifting))
    next
      case d: True
      then obtain d rest where d: "s = OK" "DecodeHeader hdr = Inr (d, rest)" by blast
      let ?n = "of_nat kRecordHeaderSize + ucast (dec_record_size d) :: u64"
      let ?it = "it\<lparr>it_file := f1, it_status := OK, it_index := it_index it + 1, it_offset := it_offset it + ?n\<rparr>"
      have n: "unat ?n \<le> 2 ^ 33" "0 < ?n"
        using record_step [of "dec_record_size d"] unsigned_less [of "dec_record_size d", where ?'a = nat]
        by (simp_all add: word_less_nat_alt kRecordHeaderSize_def)
      note st = unat_step [OF True less.prems n]
      have lp: "prev_loop off step_len it = prev_loop off ?n ?it" using True r d by (subst prev_loop.simps) (simp add: Let_def)
      have "unat off - unat (it_offset ?it) < unat off - unat (it_offset it)"
        using st(2) True by (simp add: word_less_nat_alt)
      from less.hyps [OF this less.prems, of ?n] obtain found sl it' where i: "prev_loop off ?n ?it = Some (found, sl, it')"
        "if found then off \<le> it_offset it' \<and> (it_offset it' = it_offset ?it \<and> sl = ?n \<or> it_offset it' - sl < off) else it_offset it' < off" by blast
      then show ?thesis using lp True by (intro exI [of _ found] exI [of _ sl] exI [of _ it']) auto
    qed
  next
    case False
    then show ?thesis by (subst prev_loop.simps) (auto simp: not_less)
  qed
qed

text \<open>C30: looking for the record before an offset ends.  Whatever the file holds, and whatever its reads give,
  \<open>IterateForPrev\<close> of an initialized iterator on a file below \<open>2\<^sup>64 - 2\<^sup>33\<close> bytes returns, and then it
  stands at an offset that is not behind the one asked for, when that one is not inside the header of the file.\<close>

theorem iterate_for_prev_returns:
  assumes "it_init it" "unat (it_end it) + 2 ^ 33 \<le> 2 ^ 64" "it_header_size it \<le> off"
  shows "\<exists>it'. IterateForPrev lib off it = Some it' \<and> it_offset it' \<le> off"
proof (cases "off \<ge> it_end it")
  case True
  then show ?thesis using assms(1) by (simp add: IterateForPrev_def)
next
  case False
  let ?it = "it\<lparr>it_status := OK, it_offset := it_header_size it, it_index := 0\<rparr>"
  have "unat off + 2 ^ 33 \<le> 2 ^ 64" using False assms(2) by (simp add: word_le_nat_alt)
  note r = prev_loop_returns [OF this, of 0 ?it]
  have eq: "it_offset ?it = it_header_size it" by simp
  obtain found st it' where l: "prev_loop off 0 ?it = Some (found, st, it')"
    "if found then off \<le> it_offset it' \<and> (it_offset it' = it_header_size it \<and> st = 0 \<or> it_offset it' - st < off) else it_offset it' < off"
    using r unfolding eq by blast
  show ?thesis
  proof (cases found)
    case True
    then show ?thesis using l False assms(1,3) by (auto simp: IterateForPrev_def Let_def)
  next
    case nf: False
    then show ?thesis using l False assms(1) by (auto simp: IterateForPrev_def Let_def)
  qed
qed

theorem iterate_for_prev_returns_witness:
  "\<forall>lib. \<exists>it'. IterateForPrev lib 15 ((BlobFileIterator_new (read_only (replicate 40 7)) 3 40 300000 9)\<lparr>it_init := True, it_end := 30, it_header_size := 8\<rparr>) = Some it' \<and>
     it_offset it' \<le> 15"
  using iterate_for_prev_returns [of "(BlobFileIterator_new (read_only (replicate 40 7)) 3 40 300000 9)\<lparr>it_init := True, it_end := 30, it_header_size := 8\<rparr>" 15]
  by simp

end
