(* ===== verification/Spec2Isabelle.thy ===== *)
theory Spec2Isabelle
  imports Titan_GCSafe Titan_WriteBack Titan_Hardware Titan_GCErrors Titan_TableBuilder Titan_Filter Titan_Checkpoint Titan_Database Titan_Seek
begin

text \<open>
  Verification of AegonKV (\<open>src/AegonKV\<close>), a key-value separated storage engine built from Titan and RocksDB, with a
  garbage collector that can run on an accelerator.

  \<^bold>\<open>The program.\<close>  Large values are kept outside the LSM tree of the base database, in blob files; the tree holds an index
  (file, offset, record number) in their place.  The table builder separates values when a table is flushed or compacted and
  writes blob files.  The blob file set keeps, for every column family, a storage with the metadata of its files, and logs
  every change to a manifest that recovery replays.  Flushes and compactions report which records their tables refer to; the
  handlers keep the live bytes and a bitmap of dead records of every file from these reports and queue collections.  A
  collection picks files with much dead data, copies their live records to a new file, writes new indexes back to the base
  database and deletes the inputs once no snapshot needs them.  On the accelerator, the records are copied by a kernel and the
  write-back is not checked when it is written: reads and compactions of the base database check it later.

  \<^bold>\<open>Conventions.\<close>  Integers have their widths (\<open>Word\<close>) and wrap around.  Byte strings are lists of bytes, hash and ordered
  maps are association lists where their order or duplicates matter, and maps elsewhere.  A \<open>Status\<close> is a value of
  \<open>status\<close>.  A failing assertion, an access out of range and a wait or loop that does not end have the value
  \<open>None\<close>; every theorem that says an operation returns states \<open>Some\<close>.  The outcomes of file operations, of the base
  database and of compression libraries are inputs: lists of outcomes that are used up (an empty list stands for success), or
  functions with named assumptions.  Doubles are rationals with infinities and NaN.  Log lines, tickers and timers are left
  out.

  \<^bold>\<open>Theories, in the order of the layers.\<close>
  \<^item> \<open>Titan_Prelude\<close>: types, statuses, association lists, words.
  \<^item> \<open>Titan_Coding\<close> (\<open>util/coding.h\<close>, \<open>util/coding_lean.h\<close>): fixed and variable-length integers and slices; each is
    a \<open>codec\<close>, the locale of encoders whose decoder takes exactly the encoded bytes.
  \<^item> \<open>Titan_Crc\<close> (\<open>util/crc32c.cc\<close>, \<open>hardware/kernel/src/crc.h\<close>): the table-driven checksum is the division of the
    polynomial; the kernel computes the same.
  \<^item> \<open>Titan_BitMap\<close> (\<open>blob_validation_check\<close>): bitmaps as sets of dead records (locale \<open>dead_set\<close>).
  \<^item> \<open>Titan_BlobFormat\<close> (\<open>blob_format\<close>, \<open>util.cc\<close>): records, handles, indexes, headers, footers, file metadata and
    its states; \<open>Titan_VersionEdit\<close> (\<open>version_edit\<close>): manifest records.
  \<^item> \<open>Titan_Storage\<close> (\<open>blob_storage\<close>): one column family's files, with its invariant; the locale \<open>file_store\<close> states what
    adding and deleting files promise.
  \<^item> \<open>Titan_FileSet\<close> (\<open>edit_collector.h\<close>, \<open>blob_file_set\<close>) and \<open>Titan_Recovery\<close>: logging, applying, snapshots and
    recovery; an edit is applied as a whole or not at all, and recovery restores the state the manifest describes.
  \<^item> \<open>Titan_GCPicker\<close> (\<open>blob_gc_picker\<close>, \<open>blob_gc\<close>), \<open>Titan_Collectors\<close> (\<open>blob_file_size_collector\<close>,
    \<open>blob_validation_collector\<close>), \<open>Titan_Scheduler\<close> (\<open>db_impl_gc.cc\<close>, \<open>db_impl.h\<close>): the choice of files, table
    properties, and the queue of collections as a step relation with an invariant of all interleavings.
  \<^item> \<open>Titan_Events\<close>, \<open>Titan_Accounting\<close> (\<open>db_impl.cc\<close>, \<open>db_impl_gc.cc\<close>): the handlers of flushes and compactions and
    the start of collections; live bytes and bitmaps follow the indexes in the tables, in whichever order the reports come.
    The locale \<open>file_loop\<close> carries the loops over files.
  \<^item> \<open>Titan_BlobFile\<close> (\<open>blob_file_builder\<close>, \<open>blob_file_reader\<close>), \<open>Titan_Iterator\<close> and \<open>Titan_Seek\<close>
    (\<open>blob_file_iterator\<close>): what is written is read and iterated, alone and merged; the locale \<open>cursor\<close> is the contract
    of an iterator, and the iterator of a file and both directions of the database iterator are instances.
  \<^item> \<open>Titan_Read\<close> (\<open>db_impl.cc\<close>, \<open>blob_file_cache.cc\<close>), \<open>Titan_GCJob\<close>, \<open>Titan_Relocation\<close>, \<open>Titan_Collecting\<close>,
    \<open>Titan_GCSafe\<close>, \<open>Titan_GCErrors\<close> (\<open>blob_gc_job.cc\<close>): reads, writes, and a whole collection with other threads
    writing in between: readers see the same values before and after.
  \<^item> \<open>Titan_WriteBack\<close> (RocksDB's \<open>compaction_iterator.cc\<close>, \<open>memtable.cc\<close>, as changed here): how an unchecked write-back
    is resolved, and two ways in which it is not.
  \<^item> \<open>Titan_Kernel\<close>, \<open>Titan_Hardware\<close> (\<open>hardware/kernel/src\<close>, \<open>hadware_gc_driver.cc\<close>): the kernel copies exactly the
    live records, from the input buffers of the driver to the indexes that are written back.
  \<^item> \<open>Titan_TableBuilder\<close> (\<open>table_builder\<close>): a table with separated values reads as the entries that were added.
  \<^item> \<open>Titan_DBIter\<close> (\<open>db_iter.h\<close>), \<open>Titan_Filter\<close> (\<open>compaction_filter.h\<close>), \<open>Titan_Checkpoint\<close>
    (\<open>titan_checkpoint_impl.cc\<close>, \<open>db_impl_files.cc\<close>): iterators agree with reads, filters see values, checkpoints open.
  \<^item> \<open>Titan_DeleteRange\<close> (\<open>db_impl.cc\<close>; RocksDB's \<open>db_impl.cc\<close>, \<open>version_set.cc\<close>): deletion of the tables in ranges of keys.
    Titan and the base database choose the same tables, all within the ranges, and live bytes stay exact.
  \<^item> \<open>Titan_Open\<close>, \<open>Titan_Confs\<close>, \<open>Titan_Lifecycle\<close>, \<open>Titan_Database\<close> (\<open>db.cc\<close>, \<open>db_impl.cc\<close>, \<open>options.cc\<close>,
    \<open>table_factory.cc\<close>, \<open>base_db_listener.cc\<close>): opening, closing, column families and options.  Table factories are
    shared objects in a store.  The locale \<open>conf_loop\<close> says that no loop over files changes a storage's configuration;
    the steps of an open database are an inductive relation, and its invariant ties the base database, \<open>cf_info_\<close>, the
    factories and the storages together.

  \<^bold>\<open>Loops and bounds.\<close>  Most loops are structural or have a measure.  Three are partial functions into \<open>option\<close>, and that
  they return is proved: the loop of a collection (\<open>gc_loop\<close>), which takes one record of its inputs in every round; the
  doubling of the read-ahead window (\<open>grow_window\<close>), which stops at its largest size; and the search of a record by its
  offset (\<open>prev_loop\<close>), which needs a file below \<open>2\<^sup>64 - 2\<^sup>33\<close> bytes so that offsets do not wrap around.
  Assumptions on sizes (records below 4 GiB, ids of column families below \<open>2\<^sup>32\<close>) are those of the formats.

  \<^bold>\<open>Where the code does not do what it means to.\<close>  Theorems named after what goes wrong state it exactly: damage in the
  manifest, failed opens of inputs, failed reads in a merge and failed links of a checkpoint go unnoticed; level merge
  deletes nothing; a refused drop stops all collections; a failed start of collections is forgotten; destroying a handle
  forgets the files of a live column family; a compaction filter cannot see the first record of a file; and an unchecked
  write-back can win over a user's write.

  \<^bold>\<open>Not modelled.\<close>  The LSM tree of the base database, its log, memory tables and version set, beyond the parts named above:
  it is a map from keys to entries, a list of column families, and outcomes.  The dump of statistics and options and all
  other output; the handling of the OpenCL device and the stand-alone driver of the kernel's tests; benchmarks, stress tests
  and dump tools; the Java bindings and the tests of RocksDB.  Two threads inside one critical section do not occur: steps are
  the sections under the mutexes.
\<close>

end
